(* ===== verification/Prelude.thy ===== *)
theory Prelude
  imports Main "HOL-Library.Word" "HOL-Library.Monad_Syntax"
begin

unbundle bit_operations_syntax

text \<open>
  Shared vocabulary of the development: the fixed-width integer types of
  \<^verbatim>\<open>src/brtos/includes/OS_types.h\<close>, pointers into a C array as optional indices,
  checked array accesses (the result \<^term>\<open>None\<close> stands for undefined behaviour of the C
  program: an access outside the array or through a null pointer), and the lemmas on words
  seen as sets of priorities that every component uses.
\<close>

section \<open>Machine types\<close>

type_synonym uint8_t = "8 word"
type_synonym uint16_t = "16 word"
type_synonym uint32_t = "32 word"
type_synonym PriorityType = "32 word"
type_synonym ostick_t = "16 word"
type_synonym osdtick_t = "32 word"
type_synonym OS_CPU_TYPE = "32 word"
type_synonym BRTOS_TH = "32 word"

text \<open>A pointer to an element of a C array: \<^term>\<open>None\<close> is the null pointer.\<close>

type_synonym ptr = "nat option"

named_theorems prio_simps \<open>priority masks as sets of priorities\<close>
named_theorems array_simps \<open>checked array accesses\<close>

section \<open>Checked array accesses\<close>

definition rd :: "'a list \<Rightarrow> nat \<Rightarrow> 'a option" where
  "rd xs i = (if i < length xs then Some (xs ! i) else None)"

definition wr :: "'a list \<Rightarrow> nat \<Rightarrow> 'a \<Rightarrow> 'a list option" where
  "wr xs i v = (if i < length xs then Some (xs[i := v]) else None)"

definition upd :: "'a list \<Rightarrow> nat \<Rightarrow> ('a \<Rightarrow> 'a) \<Rightarrow> 'a list option" where
  "upd xs i f = (if i < length xs then Some (xs[i := f (xs ! i)]) else None)"

definition deref :: "'a list \<Rightarrow> ptr \<Rightarrow> 'a option" where
  "deref xs p = (case p of None \<Rightarrow> None | Some i \<Rightarrow> rd xs i)"

definition assign :: "'a list \<Rightarrow> ptr \<Rightarrow> 'a \<Rightarrow> 'a list option" where
  "assign xs p v = (case p of None \<Rightarrow> None | Some i \<Rightarrow> wr xs i v)"

lemma rd_in [array_simps, simp]: "i < length xs \<Longrightarrow> rd xs i = Some (xs ! i)"
  by (simp add: rd_def)

lemma rd_out [simp]: "length xs \<le> i \<Longrightarrow> rd xs i = None"
  by (simp add: rd_def)

lemma rd_eq_Some: "rd xs i = Some v \<longleftrightarrow> i < length xs \<and> v = xs ! i"
  by (auto simp: rd_def)

lemma wr_in [array_simps, simp]: "i < length xs \<Longrightarrow> wr xs i v = Some (xs[i := v])"
  by (simp add: wr_def)

lemma wr_eq_Some: "wr xs i v = Some ys \<longleftrightarrow> i < length xs \<and> ys = xs[i := v]"
  by (auto simp: wr_def)

lemma upd_in [array_simps, simp]: "i < length xs \<Longrightarrow> upd xs i f = Some (xs[i := f (xs ! i)])"
  by (simp add: upd_def)

lemma upd_eq_Some: "upd xs i f = Some ys \<longleftrightarrow> i < length xs \<and> ys = xs[i := f (xs ! i)]"
  by (auto simp: upd_def)

lemma deref_Some [array_simps, simp]: "deref xs (Some i) = rd xs i"
  by (simp add: deref_def)

lemma deref_None [simp]: "deref xs None = None"
  by (simp add: deref_def)

lemma assign_Some [array_simps, simp]: "assign xs (Some i) v = wr xs i v"
  by (simp add: assign_def)

lemma assign_None [simp]: "assign xs None v = None"
  by (simp add: assign_def)

lemma deref_eq_Some: "deref xs p = Some v \<longleftrightarrow> (\<exists>i. p = Some i \<and> i < length xs \<and> v = xs ! i)"
  by (auto simp: deref_def rd_def split: option.splits if_splits)

lemma nth_list_update_if:
  "i < length xs \<Longrightarrow> xs[i := v] ! j = (if j = i then v else xs ! j)"
  by (auto simp: nth_list_update)

lemma unat_ucast_8_32: "unat (ucast (x :: uint8_t) :: uint32_t) = unat x"
  using unsigned_less [of x, where 'a = nat] by (simp add: unsigned_ucast_eq take_bit_nat_eq_self)

section \<open>Words as sets of priorities\<close>

definition prios :: "'a::len word \<Rightarrow> nat set" where
  "prios w = {i. bit w i}"

lemma mem_prios [prio_simps]: "i \<in> prios w \<longleftrightarrow> bit w i"
  by (simp add: prios_def)

lemma prios_bound: "i \<in> prios (w :: 'a::len word) \<Longrightarrow> i < LENGTH('a)"
  by (simp add: prios_def bit_imp_le_length)

lemma finite_prios [simp]: "finite (prios (w :: 'a::len word))"
  by (rule finite_subset [of _ "{..<LENGTH('a)}"]) (auto dest: prios_bound)

lemma card_prios_le: "card (prios (w :: 'a::len word)) \<le> LENGTH('a)"
proof -
  have "prios w \<subseteq> {..<LENGTH('a)}" by (auto dest: prios_bound)
  then have "card (prios w) \<le> card {..<LENGTH('a)}" by (rule card_mono [rotated]) simp
  then show ?thesis by simp
qed

lemma prios_0 [simp]: "prios (0 :: 'a::len word) = {}"
  by (simp add: prios_def)

lemma prios_empty_iff [simp]: "prios (w :: 'a::len word) = {} \<longleftrightarrow> w = 0"
  by (auto simp: prios_def intro: bit_word_eqI)

lemma prios_eqI: "prios v = prios w \<Longrightarrow> v = (w :: 'a::len word)"
  by (rule bit_word_eqI) (auto simp: prios_def)

lemma prios_or [prio_simps]: "prios (v OR w) = prios v \<union> prios (w :: 'a::len word)"
  by (auto simp: prios_def bit_or_iff)

lemma prios_and [prio_simps]: "prios (v AND w) = prios v \<inter> prios (w :: 'a::len word)"
  by (auto simp: prios_def bit_and_iff)

lemma prios_and_not [prio_simps]: "prios (v AND NOT w) = prios v - prios (w :: 'a::len word)"
  by (auto simp: prios_def bit_and_iff bit_not_iff dest: bit_imp_le_length)

lemma prios_exp [prio_simps]:
  "i < LENGTH('a) \<Longrightarrow> prios (2 ^ i :: 'a::len word) = {i}"
  by (auto simp: prios_def bit_exp_iff)

lemma sorted_list_of_set_Max:
  assumes "finite A" and "A \<noteq> {}"
  shows "sorted_list_of_set A = sorted_list_of_set (A - {Max A}) @ [Max (A :: nat set)]"
proof -
  have "sorted (sorted_list_of_set (A - {Max A}) @ [Max A])"
    using assms by (auto simp: sorted_append)
  moreover have "distinct (sorted_list_of_set (A - {Max A}) @ [Max A])" using assms by simp
  moreover have "set (sorted_list_of_set (A - {Max A}) @ [Max A]) = set (sorted_list_of_set A)"
    using assms Max_in [OF assms] by (auto simp: insert_absorb)
  ultimately show ?thesis by (intro sorted_distinct_set_unique) auto
qed

section \<open>The highest bit of a word from its magnitude\<close>

lemma bit_of_range:
  assumes "2 ^ p \<le> unat (w :: 'a::len word)" and "unat w < 2 ^ Suc p"
  shows "bit w p" and "\<And>q. p < q \<Longrightarrow> \<not> bit w q"
proof -
  have d: "unat w div 2 ^ p = 1"
    using assms by (intro div_nat_eqI) auto
  have "bit (unat w) p"
    by (simp add: bit_iff_odd d)
  then show "bit w p" by (simp add: bit_unsigned_iff)
  fix q assume "p < q"
  then have "2 ^ Suc p \<le> (2::nat) ^ q" by (intro power_increasing) auto
  with assms(2) have "unat w div 2 ^ q = 0" by simp
  then have "\<not> bit (unat w) q" by (simp add: bit_iff_odd)
  then show "\<not> bit w q" by (auto simp: bit_unsigned_iff dest: bit_imp_le_length)
qed

lemma Max_prios_of_range:
  assumes "2 ^ p \<le> unat (w :: 'a::len word)" and "unat w < 2 ^ Suc p"
  shows "p = Max (prios w)" and "p \<in> prios w"
proof -
  note b = bit_of_range [OF assms]
  have "q \<le> p" if "bit w q" for q
    using b(2) [of q] that by (meson leI)
  with b(1) show "p = Max (prios w)"
    by (intro Max_eqI [symmetric]) (auto simp: prios_def)
  show "p \<in> prios w" using b(1) by (simp add: prios_def)
qed

end
