(* ===== verification/Scheduler.thy ===== *)
theory Scheduler
  imports Prelude
begin

text \<open>
  The priority scheduler: the mask table of \<^verbatim>\<open>src/brtos/BRTOS.c\<close>, the
  successive-approximation search of \<^verbatim>\<open>SAScheduler\<close> in its three widths (8, 16 and
  32 priorities) and the \<^verbatim>\<open>CLZ\<close>-based search of the Cortex-M4 port. Both searches are
  instances of one interface, the locale \<open>highest_bit\<close>: on a non-empty list they return the
  highest priority in it.
\<close>

section \<open>The mask table\<close>

definition PriorityMask :: "PriorityType list" where
  "PriorityMask =
    [0x01,0x02,0x04,0x08,0x10,0x20,0x40,0x80,0x0100,0x0200,0x0400,0x0800,0x1000,0x2000,0x4000,0x8000,
     0x010000,0x020000,0x040000,0x080000,0x100000,0x200000,0x400000,0x800000,0x01000000,0x02000000,
     0x04000000,0x08000000,0x10000000,0x20000000,0x40000000,0x80000000]"

lemma length_PriorityMask [simp]: "length PriorityMask = 32"
  by (simp add: PriorityMask_def)

lemma PriorityMask_eq: "PriorityMask = map (\<lambda>i. 2 ^ i) [0..<32]"
  by (simp add: PriorityMask_def upt_rec)

lemma PriorityMask_nth: "i < 32 \<Longrightarrow> PriorityMask ! i = 2 ^ i"
  by (simp add: PriorityMask_eq)

lemma prios_PriorityMask [prio_simps]: "i < 32 \<Longrightarrow> prios (PriorityMask ! i) = {i}"
  by (simp add: PriorityMask_nth prios_exp)

lemma rd_PriorityMask [simp]: "unat p < 32 \<Longrightarrow> rd PriorityMask (unat p) = Some (PriorityMask ! unat p)"
  by simp

section \<open>Successive approximation\<close>

definition SA_0_7 :: "'a::len word \<Rightarrow> uint8_t" where
  "SA_0_7 ReadyList =
    (if ReadyList > 0x0F
     then if ReadyList > 0x3F
          then if ReadyList > 0x7F then 7 else 6
          else if ReadyList > 0x1F then 5 else 4
     else if ReadyList > 0x03
          then if ReadyList > 0x07 then 3 else 2
          else if ReadyList > 0x1 then 1 else 0)"

definition SA_8_15 :: "'a::len word \<Rightarrow> uint8_t" where
  "SA_8_15 ReadyList =
    (if ReadyList > 0xFFF
     then if ReadyList > 0x3FFF
          then if ReadyList > 0x7FFF then 15 else 14
          else if ReadyList > 0x1FFF then 13 else 12
     else if ReadyList > 0x3FF
          then if ReadyList > 0x7FF then 11 else 10
          else if ReadyList > 0x1FF then 9 else 8)"

definition SA_16_23 :: "PriorityType \<Rightarrow> uint8_t" where
  "SA_16_23 ReadyList =
    (if ReadyList > 0xFFFFF
     then if ReadyList > 0x3FFFFF
          then if ReadyList > 0x7FFFFF then 23 else 22
          else if ReadyList > 0x1FFFFF then 21 else 20
     else if ReadyList > 0x3FFFF
          then if ReadyList > 0x7FFFF then 19 else 18
          else if ReadyList > 0x1FFFF then 17 else 16)"

definition SA_24_31 :: "PriorityType \<Rightarrow> uint8_t" where
  "SA_24_31 ReadyList =
    (if ReadyList > 0xFFFFFFF
     then if ReadyList > 0x3FFFFFFF
          then if ReadyList > 0x7FFFFFFF then 31 else 30
          else if ReadyList > 0x1FFFFFFF then 29 else 28
     else if ReadyList > 0x3FFFFFF
          then if ReadyList > 0x7FFFFFF then 27 else 26
          else if ReadyList > 0x1FFFFFF then 25 else 24)"

text \<open>The function as compiled for at most 8, at most 16 and at most 32 priorities.\<close>

definition SAScheduler8 :: "uint8_t \<Rightarrow> uint8_t" where
  "SAScheduler8 ReadyList = SA_0_7 ReadyList"

definition SAScheduler16 :: "uint16_t \<Rightarrow> uint8_t" where
  "SAScheduler16 ReadyList =
    (if ReadyList > 0xFF then SA_8_15 ReadyList else SA_0_7 ReadyList)"

definition SAScheduler32 :: "PriorityType \<Rightarrow> uint8_t" where
  "SAScheduler32 ReadyList =
    (if ReadyList > 0xFFFF
     then if ReadyList > 0xFFFFFF then SA_24_31 ReadyList else SA_16_23 ReadyList
     else if ReadyList > 0xFF then SA_8_15 ReadyList else SA_0_7 ReadyList)"

lemmas SA_defs = SA_0_7_def SA_8_15_def SA_16_23_def SA_24_31_def

section \<open>Count leading zeros\<close>

text \<open>
  The \<^verbatim>\<open>CLZ\<close> instruction of the Cortex-M4 port, and the priority computed from it by
  \<^verbatim>\<open>RSB priority, clz, 0x1F\<close> in a 32-bit register that is then narrowed to eight bits.
\<close>

definition CLZ :: "uint32_t \<Rightarrow> uint32_t" where
  "CLZ w = word_of_nat (length (takeWhile (\<lambda>i. \<not> bit w i) (rev [0..<32])))"

definition Optimezed_Scheduler :: "PriorityType \<Rightarrow> uint8_t" where
  "Optimezed_Scheduler read_list = ucast (0x1F - CLZ read_list)"

section \<open>The interface: highest priority in a list\<close>

locale highest_bit =
  fixes sched :: "'a::len word \<Rightarrow> uint8_t"
  assumes sched_mem: "w \<noteq> 0 \<Longrightarrow> unat (sched w) \<in> prios w"
    and sched_greatest: "q \<in> prios w \<Longrightarrow> q \<le> unat (sched w)"
begin

lemma sched_Max: "w \<noteq> 0 \<Longrightarrow> unat (sched w) = Max (prios w)"
  by (intro Max_eqI [symmetric]) (auto simp: sched_mem sched_greatest)

lemma sched_bound: "w \<noteq> 0 \<Longrightarrow> unat (sched w) < LENGTH('a)"
  using sched_mem prios_bound by blast

end

text \<open>Two searches with this contract agree on every non-empty list.\<close>

locale two_searches = a: highest_bit sched1 + b: highest_bit sched2
  for sched1 sched2 :: "'a::len word \<Rightarrow> uint8_t"
begin

lemma agree: "w \<noteq> 0 \<Longrightarrow> sched1 w = sched2 w"
  using a.sched_Max [of w] b.sched_Max [of w] by (simp add: word_unat_eq_iff)

end

section \<open>The searches implement the interface\<close>

lemma unat_pos: "w \<noteq> 0 \<Longrightarrow> 0 < unat (w :: 'a::len word)"
  by (simp add: unat_gt_0)

lemma highest_bit_rangeI:
  assumes r: "\<And>w. w \<noteq> 0 \<Longrightarrow> 2 ^ unat (f w) \<le> unat w \<and> unat w < 2 ^ Suc (unat (f w))"
  shows "highest_bit f"
proof
  fix w :: "'a::len word" assume "w \<noteq> 0"
  with r show "unat (f w) \<in> prios w" by (intro Max_prios_of_range) auto
next
  fix q and w :: "'a::len word" assume q: "q \<in> prios w"
  then have "w \<noteq> 0" by auto
  with r have "unat (f w) = Max (prios w)" by (intro Max_prios_of_range) auto
  with q show "q \<le> unat (f w)" by simp
qed

interpretation sa8: highest_bit SAScheduler8
proof (rule highest_bit_rangeI)
  fix w :: uint8_t assume "w \<noteq> 0"
  then have "0 < unat w" "unat w < 256"
    using unsigned_less [of w] by (simp_all add: unat_pos)
  then show "2 ^ unat (SAScheduler8 w) \<le> unat w \<and> unat w < 2 ^ Suc (unat (SAScheduler8 w))"
    by (simp add: SAScheduler8_def SA_defs word_less_nat_alt)
qed

interpretation sa16: highest_bit SAScheduler16
proof (rule highest_bit_rangeI)
  fix w :: uint16_t assume "w \<noteq> 0"
  then have "0 < unat w" "unat w < 65536"
    using unsigned_less [of w] by (simp_all add: unat_pos)
  then show "2 ^ unat (SAScheduler16 w) \<le> unat w \<and> unat w < 2 ^ Suc (unat (SAScheduler16 w))"
    by (simp add: SAScheduler16_def SA_defs word_less_nat_alt)
qed

interpretation sa32: highest_bit SAScheduler32
proof (rule highest_bit_rangeI)
  fix w :: uint32_t assume "w \<noteq> 0"
  then have "0 < unat w" "unat w < 4294967296"
    using unsigned_less [of w] by (simp_all add: unat_pos)
  then show "2 ^ unat (SAScheduler32 w) \<le> unat w \<and> unat w < 2 ^ Suc (unat (SAScheduler32 w))"
    by (simp add: SAScheduler32_def SA_defs word_less_nat_alt)
qed

lemma takeWhile_rev_upt:
  assumes "m < n" and "P m" and "\<And>q. m < q \<Longrightarrow> q < n \<Longrightarrow> \<not> P q"
  shows "takeWhile (\<lambda>i. \<not> P i) (rev [0..<n]) = rev [Suc m..<n]"
proof -
  have "[0..<n] = [0..<m] @ m # [Suc m..<n]"
    using assms(1) upt_add_eq_append [of 0 m "n - m"] by (simp add: upt_conv_Cons)
  then have "rev [0..<n] = rev [Suc m..<n] @ m # rev [0..<m]" by simp
  moreover have "takeWhile (\<lambda>i. \<not> P i) (rev [Suc m..<n] @ m # rev [0..<m]) =
      rev [Suc m..<n] @ takeWhile (\<lambda>i. \<not> P i) (m # rev [0..<m])"
    using assms(3) by (intro takeWhile_append2) auto
  ultimately show ?thesis using assms(2) by simp
qed

lemma unat_Optimezed_Scheduler:
  assumes "w \<noteq> 0"
  shows "unat (Optimezed_Scheduler w) = Max (prios w)"
proof -
  let ?m = "Max (prios w)"
  from assms have ne: "prios w \<noteq> {}" by simp
  then have m: "?m \<in> prios w" by (rule Max_in [OF finite_prios])
  then have lt: "?m < 32" by (auto dest: prios_bound)
  have "\<not> bit w q" if "?m < q" for q
  proof
    assume "bit w q"
    then have "q \<le> ?m" by (intro Max_ge) (simp_all add: mem_prios)
    with that show False by simp
  qed
  with m lt have "takeWhile (\<lambda>i. \<not> bit w i) (rev [0..<32]) = rev [Suc ?m..<32]"
    by (intro takeWhile_rev_upt) (auto simp: mem_prios)
  then have "CLZ w = word_of_nat (31 - ?m)" by (simp add: CLZ_def)
  moreover have "(0x1F :: uint32_t) - word_of_nat (31 - ?m) = word_of_nat ?m"
    using lt by (simp add: of_nat_diff)
  ultimately show ?thesis
    using lt by (simp add: Optimezed_Scheduler_def unsigned_ucast_eq unsigned_of_nat take_bit_nat_eq_self)
qed

interpretation clz: highest_bit Optimezed_Scheduler
proof
  fix w :: uint32_t assume "w \<noteq> 0"
  then show "unat (Optimezed_Scheduler w) \<in> prios w"
    using Max_in [OF finite_prios, of w] by (simp add: unat_Optimezed_Scheduler)
next
  fix q and w :: uint32_t assume "q \<in> prios w"
  moreover from this have "w \<noteq> 0" by auto
  ultimately show "q \<le> unat (Optimezed_Scheduler w)"
    by (simp add: unat_Optimezed_Scheduler)
qed

interpretation sa_clz: two_searches SAScheduler32 Optimezed_Scheduler ..

end
