(* ===== verification/Kernel.thy ===== *)
theory Kernel
  imports Scheduler
begin

text \<open>
  The kernel state of \<^verbatim>\<open>src/brtos/BRTOS.c\<close> and \<^verbatim>\<open>src/brtos/includes/BRTOS.h\<close>:
  compile-time configuration, task control blocks, the global variables, the scheduler entry
  point, the tick counter and the context switch of the Cortex-M4 port
  (\<^verbatim>\<open>src/hal/GCC_CORTEX-M4\<close>). The lemmas show that the scheduler selects the installed task
  of the highest ready and unblocked priority, that a context switch changes nothing but the
  running task and its stack pointers, and that the wake-up tick stored by a delay is reached
  after exactly the requested number of ticks.
\<close>

section \<open>Configuration\<close>

text \<open>
  The build options of \<^verbatim>\<open>BRTOSConfig.h\<close> and \<^verbatim>\<open>HAL.h\<close> that select code:
  the definitions take the options as an argument, so every theorem holds for all of them.
  The widths are fixed: 32 priorities and the default 16-bit tick type. The addresses the
  linker gives to the function \<^verbatim>\<open>Idle\<close> and to the array \<^verbatim>\<open>STACK\<close> are options
  too.
\<close>

record config =
  ERROR_CHECK :: bool
  VERBOSE :: bool
  OPTIMIZED_SCHEDULER :: bool
  COMPUTES_CPU_LOAD :: bool
  BRTOS_BINARY_SEM_EN :: bool
  NUMBER_OF_TASKS :: uint8_t
  STACK_GROWTH :: bool
  HEAP_SIZE :: nat
  QUEUE_HEAP_SIZE :: nat
  NUMBER_MIN_OF_STACKED_BYTES :: nat
  IDLE_STACK_SIZE :: uint16_t
  configTICK_RATE_HZ :: uint32_t
  FPU_SUPPORT :: bool
  Idle_fct :: uint32_t
  STACK_base :: uint32_t

text \<open>The options of \<^verbatim>\<open>src/ConfigExample/BRTOSConfig.h\<close> with the Cortex-M4 port.\<close>

definition example_config :: config where
  "example_config = \<lparr>ERROR_CHECK = False, VERBOSE = False, OPTIMIZED_SCHEDULER = True,
     COMPUTES_CPU_LOAD = True, BRTOS_BINARY_SEM_EN = True, NUMBER_OF_TASKS = 10,
     STACK_GROWTH = False, HEAP_SIZE = 12288, QUEUE_HEAP_SIZE = 1024,
     NUMBER_MIN_OF_STACKED_BYTES = 68, IDLE_STACK_SIZE = 512, configTICK_RATE_HZ = 1000,
     FPU_SUPPORT = True, Idle_fct = 0x08000101, STACK_base = 0x20000000\<rparr>"

abbreviation (input) sizeof_OS_CPU_TYPE :: nat where "sizeof_OS_CPU_TYPE \<equiv> 4"

abbreviation (input) TRUE8 :: uint8_t where "TRUE8 \<equiv> 1"
abbreviation (input) FALSE8 :: uint8_t where "FALSE8 \<equiv> 0"
abbreviation (input) READY :: uint8_t where "READY \<equiv> 0"
abbreviation (input) SUSPENDED :: uint8_t where "SUSPENDED \<equiv> 1"
abbreviation (input) MUTEX_PRIO :: uint8_t where "MUTEX_PRIO \<equiv> 0xFE"
abbreviation (input) EMPTY_PRIO :: uint8_t where "EMPTY_PRIO \<equiv> 0xFF"

abbreviation (input) DELAY :: uint8_t where "DELAY \<equiv> 0"
abbreviation (input) SEMAPHORE :: uint8_t where "SEMAPHORE \<equiv> 1"
abbreviation (input) MAILBOX :: uint8_t where "MAILBOX \<equiv> 2"
abbreviation (input) QUEUE :: uint8_t where "QUEUE \<equiv> 3"
abbreviation (input) MUTEX :: uint8_t where "MUTEX \<equiv> 4"

abbreviation (input) MAX_TIMER :: ostick_t where "MAX_TIMER \<equiv> 0xFFFF"
abbreviation (input) NO_TIMEOUT :: ostick_t where "NO_TIMEOUT \<equiv> 0xFFFE"
abbreviation (input) EXIT_BY_TIMEOUT :: ostick_t where "EXIT_BY_TIMEOUT \<equiv> 0xFFFD"
abbreviation (input) TICK_COUNT_OVERFLOW :: ostick_t where "TICK_COUNT_OVERFLOW \<equiv> 0xFFFC"

abbreviation (input) configMAX_TASK_INSTALL :: nat where "configMAX_TASK_INSTALL \<equiv> 32"
abbreviation (input) configMAX_TASK_PRIORITY :: uint8_t where "configMAX_TASK_PRIORITY \<equiv> 31"

abbreviation (input) OK :: uint8_t where "OK \<equiv> 0"
abbreviation (input) NO_MEMORY :: uint8_t where "NO_MEMORY \<equiv> 1"
abbreviation (input) STACK_SIZE_TOO_SMALL :: uint8_t where "STACK_SIZE_TOO_SMALL \<equiv> 2"
abbreviation (input) END_OF_AVAILABLE_PRIORITIES :: uint8_t where "END_OF_AVAILABLE_PRIORITIES \<equiv> 3"
abbreviation (input) BUSY_PRIORITY :: uint8_t where "BUSY_PRIORITY \<equiv> 4"
abbreviation (input) INVALID_TIME :: uint8_t where "INVALID_TIME \<equiv> 5"
abbreviation (input) TIMEOUT :: uint8_t where "TIMEOUT \<equiv> 6"
abbreviation (input) CANNOT_ASSIGN_IDLE_TASK_PRIO :: uint8_t where "CANNOT_ASSIGN_IDLE_TASK_PRIO \<equiv> 7"
abbreviation (input) NOT_VALID_TASK :: uint8_t where "NOT_VALID_TASK \<equiv> 8"
abbreviation (input) NO_TASK_DELAY :: uint8_t where "NO_TASK_DELAY \<equiv> 9"
abbreviation (input) END_OF_AVAILABLE_TCB :: uint8_t where "END_OF_AVAILABLE_TCB \<equiv> 10"
abbreviation (input) EXIT_BY_NO_ENTRY_AVAILABLE :: uint8_t where "EXIT_BY_NO_ENTRY_AVAILABLE \<equiv> 11"
abbreviation (input) TASK_WAITING_EVENT :: uint8_t where "TASK_WAITING_EVENT \<equiv> 12"
abbreviation (input) CANNOT_UNINSTALL_IDLE_TASK :: uint8_t where "CANNOT_UNINSTALL_IDLE_TASK \<equiv> 13"
abbreviation (input) EXIT_BY_NO_RESOURCE_AVAILABLE :: uint8_t where "EXIT_BY_NO_RESOURCE_AVAILABLE \<equiv> 14"

abbreviation (input) ALLOC_EVENT_OK :: uint8_t where "ALLOC_EVENT_OK \<equiv> 0"
abbreviation (input) NO_AVAILABLE_EVENT :: uint8_t where "NO_AVAILABLE_EVENT \<equiv> 1"
abbreviation (input) NO_AVAILABLE_MEMORY :: uint8_t where "NO_AVAILABLE_MEMORY \<equiv> 2"
abbreviation (input) INVALID_PARAMETERS :: uint8_t where "INVALID_PARAMETERS \<equiv> 3"
abbreviation (input) IRQ_PEND_ERR :: uint8_t where "IRQ_PEND_ERR \<equiv> 4"
abbreviation (input) ERR_SEM_OVF :: uint8_t where "ERR_SEM_OVF \<equiv> 5"
abbreviation (input) ERR_MUTEX_OVF :: uint8_t where "ERR_MUTEX_OVF \<equiv> 6"
abbreviation (input) ERR_EVENT_NO_CREATED :: uint8_t where "ERR_EVENT_NO_CREATED \<equiv> 7"
abbreviation (input) NULL_EVENT_POINTER :: uint8_t where "NULL_EVENT_POINTER \<equiv> 8"
abbreviation (input) ERR_EVENT_OWNER :: uint8_t where "ERR_EVENT_OWNER \<equiv> 9"
abbreviation (input) DELETE_EVENT_OK :: uint8_t where "DELETE_EVENT_OK \<equiv> 10"
abbreviation (input) AVAILABLE_RESOURCE :: uint8_t where "AVAILABLE_RESOURCE \<equiv> 11"
abbreviation (input) BUSY_RESOURCE :: uint8_t where "BUSY_RESOURCE \<equiv> 12"
abbreviation (input) AVAILABLE_MESSAGE :: uint8_t where "AVAILABLE_MESSAGE \<equiv> 13"
abbreviation (input) NO_MESSAGE :: uint8_t where "NO_MESSAGE \<equiv> 14"

abbreviation (input) READ_BUFFER_OK :: uint8_t where "READ_BUFFER_OK \<equiv> 0"
abbreviation (input) WRITE_BUFFER_OK :: uint8_t where "WRITE_BUFFER_OK \<equiv> 0"
abbreviation (input) BUFFER_UNDERRUN :: uint8_t where "BUFFER_UNDERRUN \<equiv> 1"
abbreviation (input) CLEAN_BUFFER_OK :: uint8_t where "CLEAN_BUFFER_OK \<equiv> 2"
abbreviation (input) NO_ENTRY_AVAILABLE :: uint8_t where "NO_ENTRY_AVAILABLE \<equiv> 3"

section \<open>State\<close>

text \<open>
  The task control block. \<^verbatim>\<open>Next\<close> and \<^verbatim>\<open>Previous\<close> point into
  \<^verbatim>\<open>ContextTask\<close>. The fields that only exist with \<^verbatim>\<open>VERBOSE\<close>,
  \<^verbatim>\<open>BRTOS_DYNAMIC_TASKS_ENABLED\<close> or \<^verbatim>\<open>COMPUTES_TASK_LOAD\<close> are always present.
\<close>

record ContextType =
  TaskName :: string
  StackPoint :: uint32_t
  StackInit :: uint32_t
  StackSize :: uint16_t
  Runtime :: uint32_t
  TimeToWait :: ostick_t
  State :: uint8_t
  Blocked :: uint8_t
  SuspendedType :: uint8_t
  Priority :: uint8_t
  Next :: ptr
  Previous :: ptr

text \<open>
  The kernel's global variables. \<^verbatim>\<open>PSP\<close> is the process stack pointer register and
  \<^verbatim>\<open>RAM\<close> the words of the memory the task stacks live in (by byte address).
\<close>

record kernel =
  PriorityVector :: "uint8_t list"
  iStackAddress :: uint16_t
  iQueueAddress :: uint16_t
  StackAddress :: uint32_t
  NumberOfInstalledTasks :: uint8_t
  currentTask :: uint8_t
  SelectedTask :: uint8_t
  OSReadyList :: PriorityType
  OSBlockedList :: PriorityType
  OSTickCounter :: ostick_t
  OSDuty :: uint32_t
  OSDutyTmp :: uint32_t
  LastOSDuty :: uint32_t
  DutyCnt :: uint16_t
  TaskAlloc :: uint32_t
  iNesting :: uint8_t
  Tail :: ptr
  Head :: ptr
  ContextTask :: "ContextType list"
  OSTimeTaskSwitched :: uint32_t
  OSTotalRuntime :: uint32_t
  SPvalue :: uint32_t
  PSP :: uint32_t
  RAM :: "uint32_t \<Rightarrow> uint32_t"

abbreviation tcb :: "kernel \<Rightarrow> nat \<Rightarrow> ContextType" where
  "tcb k t \<equiv> ContextTask k ! t"

abbreviation prio_of :: "kernel \<Rightarrow> nat \<Rightarrow> nat" where
  "prio_of k t \<equiv> unat (Priority (ContextTask k ! t))"

text \<open>Updates that are compiled only with \<^verbatim>\<open>VERBOSE\<close>.\<close>

definition verbose :: "config \<Rightarrow> ('a \<Rightarrow> 'a) \<Rightarrow> 'a \<Rightarrow> 'a" where
  "verbose C f x = (if VERBOSE C then f x else x)"

section \<open>Scheduler\<close>

definition SAScheduler :: "config \<Rightarrow> PriorityType \<Rightarrow> uint8_t" where
  "SAScheduler C ReadyList =
    (if OPTIMIZED_SCHEDULER C then Optimezed_Scheduler ReadyList else SAScheduler32 ReadyList)"

definition OSSchedule :: "config \<Rightarrow> kernel \<Rightarrow> uint8_t option" where
  "OSSchedule C k =
    rd (PriorityVector k) (unat (SAScheduler C (OSReadyList k AND OSBlockedList k)))"

interpretation sched: highest_bit "SAScheduler C" for C
  by unfold_locales
    (simp_all add: SAScheduler_def sa32.sched_mem clz.sched_mem sa32.sched_greatest clz.sched_greatest)

section \<open>Accessors and run-time statistics\<close>

definition OSGetCurrentTaskHandle :: "kernel \<Rightarrow> BRTOS_TH" where
  "OSGetCurrentTaskHandle k = ucast (currentTask k)"

definition OSGetTaskPriority :: "BRTOS_TH \<Rightarrow> kernel \<Rightarrow> OS_CPU_TYPE option" where
  "OSGetTaskPriority task_handle k =
    map_option (\<lambda>t. ucast (Priority t)) (rd (ContextTask k) (unat task_handle))"

definition OSGetTickCount :: "kernel \<Rightarrow> ostick_t" where
  "OSGetTickCount k = OSTickCounter k"

definition OSGetCount :: "kernel \<Rightarrow> ostick_t" where
  "OSGetCount k = OSTickCounter k"

text \<open>\<open>now\<close> is the value of the port's run-time counter.\<close>

definition COMPUTE_TASK_LOAD :: "uint32_t \<Rightarrow> kernel \<Rightarrow> kernel option" where
  "COMPUTE_TASK_LOAD now k = do {
     let k = k\<lparr>OSTotalRuntime := now\<rparr>;
     ct \<leftarrow> (if OSTotalRuntime k > OSTimeTaskSwitched k
           then upd (ContextTask k) (unat (currentTask k))
                  (\<lambda>t. t\<lparr>Runtime := Runtime t + (OSTotalRuntime k - OSTimeTaskSwitched k)\<rparr>)
           else Some (ContextTask k));
     Some (k\<lparr>ContextTask := ct, OSTimeTaskSwitched := OSTotalRuntime k\<rparr>) }"

section \<open>Tick counter\<close>

definition OSIncCounter :: "kernel \<Rightarrow> kernel" where
  "OSIncCounter k =
    (let k = k\<lparr>OSTickCounter := OSTickCounter k + 1\<rparr> in
     if OSTickCounter k = TICK_COUNT_OVERFLOW then k\<lparr>OSTickCounter := 0\<rparr> else k)"

text \<open>The variant of the tickless ports, which advances by several ticks at once.\<close>

definition OSIncCounter_tickless :: "ostick_t \<Rightarrow> kernel \<Rightarrow> kernel" where
  "OSIncCounter_tickless inc k =
    (if inc \<noteq> 1
     then let timeout = (ucast (OSTickCounter k) :: osdtick_t) + ucast inc in
          if timeout \<ge> ucast TICK_COUNT_OVERFLOW
          then k\<lparr>OSTickCounter := ucast (timeout - ucast TICK_COUNT_OVERFLOW)\<rparr>
          else k\<lparr>OSTickCounter := ucast timeout\<rparr>
     else OSIncCounter k)"

text \<open>
  The computation of \<^verbatim>\<open>TimeToWait\<close> from the tick counter and a time to wait, the same
  lines in \<^verbatim>\<open>OSDelayTask\<close> and in every pend function.
\<close>

definition wake_tick :: "ostick_t \<Rightarrow> ostick_t \<Rightarrow> ostick_t" where
  "wake_tick count time_wait =
    (let timeout = (ucast count :: osdtick_t) + ucast time_wait in
     if timeout \<ge> ucast TICK_COUNT_OVERFLOW
     then ucast (timeout - ucast TICK_COUNT_OVERFLOW)
     else ucast timeout)"

section \<open>Context switch\<close>

text \<open>
  \<^verbatim>\<open>OS_SAVE_CONTEXT\<close> pushes R4--R11 and, with an FPU, R14 on the process stack (the lazily
  stacked floating-point registers are left out); \<^verbatim>\<open>OS_RESTORE_CONTEXT\<close> pops them. This is the
  exit of the builds without \<^verbatim>\<open>COMPUTES_TASK_LOAD\<close>, which no configuration of the repository defines; with it,
  a switch calls \<^verbatim>\<open>COMPUTE_TASK_LOAD\<close> first, which touches the run-time statistics only.
\<close>

definition context_bytes :: "config \<Rightarrow> uint32_t" where
  "context_bytes C = (if FPU_SUPPORT C then 0x24 else 0x20)"

definition OS_INT_EXIT :: "config \<Rightarrow> kernel \<Rightarrow> kernel option" where
  "OS_INT_EXIT C k =
    (if iNesting k = 0 then do {
       sel \<leftarrow> OSSchedule C k;
       let k = k\<lparr>SelectedTask := sel\<rparr>;
       if currentTask k \<noteq> SelectedTask k then do {
         let k = k\<lparr>SPvalue := PSP k - context_bytes C\<rparr>;
         ct \<leftarrow> upd (ContextTask k) (unat (currentTask k)) (\<lambda>t. t\<lparr>StackPoint := SPvalue k\<rparr>);
         let k = k\<lparr>ContextTask := ct\<rparr>;
         let k = k\<lparr>currentTask := SelectedTask k\<rparr>;
         t \<leftarrow> rd (ContextTask k) (unat (currentTask k));
         let k = k\<lparr>SPvalue := StackPoint t\<rparr>;
         Some (k\<lparr>PSP := SPvalue k + context_bytes C\<rparr>)
       } else Some k
     } else Some k)"

text \<open>
  \<^verbatim>\<open>ChangeContext()\<close> raises PendSV and enables interrupts, so the handler
  \<^verbatim>\<open>SwitchContext\<close> runs at once: it clears the request and leaves through
  \<^verbatim>\<open>OS_INT_EXIT\<close>.
\<close>

definition SwitchContext :: "config \<Rightarrow> kernel \<Rightarrow> kernel option" where
  "SwitchContext C k = OS_INT_EXIT C k"

definition ChangeContext :: "config \<Rightarrow> kernel \<Rightarrow> kernel option" where
  "ChangeContext C k = SwitchContext C k"

section \<open>Invariant\<close>

text \<open>
  The abstract view of the two lists: the priorities that are ready and not blocked. The
  invariant ties the priority vector to the task control blocks: every installed task owns the
  entry of its own priority, and every ready priority belongs to the task stored there.
\<close>

definition runnable :: "kernel \<Rightarrow> nat set" where
  "runnable k = prios (OSReadyList k) \<inter> prios (OSBlockedList k)"

definition is_task :: "config \<Rightarrow> nat \<Rightarrow> bool" where
  "is_task C t \<longleftrightarrow> 1 \<le> t \<and> t \<le> unat (NUMBER_OF_TASKS C)"

definition installed :: "config \<Rightarrow> kernel \<Rightarrow> nat \<Rightarrow> bool" where
  "installed C k t \<longleftrightarrow> is_task C t \<and> Priority (tcb k t) \<noteq> EMPTY_PRIO"

definition arrays_ok :: "config \<Rightarrow> kernel \<Rightarrow> bool" where
  "arrays_ok C k \<longleftrightarrow> length (PriorityVector k) = configMAX_TASK_INSTALL \<and>
     length (ContextTask k) = Suc (unat (NUMBER_OF_TASKS C)) \<and> unat (NUMBER_OF_TASKS C) \<le> 32"

definition prio_ok :: "config \<Rightarrow> kernel \<Rightarrow> bool" where
  "prio_ok C k \<longleftrightarrow> (\<forall>t. installed C k t \<longrightarrow>
     prio_of k t < 32 \<and> unat (PriorityVector k ! prio_of k t) = t)"

definition ready_ok :: "config \<Rightarrow> kernel \<Rightarrow> bool" where
  "ready_ok C k \<longleftrightarrow> (\<forall>p \<in> prios (OSReadyList k).
     installed C k (unat (PriorityVector k ! p)) \<and> prio_of k (unat (PriorityVector k ! p)) = p)"

definition kernel_ok :: "config \<Rightarrow> kernel \<Rightarrow> bool" where
  "kernel_ok C k \<longleftrightarrow> arrays_ok C k \<and> prio_ok C k \<and> ready_ok C k"

lemma kernel_okI: "arrays_ok C k \<Longrightarrow> prio_ok C k \<Longrightarrow> ready_ok C k \<Longrightarrow> kernel_ok C k"
  by (simp add: kernel_ok_def)

lemma kernel_okD: "kernel_ok C k \<Longrightarrow> arrays_ok C k" "kernel_ok C k \<Longrightarrow> prio_ok C k"
  "kernel_ok C k \<Longrightarrow> ready_ok C k"
  by (simp_all add: kernel_ok_def)

lemma length_PriorityVector: "arrays_ok C k \<Longrightarrow> length (PriorityVector k) = 32"
  by (simp add: arrays_ok_def)

lemma is_task_index: "arrays_ok C k \<Longrightarrow> is_task C t \<Longrightarrow> t < length (ContextTask k)"
  by (simp add: arrays_ok_def is_task_def)

lemma installed_index: "kernel_ok C k \<Longrightarrow> installed C k t \<Longrightarrow> t < length (ContextTask k)"
  using is_task_index [of C k t] by (simp add: kernel_ok_def installed_def)

lemma installed_prio:
  assumes "kernel_ok C k" and "installed C k t"
  shows "prio_of k t < 32" and "unat (PriorityVector k ! prio_of k t) = t"
  using assms by (auto simp: kernel_ok_def prio_ok_def)

text \<open>Two installed tasks never share a priority.\<close>

lemma installed_inj:
  assumes "kernel_ok C k" and "installed C k t" and "installed C k u" and "prio_of k t = prio_of k u"
  shows "t = u"
  using installed_prio(2) [OF assms(1,2)] installed_prio(2) [OF assms(1,3)] assms(4) by metis

lemma ready_task:
  assumes "kernel_ok C k" and "p \<in> prios (OSReadyList k)"
  shows "installed C k (unat (PriorityVector k ! p))" and "prio_of k (unat (PriorityVector k ! p)) = p"
  using assms by (auto simp: kernel_ok_def ready_ok_def)

section \<open>The scheduler selects the highest runnable priority\<close>

lemma OSSchedule_eq:
  assumes "arrays_ok C k" and "runnable k \<noteq> {}"
  shows "OSSchedule C k = Some (PriorityVector k ! Max (runnable k))"
proof -
  let ?w = "OSReadyList k AND OSBlockedList k"
  have w: "prios ?w = runnable k" by (simp add: runnable_def prio_simps)
  with assms(2) have "?w \<noteq> 0" by auto
  from sched.sched_Max [OF this, of C] sched.sched_bound [OF this, of C] w
  have "unat (SAScheduler C ?w) = Max (runnable k)" "unat (SAScheduler C ?w) < 32" by simp_all
  then show ?thesis using assms(1) by (simp add: OSSchedule_def length_PriorityVector)
qed

lemma finite_runnable [simp]: "finite (runnable k)"
  by (simp add: runnable_def)

lemma Max_runnable: "runnable k \<noteq> {} \<Longrightarrow> Max (runnable k) \<in> runnable k"
  by (rule Max_in) simp_all

lemma OSSchedule_highest:
  assumes ok: "kernel_ok C k" and ne: "runnable k \<noteq> {}"
  obtains sel where "OSSchedule C k = Some sel" and "installed C k (unat sel)"
    and "prio_of k (unat sel) = Max (runnable k)"
proof
  from Max_runnable [OF ne] have "Max (runnable k) \<in> prios (OSReadyList k)"
    by (simp add: runnable_def)
  from ready_task [OF ok this]
  show "installed C k (unat (PriorityVector k ! Max (runnable k)))"
    and "prio_of k (unat (PriorityVector k ! Max (runnable k))) = Max (runnable k)" .
  show "OSSchedule C k = Some (PriorityVector k ! Max (runnable k))"
    using ok ne by (simp add: OSSchedule_eq kernel_okD)
qed

section \<open>The context switch\<close>

lemmas context_defs = ChangeContext_def SwitchContext_def OS_INT_EXIT_def

text \<open>
  What a context switch leaves alone: everything but the running task, the selected task, the
  stack pointers and the saved stack pointer of the task that is switched out.
\<close>

definition same_kernel :: "kernel \<Rightarrow> kernel \<Rightarrow> bool" where
  "same_kernel k k' \<longleftrightarrow>
     (\<exists>ct sel cur sp psp. k' = k\<lparr>ContextTask := ct, SelectedTask := sel, currentTask := cur,
         SPvalue := sp, PSP := psp\<rparr> \<and>
       map (StackPoint_update (\<lambda>_. 0)) ct = map (StackPoint_update (\<lambda>_. 0)) (ContextTask k))"

lemma map_StackPoint_update:
  "i < length xs \<Longrightarrow> map (StackPoint_update (\<lambda>_. 0)) (xs[i := (xs ! i)\<lparr>StackPoint := v\<rparr>]) =
     map (StackPoint_update (\<lambda>_. 0)) xs"
  by (rule nth_equalityI) (auto simp: nth_list_update)

lemma ChangeContext_same: "ChangeContext C k = Some k' \<Longrightarrow> same_kernel k k'"
  unfolding same_kernel_def context_defs
  by (rule exI [of _ "ContextTask k'"], rule exI [of _ "SelectedTask k'"],
      rule exI [of _ "currentTask k'"], rule exI [of _ "SPvalue k'"], rule exI [of _ "PSP k'"])
    (auto simp: Let_def bind_eq_Some_conv upd_eq_Some rd_eq_Some map_StackPoint_update
      split: if_splits)

lemma map_StackPoint_eqD:
  assumes "map (StackPoint_update (\<lambda>_. 0)) xs = map (StackPoint_update (\<lambda>_. 0)) ys"
  shows "length xs = length ys"
    and "i < length ys \<Longrightarrow> (xs ! i)\<lparr>StackPoint := 0\<rparr> = (ys ! i)\<lparr>StackPoint := 0\<rparr>"
proof -
  show len: "length xs = length ys" using assms by (rule map_eq_imp_length_eq)
  assume "i < length ys"
  with assms len show "(xs ! i)\<lparr>StackPoint := 0\<rparr> = (ys ! i)\<lparr>StackPoint := 0\<rparr>"
    by (metis length_map nth_map)
qed

lemma nth_beyond: "length xs = length ys \<Longrightarrow> length xs \<le> i \<Longrightarrow> xs ! i = ys ! i"
  by (induction xs ys arbitrary: i rule: list_induct2) (auto simp: nth_Cons split: nat.splits)

lemma same_kernel_refl [simp]: "same_kernel k k"
  unfolding same_kernel_def
  by (rule exI [of _ "ContextTask k"], rule exI [of _ "SelectedTask k"],
      rule exI [of _ "currentTask k"], rule exI [of _ "SPvalue k"], rule exI [of _ "PSP k"]) simp

lemma same_kernel_tcb:
  assumes "same_kernel k k'"
  shows "length (ContextTask k') = length (ContextTask k)"
    and "(tcb k' i)\<lparr>StackPoint := 0\<rparr> = (tcb k i)\<lparr>StackPoint := 0\<rparr>"
proof -
  from assms have m: "map (StackPoint_update (\<lambda>_. 0)) (ContextTask k') =
      map (StackPoint_update (\<lambda>_. 0)) (ContextTask k)"
    by (auto simp: same_kernel_def)
  show len: "length (ContextTask k') = length (ContextTask k)"
    by (rule map_StackPoint_eqD(1) [OF m])
  show "(tcb k' i)\<lparr>StackPoint := 0\<rparr> = (tcb k i)\<lparr>StackPoint := 0\<rparr>"
    using map_StackPoint_eqD(2) [OF m] nth_beyond [OF len, of i]
    by (cases "i < length (ContextTask k)") (auto simp: len)
qed

lemma same_kernel_task:
  assumes "same_kernel k k'"
  shows "Priority (tcb k' i) = Priority (tcb k i)" and "TimeToWait (tcb k' i) = TimeToWait (tcb k i)"
    and "Next (tcb k' i) = Next (tcb k i)" and "Previous (tcb k' i) = Previous (tcb k i)"
    and "State (tcb k' i) = State (tcb k i)" and "Blocked (tcb k' i) = Blocked (tcb k i)"
    and "SuspendedType (tcb k' i) = SuspendedType (tcb k i)"
  using same_kernel_tcb(2) [OF assms, of i]
  by (metis ContextType.select_convs ContextType.surjective ContextType.update_convs(2))+

lemma same_kernel_globals:
  assumes "same_kernel k k'"
  shows "PriorityVector k' = PriorityVector k" and "OSReadyList k' = OSReadyList k"
    and "OSBlockedList k' = OSBlockedList k" and "OSTickCounter k' = OSTickCounter k"
    and "TaskAlloc k' = TaskAlloc k" and "iNesting k' = iNesting k"
    and "Head k' = Head k" and "Tail k' = Tail k"
    and "NumberOfInstalledTasks k' = NumberOfInstalledTasks k"
    and "iStackAddress k' = iStackAddress k" and "iQueueAddress k' = iQueueAddress k"
    and "StackAddress k' = StackAddress k" and "RAM k' = RAM k"
    and "OSDuty k' = OSDuty k" and "OSDutyTmp k' = OSDutyTmp k"
    and "LastOSDuty k' = LastOSDuty k" and "DutyCnt k' = DutyCnt k"
    and "runnable k' = runnable k"
  using assms by (auto simp: same_kernel_def runnable_def)

lemmas same_kernel_simps = same_kernel_globals same_kernel_task same_kernel_tcb(1)

lemma same_kernel_trans: "same_kernel a b \<Longrightarrow> same_kernel b c \<Longrightarrow> same_kernel a c"
  unfolding same_kernel_def by (elim exE conjE, hypsubst) fastforce

lemma same_kernel_installed: "same_kernel k k' \<Longrightarrow> installed C k' t = installed C k t"
  by (simp add: installed_def same_kernel_simps)

lemma same_kernel_ok: "same_kernel k k' \<Longrightarrow> kernel_ok C k' = kernel_ok C k"
  by (simp add: kernel_ok_def arrays_ok_def prio_ok_def ready_ok_def same_kernel_installed
      same_kernel_simps)

text \<open>
  In a consistent kernel with a runnable task the context switch succeeds, and outside of
  interrupts it leaves the task of the highest runnable priority running.
\<close>

definition runs_highest :: "config \<Rightarrow> kernel \<Rightarrow> bool" where
  "runs_highest C k \<longleftrightarrow> installed C k (unat (currentTask k)) \<and>
     prio_of k (unat (currentTask k)) = Max (runnable k)"

lemma ChangeContext_spec:
  assumes ok: "kernel_ok C k" and ne: "runnable k \<noteq> {}"
    and cur: "unat (currentTask k) < length (ContextTask k)"
  obtains k' where "ChangeContext C k = Some k'" and "same_kernel k k'"
    and "iNesting k = 0 \<longrightarrow> runs_highest C k'"
proof -
  from OSSchedule_highest [OF ok ne] obtain sel where s: "OSSchedule C k = Some sel"
    and i: "installed C k (unat sel)" and p: "prio_of k (unat sel) = Max (runnable k)" .
  from installed_index [OF ok i] have len: "unat sel < length (ContextTask k)" .
  obtain k' where k': "ChangeContext C k = Some k'" and c: "iNesting k = 0 \<Longrightarrow> currentTask k' = sel"
    using s len cur by (cases "iNesting k = 0"; cases "currentTask k = sel")
      (auto simp: context_defs Let_def)
  from ChangeContext_same [OF k'] have sk: "same_kernel k k'" .
  show ?thesis
  proof (rule that [OF k' sk], rule impI)
    assume "iNesting k = 0"
    then have "currentTask k' = sel" by (rule c)
    with i p show "runs_highest C k'"
      using sk by (simp add: runs_highest_def same_kernel_installed same_kernel_simps)
  qed
qed

section \<open>Time\<close>

abbreviation (input) tick_ok :: "kernel \<Rightarrow> bool" where
  "tick_ok k \<equiv> OSTickCounter k < TICK_COUNT_OVERFLOW"

lemma unat_OSIncCounter:
  assumes "tick_ok k"
  shows "unat (OSTickCounter (OSIncCounter k)) = Suc (unat (OSTickCounter k)) mod 65532"
proof -
  from assms have lt: "unat (OSTickCounter k) < 65532" by (simp add: word_less_nat_alt)
  then have s: "unat (OSTickCounter k + 1) = Suc (unat (OSTickCounter k))"
    by (simp add: unat_word_ariths)
  have "OSTickCounter k + 1 = TICK_COUNT_OVERFLOW \<longleftrightarrow>
      unat (OSTickCounter k + 1) = unat TICK_COUNT_OVERFLOW"
    by (rule word_unat_eq_iff)
  with s lt show ?thesis by (auto simp: OSIncCounter_def Let_def)
qed

lemma tick_ok_OSIncCounter: "tick_ok k \<Longrightarrow> tick_ok (OSIncCounter k)"
  by (simp add: word_less_nat_alt unat_OSIncCounter)

lemma OSIncCounter_other [simp]:
  "ContextTask (OSIncCounter k) = ContextTask k" "Head (OSIncCounter k) = Head k"
  "Tail (OSIncCounter k) = Tail k" "OSReadyList (OSIncCounter k) = OSReadyList k"
  "OSBlockedList (OSIncCounter k) = OSBlockedList k"
  "PriorityVector (OSIncCounter k) = PriorityVector k" "iNesting (OSIncCounter k) = iNesting k"
  "currentTask (OSIncCounter k) = currentTask k"
  by (simp_all add: OSIncCounter_def Let_def)

lemma tick_ok_iterate: "tick_ok k \<Longrightarrow> tick_ok ((OSIncCounter ^^ n) k)"
  by (induction n) (simp_all add: tick_ok_OSIncCounter)

lemma unat_iterate_OSIncCounter:
  assumes "tick_ok k"
  shows "unat (OSTickCounter ((OSIncCounter ^^ n) k)) = (unat (OSTickCounter k) + n) mod 65532"
proof (induction n)
  case 0
  from assms show ?case by (simp add: word_less_nat_alt)
next
  case (Suc n)
  have "unat (OSTickCounter ((OSIncCounter ^^ Suc n) k)) =
      Suc (unat (OSTickCounter ((OSIncCounter ^^ n) k))) mod 65532"
    using tick_ok_iterate [OF assms, of n] by (simp add: unat_OSIncCounter)
  with Suc show ?case by (simp add: mod_Suc_eq)
qed

lemma unat_wake_tick:
  assumes "count < TICK_COUNT_OVERFLOW" and "time_wait \<le> TICK_COUNT_OVERFLOW"
  shows "unat (wake_tick count time_wait) = (unat count + unat time_wait) mod 65532"
proof -
  from assms have c: "unat count < 65532" and w: "unat time_wait \<le> 65532"
    by (simp_all add: word_less_nat_alt word_le_nat_alt)
  let ?t = "(ucast count :: osdtick_t) + ucast time_wait"
  have t: "unat ?t = unat count + unat time_wait"
    using c w by (simp add: unat_word_ariths unsigned_ucast_eq take_bit_nat_eq_self)
  show ?thesis
  proof (cases "unat count + unat time_wait < 65532")
    case True
    with t have "\<not> ?t \<ge> ucast TICK_COUNT_OVERFLOW" by (simp add: word_le_nat_alt)
    with True t show ?thesis
      by (simp add: wake_tick_def Let_def unsigned_ucast_eq take_bit_nat_eq_self)
  next
    case False
    with t have ge: "?t \<ge> ucast TICK_COUNT_OVERFLOW" by (simp add: word_le_nat_alt)
    then have "unat (?t - ucast TICK_COUNT_OVERFLOW) = unat count + unat time_wait - 65532"
      using t by (simp add: unat_sub)
    with ge False c w show ?thesis
      by (simp add: wake_tick_def Let_def unsigned_ucast_eq take_bit_nat_eq_self mod_if)
  qed
qed

lemma wake_tick_lt:
  "count < TICK_COUNT_OVERFLOW \<Longrightarrow> time_wait \<le> TICK_COUNT_OVERFLOW \<Longrightarrow>
     wake_tick count time_wait < TICK_COUNT_OVERFLOW"
  by (simp add: word_less_nat_alt [of "wake_tick count time_wait"] unat_wake_tick)

lemma add_mod_neq:
  assumes "0 < n" and "n < w" and "w \<le> m"
  shows "(c + n) mod m \<noteq> (c + w) mod (m :: nat)"
proof
  assume "(c + n) mod m = (c + w) mod m"
  then have "m dvd (c + w) - (c + n)" using assms by (metis mod_eq_dvd_iff_nat add_le_mono less_imp_le order_refl)
  with assms have "m dvd w - n" by simp
  with assms show False by (auto dest: dvd_imp_le)
qed

text \<open>
  The tick counter reaches the stored wake-up tick after exactly \<open>time_wait\<close> increments and
  not before, across the wrap-around of the counter.
\<close>

lemma wake_tick_exact:
  assumes "tick_ok k" and "0 < time_wait" and "time_wait \<le> TICK_COUNT_OVERFLOW"
  shows "OSTickCounter ((OSIncCounter ^^ unat time_wait) k) = wake_tick (OSTickCounter k) time_wait"
    and "0 < n \<Longrightarrow> n < unat time_wait \<Longrightarrow>
      OSTickCounter ((OSIncCounter ^^ n) k) \<noteq> wake_tick (OSTickCounter k) time_wait"
proof -
  note wt = unat_wake_tick [OF assms(1,3)]
  note it = unat_iterate_OSIncCounter [OF assms(1)]
  show "OSTickCounter ((OSIncCounter ^^ unat time_wait) k) = wake_tick (OSTickCounter k) time_wait"
    by (simp add: word_unat_eq_iff wt it)
  assume "0 < n" "n < unat time_wait"
  moreover have "unat time_wait \<le> 65532" using assms(3) by (simp add: word_le_nat_alt)
  ultimately show "OSTickCounter ((OSIncCounter ^^ n) k) \<noteq> wake_tick (OSTickCounter k) time_wait"
    using add_mod_neq [of n "unat time_wait" 65532] by (simp add: word_unat_eq_iff wt it)
qed

text \<open>Incrementing the counter changes nothing else.\<close>

lemma iterate_OSIncCounter:
  "(OSIncCounter ^^ n) k = k\<lparr>OSTickCounter := OSTickCounter ((OSIncCounter ^^ n) k)\<rparr>"
proof (induction n)
  case 0
  then show ?case by simp
next
  case (Suc n)
  have "OSIncCounter j = j\<lparr>OSTickCounter := OSTickCounter (OSIncCounter j)\<rparr>" for j
    by (simp add: OSIncCounter_def Let_def)
  from this [of "(OSIncCounter ^^ n) k"] show ?case
    by (subst (asm) (2) Suc) simp
qed

end
