(* ===== verification/DelayList.thy ===== *)
theory DelayList
  imports Kernel
begin

text \<open>
  The delay list: a doubly linked list threaded through the task control blocks, kept by the
  macros \<^verbatim>\<open>IncludeTaskIntoDelayList\<close> and \<^verbatim>\<open>RemoveFromDelayList\<close> of
  \<^verbatim>\<open>src/brtos/includes/BRTOS.h\<close>. The pointers are modelled as they are; the relation
  \<open>delay_list\<close> says which abstract list of task numbers they represent. The locale
  \<open>delay_queue\<close> states what the clients rely on, and is interpreted on the macros.
\<close>

section \<open>The macros\<close>

definition IncludeTaskIntoDelayList :: "nat \<Rightarrow> kernel \<Rightarrow> kernel option" where
  "IncludeTaskIntoDelayList Task k =
    (case Tail k of
       Some l \<Rightarrow> do {
         ct \<leftarrow> upd (ContextTask k) l (\<lambda>t. t\<lparr>Next := Some Task\<rparr>);
         ct \<leftarrow> upd ct Task (\<lambda>t. t\<lparr>Previous := Some l\<rparr>);
         ct \<leftarrow> upd ct Task (\<lambda>t. t\<lparr>Next := None\<rparr>);
         Some (k\<lparr>ContextTask := ct, Tail := Some Task\<rparr>) }
     | None \<Rightarrow> do {
         ct \<leftarrow> upd (ContextTask k) Task (\<lambda>t. t\<lparr>Next := None\<rparr>);
         ct \<leftarrow> upd ct Task (\<lambda>t. t\<lparr>Previous := None\<rparr>);
         Some (k\<lparr>ContextTask := ct, Tail := Some Task, Head := Some Task\<rparr>) })"

definition RemoveFromDelayList :: "nat \<Rightarrow> kernel \<Rightarrow> kernel option" where
  "RemoveFromDelayList Task k =
    (if Head k = Some Task
     then if Tail k = Some Task
          then Some (k\<lparr>Tail := None, Head := None\<rparr>)
          else do {
            t \<leftarrow> rd (ContextTask k) Task;
            h \<leftarrow> Next t;
            ct \<leftarrow> upd (ContextTask k) h (\<lambda>t. t\<lparr>Previous := None\<rparr>);
            Some (k\<lparr>ContextTask := ct, Head := Some h\<rparr>) }
     else if Tail k = Some Task
          then do {
            t \<leftarrow> rd (ContextTask k) Task;
            l \<leftarrow> Previous t;
            ct \<leftarrow> upd (ContextTask k) l (\<lambda>t. t\<lparr>Next := None\<rparr>);
            Some (k\<lparr>ContextTask := ct, Tail := Some l\<rparr>) }
          else do {
            t \<leftarrow> rd (ContextTask k) Task;
            nx \<leftarrow> Next t;
            ct \<leftarrow> upd (ContextTask k) nx (\<lambda>x. x\<lparr>Previous := Previous t\<rparr>);
            t \<leftarrow> rd ct Task;
            pv \<leftarrow> Previous t;
            ct \<leftarrow> upd ct pv (\<lambda>x. x\<lparr>Next := Next t\<rparr>);
            Some (k\<lparr>ContextTask := ct\<rparr>) })"

section \<open>The abstract list\<close>

definition first_of :: "nat list \<Rightarrow> ptr \<Rightarrow> ptr" where
  "first_of xs n = (case xs of [] \<Rightarrow> n | x # _ \<Rightarrow> Some x)"

definition last_of :: "nat list \<Rightarrow> ptr \<Rightarrow> ptr" where
  "last_of xs p = (if xs = [] then p else Some (last xs))"

text \<open>
  \<open>linked ct p xs n\<close>: the blocks \<open>xs\<close> are chained in both directions, with \<open>p\<close>
  before the first and \<open>n\<close> after the last.
\<close>

fun linked :: "ContextType list \<Rightarrow> ptr \<Rightarrow> nat list \<Rightarrow> ptr \<Rightarrow> bool" where
  "linked ct p [] n \<longleftrightarrow> True"
| "linked ct p (t # ts) n \<longleftrightarrow> t < length ct \<and> Previous (ct ! t) = p \<and>
     Next (ct ! t) = first_of ts n \<and> linked ct (Some t) ts n"

definition delay_list :: "kernel \<Rightarrow> nat list \<Rightarrow> bool" where
  "delay_list k xs \<longleftrightarrow> distinct xs \<and> linked (ContextTask k) None xs None \<and>
     Head k = first_of xs None \<and> Tail k = last_of xs None"

lemma first_of_simps [simp]: "first_of [] n = n" "first_of (x # xs) n = Some x"
  by (simp_all add: first_of_def)

lemma last_of_simps [simp]: "last_of [] p = p" "last_of (xs @ [x]) p = Some x"
  "last_of (x # xs) p = last_of xs (Some x)"
  by (simp_all add: last_of_def)

lemma first_of_append [simp]: "first_of (xs @ ys) n = first_of xs (first_of ys n)"
  by (simp add: first_of_def split: list.splits)

lemma last_of_append [simp]: "last_of (xs @ ys) p = last_of ys (last_of xs p)"
  by (simp add: last_of_def)

lemma first_of_eq_Some: "first_of xs None = Some t \<longleftrightarrow> xs \<noteq> [] \<and> hd xs = t"
  by (cases xs) auto

lemma last_of_eq_Some: "last_of xs None = Some t \<longleftrightarrow> xs \<noteq> [] \<and> last xs = t"
  by (auto simp: last_of_def)

lemma linked_append [simp]:
  "linked ct p (xs @ ys) n \<longleftrightarrow> linked ct p xs (first_of ys n) \<and> linked ct (last_of xs p) ys n"
  by (induction xs arbitrary: p) (auto simp: first_of_def split: list.splits)

lemma linked_cong:
  assumes "length ct' = length ct"
    and "\<And>t. t \<in> set xs \<Longrightarrow> Next (ct' ! t) = Next (ct ! t) \<and> Previous (ct' ! t) = Previous (ct ! t)"
  shows "linked ct' p xs n = linked ct p xs n"
  using assms(2) by (induction xs arbitrary: p) (auto simp: assms(1))

lemma linked_update [simp]: "i \<notin> set xs \<Longrightarrow> linked (ct[i := v]) p xs n = linked ct p xs n"
  by (rule linked_cong) (simp, metis nth_list_update_neq)

lemma linked_bound: "linked ct p xs n \<Longrightarrow> t \<in> set xs \<Longrightarrow> t < length ct"
  by (induction xs arbitrary: p) auto

lemma delay_list_bound: "delay_list k xs \<Longrightarrow> t \<in> set xs \<Longrightarrow> t < length (ContextTask k)"
  by (auto simp: delay_list_def dest: linked_bound)

lemma delay_list_cong:
  assumes "length (ContextTask k') = length (ContextTask k)" and "Head k' = Head k" and "Tail k' = Tail k"
    and "\<And>t. t \<in> set xs \<Longrightarrow> Next (tcb k' t) = Next (tcb k t) \<and> Previous (tcb k' t) = Previous (tcb k t)"
  shows "delay_list k' xs = delay_list k xs"
  using linked_cong [of "ContextTask k'" "ContextTask k" xs None None] assms
  by (simp add: delay_list_def)

lemma same_kernel_delay_list: "same_kernel k k' \<Longrightarrow> delay_list k' xs = delay_list k xs"
  by (rule delay_list_cong) (simp_all add: same_kernel_simps)

text \<open>The represented list is unique.\<close>

lemma linked_unique:
  "linked ct p xs None \<Longrightarrow> linked ct q ys None \<Longrightarrow> first_of xs None = first_of ys None \<Longrightarrow> xs = ys"
proof (induction xs arbitrary: p q ys)
  case Nil
  then show ?case by (cases ys) auto
next
  case (Cons x xs)
  then show ?case by (cases ys) auto
qed

lemma delay_list_unique: "delay_list k xs \<Longrightarrow> delay_list k ys \<Longrightarrow> xs = ys"
  by (auto simp: delay_list_def intro: linked_unique)

section \<open>The macros on the abstract list\<close>

text \<open>What the macros leave alone: everything but the links and the two list pointers.\<close>

definition same_but_links :: "kernel \<Rightarrow> kernel \<Rightarrow> bool" where
  "same_but_links k k' \<longleftrightarrow>
     (\<exists>ct h l. k' = k\<lparr>ContextTask := ct, Head := h, Tail := l\<rparr> \<and>
        length ct = length (ContextTask k) \<and>
        (\<forall>i. (ct ! i)\<lparr>Next := None, Previous := None\<rparr> = (tcb k i)\<lparr>Next := None, Previous := None\<rparr>))"

lemma same_but_linksI:
  assumes "k' = k\<lparr>ContextTask := ContextTask k', Head := Head k', Tail := Tail k'\<rparr>"
    and "length (ContextTask k') = length (ContextTask k)"
    and "\<And>i. (tcb k' i)\<lparr>Next := None, Previous := None\<rparr> = (tcb k i)\<lparr>Next := None, Previous := None\<rparr>"
  shows "same_but_links k k'"
  unfolding same_but_links_def using assms by blast

lemma Include_same: "IncludeTaskIntoDelayList t k = Some k' \<Longrightarrow> same_but_links k k'"
  by (rule same_but_linksI)
    (auto simp: IncludeTaskIntoDelayList_def bind_eq_Some_conv upd_eq_Some nth_list_update
      split: option.splits)

lemma Remove_same: "RemoveFromDelayList t k = Some k' \<Longrightarrow> same_but_links k k'"
  by (rule same_but_linksI)
    (auto simp: RemoveFromDelayList_def bind_eq_Some_conv upd_eq_Some rd_eq_Some nth_list_update
      split: if_splits)

lemma same_but_links_task:
  assumes "same_but_links k k'"
  shows "Priority (tcb k' i) = Priority (tcb k i)" and "TimeToWait (tcb k' i) = TimeToWait (tcb k i)"
    and "State (tcb k' i) = State (tcb k i)" and "Blocked (tcb k' i) = Blocked (tcb k i)"
    and "SuspendedType (tcb k' i) = SuspendedType (tcb k i)" and "StackPoint (tcb k' i) = StackPoint (tcb k i)"
    and "length (ContextTask k') = length (ContextTask k)"
proof -
  from assms have e: "(tcb k' i)\<lparr>Next := None, Previous := None\<rparr> = (tcb k i)\<lparr>Next := None, Previous := None\<rparr>"
    by (auto simp: same_but_links_def)
  show "Priority (tcb k' i) = Priority (tcb k i)" using arg_cong [OF e, of Priority] by simp
  show "TimeToWait (tcb k' i) = TimeToWait (tcb k i)" using arg_cong [OF e, of TimeToWait] by simp
  show "State (tcb k' i) = State (tcb k i)" using arg_cong [OF e, of State] by simp
  show "Blocked (tcb k' i) = Blocked (tcb k i)" using arg_cong [OF e, of Blocked] by simp
  show "SuspendedType (tcb k' i) = SuspendedType (tcb k i)" using arg_cong [OF e, of SuspendedType] by simp
  show "StackPoint (tcb k' i) = StackPoint (tcb k i)" using arg_cong [OF e, of StackPoint] by simp
  show "length (ContextTask k') = length (ContextTask k)" using assms by (auto simp: same_but_links_def)
qed

lemma same_but_links_globals:
  assumes "same_but_links k k'"
  shows "PriorityVector k' = PriorityVector k" and "OSReadyList k' = OSReadyList k"
    and "OSBlockedList k' = OSBlockedList k" and "OSTickCounter k' = OSTickCounter k"
    and "TaskAlloc k' = TaskAlloc k" and "iNesting k' = iNesting k"
    and "currentTask k' = currentTask k" and "SPvalue k' = SPvalue k" and "PSP k' = PSP k"
    and "NumberOfInstalledTasks k' = NumberOfInstalledTasks k"
    and "iStackAddress k' = iStackAddress k" and "iQueueAddress k' = iQueueAddress k"
    and "StackAddress k' = StackAddress k" and "RAM k' = RAM k"
    and "runnable k' = runnable k"
  using assms by (auto simp: same_but_links_def runnable_def)

lemmas same_but_links_simps = same_but_links_task same_but_links_globals

lemma same_but_links_ok: "same_but_links k k' \<Longrightarrow> kernel_ok C k' = kernel_ok C k"
  by (simp add: kernel_ok_def arrays_ok_def prio_ok_def ready_ok_def installed_def same_but_links_simps)

lemma Include_list:
  assumes l: "delay_list k xs" and t: "t \<notin> set xs" "t < length (ContextTask k)"
  obtains k' where "IncludeTaskIntoDelayList t k = Some k'" and "delay_list k' (xs @ [t])"
proof (cases xs rule: rev_cases)
  case Nil
  with l t that show ?thesis
    by (auto simp: IncludeTaskIntoDelayList_def delay_list_def)
next
  case (snoc ys e)
  with l have d: "distinct (ys @ [e])" and lk: "linked (ContextTask k) None (ys @ [e]) None"
    and hd: "Head k = first_of ys (Some e)" and tl: "Tail k = Some e"
    by (auto simp: delay_list_def)
  from lk have e: "e < length (ContextTask k)" by simp
  let ?ct = "((ContextTask k)[e := (tcb k e)\<lparr>Next := Some t\<rparr>])
      [t := (tcb k t)\<lparr>Previous := Some e, Next := None\<rparr>]"
  from snoc t have ne: "t \<noteq> e" "t \<notin> set ys" "e \<notin> set ys" using d by auto
  have "IncludeTaskIntoDelayList t k = Some (k\<lparr>ContextTask := ?ct, Tail := Some t\<rparr>)"
    using e t ne by (simp add: IncludeTaskIntoDelayList_def tl)
  moreover have "delay_list (k\<lparr>ContextTask := ?ct, Tail := Some t\<rparr>) (xs @ [t])"
    using lk d t ne e hd by (simp add: snoc delay_list_def)
  ultimately show ?thesis by (rule that)
qed

text \<open>Removal splits on whether the task has a predecessor and a successor.\<close>

lemma Remove_only:
  assumes "delay_list k [t]"
  shows "RemoveFromDelayList t k = Some (k\<lparr>Tail := None, Head := None\<rparr>)"
    and "delay_list (k\<lparr>Tail := None, Head := None\<rparr>) []"
  using assms by (auto simp: RemoveFromDelayList_def delay_list_def)

lemma Remove_first:
  assumes l: "delay_list k (t # z # zs)"
  obtains k' where "RemoveFromDelayList t k = Some k'" and "delay_list k' (z # zs)"
proof
  let ?k = "k\<lparr>ContextTask := (ContextTask k)[z := (tcb k z)\<lparr>Previous := None\<rparr>], Head := Some z\<rparr>"
  from l have "last (z # zs) \<noteq> t" by (auto simp: delay_list_def)
  with l show "RemoveFromDelayList t k = Some ?k"
    by (simp add: RemoveFromDelayList_def delay_list_def last_of_def split: if_splits)
  from l show "delay_list ?k (z # zs)" by (simp add: delay_list_def)
qed

lemma Remove_last:
  assumes l: "delay_list k (ys @ [y, t])"
  obtains k' where "RemoveFromDelayList t k = Some k'" and "delay_list k' (ys @ [y])"
proof
  let ?k = "k\<lparr>ContextTask := (ContextTask k)[y := (tcb k y)\<lparr>Next := None\<rparr>], Tail := Some y\<rparr>"
  from l have "first_of ys (Some y) \<noteq> Some t" by (cases ys) (auto simp: delay_list_def)
  with l show "RemoveFromDelayList t k = Some ?k"
    by (simp add: RemoveFromDelayList_def delay_list_def)
  from l show "delay_list ?k (ys @ [y])" by (simp add: delay_list_def)
qed

lemma Remove_middle:
  assumes l: "delay_list k (ys @ y # t # z # zs)"
  obtains k' where "RemoveFromDelayList t k = Some k'" and "delay_list k' (ys @ y # z # zs)"
proof
  let ?k = "k\<lparr>ContextTask := ((ContextTask k)[z := (tcb k z)\<lparr>Previous := Some y\<rparr>])
      [y := (tcb k y)\<lparr>Next := Some z\<rparr>]\<rparr>"
  from l have "first_of ys (Some y) \<noteq> Some t" by (cases ys) (auto simp: delay_list_def)
  moreover from l have "last (z # zs) \<noteq> t" by (auto simp: delay_list_def)
  ultimately show "RemoveFromDelayList t k = Some ?k"
    using l by (simp add: RemoveFromDelayList_def delay_list_def last_of_def split: if_splits)
  from l show "delay_list ?k (ys @ y # z # zs)" by (simp add: delay_list_def)
qed

lemma Remove_split:
  assumes l: "delay_list k (ys @ t # zs)"
  obtains k' where "RemoveFromDelayList t k = Some k'" and "delay_list k' (ys @ zs)"
proof (cases ys rule: rev_cases; cases zs)
  assume "ys = []" "zs = []"
  with l that Remove_only show ?thesis by (metis append_Nil)
next
  fix z zs' assume "ys = []" "zs = z # zs'"
  with l that Remove_first show ?thesis by (metis append_Nil)
next
  fix ys' y assume "ys = ys' @ [y]" "zs = []"
  with l that show ?thesis by (auto elim: Remove_last)
next
  fix ys' y z zs' assume "ys = ys' @ [y]" "zs = z # zs'"
  with l that show ?thesis by (auto elim: Remove_middle)
qed

lemma Remove_list:
  assumes l: "delay_list k xs" and t: "t \<in> set xs"
  obtains k' where "RemoveFromDelayList t k = Some k'" and "delay_list k' (remove1 t xs)"
proof -
  from split_list_first [OF t] obtain ys zs where xs: "xs = ys @ t # zs" and "t \<notin> set ys" by blast
  then have "remove1 t xs = ys @ zs" by (simp add: remove1_append)
  with l xs that show ?thesis by (metis Remove_split)
qed

text \<open>The walk of the list follows \<^verbatim>\<open>Next\<close>, which removal of the task itself leaves in place.\<close>

lemma Remove_own_Next:
  assumes "RemoveFromDelayList t k = Some k'" and "delay_list k (ys @ t # zs)"
  shows "Next (tcb k' t) = first_of zs None"
proof -
  from assms(2) have d: "distinct (ys @ t # zs)" and n: "Next (tcb k t) = first_of zs None"
    and b: "t < length (ContextTask k)" and p: "Previous (tcb k t) = last_of ys None"
    by (auto simp: delay_list_def)
  have "u \<noteq> t" if "first_of zs None = Some u \<or> last_of ys None = Some u" for u
    using d that by (cases zs) (auto simp: last_of_eq_Some)
  with assms(1) n p b show ?thesis
    by (auto simp: RemoveFromDelayList_def bind_eq_Some_conv upd_eq_Some rd_eq_Some
        nth_list_update split: if_splits)
qed

section \<open>Interface\<close>

locale delay_queue =
  fixes insert_task :: "nat \<Rightarrow> 's \<Rightarrow> 's option"
    and remove_task :: "nat \<Rightarrow> 's \<Rightarrow> 's option"
    and holds :: "'s \<Rightarrow> nat list \<Rightarrow> bool"
    and slots :: "'s \<Rightarrow> nat"
  assumes insert_ok: "holds s xs \<Longrightarrow> t \<notin> set xs \<Longrightarrow> t < slots s \<Longrightarrow>
      \<exists>s'. insert_task t s = Some s' \<and> holds s' (xs @ [t]) \<and> slots s' = slots s"
    and remove_ok: "holds s xs \<Longrightarrow> t \<in> set xs \<Longrightarrow>
      \<exists>s'. remove_task t s = Some s' \<and> holds s' (remove1 t xs) \<and> slots s' = slots s"
    and functional: "holds s xs \<Longrightarrow> holds s ys \<Longrightarrow> xs = ys"
begin

text \<open>Entering and leaving the queue cancel out.\<close>

lemma insert_remove:
  assumes "holds s xs" and "t \<notin> set xs" and "t < slots s"
  shows "\<exists>s' s''. insert_task t s = Some s' \<and> remove_task t s' = Some s'' \<and> holds s'' xs"
proof -
  from insert_ok [OF assms] obtain s' where s': "insert_task t s = Some s'" "holds s' (xs @ [t])"
    by blast
  from remove_ok [OF s'(2), of t] obtain s'' where
    "remove_task t s' = Some s''" "holds s'' (remove1 t (xs @ [t]))" by auto
  with s' assms(2) show ?thesis by (simp add: remove1_append)
qed

text \<open>Tasks enter in the order of their calls.\<close>

lemma insert_all:
  "holds s xs \<Longrightarrow> distinct (xs @ ts) \<Longrightarrow> \<forall>t \<in> set ts. t < slots s \<Longrightarrow>
     \<exists>s'. fold (\<lambda>t r. Option.bind r (insert_task t)) ts (Some s) = Some s' \<and> holds s' (xs @ ts)"
proof (induction ts arbitrary: s xs)
  case Nil
  then show ?case by auto
next
  case (Cons t ts)
  then obtain s' where "insert_task t s = Some s'" "holds s' (xs @ [t])" "slots s' = slots s"
    using insert_ok [of s xs t] by auto
  with Cons.IH [of s' "xs @ [t]"] Cons.prems show ?case by auto
qed

end

interpretation dl: delay_queue IncludeTaskIntoDelayList RemoveFromDelayList delay_list
  "\<lambda>k. length (ContextTask k)"
proof
  fix k xs t assume "delay_list k xs" "t \<notin> set xs" "t < length (ContextTask k)"
  then show "\<exists>k'. IncludeTaskIntoDelayList t k = Some k' \<and> delay_list k' (xs @ [t]) \<and>
      length (ContextTask k') = length (ContextTask k)"
    by (metis Include_list Include_same same_but_links_task(7))
next
  fix k xs t assume "delay_list k xs" "t \<in> set xs"
  then show "\<exists>k'. RemoveFromDelayList t k = Some k' \<and> delay_list k' (remove1 t xs) \<and>
      length (ContextTask k') = length (ContextTask k)"
    by (metis Remove_list Remove_same same_but_links_task(7))
next
  fix k xs ys assume "delay_list k xs" "delay_list k ys"
  then show "xs = ys" by (rule delay_list_unique)
qed

end
