(* ===== verification/Tasks.thy ===== *)
theory Tasks
  imports DelayList
begin

text \<open>
  Task management of \<^verbatim>\<open>src/brtos/BRTOS.c\<close>: initialisation, both variants of
  \<^verbatim>\<open>OSInstallTask\<close> (static stacks and heap stacks), \<^verbatim>\<open>OSUninstallTask\<close>, blocking and
  unblocking of tasks and priorities, and \<^verbatim>\<open>BRTOSStart\<close>; with the initial stack frames
  built by \<^verbatim>\<open>src/hal/GCC_CORTEX-M4/HAL.c\<close>. The memory allocator chosen by
  \<^verbatim>\<open>BRTOSConfig.h\<close> is a pair of parameters over an abstract heap.
\<close>

section \<open>Initial state\<close>

text \<open>The values C gives to the global variables before \<^verbatim>\<open>main\<close>.\<close>

definition zero_task :: ContextType where
  "zero_task = \<lparr>TaskName = [], StackPoint = 0, StackInit = 0, StackSize = 0, Runtime = 0,
     TimeToWait = 0, State = 0, Blocked = 0, SuspendedType = 0, Priority = 0,
     Next = None, Previous = None\<rparr>"

definition boot_kernel :: "config \<Rightarrow> kernel" where
  "boot_kernel C = \<lparr>PriorityVector = replicate configMAX_TASK_INSTALL 0, iStackAddress = 0,
     iQueueAddress = 0, StackAddress = 0, NumberOfInstalledTasks = 0, currentTask = 0,
     SelectedTask = 0, OSReadyList = 0, OSBlockedList = 0xFFFFFFFF, OSTickCounter = 0,
     OSDuty = 0, OSDutyTmp = 0, LastOSDuty = 0, DutyCnt = 0, TaskAlloc = 0, iNesting = 0,
     Tail = None, Head = None,
     ContextTask = replicate (Suc (unat (NUMBER_OF_TASKS C))) zero_task,
     OSTimeTaskSwitched = 0, OSTotalRuntime = 0, SPvalue = 0, PSP = 0, RAM = (\<lambda>_. 0)\<rparr>"

definition PreInstallTasks :: "config \<Rightarrow> kernel \<Rightarrow> kernel" where
  "PreInstallTasks C k =
    k\<lparr>OSTickCounter := 0, currentTask := 0, NumberOfInstalledTasks := 0, TaskAlloc := 0,
      iStackAddress := 0, StackAddress := STACK_base C,
      PriorityVector := map (\<lambda>_. EMPTY_PRIO) (PriorityVector k),
      ContextTask := map (\<lambda>i. if 1 \<le> i \<and> i \<le> unat (NUMBER_OF_TASKS C)
                          then (tcb k i)\<lparr>Priority := EMPTY_PRIO, Runtime := 0\<rparr> else tcb k i)
                       [0..<length (ContextTask k)],
      Tail := None, Head := None\<rparr>"

section \<open>Initial stack frames\<close>

text \<open>\<^verbatim>\<open>*--stk_pt = v\<close>\<close>

definition push_word :: "uint32_t \<Rightarrow> uint32_t \<times> (uint32_t \<Rightarrow> uint32_t) \<Rightarrow>
    uint32_t \<times> (uint32_t \<Rightarrow> uint32_t)" where
  "push_word v s = (fst s - 4, (snd s)(fst s - 4 := v))"

definition initial_frame :: "config \<Rightarrow> uint32_t \<Rightarrow> uint32_t \<Rightarrow> uint32_t \<Rightarrow> uint32_t list" where
  "initial_frame C FctPtr r1 parameters =
     [0x01000000, FctPtr, 0, 0x12121212, 0x03030303, 0x02020202, r1, parameters] @
     (if FPU_SUPPORT C then [0xFFFFFFFD] else []) @
     [0x11111111, 0x10101010, 0x09090909, 0x08080808, 0x07070707, 0x06060606, 0x05050505,
      0x04040404]"

definition CreateVirtualStack :: "config \<Rightarrow> uint32_t \<Rightarrow> uint16_t \<Rightarrow> uint32_t \<Rightarrow> kernel \<Rightarrow> kernel" where
  "CreateVirtualStack C FctPtr NUMBER_OF_STACKED_BYTES parameters k =
    (let stk_pt = STACK_base C +
           4 * (ucast (iStackAddress k) + ucast NUMBER_OF_STACKED_BYTES div 4);
         frame = initial_frame C FctPtr (ucast NUMBER_OF_STACKED_BYTES div 10) parameters
     in k\<lparr>RAM := snd (fold push_word frame (stk_pt, RAM k))\<rparr>)"

definition CreateDVirtualStack :: "config \<Rightarrow> uint32_t \<Rightarrow> uint32_t \<Rightarrow> uint32_t \<Rightarrow> uint32_t \<Rightarrow> kernel \<Rightarrow>
    uint32_t \<times> kernel" where
  "CreateDVirtualStack C FctPtr stk stk_size parameters k =
    (let (stk_pt, ram) = fold push_word (initial_frame C FctPtr 0x01010101 parameters)
                           (stk + stk_size, RAM k)
     in (stk_pt, k\<lparr>RAM := ram\<rparr>))"

section \<open>Installing tasks\<close>

text \<open>
  The checks on the requested priority, common to both variants: \<open>Some e\<close> is the error
  code returned, \<^term>\<open>None\<close> that the priority may be used.
\<close>

definition priority_error :: "config \<Rightarrow> uint32_t \<Rightarrow> uint8_t \<Rightarrow> kernel \<Rightarrow> uint8_t option option" where
  "priority_error C FctPtr iPriority k =
    (if iPriority \<noteq> 0
     then if iPriority > configMAX_TASK_PRIORITY
          then Some (Some END_OF_AVAILABLE_PRIORITIES)
          else do {
            owner \<leftarrow> rd (PriorityVector k) (unat iPriority);
            Some (if owner \<noteq> EMPTY_PRIO then Some BUSY_PRIORITY else None) }
     else Some (if FctPtr \<noteq> Idle_fct C then Some CANNOT_ASSIGN_IDLE_TASK_PRIO else None))"

text \<open>The search for a free task control block in \<^verbatim>\<open>TaskAlloc\<close>.\<close>

definition free_tcb :: "config \<Rightarrow> kernel \<Rightarrow> nat option" where
  "free_tcb C k = find (\<lambda>i. \<not> bit (TaskAlloc k) i) [0..<unat (NUMBER_OF_TASKS C)]"

definition install_tail :: "config \<Rightarrow> nat \<Rightarrow> uint8_t \<Rightarrow> kernel \<Rightarrow> kernel option" where
  "install_tail C TaskNumber iPriority k = do {
     ct \<leftarrow> upd (ContextTask k) TaskNumber
            (\<lambda>t. verbose C (\<lambda>t. t\<lparr>Blocked := FALSE8, State := READY\<rparr>)
                   (t\<lparr>TimeToWait := NO_TIMEOUT, Next := None, Previous := None\<rparr>));
     m \<leftarrow> rd PriorityMask (unat iPriority);
     Some (k\<lparr>ContextTask := ct, OSReadyList := OSReadyList k OR m\<rparr>) }"

text \<open>
  The result is the return code, the value written through \<^verbatim>\<open>TaskHandle\<close> (when it is
  written and not null) and the new state.
\<close>

definition OSInstallTask :: "config \<Rightarrow> uint32_t \<Rightarrow> string \<Rightarrow> uint16_t \<Rightarrow> uint8_t \<Rightarrow> uint32_t \<Rightarrow> kernel \<Rightarrow>
    (uint8_t \<times> OS_CPU_TYPE option \<times> kernel) option" where
  "OSInstallTask C FctPtr name USER_STACKED_BYTES iPriority parameters k =
    (let bytes = USER_STACKED_BYTES - USER_STACKED_BYTES mod 4 in
     if unat bytes < NUMBER_MIN_OF_STACKED_BYTES C then Some (STACK_SIZE_TOO_SMALL, None, k)
     else if unat (iStackAddress k) + unat bytes div 4 > HEAP_SIZE C div 4
     then Some (NO_MEMORY, None, k)
     else do {
       perr \<leftarrow> priority_error C FctPtr iPriority k;
       case perr of
         Some e \<Rightarrow> Some (e, None, k)
       | None \<Rightarrow>
          (case free_tcb C k of
             None \<Rightarrow> Some (END_OF_AVAILABLE_TCB, None, k)
           | Some i \<Rightarrow> do {
               let TaskNumber = Suc i;
               let k = k\<lparr>TaskAlloc := TaskAlloc k OR push_bit i 1,
                         NumberOfInstalledTasks := NumberOfInstalledTasks k + 1\<rparr>;
               let sp = (if STACK_GROWTH C
                         then StackAddress k + of_nat (NUMBER_MIN_OF_STACKED_BYTES C)
                         else StackAddress k + (ucast bytes - of_nat (NUMBER_MIN_OF_STACKED_BYTES C)));
               let init = (if STACK_GROWTH C then StackAddress k else StackAddress k + ucast bytes);
               ct \<leftarrow> upd (ContextTask k) TaskNumber
                      (\<lambda>t. t\<lparr>TaskName := name, StackPoint := sp, StackInit := init,
                              Priority := iPriority\<rparr>);
               pv \<leftarrow> wr (PriorityVector k) (unat iPriority) (of_nat TaskNumber);
               let k = k\<lparr>ContextTask := ct, PriorityVector := pv\<rparr>;
               let k = CreateVirtualStack C FctPtr bytes parameters k;
               let k = k\<lparr>iStackAddress := iStackAddress k + bytes div 4,
                         StackAddress := StackAddress k + ucast bytes\<rparr>;
               k \<leftarrow> install_tail C TaskNumber iPriority k;
               Some (OK, Some (of_nat TaskNumber), k) }) })"

definition OSInstallTask_dyn :: "(uint16_t \<Rightarrow> 'h \<Rightarrow> uint32_t \<times> 'h) \<Rightarrow> (uint32_t \<Rightarrow> 'h \<Rightarrow> 'h) \<Rightarrow> config \<Rightarrow>
    uint32_t \<Rightarrow> string \<Rightarrow> uint16_t \<Rightarrow> uint8_t \<Rightarrow> uint32_t \<Rightarrow> 'h \<Rightarrow> kernel \<Rightarrow>
    (uint8_t \<times> OS_CPU_TYPE option \<times> 'h \<times> kernel) option" where
  "OSInstallTask_dyn BRTOS_ALLOC BRTOS_DEALLOC C FctPtr name USER_STACKED_BYTES iPriority parameters h k =
    (let bytes = USER_STACKED_BYTES - USER_STACKED_BYTES mod 4 in
     if unat bytes < NUMBER_MIN_OF_STACKED_BYTES C then Some (STACK_SIZE_TOO_SMALL, None, h, k)
     else do {
       perr \<leftarrow> priority_error C FctPtr iPriority k;
       case perr of
         Some e \<Rightarrow> Some (e, None, h, k)
       | None \<Rightarrow>
          (let (Stack, h) = BRTOS_ALLOC bytes h in
           if Stack = 0 then Some (NO_MEMORY, None, h, k)
           else
            (case free_tcb C k of
               None \<Rightarrow> Some (END_OF_AVAILABLE_TCB, None, BRTOS_DEALLOC Stack h, k)
             | Some i \<Rightarrow> do {
                 let TaskNumber = Suc i;
                 let k = k\<lparr>TaskAlloc := TaskAlloc k OR push_bit i 1,
                           NumberOfInstalledTasks := NumberOfInstalledTasks k + 1\<rparr>;
                 ct \<leftarrow> upd (ContextTask k) TaskNumber
                        (\<lambda>t. t\<lparr>TaskName := name, StackInit := Stack, Priority := iPriority\<rparr>);
                 pv \<leftarrow> wr (PriorityVector k) (unat iPriority) (of_nat TaskNumber);
                 let k = k\<lparr>ContextTask := ct, PriorityVector := pv\<rparr>;
                 let (sp, k) = CreateDVirtualStack C FctPtr Stack (ucast bytes) parameters k;
                 ct \<leftarrow> upd (ContextTask k) TaskNumber
                        (\<lambda>t. t\<lparr>StackPoint := sp, StackSize := bytes\<rparr>);
                 k \<leftarrow> install_tail C TaskNumber iPriority (k\<lparr>ContextTask := ct\<rparr>);
                 Some (OK, Some (of_nat TaskNumber), h, k) })) })"

section \<open>Uninstalling tasks\<close>

text \<open>The loop that looks for the task in the delay list.\<close>

partial_function (option) find_timer :: "kernel \<Rightarrow> nat \<Rightarrow> ptr \<Rightarrow> bool option" where
  "find_timer k Task Task_timer =
    (case Task_timer of
       None \<Rightarrow> Some False
     | Some t \<Rightarrow> if t = Task then Some True
                 else Option.bind (rd (ContextTask k) t) (\<lambda>x. find_timer k Task (Next x)))"

definition OSUninstallTask :: "(uint32_t \<Rightarrow> 'h \<Rightarrow> 'h) \<Rightarrow> config \<Rightarrow> BRTOS_TH \<Rightarrow> OS_CPU_TYPE \<Rightarrow> 'h \<Rightarrow> kernel \<Rightarrow>
    (uint8_t \<times> 'h \<times> kernel) option" where
  "OSUninstallTask BRTOS_DEALLOC C TaskHandle safety_off h k =
    (if TaskHandle = 0 \<and> currentTask k = 0 then Some (NOT_VALID_TASK, h, k)
     else do {
       let TaskHandle = (if TaskHandle = 0 then ucast (currentTask k) else TaskHandle);
       let t = unat TaskHandle;
       Task \<leftarrow> rd (ContextTask k) t;
       if Priority Task = 0 then Some (CANNOT_UNINSTALL_IDLE_TASK, h, k)
       else do {
         m \<leftarrow> rd PriorityMask (unat (Priority Task));
         if OSReadyList k AND m \<noteq> m \<and> safety_off \<noteq> 1 then Some (TASK_WAITING_EVENT, h, k)
         else do {
           k \<leftarrow> (if OSReadyList k AND m \<noteq> m then do {
                   found \<leftarrow> find_timer k t (Head k);
                   if found then RemoveFromDelayList t k else Some k }
                 else Some (k\<lparr>OSReadyList := OSReadyList k AND NOT m\<rparr>));
           let k = k\<lparr>TaskAlloc := TaskAlloc k AND NOT (push_bit (t - 1) 1)\<rparr>;
           pv \<leftarrow> wr (PriorityVector k) (unat (Priority Task)) EMPTY_PRIO;
           let h = BRTOS_DEALLOC (StackInit Task) h;
           ct \<leftarrow> upd (ContextTask k) t
                  (\<lambda>x. x\<lparr>StackInit := 0, StackPoint := 0, StackSize := 0, Priority := EMPTY_PRIO,
                          TimeToWait := NO_TIMEOUT, Next := None, Previous := None\<rparr>);
           let k = k\<lparr>PriorityVector := pv, ContextTask := ct,
                     NumberOfInstalledTasks := NumberOfInstalledTasks k - 1\<rparr>;
           k \<leftarrow> (if TaskHandle = ucast (currentTask k) then ChangeContext C k else Some k);
           Some (OK, h, k) } } })"

section \<open>Starting the system\<close>

definition BRTOSStart :: "config \<Rightarrow> kernel \<Rightarrow> (uint8_t \<times> kernel) option" where
  "BRTOSStart C k = do {
     (r, _, k) \<leftarrow> OSInstallTask C (Idle_fct C) ''Idle Task'' (IDLE_STACK_SIZE C) 0 0 k;
     if r \<noteq> OK then Some (NO_MEMORY, k)
     else do {
       sel \<leftarrow> OSSchedule C k;
       t \<leftarrow> rd (ContextTask k) (unat sel);
       Some (OK, k\<lparr>currentTask := sel, SPvalue := StackPoint t,
                  PSP := StackPoint t + context_bytes C\<rparr>) } }"

section \<open>Blocking and unblocking\<close>

definition set_blocked :: "config \<Rightarrow> nat \<Rightarrow> uint8_t \<Rightarrow> kernel \<Rightarrow> kernel option" where
  "set_blocked C t v k =
    (if VERBOSE C
     then map_option (\<lambda>ct. k\<lparr>ContextTask := ct\<rparr>) (upd (ContextTask k) t (\<lambda>x. x\<lparr>Blocked := v\<rparr>))
     else Some k)"

definition OSBlockPriority :: "config \<Rightarrow> uint8_t \<Rightarrow> kernel \<Rightarrow> (uint8_t \<times> kernel) option" where
  "OSBlockPriority C iPriority k =
    (if iNesting k > 0 then Some (IRQ_PEND_ERR, k)
     else do {
       BlockedTask \<leftarrow> rd (PriorityVector k) (unat iPriority);
       k \<leftarrow> set_blocked C (unat BlockedTask) TRUE8 k;
       m \<leftarrow> rd PriorityMask (unat iPriority);
       let k = k\<lparr>OSBlockedList := OSBlockedList k AND NOT m\<rparr>;
       k \<leftarrow> (if currentTask k = BlockedTask then ChangeContext C k else Some k);
       Some (OK, k) })"

definition OSUnBlockPriority :: "config \<Rightarrow> uint8_t \<Rightarrow> kernel \<Rightarrow> (uint8_t \<times> kernel) option" where
  "OSUnBlockPriority C iPriority k = do {
     k \<leftarrow> (if VERBOSE C then do {
             BlockedTask \<leftarrow> rd (PriorityVector k) (unat iPriority);
             set_blocked C (unat BlockedTask) FALSE8 k }
           else Some k);
     m \<leftarrow> rd PriorityMask (unat iPriority);
     let k = k\<lparr>OSBlockedList := OSBlockedList k OR m\<rparr>;
     k \<leftarrow> (if currentTask k \<noteq> 0 \<and> iNesting k = 0 then ChangeContext C k else Some k);
     Some (OK, k) }"

definition OSBlockTask :: "config \<Rightarrow> BRTOS_TH \<Rightarrow> kernel \<Rightarrow> (uint8_t \<times> kernel) option" where
  "OSBlockTask C TaskHandle k =
    (if iNesting k > 0 then Some (IRQ_PEND_ERR, k)
     else if TaskHandle = 0 \<and> currentTask k = 0 then Some (NOT_VALID_TASK, k)
     else do {
       let TaskHandle = (if TaskHandle = 0 then ucast (currentTask k) else TaskHandle);
       k \<leftarrow> set_blocked C (unat TaskHandle) TRUE8 k;
       Task \<leftarrow> rd (ContextTask k) (unat TaskHandle);
       m \<leftarrow> rd PriorityMask (unat (Priority Task));
       let k = k\<lparr>OSBlockedList := OSBlockedList k AND NOT m\<rparr>;
       k \<leftarrow> (if ucast (currentTask k) = TaskHandle then ChangeContext C k else Some k);
       Some (OK, k) })"

definition OSUnBlockTask :: "config \<Rightarrow> BRTOS_TH \<Rightarrow> kernel \<Rightarrow> (uint8_t \<times> kernel) option" where
  "OSUnBlockTask C TaskHandle k = do {
     k \<leftarrow> set_blocked C (unat TaskHandle) FALSE8 k;
     Task \<leftarrow> rd (ContextTask k) (unat TaskHandle);
     m \<leftarrow> rd PriorityMask (unat (Priority Task));
     let k = k\<lparr>OSBlockedList := OSBlockedList k OR m\<rparr>;
     k \<leftarrow> (if currentTask k \<noteq> 0 \<and> iNesting k = 0 then ChangeContext C k else Some k);
     Some (OK, k) }"

text \<open>The bodies of the two loops over a range of task numbers, and the loops.\<close>

definition block_step :: "config \<Rightarrow> nat \<Rightarrow> kernel \<Rightarrow> kernel option" where
  "block_step C iTask k =
    (if iTask \<noteq> unat (currentTask k) then do {
       k \<leftarrow> set_blocked C iTask TRUE8 k;
       Task \<leftarrow> rd (ContextTask k) iTask;
       m \<leftarrow> rd PriorityMask (unat (Priority Task));
       Some (k\<lparr>OSBlockedList := OSBlockedList k AND NOT m\<rparr>) }
     else Some k)"

definition unblock_step :: "config \<Rightarrow> nat \<Rightarrow> kernel \<Rightarrow> kernel option" where
  "unblock_step C iTask k =
    (if iTask \<noteq> unat (currentTask k) then do {
       Task \<leftarrow> rd (ContextTask k) iTask;
       k \<leftarrow> set_blocked C iTask FALSE8 k;
       m \<leftarrow> rd PriorityMask (unat (Priority Task));
       Some (k\<lparr>OSBlockedList := OSBlockedList k OR m\<rparr>) }
     else Some k)"

fun for_tasks :: "(nat \<Rightarrow> kernel \<Rightarrow> kernel option) \<Rightarrow> nat list \<Rightarrow> kernel \<Rightarrow> kernel option" where
  "for_tasks f [] k = Some k"
| "for_tasks f (t # ts) k = Option.bind (f t k) (for_tasks f ts)"

definition OSBlockMultipleTask :: "config \<Rightarrow> uint8_t \<Rightarrow> uint8_t \<Rightarrow> kernel \<Rightarrow> (uint8_t \<times> kernel) option" where
  "OSBlockMultipleTask C TaskStart TaskNumber k =
    (if iNesting k > 0 then Some (IRQ_PEND_ERR, k)
     else do {
       let TaskFinish = TaskStart + TaskNumber;
       k \<leftarrow> for_tasks (block_step C) [unat TaskStart..<unat TaskFinish] k;
       Some (OK, k) })"

definition OSUnBlockMultipleTask :: "config \<Rightarrow> uint8_t \<Rightarrow> uint8_t \<Rightarrow> kernel \<Rightarrow> (uint8_t \<times> kernel) option" where
  "OSUnBlockMultipleTask C TaskStart TaskNumber k =
    (if iNesting k > 0 then Some (IRQ_PEND_ERR, k)
     else do {
       let TaskFinish = TaskStart + TaskNumber;
       k \<leftarrow> for_tasks (unblock_step C) [unat TaskStart..<unat TaskFinish] k;
       k \<leftarrow> (if currentTask k \<noteq> 0 \<and> iNesting k = 0 then ChangeContext C k else Some k);
       Some (OK, k) })"

section \<open>Allocation of task control blocks\<close>

text \<open>\<^verbatim>\<open>TaskAlloc\<close> has a bit for exactly the installed tasks.\<close>

definition alloc_ok :: "config \<Rightarrow> kernel \<Rightarrow> bool" where
  "alloc_ok C k \<longleftrightarrow> (\<forall>i < unat (NUMBER_OF_TASKS C). bit (TaskAlloc k) i = installed C k (Suc i))"

lemma PreInstallTasks_tcb:
  "t < length (ContextTask k) \<Longrightarrow> is_task C t \<Longrightarrow>
     tcb (PreInstallTasks C k) t = (tcb k t)\<lparr>Priority := EMPTY_PRIO, Runtime := 0\<rparr>"
  by (simp add: PreInstallTasks_def is_task_def)

lemma length_boot_kernel: "length (ContextTask (boot_kernel C)) = Suc (unat (NUMBER_OF_TASKS C))"
  by (simp add: boot_kernel_def)

lemma PreInstallTasks_ok:
  assumes "unat (NUMBER_OF_TASKS C) \<le> 32"
  shows "kernel_ok C (PreInstallTasks C (boot_kernel C))"
    and "alloc_ok C (PreInstallTasks C (boot_kernel C))"
    and "delay_list (PreInstallTasks C (boot_kernel C)) []"
    and "tick_ok (PreInstallTasks C (boot_kernel C))"
proof -
  let ?k = "PreInstallTasks C (boot_kernel C)"
  have ni: "\<not> installed C ?k t" for t
    using PreInstallTasks_tcb [of t "boot_kernel C" C] length_boot_kernel [of C]
    by (auto simp: installed_def) (simp add: is_task_def)
  show "kernel_ok C ?k"
    using assms ni by (intro kernel_okI)
      (auto simp: arrays_ok_def prio_ok_def ready_ok_def PreInstallTasks_def boot_kernel_def)
  show "alloc_ok C ?k"
    using ni by (auto simp: alloc_ok_def) (simp add: PreInstallTasks_def)
  show "delay_list ?k []" and "tick_ok ?k"
    by (simp_all add: delay_list_def PreInstallTasks_def)
qed

lemma free_tcb_Some:
  assumes "free_tcb C k = Some i"
  shows "i < unat (NUMBER_OF_TASKS C)" and "\<not> bit (TaskAlloc k) i"
  using assms unfolding free_tcb_def by (auto simp: find_Some_iff)

lemma free_tcb_not_installed:
  assumes "free_tcb C k = Some i" and "alloc_ok C k"
  shows "\<not> installed C k (Suc i)"
  using free_tcb_Some [OF assms(1)] assms(2) by (simp add: alloc_ok_def)

section \<open>Effect of an installation\<close>

text \<open>What both variants of \<^verbatim>\<open>OSInstallTask\<close> do to the scheduling state when they succeed.\<close>

definition installs :: "config \<Rightarrow> nat \<Rightarrow> nat \<Rightarrow> kernel \<Rightarrow> kernel \<Rightarrow> bool" where
  "installs C i p k k' \<longleftrightarrow>
     p < 32 \<and> PriorityVector k' = (PriorityVector k)[p := of_nat (Suc i)] \<and>
     OSReadyList k' = OSReadyList k OR PriorityMask ! p \<and> TaskAlloc k' = TaskAlloc k OR push_bit i 1 \<and>
     ContextTask k' = (ContextTask k)[Suc i := tcb k' (Suc i)] \<and> prio_of k' (Suc i) = p \<and>
     TimeToWait (tcb k' (Suc i)) = NO_TIMEOUT \<and> Next (tcb k' (Suc i)) = None \<and>
     Previous (tcb k' (Suc i)) = None \<and>
     NumberOfInstalledTasks k' = NumberOfInstalledTasks k + 1 \<and>
     OSBlockedList k' = OSBlockedList k \<and> OSTickCounter k' = OSTickCounter k \<and>
     Head k' = Head k \<and> Tail k' = Tail k \<and> currentTask k' = currentTask k \<and> iNesting k' = iNesting k"

lemma unat_of_nat_Suc:
  "arrays_ok C k \<Longrightarrow> i < unat (NUMBER_OF_TASKS C) \<Longrightarrow> unat (of_nat (Suc i) :: uint8_t) = Suc i"
  by (simp add: arrays_ok_def unsigned_of_nat take_bit_nat_eq_self del: of_nat_Suc)

lemma installs_tcb:
  assumes "installs C i p k k'" and "Suc i < length (ContextTask k)"
  shows "prio_of k' (Suc i) = p" and "TimeToWait (tcb k' (Suc i)) = NO_TIMEOUT"
    and "t \<noteq> Suc i \<Longrightarrow> tcb k' t = tcb k t"
    and "length (ContextTask k') = length (ContextTask k)"
proof -
  from assms have ct: "ContextTask k' = (ContextTask k)[Suc i := tcb k' (Suc i)]"
    by (simp add: installs_def)
  from assms show "prio_of k' (Suc i) = p" and "TimeToWait (tcb k' (Suc i)) = NO_TIMEOUT"
    by (simp_all add: installs_def)
  from ct show "length (ContextTask k') = length (ContextTask k)" by (metis length_list_update)
  from ct show "t \<noteq> Suc i \<Longrightarrow> tcb k' t = tcb k t" by (metis nth_list_update_neq)
qed

lemma installs_installed:
  assumes "installs C i p k k'" and "arrays_ok C k" and "i < unat (NUMBER_OF_TASKS C)"
  shows "installed C k' t \<longleftrightarrow> t = Suc i \<or> installed C k t"
proof -
  from assms(2,3) have len: "Suc i < length (ContextTask k)" by (simp add: arrays_ok_def)
  from assms(1) have "p < 32" by (simp add: installs_def)
  with installs_tcb(1) [OF assms(1) len] have "Priority (tcb k' (Suc i)) \<noteq> EMPTY_PRIO" by auto
  with installs_tcb(3) [OF assms(1) len, of t] assms(3) show ?thesis
    by (cases "t = Suc i") (auto simp: installed_def is_task_def)
qed

lemma installs_kernel_ok:
  assumes ok: "kernel_ok C k" and a: "alloc_ok C k" and ins: "installs C i p k k'"
    and i: "i < unat (NUMBER_OF_TASKS C)" and free: "\<not> bit (TaskAlloc k) i"
    and empty: "PriorityVector k ! p = EMPTY_PRIO"
  shows "kernel_ok C k'" and "alloc_ok C k'"
proof -
  from ok have ar: "arrays_ok C k" by (rule kernel_okD)
  then have len: "Suc i < length (ContextTask k)" using i by (simp add: arrays_ok_def)
  note it = installs_tcb [OF ins len] and ii = installs_installed [OF ins ar i]
  from ins have p: "p < 32" and pv: "PriorityVector k' = (PriorityVector k)[p := of_nat (Suc i)]"
    and rl: "OSReadyList k' = OSReadyList k OR PriorityMask ! p"
    and ta: "TaskAlloc k' = TaskAlloc k OR push_bit i 1" by (auto simp: installs_def)
  have new: "\<not> installed C k (Suc i)" using a i free by (simp add: alloc_ok_def)
  have other: "prio_of k t \<noteq> p" if "installed C k t" for t
  proof
    assume e: "prio_of k t = p"
    from installed_prio(2) [OF ok that] e empty have "t = 255" by simp
    with that ar show False by (simp add: installed_def is_task_def arrays_ok_def)
  qed
  have t0: "t \<noteq> Suc i" if "installed C k t" for t using that new by auto
  have "prio_ok C k'"
    unfolding prio_ok_def
  proof (intro allI impI)
    fix t assume "installed C k' t"
    then consider "t = Suc i" | "installed C k t" "t \<noteq> Suc i" using ii t0 by blast
    then show "prio_of k' t < 32 \<and> unat (PriorityVector k' ! prio_of k' t) = t"
    proof cases
      case 1
      have "(PriorityVector k)[p := of_nat (Suc i)] ! p = of_nat (Suc i)"
        using p length_PriorityVector [OF ar] by simp
      then show ?thesis by (simp only: 1 it(1) p pv unat_of_nat_Suc [OF ar i] simp_thms)
    next
      case 2
      have "PriorityVector k' ! prio_of k t = PriorityVector k ! prio_of k t"
        using other [OF 2(1)] by (simp add: pv del: of_nat_Suc)
      with installed_prio [OF ok 2(1)] it(3) [OF 2(2)] show ?thesis by simp
    qed
  qed
  moreover have "ready_ok C k'"
    unfolding ready_ok_def
  proof
    fix q assume "q \<in> prios (OSReadyList k')"
    then consider "q = p" | "q \<in> prios (OSReadyList k)" "q \<noteq> p"
      using p by (auto simp: rl prio_simps)
    then show "installed C k' (unat (PriorityVector k' ! q)) \<and> prio_of k' (unat (PriorityVector k' ! q)) = q"
    proof cases
      case 1
      have "PriorityVector k' ! p = of_nat (Suc i)"
        using p length_PriorityVector [OF ar] by (simp add: pv)
      then show ?thesis by (simp only: 1 it(1) ii unat_of_nat_Suc [OF ar i] simp_thms)
    next
      case 2
      with ready_task [OF ok 2(1)] t0 show ?thesis by (simp add: pv ii it(3))
    qed
  qed
  moreover have "arrays_ok C k'" using ar it(4) by (simp add: arrays_ok_def pv)
  ultimately show "kernel_ok C k'" by (intro kernel_okI)
  have "i < 32" using i ar by (simp add: arrays_ok_def)
  then show "alloc_ok C k'"
    using a by (auto simp: alloc_ok_def ii ta bit_or_iff bit_exp_iff)
qed

lemma installs_delay_list:
  assumes "installs C i p k k'" and "delay_list k xs" and "\<forall>t \<in> set xs. installed C k t"
    and "\<not> installed C k (Suc i)"
  shows "delay_list k' xs"
proof -
  from assms(1) obtain t where ct: "ContextTask k' = (ContextTask k)[Suc i := t]"
    and "Head k' = Head k" "Tail k' = Tail k" by (auto simp: installs_def)
  moreover from assms(3,4) have "Suc i \<notin> set xs" by auto
  ultimately show ?thesis using assms(2) by (simp add: delay_list_def)
qed

section \<open>Both variants of OSInstallTask\<close>

lemma priority_error_total:
  "arrays_ok C k \<Longrightarrow> \<exists>e. priority_error C f p k = Some e"
  by (auto simp: priority_error_def arrays_ok_def word_less_nat_alt)

lemma priority_error_None:
  assumes "priority_error C f p k = Some None"
  shows "unat p < 32" and "p \<noteq> 0 \<Longrightarrow> PriorityVector k ! unat p = EMPTY_PRIO"
    and "p = 0 \<Longrightarrow> f = Idle_fct C"
  using assms by (auto simp: priority_error_def bind_eq_Some_conv rd_eq_Some word_less_nat_alt split: if_splits)

lemma priority_error_not_OK: "priority_error C f p k = Some (Some e) \<Longrightarrow> e \<noteq> OK"
  by (auto simp: priority_error_def bind_eq_Some_conv split: if_splits)

lemma install_tail_eq:
  "t < length (ContextTask k) \<Longrightarrow> unat p < 32 \<Longrightarrow> install_tail C t p k =
     Some (k\<lparr>ContextTask := (ContextTask k)[t :=
             verbose C (\<lambda>t. t\<lparr>Blocked := FALSE8, State := READY\<rparr>)
               ((tcb k t)\<lparr>TimeToWait := NO_TIMEOUT, Next := None, Previous := None\<rparr>)],
           OSReadyList := OSReadyList k OR PriorityMask ! unat p\<rparr>)"
  by (simp add: install_tail_def)

lemma CreateVirtualStack_other [simp]:
  "ContextTask (CreateVirtualStack C f n a k) = ContextTask k"
  "PriorityVector (CreateVirtualStack C f n a k) = PriorityVector k"
  "OSReadyList (CreateVirtualStack C f n a k) = OSReadyList k"
  "OSBlockedList (CreateVirtualStack C f n a k) = OSBlockedList k"
  "TaskAlloc (CreateVirtualStack C f n a k) = TaskAlloc k"
  "NumberOfInstalledTasks (CreateVirtualStack C f n a k) = NumberOfInstalledTasks k"
  "OSTickCounter (CreateVirtualStack C f n a k) = OSTickCounter k"
  "Head (CreateVirtualStack C f n a k) = Head k" "Tail (CreateVirtualStack C f n a k) = Tail k"
  "currentTask (CreateVirtualStack C f n a k) = currentTask k"
  "iNesting (CreateVirtualStack C f n a k) = iNesting k"
  "iStackAddress (CreateVirtualStack C f n a k) = iStackAddress k"
  "StackAddress (CreateVirtualStack C f n a k) = StackAddress k"
  by (simp_all add: CreateVirtualStack_def Let_def)

lemma CreateDVirtualStack_kernel:
  "CreateDVirtualStack C f stk n a k = (sp, k') \<Longrightarrow> \<exists>ram. k' = k\<lparr>RAM := ram\<rparr>"
  by (auto simp: CreateDVirtualStack_def Let_def split: prod.splits)

lemma verbose_task [simp]:
  "(\<And>t. f (g t) = f t) \<Longrightarrow> f (verbose C g t) = f t"
  by (simp add: verbose_def)

text \<open>A failing installation leaves the kernel untouched.\<close>

lemma OSInstallTask_error:
  "OSInstallTask C f n b p a k = Some (r, h, k') \<Longrightarrow> r \<noteq> OK \<Longrightarrow> h = None \<and> k' = k"
  by (auto simp: OSInstallTask_def Let_def bind_eq_Some_conv split: if_splits option.splits)

lemma OSInstallTask_dyn_error:
  "OSInstallTask_dyn al de C f n b p a h k = Some (r, hn, h', k') \<Longrightarrow> r \<noteq> OK \<Longrightarrow> hn = None \<and> k' = k"
  by (auto simp: OSInstallTask_dyn_def Let_def bind_eq_Some_conv
      split: if_splits option.splits prod.splits)

lemma OSInstallTask_effect:
  assumes ar: "arrays_ok C k" and r: "OSInstallTask C f n b p a k = Some (OK, h, k')"
  obtains i where "free_tcb C k = Some i" and "h = Some (of_nat (Suc i))"
    and "installs C i (unat p) k k'" and "priority_error C f p k = Some None"
proof -
  from r have pe: "priority_error C f p k = Some None"
    by (auto simp: OSInstallTask_def Let_def bind_eq_Some_conv dest: priority_error_not_OK
        split: if_splits option.splits)
  from r pe obtain i where i: "free_tcb C k = Some i"
    by (auto simp: OSInstallTask_def Let_def bind_eq_Some_conv split: if_splits option.splits)
  from priority_error_None(1) [OF pe] have p: "unat p < 32" .
  from free_tcb_Some(1) [OF i] ar have len: "Suc i < length (ContextTask k)" "unat p < length (PriorityVector k)"
    using p by (simp_all add: arrays_ok_def)
  have "h = Some (of_nat (Suc i)) \<and> installs C i (unat p) k k'"
    using r pe i len p
    by (auto simp: OSInstallTask_def Let_def install_tail_eq installs_def verbose_def split: if_splits)
  with i pe that show ?thesis by blast
qed

lemma OSInstallTask_dyn_effect:
  assumes ar: "arrays_ok C k" and r: "OSInstallTask_dyn al de C f n b p a h k = Some (OK, hn, h', k')"
  obtains i where "free_tcb C k = Some i" and "hn = Some (of_nat (Suc i))"
    and "installs C i (unat p) k k'" and "priority_error C f p k = Some None"
proof -
  have pe: "priority_error C f p k = Some None"
  proof -
    from priority_error_total [OF ar] obtain e where e: "priority_error C f p k = Some e" by blast
    show ?thesis
      using r e by (cases e) (auto simp: OSInstallTask_dyn_def Let_def dest: priority_error_not_OK
          split: if_splits)
  qed
  from r pe obtain i where i: "free_tcb C k = Some i"
    by (auto simp: OSInstallTask_dyn_def Let_def bind_eq_Some_conv split: if_splits option.splits prod.splits)
  from priority_error_None(1) [OF pe] have p: "unat p < 32" .
  from free_tcb_Some(1) [OF i] ar have len: "Suc i < length (ContextTask k)" "unat p < length (PriorityVector k)"
    using p by (simp_all add: arrays_ok_def)
  have "hn = Some (of_nat (Suc i)) \<and> installs C i (unat p) k k'"
    using r pe i len p
    by (auto simp: OSInstallTask_dyn_def Let_def install_tail_eq installs_def verbose_def
        dest!: CreateDVirtualStack_kernel split: if_splits prod.splits)
  with i pe that show ?thesis by blast
qed

lemma OSInstallTask_total:
  assumes "arrays_ok C k"
  shows "\<exists>r. OSInstallTask C f n b p a k = Some r"
proof -
  from priority_error_total [OF assms] obtain e where e: "priority_error C f p k = Some e" by blast
  show ?thesis
    using e assms priority_error_None(1) [of C f p k] free_tcb_Some(1) [of C k]
    by (cases e; cases "free_tcb C k")
      (auto simp: OSInstallTask_def Let_def arrays_ok_def install_tail_eq)
qed

lemma OSInstallTask_OK:
  assumes "arrays_ok C k" and "NUMBER_MIN_OF_STACKED_BYTES C \<le> unat (b - b mod 4)"
    and "unat (iStackAddress k) + unat (b - b mod 4) div 4 \<le> HEAP_SIZE C div 4"
    and "priority_error C f p k = Some None" and "free_tcb C k = Some i"
  shows "\<exists>h k'. OSInstallTask C f n b p a k = Some (OK, h, k')"
  using assms priority_error_None(1) [OF assms(4)] free_tcb_Some(1) [OF assms(5)]
  by (auto simp: OSInstallTask_def Let_def arrays_ok_def install_tail_eq)

lemma OSInstallTask_dyn_OK:
  assumes "arrays_ok C k" and "NUMBER_MIN_OF_STACKED_BYTES C \<le> unat (b - b mod 4)"
    and "priority_error C f p k = Some None" and "free_tcb C k = Some i"
    and "al (b - b mod 4) h = (stk, h1)" and "stk \<noteq> 0"
  shows "\<exists>hn k'. OSInstallTask_dyn al de C f n b p a h k = Some (OK, hn, h1, k')"
  using assms priority_error_None(1) [OF assms(3)] free_tcb_Some(1) [OF assms(4)]
  by (auto simp: OSInstallTask_dyn_def CreateDVirtualStack_def Let_def arrays_ok_def install_tail_eq split: prod.splits)

lemma priority_error_codes:
  "priority_error C f p k = Some (Some e) \<Longrightarrow>
     e \<in> {END_OF_AVAILABLE_PRIORITIES, BUSY_PRIORITY, CANNOT_ASSIGN_IDLE_TASK_PRIO}"
  by (auto simp: priority_error_def bind_eq_Some_conv split: if_splits)

lemma OSInstallTask_codes:
  "OSInstallTask C f n b p a k = Some (r, h, k') \<Longrightarrow> r \<in> {OK, STACK_SIZE_TOO_SMALL, NO_MEMORY,
     END_OF_AVAILABLE_PRIORITIES, BUSY_PRIORITY, CANNOT_ASSIGN_IDLE_TASK_PRIO, END_OF_AVAILABLE_TCB}"
  by (auto simp: OSInstallTask_def Let_def bind_eq_Some_conv split: if_splits option.splits
      dest: priority_error_codes)

section \<open>The initial stack frame\<close>

lemma push_word_pair [simp]: "push_word v (p, ram) = (p - 4, ram(p - 4 := v))"
  by (simp add: push_word_def)

lemma index_bound: "i < 64 \<Longrightarrow> 4 * Suc i < 512"
  by simp

lemma push_index_inj:
  assumes "i \<noteq> j" and "i < 64" and "j < 64"
  shows "p - 4 * of_nat (Suc i) \<noteq> p - (4 * of_nat (Suc j) :: uint32_t)"
proof
  assume "p - 4 * of_nat (Suc i) = p - (4 * of_nat (Suc j) :: uint32_t)"
  then have "(of_nat (4 * Suc i) :: uint32_t) = of_nat (4 * Suc j)" by simp
  then have "unat (of_nat (4 * Suc i) :: uint32_t) = unat (of_nat (4 * Suc j) :: uint32_t)" by (rule arg_cong)
  moreover have "unat (of_nat m :: uint32_t) = m" if "m < 512" for m
    using that by (simp add: unsigned_of_nat take_bit_nat_eq_self)
  ultimately have "4 * Suc i = 4 * Suc j"
    by (metis assms(2,3) index_bound)
  with assms(1) show False by simp
qed

text \<open>The words pushed are found below the start, in order, and nothing else is written.\<close>

lemma fold_push_outside:
  "\<forall>i < length vs. a \<noteq> p - 4 * of_nat (Suc i) \<Longrightarrow> snd (fold push_word vs (p, ram)) a = ram a"
proof (induction vs arbitrary: p ram)
  case Nil
  then show ?case by simp
next
  case (Cons v vs)
  have "a \<noteq> p - 4" using Cons.prems by force
  moreover have "\<forall>i < length vs. a \<noteq> (p - 4) - 4 * of_nat (Suc i)"
  proof (intro allI impI)
    fix i assume "i < length vs"
    with Cons.prems have "a \<noteq> p - 4 * of_nat (Suc (Suc i))" by auto
    then show "a \<noteq> (p - 4) - 4 * of_nat (Suc i)" by (simp add: algebra_simps)
  qed
  ultimately show ?case
    using Cons.IH [of "p - 4" "ram(p - 4 := v)"] by (simp only: fold_simps push_word_pair fun_upd_other simp_thms)
qed

lemma fold_push_inside:
  "length vs \<le> 63 \<Longrightarrow> i < length vs \<Longrightarrow> snd (fold push_word vs (p, ram)) (p - 4 * of_nat (Suc i)) = vs ! i"
proof (induction vs arbitrary: p ram i)
  case Nil
  then show ?case by simp
next
  case (Cons v vs)
  show ?case
  proof (cases i)
    case 0
    have "snd (fold push_word vs (p - 4, ram(p - 4 := v))) (p - 4) = v"
    proof (subst fold_push_outside)
      have "p - 4 * of_nat (Suc 0) \<noteq> p - 4 * of_nat (Suc (Suc j))" if "j < length vs" for j
        using that Cons.prems by (intro push_index_inj) auto
      then show "\<forall>j < length vs. p - 4 \<noteq> (p - 4) - 4 * of_nat (Suc j)" by (auto simp: algebra_simps)
    qed simp
    with 0 show ?thesis by simp
  next
    case (Suc j)
    then have ih: "snd (fold push_word vs (p - 4, ram(p - 4 := v))) ((p - 4) - 4 * of_nat (Suc j)) = vs ! j"
      using Cons.prems by (intro Cons.IH) simp_all
    have "p - 4 * of_nat (Suc i) = (p - 4) - (4 * of_nat (Suc j) :: uint32_t)"
      using Suc by (simp add: algebra_simps)
    with ih show ?thesis by (simp only: Suc nth_Cons_Suc fold_simps push_word_pair)
  qed
qed

lemma length_initial_frame: "length (initial_frame C f r a) = (if FPU_SUPPORT C then 17 else 16)"
  by (simp add: initial_frame_def)

text \<open>
  After an installation the saved stack pointer of the new task points at the complete frame,
  which lies inside the stack the task was given.
\<close>

lemma OSInstallTask_frame:
  assumes ar: "arrays_ok C k" and r: "OSInstallTask C f n b p a k = Some (OK, h, k')"
    and mn: "NUMBER_MIN_OF_STACKED_BYTES C = 4 * length (initial_frame C f (ucast (b - b mod 4) div 10) a)"
    and sg: "\<not> STACK_GROWTH C" and sa: "StackAddress k = STACK_base C + 4 * ucast (iStackAddress k)"
    and i: "free_tcb C k = Some i"
  defines "fr \<equiv> initial_frame C f (ucast (b - b mod 4) div 10) a"
  shows "StackPoint (tcb k' (Suc i)) = StackAddress k + ucast (b - b mod 4) - 4 * of_nat (length fr)"
    and "j < length fr \<Longrightarrow> RAM k' (StackPoint (tcb k' (Suc i)) + 4 * of_nat j) = rev fr ! j"
proof -
  let ?b = "b - b mod 4"
  have len: "Suc i < length (ContextTask k)" using free_tcb_Some(1) [OF i] ar by (simp add: arrays_ok_def)
  from OSInstallTask_effect [OF ar r] i have pe: "priority_error C f p k = Some None" by metis
  from priority_error_None(1) [OF pe] ar have p: "unat p < 32" "unat p < length (PriorityVector k)"
    by (simp_all add: arrays_ok_def)
  let ?top = "STACK_base C + 4 * (ucast (iStackAddress k) + ucast ?b div 4)"
  have k': "StackPoint (tcb k' (Suc i)) = StackAddress k + (ucast ?b - of_nat (NUMBER_MIN_OF_STACKED_BYTES C))"
    "RAM k' = snd (fold push_word fr (?top, RAM k))"
    using r pe i len p sg
    by (auto simp: OSInstallTask_def Let_def install_tail_eq verbose_def CreateVirtualStack_def fr_def split: if_splits)
  have b4: "4 * (ucast ?b div 4) = (ucast ?b :: uint32_t)"
  proof -
    have ub: "unat ?b = 4 * (unat b div 4)"
    proof -
      have "b mod 4 \<le> b" by (simp add: word_le_nat_alt unat_mod)
      from unat_sub [OF this] have "unat ?b = unat b - unat b mod 4" by (simp only: unat_mod) simp
      then show ?thesis by (simp only: minus_mod_eq_mult_div)
    qed
    have "unat (ucast ?b :: uint32_t) = unat ?b"
      using unsigned_less [of ?b, where 'a = nat] by (simp add: unsigned_ucast_eq take_bit_nat_eq_self)
    then have "unat (4 * (ucast ?b div 4) :: uint32_t) = unat (ucast ?b :: uint32_t)"
      using ub unsigned_less [of ?b, where 'a = nat] by (simp add: unat_word_ariths unat_div)
    then show ?thesis by (simp add: word_unat_eq_iff)
  qed
  have top: "?top = StackAddress k + ucast ?b"
    unfolding sa distrib_left b4 by (simp add: add.assoc)
  have nm: "of_nat (NUMBER_MIN_OF_STACKED_BYTES C) = (4 * of_nat (length fr) :: uint32_t)"
    unfolding mn fr_def [symmetric] by simp
  show sp: "StackPoint (tcb k' (Suc i)) = StackAddress k + ucast ?b - 4 * of_nat (length fr)"
    unfolding k'(1) nm by (simp add: algebra_simps)
  assume j: "j < length fr"
  have l: "length fr \<le> 63" by (simp add: fr_def length_initial_frame)
  have eq: "StackPoint (tcb k' (Suc i)) + 4 * of_nat j = ?top - 4 * of_nat (Suc (length fr - Suc j))"
    unfolding sp top using j by (simp add: of_nat_diff algebra_simps)
  have "snd (fold push_word fr (?top, RAM k)) (?top - 4 * of_nat (Suc (length fr - Suc j))) = fr ! (length fr - Suc j)"
    using j by (intro fold_push_inside [OF l]) simp
  then show "RAM k' (StackPoint (tcb k' (Suc i)) + 4 * of_nat j) = rev fr ! j"
    unfolding eq k'(2) using j by (simp only: rev_nth)
qed

section \<open>Uninstalling\<close>

lemma find_timer_None [simp]: "find_timer k t None = Some False"
  by (simp add: find_timer.simps)

lemma find_timer_Some:
  "u < length (ContextTask k) \<Longrightarrow>
     find_timer k t (Some u) = (if u = t then Some True else find_timer k t (Next (tcb k u)))"
  by (subst find_timer.simps) simp

text \<open>The search ends on every delay list and finds exactly the tasks of the list.\<close>

lemma find_timer_linked:
  "linked (ContextTask k) p xs None \<Longrightarrow> find_timer k t (first_of xs None) = Some (t \<in> set xs)"
  by (induction xs arbitrary: p) (auto simp: find_timer_Some)

lemma find_timer_delay_list: "delay_list k xs \<Longrightarrow> find_timer k t (Head k) = Some (t \<in> set xs)"
  using find_timer_linked [of k None xs t] by (simp add: delay_list_def)

text \<open>The effect of removing an installed task that is not running.\<close>

definition uninstalls :: "config \<Rightarrow> nat \<Rightarrow> kernel \<Rightarrow> kernel \<Rightarrow> bool" where
  "uninstalls C t k k' \<longleftrightarrow>
     PriorityVector k' = (PriorityVector k)[prio_of k t := EMPTY_PRIO] \<and>
     prios (OSReadyList k') = prios (OSReadyList k) - {prio_of k t} \<and>
     TaskAlloc k' = TaskAlloc k AND NOT (push_bit (t - 1) 1) \<and>
     length (ContextTask k') = length (ContextTask k) \<and> Priority (tcb k' t) = EMPTY_PRIO \<and>
     (\<forall>u. u \<noteq> t \<longrightarrow> Priority (tcb k' u) = Priority (tcb k u)) \<and>
     NumberOfInstalledTasks k' = NumberOfInstalledTasks k - 1"

lemma uninstalls_ok:
  assumes ok: "kernel_ok C k" and al: "alloc_ok C k" and u: "uninstalls C t k k'" and i: "installed C k t"
  shows "kernel_ok C k'" and "alloc_ok C k'" and "installed C k' s \<longleftrightarrow> s \<noteq> t \<and> installed C k s"
proof -
  have ar: "arrays_ok C k" by (rule kernel_okD(1) [OF ok])
  from u have pv: "PriorityVector k' = (PriorityVector k)[prio_of k t := EMPTY_PRIO]"
    and r: "prios (OSReadyList k') = prios (OSReadyList k) - {prio_of k t}"
    and ta: "TaskAlloc k' = TaskAlloc k AND NOT (push_bit (t - 1) 1)"
    and l: "length (ContextTask k') = length (ContextTask k)" and e: "Priority (tcb k' t) = EMPTY_PRIO"
    and P: "\<And>u. u \<noteq> t \<Longrightarrow> Priority (tcb k' u) = Priority (tcb k u)" by (auto simp: uninstalls_def)
  show inst: "installed C k' s \<longleftrightarrow> s \<noteq> t \<and> installed C k s" for s
    using P [of s] e by (cases "s = t") (auto simp: installed_def)
  have V: "PriorityVector k' ! prio_of k s = PriorityVector k ! prio_of k s" if "installed C k s" "s \<noteq> t" for s
    using installed_inj [OF ok that(1) i] that(2) unfolding pv by (metis nth_list_update_neq)
  have "arrays_ok C k'" using ar l by (simp add: arrays_ok_def pv)
  moreover have "prio_ok C k'"
    unfolding prio_ok_def using installed_prio [OF ok] P V by (auto simp: inst)
  moreover have "ready_ok C k'"
    unfolding ready_ok_def
  proof
    fix q assume "q \<in> prios (OSReadyList k')"
    then have q: "q \<in> prios (OSReadyList k)" "q \<noteq> prio_of k t" by (auto simp: r)
    note rt = ready_task [OF ok q(1)]
    have ne: "unat (PriorityVector k ! q) \<noteq> t" using rt(2) q(2) by auto
    have "PriorityVector k' ! q = PriorityVector k ! q" using q(2) by (simp add: pv)
    with rt ne P show "installed C k' (unat (PriorityVector k' ! q)) \<and> prio_of k' (unat (PriorityVector k' ! q)) = q"
      by (simp add: inst)
  qed
  ultimately show "kernel_ok C k'" by (intro kernel_okI)
  show "alloc_ok C k'"
    unfolding alloc_ok_def
  proof (intro allI impI)
    fix j assume j: "j < unat (NUMBER_OF_TASKS C)"
    with ar have j32: "j < 32" by (simp add: arrays_ok_def)
    have t1: "t = Suc (t - 1)" "t - 1 < 32" using i ar by (auto simp: installed_def is_task_def arrays_ok_def)
    have "bit (TaskAlloc k') j \<longleftrightarrow> bit (TaskAlloc k) j \<and> j \<noteq> t - 1"
      using j32 t1(2) by (auto simp: ta bit_and_iff bit_not_iff bit_exp_iff)
    with al j t1(1) show "bit (TaskAlloc k') j = installed C k' (Suc j)" by (auto simp: alloc_ok_def inst)
  qed
qed

lemma OSUninstallTask_spec:
  assumes ok: "kernel_ok C k" and d: "delay_list k xs" and i: "installed C k (unat H)"
    and p: "prio_of k (unat H) \<noteq> 0" and H: "H \<noteq> 0" "H \<noteq> ucast (currentTask k)"
    and rd: "prio_of k (unat H) \<in> prios (OSReadyList k) \<Longrightarrow> unat H \<notin> set xs"
    and so: "safety_off = 1 \<or> prio_of k (unat H) \<in> prios (OSReadyList k)"
  obtains k' where "OSUninstallTask de C H safety_off h k = Some (OK, de (StackInit (tcb k (unat H))) h, k')"
    and "uninstalls C (unat H) k k'" and "delay_list k' (remove1 (unat H) xs)" and "currentTask k' = currentTask k"
    and "OSBlockedList k' = OSBlockedList k" and "OSTickCounter k' = OSTickCounter k" and "iNesting k' = iNesting k"
proof -
  let ?t = "unat H"
  let ?p = "Priority (tcb k ?t)"
  have tb: "?t < length (ContextTask k)" by (rule installed_index [OF ok i])
  have p32: "unat ?p < 32" by (rule installed_prio(1) [OF ok i])
  have pl: "unat ?p < length (PriorityVector k)" using p32 length_PriorityVector [OF kernel_okD(1) [OF ok]] by simp
  have p0: "?p \<noteq> 0" using p by auto
  have bit_iff: "OSReadyList k AND PriorityMask ! unat ?p = PriorityMask ! unat ?p \<longleftrightarrow> unat ?p \<in> prios (OSReadyList k)"
  proof -
    have "OSReadyList k AND PriorityMask ! unat ?p = PriorityMask ! unat ?p \<longleftrightarrow>
        prios (OSReadyList k) \<inter> {unat ?p} = {unat ?p}"
      using p32 by (metis prios_and prios_PriorityMask prios_eqI)
    then show ?thesis by auto
  qed
  obtain k1 where k1: "(if OSReadyList k AND PriorityMask ! unat ?p \<noteq> PriorityMask ! unat ?p
      then Option.bind (find_timer k ?t (Head k)) (\<lambda>found. if found then RemoveFromDelayList ?t k else Some k)
      else Some (k\<lparr>OSReadyList := OSReadyList k AND NOT (PriorityMask ! unat ?p)\<rparr>)) = Some k1"
    and d1: "delay_list k1 (remove1 ?t xs)" and r1: "prios (OSReadyList k1) = prios (OSReadyList k) - {unat ?p}"
    and s1: "length (ContextTask k1) = length (ContextTask k)" "\<forall>u. Priority (tcb k1 u) = Priority (tcb k u)"
      "StackInit (tcb k1 ?t) = StackInit (tcb k ?t)"
      "PriorityVector k1 = PriorityVector k" "TaskAlloc k1 = TaskAlloc k" "currentTask k1 = currentTask k"
      "NumberOfInstalledTasks k1 = NumberOfInstalledTasks k" "OSBlockedList k1 = OSBlockedList k"
      "OSTickCounter k1 = OSTickCounter k" "iNesting k1 = iNesting k"
  proof (cases "unat ?p \<in> prios (OSReadyList k)")
    case True
    let ?k1 = "k\<lparr>OSReadyList := OSReadyList k AND NOT (PriorityMask ! unat ?p)\<rparr>"
    have "delay_list ?k1 (remove1 ?t xs)" using d rd [OF True] by (simp add: remove1_idem delay_list_def)
    then show ?thesis
      using True bit_iff p32 by (intro that [of ?k1]) (simp_all add: prios_and_not prios_PriorityMask)
  next
    case False
    note ft = find_timer_delay_list [OF d, of ?t]
    show ?thesis
    proof (cases "?t \<in> set xs")
      case True
      from Remove_list [OF d True] obtain k1 where k1: "RemoveFromDelayList ?t k = Some k1" "delay_list k1 (remove1 ?t xs)" .
      note sb = Remove_same [OF k1(1)]
      have "StackInit (tcb k1 ?t) = StackInit (tcb k ?t)"
      proof -
        from sb have "(tcb k1 ?t)\<lparr>Next := None, Previous := None\<rparr> = (tcb k ?t)\<lparr>Next := None, Previous := None\<rparr>"
          by (auto simp: same_but_links_def)
        from arg_cong [OF this, of StackInit] show ?thesis by simp
      qed
      with False bit_iff ft True k1 sb show ?thesis
        by (intro that [of k1]) (simp_all add: same_but_links_simps)
    next
      case nin: False
      with False bit_iff ft d show ?thesis by (intro that [of k]) (simp_all add: remove1_idem)
    qed
  qed
  let ?x = "(tcb k1 ?t)\<lparr>StackInit := 0, StackPoint := 0, StackSize := 0, Priority := EMPTY_PRIO,
              TimeToWait := NO_TIMEOUT, Next := None, Previous := None\<rparr>"
  let ?k' = "k1\<lparr>TaskAlloc := TaskAlloc k AND NOT (push_bit (?t - 1) 1),
       PriorityVector := (PriorityVector k)[unat ?p := EMPTY_PRIO], ContextTask := (ContextTask k1)[?t := ?x],
       NumberOfInstalledTasks := NumberOfInstalledTasks k - 1\<rparr>"
  have c: "\<not> (OSReadyList k AND PriorityMask ! unat ?p \<noteq> PriorityMask ! unat ?p \<and> safety_off \<noteq> 1)"
    using so bit_iff by blast
  have tb1: "?t < length (ContextTask k1)" using tb s1(1) by simp
  have "OSUninstallTask de C H safety_off h k = Some (OK, de (StackInit (tcb k ?t)) h, ?k')"
    unfolding OSUninstallTask_def
    using H tb p0 p32 c tb1 pl s1 k1 by (simp add: Let_def)
  moreover have "uninstalls C ?t k ?k'"
    using tb1 s1 r1 by (simp add: uninstalls_def nth_list_update_if)
  moreover have "delay_list ?k' (remove1 ?t xs)"
  proof -
    have "?t \<notin> set (remove1 ?t xs)" using d by (simp add: delay_list_def)
    with d1 show ?thesis by (simp add: delay_list_def)
  qed
  ultimately show ?thesis using that s1 by simp
qed

lemma empty_not_ready:
  assumes ok: "kernel_ok C k" and "PriorityVector k ! p = EMPTY_PRIO"
  shows "p \<notin> prios (OSReadyList k)"
proof
  assume "p \<in> prios (OSReadyList k)"
  from ready_task(1) [OF ok this] assms(2) kernel_okD(1) [OF ok] show False
    by (simp add: installed_def is_task_def arrays_ok_def)
qed

lemma install_uninstall:
  assumes ok: "kernel_ok C k" and al: "alloc_ok C k" and d: "delay_list k xs"
    and xs: "\<forall>t \<in> set xs. installed C k t"
    and r: "OSInstallTask_dyn alloc de C f n b p a h k = Some (OK, Some H, h1, k1)" and p: "p \<noteq> 0"
    and cu: "currentTask k = 0 \<or> installed C k (unat (currentTask k))"
  shows "\<exists>k2. OSUninstallTask de C H so h1 k1 = Some (OK, de (StackInit (tcb k1 (unat H))) h1, k2) \<and>
     PriorityVector k2 = PriorityVector k \<and> OSReadyList k2 = OSReadyList k \<and> TaskAlloc k2 = TaskAlloc k \<and>
     NumberOfInstalledTasks k2 = NumberOfInstalledTasks k \<and> kernel_ok C k2 \<and> alloc_ok C k2 \<and> delay_list k2 xs"
proof -
  have ar: "arrays_ok C k" by (rule kernel_okD(1) [OF ok])
  from OSInstallTask_dyn_effect [OF ar r] obtain i where
    i: "free_tcb C k = Some i" and H: "H = of_nat (Suc i)" and ins: "installs C i (unat p) k k1"
    and pe: "priority_error C f p k = Some None" by auto
  note ft = free_tcb_Some [OF i]
  have len: "Suc i < length (ContextTask k)" using ft(1) ar by (simp add: arrays_ok_def)
  have empty: "PriorityVector k ! unat p = EMPTY_PRIO" by (rule priority_error_None(2) [OF pe p])
  note k1 = installs_kernel_ok [OF ok al ins ft empty]
  have new: "\<not> installed C k (Suc i)" by (rule free_tcb_not_installed [OF i al])
  have i32: "i < 32" using ft(1) ar by (simp add: arrays_ok_def)
  have uH: "unat H = Suc i" using i32 by (simp add: H unsigned_of_nat take_bit_nat_eq_self del: of_nat_Suc)
  have in1: "installed C k1 (unat H)" by (simp add: uH installs_installed [OF ins ar ft(1)])
  have pr1: "prio_of k1 (unat H) = unat p" by (simp add: uH installs_tcb(1) [OF ins len])
  from ins have g: "PriorityVector k1 = (PriorityVector k)[unat p := of_nat (Suc i)]"
    "OSReadyList k1 = OSReadyList k OR PriorityMask ! unat p" "TaskAlloc k1 = TaskAlloc k OR push_bit i 1"
    "NumberOfInstalledTasks k1 = NumberOfInstalledTasks k + 1" "currentTask k1 = currentTask k" "unat p < 32"
    by (simp_all add: installs_def)
  have d1: "delay_list k1 xs" by (rule installs_delay_list [OF ins d xs new])
  have nx: "unat H \<notin> set xs" using xs new uH by auto
  have rdy: "prio_of k1 (unat H) \<in> prios (OSReadyList k1)"
    unfolding pr1 g(2) using g(6) by (simp add: prios_or prios_PriorityMask)
  have H0: "H \<noteq> 0" using uH by auto
  have Hc: "H \<noteq> ucast (currentTask k1)"
  proof
    assume "H = ucast (currentTask k1)"
    then have "Suc i = unat (currentTask k)"
      using uH g(5) by (metis unat_ucast_8_32)
    with cu new show False by auto
  qed
  have p0: "prio_of k1 (unat H) \<noteq> 0" using pr1 p by (simp add: unat_eq_0)
  from OSUninstallTask_spec [OF k1(1) d1 in1 p0 H0 Hc, of so de h1] nx rdy obtain k2 where
    k2: "OSUninstallTask de C H so h1 k1 = Some (OK, de (StackInit (tcb k1 (unat H))) h1, k2)"
    and u: "uninstalls C (unat H) k1 k2" and d2: "delay_list k2 (remove1 (unat H) xs)" by metis
  note uk = uninstalls_ok [OF k1 u in1]
  have e1: "PriorityVector k2 = PriorityVector k"
    using u empty unfolding uninstalls_def pr1 g(1) by (metis list_update_id list_update_overwrite)
  have e2: "OSReadyList k2 = OSReadyList k"
  proof (rule prios_eqI)
    show "prios (OSReadyList k2) = prios (OSReadyList k)"
      using u empty_not_ready [OF ok empty] g(6) unfolding uninstalls_def pr1 g(2)
      by (auto simp: prios_or prios_PriorityMask)
  qed
  have e3: "TaskAlloc k2 = TaskAlloc k"
  proof (rule bit_word_eqI)
    fix j assume "j < LENGTH(32)"
    then show "bit (TaskAlloc k2) j = bit (TaskAlloc k) j"
      using u ft(2) i32 unfolding uninstalls_def uH g(3)
      by (auto simp: bit_and_iff bit_or_iff bit_not_iff bit_exp_iff)
  qed
  have e4: "NumberOfInstalledTasks k2 = NumberOfInstalledTasks k" using u g(4) by (simp add: uninstalls_def)
  have "delay_list k2 xs" using d2 nx by (simp add: remove1_idem)
  with k2 e1 e2 e3 e4 uk(1,2) show ?thesis by blast
qed

section \<open>Starting\<close>

lemma BRTOSStart_spec:
  assumes ok: "kernel_ok C k" and al: "alloc_ok C k" and free: "free_tcb C k = Some i"
    and e: "PriorityVector k ! 0 = EMPTY_PRIO"
    and st: "NUMBER_MIN_OF_STACKED_BYTES C \<le> unat (IDLE_STACK_SIZE C - IDLE_STACK_SIZE C mod 4)"
    and fit: "unat (iStackAddress k) + unat (IDLE_STACK_SIZE C - IDLE_STACK_SIZE C mod 4) div 4 \<le> HEAP_SIZE C div 4"
    and b: "0 \<in> prios (OSBlockedList k)"
  obtains k' where "BRTOSStart C k = Some (OK, k')" and "kernel_ok C k'" and "alloc_ok C k'"
    and "runs_highest C k'" and "0 \<in> runnable k'" and "SPvalue k' = StackPoint (tcb k' (unat (currentTask k')))"
    and "runnable k \<subseteq> runnable k'"
proof -
  have ar: "arrays_ok C k" by (rule kernel_okD(1) [OF ok])
  have pe: "priority_error C (Idle_fct C) 0 k = Some None" by (simp add: priority_error_def)
  have len: "Suc i < length (ContextTask k)" using free_tcb_Some(1) [OF free] ar by (simp add: arrays_ok_def)
  have pl: "0 < length (PriorityVector k)" using ar by (simp add: arrays_ok_def)
  obtain h k1 where k1: "OSInstallTask C (Idle_fct C) ''Idle Task'' (IDLE_STACK_SIZE C) 0 0 k = Some (OK, h, k1)"
    using pe free len pl st fit by (simp add: OSInstallTask_def Let_def install_tail_eq)
  from OSInstallTask_effect [OF ar k1] free have ins: "installs C i (unat (0 :: uint8_t)) k k1" by force
  note k1ok = installs_kernel_ok [OF ok al ins free_tcb_Some [OF free]] 
  have ok1: "kernel_ok C k1" "alloc_ok C k1" using k1ok e by simp_all
  have r: "0 \<in> runnable k1" "runnable k \<subseteq> runnable k1"
    using ins b by (auto simp: installs_def runnable_def prios_or prios_PriorityMask)
  then have ne: "runnable k1 \<noteq> {}" by auto
  from OSSchedule_highest [OF ok1(1) ne] obtain sel where s: "OSSchedule C k1 = Some sel"
    "installed C k1 (unat sel)" "prio_of k1 (unat sel) = Max (runnable k1)" .
  let ?k = "k1\<lparr>currentTask := sel, SPvalue := StackPoint (tcb k1 (unat sel)),
              PSP := StackPoint (tcb k1 (unat sel)) + context_bytes C\<rparr>"
  have "BRTOSStart C k = Some (OK, ?k)"
    using k1 s(1) installed_index [OF ok1(1) s(2)] by (simp add: BRTOSStart_def)
  moreover have "kernel_ok C ?k" using ok1(1)
    by (simp add: kernel_ok_def arrays_ok_def prio_ok_def ready_ok_def installed_def)
  moreover have "alloc_ok C ?k" using ok1(2) by (simp add: alloc_ok_def installed_def)
  moreover have "runs_highest C ?k" "0 \<in> runnable ?k" "runnable k \<subseteq> runnable ?k"
    using s r by (auto simp: runs_highest_def installed_def runnable_def)
  ultimately show ?thesis using that [of ?k] by simp
qed

end
