(* ===== verification/Tick.thy ===== *)
theory Tick
  imports Tasks
begin

text \<open>
  Time: \<^verbatim>\<open>OSDelayTask\<close>, \<^verbatim>\<open>OSDelayTaskHMSM\<close> and \<^verbatim>\<open>OS_TICK_HANDLER\<close> of
  \<^verbatim>\<open>src/brtos/BRTOS.c\<close> and the tick interrupt of \<^verbatim>\<open>src/hal/GCC_CORTEX-M4/HAL.c\<close>. The walk
  of the delay list follows the pointers; it is shown to end on every list the kernel builds, to
  wake exactly the tasks whose time has come and to leave the others in their order.
\<close>

section \<open>Delays\<close>

text \<open>
  The wake-up tick is stored and the task enters the delay list: the same lines in
  \<^verbatim>\<open>OSDelayTask\<close> and in every pend function with a time-out.
\<close>

definition delay_until :: "nat \<Rightarrow> ostick_t \<Rightarrow> kernel \<Rightarrow> kernel option" where
  "delay_until Task time_wait k = do {
     ct \<leftarrow> upd (ContextTask k) Task (\<lambda>t. t\<lparr>TimeToWait := wake_tick (OSGetCount k) time_wait\<rparr>);
     IncludeTaskIntoDelayList Task (k\<lparr>ContextTask := ct\<rparr>) }"

definition set_suspended :: "config \<Rightarrow> nat \<Rightarrow> uint8_t \<Rightarrow> kernel \<Rightarrow> kernel option" where
  "set_suspended C Task kind k =
    (if VERBOSE C
     then map_option (\<lambda>ct. k\<lparr>ContextTask := ct\<rparr>)
            (upd (ContextTask k) Task (\<lambda>t. t\<lparr>State := SUSPENDED, SuspendedType := kind\<rparr>))
     else Some k)"

definition OSDelayTask :: "config \<Rightarrow> ostick_t \<Rightarrow> kernel \<Rightarrow> (uint8_t \<times> kernel) option" where
  "OSDelayTask C time_wait k =
    (let Task = unat (currentTask k) in
     if iNesting k > 0 then Some (IRQ_PEND_ERR, k)
     else if currentTask k \<noteq> 0 then
       if time_wait > 0 then do {
         k \<leftarrow> delay_until Task time_wait k;
         k \<leftarrow> set_suspended C Task DELAY k;
         t \<leftarrow> rd (ContextTask k) Task;
         m \<leftarrow> rd PriorityMask (unat (Priority t));
         let k = k\<lparr>OSReadyList := OSReadyList k AND NOT m\<rparr>;
         k \<leftarrow> ChangeContext C k;
         Some (OK, k) }
       else Some (NO_TASK_DELAY, k)
     else Some (NOT_VALID_TASK, k))"

text \<open>
  \<open>others\<close> is what the rest of the system does between the moment a call of
  \<^verbatim>\<open>OSDelayTask\<close> gives up the processor and the moment it returns.
\<close>

primrec delay_loop :: "config \<Rightarrow> (kernel \<Rightarrow> kernel option) \<Rightarrow> nat \<Rightarrow> kernel \<Rightarrow> kernel option" where
  "delay_loop C others 0 k = Some k"
| "delay_loop C others (Suc loops) k = do {
     (_, k) \<leftarrow> OSDelayTask C 60000 k;
     k \<leftarrow> others k;
     delay_loop C others loops k }"

definition HMSM_ticks :: "config \<Rightarrow> uint8_t \<Rightarrow> uint8_t \<Rightarrow> uint8_t \<Rightarrow> uint16_t \<Rightarrow> uint32_t" where
  "HMSM_ticks C hours minutes seconds miliseconds =
     ucast hours * 3600 * configTICK_RATE_HZ C + ucast minutes * 60 * configTICK_RATE_HZ C +
     ucast seconds * configTICK_RATE_HZ C + (ucast miliseconds * configTICK_RATE_HZ C) div 1000"

definition OSDelayTaskHMSM :: "config \<Rightarrow> (kernel \<Rightarrow> kernel option) \<Rightarrow> uint8_t \<Rightarrow> uint8_t \<Rightarrow> uint8_t \<Rightarrow>
    uint16_t \<Rightarrow> kernel \<Rightarrow> (uint8_t \<times> kernel) option" where
  "OSDelayTaskHMSM C others hours minutes seconds miliseconds k =
    (if minutes > 59 then Some (INVALID_TIME, k)
     else if seconds > 59 then Some (INVALID_TIME, k)
     else if miliseconds > 999 then Some (INVALID_TIME, k)
     else
       let ticks = HMSM_ticks C hours minutes seconds miliseconds in
       if ticks > 0 then do {
         let loops = ticks div 60000;
         let ticks = ticks mod 60000;
         (_, k) \<leftarrow> OSDelayTask C (ucast ticks) k;
         k \<leftarrow> others k;
         k \<leftarrow> delay_loop C others (unat loops) k;
         Some (OK, k) }
       else Some (NO_TASK_DELAY, k))"

section \<open>The tick handler\<close>

text \<open>What the handler does to a task whose wake-up tick is the current tick.\<close>

definition expire :: "config \<Rightarrow> nat \<Rightarrow> kernel \<Rightarrow> kernel option" where
  "expire C Task k = do {
     t \<leftarrow> rd (ContextTask k) Task;
     m \<leftarrow> rd PriorityMask (unat (Priority t));
     let k = k\<lparr>OSReadyList := OSReadyList k OR m\<rparr>;
     ct \<leftarrow> upd (ContextTask k) Task
            (\<lambda>t. (verbose C (\<lambda>t. t\<lparr>State := READY\<rparr>) t)\<lparr>TimeToWait := EXIT_BY_TIMEOUT\<rparr>);
     RemoveFromDelayList Task (k\<lparr>ContextTask := ct\<rparr>) }"

partial_function (option) tick_walk :: "config \<Rightarrow> ptr \<Rightarrow> kernel \<Rightarrow> kernel option" where
  "tick_walk C Task k =
    (case Task of
       None \<Rightarrow> Some k
     | Some t \<Rightarrow>
        Option.bind (rd (ContextTask k) t) (\<lambda>x.
        Option.bind (if TimeToWait x = OSTickCounter k then expire C t k else Some k) (\<lambda>k.
        Option.bind (rd (ContextTask k) t) (\<lambda>x. tick_walk C (Next x) k))))"

definition system_load :: "config \<Rightarrow> kernel \<Rightarrow> kernel" where
  "system_load C k =
    (if COMPUTES_CPU_LOAD C
     then if DutyCnt k \<ge> 1000
          then k\<lparr>DutyCnt := 0, LastOSDuty := OSDuty k, OSDuty := 0\<rparr>
          else let k = (if OSDutyTmp k = 0 then k\<lparr>OSDuty := OSDuty k + 1\<rparr> else k)
               in k\<lparr>OSDutyTmp := 0, DutyCnt := DutyCnt k + 1\<rparr>
     else k)"

definition OS_TICK_HANDLER :: "config \<Rightarrow> kernel \<Rightarrow> kernel option" where
  "OS_TICK_HANDLER C k = map_option (system_load C) (tick_walk C (Head k) k)"

text \<open>
  The tick interrupt of the port. \<^verbatim>\<open>OS_INT_EXIT_EXT\<close> makes PendSV pending, which runs
  when the interrupt returns: the context switch closes the tick.
\<close>

definition TickTimer :: "config \<Rightarrow> kernel \<Rightarrow> kernel option" where
  "TickTimer C k = do {
     k \<leftarrow> OS_TICK_HANDLER C (OSIncCounter k);
     SwitchContext C k }"

lemma tick_walk_None [simp]: "tick_walk C None k = Some k"
  by (simp add: tick_walk.simps)

lemma tick_walk_Some [simp]:
  "t < length (ContextTask k) \<Longrightarrow> tick_walk C (Some t) k =
     Option.bind (if TimeToWait (tcb k t) = OSTickCounter k then expire C t k else Some k) (\<lambda>k.
     Option.bind (rd (ContextTask k) t) (\<lambda>x. tick_walk C (Next x) k))"
  by (subst tick_walk.simps) simp


section \<open>Consistent systems\<close>

text \<open>
  A consistent kernel whose delay list holds the installed tasks \<open>xs\<close>, whose tick counter is
  in range and in which the idle task (priority 0) can always run.
\<close>

definition sys_ok :: "config \<Rightarrow> kernel \<Rightarrow> nat list \<Rightarrow> bool" where
  "sys_ok C k xs \<longleftrightarrow> kernel_ok C k \<and> delay_list k xs \<and> (\<forall>t \<in> set xs. installed C k t) \<and>
     tick_ok k \<and> 0 \<in> runnable k \<and> unat (currentTask k) < length (ContextTask k)"

lemma sys_okD:
  assumes "sys_ok C k xs"
  shows "kernel_ok C k" and "delay_list k xs" and "t \<in> set xs \<Longrightarrow> installed C k t" and "tick_ok k"
    and "0 \<in> runnable k" and "runnable k \<noteq> {}" and "unat (currentTask k) < length (ContextTask k)"
    and "arrays_ok C k" and "distinct xs"
  using assms by (auto simp: sys_ok_def kernel_ok_def delay_list_def)

text \<open>
  What every operation that only moves tasks between ready and waiting leaves alone.
\<close>

definition frame :: "kernel \<Rightarrow> kernel \<Rightarrow> bool" where
  "frame k k' \<longleftrightarrow>
     length (ContextTask k') = length (ContextTask k) \<and>
     (\<forall>i. Priority (tcb k' i) = Priority (tcb k i)) \<and>
     PriorityVector k' = PriorityVector k \<and> OSBlockedList k' = OSBlockedList k \<and>
     OSTickCounter k' = OSTickCounter k \<and> TaskAlloc k' = TaskAlloc k \<and> iNesting k' = iNesting k"

lemma frameD:
  assumes "frame k k'"
  shows "length (ContextTask k') = length (ContextTask k)" and "Priority (tcb k' i) = Priority (tcb k i)"
    and "PriorityVector k' = PriorityVector k" and "OSBlockedList k' = OSBlockedList k"
    and "OSTickCounter k' = OSTickCounter k" and "TaskAlloc k' = TaskAlloc k" and "iNesting k' = iNesting k"
  using assms by (auto simp: frame_def)

lemma frame_refl [simp]: "frame k k"
  by (simp add: frame_def)

lemma frame_trans: "frame a b \<Longrightarrow> frame b c \<Longrightarrow> frame a c"
  by (simp add: frame_def)

lemma same_kernel_frame: "same_kernel k k' \<Longrightarrow> frame k k'"
  by (simp add: frame_def same_kernel_simps)

lemma same_but_links_frame: "same_but_links k k' \<Longrightarrow> frame k k'"
  by (simp add: frame_def same_but_links_simps)

lemma frame_installed: "frame k k' \<Longrightarrow> installed C k' t = installed C k t"
  by (simp add: installed_def frameD)

lemma frame_ok:
  assumes ok: "kernel_ok C k" and f: "frame k k'"
    and r: "\<And>p. p \<in> prios (OSReadyList k') \<Longrightarrow>
      p \<in> prios (OSReadyList k) \<or> (\<exists>t. installed C k t \<and> p = prio_of k t)"
  shows "kernel_ok C k'"
proof (rule kernel_okI)
  show "arrays_ok C k'" using ok f by (simp add: kernel_ok_def arrays_ok_def frameD)
  show "prio_ok C k'"
    using ok f by (simp add: kernel_ok_def prio_ok_def frame_installed frameD)
  show "ready_ok C k'"
    unfolding ready_ok_def
  proof
    fix p assume "p \<in> prios (OSReadyList k')"
    with r consider "p \<in> prios (OSReadyList k)" | t where "installed C k t" "p = prio_of k t" by blast
    then show "installed C k' (unat (PriorityVector k' ! p)) \<and> prio_of k' (unat (PriorityVector k' ! p)) = p"
    proof cases
      case 1
      with ready_task [OF ok] f show ?thesis by (simp add: frame_installed frameD)
    next
      case 2
      with installed_prio(2) [OF ok] have "unat (PriorityVector k ! p) = t" by blast
      with 2 f show ?thesis by (simp add: frame_installed frameD)
    qed
  qed
qed

text \<open>
  The effect of waking the tasks of a set by time-out: they become ready and carry the mark
  \<^verbatim>\<open>EXIT_BY_TIMEOUT\<close>; nothing else that scheduling depends on changes.
\<close>

definition woken :: "kernel \<Rightarrow> kernel \<Rightarrow> nat set \<Rightarrow> bool" where
  "woken k k' E \<longleftrightarrow> frame k k' \<and>
     (\<forall>i. TimeToWait (tcb k' i) = (if i \<in> E then EXIT_BY_TIMEOUT else TimeToWait (tcb k i))) \<and>
     prios (OSReadyList k') = prios (OSReadyList k) \<union> prio_of k ` E"

lemma woken_frame: "woken k k' E \<Longrightarrow> frame k k'"
  by (simp add: woken_def)

lemma woken_time:
  "woken k k' E \<Longrightarrow> TimeToWait (tcb k' i) = (if i \<in> E then EXIT_BY_TIMEOUT else TimeToWait (tcb k i))"
  by (simp add: woken_def)

lemma woken_ready: "woken k k' E \<Longrightarrow> prios (OSReadyList k') = prios (OSReadyList k) \<union> prio_of k ` E"
  by (simp add: woken_def)

lemmas wokenD = frameD [OF woken_frame] woken_time woken_ready

lemma woken_refl: "woken k k {}"
  by (simp add: woken_def)

lemma woken_trans: "woken a b E \<Longrightarrow> woken b c F \<Longrightarrow> woken a c (E \<union> F)"
  by (auto simp: woken_def frame_def)

lemma woken_same_kernel: "woken a b E \<Longrightarrow> same_kernel b c \<Longrightarrow> woken a c E"
  by (simp add: woken_def frame_def same_kernel_simps)

lemma woken_runnable: "woken k k' E \<Longrightarrow> runnable k \<subseteq> runnable k'"
  by (auto simp: runnable_def wokenD)

lemma woken_ok:
  "kernel_ok C k \<Longrightarrow> woken k k' E \<Longrightarrow> \<forall>t \<in> E. installed C k t \<Longrightarrow> kernel_ok C k'"
  by (rule frame_ok) (auto simp: wokenD woken_frame)

section \<open>The walk of the delay list\<close>

lemma expire_spec:
  assumes l: "delay_list k (ys @ t # zs)" and p: "prio_of k t < 32"
  obtains k' where "expire C t k = Some k'" and "delay_list k' (ys @ zs)" and "woken k k' {t}"
    and "Next (tcb k' t) = first_of zs None" and "currentTask k' = currentTask k"
proof -
  have b: "t < length (ContextTask k)" using l by (rule delay_list_bound) simp
  let ?x = "(verbose C (\<lambda>t. t\<lparr>State := READY\<rparr>) (tcb k t))\<lparr>TimeToWait := EXIT_BY_TIMEOUT\<rparr>"
  let ?k = "k\<lparr>OSReadyList := OSReadyList k OR PriorityMask ! prio_of k t,
              ContextTask := (ContextTask k)[t := ?x]\<rparr>"
  have "delay_list ?k (ys @ t # zs) = delay_list k (ys @ t # zs)"
    using b by (intro delay_list_cong) (auto simp: nth_list_update_if verbose_def)
  with l have l': "delay_list ?k (ys @ t # zs)" by simp
  from Remove_split [OF l'] obtain k' where
    k': "RemoveFromDelayList t ?k = Some k'" "delay_list k' (ys @ zs)" .
  from Remove_same [OF k'(1)] have s: "same_but_links ?k k'" .
  have e: "expire C t k = Some k'" using k' b p by (simp add: expire_def)
  have w: "woken k ?k {t}"
    unfolding woken_def frame_def using b p by (auto simp: nth_list_update_if verbose_def prio_simps)
  then have "woken k k' {t}"
    using s by (simp add: woken_def frame_def same_but_links_simps)
  moreover have "currentTask k' = currentTask k" using s by (simp add: same_but_links_simps)
  ultimately show ?thesis using that e k'(2) Remove_own_Next [OF k'(1) l'] by blast
qed

lemma tick_walk_spec:
  "delay_list k (ys @ zs) \<Longrightarrow> \<forall>t \<in> set zs. prio_of k t < 32 \<Longrightarrow>
   \<exists>k'. tick_walk C (first_of zs None) k = Some k' \<and>
     delay_list k' (ys @ filter (\<lambda>t. TimeToWait (tcb k t) \<noteq> OSTickCounter k) zs) \<and>
     woken k k' {t \<in> set zs. TimeToWait (tcb k t) = OSTickCounter k} \<and> currentTask k' = currentTask k"
proof (induction zs arbitrary: ys k)
  case Nil
  then show ?case by (simp add: woken_refl)
next
  case (Cons t zs)
  let ?E = "\<lambda>k zs. {t \<in> set zs. TimeToWait (tcb k t) = OSTickCounter k}"
  from Cons.prems(1) have b: "t < length (ContextTask k)" and d: "t \<notin> set zs"
    and n: "Next (tcb k t) = first_of zs None"
    by (auto simp: delay_list_def)
  show ?case
  proof (cases "TimeToWait (tcb k t) = OSTickCounter k")
    case True
    obtain k1 where e: "expire C t k = Some k1" "delay_list k1 (ys @ zs)" and w: "woken k k1 {t}"
      and n1: "Next (tcb k1 t) = first_of zs None" and c: "currentTask k1 = currentTask k"
      using expire_spec [OF Cons.prems(1), of C] Cons.prems(2) by auto
    have tw: "TimeToWait (tcb k1 u) = TimeToWait (tcb k u)" if "u \<in> set zs" for u
      using that d by (auto simp: wokenD [OF w])
    from Cons.IH [OF e(2)] Cons.prems(2) obtain k' where
      k': "tick_walk C (first_of zs None) k1 = Some k'"
      "delay_list k' (ys @ filter (\<lambda>t. TimeToWait (tcb k1 t) \<noteq> OSTickCounter k1) zs)"
      "woken k1 k' (?E k1 zs)" "currentTask k' = currentTask k1"
      by (auto simp: wokenD [OF w])
    have f: "filter (\<lambda>t. TimeToWait (tcb k1 t) \<noteq> OSTickCounter k1) zs =
        filter (\<lambda>t. TimeToWait (tcb k t) \<noteq> OSTickCounter k) zs"
      using tw by (auto simp: wokenD(5) [OF w] intro!: filter_cong)
    have E: "?E k (t # zs) = {t} \<union> ?E k1 zs" using True tw by (auto simp: wokenD(5) [OF w])
    have "rd (ContextTask k1) t = Some (tcb k1 t)" using b by (simp add: wokenD [OF w])
    with True b e(1) n1 k'(1) have "tick_walk C (first_of (t # zs) None) k = Some k'" by simp
    moreover from woken_trans [OF w k'(3)] have "woken k k' (?E k (t # zs))" by (simp only: E)
    ultimately show ?thesis using k'(2,4) f True c by simp
  next
    case False
    from Cons.IH [of k "ys @ [t]"] Cons.prems obtain k' where
      k': "tick_walk C (first_of zs None) k = Some k'"
      "delay_list k' (ys @ t # filter (\<lambda>t. TimeToWait (tcb k t) \<noteq> OSTickCounter k) zs)"
      "woken k k' (?E k zs)" "currentTask k' = currentTask k"
      by auto
    moreover have "?E k (t # zs) = ?E k zs" using False by auto
    ultimately show ?thesis using False b n by simp
  qed
qed


section \<open>The tick interrupt\<close>

lemma system_load_other [simp]:
  "ContextTask (system_load C k) = ContextTask k" "Head (system_load C k) = Head k"
  "Tail (system_load C k) = Tail k" "OSReadyList (system_load C k) = OSReadyList k"
  "OSBlockedList (system_load C k) = OSBlockedList k" "iNesting (system_load C k) = iNesting k"
  "PriorityVector (system_load C k) = PriorityVector k" "TaskAlloc (system_load C k) = TaskAlloc k"
  "OSTickCounter (system_load C k) = OSTickCounter k" "currentTask (system_load C k) = currentTask k"
  by (simp_all add: system_load_def Let_def)

lemma system_load_frame: "frame k (system_load C k)"
  by (simp add: frame_def)

text \<open>The tasks of a list whose wake-up tick is the current one.\<close>

abbreviation due :: "kernel \<Rightarrow> nat list \<Rightarrow> nat set" where
  "due k xs \<equiv> {t \<in> set xs. TimeToWait (tcb k t) = OSTickCounter k}"

abbreviation waiting :: "kernel \<Rightarrow> nat list \<Rightarrow> nat list" where
  "waiting k xs \<equiv> filter (\<lambda>t. TimeToWait (tcb k t) \<noteq> OSTickCounter k) xs"

lemma OS_TICK_HANDLER_spec:
  assumes l: "delay_list k xs" and p: "\<forall>t \<in> set xs. prio_of k t < 32"
  obtains k' where "OS_TICK_HANDLER C k = Some k'" and "delay_list k' (waiting k xs)"
    and "woken k k' (due k xs)" and "currentTask k' = currentTask k"
proof -
  from tick_walk_spec [of k "[]" xs C] l p obtain k1 where
    w: "tick_walk C (Head k) k = Some k1" and d: "delay_list k1 (waiting k xs)"
    and k1: "woken k k1 (due k xs)" "currentTask k1 = currentTask k"
    by (auto simp: delay_list_def)
  have "OS_TICK_HANDLER C k = Some (system_load C k1)" using w by (simp add: OS_TICK_HANDLER_def)
  moreover have "delay_list (system_load C k1) (waiting k xs)" using d by (simp add: delay_list_def)
  moreover have "woken k (system_load C k1) (due k xs)" using k1 by (simp add: woken_def frame_def)
  ultimately show ?thesis using that k1(2) by simp
qed

lemma sys_okI_frame:
  assumes s: "sys_ok C k xs" and f: "frame k k'" and ok: "kernel_ok C k'" and d: "delay_list k' ys"
    and ys: "\<And>t. t \<in> set ys \<Longrightarrow> installed C k t" and r: "0 \<in> runnable k'"
    and c: "unat (currentTask k') < length (ContextTask k')"
  shows "sys_ok C k' ys"
  using s f ok d ys r c by (auto simp: sys_ok_def frame_installed frameD)

lemma sys_ok_ChangeContext:
  assumes s: "sys_ok C k xs"
  obtains k' where "ChangeContext C k = Some k'" and "same_kernel k k'" and "sys_ok C k' xs"
    and "iNesting k = 0 \<longrightarrow> runs_highest C k'"
proof -
  note d = sys_okD [OF s]
  from ChangeContext_spec [OF d(1,6,7)] obtain k' where
    k': "ChangeContext C k = Some k'" and sk: "same_kernel k k'"
    and c: "iNesting k = 0 \<longrightarrow> runs_highest C k'" .
  from sk d(1) have ok: "kernel_ok C k'" by (simp add: same_kernel_ok)
  have cur: "unat (currentTask k') < length (ContextTask k')"
  proof (cases "iNesting k = 0")
    case True
    with c ok show ?thesis by (auto simp: runs_highest_def intro: installed_index)
  next
    case False
    with k' have "k' = k" by (simp add: context_defs)
    with d(7) show ?thesis by simp
  qed
  have "sys_ok C k' xs"
    using s ok cur sk by (simp add: sys_ok_def same_kernel_delay_list same_kernel_installed same_kernel_simps)
  with k' sk c that show ?thesis by blast
qed

lemma OSIncCounter_delay_list [simp]: "delay_list (OSIncCounter k) xs = delay_list k xs"
  by (simp add: delay_list_def)

lemma OSIncCounter_installed [simp]: "installed C (OSIncCounter k) t = installed C k t"
  by (simp add: installed_def)

lemma OSIncCounter_ok [simp]: "kernel_ok C (OSIncCounter k) = kernel_ok C k"
  by (simp add: kernel_ok_def arrays_ok_def prio_ok_def ready_ok_def)

lemma OSIncCounter_runnable [simp]: "runnable (OSIncCounter k) = runnable k"
  by (simp add: runnable_def)

lemma OSIncCounter_sys_ok: "sys_ok C k xs \<Longrightarrow> sys_ok C (OSIncCounter k) xs"
  using tick_ok_OSIncCounter [of k] by (simp add: sys_ok_def)

lemma TickTimer_spec:
  assumes s: "sys_ok C k xs"
  obtains k' where "TickTimer C k = Some k'" and "sys_ok C k' (waiting (OSIncCounter k) xs)"
    and "woken (OSIncCounter k) k' (due (OSIncCounter k) xs)"
    and "iNesting k = 0 \<longrightarrow> runs_highest C k'"
proof -
  let ?k = "OSIncCounter k"
  have s1: "sys_ok C ?k xs" by (rule OSIncCounter_sys_ok [OF s])
  note d = sys_okD [OF s1]
  have "\<forall>t \<in> set xs. prio_of ?k t < 32" using installed_prio(1) [OF d(1)] d(3) by blast
  from OS_TICK_HANDLER_spec [OF d(2) this, of C] obtain k1 where
    h: "OS_TICK_HANDLER C ?k = Some k1" "delay_list k1 (waiting ?k xs)" and w: "woken ?k k1 (due ?k xs)"
    and c: "currentTask k1 = currentTask ?k" .
  have ok1: "kernel_ok C k1" using woken_ok [OF d(1) w] d(3) by auto
  have r1: "0 \<in> runnable k1" using woken_runnable [OF w] d(5) by blast
  have s2: "sys_ok C k1 (waiting ?k xs)"
    using d(7) by (intro sys_okI_frame [OF s1 woken_frame [OF w] ok1 h(2) _ r1])
      (auto simp: c wokenD [OF w] dest: sys_okD(3) [OF s])
  from sys_ok_ChangeContext [OF s2] obtain k' where
    k': "ChangeContext C k1 = Some k'" "same_kernel k1 k'" "sys_ok C k' (waiting ?k xs)"
    "iNesting k1 = 0 \<longrightarrow> runs_highest C k'" .
  have "TickTimer C k = Some k'" using h(1) k'(1) by (simp add: TickTimer_def ChangeContext_def)
  then show ?thesis
    using that k' woken_same_kernel [OF w k'(2)] frameD(7) [OF woken_frame [OF w]] by simp
qed


section \<open>Going to sleep\<close>

text \<open>The effect of putting a task to sleep with the time stamp \<open>W\<close>.\<close>

definition slept :: "kernel \<Rightarrow> kernel \<Rightarrow> nat \<Rightarrow> ostick_t \<Rightarrow> bool" where
  "slept k k' t W \<longleftrightarrow> frame k k' \<and>
     (\<forall>i. TimeToWait (tcb k' i) = (if i = t then W else TimeToWait (tcb k i))) \<and>
     prios (OSReadyList k') = prios (OSReadyList k) - {prio_of k t}"

lemma sleptD:
  assumes "slept k k' t W"
  shows "frame k k'" and "TimeToWait (tcb k' i) = (if i = t then W else TimeToWait (tcb k i))"
    and "prios (OSReadyList k') = prios (OSReadyList k) - {prio_of k t}"
  using assms by (auto simp: slept_def)

lemma slept_same_kernel: "slept a b t W \<Longrightarrow> same_kernel b c \<Longrightarrow> slept a c t W"
  by (simp add: slept_def frame_def same_kernel_simps)

lemma delay_until_spec:
  assumes "delay_list k xs" and "t \<notin> set xs" and b: "t < length (ContextTask k)"
  obtains k' where "delay_until t w k = Some k'" and "delay_list k' (xs @ [t])" and "frame k k'"
    and "\<forall>i. TimeToWait (tcb k' i) = (if i = t then wake_tick (OSTickCounter k) w else TimeToWait (tcb k i))"
    and "OSReadyList k' = OSReadyList k" and "currentTask k' = currentTask k"
proof -
  let ?k = "k\<lparr>ContextTask := (ContextTask k)[t := (tcb k t)\<lparr>TimeToWait := wake_tick (OSTickCounter k) w\<rparr>]\<rparr>"
  have "delay_list ?k xs"
    using assms(1) b by (subst delay_list_cong [of _ k]) (auto simp: nth_list_update_if)
  from Include_list [OF this assms(2)] b obtain k' where
    k': "IncludeTaskIntoDelayList t ?k = Some k'" "delay_list k' (xs @ [t])" by auto
  from Include_same [OF k'(1)] have s: "same_but_links ?k k'" .
  have "delay_until t w k = Some k'" using k'(1) b by (simp add: delay_until_def OSGetCount_def)
  moreover have "frame k ?k" using b by (simp add: frame_def nth_list_update_if)
  then have "frame k k'" using same_but_links_frame [OF s] by (rule frame_trans)
  ultimately show ?thesis
    using that k'(2) s b by (simp add: same_but_links_simps nth_list_update_if)
qed

lemma set_suspended_spec:
  assumes "t < length (ContextTask k)"
  obtains ct where "set_suspended C t kind k = Some (k\<lparr>ContextTask := ct\<rparr>)"
    and "length ct = length (ContextTask k)"
    and "\<forall>i. Priority (ct ! i) = Priority (tcb k i) \<and> TimeToWait (ct ! i) = TimeToWait (tcb k i) \<and>
      Next (ct ! i) = Next (tcb k i) \<and> Previous (ct ! i) = Previous (tcb k i)"
proof (cases "VERBOSE C")
  case True
  with assms show ?thesis
    by (intro that [of "(ContextTask k)[t := (tcb k t)\<lparr>State := SUSPENDED, SuspendedType := kind\<rparr>]"])
      (auto simp: set_suspended_def nth_list_update_if)
next
  case False
  then show ?thesis by (intro that [of "ContextTask k"]) (simp_all add: set_suspended_def)
qed

text \<open>
  A task that is not the idle task leaves the ready list, and the system stays consistent.
\<close>

lemma slept_runnable:
  "slept k k' t W \<Longrightarrow> prio_of k t \<noteq> 0 \<Longrightarrow> 0 \<in> runnable k \<Longrightarrow> 0 \<in> runnable k'"
  by (auto simp: runnable_def sleptD frameD [OF sleptD(1)])

lemma slept_sys_ok:
  assumes s: "sys_ok C k xs" and sl: "slept k k' t W" and i: "installed C k t" and p: "prio_of k t \<noteq> 0"
    and d: "delay_list k' ys" and ys: "set ys \<subseteq> insert t (set xs)" and c: "currentTask k' = currentTask k"
  shows "sys_ok C k' ys"
proof (rule sys_okI_frame [OF s sleptD(1) [OF sl] _ d])
  show "kernel_ok C k'"
    by (rule frame_ok [OF sys_okD(1) [OF s] sleptD(1) [OF sl]]) (auto simp: sleptD(3) [OF sl])
  show "installed C k u" if "u \<in> set ys" for u
    using that ys i sys_okD(3) [OF s] by blast
  show "0 \<in> runnable k'" using slept_runnable [OF sl p] sys_okD(5) [OF s] .
  show "unat (currentTask k') < length (ContextTask k')"
    using sys_okD(7) [OF s] by (simp add: c frameD [OF sleptD(1) [OF sl]])
qed

lemma OSDelayTask_spec:
  assumes s: "sys_ok C k xs" and n: "iNesting k = 0" and i: "installed C k (unat (currentTask k))"
    and p: "prio_of k (unat (currentTask k)) \<noteq> 0" and t: "unat (currentTask k) \<notin> set xs" and w: "0 < w"
  obtains k' where "OSDelayTask C w k = Some (OK, k')"
    and "sys_ok C k' (xs @ [unat (currentTask k)])"
    and "slept k k' (unat (currentTask k)) (wake_tick (OSTickCounter k) w)" and "runs_highest C k'"
proof -
  let ?t = "unat (currentTask k)"
  note d = sys_okD [OF s]
  from i have c0: "currentTask k \<noteq> 0" by (auto simp: installed_def is_task_def)
  from delay_until_spec [OF d(2) t d(7), of w] obtain k1 where
    k1: "delay_until ?t w k = Some k1" "delay_list k1 (xs @ [?t])" and f1: "frame k k1"
    and tw: "\<forall>j. TimeToWait (tcb k1 j) = (if j = ?t then wake_tick (OSTickCounter k) w else TimeToWait (tcb k j))"
    and r1: "OSReadyList k1 = OSReadyList k" "currentTask k1 = currentTask k" .
  have b1: "?t < length (ContextTask k1)" using d(7) by (simp add: frameD [OF f1])
  from set_suspended_spec [OF b1, of C DELAY] obtain ct where
    ct: "set_suspended C ?t DELAY k1 = Some (k1\<lparr>ContextTask := ct\<rparr>)" "length ct = length (ContextTask k1)"
    "\<forall>j. Priority (ct ! j) = Priority (tcb k1 j) \<and> TimeToWait (ct ! j) = TimeToWait (tcb k1 j) \<and>
      Next (ct ! j) = Next (tcb k1 j) \<and> Previous (ct ! j) = Previous (tcb k1 j)" .
  have p32: "prio_of k ?t < 32" by (rule installed_prio(1) [OF d(1) i])
  let ?k2 = "k1\<lparr>ContextTask := ct, OSReadyList := OSReadyList k1 AND NOT (PriorityMask ! prio_of k ?t)\<rparr>"
  have sl: "slept k ?k2 ?t (wake_tick (OSTickCounter k) w)"
    unfolding slept_def frame_def
    using f1 ct tw r1 p32 by (simp add: frameD [OF f1] prios_and_not prios_PriorityMask)
  have dl: "delay_list ?k2 (xs @ [?t])"
    using k1(2) ct by (subst delay_list_cong [of _ k1]) auto
  have s2: "sys_ok C ?k2 (xs @ [?t])"
    by (rule slept_sys_ok [OF s sl i p dl]) (simp_all add: r1)
  from sys_ok_ChangeContext [OF s2] obtain k' where
    k': "ChangeContext C ?k2 = Some k'" "same_kernel ?k2 k'" "sys_ok C k' (xs @ [?t])"
    "iNesting ?k2 = 0 \<longrightarrow> runs_highest C k'" .
  have "OSDelayTask C w k = Some (OK, k')"
    using n c0 w k1(1) ct b1 p32 k'(1) by (simp add: OSDelayTask_def Let_def word_gt_0 frameD [OF f1])
  moreover have "runs_highest C k'" using k'(4) n by (simp add: frameD [OF f1])
  ultimately show ?thesis using that k'(3) slept_same_kernel [OF sl k'(2)] by blast
qed


section \<open>Sleeping for an exact number of ticks\<close>

text \<open>\<open>n\<close> tick interrupts in a row.\<close>

primrec run_ticks :: "config \<Rightarrow> nat \<Rightarrow> kernel \<Rightarrow> kernel option" where
  "run_ticks C 0 k = Some k"
| "run_ticks C (Suc n) k = Option.bind (run_ticks C n k) (TickTimer C)"

text \<open>The task sleeps in the delay list with the time stamp \<open>W\<close>.\<close>

definition asleep :: "config \<Rightarrow> kernel \<Rightarrow> nat \<Rightarrow> ostick_t \<Rightarrow> bool" where
  "asleep C k t W \<longleftrightarrow> (\<exists>xs. sys_ok C k xs \<and> t \<in> set xs \<and> TimeToWait (tcb k t) = W \<and>
     prio_of k t \<notin> prios (OSReadyList k))"

text \<open>The task is ready again and carries the mark of a time-out.\<close>

definition timed_out :: "config \<Rightarrow> kernel \<Rightarrow> nat \<Rightarrow> bool" where
  "timed_out C k t \<longleftrightarrow> (\<exists>xs. sys_ok C k xs \<and> t \<notin> set xs) \<and> installed C k t \<and>
     prio_of k t \<in> prios (OSReadyList k) \<and> TimeToWait (tcb k t) = EXIT_BY_TIMEOUT"

lemma TickTimer_asleep:
  assumes a: "asleep C k t W"
  obtains k' where "TickTimer C k = Some k'"
    and "Priority (tcb k' t) = Priority (tcb k t)" and "OSTickCounter k' = OSTickCounter (OSIncCounter k)"
    and "OSTickCounter (OSIncCounter k) \<noteq> W \<longrightarrow> asleep C k' t W"
    and "OSTickCounter (OSIncCounter k) = W \<longrightarrow> timed_out C k' t"
proof -
  from a obtain xs where s: "sys_ok C k xs" and t: "t \<in> set xs" and W: "TimeToWait (tcb k t) = W"
    and r: "prio_of k t \<notin> prios (OSReadyList k)" by (auto simp: asleep_def)
  note i = sys_okD(3) [OF s]
  from TickTimer_spec [OF s] obtain k' where k': "TickTimer C k = Some k'"
    and s': "sys_ok C k' (waiting (OSIncCounter k) xs)"
    and w: "woken (OSIncCounter k) k' (due (OSIncCounter k) xs)" .
  note wd = wokenD [OF w]
  have "asleep C k' t W" if ne: "OSTickCounter (OSIncCounter k) \<noteq> W"
  proof -
    have "prio_of k t \<notin> prio_of k ` due (OSIncCounter k) xs"
    proof
      assume "prio_of k t \<in> prio_of k ` due (OSIncCounter k) xs"
      then obtain u where "u \<in> set xs" "TimeToWait (tcb k u) = OSTickCounter (OSIncCounter k)"
        "prio_of k t = prio_of k u" by auto
      with installed_inj [OF sys_okD(1) [OF s] i [OF t] i] ne W show False by metis
    qed
    then have "prio_of k' t \<notin> prios (OSReadyList k')" using r by (simp add: wd)
    with s' t ne W show ?thesis unfolding asleep_def by (auto simp: wd)
  qed
  moreover have "timed_out C k' t" if e: "OSTickCounter (OSIncCounter k) = W"
  proof -
    from e W t have td: "t \<in> due (OSIncCounter k) xs" by simp
    then have "t \<notin> set (waiting (OSIncCounter k) xs)" by auto
    moreover have "installed C k' t" using i [OF t] by (simp add: frame_installed [OF woken_frame [OF w]])
    ultimately show ?thesis unfolding timed_out_def using s' td by (auto simp: wd)
  qed
  ultimately show ?thesis using that k' wd(2) [of t] wd(5) by simp
qed

lemma run_ticks_asleep:
  assumes "asleep C k t (wake_tick c w)" and "tick_ok k0" and "OSTickCounter k = OSTickCounter k0"
    and "c = OSTickCounter k0" and "0 < w" and "w \<le> TICK_COUNT_OVERFLOW"
  shows "n < unat w \<Longrightarrow> \<exists>k'. run_ticks C n k = Some k' \<and> asleep C k' t (wake_tick c w) \<and>
     OSTickCounter k' = OSTickCounter ((OSIncCounter ^^ n) k0)"
proof (induction n)
  case 0
  with assms show ?case by simp
next
  case (Suc n)
  then obtain k1 where k1: "run_ticks C n k = Some k1" and a: "asleep C k1 t (wake_tick c w)"
    and c: "OSTickCounter k1 = OSTickCounter ((OSIncCounter ^^ n) k0)" by auto
  have c': "OSTickCounter (OSIncCounter k1) = OSTickCounter ((OSIncCounter ^^ Suc n) k0)"
    using c by (simp add: OSIncCounter_def Let_def)
  with wake_tick_exact(2) [OF assms(2,5,6), of "Suc n"] Suc.prems assms(4)
  have "OSTickCounter (OSIncCounter k1) \<noteq> wake_tick c w" by simp
  with TickTimer_asleep [OF a] obtain k' where
    "TickTimer C k1 = Some k'" "asleep C k' t (wake_tick c w)"
    "OSTickCounter k' = OSTickCounter (OSIncCounter k1)" by metis
  with k1 c' show ?case by simp
qed

lemma run_ticks_wakes:
  assumes "asleep C k t (wake_tick (OSTickCounter k) w)" and "0 < w" and "w \<le> TICK_COUNT_OVERFLOW"
  shows "\<exists>k'. run_ticks C (unat w) k = Some k' \<and> timed_out C k' t"
proof -
  from assms(1) have ok: "tick_ok k" by (auto simp: asleep_def sys_ok_def)
  from assms(2) obtain m where m: "unat w = Suc m" by (metis gr0_implies_Suc unat_gt_0 word_gt_0)
  from run_ticks_asleep [OF assms(1) ok refl refl assms(2,3), of m] m obtain k1 where
    k1: "run_ticks C m k = Some k1" and a: "asleep C k1 t (wake_tick (OSTickCounter k) w)"
    and c: "OSTickCounter k1 = OSTickCounter ((OSIncCounter ^^ m) k)" by auto
  have "OSTickCounter (OSIncCounter k1) = OSTickCounter ((OSIncCounter ^^ unat w) k)"
    using c by (simp add: m OSIncCounter_def Let_def)
  with wake_tick_exact(1) [OF ok assms(2,3)]
  have "OSTickCounter (OSIncCounter k1) = wake_tick (OSTickCounter k) w" by simp
  with TickTimer_asleep [OF a] obtain k' where "TickTimer C k1 = Some k'" "timed_out C k' t" by metis
  with k1 show ?thesis by (simp add: m)
qed

lemma slept_asleep:
  assumes "sys_ok C k' (xs @ [t])" and "slept k k' t W"
  shows "asleep C k' t W"
  using assms unfolding asleep_def
  by (auto intro!: exI [of _ "xs @ [t]"] simp: sleptD frameD [OF sleptD(1)])

text \<open>Any number of tick interrupts keeps the system consistent and every priority.\<close>

lemma run_ticks_ok:
  "sys_ok C k xs \<Longrightarrow> \<exists>k' ys. run_ticks C n k = Some k' \<and> sys_ok C k' ys \<and> set ys \<subseteq> set xs \<and>
     (\<forall>i. Priority (tcb k' i) = Priority (tcb k i)) \<and> iNesting k' = iNesting k"
proof (induction n)
  case 0
  then show ?case by auto
next
  case (Suc n)
  then obtain k1 ys where k1: "run_ticks C n k = Some k1" "sys_ok C k1 ys" "set ys \<subseteq> set xs"
    "\<forall>i. Priority (tcb k1 i) = Priority (tcb k i)" "iNesting k1 = iNesting k" by auto
  from TickTimer_spec [OF k1(2)] obtain k' where k': "TickTimer C k1 = Some k'"
    "sys_ok C k' (waiting (OSIncCounter k1) ys)" "woken (OSIncCounter k1) k' (due (OSIncCounter k1) ys)"
    "iNesting k1 = 0 \<longrightarrow> runs_highest C k'" .
  from k1 k' show ?case
    by (intro exI [of _ k'] exI [of _ "waiting (OSIncCounter k1) ys"]) (auto simp: wokenD [OF k'(3)])
qed

section \<open>Delays in hours, minutes, seconds and milliseconds\<close>

lemma unat_add4:
  assumes "unat (a :: uint32_t) = x" and "unat b = y" and "unat c = z" and "unat d = v"
    and "x + y + z + v < 4294967296"
  shows "unat (a + b + c + d) = x + y + z + v"
  using assms(5) by (simp add: unat_word_ariths(1) assms(1-4))

lemma unat_HMSM_ticks:
  assumes h: "minutes \<le> 59" "seconds \<le> 59" "miliseconds \<le> 999"
    and r: "unat (configTICK_RATE_HZ C) \<le> 4660"
  shows "unat (HMSM_ticks C hours minutes seconds miliseconds) =
    (unat hours * 3600 + unat minutes * 60 + unat seconds) * unat (configTICK_RATE_HZ C) +
    unat miliseconds * unat (configTICK_RATE_HZ C) div 1000"
proof -
  let ?r = "unat (configTICK_RATE_HZ C)"
  have b: "unat hours \<le> 255" "unat minutes \<le> 59" "unat seconds \<le> 59" "unat miliseconds \<le> 999"
    using h unsigned_less [of hours, where 'a = nat] by (simp_all add: word_le_nat_alt)
  note p = mult_le_mono [OF b(1) r] mult_le_mono [OF b(2) r] mult_le_mono [OF b(3) r]
    mult_le_mono [OF b(4) r]
  have u: "unat (ucast hours :: uint32_t) = unat hours" "unat (ucast minutes :: uint32_t) = unat minutes"
    "unat (ucast seconds :: uint32_t) = unat seconds" "unat (ucast miliseconds :: uint32_t) = unat miliseconds"
    using b by (simp_all add: unsigned_ucast_eq take_bit_nat_eq_self)
  have hh: "unat (ucast hours * 3600 * configTICK_RATE_HZ C :: uint32_t) = unat hours * ?r * 3600"
    using p b by (simp add: unat_word_ariths u mult.commute mult.left_commute)
  have mm: "unat (ucast minutes * 60 * configTICK_RATE_HZ C :: uint32_t) = unat minutes * ?r * 60"
    using p b by (simp add: unat_word_ariths u mult.commute mult.left_commute)
  have ss: "unat (ucast seconds * configTICK_RATE_HZ C :: uint32_t) = unat seconds * ?r"
    using p by (simp add: unat_word_ariths u)
  have ms: "unat ((ucast miliseconds * configTICK_RATE_HZ C) div 1000 :: uint32_t) = unat miliseconds * ?r div 1000"
    using p by (simp add: unat_div unat_word_ariths u)
  have m: "unat miliseconds * ?r div 1000 \<le> 4660" using p(4) by simp
  have "unat (HMSM_ticks C hours minutes seconds miliseconds) =
      unat hours * ?r * 3600 + unat minutes * ?r * 60 + unat seconds * ?r + unat miliseconds * ?r div 1000"
    unfolding HMSM_ticks_def by (rule unat_add4 [OF hh mm ss ms]) (use p m in linarith)
  then show ?thesis by (simp only: distrib_right mult.assoc mult.commute [of ?r])
qed

end
