(* ===== verification/Blocking.thy ===== *)
theory Blocking
  imports Tick
begin

text \<open>
  Properties of the blocking functions of \<^verbatim>\<open>src/brtos/BRTOS.c\<close> (modelled in \<open>Tasks\<close>):
  a blocked task keeps its place in the ready list but is not scheduled until it is unblocked.
\<close>

section \<open>Changing the blocked list\<close>

text \<open>
  \<open>reblocked k k' B\<close>: the set of unblocked priorities becomes \<open>B\<close>, and nothing else that
  scheduling depends on changes.
\<close>

definition reblocked :: "kernel \<Rightarrow> kernel \<Rightarrow> nat set \<Rightarrow> bool" where
  "reblocked k k' B \<longleftrightarrow>
     length (ContextTask k') = length (ContextTask k) \<and>
     (\<forall>i. Priority (tcb k' i) = Priority (tcb k i) \<and> TimeToWait (tcb k' i) = TimeToWait (tcb k i) \<and>
          Next (tcb k' i) = Next (tcb k i) \<and> Previous (tcb k' i) = Previous (tcb k i)) \<and>
     PriorityVector k' = PriorityVector k \<and> OSReadyList k' = OSReadyList k \<and> prios (OSBlockedList k') = B \<and>
     OSTickCounter k' = OSTickCounter k \<and> TaskAlloc k' = TaskAlloc k \<and> iNesting k' = iNesting k \<and>
     Head k' = Head k \<and> Tail k' = Tail k"

lemma reblocked_same_kernel: "reblocked a b B \<Longrightarrow> same_kernel b c \<Longrightarrow> reblocked a c B"
  by (simp add: reblocked_def same_kernel_simps)

lemma reblocked_trans: "reblocked a b B \<Longrightarrow> reblocked b c D \<Longrightarrow> reblocked a c D"
  by (simp add: reblocked_def)

lemma reblocked_installed: "reblocked k k' B \<Longrightarrow> installed C k' t = installed C k t"
  by (simp add: reblocked_def installed_def)

lemma reblocked_runnable: "reblocked k k' B \<Longrightarrow> runnable k' = prios (OSReadyList k) \<inter> B"
  by (simp add: reblocked_def runnable_def)

lemma reblocked_sys_ok:
  assumes s: "sys_ok C k xs" and r: "reblocked k k' B" and z: "0 \<in> B"
    and c: "unat (currentTask k') < length (ContextTask k')"
  shows "sys_ok C k' xs"
proof -
  have "kernel_ok C k'"
    using sys_okD(1) [OF s] r by (simp add: kernel_ok_def arrays_ok_def prio_ok_def ready_ok_def installed_def reblocked_def)
  moreover have "delay_list k' xs = delay_list k xs" using r by (intro delay_list_cong) (auto simp: reblocked_def)
  moreover have "0 \<in> runnable k'" using z sys_okD(5) [OF s] by (simp add: reblocked_runnable [OF r]) (simp add: runnable_def)
  moreover have "OSTickCounter k' = OSTickCounter k" using r by (simp add: reblocked_def)
  ultimately show ?thesis using s c by (simp add: sys_ok_def reblocked_installed [OF r])
qed

lemma set_blocked_spec:
  assumes "t < length (ContextTask k)"
  obtains ct where "set_blocked C t v k = Some (k\<lparr>ContextTask := ct\<rparr>)" and "length ct = length (ContextTask k)"
    and "\<forall>i. Priority (ct ! i) = Priority (tcb k i) \<and> TimeToWait (ct ! i) = TimeToWait (tcb k i) \<and>
      Next (ct ! i) = Next (tcb k i) \<and> Previous (ct ! i) = Previous (tcb k i)"
proof (cases "VERBOSE C")
  case True
  with assms show ?thesis
    by (intro that [of "(ContextTask k)[t := (tcb k t)\<lparr>Blocked := v\<rparr>]"]) (auto simp: set_blocked_def nth_list_update_if)
next
  case False
  then show ?thesis by (intro that [of "ContextTask k"]) (simp_all add: set_blocked_def)
qed

section \<open>One task\<close>

lemma OSBlockTask_spec:
  assumes s: "sys_ok C k xs" and n: "iNesting k = 0" and H: "H \<noteq> 0" and i: "installed C k (unat H)"
    and p: "prio_of k (unat H) \<noteq> 0" and z: "0 \<in> prios (OSBlockedList k)"
  obtains k' where "OSBlockTask C H k = Some (OK, k')" and "sys_ok C k' xs"
    and "reblocked k k' (prios (OSBlockedList k) - {prio_of k (unat H)})"
    and "H = ucast (currentTask k) \<longrightarrow> runs_highest C k'" and "H \<noteq> ucast (currentTask k) \<longrightarrow> currentTask k' = currentTask k"
proof -
  let ?t = "unat H"
  note d = sys_okD [OF s]
  have tb: "?t < length (ContextTask k)" by (rule installed_index [OF d(1) i])
  have p32: "prio_of k ?t < 32" by (rule installed_prio(1) [OF d(1) i])
  from set_blocked_spec [OF tb, of C TRUE8] obtain ct where
    ct: "set_blocked C ?t TRUE8 k = Some (k\<lparr>ContextTask := ct\<rparr>)" "length ct = length (ContextTask k)"
    "\<forall>i. Priority (ct ! i) = Priority (tcb k i) \<and> TimeToWait (ct ! i) = TimeToWait (tcb k i) \<and>
      Next (ct ! i) = Next (tcb k i) \<and> Previous (ct ! i) = Previous (tcb k i)" .
  let ?B = "prios (OSBlockedList k) - {prio_of k ?t}"
  let ?k = "k\<lparr>ContextTask := ct, OSBlockedList := OSBlockedList k AND NOT (PriorityMask ! prio_of k ?t)\<rparr>"
  have r: "reblocked k ?k ?B" using ct p32 by (simp add: reblocked_def prios_and_not prios_PriorityMask)
  have s1: "sys_ok C ?k xs" by (rule reblocked_sys_ok [OF s r]) (use z p d(7) ct in auto)
  from sys_ok_ChangeContext [OF s1] obtain k2 where
    k2: "ChangeContext C ?k = Some k2" "same_kernel ?k k2" "sys_ok C k2 xs" "iNesting ?k = 0 \<longrightarrow> runs_highest C k2" .
  let ?k' = "if ucast (currentTask k) = H then k2 else ?k"
  have "OSBlockTask C H k = Some (OK, ?k')"
    using n H ct tb p32 k2(1) by (simp add: OSBlockTask_def Let_def)
  with that [of ?k'] s1 k2 r reblocked_same_kernel [OF r k2(2)] n show ?thesis by auto
qed

lemma OSUnBlockTask_spec:
  assumes s: "sys_ok C k xs" and i: "installed C k (unat H)"
  obtains k' where "OSUnBlockTask C H k = Some (OK, k')" and "sys_ok C k' xs"
    and "reblocked k k' (insert (prio_of k (unat H)) (prios (OSBlockedList k)))"
    and "currentTask k \<noteq> 0 \<and> iNesting k = 0 \<longrightarrow> runs_highest C k'"
proof -
  let ?t = "unat H"
  note d = sys_okD [OF s]
  have tb: "?t < length (ContextTask k)" by (rule installed_index [OF d(1) i])
  have p32: "prio_of k ?t < 32" by (rule installed_prio(1) [OF d(1) i])
  from set_blocked_spec [OF tb, of C FALSE8] obtain ct where
    ct: "set_blocked C ?t FALSE8 k = Some (k\<lparr>ContextTask := ct\<rparr>)" "length ct = length (ContextTask k)"
    "\<forall>i. Priority (ct ! i) = Priority (tcb k i) \<and> TimeToWait (ct ! i) = TimeToWait (tcb k i) \<and>
      Next (ct ! i) = Next (tcb k i) \<and> Previous (ct ! i) = Previous (tcb k i)" .
  let ?B = "insert (prio_of k ?t) (prios (OSBlockedList k))"
  let ?k = "k\<lparr>ContextTask := ct, OSBlockedList := OSBlockedList k OR PriorityMask ! prio_of k ?t\<rparr>"
  have r: "reblocked k ?k ?B" using ct p32 by (simp add: reblocked_def prios_or prios_PriorityMask)
  have s1: "sys_ok C ?k xs"
    by (rule reblocked_sys_ok [OF s r]) (use d(5,7) ct in \<open>auto simp: runnable_def\<close>)
  from sys_ok_ChangeContext [OF s1] obtain k2 where
    k2: "ChangeContext C ?k = Some k2" "same_kernel ?k k2" "sys_ok C k2 xs" "iNesting ?k = 0 \<longrightarrow> runs_highest C k2" .
  let ?k' = "if currentTask k \<noteq> 0 \<and> iNesting k = 0 then k2 else ?k"
  have "OSUnBlockTask C H k = Some (OK, ?k')"
    using ct tb p32 k2(1) by (simp add: OSUnBlockTask_def Let_def)
  with that [of ?k'] s1 k2 r reblocked_same_kernel [OF r k2(2)] show ?thesis by auto
qed

section \<open>By priority\<close>

text \<open>On an installed task, the functions that take a priority do what those that take a handle do.\<close>

lemma installed_handle:
  assumes "kernel_ok C k" and "installed C k t"
  shows "unat (of_nat t :: BRTOS_TH) = t" and "(of_nat t :: BRTOS_TH) \<noteq> 0"
    and "ucast (currentTask k) = (of_nat t :: BRTOS_TH) \<longleftrightarrow> currentTask k = PriorityVector k ! prio_of k t"
proof -
  from assms have t: "1 \<le> t" "t \<le> 32" by (auto simp: installed_def is_task_def kernel_ok_def arrays_ok_def)
  then show u: "unat (of_nat t :: BRTOS_TH) = t" by (simp add: unat_of_nat take_bit_nat_eq_self)
  with t show "(of_nat t :: BRTOS_TH) \<noteq> 0" by (metis not_one_le_zero unsigned_0)
  show "ucast (currentTask k) = (of_nat t :: BRTOS_TH) \<longleftrightarrow> currentTask k = PriorityVector k ! prio_of k t"
    using installed_prio(2) [OF assms] u by (simp add: word_unat_eq_iff unat_ucast_8_32)
qed

lemma set_blocked_prio:
  assumes "set_blocked C t v k = Some k'"
  shows "Priority (tcb k' t) = Priority (tcb k t)" and "currentTask k' = currentTask k"
    and "length (ContextTask k') = length (ContextTask k)" and "PriorityVector k' = PriorityVector k"
  using assms by (auto simp: set_blocked_def upd_eq_Some split: if_splits)

lemma OSBlockPriority_task:
  assumes "kernel_ok C k" and "installed C k t"
  shows "OSBlockPriority C (Priority (tcb k t)) k = OSBlockTask C (of_nat t) k"
proof -
  note h = installed_handle [OF assms] and p = installed_prio [OF assms]
  have tb: "t < length (ContextTask k)" by (rule installed_index [OF assms])
  obtain k1 where k1: "set_blocked C t TRUE8 k = Some k1" by (rule set_blocked_spec [OF tb, of C TRUE8])
  have l: "prio_of k t < length (PriorityVector k)" using p(1) assms(1) by (simp add: kernel_ok_def arrays_ok_def)
  show ?thesis
    using k1 set_blocked_prio [OF k1] h p l tb by (simp add: OSBlockPriority_def OSBlockTask_def Let_def)
qed

lemma OSUnBlockPriority_task:
  assumes "kernel_ok C k" and "installed C k t"
  shows "OSUnBlockPriority C (Priority (tcb k t)) k = OSUnBlockTask C (of_nat t) k"
proof -
  note h = installed_handle [OF assms] and p = installed_prio [OF assms]
  have tb: "t < length (ContextTask k)" by (rule installed_index [OF assms])
  obtain k1 where k1: "set_blocked C t FALSE8 k = Some k1" by (rule set_blocked_spec [OF tb, of C FALSE8])
  have l: "prio_of k t < length (PriorityVector k)" using p(1) assms(1) by (simp add: kernel_ok_def arrays_ok_def)
  have n: "\<not> VERBOSE C \<Longrightarrow> k1 = k" using k1 by (simp add: set_blocked_def)
  show ?thesis
    using k1 n set_blocked_prio [OF k1] h p l tb
    by (cases "VERBOSE C") (simp_all add: OSUnBlockPriority_def OSUnBlockTask_def Let_def)
qed

section \<open>Ranges of tasks\<close>

lemma block_step_spec:
  assumes ok: "kernel_ok C k" and i: "installed C k t" and ne: "t \<noteq> unat (currentTask k)"
  obtains k' where "block_step C t k = Some k'" and "reblocked k k' (prios (OSBlockedList k) - {prio_of k t})"
    and "currentTask k' = currentTask k" and "kernel_ok C k'"
proof -
  have tb: "t < length (ContextTask k)" by (rule installed_index [OF ok i])
  have p32: "prio_of k t < 32" by (rule installed_prio(1) [OF ok i])
  from set_blocked_spec [OF tb, of C TRUE8] obtain ct where
    ct: "set_blocked C t TRUE8 k = Some (k\<lparr>ContextTask := ct\<rparr>)" "length ct = length (ContextTask k)"
    "\<forall>i. Priority (ct ! i) = Priority (tcb k i) \<and> TimeToWait (ct ! i) = TimeToWait (tcb k i) \<and>
      Next (ct ! i) = Next (tcb k i) \<and> Previous (ct ! i) = Previous (tcb k i)" .
  let ?k = "k\<lparr>ContextTask := ct, OSBlockedList := OSBlockedList k AND NOT (PriorityMask ! prio_of k t)\<rparr>"
  have r: "reblocked k ?k (prios (OSBlockedList k) - {prio_of k t})"
    using ct p32 by (simp add: reblocked_def prios_and_not prios_PriorityMask)
  have "kernel_ok C ?k"
    using ok r by (simp add: kernel_ok_def arrays_ok_def prio_ok_def ready_ok_def installed_def reblocked_def)
  moreover have "block_step C t k = Some ?k" using ne ct tb p32 by (simp add: block_step_def)
  ultimately show ?thesis using that r by simp
qed

lemma for_tasks_block:
  "kernel_ok C k \<Longrightarrow> \<forall>t \<in> set ts. installed C k t \<Longrightarrow>
   \<exists>k'. for_tasks (block_step C) ts k = Some k' \<and> currentTask k' = currentTask k \<and> kernel_ok C k' \<and>
     reblocked k k' (prios (OSBlockedList k) - prio_of k ` (set ts - {unat (currentTask k)}))"
proof (induction ts arbitrary: k)
  case Nil
  then show ?case by (simp add: reblocked_def)
next
  case (Cons t ts)
  show ?case
  proof (cases "t = unat (currentTask k)")
    case True
    then have "block_step C t k = Some k" by (simp add: block_step_def)
    with Cons True show ?thesis by auto
  next
    case False
    with block_step_spec [OF Cons.prems(1), of t] Cons.prems(2) obtain k1 where
      k1: "block_step C t k = Some k1" "reblocked k k1 (prios (OSBlockedList k) - {prio_of k t})"
      "currentTask k1 = currentTask k" "kernel_ok C k1" by auto
    from Cons.IH [OF k1(4)] Cons.prems(2) reblocked_installed [OF k1(2)] obtain k' where
      k': "for_tasks (block_step C) ts k1 = Some k'" "currentTask k' = currentTask k1" "kernel_ok C k'"
      "reblocked k1 k' (prios (OSBlockedList k1) - prio_of k1 ` (set ts - {unat (currentTask k1)}))" by auto
    have "prios (OSBlockedList k1) - prio_of k1 ` (set ts - {unat (currentTask k1)}) =
        prios (OSBlockedList k) - prio_of k ` (set (t # ts) - {unat (currentTask k)})"
      using k1(2,3) False by (auto simp: reblocked_def)
    with reblocked_trans [OF k1(2) k'(4)] k1(1,3) k' show ?thesis by simp
  qed
qed

end
