(* ===== verification/Events.thy ===== *)
theory Events
  imports Tick
begin

text \<open>
  What the event control blocks of \<^verbatim>\<open>semaphore.c\<close>, \<^verbatim>\<open>mutex.c\<close>, \<^verbatim>\<open>mbox.c\<close>
  and \<^verbatim>\<open>queue.c\<close> have in common: the allocation flag, the wait counter and the wait list,
  the search for a free block, and the three pieces of code that every pair of pend and post
  functions contains: suspending the caller, waking the waiter of the highest priority, and the
  decision between time-out and success when a waiter runs again. The C structures repeat the
  three fields; here each of them extends one base record, so that the shared code is one
  definition. The locale \<open>wait_queue\<close> states the contract of a wait list.
\<close>

section \<open>Event control blocks\<close>

record event_block =
  OSEventAllocated :: uint8_t
  OSEventWait :: uint8_t
  OSEventWaitList :: PriorityType

text \<open>
  The result of a call that may block: it returns a code, or it has given up the processor
  and carries the local variable \<^verbatim>\<open>iPriority\<close> to the code that runs when the task is
  scheduled again.
\<close>

datatype 'a outcome = Return uint8_t 'a | Suspend uint8_t 'a

text \<open>The loop of the create functions over the table of control blocks.\<close>

definition free_block :: "'e event_block_scheme list \<Rightarrow> nat option" where
  "free_block table = find (\<lambda>i. OSEventAllocated (table ! i) \<noteq> TRUE8) [0..<length table]"

text \<open>The loop of \<^verbatim>\<open>initEvents\<close> for one table.\<close>

definition init_table :: "'e event_block_scheme list \<Rightarrow> 'e event_block_scheme list" where
  "init_table table = map (\<lambda>e. e\<lparr>OSEventAllocated := 0\<rparr>) table"

section \<open>The shared code of pend and post\<close>

definition event_enqueue :: "uint8_t \<Rightarrow> 'e event_block_scheme \<Rightarrow> 'e event_block_scheme option" where
  "event_enqueue iPriority e = do {
     m \<leftarrow> rd PriorityMask (unat iPriority);
     Some (e\<lparr>OSEventWait := OSEventWait e + 1, OSEventWaitList := OSEventWaitList e OR m\<rparr>) }"

definition event_select :: "config \<Rightarrow> 'e event_block_scheme \<Rightarrow> (uint8_t \<times> 'e event_block_scheme) option" where
  "event_select C e = do {
     let iPriority = SAScheduler C (OSEventWaitList e);
     m \<leftarrow> rd PriorityMask (unat iPriority);
     Some (iPriority, e\<lparr>OSEventWaitList := OSEventWaitList e AND NOT m, OSEventWait := OSEventWait e - 1\<rparr>) }"

definition event_cancel :: "uint8_t \<Rightarrow> 'e event_block_scheme \<Rightarrow> (bool \<times> 'e event_block_scheme) option" where
  "event_cancel iPriority e = do {
     m \<leftarrow> rd PriorityMask (unat iPriority);
     Some (if OSEventWaitList e AND m \<noteq> 0
           then (True, e\<lparr>OSEventWaitList := OSEventWaitList e AND NOT m, OSEventWait := OSEventWait e - 1\<rparr>)
           else (False, e)) }"

text \<open>
  From \<^verbatim>\<open>Task = &ContextTask[currentTask]\<close> to the call of \<^verbatim>\<open>ChangeContext\<close> in a pend
  function.
\<close>

definition task_suspend :: "config \<Rightarrow> uint8_t \<Rightarrow> ostick_t \<Rightarrow> kernel \<Rightarrow> kernel option" where
  "task_suspend C kind time_wait k = do {
     let Task = unat (currentTask k);
     t \<leftarrow> rd (ContextTask k) Task;
     m \<leftarrow> rd PriorityMask (unat (Priority t));
     k \<leftarrow> set_suspended C Task kind k;
     let k = k\<lparr>OSReadyList := OSReadyList k AND NOT m\<rparr>;
     if time_wait \<noteq> 0 then delay_until Task time_wait k
     else do {
       ct \<leftarrow> upd (ContextTask k) Task (\<lambda>t. t\<lparr>TimeToWait := NO_TIMEOUT\<rparr>);
       Some (k\<lparr>ContextTask := ct\<rparr>) } }"

definition pend_suspend :: "config \<Rightarrow> uint8_t \<Rightarrow> ostick_t \<Rightarrow> 'e event_block_scheme \<Rightarrow> kernel \<Rightarrow>
    (uint8_t \<times> 'e event_block_scheme \<times> kernel) option" where
  "pend_suspend C kind time_wait e k = do {
     t \<leftarrow> rd (ContextTask k) (unat (currentTask k));
     let iPriority = Priority t;
     e \<leftarrow> event_enqueue iPriority e;
     k \<leftarrow> task_suspend C kind time_wait k;
     Some (iPriority, e, k) }"

text \<open>The lines of a post function that put the selected task into the ready list.\<close>

definition wake_priority :: "config \<Rightarrow> uint8_t \<Rightarrow> kernel \<Rightarrow> kernel option" where
  "wake_priority C iPriority k = do {
     k \<leftarrow> (if VERBOSE C then do {
             TaskSelect \<leftarrow> rd (PriorityVector k) (unat iPriority);
             ct \<leftarrow> upd (ContextTask k) (unat TaskSelect) (\<lambda>t. t\<lparr>State := READY\<rparr>);
             Some (k\<lparr>ContextTask := ct\<rparr>) }
           else Some k);
     m \<leftarrow> rd PriorityMask (unat iPriority);
     Some (k\<lparr>OSReadyList := OSReadyList k OR m\<rparr>) }"

definition post_wake :: "config \<Rightarrow> 'e event_block_scheme \<Rightarrow> kernel \<Rightarrow>
    (uint8_t \<times> 'e event_block_scheme \<times> kernel) option" where
  "post_wake C e k = do {
     (iPriority, e) \<leftarrow> event_select C e;
     k \<leftarrow> wake_priority C iPriority k;
     Some (iPriority, e, k) }"

text \<open>
  The code after \<^verbatim>\<open>ChangeContext\<close> in a pend function that was called with a time-out:
  the flag of the result says that the wait ended by time-out.
\<close>

definition pend_resume :: "nat \<Rightarrow> uint8_t \<Rightarrow> 'e event_block_scheme \<Rightarrow> kernel \<Rightarrow>
    (bool \<times> 'e event_block_scheme \<times> kernel) option" where
  "pend_resume Task iPriority e k = do {
     t \<leftarrow> rd (ContextTask k) Task;
     if TimeToWait t = EXIT_BY_TIMEOUT then do {
       (b, e) \<leftarrow> event_cancel iPriority e;
       Some (b, e, k) }
     else do {
       ct \<leftarrow> upd (ContextTask k) Task (\<lambda>t. t\<lparr>TimeToWait := NO_TIMEOUT\<rparr>);
       k \<leftarrow> RemoveFromDelayList Task (k\<lparr>ContextTask := ct\<rparr>);
       Some (False, e, k) } }"

section \<open>Free blocks\<close>

lemma free_block_Some:
  assumes "free_block table = Some i"
  shows "i < length table" and "OSEventAllocated (table ! i) \<noteq> TRUE8"
    and "j < i \<Longrightarrow> OSEventAllocated (table ! j) = TRUE8"
  using assms by (auto simp: free_block_def find_Some_iff)

lemma free_blockI:
  assumes "i < length table" and "OSEventAllocated (table ! i) \<noteq> TRUE8"
    and "\<And>j. j < i \<Longrightarrow> OSEventAllocated (table ! j) = TRUE8"
  shows "free_block table = Some i"
  unfolding free_block_def find_Some_iff by (rule exI [of _ i]) (use assms in simp)

lemma free_block_None:
  "free_block table = None \<longleftrightarrow> (\<forall>e \<in> set table. OSEventAllocated e = TRUE8)"
  by (simp add: free_block_def find_None_iff all_set_conv_all_nth)

lemma free_block_init: "table \<noteq> [] \<Longrightarrow> free_block (init_table table) = Some 0"
  by (auto simp: free_block_def find_Some_iff init_table_def intro!: exI [of _ 0])

section \<open>Wait lists\<close>

definition waiters :: "'e event_block_scheme \<Rightarrow> nat set" where
  "waiters e = prios (OSEventWaitList e)"

text \<open>The counter is the number of waiting priorities.\<close>

definition wait_ok :: "'e event_block_scheme \<Rightarrow> bool" where
  "wait_ok e \<longleftrightarrow> unat (OSEventWait e) = card (waiters e)"

lemma finite_waiters [simp]: "finite (waiters e)"
  by (simp add: waiters_def)

lemma waiters_bound: "p \<in> waiters e \<Longrightarrow> p < 32"
  using prios_bound [of p "OSEventWaitList e"] by (simp add: waiters_def)

lemma card_waiters: "card (waiters e) \<le> 32"
  using card_prios_le [of "OSEventWaitList e"] by (simp add: waiters_def)

lemma wait_ok_0: "wait_ok e \<Longrightarrow> OSEventWait e = 0 \<longleftrightarrow> waiters e = {}"
  by (auto simp: wait_ok_def unat_eq_0)

text \<open>Operations on the wait list leave the rest of the control block alone.\<close>

definition same_event :: "'e event_block_scheme \<Rightarrow> 'e event_block_scheme \<Rightarrow> bool" where
  "same_event e e' \<longleftrightarrow> OSEventAllocated e' = OSEventAllocated e \<and> event_block.more e' = event_block.more e"

lemma same_event_refl [simp]: "same_event e e"
  by (simp add: same_event_def)

lemma same_event_wait [simp]:
  "same_event e (e\<lparr>OSEventWait := a, OSEventWaitList := b\<rparr>)" "same_event e (e\<lparr>OSEventWaitList := b, OSEventWait := a\<rparr>)"
  by (simp_all add: same_event_def)

lemma event_enqueue_spec:
  assumes "wait_ok e" and "unat p < 32" and "unat p \<notin> waiters e"
  obtains e' where "event_enqueue p e = Some e'" and "wait_ok e'" and "waiters e' = insert (unat p) (waiters e)"
    and "same_event e e'"
proof
  let ?e = "e\<lparr>OSEventWait := OSEventWait e + 1, OSEventWaitList := OSEventWaitList e OR PriorityMask ! unat p\<rparr>"
  show "event_enqueue p e = Some ?e" using assms(2) by (simp add: event_enqueue_def)
  show w: "waiters ?e = insert (unat p) (waiters e)"
    using assms(2) by (simp add: waiters_def prio_simps)
  have "unat (OSEventWait e + 1) = Suc (unat (OSEventWait e))"
    using card_waiters [of e] assms(1) by (simp add: wait_ok_def unat_word_ariths)
  moreover have "card (waiters ?e) = Suc (card (waiters e))" unfolding w using assms(3) by simp
  ultimately show "wait_ok ?e" using assms(1) by (simp add: wait_ok_def)
qed simp

lemma remove_waiter:
  assumes "wait_ok e" and "p \<in> waiters e"
  defines "e' \<equiv> e\<lparr>OSEventWaitList := OSEventWaitList e AND NOT (PriorityMask ! p), OSEventWait := OSEventWait e - 1\<rparr>"
  shows "wait_ok e'" and "waiters e' = waiters e - {p}"
proof -
  show w: "waiters e' = waiters e - {p}"
    using waiters_bound [OF assms(2)] by (simp add: e'_def waiters_def prios_and_not prios_PriorityMask)
  have "0 < card (waiters e)" using assms(2) by (auto simp: card_gt_0_iff)
  with assms(1) have "OSEventWait e \<noteq> 0" by (auto simp: wait_ok_def)
  then have "unat (OSEventWait e - 1) = unat (OSEventWait e) - 1" by (rule unat_minus_one)
  with assms(1,2) show "wait_ok e'" by (simp add: wait_ok_def w) (simp add: e'_def)
qed

lemma event_select_spec:
  assumes ok: "wait_ok e" and ne: "waiters e \<noteq> {}"
  obtains p e' where "event_select C e = Some (p, e')" and "unat p = Max (waiters e)" and "wait_ok e'"
    and "waiters e' = waiters e - {Max (waiters e)}"
    and "same_event e e'"
proof -
  let ?p = "SAScheduler C (OSEventWaitList e)"
  from ne have n0: "OSEventWaitList e \<noteq> 0" by (auto simp: waiters_def)
  from sched.sched_Max [OF n0, of C] have p: "unat ?p = Max (waiters e)" by (simp add: waiters_def)
  have m: "Max (waiters e) \<in> waiters e" using ne by simp
  let ?e = "e\<lparr>OSEventWaitList := OSEventWaitList e AND NOT (PriorityMask ! unat ?p), OSEventWait := OSEventWait e - 1\<rparr>"
  have "event_select C e = Some (?p, ?e)"
    using sched.sched_bound [OF n0, of C] by (simp add: event_select_def Let_def)
  moreover note remove_waiter [OF ok m, folded p]
  ultimately show ?thesis using p that [of ?p ?e] by simp
qed

lemma event_cancel_spec:
  assumes ok: "wait_ok e" and p: "unat p < 32"
  obtains e' where "event_cancel p e = Some (unat p \<in> waiters e, e')" and "wait_ok e'"
    and "waiters e' = waiters e - {unat p}"
    and "same_event e e'"
proof -
  have b: "OSEventWaitList e AND PriorityMask ! unat p \<noteq> 0 \<longleftrightarrow> unat p \<in> waiters e"
  proof -
    have "prios (OSEventWaitList e AND PriorityMask ! unat p) \<noteq> {} \<longleftrightarrow> unat p \<in> waiters e"
      using p by (auto simp: waiters_def prio_simps simp del: prios_empty_iff)
    then show ?thesis by simp
  qed
  show ?thesis
  proof (cases "unat p \<in> waiters e")
    case True
    with remove_waiter [OF ok True] that b p show ?thesis by (simp add: event_cancel_def)
  next
    case False
    with that [of e] ok b p show ?thesis by (simp add: event_cancel_def)
  qed
qed


section \<open>Interface of a wait list\<close>

locale wait_queue =
  fixes enqueue :: "uint8_t \<Rightarrow> 'e \<Rightarrow> 'e option"
    and select :: "'e \<Rightarrow> (uint8_t \<times> 'e) option"
    and cancel :: "uint8_t \<Rightarrow> 'e \<Rightarrow> (bool \<times> 'e) option"
    and members :: "'e \<Rightarrow> nat set"
    and inv :: "'e \<Rightarrow> bool"
  assumes finite_members: "finite (members e)"
    and enqueue_law: "inv e \<Longrightarrow> unat p < 32 \<Longrightarrow> unat p \<notin> members e \<Longrightarrow>
      \<exists>e'. enqueue p e = Some e' \<and> inv e' \<and> members e' = insert (unat p) (members e)"
    and select_law: "inv e \<Longrightarrow> members e \<noteq> {} \<Longrightarrow>
      \<exists>p e'. select e = Some (p, e') \<and> unat p = Max (members e) \<and> inv e' \<and>
        members e' = members e - {Max (members e)}"
    and cancel_law: "inv e \<Longrightarrow> unat p < 32 \<Longrightarrow>
      \<exists>e'. cancel p e = Some (unat p \<in> members e, e') \<and> inv e' \<and> members e' = members e - {unat p}"
begin

text \<open>A waiter that gives up leaves no trace.\<close>

lemma enqueue_cancel:
  assumes "inv e" and "unat p < 32" and "unat p \<notin> members e"
  shows "\<exists>e1 e2. enqueue p e = Some e1 \<and> cancel p e1 = Some (True, e2) \<and> inv e2 \<and> members e2 = members e"
proof -
  from enqueue_law [OF assms] obtain e1 where e1: "enqueue p e = Some e1" "inv e1"
    "members e1 = insert (unat p) (members e)" by blast
  from cancel_law [OF e1(2) assms(2)] e1(3) obtain e2 where
    "cancel p e1 = Some (True, e2)" "inv e2" "members e2 = insert (unat p) (members e) - {unat p}" by auto
  with e1(1) assms(3) show ?thesis by auto
qed

text \<open>Selecting until nobody waits: the priorities in the order in which they are selected.\<close>

fun drain :: "nat \<Rightarrow> 'e \<Rightarrow> nat list option" where
  "drain 0 e = Some []"
| "drain (Suc n) e = Option.bind (select e) (\<lambda>(p, e'). map_option ((#) (unat p)) (drain n e'))"

text \<open>Waiters leave in decreasing priority.\<close>

lemma drain_sorted:
  "inv e \<Longrightarrow> drain (card (members e)) e = Some (rev (sorted_list_of_set (members e)))"
proof (induction "card (members e)" arbitrary: e)
  case 0
  then have "members e = {}" using finite_members [of e] by simp
  then show ?case by simp
next
  case (Suc n)
  from Suc.hyps(2) have ne: "members e \<noteq> {}" by auto
  from select_law [OF Suc.prems ne] obtain p e' where
    s: "select e = Some (p, e')" "unat p = Max (members e)" "inv e'"
    and m: "members e' = members e - {Max (members e)}" by blast
  have "Max (members e) \<in> members e" using ne finite_members by simp
  with m have c: "n = card (members e')" using Suc.hyps(2) finite_members [of e] by simp
  have "sorted_list_of_set (members e) = sorted_list_of_set (members e') @ [Max (members e)]"
    unfolding m by (rule sorted_list_of_set_Max [OF finite_members ne])
  with s Suc.hyps(1) [OF c s(3)] c show ?case by (simp add: Suc.hyps(2) [symmetric])
qed

end

interpretation wl: wait_queue event_enqueue "event_select C" event_cancel waiters wait_ok for C
proof
  show "finite (waiters e)" for e :: "'a event_block_scheme" by simp
next
  fix e :: "'a event_block_scheme" and p :: uint8_t
  assume a: "wait_ok e" "unat p < 32" "unat p \<notin> waiters e"
  show "\<exists>e'. event_enqueue p e = Some e' \<and> wait_ok e' \<and> waiters e' = insert (unat p) (waiters e)"
    by (rule event_enqueue_spec [OF a]) (intro exI conjI)
next
  fix e :: "'a event_block_scheme"
  assume a: "wait_ok e" "waiters e \<noteq> {}"
  show "\<exists>p e'. event_select C e = Some (p, e') \<and> unat p = Max (waiters e) \<and> wait_ok e' \<and>
      waiters e' = waiters e - {Max (waiters e)}"
    by (rule event_select_spec [OF a]) (intro exI conjI)
next
  fix e :: "'a event_block_scheme" and p :: uint8_t
  assume a: "wait_ok e" "unat p < 32"
  show "\<exists>e'. event_cancel p e = Some (unat p \<in> waiters e, e') \<and> wait_ok e' \<and>
      waiters e' = waiters e - {unat p}"
    by (rule event_cancel_spec [OF a]) (intro exI conjI)
qed

section \<open>Suspending, waking and resuming\<close>

abbreviation wait_stamp :: "ostick_t \<Rightarrow> ostick_t \<Rightarrow> ostick_t" where
  "wait_stamp count w \<equiv> if w = 0 then NO_TIMEOUT else wake_tick count w"

lemma task_suspend_spec:
  assumes s: "sys_ok C k xs" and i: "installed C k (unat (currentTask k))"
    and p: "prio_of k (unat (currentTask k)) \<noteq> 0" and t: "unat (currentTask k) \<notin> set xs"
  obtains k' where "task_suspend C kind w k = Some k'"
    and "sys_ok C k' (if w = 0 then xs else xs @ [unat (currentTask k)])"
    and "slept k k' (unat (currentTask k)) (wait_stamp (OSTickCounter k) w)"
    and "currentTask k' = currentTask k"
proof -
  let ?t = "unat (currentTask k)"
  note d = sys_okD [OF s]
  have p32: "prio_of k ?t < 32" by (rule installed_prio(1) [OF d(1) i])
  from set_suspended_spec [OF d(7), of C kind] obtain ct where
    ct: "set_suspended C ?t kind k = Some (k\<lparr>ContextTask := ct\<rparr>)" "length ct = length (ContextTask k)"
    "\<forall>j. Priority (ct ! j) = Priority (tcb k j) \<and> TimeToWait (ct ! j) = TimeToWait (tcb k j) \<and>
      Next (ct ! j) = Next (tcb k j) \<and> Previous (ct ! j) = Previous (tcb k j)" .
  let ?k = "k\<lparr>ContextTask := ct, OSReadyList := OSReadyList k AND NOT (PriorityMask ! prio_of k ?t)\<rparr>"
  have e: "task_suspend C kind w k =
      (if w \<noteq> 0 then delay_until ?t w ?k
       else Some (?k\<lparr>ContextTask := ct[?t := (ct ! ?t)\<lparr>TimeToWait := NO_TIMEOUT\<rparr>]\<rparr>))"
    using d(7) p32 ct(1,2) by (simp add: task_suspend_def Let_def)
  have b: "?t < length (ContextTask ?k)" using d(7) ct(2) by simp
  have f: "frame k ?k" using ct by (simp add: frame_def)
  have dl: "delay_list ?k xs" using d(2) ct by (subst delay_list_cong [of _ k]) auto
  have r: "prios (OSReadyList ?k) = prios (OSReadyList k) - {prio_of k ?t}"
    using p32 by (simp add: prios_and_not prios_PriorityMask)
  show ?thesis
  proof (cases "w = 0")
    case True
    let ?k' = "?k\<lparr>ContextTask := ct[?t := (ct ! ?t)\<lparr>TimeToWait := NO_TIMEOUT\<rparr>]\<rparr>"
    have sl: "slept k ?k' ?t NO_TIMEOUT"
      unfolding slept_def frame_def using b ct r by (simp add: nth_list_update_if)
    have "delay_list ?k' xs" using dl b by (subst delay_list_cong [of _ ?k]) (auto simp: nth_list_update_if)
    from slept_sys_ok [OF s sl i p this] have "sys_ok C ?k' xs" by auto
    with that [of ?k'] sl True e show ?thesis by simp
  next
    case False
    from delay_until_spec [OF dl t b, of w] obtain k' where
      k': "delay_until ?t w ?k = Some k'" "delay_list k' (xs @ [?t])" and f': "frame ?k k'"
      and tw: "\<forall>i. TimeToWait (tcb k' i) = (if i = ?t then wake_tick (OSTickCounter ?k) w else TimeToWait (tcb ?k i))"
      and r': "OSReadyList k' = OSReadyList ?k" "currentTask k' = currentTask ?k" .
    have sl: "slept k k' ?t (wake_tick (OSTickCounter k) w)"
      unfolding slept_def using frame_trans [OF f f'] tw ct r r' by simp
    from slept_sys_ok [OF s sl i p k'(2)] r' have "sys_ok C k' (xs @ [?t])" by auto
    with that [of k'] sl False e k'(1) r' show ?thesis by simp
  qed
qed


lemma pend_suspend_spec:
  assumes s: "sys_ok C k xs" and i: "installed C k (unat (currentTask k))"
    and p: "prio_of k (unat (currentTask k)) \<noteq> 0" and t: "unat (currentTask k) \<notin> set xs"
    and e: "wait_ok e" "prio_of k (unat (currentTask k)) \<notin> waiters e"
  obtains e' k' where "pend_suspend C kind w e k = Some (Priority (tcb k (unat (currentTask k))), e', k')"
    and "sys_ok C k' (if w = 0 then xs else xs @ [unat (currentTask k)])"
    and "slept k k' (unat (currentTask k)) (wait_stamp (OSTickCounter k) w)"
    and "wait_ok e'" and "waiters e' = insert (prio_of k (unat (currentTask k))) (waiters e)"
    and "same_event e e'" and "currentTask k' = currentTask k"
proof -
  let ?t = "unat (currentTask k)"
  have p32: "prio_of k ?t < 32" by (rule installed_prio(1) [OF sys_okD(1) [OF s] i])
  from event_enqueue_spec [OF e(1) p32 e(2)] obtain e' where e': "event_enqueue (Priority (tcb k ?t)) e = Some e'"
    "wait_ok e'" "waiters e' = insert (prio_of k ?t) (waiters e)" "same_event e e'" .
  from task_suspend_spec [OF s i p t, of kind w] obtain k' where k': "task_suspend C kind w k = Some k'"
    "sys_ok C k' (if w = 0 then xs else xs @ [?t])" "slept k k' ?t (wait_stamp (OSTickCounter k) w)"
    "currentTask k' = currentTask k" .
  have "pend_suspend C kind w e k = Some (Priority (tcb k ?t), e', k')"
    using e'(1) k'(1) sys_okD(7) [OF s] by (simp add: pend_suspend_def)
  then show ?thesis using that e' k' by blast
qed

text \<open>The effect of waking the task of a priority by a post.\<close>

definition readied :: "kernel \<Rightarrow> kernel \<Rightarrow> nat \<Rightarrow> bool" where
  "readied k k' p \<longleftrightarrow> frame k k' \<and> (\<forall>i. TimeToWait (tcb k' i) = TimeToWait (tcb k i)) \<and>
     prios (OSReadyList k') = insert p (prios (OSReadyList k))"

lemma readiedD:
  assumes "readied k k' p"
  shows "frame k k'" and "TimeToWait (tcb k' i) = TimeToWait (tcb k i)"
    and "prios (OSReadyList k') = insert p (prios (OSReadyList k))"
  using assms by (auto simp: readied_def)

lemma readied_same_kernel: "readied a b p \<Longrightarrow> same_kernel b c \<Longrightarrow> readied a c p"
  by (simp add: readied_def frame_def same_kernel_simps)

lemma wake_priority_spec:
  assumes s: "sys_ok C k xs" and i: "installed C k t" and p: "prio_of k t = unat p"
  obtains k' where "wake_priority C p k = Some k'" and "readied k k' (unat p)" and "sys_ok C k' xs"
    and "currentTask k' = currentTask k"
proof -
  note d = sys_okD [OF s]
  have p32: "unat p < 32" using installed_prio(1) [OF d(1) i] p by simp
  have tv: "unat (PriorityVector k ! unat p) = t" using installed_prio(2) [OF d(1) i] p by simp
  have tb: "t < length (ContextTask k)" by (rule installed_index [OF d(1) i])
  let ?ct = "if VERBOSE C then (ContextTask k)[t := (tcb k t)\<lparr>State := READY\<rparr>] else ContextTask k"
  let ?k = "k\<lparr>ContextTask := ?ct, OSReadyList := OSReadyList k OR PriorityMask ! unat p\<rparr>"
  have e: "wake_priority C p k = Some ?k"
    using p32 tv tb length_PriorityVector [OF d(8)] by (simp add: wake_priority_def)
  have r: "readied k ?k (unat p)"
    unfolding readied_def frame_def using p32 tb by (auto simp: nth_list_update_if prio_simps)
  have dl: "delay_list ?k xs"
    using d(2) tb by (subst delay_list_cong [of _ k]) (auto simp: nth_list_update_if)
  have ok: "kernel_ok C ?k"
    by (rule frame_ok [OF d(1) readiedD(1) [OF r]]) (use i p p32 in \<open>auto simp: prio_simps\<close>)
  have run: "0 \<in> runnable ?k"
    using d(5) readiedD(3) [OF r] by (simp add: runnable_def)
  have "sys_ok C ?k xs"
    by (rule sys_okI_frame [OF s readiedD(1) [OF r] ok dl d(3) run]) (use d(7) in simp_all)
  with e r that show ?thesis by simp
qed

text \<open>
  A post wakes the waiter of the highest priority, provided every waiting priority belongs to
  an installed task.
\<close>

definition waiters_installed :: "config \<Rightarrow> kernel \<Rightarrow> 'e event_block_scheme \<Rightarrow> bool" where
  "waiters_installed C k e \<longleftrightarrow> (\<forall>p \<in> waiters e. \<exists>t. installed C k t \<and> prio_of k t = p)"

lemma waiters_installed_frame:
  "frame k k' \<Longrightarrow> waiters e' \<subseteq> waiters e \<Longrightarrow> waiters_installed C k e \<Longrightarrow> waiters_installed C k' e'"
  unfolding waiters_installed_def by (auto simp: frame_installed frameD)

lemma post_wake_spec:
  assumes s: "sys_ok C k xs" and e: "wait_ok e" "waiters e \<noteq> {}" "waiters_installed C k e"
  obtains p e' k' where "post_wake C e k = Some (p, e', k')" and "unat p = Max (waiters e)"
    and "wait_ok e'" and "waiters e' = waiters e - {Max (waiters e)}" and "same_event e e'"
    and "readied k k' (Max (waiters e))" and "sys_ok C k' xs" and "currentTask k' = currentTask k"
proof -
  from event_select_spec [OF e(1,2), of C] obtain p e' where
    s1: "event_select C e = Some (p, e')" and p: "unat p = Max (waiters e)"
    and e': "wait_ok e'" "waiters e' = waiters e - {Max (waiters e)}" "same_event e e'" .
  have "Max (waiters e) \<in> waiters e" using e(2) by simp
  with e(3) p obtain t where t: "installed C k t" "prio_of k t = unat p"
    by (auto simp: waiters_installed_def)
  from wake_priority_spec [OF s t] obtain k' where
    k': "wake_priority C p k = Some k'" "readied k k' (unat p)" "sys_ok C k' xs" "currentTask k' = currentTask k" .
  have "post_wake C e k = Some (p, e', k')" using s1 k'(1) by (simp add: post_wake_def)
  with that p e' k' show ?thesis by metis
qed


text \<open>
  Waking a waiter and, outside of an interrupt, switching to the highest runnable task: what
  the post functions of the semaphore, the mailbox and the queues do when somebody waits.
\<close>

lemma post_switch_spec:
  assumes s: "sys_ok C k xs" and e: "wait_ok e" "waiters e \<noteq> {}" "waiters_installed C k e"
  obtains p e' k1 k' where "post_wake C e k = Some (p, e', k1)"
    and "(if iNesting k1 = 0 then ChangeContext C k1 else Some k1) = Some k'"
    and "wait_ok e'" and "waiters e' = waiters e - {Max (waiters e)}" and "same_event e e'"
    and "waiters_installed C k' e'" and "readied k k' (Max (waiters e))" and "sys_ok C k' xs"
    and "iNesting k = 0 \<longrightarrow> runs_highest C k'" and "OSEventWait e \<noteq> 0"
proof -
  from post_wake_spec [OF s e] obtain p e' k1 where
    k1: "post_wake C e k = Some (p, e', k1)"
    and e': "wait_ok e'" "waiters e' = waiters e - {Max (waiters e)}" "same_event e e'"
    and r: "readied k k1 (Max (waiters e))" and s1: "sys_ok C k1 xs" .
  note n1 = frameD(7) [OF readiedD(1) [OF r]]
  from sys_ok_ChangeContext [OF s1] obtain k2 where
    k2: "ChangeContext C k1 = Some k2" "same_kernel k1 k2" "sys_ok C k2 xs" "iNesting k1 = 0 \<longrightarrow> runs_highest C k2" .
  obtain k' where k': "(if iNesting k1 = 0 then ChangeContext C k1 else Some k1) = Some k'"
    "sys_ok C k' xs" "readied k k' (Max (waiters e))" "iNesting k = 0 \<longrightarrow> runs_highest C k'"
    using k2 s1 r readied_same_kernel [OF r k2(2)] n1 by (cases "iNesting k1 = 0") auto
  have "waiters_installed C k' e'"
    by (rule waiters_installed_frame [OF readiedD(1) [OF k'(3)] _ e(3)]) (use e'(2) in auto)
  moreover have "OSEventWait e \<noteq> 0" using wait_ok_0 [OF e(1)] e(2) by simp
  ultimately show ?thesis using that k1 k' e' by blast
qed

text \<open>
  Suspending the caller and switching to the highest runnable task: what every pend function
  does when it blocks.
\<close>

lemma pend_switch_spec:
  assumes s: "sys_ok C k xs" and n: "iNesting k = 0" and i: "installed C k (unat (currentTask k))"
    and p: "prio_of k (unat (currentTask k)) \<noteq> 0" and t: "unat (currentTask k) \<notin> set xs"
    and e: "wait_ok e" "waiters_installed C k e" "prio_of k (unat (currentTask k)) \<notin> waiters e"
  obtains e' k1 k' where "pend_suspend C kind w e k = Some (Priority (tcb k (unat (currentTask k))), e', k1)"
    and "ChangeContext C k1 = Some k'"
    and "sys_ok C k' (if w = 0 then xs else xs @ [unat (currentTask k)])"
    and "slept k k' (unat (currentTask k)) (wait_stamp (OSTickCounter k) w)" and "runs_highest C k'"
    and "wait_ok e'" and "waiters e' = insert (prio_of k (unat (currentTask k))) (waiters e)"
    and "waiters_installed C k' e'" and "same_event e e'"
proof -
  let ?t = "unat (currentTask k)"
  from pend_suspend_spec [OF s i p t e(1,3), of kind w] obtain e' k1 where
    k1: "pend_suspend C kind w e k = Some (Priority (tcb k ?t), e', k1)"
    and s1: "sys_ok C k1 (if w = 0 then xs else xs @ [?t])"
    and sl: "slept k k1 ?t (wait_stamp (OSTickCounter k) w)"
    and e': "wait_ok e'" "waiters e' = insert (prio_of k ?t) (waiters e)" "same_event e e'" .
  from sys_ok_ChangeContext [OF s1] obtain k' where
    k': "ChangeContext C k1 = Some k'" "same_kernel k1 k'" "sys_ok C k' (if w = 0 then xs else xs @ [?t])"
    "iNesting k1 = 0 \<longrightarrow> runs_highest C k'" .
  have sl': "slept k k' ?t (wait_stamp (OSTickCounter k) w)" by (rule slept_same_kernel [OF sl k'(2)])
  have "waiters_installed C k e'" using e(2) i e'(2) by (auto simp: waiters_installed_def)
  then have wi: "waiters_installed C k' e'" by (rule waiters_installed_frame [OF sleptD(1) [OF sl'] order_refl])
  have "runs_highest C k'" using k'(4) n by (simp add: frameD [OF sleptD(1) [OF sl]])
  with that [OF k1 k'(1,3) sl' _ e'(1,2) wi e'(3)] show ?thesis .
qed

text \<open>
  A waiter that runs again: after a time-out the decision rests on the wait list, and after a
  post the task leaves the delay list.
\<close>

lemma pend_resume_timeout:
  assumes "wait_ok e" and "unat p < 32" and "t < length (ContextTask k)"
    and "TimeToWait (tcb k t) = EXIT_BY_TIMEOUT"
  obtains e' where "pend_resume t p e k = Some (unat p \<in> waiters e, e', k)" and "wait_ok e'"
    and "waiters e' = waiters e - {unat p}" and "same_event e e'"
proof -
  from event_cancel_spec [OF assms(1,2)] obtain e' where
    "event_cancel p e = Some (unat p \<in> waiters e, e')" "wait_ok e'"
    "waiters e' = waiters e - {unat p}" "same_event e e'" .
  with that assms(3,4) show ?thesis by (simp add: pend_resume_def)
qed

lemma pend_resume_posted:
  assumes s: "sys_ok C k xs" and t: "t \<in> set xs" and n: "TimeToWait (tcb k t) \<noteq> EXIT_BY_TIMEOUT"
  obtains k' where "pend_resume t p e k = Some (False, e, k')" and "sys_ok C k' (remove1 t xs)"
    and "frame k k'" and "OSReadyList k' = OSReadyList k" and "currentTask k' = currentTask k"
    and "TimeToWait (tcb k' t) = NO_TIMEOUT" and "\<forall>i. i \<noteq> t \<longrightarrow> TimeToWait (tcb k' i) = TimeToWait (tcb k i)"
proof -
  note d = sys_okD [OF s]
  have b: "t < length (ContextTask k)" by (rule delay_list_bound [OF d(2) t])
  let ?k = "k\<lparr>ContextTask := (ContextTask k)[t := (tcb k t)\<lparr>TimeToWait := NO_TIMEOUT\<rparr>]\<rparr>"
  have dl: "delay_list ?k xs"
    using d(2) b by (subst delay_list_cong [of _ k]) (auto simp: nth_list_update_if)
  from Remove_list [OF dl t] obtain k' where
    k': "RemoveFromDelayList t ?k = Some k'" "delay_list k' (remove1 t xs)" .
  note sb = Remove_same [OF k'(1)]
  have "frame k ?k" using b by (simp add: frame_def nth_list_update_if)
  then have f: "frame k k'" using same_but_links_frame [OF sb] by (rule frame_trans)
  have r: "OSReadyList k' = OSReadyList k" "currentTask k' = currentTask k"
    "TimeToWait (tcb k' t) = NO_TIMEOUT" "OSBlockedList k' = OSBlockedList k"
    using sb b by (simp_all add: same_but_links_simps)
  have o: "\<forall>i. i \<noteq> t \<longrightarrow> TimeToWait (tcb k' i) = TimeToWait (tcb k i)"
    using sb b by (simp add: same_but_links_simps)
  have ok: "kernel_ok C k'" by (rule frame_ok [OF d(1) f]) (simp add: r)
  have "sys_ok C k' (remove1 t xs)"
    using d(5,7) by (intro sys_okI_frame [OF s f ok k'(2)])
      (auto simp: r runnable_def frameD [OF f] dest!: set_remove1_subset [THEN subsetD] intro: d(3))
  moreover have "pend_resume t p e k = Some (False, e, k')"
    using b n k'(1) by (simp add: pend_resume_def)
  ultimately show ?thesis using that f r o by blast
qed

end
