(* ===== verification/Semaphore.thy ===== *)
theory Semaphore
  imports Events
begin

text \<open>
  \<^verbatim>\<open>src/brtos/semaphore.c\<close>: counting and binary semaphores. The table
  \<^verbatim>\<open>BRTOS_Sem_Table\<close> is a list, a \<^verbatim>\<open>BRTOS_Sem *\<close> an index into it. A pend that blocks is
  split at \<^verbatim>\<open>ChangeContext\<close>: \<open>OSSemPend\<close> ends there with the outcome \<open>Suspend\<close>,
  and \<open>OSSemPend_resume\<close> is the rest of the function, which runs when the task is scheduled
  again.
\<close>

section \<open>The operations\<close>

record BRTOS_Sem = event_block +
  OSEventCount :: uint8_t
  Binary :: uint8_t

definition OSSemCreate :: "config \<Rightarrow> uint8_t \<Rightarrow> ptr \<Rightarrow> kernel \<Rightarrow> BRTOS_Sem list \<Rightarrow>
    uint8_t \<times> ptr \<times> BRTOS_Sem list" where
  "OSSemCreate C cnt event k BRTOS_Sem_Table =
    (if iNesting k > 0 then (IRQ_PEND_ERR, event, BRTOS_Sem_Table)
     else case free_block BRTOS_Sem_Table of
       None \<Rightarrow> (NO_AVAILABLE_EVENT, event, BRTOS_Sem_Table)
     | Some i \<Rightarrow>
        let e = (BRTOS_Sem_Table ! i)\<lparr>OSEventAllocated := TRUE8, OSEventCount := cnt, OSEventWait := 0\<rparr>;
            e = (if BRTOS_BINARY_SEM_EN C then e\<lparr>Binary := FALSE8\<rparr> else e);
            e = e\<lparr>OSEventWaitList := 0\<rparr>
        in (ALLOC_EVENT_OK, Some i, BRTOS_Sem_Table[i := e]))"

definition OSSemBinaryCreate :: "uint8_t \<Rightarrow> ptr \<Rightarrow> kernel \<Rightarrow> BRTOS_Sem list \<Rightarrow>
    uint8_t \<times> ptr \<times> BRTOS_Sem list" where
  "OSSemBinaryCreate bit_val event k BRTOS_Sem_Table =
    (if iNesting k > 0 then (IRQ_PEND_ERR, event, BRTOS_Sem_Table)
     else case free_block BRTOS_Sem_Table of
       None \<Rightarrow> (NO_AVAILABLE_EVENT, event, BRTOS_Sem_Table)
     | Some i \<Rightarrow>
        let e = (BRTOS_Sem_Table ! i)\<lparr>OSEventAllocated := TRUE8\<rparr>;
            e = (if bit_val > 1 then e\<lparr>OSEventCount := TRUE8\<rparr> else e\<lparr>OSEventCount := FALSE8\<rparr>);
            e = e\<lparr>OSEventWait := 0, Binary := TRUE8, OSEventWaitList := 0\<rparr>
        in (ALLOC_EVENT_OK, Some i, BRTOS_Sem_Table[i := e]))"

definition OSSemDelete :: "ptr \<Rightarrow> kernel \<Rightarrow> BRTOS_Sem list \<Rightarrow> (uint8_t \<times> ptr \<times> BRTOS_Sem list) option" where
  "OSSemDelete event k BRTOS_Sem_Table =
    (if iNesting k > 0 then Some (IRQ_PEND_ERR, event, BRTOS_Sem_Table)
     else do {
       i \<leftarrow> event;
       tbl \<leftarrow> upd BRTOS_Sem_Table i
         (\<lambda>e. e\<lparr>OSEventAllocated := 0, OSEventCount := 0, OSEventWait := 0, OSEventWaitList := 0\<rparr>);
       Some (DELETE_EVENT_OK, None, tbl) })"

definition OSSemPend :: "config \<Rightarrow> ptr \<Rightarrow> ostick_t \<Rightarrow> kernel \<Rightarrow> BRTOS_Sem list \<Rightarrow>
    (kernel \<times> BRTOS_Sem list) outcome option" where
  "OSSemPend C pont_event time_wait k BRTOS_Sem_Table =
    (if ERROR_CHECK C \<and> iNesting k > 0 then Some (Return IRQ_PEND_ERR (k, BRTOS_Sem_Table))
     else if ERROR_CHECK C \<and> pont_event = None then Some (Return NULL_EVENT_POINTER (k, BRTOS_Sem_Table))
     else do {
       i \<leftarrow> pont_event;
       e \<leftarrow> rd BRTOS_Sem_Table i;
       if ERROR_CHECK C \<and> OSEventAllocated e \<noteq> TRUE8
       then Some (Return ERR_EVENT_NO_CREATED (k, BRTOS_Sem_Table))
       else if OSEventCount e > 0
       then Some (Return OK (k, BRTOS_Sem_Table[i := e\<lparr>OSEventCount := OSEventCount e - 1\<rparr>]))
       else if time_wait = NO_TIMEOUT
       then Some (Return EXIT_BY_NO_ENTRY_AVAILABLE (k, BRTOS_Sem_Table))
       else do {
         (iPriority, e, k) \<leftarrow> pend_suspend C SEMAPHORE time_wait e k;
         k \<leftarrow> ChangeContext C k;
         Some (Suspend iPriority (k, BRTOS_Sem_Table[i := e])) } })"

definition OSSemPend_resume :: "ptr \<Rightarrow> ostick_t \<Rightarrow> nat \<Rightarrow> uint8_t \<Rightarrow> kernel \<Rightarrow> BRTOS_Sem list \<Rightarrow>
    (uint8_t \<times> kernel \<times> BRTOS_Sem list) option" where
  "OSSemPend_resume pont_event time_wait Task iPriority k BRTOS_Sem_Table =
    (if time_wait \<noteq> 0 then do {
       i \<leftarrow> pont_event;
       e \<leftarrow> rd BRTOS_Sem_Table i;
       (expired, e, k) \<leftarrow> pend_resume Task iPriority e k;
       Some (if expired then TIMEOUT else OK, k, BRTOS_Sem_Table[i := e]) }
     else Some (OK, k, BRTOS_Sem_Table))"

text \<open>The end of the post function, when nobody waits.\<close>

definition sem_give :: "config \<Rightarrow> BRTOS_Sem \<Rightarrow> uint8_t \<times> BRTOS_Sem" where
  "sem_give C e =
    (if OSEventCount e < 255
     then (OK, if BRTOS_BINARY_SEM_EN C
               then if Binary e = FALSE8 then e\<lparr>OSEventCount := OSEventCount e + 1\<rparr>
                    else e\<lparr>OSEventCount := TRUE8\<rparr>
               else e\<lparr>OSEventCount := OSEventCount e + 1\<rparr>)
     else (ERR_SEM_OVF, e))"

definition OSSemPost :: "config \<Rightarrow> ptr \<Rightarrow> kernel \<Rightarrow> BRTOS_Sem list \<Rightarrow>
    (uint8_t \<times> kernel \<times> BRTOS_Sem list) option" where
  "OSSemPost C pont_event k BRTOS_Sem_Table =
    (if ERROR_CHECK C \<and> pont_event = None then Some (NULL_EVENT_POINTER, k, BRTOS_Sem_Table)
     else do {
       i \<leftarrow> pont_event;
       e \<leftarrow> rd BRTOS_Sem_Table i;
       if ERROR_CHECK C \<and> OSEventAllocated e \<noteq> TRUE8
       then Some (ERR_EVENT_NO_CREATED, k, BRTOS_Sem_Table)
       else if OSEventWait e \<noteq> 0
       then do {
         (_, e, k) \<leftarrow> post_wake C e k;
         k \<leftarrow> (if iNesting k = 0 then ChangeContext C k else Some k);
         Some (OK, k, BRTOS_Sem_Table[i := e]) }
       else
         let (r, e) = sem_give C e in Some (r, k, BRTOS_Sem_Table[i := e]) })"

section \<open>Invariant\<close>

text \<open>
  The counter of waiters is right, every waiter is an installed task, tokens are only
  stored while nobody waits, and a binary semaphore holds at most one token.
\<close>

definition sem_inv :: "config \<Rightarrow> kernel \<Rightarrow> BRTOS_Sem \<Rightarrow> bool" where
  "sem_inv C k e \<longleftrightarrow> wait_ok e \<and> waiters_installed C k e \<and>
     (OSEventCount e \<noteq> 0 \<longrightarrow> waiters e = {}) \<and>
     (BRTOS_BINARY_SEM_EN C \<longrightarrow> Binary e = TRUE8 \<longrightarrow> OSEventCount e \<le> 1)"

lemma same_event_sem:
  fixes e e' :: BRTOS_Sem
  assumes "same_event e e'"
  shows "OSEventCount e' = OSEventCount e" and "Binary e' = Binary e" and "OSEventAllocated e' = OSEventAllocated e"
  using assms by (cases e; cases e'; simp add: same_event_def)+

lemma sem_invD:
  assumes "sem_inv C k e"
  shows "wait_ok e" and "waiters_installed C k e" and "OSEventCount e \<noteq> 0 \<Longrightarrow> waiters e = {}"
    and "BRTOS_BINARY_SEM_EN C \<Longrightarrow> Binary e = TRUE8 \<Longrightarrow> OSEventCount e \<le> 1"
  using assms by (auto simp: sem_inv_def)

lemma sem_inv_frame: "frame k k' \<Longrightarrow> sem_inv C k e \<Longrightarrow> sem_inv C k' e"
  using waiters_installed_frame [of k k' e e C] by (simp add: sem_inv_def)

text \<open>Losing a waiter, without a change of the count, keeps the invariant.\<close>

lemma sem_inv_prio: "\<forall>i. Priority (tcb k' i) = Priority (tcb k i) \<Longrightarrow> sem_inv C k e \<Longrightarrow> sem_inv C k' e"
  by (simp add: sem_inv_def waiters_installed_def installed_def)

lemma sem_inv_less:
  assumes "sem_inv C k e" and "frame k k'" and "wait_ok e'" and "waiters e' \<subseteq> waiters e" and "same_event e e'"
  shows "sem_inv C k' e'"
  using assms waiters_installed_frame [OF assms(2,4)] by (auto simp: sem_inv_def same_event_sem)

section \<open>Creation and deletion\<close>

lemma OSSemCreate_spec:
  assumes "iNesting k = 0" and "free_block tbl = Some i"
  obtains e where "OSSemCreate C cnt event k tbl = (ALLOC_EVENT_OK, Some i, tbl[i := e])"
    and "sem_inv C k' e" and "OSEventCount e = cnt" and "OSEventAllocated e = TRUE8"
    and "waiters e = {}"
  using assms by (auto simp: OSSemCreate_def Let_def sem_inv_def wait_ok_def waiters_def
      waiters_installed_def)

lemma OSSemBinaryCreate_spec:
  assumes "iNesting k = 0" and "free_block tbl = Some i"
  obtains e where "OSSemBinaryCreate b event k tbl = (ALLOC_EVENT_OK, Some i, tbl[i := e])"
    and "sem_inv C k' e" and "OSEventCount e = (if b > 1 then 1 else 0)" and "Binary e = TRUE8"
    and "OSEventAllocated e = TRUE8"
  using assms by (auto simp: OSSemBinaryCreate_def Let_def sem_inv_def wait_ok_def waiters_def
      waiters_installed_def split: if_splits)

lemma OSSemCreate_Delete:
  assumes "iNesting k = 0" and "free_block tbl = Some i"
  shows "\<exists>tbl1 tbl2. OSSemCreate C cnt event k tbl = (ALLOC_EVENT_OK, Some i, tbl1) \<and>
     OSSemDelete (Some i) k tbl1 = Some (DELETE_EVENT_OK, None, tbl2) \<and> free_block tbl2 = Some i \<and>
     length tbl2 = length tbl \<and> (\<forall>j. j \<noteq> i \<longrightarrow> tbl2 ! j = tbl ! j)"
proof -
  note f = free_block_Some [OF assms(2)]
  obtain e where c: "OSSemCreate C cnt event k tbl = (ALLOC_EVENT_OK, Some i, tbl[i := e])"
    using OSSemCreate_spec [OF assms] by metis
  let ?e = "e\<lparr>OSEventAllocated := 0, OSEventCount := 0, OSEventWait := 0, OSEventWaitList := 0\<rparr>"
  have "OSSemDelete (Some i) k (tbl[i := e]) = Some (DELETE_EVENT_OK, None, tbl[i := ?e])"
    using assms(1) f(1) by (simp add: OSSemDelete_def)
  moreover have "free_block (tbl[i := ?e]) = Some i"
    using f by (intro free_blockI) (simp_all add: nth_list_update_if)
  ultimately show ?thesis using c by auto
qed


section \<open>Pend and post\<close>

text \<open>A pointer to an allocated semaphore of the table.\<close>

definition sem_at :: "BRTOS_Sem list \<Rightarrow> nat \<Rightarrow> BRTOS_Sem \<Rightarrow> bool" where
  "sem_at tbl i e \<longleftrightarrow> i < length tbl \<and> tbl ! i = e \<and> OSEventAllocated e = TRUE8"

lemma OSSemPend_take:
  assumes "sem_at tbl i e" and "OSEventCount e > 0" and "iNesting k = 0"
  shows "OSSemPend C (Some i) w k tbl =
    Some (Return OK (k, tbl[i := e\<lparr>OSEventCount := OSEventCount e - 1\<rparr>]))"
  using assms by (simp add: OSSemPend_def sem_at_def)

lemma OSSemPend_no_wait:
  assumes "sem_at tbl i e" and "OSEventCount e = 0" and "iNesting k = 0"
  shows "OSSemPend C (Some i) NO_TIMEOUT k tbl = Some (Return EXIT_BY_NO_ENTRY_AVAILABLE (k, tbl))"
  using assms by (simp add: OSSemPend_def sem_at_def)

lemma sem_inv_take:
  assumes "sem_inv C k e" and "OSEventCount e > 0"
  shows "sem_inv C k (e\<lparr>OSEventCount := OSEventCount e - 1\<rparr>)"
proof -
  from assms(2) have n: "OSEventCount e \<noteq> 0" by (simp add: word_gt_0)
  then have "OSEventCount e - 1 < OSEventCount e" by (simp add: word_less_nat_alt unat_minus_one unat_gt_0)
  with assms n show ?thesis
    by (auto simp: sem_inv_def wait_ok_def waiters_def waiters_installed_def dest!: less_imp_le
        intro: order_trans)
qed

lemma OSSemPend_block:
  assumes s: "sys_ok C k xs" and n: "iNesting k = 0" and i: "installed C k (unat (currentTask k))"
    and p: "prio_of k (unat (currentTask k)) \<noteq> 0" and t: "unat (currentTask k) \<notin> set xs"
    and e: "sem_at tbl j e" "sem_inv C k e" "prio_of k (unat (currentTask k)) \<notin> waiters e"
    and c: "OSEventCount e = 0" and w: "w \<noteq> NO_TIMEOUT"
  obtains k' e' where
    "OSSemPend C (Some j) w k tbl = Some (Suspend (Priority (tcb k (unat (currentTask k)))) (k', tbl[j := e']))"
    and "sys_ok C k' (if w = 0 then xs else xs @ [unat (currentTask k)])"
    and "slept k k' (unat (currentTask k)) (wait_stamp (OSTickCounter k) w)"
    and "sem_inv C k' e'" and "waiters e' = insert (prio_of k (unat (currentTask k))) (waiters e)"
    and "OSEventCount e' = 0" and "OSEventAllocated e' = TRUE8" and "runs_highest C k'" and "Binary e' = Binary e"
proof -
  let ?t = "unat (currentTask k)"
  from pend_switch_spec [OF s n i p t sem_invD(1,2) [OF e(2)] e(3), of SEMAPHORE w] obtain e' k1 k' where
    k1: "pend_suspend C SEMAPHORE w e k = Some (Priority (tcb k ?t), e', k1)" "ChangeContext C k1 = Some k'"
    and k': "sys_ok C k' (if w = 0 then xs else xs @ [?t])" "slept k k' ?t (wait_stamp (OSTickCounter k) w)"
      "runs_highest C k'"
    and e': "wait_ok e'" "waiters e' = insert (prio_of k ?t) (waiters e)" "waiters_installed C k' e'" "same_event e e'" .
  have "sem_inv C k' e'" using e' c e(2) by (auto simp: sem_inv_def same_event_sem)
  moreover have "OSSemPend C (Some j) w k tbl = Some (Suspend (Priority (tcb k ?t)) (k', tbl[j := e']))"
    using e(1) c w n k1 by (simp add: OSSemPend_def sem_at_def)
  ultimately show ?thesis using that k' e' c e(1) by (simp add: same_event_sem sem_at_def)
qed

lemma OSSemPend_block_timed:
  assumes "sys_ok C k xs" and "iNesting k = 0" and "installed C k (unat (currentTask k))"
    and "prio_of k (unat (currentTask k)) \<noteq> 0" and "unat (currentTask k) \<notin> set xs"
    and "sem_at tbl j e" "sem_inv C k e" "prio_of k (unat (currentTask k)) \<notin> waiters e"
    and "OSEventCount e = 0" and w: "0 < w" "w \<le> TICK_COUNT_OVERFLOW"
  obtains k' e' where
    "OSSemPend C (Some j) w k tbl = Some (Suspend (Priority (tcb k (unat (currentTask k)))) (k', tbl[j := e']))"
    and "sys_ok C k' (xs @ [unat (currentTask k)])"
    and "slept k k' (unat (currentTask k)) (wake_tick (OSTickCounter k) w)"
    and "sem_inv C k' e'" and "waiters e' = insert (prio_of k (unat (currentTask k))) (waiters e)"
    and "OSEventCount e' = 0" and "OSEventAllocated e' = TRUE8"
proof -
  have wn: "w \<noteq> NO_TIMEOUT" "w \<noteq> 0" using w by auto
  show ?thesis by (rule OSSemPend_block [OF assms(1-9) wn(1)]) (rule that, use wn in simp_all)
qed

lemma OSSemPost_wake:
  assumes s: "sys_ok C k xs" and e: "sem_at tbl i e" "sem_inv C k e" and w: "waiters e \<noteq> {}"
  obtains k' e' where "OSSemPost C (Some i) k tbl = Some (OK, k', tbl[i := e'])"
    and "sys_ok C k' xs" and "readied k k' (Max (waiters e))" and "sem_inv C k' e'"
    and "waiters e' = waiters e - {Max (waiters e)}" and "OSEventCount e' = OSEventCount e"
    and "OSEventAllocated e' = TRUE8" and "iNesting k = 0 \<longrightarrow> runs_highest C k'" and "Binary e' = Binary e"
proof -
  from post_switch_spec [OF s sem_invD(1) [OF e(2)] w sem_invD(2) [OF e(2)]] obtain p e' k1 k' where
    k1: "post_wake C e k = Some (p, e', k1)"
    and k': "(if iNesting k1 = 0 then ChangeContext C k1 else Some k1) = Some k'"
    and e': "wait_ok e'" "waiters e' = waiters e - {Max (waiters e)}" "same_event e e'"
    and r: "readied k k' (Max (waiters e))" and s': "sys_ok C k' xs"
    and hi: "iNesting k = 0 \<longrightarrow> runs_highest C k'" and nz: "OSEventWait e \<noteq> 0" .
  have "sem_inv C k' e'"
    by (rule sem_inv_less [OF e(2) readiedD(1) [OF r] e'(1) _ e'(3)]) (use e'(2) in auto)
  moreover have "OSSemPost C (Some i) k tbl = Some (OK, k', tbl[i := e'])"
    using e(1) nz k1 k' by (simp add: OSSemPost_def sem_at_def)
  ultimately show ?thesis using that s' r hi e' e(1) by (simp add: same_event_sem sem_at_def)
qed

lemma OSSemPost_store:
  assumes e: "sem_at tbl i e" "sem_inv C k e" and w: "waiters e = {}"
  shows "OSSemPost C (Some i) k tbl = Some (fst (sem_give C e), k, tbl[i := snd (sem_give C e)])"
    and "sem_inv C k (snd (sem_give C e))"
proof -
  have "OSEventWait e = 0" using wait_ok_0 [OF sem_invD(1) [OF e(2)]] w by simp
  with e(1) show "OSSemPost C (Some i) k tbl = Some (fst (sem_give C e), k, tbl[i := snd (sem_give C e)])"
    by (simp add: OSSemPost_def sem_at_def split: prod.splits)
  show "sem_inv C k (snd (sem_give C e))"
    using e(2) w by (auto simp: sem_give_def sem_inv_def wait_ok_def waiters_def waiters_installed_def)
qed

lemma sem_give_count:
  assumes "Binary e = FALSE8 \<or> \<not> BRTOS_BINARY_SEM_EN C"
  shows "unat (OSEventCount (snd (sem_give C e))) = min 255 (unat (OSEventCount e) + 1)"
    and "fst (sem_give C e) = (if unat (OSEventCount e) < 255 then OK else ERR_SEM_OVF)"
proof -
  have b: "unat (OSEventCount e) < 256" using unsigned_less [of "OSEventCount e", where 'a = nat] by simp
  then have "unat (OSEventCount e) < 255 \<Longrightarrow> unat (OSEventCount e + 1) = unat (OSEventCount e) + 1"
    by (simp add: unat_word_ariths)
  with b assms show "unat (OSEventCount (snd (sem_give C e))) = min 255 (unat (OSEventCount e) + 1)"
    and "fst (sem_give C e) = (if unat (OSEventCount e) < 255 then OK else ERR_SEM_OVF)"
    by (auto simp: sem_give_def word_less_nat_alt)
qed


lemma sem_give_binary:
  assumes "sem_inv C k e"
  shows "Binary e = TRUE8 \<and> BRTOS_BINARY_SEM_EN C \<Longrightarrow> OSEventCount (snd (sem_give C e)) = 1 \<and> fst (sem_give C e) = OK"
  using sem_invD(4) [OF assms] by (auto simp: sem_give_def word_less_nat_alt word_le_nat_alt)

lemma OSSemPend_resume_timeout:
  assumes "sem_at tbl i e" and "sem_inv C k e" and "unat p < 32" and "t < length (ContextTask k)"
    and "w \<noteq> 0" and "TimeToWait (tcb k t) = EXIT_BY_TIMEOUT"
  obtains e' where "OSSemPend_resume (Some i) w t p k tbl =
      Some (if unat p \<in> waiters e then TIMEOUT else OK, k, tbl[i := e'])"
    and "sem_inv C k e'" and "waiters e' = waiters e - {unat p}" and "OSEventCount e' = OSEventCount e"
    and "OSEventAllocated e' = TRUE8" and "Binary e' = Binary e"
proof -
  from pend_resume_timeout [OF sem_invD(1) [OF assms(2)] assms(3,4,6)] obtain e' where
    r: "pend_resume t p e k = Some (unat p \<in> waiters e, e', k)"
    and e': "wait_ok e'" "waiters e' = waiters e - {unat p}" "same_event e e'" .
  have "sem_inv C k e'" by (rule sem_inv_less [OF assms(2) frame_refl e'(1) _ e'(3)]) (use e'(2) in auto)
  with that r e' assms(1,5) show ?thesis
    by (simp add: OSSemPend_resume_def sem_at_def same_event_sem)
qed

lemma OSSemPend_resume_posted:
  assumes "sem_at tbl i e" and "sem_inv C k e" and "sys_ok C k xs" and "t \<in> set xs"
    and "w \<noteq> 0" and "TimeToWait (tcb k t) \<noteq> EXIT_BY_TIMEOUT"
  obtains k' where "OSSemPend_resume (Some i) w t p k tbl = Some (OK, k', tbl)"
    and "sem_inv C k' e" and "sys_ok C k' (remove1 t xs)" and "frame k k'"
    and "OSReadyList k' = OSReadyList k" and "currentTask k' = currentTask k"
    and "TimeToWait (tcb k' t) = NO_TIMEOUT" and "\<forall>i. i \<noteq> t \<longrightarrow> TimeToWait (tcb k' i) = TimeToWait (tcb k i)"
proof -
  from pend_resume_posted [OF assms(3,4,6), of p e] obtain k' where
    r: "pend_resume t p e k = Some (False, e, k')" and k': "sys_ok C k' (remove1 t xs)" "frame k k'"
    "OSReadyList k' = OSReadyList k" "currentTask k' = currentTask k" "TimeToWait (tcb k' t) = NO_TIMEOUT"
    "\<forall>i. i \<noteq> t \<longrightarrow> TimeToWait (tcb k' i) = TimeToWait (tcb k i)" .
  have "tbl[i := e] = tbl" using assms(1) by (auto simp: sem_at_def)
  with r assms(1,5) have "OSSemPend_resume (Some i) w t p k tbl = Some (OK, k', tbl)"
    by (simp add: OSSemPend_resume_def sem_at_def)
  then show ?thesis using that k' sem_inv_frame [OF k'(2) assms(2)] by blast
qed

text \<open>Whole waits: suspended until the time-out, or posted after \<open>n\<close> ticks, and resumed.\<close>

lemma sem_expires_after:
  assumes k: "sys_ok C k xs" "iNesting k = 0" "installed C k (unat (currentTask k))"
    "prio_of k (unat (currentTask k)) \<noteq> 0" "unat (currentTask k) \<notin> set xs"
    and e: "sem_at tbl j e" "sem_inv C k e" "prio_of k (unat (currentTask k)) \<notin> waiters e" "OSEventCount e = 0"
    and w: "0 < w" "w \<le> TICK_COUNT_OVERFLOW"
  defines "t \<equiv> unat (currentTask k)"
  shows "\<exists>k1 k2 e1 e2. OSSemPend C (Some j) w k tbl = Some (Suspend (Priority (tcb k t)) (k1, tbl[j := e1])) \<and>
     (\<forall>m < unat w. \<exists>km. run_ticks C m k1 = Some km \<and> prio_of k t \<notin> prios (OSReadyList km)) \<and>
     run_ticks C (unat w) k1 = Some k2 \<and> timed_out C k2 t \<and>
     OSSemPend_resume (Some j) w t (Priority (tcb k t)) k2 (tbl[j := e1]) = Some (TIMEOUT, k2, tbl[j := e2]) \<and>
     sem_inv C k2 e2 \<and> waiters e2 = waiters e \<and> OSEventCount e2 = 0"
proof -
  have wn: "w \<noteq> 0" using w by auto
  from OSSemPend_block_timed [OF k e w, folded t_def] obtain k1 e1 where
    p: "OSSemPend C (Some j) w k tbl = Some (Suspend (Priority (tcb k t)) (k1, tbl[j := e1]))"
      "sys_ok C k1 (xs @ [t])" "slept k k1 t (wake_tick (OSTickCounter k) w)" "sem_inv C k1 e1"
      "waiters e1 = insert (prio_of k t) (waiters e)" "OSEventCount e1 = 0" "OSEventAllocated e1 = TRUE8" .
  have "OSTickCounter k1 = OSTickCounter k" by (rule frameD(5) [OF sleptD(1) [OF p(3)]])
  with slept_asleep [OF p(2,3)] have as: "asleep C k1 t (wake_tick (OSTickCounter k1) w)" by simp
  have pk: "prio_of k1 t = prio_of k t" by (simp add: frameD [OF sleptD(1) [OF p(3)]])
  have sl: "\<exists>km. run_ticks C m k1 = Some km \<and> prio_of k t \<notin> prios (OSReadyList km)" if m: "m < unat w" for m
  proof -
    from run_ticks_asleep [OF as sys_okD(4) [OF p(2)] refl refl w m] obtain km where km: "run_ticks C m k1 = Some km" "prio_of km t \<notin> prios (OSReadyList km)"
      by (auto simp: asleep_def)
    with run_ticks_ok [OF p(2), of m] pk show ?thesis by auto
  qed
  from run_ticks_wakes [OF as w] obtain k2 where k2: "run_ticks C (unat w) k1 = Some k2" "timed_out C k2 t" by blast
  from run_ticks_ok [OF p(2), of "unat w"] k2(1) have pr: "\<forall>i. Priority (tcb k2 i) = Priority (tcb k1 i)" by auto
  from k2(2) have t2: "t < length (ContextTask k2)" "TimeToWait (tcb k2 t) = EXIT_BY_TIMEOUT"
    by (auto simp: timed_out_def dest: sys_okD(1) installed_index)
  have at: "sem_at (tbl[j := e1]) j e1" using e(1) p(7) by (simp add: sem_at_def)
  have p32: "unat (Priority (tcb k t)) < 32" using installed_prio(1) [OF sys_okD(1) [OF k(1)] k(3)] by (simp add: t_def)
  from OSSemPend_resume_timeout [OF at sem_inv_prio [OF pr p(4)] p32 t2(1) wn t2(2)] obtain e2 where
    r: "OSSemPend_resume (Some j) w t (Priority (tcb k t)) k2 (tbl[j := e1]) =
        Some (if prio_of k t \<in> waiters e1 then TIMEOUT else OK, k2, (tbl[j := e1])[j := e2])"
    "sem_inv C k2 e2" "waiters e2 = waiters e1 - {prio_of k t}" "OSEventCount e2 = OSEventCount e1"
    "OSEventAllocated e2 = TRUE8" .
  then have "OSSemPend_resume (Some j) w t (Priority (tcb k t)) k2 (tbl[j := e1]) = Some (TIMEOUT, k2, tbl[j := e2])" "waiters e2 = waiters e"
    using p(5) e(3) by (auto simp: t_def)
  with p(1,6) k2 r(2,4) sl show ?thesis by (intro exI [of _ k1] exI [of _ k2] exI [of _ e1] exI [of _ e2]) simp
qed

lemma sem_posted_after:
  assumes k: "sys_ok C k xs" "iNesting k = 0" "installed C k (unat (currentTask k))"
    "prio_of k (unat (currentTask k)) \<noteq> 0" "unat (currentTask k) \<notin> set xs"
    and e: "sem_at tbl j e" "sem_inv C k e" "prio_of k (unat (currentTask k)) \<notin> waiters e" "OSEventCount e = 0"
    and w: "0 < w" "w \<le> TICK_COUNT_OVERFLOW"
    and n: "n < unat w" and top: "\<forall>q \<in> waiters e. q < prio_of k (unat (currentTask k))"
  defines "t \<equiv> unat (currentTask k)"
  shows "\<exists>k1 k2 k3 k4 e1 e3 zs. OSSemPend C (Some j) w k tbl = Some (Suspend (Priority (tcb k t)) (k1, tbl[j := e1])) \<and>
     run_ticks C n k1 = Some k2 \<and> OSSemPost C (Some j) k2 (tbl[j := e1]) = Some (OK, k3, tbl[j := e3]) \<and>
     prio_of k t \<in> prios (OSReadyList k3) \<and>
     OSSemPend_resume (Some j) w t (Priority (tcb k t)) k3 (tbl[j := e3]) = Some (OK, k4, tbl[j := e3]) \<and>
     sys_ok C k4 zs \<and> t \<notin> set zs \<and> sem_inv C k4 e3 \<and> waiters e3 = waiters e \<and> OSEventCount e3 = 0 \<and> OSTickCounter k4 = OSTickCounter ((OSIncCounter ^^ n) k)"
proof -
  have wn: "w \<noteq> 0" using w by auto
  from OSSemPend_block_timed [OF k e w, folded t_def] obtain k1 e1 where
    p: "OSSemPend C (Some j) w k tbl = Some (Suspend (Priority (tcb k t)) (k1, tbl[j := e1]))"
      "sys_ok C k1 (xs @ [t])" "slept k k1 t (wake_tick (OSTickCounter k) w)" "sem_inv C k1 e1"
      "waiters e1 = insert (prio_of k t) (waiters e)" "OSEventCount e1 = 0" "OSEventAllocated e1 = TRUE8" .
  have c: "OSTickCounter k1 = OSTickCounter k" by (rule frameD(5) [OF sleptD(1) [OF p(3)]])
  from run_ticks_asleep [OF slept_asleep [OF p(2,3)] sys_okD(4) [OF k(1)] c refl w n] obtain k2 where
    k2: "run_ticks C n k1 = Some k2" "asleep C k2 t (wake_tick (OSTickCounter k) w)" "OSTickCounter k2 = OSTickCounter ((OSIncCounter ^^ n) k)" by blast
  from k2(2) obtain ys where ys: "sys_ok C k2 ys" "t \<in> set ys" "TimeToWait (tcb k2 t) = wake_tick (OSTickCounter k) w"
    by (auto simp: asleep_def)
  from run_ticks_ok [OF p(2), of n] k2(1) have pr: "\<forall>i. Priority (tcb k2 i) = Priority (tcb k1 i)" by auto
  have at: "sem_at (tbl[j := e1]) j e1" using e(1) p(7) by (simp add: sem_at_def)
  have ne: "waiters e1 \<noteq> {}" and mx: "Max (waiters e1) = prio_of k t"
    using p(5) top by (auto simp: t_def intro!: Max_eqI)
  from OSSemPost_wake [OF ys(1) at sem_inv_prio [OF pr p(4)] ne] mx obtain k3 e3 where
    k3: "OSSemPost C (Some j) k2 (tbl[j := e1]) = Some (OK, k3, (tbl[j := e1])[j := e3])" "sys_ok C k3 ys"
      "readied k2 k3 (prio_of k t)" "sem_inv C k3 e3" "waiters e3 = waiters e1 - {prio_of k t}"
      "OSEventCount e3 = 0" "OSEventAllocated e3 = TRUE8" unfolding p(6) by metis
  have "wake_tick (OSTickCounter k) w < TICK_COUNT_OVERFLOW" by (rule wake_tick_lt [OF sys_okD(4) [OF k(1)] w(2)])
  then have nt: "TimeToWait (tcb k3 t) \<noteq> EXIT_BY_TIMEOUT" using readiedD(2) [OF k3(3)] ys(3) by auto
  have at3: "sem_at (tbl[j := e3]) j e3" using e(1) k3(7) by (simp add: sem_at_def)
  from OSSemPend_resume_posted [OF at3 k3(4,2) ys(2) wn nt] obtain k4 where
    "OSSemPend_resume (Some j) w t (Priority (tcb k t)) k3 (tbl[j := e3]) = Some (OK, k4, tbl[j := e3])"
    "sem_inv C k4 e3" "sys_ok C k4 (remove1 t ys)" and f4: "frame k3 k4" by metis
  moreover have "t \<notin> set (remove1 t ys)" using sys_okD(9) [OF ys(1)] by simp
  moreover have "waiters e3 = waiters e" using k3(5) p(5) e(3) by (simp add: t_def)
  moreover have "prio_of k t \<in> prios (OSReadyList k3)" by (simp add: readiedD(3) [OF k3(3)])
  moreover have "OSTickCounter k4 = OSTickCounter ((OSIncCounter ^^ n) k)"
    using frameD(5) [OF f4] frameD(5) [OF readiedD(1) [OF k3(3)]] k2(3) by simp
  ultimately show ?thesis using p(1) k2(1) k3(1,6) by (metis list_update_overwrite)
qed

end
