(* ===== verification/Mutex.thy ===== *)
theory Mutex
  imports Events
begin

text \<open>
  \<^verbatim>\<open>src/brtos/mutex.c\<close>: mutexes with ownership and an immediate priority ceiling. The
  owner runs at the ceiling \<^verbatim>\<open>OSMaxPriority\<close>, whose entry of the priority vector is
  reserved with \<^verbatim>\<open>MUTEX_PRIO\<close> while the mutex is free. As for the semaphores, an acquire
  that blocks is split at \<^verbatim>\<open>ChangeContext\<close>.
\<close>

section \<open>The operations\<close>

record BRTOS_Mutex = event_block +
  OSEventState :: uint8_t
  OSEventOwner :: uint8_t
  OSMaxPriority :: uint8_t
  OSOriginalPriority :: uint8_t

definition OSMutexCreate :: "ptr \<Rightarrow> uint8_t \<Rightarrow> kernel \<Rightarrow> BRTOS_Mutex list \<Rightarrow>
    (uint8_t \<times> ptr \<times> kernel \<times> BRTOS_Mutex list) option" where
  "OSMutexCreate event HigherPriority k BRTOS_Mutex_Table =
    (if iNesting k > 0 then Some (IRQ_PEND_ERR, event, k, BRTOS_Mutex_Table)
     else do {
       owner \<leftarrow> (if HigherPriority > 0 then rd (PriorityVector k) (unat HigherPriority) else Some EMPTY_PRIO);
       if owner \<noteq> EMPTY_PRIO then Some (BUSY_PRIORITY, event, k, BRTOS_Mutex_Table)
       else do {
         pv \<leftarrow> (if HigherPriority > 0 then wr (PriorityVector k) (unat HigherPriority) MUTEX_PRIO
               else Some (PriorityVector k));
         let k = k\<lparr>PriorityVector := pv\<rparr>;
         case free_block BRTOS_Mutex_Table of
           None \<Rightarrow> Some (NO_AVAILABLE_EVENT, event, k, BRTOS_Mutex_Table)
         | Some i \<Rightarrow>
            let e = (BRTOS_Mutex_Table ! i)\<lparr>OSEventAllocated := TRUE8, OSEventState := AVAILABLE_RESOURCE,
                      OSEventWait := 0, OSMaxPriority := HigherPriority, OSEventWaitList := 0\<rparr>
            in Some (ALLOC_EVENT_OK, Some i, k, BRTOS_Mutex_Table[i := e]) } })"

definition OSMutexDelete :: "ptr \<Rightarrow> kernel \<Rightarrow> BRTOS_Mutex list \<Rightarrow> (uint8_t \<times> ptr \<times> BRTOS_Mutex list) option" where
  "OSMutexDelete event k BRTOS_Mutex_Table =
    (if iNesting k > 0 then Some (IRQ_PEND_ERR, event, BRTOS_Mutex_Table)
     else do {
       i \<leftarrow> event;
       tbl \<leftarrow> upd BRTOS_Mutex_Table i
         (\<lambda>e. e\<lparr>OSEventAllocated := 0, OSEventState := 0, OSEventOwner := 0, OSMaxPriority := 0,
                 OSOriginalPriority := 0, OSEventWait := 0, OSEventWaitList := 0\<rparr>);
       Some (DELETE_EVENT_OK, None, tbl) })"

text \<open>
  The temporary exchange of the owner's priority, the same lines for a free mutex and for a
  waiter that has received it.
\<close>

definition raise_priority :: "nat \<Rightarrow> uint8_t \<Rightarrow> uint8_t \<Rightarrow> kernel \<Rightarrow> kernel option" where
  "raise_priority Task iPriority ceiling k =
    (if ceiling > iPriority then do {
       ct \<leftarrow> upd (ContextTask k) Task (\<lambda>t. t\<lparr>Priority := ceiling\<rparr>);
       pv \<leftarrow> wr (PriorityVector k) (unat ceiling) (currentTask k);
       m0 \<leftarrow> rd PriorityMask (unat iPriority);
       let k = k\<lparr>ContextTask := ct, PriorityVector := pv, OSReadyList := OSReadyList k AND NOT m0\<rparr>;
       m1 \<leftarrow> rd PriorityMask (unat ceiling);
       Some (k\<lparr>OSReadyList := OSReadyList k OR m1\<rparr>) }
     else Some k)"

definition OSMutexAcquire :: "config \<Rightarrow> ptr \<Rightarrow> ostick_t \<Rightarrow> kernel \<Rightarrow> BRTOS_Mutex list \<Rightarrow>
    (kernel \<times> BRTOS_Mutex list) outcome option" where
  "OSMutexAcquire C pont_event time_wait k BRTOS_Mutex_Table =
    (if ERROR_CHECK C \<and> iNesting k > 0 then Some (Return IRQ_PEND_ERR (k, BRTOS_Mutex_Table))
     else if ERROR_CHECK C \<and> pont_event = None then Some (Return NULL_EVENT_POINTER (k, BRTOS_Mutex_Table))
     else do {
       i \<leftarrow> pont_event;
       e \<leftarrow> rd BRTOS_Mutex_Table i;
       if ERROR_CHECK C \<and> OSEventAllocated e \<noteq> TRUE8
       then Some (Return ERR_EVENT_NO_CREATED (k, BRTOS_Mutex_Table))
       else if currentTask k = OSEventOwner e then Some (Return OK (k, BRTOS_Mutex_Table))
       else if OSEventState e = AVAILABLE_RESOURCE then do {
         let Task = unat (currentTask k);
         t \<leftarrow> rd (ContextTask k) Task;
         let e = e\<lparr>OSEventState := BUSY_RESOURCE, OSEventOwner := currentTask k,
                   OSOriginalPriority := Priority t\<rparr>;
         k \<leftarrow> raise_priority Task (Priority t) (OSMaxPriority e) k;
         Some (Return OK (k, BRTOS_Mutex_Table[i := e])) }
       else if time_wait = NO_TIMEOUT
       then Some (Return EXIT_BY_NO_RESOURCE_AVAILABLE (k, BRTOS_Mutex_Table))
       else do {
         (iPriority, e, k) \<leftarrow> pend_suspend C MUTEX time_wait e k;
         k \<leftarrow> ChangeContext C k;
         Some (Suspend iPriority (k, BRTOS_Mutex_Table[i := e])) } })"

definition OSMutexAcquire_resume :: "ptr \<Rightarrow> ostick_t \<Rightarrow> nat \<Rightarrow> uint8_t \<Rightarrow> kernel \<Rightarrow> BRTOS_Mutex list \<Rightarrow>
    (uint8_t \<times> kernel \<times> BRTOS_Mutex list) option" where
  "OSMutexAcquire_resume pont_event time_wait Task iPriority k BRTOS_Mutex_Table = do {
     i \<leftarrow> pont_event;
     e \<leftarrow> rd BRTOS_Mutex_Table i;
     (expired, e, k) \<leftarrow> (if time_wait \<noteq> 0 then pend_resume Task iPriority e k else Some (False, e, k));
     if expired then Some (EXIT_BY_NO_RESOURCE_AVAILABLE, k, BRTOS_Mutex_Table[i := e])
     else do {
       let e = e\<lparr>OSOriginalPriority := iPriority\<rparr>;
       k \<leftarrow> raise_priority Task iPriority (OSMaxPriority e) k;
       Some (OK, k, BRTOS_Mutex_Table[i := e]) } }"

text \<open>The owner returns to its original priority.\<close>

definition restore_priority :: "BRTOS_Mutex \<Rightarrow> kernel \<Rightarrow> kernel option" where
  "restore_priority e k = do {
     t \<leftarrow> rd (ContextTask k) (unat (currentTask k));
     let iPriority = Priority t;
     if iPriority \<noteq> OSOriginalPriority e then do {
       m0 \<leftarrow> rd PriorityMask (unat iPriority);
       let k = k\<lparr>OSReadyList := OSReadyList k AND NOT m0\<rparr>;
       m1 \<leftarrow> rd PriorityMask (unat (OSOriginalPriority e));
       let k = k\<lparr>OSReadyList := OSReadyList k OR m1\<rparr>;
       ct \<leftarrow> upd (ContextTask k) (unat (currentTask k)) (\<lambda>t. t\<lparr>Priority := OSOriginalPriority e\<rparr>);
       Some (k\<lparr>ContextTask := ct\<rparr>) }
     else Some k }"

definition OSMutexRelease :: "config \<Rightarrow> ptr \<Rightarrow> kernel \<Rightarrow> BRTOS_Mutex list \<Rightarrow>
    (uint8_t \<times> kernel \<times> BRTOS_Mutex list) option" where
  "OSMutexRelease C pont_event k BRTOS_Mutex_Table =
    (if ERROR_CHECK C \<and> iNesting k > 0 then Some (IRQ_PEND_ERR, k, BRTOS_Mutex_Table)
     else if ERROR_CHECK C \<and> pont_event = None then Some (NULL_EVENT_POINTER, k, BRTOS_Mutex_Table)
     else do {
       i \<leftarrow> pont_event;
       e \<leftarrow> rd BRTOS_Mutex_Table i;
       if ERROR_CHECK C \<and> OSEventAllocated e \<noteq> TRUE8
       then Some (ERR_EVENT_NO_CREATED, k, BRTOS_Mutex_Table)
       else if OSEventOwner e \<noteq> currentTask k then Some (ERR_EVENT_OWNER, k, BRTOS_Mutex_Table)
       else do {
         k \<leftarrow> restore_priority e k;
         let e = e\<lparr>OSEventOwner := 0\<rparr>;
         if OSEventWait e \<noteq> 0 then do {
           (iPriority, e) \<leftarrow> event_select C e;
           owner \<leftarrow> rd (PriorityVector k) (unat iPriority);
           let e = e\<lparr>OSEventOwner := owner\<rparr>;
           k \<leftarrow> wake_priority C iPriority k;
           k \<leftarrow> ChangeContext C k;
           Some (OK, k, BRTOS_Mutex_Table[i := e]) }
         else do {
           let e = e\<lparr>OSEventState := AVAILABLE_RESOURCE\<rparr>;
           pv \<leftarrow> (if OSMaxPriority e > 0 then wr (PriorityVector k) (unat (OSMaxPriority e)) MUTEX_PRIO
                 else Some (PriorityVector k));
           Some (OK, k\<lparr>PriorityVector := pv\<rparr>, BRTOS_Mutex_Table[i := e]) } } })"

section \<open>Errors\<close>

lemma mutex_release_not_owner:
  assumes "i < length tbl" and "OSEventAllocated (tbl ! i) = TRUE8" and "OSEventOwner (tbl ! i) \<noteq> currentTask k"
    and "iNesting k = 0"
  shows "OSMutexRelease C (Some i) k tbl = Some (ERR_EVENT_OWNER, k, tbl)"
  using assms by (simp add: OSMutexRelease_def)

lemma mutex_reacquire:
  assumes "i < length tbl" and "OSEventAllocated (tbl ! i) = TRUE8" and "OSEventOwner (tbl ! i) = currentTask k"
    and "iNesting k = 0"
  shows "OSMutexAcquire C (Some i) w k tbl = Some (Return OK (k, tbl))"
  using assms by (simp add: OSMutexAcquire_def)

lemma mutex_acquire_no_wait:
  assumes "i < length tbl" and "OSEventAllocated (tbl ! i) = TRUE8" and "OSEventOwner (tbl ! i) \<noteq> currentTask k"
    and "iNesting k = 0" and "OSEventState (tbl ! i) \<noteq> AVAILABLE_RESOURCE"
  shows "OSMutexAcquire C (Some i) NO_TIMEOUT k tbl = Some (Return EXIT_BY_NO_RESOURCE_AVAILABLE (k, tbl))"
  using assms by (simp add: OSMutexAcquire_def)

section \<open>The ceiling\<close>

text \<open>
  Moving an installed, ready task to a ceiling that no installed task has keeps the kernel
  consistent. Nothing but the task's priority, the entry of the ceiling and the ready list
  changes.
\<close>

lemma raise_priority_spec:
  assumes ok: "kernel_ok C k" and i: "installed C k (unat (currentTask k))"
    and c: "unat c < 32" and pr: "p = Priority (tcb k (unat (currentTask k)))" and gt: "c > p"
    and free: "\<forall>t. installed C k t \<longrightarrow> prio_of k t \<noteq> unat c"
  defines "k' \<equiv> k\<lparr>ContextTask := (ContextTask k)[unat (currentTask k) := (tcb k (unat (currentTask k)))\<lparr>Priority := c\<rparr>],
      PriorityVector := (PriorityVector k)[unat c := currentTask k],
      OSReadyList := OSReadyList k AND NOT (PriorityMask ! unat p) OR PriorityMask ! unat c\<rparr>"
  shows "raise_priority (unat (currentTask k)) p c k = Some k'" and "kernel_ok C k'"
    and "prios (OSReadyList k') = insert (unat c) (prios (OSReadyList k) - {unat p})"
    and "installed C k' t = installed C k t"
proof -
  let ?t = "unat (currentTask k)"
  have ar: "arrays_ok C k" by (rule kernel_okD(1) [OF ok])
  have p32: "unat p < 32" using installed_prio(1) [OF ok i] pr by simp
  have tb: "?t < length (ContextTask k)" by (rule installed_index [OF ok i])
  show "raise_priority ?t p c k = Some k'"
    using gt tb c p32 length_PriorityVector [OF ar] by (simp add: raise_priority_def k'_def)
  show r: "prios (OSReadyList k') = insert (unat c) (prios (OSReadyList k) - {unat p})"
    using c p32 by (auto simp: k'_def prios_or prios_and_not prios_PriorityMask)
  have P: "Priority (tcb k' u) = (if u = ?t then c else Priority (tcb k u))" for u
    using tb by (simp add: k'_def nth_list_update_if)
  have V: "PriorityVector k' ! q = (if q = unat c then currentTask k else PriorityVector k ! q)" for q
    using c length_PriorityVector [OF ar] by (simp add: k'_def nth_list_update_if)
  have c255: "c \<noteq> EMPTY_PRIO" using c by auto
  show inst: "installed C k' t = installed C k t" for t
    using i c255 by (auto simp: installed_def P)
  show "kernel_ok C k'"
  proof (rule kernel_okI)
    show "arrays_ok C k'" using ar by (simp add: arrays_ok_def k'_def)
    show "prio_ok C k'"
      unfolding prio_ok_def using installed_prio [OF ok] free c by (auto simp: inst P V)
    show "ready_ok C k'"
      unfolding ready_ok_def
    proof
      fix q assume "q \<in> prios (OSReadyList k')"
      then consider "q = unat c" | "q \<in> prios (OSReadyList k)" "q \<noteq> unat p" "q \<noteq> unat c" unfolding r by auto
      then show "installed C k' (unat (PriorityVector k' ! q)) \<and> prio_of k' (unat (PriorityVector k' ! q)) = q"
      proof cases
        case 1
        then show ?thesis using i by (simp add: inst P V)
      next
        case 2
        from ready_task [OF ok 2(1)] have "unat (PriorityVector k ! q) \<noteq> ?t" using 2(2) pr by auto
        with ready_task [OF ok 2(1)] 2(3) show ?thesis by (simp add: inst P V)
      qed
    qed
  qed
qed


text \<open>
  What a change of priority leaves alone. The time stamps, the links of the delay list and the
  set of installed tasks do not depend on it.
\<close>

definition reprioritised :: "kernel \<Rightarrow> kernel \<Rightarrow> bool" where
  "reprioritised k k' \<longleftrightarrow> length (ContextTask k') = length (ContextTask k) \<and>
     (\<forall>i. Next (tcb k' i) = Next (tcb k i) \<and> Previous (tcb k' i) = Previous (tcb k i) \<and>
          TimeToWait (tcb k' i) = TimeToWait (tcb k i)) \<and>
     Head k' = Head k \<and> Tail k' = Tail k \<and> OSTickCounter k' = OSTickCounter k \<and>
     OSBlockedList k' = OSBlockedList k \<and> currentTask k' = currentTask k \<and> iNesting k' = iNesting k"

lemma reprioritised_sys_ok:
  assumes s: "sys_ok C k xs" and r: "reprioritised k k'" and ok: "kernel_ok C k'"
    and inst: "\<And>t. installed C k' t = installed C k t" and z: "0 \<in> prios (OSReadyList k')"
  shows "sys_ok C k' xs"
proof -
  have "delay_list k' xs = delay_list k xs" using r by (intro delay_list_cong) (auto simp: reprioritised_def)
  with s r ok z show ?thesis by (auto simp: sys_ok_def inst runnable_def reprioritised_def)
qed

text \<open>A mutex that is free, with its ceiling reserved.\<close>

definition mutex_free :: "kernel \<Rightarrow> BRTOS_Mutex \<Rightarrow> bool" where
  "mutex_free k e \<longleftrightarrow> OSEventAllocated e = TRUE8 \<and> OSEventState e = AVAILABLE_RESOURCE \<and>
     OSEventOwner e = 0 \<and> unat (OSMaxPriority e) < 32 \<and> wait_ok e \<and> waiters e = {} \<and>
     (OSMaxPriority e > 0 \<longrightarrow> PriorityVector k ! unat (OSMaxPriority e) = MUTEX_PRIO)"

text \<open>
  A mutex held by a task, which runs at the maximum of its original priority and the ceiling.
  No other task has the ceiling as its priority.
\<close>

definition mutex_held :: "config \<Rightarrow> kernel \<Rightarrow> BRTOS_Mutex \<Rightarrow> bool" where
  "mutex_held C k e \<longleftrightarrow> OSEventAllocated e = TRUE8 \<and> OSEventState e = BUSY_RESOURCE \<and>
     unat (OSMaxPriority e) < 32 \<and> wait_ok e \<and> waiters_installed C k e \<and>
     installed C k (unat (OSEventOwner e)) \<and> unat (OSOriginalPriority e) < 32 \<and>
     OSOriginalPriority e \<noteq> 0 \<and> OSOriginalPriority e \<noteq> OSMaxPriority e \<and>
     Priority (tcb k (unat (OSEventOwner e))) = max (OSOriginalPriority e) (OSMaxPriority e) \<and>
     unat (PriorityVector k ! unat (OSOriginalPriority e)) = unat (OSEventOwner e) \<and>
     prio_of k (unat (OSEventOwner e)) \<notin> waiters e \<and> unat (OSOriginalPriority e) \<notin> waiters e \<and>
     (OSMaxPriority e > 0 \<longrightarrow> (\<forall>u. installed C k u \<longrightarrow> prio_of k u = unat (OSMaxPriority e) \<longrightarrow> u = unat (OSEventOwner e)))"

text \<open>
  A mutex that a release has handed to a waiter which has not run yet: nobody has the ceiling
  as its priority.
\<close>

definition mutex_granted :: "config \<Rightarrow> kernel \<Rightarrow> BRTOS_Mutex \<Rightarrow> bool" where
  "mutex_granted C k e \<longleftrightarrow> OSEventAllocated e = TRUE8 \<and> OSEventState e = BUSY_RESOURCE \<and>
     unat (OSMaxPriority e) < 32 \<and> wait_ok e \<and> waiters_installed C k e \<and>
     installed C k (unat (OSEventOwner e)) \<and> prio_of k (unat (OSEventOwner e)) \<noteq> 0 \<and>
     prio_of k (unat (OSEventOwner e)) \<notin> waiters e \<and>
     (OSMaxPriority e > 0 \<longrightarrow> unat (OSMaxPriority e) \<notin> waiters e \<and>
        (\<forall>u. installed C k u \<longrightarrow> prio_of k u \<noteq> unat (OSMaxPriority e)))"

lemma reserved_ceiling:
  assumes ok: "kernel_ok C k" and v: "PriorityVector k ! q = MUTEX_PRIO" and i: "installed C k t"
  shows "prio_of k t \<noteq> q"
proof
  assume "prio_of k t = q"
  with installed_prio(2) [OF ok i] v have "t = 254" by simp
  with i kernel_okD(1) [OF ok] show False by (simp add: installed_def is_task_def arrays_ok_def)
qed

lemma mutex_acquire_free:
  assumes s: "sys_ok C k xs" and n: "iNesting k = 0" and i: "installed C k (unat (currentTask k))"
    and p: "prio_of k (unat (currentTask k)) \<noteq> 0" and m: "mutex_free k (tbl ! j)" and j: "j < length tbl"
  obtains k' e' where "OSMutexAcquire C (Some j) w k tbl = Some (Return OK (k', tbl[j := e']))"
    and "e' = (tbl ! j)\<lparr>OSEventState := BUSY_RESOURCE, OSEventOwner := currentTask k,
      OSOriginalPriority := Priority (tcb k (unat (currentTask k)))\<rparr>"
    and "raise_priority (unat (currentTask k)) (Priority (tcb k (unat (currentTask k)))) (OSMaxPriority (tbl ! j)) k = Some k'"
    and "sys_ok C k' xs" and "mutex_held C k' e'" and "reprioritised k k'"
proof -
  let ?t = "unat (currentTask k)" and ?e = "tbl ! j"
  let ?p = "Priority (tcb k ?t)" and ?c = "OSMaxPriority ?e"
  let ?e' = "?e\<lparr>OSEventState := BUSY_RESOURCE, OSEventOwner := currentTask k, OSOriginalPriority := ?p\<rparr>"
  note ok = sys_okD(1) [OF s]
  have c0: "currentTask k \<noteq> 0" using i by (auto simp: installed_def is_task_def)
  have c: "unat ?c < 32" and v: "?c > 0 \<Longrightarrow> PriorityVector k ! unat ?c = MUTEX_PRIO"
    using m by (auto simp: mutex_free_def)
  have p32: "unat ?p < 32" by (rule installed_prio(1) [OF ok i])
  have p0: "?p \<noteq> 0" using p by auto
  have ne: "?c > 0 \<Longrightarrow> ?c \<noteq> ?p" using reserved_ceiling [OF ok v i] by auto
  have w: "wait_ok ?e'" "waiters ?e' = {}" using m by (simp_all add: mutex_free_def wait_ok_def waiters_def)
  have acq: "OSMutexAcquire C (Some j) w k tbl = Some (Return OK (k', tbl[j := ?e']))"
    if "raise_priority ?t ?p ?c k = Some k'" for k'
    using that m j n c0 sys_okD(7) [OF s] by (simp add: OSMutexAcquire_def mutex_free_def)
  show ?thesis
  proof (cases "?c > ?p")
    case True
    then have c1: "?c > 0" by (simp add: word_gt_0) (metis word_gt_0 less_trans p0)
    have fr: "\<forall>t. installed C k t \<longrightarrow> prio_of k t \<noteq> unat ?c" using reserved_ceiling [OF ok v [OF c1]] by blast
    note rp = raise_priority_spec [OF ok i c refl True fr]
    let ?k = "k\<lparr>ContextTask := (ContextTask k)[?t := (tcb k ?t)\<lparr>Priority := ?c\<rparr>],
      PriorityVector := (PriorityVector k)[unat ?c := currentTask k],
      OSReadyList := OSReadyList k AND NOT (PriorityMask ! unat ?p) OR PriorityMask ! unat ?c\<rparr>"
    have re: "reprioritised k ?k"
      using sys_okD(7) [OF s] by (simp add: reprioritised_def nth_list_update_if)
    have z: "0 \<in> prios (OSReadyList ?k)"
      using sys_okD(5) [OF s] p rp(3) by (auto simp: runnable_def)
    have so: "sys_ok C ?k xs" by (rule reprioritised_sys_ok [OF s re rp(2) rp(4) z])
    have mx: "max ?p ?c = ?c" "?p \<noteq> ?c" "unat ?p \<noteq> unat ?c"
      using True ne [OF c1] by (auto simp: word_unat_eq_iff)
    have pv: "(PriorityVector k)[unat ?c := currentTask k] ! unat ?p = PriorityVector k ! unat ?p"
      using mx(3) by (metis nth_list_update_neq)
    have "mutex_held C ?k ?e'"
      using m w p32 p0 mx(1,2) i c installed_prio(2) [OF ok i] sys_okD(7) [OF s] fr
      unfolding mutex_held_def
      by (simp add: mutex_free_def rp(4) waiters_installed_def nth_list_update_if pv)
    with that acq [OF rp(1)] rp(1) so re show ?thesis by simp
  next
    case False
    then have r: "raise_priority ?t ?p ?c k = Some k" by (simp add: raise_priority_def)
    have "mutex_held C k ?e'"
      using m w p32 p0 ne False i c installed_prio(2) [OF ok i] reserved_ceiling [OF ok v]
      unfolding mutex_held_def
      by (auto simp: mutex_free_def waiters_installed_def max_def word_gt_0)
    with that acq [OF r] r s show ?thesis by (simp add: reprioritised_def)
  qed
qed


section \<open>Release\<close>

lemma mutex_heldD:
  assumes "mutex_held C k e"
  shows "OSEventAllocated e = TRUE8" and "unat (OSMaxPriority e) < 32" and "wait_ok e"
    and "waiters_installed C k e" and "installed C k (unat (OSEventOwner e))"
    and "unat (OSOriginalPriority e) < 32" and "OSOriginalPriority e \<noteq> 0"
    and "Priority (tcb k (unat (OSEventOwner e))) = max (OSOriginalPriority e) (OSMaxPriority e)"
    and "unat (PriorityVector k ! unat (OSOriginalPriority e)) = unat (OSEventOwner e)"
    and "prio_of k (unat (OSEventOwner e)) \<notin> waiters e" and "OSEventState e = BUSY_RESOURCE"
    and "OSOriginalPriority e \<noteq> OSMaxPriority e" and "unat (OSOriginalPriority e) \<notin> waiters e"
    and "OSMaxPriority e > 0 \<Longrightarrow> installed C k u \<Longrightarrow> prio_of k u = unat (OSMaxPriority e) \<Longrightarrow>
      u = unat (OSEventOwner e)"
  using assms by (auto simp: mutex_held_def)

text \<open>
  The owner gets its original priority back: it is ready at that priority, and the kernel stays
  consistent.
\<close>

lemma restore_priority_spec:
  assumes ok: "kernel_ok C k" and h: "mutex_held C k e" and cu: "OSEventOwner e = currentTask k"
    and rdy: "prio_of k (unat (currentTask k)) \<in> prios (OSReadyList k)"
  obtains k' where "restore_priority e k = Some k'" and "kernel_ok C k'" and "reprioritised k k'"
    and "PriorityVector k' = PriorityVector k" and "\<forall>t. installed C k' t = installed C k t"
    and "\<forall>t. Priority (tcb k' t) = (if t = unat (currentTask k) then OSOriginalPriority e else Priority (tcb k t))"
    and "prios (OSReadyList k') =
      insert (unat (OSOriginalPriority e)) (prios (OSReadyList k) - {prio_of k (unat (currentTask k))})"
    and "k' = k\<lparr>ContextTask := (ContextTask k)[unat (currentTask k) :=
        (tcb k (unat (currentTask k)))\<lparr>Priority := OSOriginalPriority e\<rparr>], OSReadyList := OSReadyList k'\<rparr>"
proof -
  let ?t = "unat (currentTask k)" and ?o = "OSOriginalPriority e"
  let ?p = "Priority (tcb k ?t)"
  note hd = mutex_heldD [OF h, unfolded cu]
  have tb: "?t < length (ContextTask k)" by (rule installed_index [OF ok hd(5)])
  have p32: "unat ?p < 32" by (rule installed_prio(1) [OF ok hd(5)])
  let ?r = "if ?p = ?o then OSReadyList k
            else OSReadyList k AND NOT (PriorityMask ! unat ?p) OR PriorityMask ! unat ?o"
  define k' where
    "k' = k\<lparr>ContextTask := (ContextTask k)[?t := (tcb k ?t)\<lparr>Priority := ?o\<rparr>], OSReadyList := ?r\<rparr>"
  have same: "(ContextTask k)[?t := (tcb k ?t)\<lparr>Priority := ?o\<rparr>] = ContextTask k" if "?p = ?o"
  proof -
    have "(tcb k ?t)\<lparr>Priority := ?o\<rparr> = tcb k ?t" unfolding that [symmetric] by simp
    then show ?thesis by simp
  qed
  have e: "restore_priority e k = Some k'"
  proof (cases "?p = ?o")
    case True
    with same [OF True] tb show ?thesis by (simp add: restore_priority_def k'_def)
  next
    case False
    with tb p32 hd(6) show ?thesis by (simp add: restore_priority_def Let_def k'_def)
  qed
  have r: "prios (OSReadyList k') = insert (unat ?o) (prios (OSReadyList k) - {unat ?p})"
    using p32 hd(6) rdy by (auto simp: k'_def prios_or prios_and_not prios_PriorityMask)
  have P: "Priority (tcb k' u) = (if u = ?t then ?o else Priority (tcb k u))" for u
    using tb by (simp add: k'_def nth_list_update_if)
  have V: "PriorityVector k' = PriorityVector k" by (simp add: k'_def)
  have inst: "installed C k' u = installed C k u" for u
    using hd(5,6) by (auto simp: installed_def P)
  have ok': "kernel_ok C k'"
  proof (rule kernel_okI)
    show "arrays_ok C k'" using kernel_okD(1) [OF ok] by (simp add: arrays_ok_def k'_def)
    show "prio_ok C k'"
      unfolding prio_ok_def using installed_prio [OF ok] hd(6,9) by (auto simp: inst P V)
    show "ready_ok C k'"
      unfolding ready_ok_def
    proof
      fix q assume "q \<in> prios (OSReadyList k')"
      then consider "q = unat ?o" | "q \<in> prios (OSReadyList k)" "q \<noteq> unat ?p" unfolding r by auto
      then show "installed C k' (unat (PriorityVector k' ! q)) \<and> prio_of k' (unat (PriorityVector k' ! q)) = q"
      proof cases
        case 1
        then show ?thesis using hd(5,9) by (simp add: inst P V)
      next
        case 2
        from ready_task [OF ok 2(1)] have "unat (PriorityVector k ! q) \<noteq> ?t" using 2(2) by auto
        with ready_task [OF ok 2(1)] show ?thesis by (simp add: inst P V)
      qed
    qed
  qed
  have re: "reprioritised k k'" using tb by (simp add: k'_def reprioritised_def nth_list_update_if)
  show ?thesis
  proof (rule that [OF e ok' re])
    show "PriorityVector k' = PriorityVector k" by (rule V)
    show "\<forall>t. installed C k' t = installed C k t" using inst by blast
    show "\<forall>t. Priority (tcb k' t) = (if t = ?t then ?o else Priority (tcb k t))" using P by blast
    show "prios (OSReadyList k') = insert (unat ?o) (prios (OSReadyList k) - {unat ?p})" by (rule r)
    show "k' = k\<lparr>ContextTask := (ContextTask k)[?t := (tcb k ?t)\<lparr>Priority := ?o\<rparr>], OSReadyList := OSReadyList k'\<rparr>"
      by (simp add: k'_def)
  qed
qed

text \<open>Reserving the ceiling again keeps the kernel consistent when no task has it.\<close>

lemma reserve_ok:
  assumes ok: "kernel_ok C k" and q: "q < 32" and n: "\<And>t. installed C k t \<Longrightarrow> prio_of k t \<noteq> q"
  shows "kernel_ok C (k\<lparr>PriorityVector := (PriorityVector k)[q := MUTEX_PRIO]\<rparr>)"
proof (rule kernel_okI)
  let ?k = "k\<lparr>PriorityVector := (PriorityVector k)[q := MUTEX_PRIO]\<rparr>"
  note l = length_PriorityVector [OF kernel_okD(1) [OF ok]]
  have inst: "installed C ?k t = installed C k t" for t by (simp add: installed_def)
  show "arrays_ok C ?k" using kernel_okD(1) [OF ok] by (simp add: arrays_ok_def)
  have v: "(PriorityVector k)[q := MUTEX_PRIO] ! prio_of k t = PriorityVector k ! prio_of k t" if "installed C k t" for t
    using n [OF that] by (metis nth_list_update_neq)
  show "prio_ok C ?k" unfolding prio_ok_def using installed_prio [OF ok] by (simp add: inst v)
  show "ready_ok C ?k"
    unfolding ready_ok_def
  proof
    fix p assume "p \<in> prios (OSReadyList ?k)"
    then have p: "p \<in> prios (OSReadyList k)" by simp
    note rt = ready_task [OF ok p]
    with n have "p \<noteq> q" by auto
    with rt show "installed C ?k (unat (PriorityVector ?k ! p)) \<and> prio_of ?k (unat (PriorityVector ?k ! p)) = p"
      by (simp add: inst)
  qed
qed


lemma restore_sys_ok:
  assumes s: "sys_ok C k xs" and h: "mutex_held C k e" and cu: "OSEventOwner e = currentTask k"
    and k': "kernel_ok C k'" "reprioritised k k'" "\<forall>t. installed C k' t = installed C k t"
      "prios (OSReadyList k') =
        insert (unat (OSOriginalPriority e)) (prios (OSReadyList k) - {prio_of k (unat (currentTask k))})"
  shows "sys_ok C k' xs"
proof (rule reprioritised_sys_ok [OF s k'(2,1)])
  show "installed C k' t = installed C k t" for t using k'(3) by blast
  have "Priority (tcb k (unat (currentTask k))) \<noteq> 0"
    using mutex_heldD(7,8) [OF h] cu by (auto simp: max_def split: if_splits)
  then have "prio_of k (unat (currentTask k)) \<noteq> 0" by (simp add: unat_eq_0)
  with sys_okD(5) [OF s] show "0 \<in> prios (OSReadyList k')" by (auto simp: k'(4) runnable_def)
qed

lemma mutex_release_free:
  assumes s: "sys_ok C k xs" and n: "iNesting k = 0" and j: "j < length tbl" and h: "mutex_held C k (tbl ! j)"
    and cu: "OSEventOwner (tbl ! j) = currentTask k" and w: "waiters (tbl ! j) = {}"
    and rdy: "prio_of k (unat (currentTask k)) \<in> prios (OSReadyList k)"
  obtains k1 k' e' where "OSMutexRelease C (Some j) k tbl = Some (OK, k', tbl[j := e'])"
    and "e' = (tbl ! j)\<lparr>OSEventOwner := 0, OSEventState := AVAILABLE_RESOURCE\<rparr>"
    and "restore_priority (tbl ! j) k = Some k1"
    and "k' = k1\<lparr>PriorityVector := if OSMaxPriority (tbl ! j) > 0
        then (PriorityVector k)[unat (OSMaxPriority (tbl ! j)) := MUTEX_PRIO] else PriorityVector k\<rparr>"
    and "sys_ok C k' xs" and "mutex_free k' e'"
    and "Priority (tcb k' (unat (currentTask k))) = OSOriginalPriority (tbl ! j)"
proof -
  let ?e = "tbl ! j" and ?t = "unat (currentTask k)"
  let ?c = "OSMaxPriority ?e" and ?o = "OSOriginalPriority ?e"
  let ?e' = "?e\<lparr>OSEventOwner := 0, OSEventState := AVAILABLE_RESOURCE\<rparr>"
  note hd = mutex_heldD [OF h]
  note ok = sys_okD(1) [OF s]
  from restore_priority_spec [OF ok h cu rdy] obtain k1 where
    k1: "restore_priority ?e k = Some k1" "kernel_ok C k1" "reprioritised k k1" "PriorityVector k1 = PriorityVector k"
    "\<forall>t. installed C k1 t = installed C k t"
    and P: "\<forall>t. Priority (tcb k1 t) = (if t = ?t then ?o else Priority (tcb k t))"
    and r: "prios (OSReadyList k1) = insert (unat ?o) (prios (OSReadyList k) - {prio_of k ?t})" .
  have s1: "sys_ok C k1 xs" by (rule restore_sys_ok [OF s h cu k1(2,3,5) r])
  let ?pv = "if ?c > 0 then (PriorityVector k)[unat ?c := MUTEX_PRIO] else PriorityVector k"
  let ?k = "k1\<lparr>PriorityVector := ?pv\<rparr>"
  have "OSEventWait ?e = 0" using wait_ok_0 [OF hd(3)] w by simp
  then have rel: "OSMutexRelease C (Some j) k tbl = Some (OK, ?k, tbl[j := ?e'])"
    using j hd(1,2) cu n k1(1,4) length_PriorityVector [OF kernel_okD(1) [OF ok]]
    by (simp add: OSMutexRelease_def)
  have nc: "prio_of k1 t \<noteq> unat ?c" if "?c > 0" "installed C k1 t" for t
    using that hd(12,14) cu k1(5) by (auto simp: P word_unat_eq_iff [symmetric])
  have ok': "kernel_ok C ?k"
  proof (cases "?c > 0")
    case True
    with reserve_ok [OF k1(2) hd(2) nc] show ?thesis by (simp add: k1(4))
  next
    case False
    have "?k = k1" using False by (simp add: k1(4) [symmetric])
    with k1(2) show ?thesis by simp
  qed
  have s': "sys_ok C ?k xs"
    by (rule reprioritised_sys_ok [OF s1 _ ok'])
      (use sys_okD(5) [OF s1] in \<open>auto simp: reprioritised_def installed_def runnable_def\<close>)
  have "mutex_free ?k ?e'"
    using hd(1,2,3) w length_PriorityVector [OF kernel_okD(1) [OF ok]]
    by (auto simp: mutex_free_def wait_ok_def waiters_def)
  with that rel k1(1) s' P show ?thesis by simp
qed

lemma same_event_mutex:
  fixes e e' :: BRTOS_Mutex
  assumes "same_event e e'"
  shows "OSEventState e' = OSEventState e" and "OSEventOwner e' = OSEventOwner e"
    and "OSMaxPriority e' = OSMaxPriority e" and "OSOriginalPriority e' = OSOriginalPriority e"
    and "OSEventAllocated e' = OSEventAllocated e"
  using assms by (cases e; cases e'; simp add: same_event_def)+

lemma mutex_release_handover:
  assumes s: "sys_ok C k xs" and n: "iNesting k = 0" and j: "j < length tbl" and h: "mutex_held C k (tbl ! j)"
    and cu: "OSEventOwner (tbl ! j) = currentTask k" and w: "waiters (tbl ! j) \<noteq> {}"
    and rdy: "prio_of k (unat (currentTask k)) \<in> prios (OSReadyList k)"
  obtains k' e' u where "OSMutexRelease C (Some j) k tbl = Some (OK, k', tbl[j := e'])"
    and "sys_ok C k' xs" and "runs_highest C k'"
    and "installed C k u" and "prio_of k u = Max (waiters (tbl ! j))"
    and "unat (OSEventOwner e') = u" and "OSEventState e' = BUSY_RESOURCE"
    and "wait_ok e'" and "waiters e' = waiters (tbl ! j) - {Max (waiters (tbl ! j))}"
    and "Max (waiters (tbl ! j)) \<in> prios (OSReadyList k')"
    and "Priority (tcb k' (unat (currentTask k))) = OSOriginalPriority (tbl ! j)"
    and "0 \<notin> waiters (tbl ! j) \<longrightarrow> mutex_granted C k' e'"
proof -
  let ?e = "(tbl ! j)\<lparr>OSEventOwner := 0\<rparr>" and ?t = "unat (currentTask k)"
  let ?o = "OSOriginalPriority (tbl ! j)" and ?M = "Max (waiters (tbl ! j))"
  note hd = mutex_heldD [OF h]
  note ok = sys_okD(1) [OF s]
  from restore_priority_spec [OF ok h cu rdy] obtain k1 where
    k1: "restore_priority (tbl ! j) k = Some k1" "kernel_ok C k1" "reprioritised k k1" "PriorityVector k1 = PriorityVector k"
    "\<forall>t. installed C k1 t = installed C k t"
    and P: "\<forall>t. Priority (tcb k1 t) = (if t = ?t then ?o else Priority (tcb k t))"
    and r: "prios (OSReadyList k1) = insert (unat ?o) (prios (OSReadyList k) - {prio_of k ?t})" .
  have s1: "sys_ok C k1 xs" by (rule restore_sys_ok [OF s h cu k1(2,3,5) r])
  have we: "waiters ?e = waiters (tbl ! j)" "wait_ok ?e" using hd(3) by (simp_all add: waiters_def wait_ok_def)
  have "?M \<in> waiters (tbl ! j)" using w by simp
  with hd(4) obtain u where u: "installed C k u" "prio_of k u = ?M" by (auto simp: waiters_installed_def)
  with hd(10) cu \<open>?M \<in> waiters (tbl ! j)\<close> have ut: "u \<noteq> ?t" by auto
  from w have w': "waiters ?e \<noteq> {}" using we by simp
  from event_select_spec [OF we(2) w', of C] obtain p e1 where
    e1: "event_select C ?e = Some (p, e1)" "unat p = Max (waiters ?e)" "wait_ok e1"
    "waiters e1 = waiters ?e - {Max (waiters ?e)}" "same_event ?e e1" .
  from e1(2) we(1) have pm: "unat p = ?M" by simp
  have u1: "installed C k1 u" "prio_of k1 u = unat p" using u ut k1(5) P pm by simp_all
  have ow: "unat (PriorityVector k1 ! unat p) = u" using installed_prio(2) [OF k1(2) u1(1)] u1(2) by simp
  have p32: "unat p < length (PriorityVector k1)"
    using installed_prio(1) [OF k1(2) u1(1)] u1(2) length_PriorityVector [OF kernel_okD(1) [OF k1(2)]] by simp
  from wake_priority_spec [OF s1 u1] obtain k2 where
    k2: "wake_priority C p k1 = Some k2" "readied k1 k2 (unat p)" "sys_ok C k2 xs" "currentTask k2 = currentTask k1" .
  from sys_ok_ChangeContext [OF k2(3)] obtain k' where
    k': "ChangeContext C k2 = Some k'" "same_kernel k2 k'" "sys_ok C k' xs" "iNesting k2 = 0 \<longrightarrow> runs_highest C k'" .
  have rk: "readied k1 k' (unat p)" by (rule readied_same_kernel [OF k2(2) k'(2)])
  have nz: "OSEventWait (tbl ! j) \<noteq> 0" using wait_ok_0 [OF hd(3)] w by simp
  let ?e' = "e1\<lparr>OSEventOwner := PriorityVector k1 ! unat p\<rparr>"
  have rel: "OSMutexRelease C (Some j) k tbl = Some (OK, k', tbl[j := ?e'])"
    using j hd(1) cu n k1(1) nz e1(1) p32 k2(1) k'(1) by (simp add: OSMutexRelease_def)
  have "iNesting k2 = 0" using n k1(3) by (simp add: frameD [OF readiedD(1) [OF k2(2)]] reprioritised_def)
  with k'(4) have hi: "runs_highest C k'" by blast
  have "wait_ok ?e'" "waiters ?e' = waiters (tbl ! j) - {?M}"
    using e1(3,4) we(1) by (simp_all add: wait_ok_def waiters_def)
  moreover have "OSEventState ?e' = BUSY_RESOURCE" using e1(5) hd(11) by (simp add: same_event_mutex)
  moreover have "?M \<in> prios (OSReadyList k')" using readiedD(3) [OF rk] pm by simp
  moreover have "Priority (tcb k' ?t) = ?o" using frameD(2) [OF readiedD(1) [OF rk]] P by simp
  moreover have "mutex_granted C k' ?e'" if z: "0 \<notin> waiters (tbl ! j)"
  proof -
    have P': "Priority (tcb k' v) = (if v = ?t then ?o else Priority (tcb k v))" for v
      using frameD(2) [OF readiedD(1) [OF rk]] P by simp
    have i': "installed C k' v = installed C k v" for v
      using frame_installed [OF readiedD(1) [OF rk]] k1(5) by simp
    have wt: "\<exists>v. installed C k v \<and> v \<noteq> ?t \<and> prio_of k v = q" if "q \<in> waiters (tbl ! j)" for q
      using that hd(4,10) cu by (auto simp: waiters_installed_def)
    have wi: "waiters_installed C k' ?e'"
      unfolding waiters_installed_def \<open>waiters ?e' = waiters (tbl ! j) - {?M}\<close> i' P'
      using wt by fastforce
    have c: "prio_of k' v \<noteq> unat (OSMaxPriority (tbl ! j))" if "OSMaxPriority (tbl ! j) > 0" "installed C k v" for v
      using that hd(12,14) cu by (auto simp: P' word_unat_eq_iff [symmetric])
    have "?M \<noteq> 0" using z \<open>?M \<in> waiters (tbl ! j)\<close> by metis
    moreover have "unat (OSMaxPriority (tbl ! j)) \<notin> waiters (tbl ! j)" if "OSMaxPriority (tbl ! j) > 0"
    proof
      assume "unat (OSMaxPriority (tbl ! j)) \<in> waiters (tbl ! j)"
      from wt [OF this] obtain v where "installed C k v" "v \<noteq> ?t" "prio_of k v = unat (OSMaxPriority (tbl ! j))"
        by blast
      with hd(14) [OF that, of v] cu show False by simp
    qed
    moreover have "OSEventAllocated ?e' = TRUE8" "OSEventState ?e' = BUSY_RESOURCE"
      "OSMaxPriority ?e' = OSMaxPriority (tbl ! j)"
      using e1(5) hd(1,11) by (simp_all add: same_event_mutex)
    moreover have "unat (OSEventOwner ?e') = u" using ow by simp
    moreover have "prio_of k' u = ?M" using u ut by (simp add: P')
    ultimately show ?thesis
      unfolding mutex_granted_def \<open>waiters ?e' = waiters (tbl ! j) - {?M}\<close>
      using wi c hd(2) u(1) \<open>wait_ok ?e'\<close> by (simp only: i') blast
  qed
  ultimately show ?thesis using that [OF rel k'(3) hi u] ow by simp
qed

section \<open>The new owner resumes\<close>

lemma raise_granted:
  assumes s: "sys_ok C k xs" and g: "mutex_granted C k e" and cu: "OSEventOwner e = currentTask k"
  defines "p \<equiv> Priority (tcb k (unat (currentTask k)))"
  obtains k' where "raise_priority (unat (currentTask k)) p (OSMaxPriority e) k = Some k'"
    and "sys_ok C k' xs" and "mutex_held C k' (e\<lparr>OSOriginalPriority := p\<rparr>)"
proof -
  let ?t = "unat (currentTask k)" and ?c = "OSMaxPriority e" and ?e' = "e\<lparr>OSOriginalPriority := p\<rparr>"
  have gd: "OSEventAllocated e = TRUE8" "OSEventState e = BUSY_RESOURCE" "unat ?c < 32" "wait_ok e"
    "waiters_installed C k e" "installed C k ?t" "prio_of k ?t \<noteq> 0" "prio_of k ?t \<notin> waiters e"
    and fr: "?c > 0 \<Longrightarrow> \<forall>u. installed C k u \<longrightarrow> prio_of k u \<noteq> unat ?c" "?c > 0 \<Longrightarrow> unat ?c \<notin> waiters e"
    using g cu by (auto simp: mutex_granted_def)
  note ok = sys_okD(1) [OF s]
  have p32: "unat p < 32" unfolding p_def by (rule installed_prio(1) [OF ok gd(6)])
  have p0: "p \<noteq> 0" using gd(7) by (auto simp: p_def)
  have pv: "unat (PriorityVector k ! unat p) = ?t" using installed_prio(2) [OF ok gd(6)] by (simp add: p_def)
  have we: "waiters ?e' = waiters e" "wait_ok ?e'" using gd(4) by (simp_all add: waiters_def wait_ok_def)
  have ne: "?c \<noteq> p" using fr(1) gd(6) p0 by (cases "?c > 0") (auto simp: p_def word_gt_0)
  show ?thesis
  proof (cases "?c > p")
    case True
    then have c1: "?c > 0" by (simp add: word_gt_0) (metis word_gt_0 less_trans p0)
    note rp = raise_priority_spec [OF ok gd(6,3) p_def [THEN meta_eq_to_obj_eq] True fr(1) [OF c1]]
    let ?k = "k\<lparr>ContextTask := (ContextTask k)[?t := (tcb k ?t)\<lparr>Priority := ?c\<rparr>],
      PriorityVector := (PriorityVector k)[unat ?c := currentTask k],
      OSReadyList := OSReadyList k AND NOT (PriorityMask ! unat p) OR PriorityMask ! unat ?c\<rparr>"
    have re: "reprioritised k ?k"
      using sys_okD(7) [OF s] by (simp add: reprioritised_def nth_list_update_if)
    have z: "0 \<in> prios (OSReadyList ?k)"
      using sys_okD(5) [OF s] p0 rp(3) by (auto simp: runnable_def unat_eq_0)
    have so: "sys_ok C ?k xs" by (rule reprioritised_sys_ok [OF s re rp(2) rp(4) z])
    have mx: "max p ?c = ?c" using True by simp
    have "unat ?c \<noteq> unat p" using ne by (simp add: word_unat_eq_iff)
    then have v: "(PriorityVector k)[unat ?c := currentTask k] ! unat p = PriorityVector k ! unat p"
      by (metis nth_list_update_neq)
    have wi: "waiters_installed C ?k ?e'"
      unfolding waiters_installed_def we(1)
    proof
      fix q assume q: "q \<in> waiters e"
      with gd(5) obtain u where u: "installed C k u" "prio_of k u = q" by (auto simp: waiters_installed_def)
      with q gd(8) have "u \<noteq> ?t" by auto
      with u show "\<exists>t. installed C ?k t \<and> prio_of ?k t = q"
        using rp(4) by (intro exI [of _ u]) simp
    qed
    have "mutex_held C ?k ?e'"
      using gd p32 p0 ne mx pv wi we sys_okD(7) [OF s] fr(1) [OF c1] fr(2) [OF c1] cu
      unfolding mutex_held_def by (simp add: rp(4) nth_list_update_if v) (simp add: p_def)
    with that rp(1) so show ?thesis by simp
  next
    case False
    then have r: "raise_priority ?t p ?c k = Some k" by (simp add: raise_priority_def)
    have mx: "max p ?c = p" using False by simp
    have "waiters_installed C k ?e'" using gd(5) we(1) by (simp add: waiters_installed_def)
    then have "mutex_held C k ?e'"
      using gd p32 p0 ne mx pv we fr cu unfolding mutex_held_def by (auto simp: p_def)
    with that r s show ?thesis by simp
  qed
qed

text \<open>Both ways a waiter that was handed the mutex can run again end with it holding the mutex.\<close>

lemma mutex_resume_forever:
  assumes s: "sys_ok C k xs" and j: "j < length tbl" and g: "mutex_granted C k (tbl ! j)"
    and cu: "OSEventOwner (tbl ! j) = currentTask k"
  defines "p \<equiv> Priority (tcb k (unat (currentTask k)))"
  obtains k' e' where "OSMutexAcquire_resume (Some j) 0 (unat (currentTask k)) p k tbl = Some (OK, k', tbl[j := e'])"
    and "sys_ok C k' xs" and "mutex_held C k' e'" and "OSEventOwner e' = OSEventOwner (tbl ! j)"
proof -
  from raise_granted [OF s g cu] obtain k' where
    "raise_priority (unat (currentTask k)) p (OSMaxPriority (tbl ! j)) k = Some k'" "sys_ok C k' xs"
    "mutex_held C k' ((tbl ! j)\<lparr>OSOriginalPriority := p\<rparr>)" unfolding p_def .
  with that j show ?thesis by (simp add: OSMutexAcquire_resume_def Let_def)
qed

lemma mutex_resume_timed:
  assumes s: "sys_ok C k xs" and j: "j < length tbl" and g: "mutex_granted C k (tbl ! j)"
    and cu: "OSEventOwner (tbl ! j) = currentTask k" and w: "w \<noteq> 0"
    and t: "TimeToWait (tcb k (unat (currentTask k))) = EXIT_BY_TIMEOUT \<or> unat (currentTask k) \<in> set xs"
  defines "p \<equiv> Priority (tcb k (unat (currentTask k)))"
  obtains k' e' xs' where "OSMutexAcquire_resume (Some j) w (unat (currentTask k)) p k tbl = Some (OK, k', tbl[j := e'])"
    and "sys_ok C k' xs'" and "mutex_held C k' e'" and "OSEventOwner e' = OSEventOwner (tbl ! j)"
proof -
  let ?t = "unat (currentTask k)" and ?e = "tbl ! j"
  have gd: "wait_ok ?e" "installed C k ?t" "prio_of k ?t \<notin> waiters ?e" "waiters_installed C k ?e"
    using g cu by (auto simp: mutex_granted_def)
  have p32: "unat p < 32" unfolding p_def by (rule installed_prio(1) [OF sys_okD(1) [OF s] gd(2)])
  obtain e1 k1 xs1 where pr: "pend_resume ?t p ?e k = Some (False, e1, k1)" and s1: "sys_ok C k1 xs1"
    and f: "frame k k1" and e1: "same_event ?e e1" "wait_ok e1" "waiters e1 \<subseteq> waiters ?e"
    and c1: "currentTask k1 = currentTask k"
  proof (cases "TimeToWait (tcb k ?t) = EXIT_BY_TIMEOUT")
    case True
    from pend_resume_timeout [OF gd(1) p32 sys_okD(7) [OF s] True] obtain e' where
      "pend_resume ?t p ?e k = Some (unat p \<in> waiters ?e, e', k)" "wait_ok e'"
      "waiters e' = waiters ?e - {unat p}" "same_event ?e e'" .
    with gd(3) s that [of e' k xs] show ?thesis by (auto simp: p_def)
  next
    case False
    with t have "?t \<in> set xs" by simp
    from pend_resume_posted [OF s this False, of p ?e] obtain k1 where
      "pend_resume ?t p ?e k = Some (False, ?e, k1)" "sys_ok C k1 (remove1 ?t xs)" "frame k k1"
      "currentTask k1 = currentTask k" .
    with gd(1) that [of ?e k1 "remove1 ?t xs"] show ?thesis by simp
  qed
  have g1: "mutex_granted C k1 e1"
    using g e1 waiters_installed_frame [OF f e1(3) gd(4)]
    by (auto simp: mutex_granted_def same_event_mutex frame_installed [OF f] frameD [OF f])
  have cu1: "OSEventOwner e1 = currentTask k1" using cu c1 e1(1) by (simp add: same_event_mutex)
  have pp: "Priority (tcb k1 ?t) = p" by (simp add: p_def frameD [OF f])
  from raise_granted [OF s1 g1 cu1] obtain k' where
    "raise_priority ?t p (OSMaxPriority e1) k1 = Some k'" "sys_ok C k' xs1"
    "mutex_held C k' (e1\<lparr>OSOriginalPriority := p\<rparr>)" unfolding c1 pp .
  with that j w pr e1(1) show ?thesis by (simp add: OSMutexAcquire_resume_def Let_def same_event_mutex)
qed


section \<open>Acquire and release cancel out\<close>

lemma raise_ready:
  assumes "t < length (ContextTask k)" and "unat c < 32" and "prio_of k t \<in> prios (OSReadyList k)"
    and "raise_priority t (Priority (tcb k t)) c k = Some k1"
  shows "prio_of k1 t \<in> prios (OSReadyList k1)"
proof (cases "c > Priority (tcb k t)")
  case True
  with assms(4) obtain ct pv m0 where "upd (ContextTask k) t (\<lambda>t. t\<lparr>Priority := c\<rparr>) = Some ct"
    "k1 = k\<lparr>ContextTask := ct, PriorityVector := pv, OSReadyList := (OSReadyList k AND NOT m0) OR PriorityMask ! unat c\<rparr>"
    using assms(2) by (simp add: raise_priority_def bind_eq_Some_conv) blast
  with assms(1,2) show ?thesis by (auto simp: prios_or prios_PriorityMask)
next
  case False
  with assms(3,4) show ?thesis by (simp add: raise_priority_def)
qed

lemma raise_restore:
  assumes ok: "kernel_ok C k" and i: "installed C k (unat (currentTask k))"
    and rdy: "prio_of k (unat (currentTask k)) \<in> prios (OSReadyList k)"
    and c: "unat c < 32" and v: "c > 0 \<Longrightarrow> PriorityVector k ! unat c = MUTEX_PRIO"
    and r: "raise_priority (unat (currentTask k)) (Priority (tcb k (unat (currentTask k)))) c k = Some k1"
    and e: "OSOriginalPriority e = Priority (tcb k (unat (currentTask k)))"
    and r': "restore_priority e k1 = Some k2"
  shows "k2\<lparr>PriorityVector := if c > 0 then (PriorityVector k1)[unat c := MUTEX_PRIO] else PriorityVector k1\<rparr> = k"
proof (cases "c > Priority (tcb k (unat (currentTask k)))")
  case True
  let ?t = "unat (currentTask k)"
  let ?p = "Priority (tcb k ?t)"
  from True have c1: "c > 0" by (metis word_gt_0 word_coorder.not_eq_extremum less_trans)
  have fr: "\<forall>t. installed C k t \<longrightarrow> prio_of k t \<noteq> unat c" using reserved_ceiling [OF ok v [OF c1]] by blast
  have p32: "unat ?p < 32" by (rule installed_prio(1) [OF ok i])
  have tb: "?t < length (ContextTask k)" by (rule installed_index [OF ok i])
  have l: "unat c < length (PriorityVector k)" using c length_PriorityVector [OF kernel_okD(1) [OF ok]] by simp
  have cr: "unat c \<notin> prios (OSReadyList k)" using ready_task [OF ok] fr by metis
  let ?R = "OSReadyList k AND NOT (PriorityMask ! unat ?p) OR PriorityMask ! unat c"
  have k1: "k1 = k\<lparr>ContextTask := (ContextTask k)[?t := (tcb k ?t)\<lparr>Priority := c\<rparr>],
      PriorityVector := (PriorityVector k)[unat c := currentTask k], OSReadyList := ?R\<rparr>"
    using raise_priority_spec(1) [OF ok i c refl True fr] r by simp
  have R: "?R AND NOT (PriorityMask ! unat c) OR PriorityMask ! unat ?p = OSReadyList k"
    by (rule prios_eqI)
      (use c p32 rdy cr in \<open>auto simp: prios_or prios_and_not prios_PriorityMask\<close>)
  have "c \<noteq> ?p" using True by auto
  then have k2: "k2 = k1\<lparr>OSReadyList := OSReadyList k, ContextTask := ContextTask k\<rparr>"
    using r' tb c p32 e R by (simp add: k1 restore_priority_def)
  have "(PriorityVector k)[unat c := MUTEX_PRIO] = PriorityVector k"
    using v [OF c1] by (metis list_update_id)
  then show ?thesis using c1 by (simp add: k2 k1)
next
  case False
  have tb: "unat (currentTask k) < length (ContextTask k)" by (rule installed_index [OF ok i])
  from False r have k1: "k1 = k" by (simp add: raise_priority_def)
  with r' tb e have k2: "k2 = k" by (simp add: restore_priority_def)
  show ?thesis
  proof (cases "c > 0")
    case True
    then have "(PriorityVector k)[unat c := MUTEX_PRIO] = PriorityVector k" using v by (metis list_update_id)
    with True show ?thesis by (simp add: k1 k2)
  next
    case False
    then show ?thesis by (simp add: k1 k2)
  qed
qed

lemma mutex_acquire_release:
  assumes s: "sys_ok C k xs" and n: "iNesting k = 0" and i: "installed C k (unat (currentTask k))"
    and p: "prio_of k (unat (currentTask k)) \<noteq> 0" and m: "mutex_free k (tbl ! j)" and j: "j < length tbl"
    and rdy: "prio_of k (unat (currentTask k)) \<in> prios (OSReadyList k)"
  shows "\<exists>k1 tbl1. OSMutexAcquire C (Some j) w k tbl = Some (Return OK (k1, tbl1)) \<and>
     OSMutexRelease C (Some j) k1 tbl1 =
       Some (OK, k, tbl[j := (tbl ! j)\<lparr>OSOriginalPriority := Priority (tcb k (unat (currentTask k)))\<rparr>])"
proof -
  let ?t = "unat (currentTask k)"
  let ?e = "tbl ! j" and ?p = "Priority (tcb k ?t)"
  note ok = sys_okD(1) [OF s]
  from mutex_acquire_free [OF s n i p m j, of w] obtain k1 e1 where
    a: "OSMutexAcquire C (Some j) w k tbl = Some (Return OK (k1, tbl[j := e1]))"
    and e1: "e1 = ?e\<lparr>OSEventState := BUSY_RESOURCE, OSEventOwner := currentTask k, OSOriginalPriority := ?p\<rparr>"
    and r: "raise_priority ?t ?p (OSMaxPriority ?e) k = Some k1"
    and s1: "sys_ok C k1 xs" and h: "mutex_held C k1 e1" and re: "reprioritised k k1" .
  have c1: "currentTask k1 = currentTask k" "iNesting k1 = 0" using re n by (simp_all add: reprioritised_def)
  have mf: "unat (OSMaxPriority ?e) < 32" "OSMaxPriority ?e > 0 \<Longrightarrow> PriorityVector k ! unat (OSMaxPriority ?e) = MUTEX_PRIO"
    and w: "waiters ?e = {}" and eo: "OSEventOwner ?e = 0" "OSEventState ?e = AVAILABLE_RESOURCE"
    using m by (auto simp: mutex_free_def)
  have rdy1: "prio_of k1 (unat (currentTask k1)) \<in> prios (OSReadyList k1)"
    unfolding c1(1) by (rule raise_ready [OF sys_okD(7) [OF s] mf(1) rdy r])
  have j1: "j < length (tbl[j := e1])" and t1: "tbl[j := e1] ! j = e1" using j by simp_all
  have w1: "waiters e1 = {}" using w e1 by (simp add: waiters_def)
  have o1: "OSEventOwner e1 = currentTask k1" using e1 c1 by simp
  from mutex_release_free [OF s1 c1(2) j1, unfolded t1, OF h o1 w1 rdy1] obtain k2 k' e' where
    rel: "OSMutexRelease C (Some j) k1 (tbl[j := e1]) = Some (OK, k', tbl[j := e1, j := e'])"
    and e': "e' = e1\<lparr>OSEventOwner := 0, OSEventState := AVAILABLE_RESOURCE\<rparr>"
    and r2: "restore_priority e1 k1 = Some k2"
    and k': "k' = k2\<lparr>PriorityVector := if OSMaxPriority e1 > 0
        then (PriorityVector k1)[unat (OSMaxPriority e1) := MUTEX_PRIO] else PriorityVector k1\<rparr>" .
  have mx: "OSMaxPriority e1 = OSMaxPriority ?e" and og: "OSOriginalPriority e1 = ?p" using e1 by simp_all
  have "k' = k" unfolding k' mx by (rule raise_restore [OF ok i rdy mf r og r2])
  moreover have "e' = ?e\<lparr>OSOriginalPriority := ?p\<rparr>" using e1 eo by (simp add: e')
  ultimately show ?thesis using a rel by auto
qed

end
