(* ===== verification/Mailbox.thy ===== *)
theory Mailbox
  imports Events
begin

text \<open>
  \<^verbatim>\<open>src/brtos/mbox.c\<close>: mailboxes that hold one message, a \<^verbatim>\<open>void *\<close> (a word, 0 for
  the null pointer). The variable \<^verbatim>\<open>*Mail\<close> of the caller is passed in and returned. A pend
  that blocks is split at \<^verbatim>\<open>ChangeContext\<close>.
\<close>

section \<open>The operations\<close>

record BRTOS_Mbox = event_block +
  OSEventState :: uint8_t
  OSEventPointer :: uint32_t

definition OSMboxCreate :: "ptr \<Rightarrow> uint32_t \<Rightarrow> kernel \<Rightarrow> BRTOS_Mbox list \<Rightarrow> uint8_t \<times> ptr \<times> BRTOS_Mbox list" where
  "OSMboxCreate event message k BRTOS_Mbox_Table =
    (if iNesting k > 0 then (IRQ_PEND_ERR, event, BRTOS_Mbox_Table)
     else case free_block BRTOS_Mbox_Table of
       None \<Rightarrow> (NO_AVAILABLE_EVENT, event, BRTOS_Mbox_Table)
     | Some i \<Rightarrow>
        let e = (BRTOS_Mbox_Table ! i)\<lparr>OSEventAllocated := TRUE8\<rparr>;
            e = (if message \<noteq> 0 then e\<lparr>OSEventState := AVAILABLE_MESSAGE\<rparr>
                 else e\<lparr>OSEventState := NO_MESSAGE\<rparr>);
            e = e\<lparr>OSEventPointer := message, OSEventWait := 0, OSEventWaitList := 0\<rparr>
        in (ALLOC_EVENT_OK, Some i, BRTOS_Mbox_Table[i := e]))"

definition OSMboxDelete :: "ptr \<Rightarrow> kernel \<Rightarrow> BRTOS_Mbox list \<Rightarrow> (uint8_t \<times> ptr \<times> BRTOS_Mbox list) option" where
  "OSMboxDelete event k BRTOS_Mbox_Table =
    (if iNesting k > 0 then Some (IRQ_PEND_ERR, event, BRTOS_Mbox_Table)
     else do {
       i \<leftarrow> event;
       tbl \<leftarrow> upd BRTOS_Mbox_Table i
         (\<lambda>e. e\<lparr>OSEventAllocated := 0, OSEventPointer := 0, OSEventWait := 0,
                 OSEventState := NO_MESSAGE, OSEventWaitList := 0\<rparr>);
       Some (DELETE_EVENT_OK, None, tbl) })"

definition OSMboxPend :: "config \<Rightarrow> ptr \<Rightarrow> uint32_t \<Rightarrow> ostick_t \<Rightarrow> kernel \<Rightarrow> BRTOS_Mbox list \<Rightarrow>
    (kernel \<times> BRTOS_Mbox list \<times> uint32_t) outcome option" where
  "OSMboxPend C pont_event Mail time_wait k BRTOS_Mbox_Table =
    (if ERROR_CHECK C \<and> iNesting k > 0 then Some (Return IRQ_PEND_ERR (k, BRTOS_Mbox_Table, 0))
     else if ERROR_CHECK C \<and> pont_event = None
     then Some (Return NULL_EVENT_POINTER (k, BRTOS_Mbox_Table, Mail))
     else do {
       i \<leftarrow> pont_event;
       e \<leftarrow> rd BRTOS_Mbox_Table i;
       if ERROR_CHECK C \<and> OSEventAllocated e \<noteq> TRUE8
       then Some (Return ERR_EVENT_NO_CREATED (k, BRTOS_Mbox_Table, Mail))
       else if OSEventState e = AVAILABLE_MESSAGE
       then Some (Return OK (k, BRTOS_Mbox_Table[i := e\<lparr>OSEventState := NO_MESSAGE\<rparr>], OSEventPointer e))
       else if time_wait = NO_TIMEOUT
       then Some (Return EXIT_BY_NO_ENTRY_AVAILABLE (k, BRTOS_Mbox_Table, Mail))
       else do {
         (iPriority, e, k) \<leftarrow> pend_suspend C MAILBOX time_wait e k;
         k \<leftarrow> ChangeContext C k;
         Some (Suspend iPriority (k, BRTOS_Mbox_Table[i := e], Mail)) } })"

definition OSMboxPend_resume :: "ptr \<Rightarrow> ostick_t \<Rightarrow> nat \<Rightarrow> uint8_t \<Rightarrow> kernel \<Rightarrow> BRTOS_Mbox list \<Rightarrow>
    (uint8_t \<times> kernel \<times> BRTOS_Mbox list \<times> uint32_t) option" where
  "OSMboxPend_resume pont_event time_wait Task iPriority k BRTOS_Mbox_Table = do {
     i \<leftarrow> pont_event;
     e \<leftarrow> rd BRTOS_Mbox_Table i;
     (expired, e, k) \<leftarrow> (if time_wait \<noteq> 0 then pend_resume Task iPriority e k else Some (False, e, k));
     if expired then Some (TIMEOUT, k, BRTOS_Mbox_Table[i := e], 0)
     else Some (OK, k, BRTOS_Mbox_Table[i := e\<lparr>OSEventState := NO_MESSAGE\<rparr>], OSEventPointer e) }"

definition OSMboxPost :: "config \<Rightarrow> ptr \<Rightarrow> uint32_t \<Rightarrow> kernel \<Rightarrow> BRTOS_Mbox list \<Rightarrow>
    (uint8_t \<times> kernel \<times> BRTOS_Mbox list) option" where
  "OSMboxPost C pont_event message k BRTOS_Mbox_Table =
    (if ERROR_CHECK C \<and> pont_event = None then Some (NULL_EVENT_POINTER, k, BRTOS_Mbox_Table)
     else do {
       i \<leftarrow> pont_event;
       e \<leftarrow> rd BRTOS_Mbox_Table i;
       if ERROR_CHECK C \<and> OSEventAllocated e \<noteq> TRUE8
       then Some (ERR_EVENT_NO_CREATED, k, BRTOS_Mbox_Table)
       else if OSEventWait e \<noteq> 0
       then do {
         (_, e, k) \<leftarrow> post_wake C e k;
         let e = e\<lparr>OSEventPointer := message, OSEventState := AVAILABLE_MESSAGE\<rparr>;
         k \<leftarrow> (if iNesting k = 0 then ChangeContext C k else Some k);
         Some (OK, k, BRTOS_Mbox_Table[i := e]) }
       else Some (OK, k, BRTOS_Mbox_Table[i := e\<lparr>OSEventPointer := message, OSEventState := AVAILABLE_MESSAGE\<rparr>]) })"

section \<open>Message transfer\<close>

definition mbox_inv :: "config \<Rightarrow> kernel \<Rightarrow> BRTOS_Mbox \<Rightarrow> bool" where
  "mbox_inv C k e \<longleftrightarrow> OSEventAllocated e = TRUE8 \<and> wait_ok e \<and> waiters_installed C k e"

lemma same_event_mbox:
  fixes e e' :: BRTOS_Mbox
  assumes "same_event e e'"
  shows "OSEventState e' = OSEventState e" and "OSEventPointer e' = OSEventPointer e"
    and "OSEventAllocated e' = OSEventAllocated e"
  using assms by (cases e; cases e'; simp add: same_event_def)+

lemma mbox_inv_update [simp]:
  "mbox_inv C k (e\<lparr>OSEventPointer := a\<rparr>) = mbox_inv C k e"
  "mbox_inv C k (e\<lparr>OSEventState := b\<rparr>) = mbox_inv C k e"
  by (simp_all add: mbox_inv_def wait_ok_def waiters_def waiters_installed_def)

lemma mbox_inv_less:
  assumes "mbox_inv C k e" and "frame k k'" and "wait_ok e'" and "waiters e' \<subseteq> waiters e" and "same_event e e'"
  shows "mbox_inv C k' e'"
  using assms waiters_installed_frame [OF assms(2,4)] by (simp add: mbox_inv_def same_event_mbox)

lemma OSMboxPost_wake:
  assumes s: "sys_ok C k xs" and i: "i < length tbl" and e: "mbox_inv C k (tbl ! i)" and w: "waiters (tbl ! i) \<noteq> {}"
  obtains k' e' where "OSMboxPost C (Some i) m k tbl = Some (OK, k', tbl[i := e'])"
    and "sys_ok C k' xs" and "readied k k' (Max (waiters (tbl ! i)))" and "mbox_inv C k' e'"
    and "waiters e' = waiters (tbl ! i) - {Max (waiters (tbl ! i))}"
    and "OSEventPointer e' = m" and "OSEventState e' = AVAILABLE_MESSAGE"
    and "iNesting k = 0 \<longrightarrow> runs_highest C k'"
proof -
  let ?e = "tbl ! i"
  from e have ei: "wait_ok ?e" "waiters_installed C k ?e" "OSEventAllocated ?e = TRUE8" by (auto simp: mbox_inv_def)
  from post_switch_spec [OF s ei(1) w ei(2)] obtain p e1 k1 k' where
    k1: "post_wake C ?e k = Some (p, e1, k1)"
    and k': "(if iNesting k1 = 0 then ChangeContext C k1 else Some k1) = Some k'"
    and e1: "wait_ok e1" "waiters e1 = waiters ?e - {Max (waiters ?e)}" "same_event ?e e1"
    and r: "readied k k' (Max (waiters ?e))" and s': "sys_ok C k' xs"
    and hi: "iNesting k = 0 \<longrightarrow> runs_highest C k'" and nz: "OSEventWait ?e \<noteq> 0" .
  let ?e' = "e1\<lparr>OSEventPointer := m, OSEventState := AVAILABLE_MESSAGE\<rparr>"
  have "mbox_inv C k' e1"
    by (rule mbox_inv_less [OF e readiedD(1) [OF r] e1(1) _ e1(3)]) (use e1(2) in auto)
  then have "mbox_inv C k' ?e'" by simp
  moreover have "OSMboxPost C (Some i) m k tbl = Some (OK, k', tbl[i := ?e'])"
    using i ei(3) nz k1 k' by (simp add: OSMboxPost_def)
  moreover have "waiters ?e' = waiters ?e - {Max (waiters ?e)}" using e1(2) by (simp add: waiters_def)
  ultimately show ?thesis using that s' r hi by simp
qed

lemma OSMboxPost_store:
  assumes "i < length tbl" and "mbox_inv C k (tbl ! i)" and "waiters (tbl ! i) = {}"
  shows "OSMboxPost C (Some i) m k tbl =
    Some (OK, k, tbl[i := (tbl ! i)\<lparr>OSEventPointer := m, OSEventState := AVAILABLE_MESSAGE\<rparr>])"
proof -
  have "OSEventWait (tbl ! i) = 0" using assms(2,3) wait_ok_0 [of "tbl ! i"] by (simp add: mbox_inv_def)
  with assms(1,2) show ?thesis by (simp add: OSMboxPost_def mbox_inv_def)
qed

text \<open>Round trip through an empty mailbox: the pend takes the posted message and empties the slot.\<close>

lemma OSMboxPost_Pend:
  assumes "i < length tbl" and "mbox_inv C k (tbl ! i)" and "waiters (tbl ! i) = {}" and "iNesting k = 0"
  shows "\<exists>tbl'. OSMboxPost C (Some i) m k tbl = Some (OK, k, tbl') \<and>
     OSMboxPend C (Some i) Mail w k tbl' =
       Some (Return OK (k, tbl[i := (tbl ! i)\<lparr>OSEventPointer := m, OSEventState := NO_MESSAGE\<rparr>], m))"
  using assms OSMboxPost_store [OF assms(1-3), of m]
  by (simp add: OSMboxPend_def mbox_inv_def)

lemma OSMboxPend_block:
  assumes s: "sys_ok C k xs" and n: "iNesting k = 0" and i: "installed C k (unat (currentTask k))"
    and p: "prio_of k (unat (currentTask k)) \<noteq> 0" and t: "unat (currentTask k) \<notin> set xs"
    and j: "j < length tbl" and e: "mbox_inv C k (tbl ! j)" "prio_of k (unat (currentTask k)) \<notin> waiters (tbl ! j)"
    and c: "OSEventState (tbl ! j) \<noteq> AVAILABLE_MESSAGE" and w: "w \<noteq> NO_TIMEOUT"
  obtains k' e' where
    "OSMboxPend C (Some j) Mail w k tbl = Some (Suspend (Priority (tcb k (unat (currentTask k)))) (k', tbl[j := e'], Mail))"
    and "sys_ok C k' (if w = 0 then xs else xs @ [unat (currentTask k)])"
    and "slept k k' (unat (currentTask k)) (wait_stamp (OSTickCounter k) w)"
    and "mbox_inv C k' e'" and "waiters e' = insert (prio_of k (unat (currentTask k))) (waiters (tbl ! j))"
    and "runs_highest C k'"
proof -
  let ?t = "unat (currentTask k)"
  from e(1) have ei: "wait_ok (tbl ! j)" "waiters_installed C k (tbl ! j)" "OSEventAllocated (tbl ! j) = TRUE8"
    by (auto simp: mbox_inv_def)
  from pend_switch_spec [OF s n i p t ei(1,2) e(2), of MAILBOX w] obtain e' k1 k' where
    k1: "pend_suspend C MAILBOX w (tbl ! j) k = Some (Priority (tcb k ?t), e', k1)" "ChangeContext C k1 = Some k'"
    and k': "sys_ok C k' (if w = 0 then xs else xs @ [?t])" "slept k k' ?t (wait_stamp (OSTickCounter k) w)"
      "runs_highest C k'"
    and e': "wait_ok e'" "waiters e' = insert (prio_of k ?t) (waiters (tbl ! j))" "waiters_installed C k' e'"
      "same_event (tbl ! j) e'" .
  have "mbox_inv C k' e'" using e' ei(3) by (simp add: mbox_inv_def same_event_mbox)
  moreover have "OSMboxPend C (Some j) Mail w k tbl = Some (Suspend (Priority (tcb k ?t)) (k', tbl[j := e'], Mail))"
    using j ei(3) c w n k1 by (simp add: OSMboxPend_def)
  ultimately show ?thesis using that k' e' by simp
qed

text \<open>
  What a waiter finds when it runs again: the message of the mailbox, or the null pointer after
  a time-out that no post overtook.
\<close>

lemma OSMboxPend_resume_message:
  assumes "i < length tbl" and "mbox_inv C k (tbl ! i)"
  shows "OSMboxPend_resume (Some i) 0 t p k tbl =
    Some (OK, k, tbl[i := (tbl ! i)\<lparr>OSEventState := NO_MESSAGE\<rparr>], OSEventPointer (tbl ! i))"
  using assms by (simp add: OSMboxPend_resume_def)

lemma OSMboxPend_resume_timeout:
  assumes "i < length tbl" and "mbox_inv C k (tbl ! i)" and "unat p < 32" and "t < length (ContextTask k)"
    and "w \<noteq> 0" and "TimeToWait (tcb k t) = EXIT_BY_TIMEOUT"
  obtains e' where "unat p \<in> waiters (tbl ! i) \<longrightarrow>
      OSMboxPend_resume (Some i) w t p k tbl = Some (TIMEOUT, k, tbl[i := e'], 0)"
    and "unat p \<notin> waiters (tbl ! i) \<longrightarrow> OSMboxPend_resume (Some i) w t p k tbl =
      Some (OK, k, tbl[i := e'\<lparr>OSEventState := NO_MESSAGE\<rparr>], OSEventPointer (tbl ! i))"
    and "mbox_inv C k e'" and "waiters e' = waiters (tbl ! i) - {unat p}"
    and "OSEventState e' = OSEventState (tbl ! i)" and "OSEventPointer e' = OSEventPointer (tbl ! i)"
proof -
  have "wait_ok (tbl ! i)" using assms(2) by (simp add: mbox_inv_def)
  from pend_resume_timeout [OF this assms(3,4,6)] obtain e' where
    r: "pend_resume t p (tbl ! i) k = Some (unat p \<in> waiters (tbl ! i), e', k)"
    and e': "wait_ok e'" "waiters e' = waiters (tbl ! i) - {unat p}" "same_event (tbl ! i) e'" .
  have "mbox_inv C k e'" by (rule mbox_inv_less [OF assms(2) frame_refl e'(1) _ e'(3)]) (use e'(2) in auto)
  with that [of e'] r e' assms(1,5) show ?thesis
    by (simp add: OSMboxPend_resume_def same_event_mbox)
qed

end
