(* ===== verification/Ring.thy ===== *)
theory Ring
  imports Kernel
begin

text \<open>
  The ring buffers of \<^verbatim>\<open>src/brtos/queue.c\<close>: the four pointers and two counters of
  \<^verbatim>\<open>OS_QUEUE\<close>, \<^verbatim>\<open>OS_QUEUE_16\<close>, \<^verbatim>\<open>OS_QUEUE_32\<close> and \<^verbatim>\<open>OS_DQUEUE\<close> over a byte
  memory, with the buffers' write, read and clean functions for cells of 8, 16 and 32 bits. The
  code is the same for every width: the definitions take the width and the encoding of a
  cell as arguments. The locale \<open>fifo\<close> states what a bounded queue promises, and the
  refinement relation \<open>ring\<close> shows that the pointers implement it.
\<close>

section \<open>Memory\<close>

text \<open>
  Storing and loading a block of bytes at a byte address; the result is undefined outside the
  memory.
\<close>

definition store :: "uint8_t list \<Rightarrow> nat \<Rightarrow> uint8_t list \<Rightarrow> uint8_t list option" where
  "store mem p bs =
    (if p + length bs \<le> length mem then Some (take p mem @ bs @ drop (p + length bs) mem) else None)"

definition load :: "uint8_t list \<Rightarrow> nat \<Rightarrow> nat \<Rightarrow> uint8_t list option" where
  "load mem p n = (if p + n \<le> length mem then Some (take n (drop p mem)) else None)"

text \<open>Cells in little-endian order, as the Cortex-M stores them.\<close>

definition enc8 :: "uint8_t \<Rightarrow> uint8_t list" where "enc8 x = [x]"

definition dec8 :: "uint8_t list \<Rightarrow> uint8_t" where "dec8 bs = bs ! 0"

definition enc16 :: "uint16_t \<Rightarrow> uint8_t list" where "enc16 x = [ucast x, ucast (drop_bit 8 x)]"

definition dec16 :: "uint8_t list \<Rightarrow> uint16_t" where
  "dec16 bs = ucast (bs ! 0) OR push_bit 8 (ucast (bs ! 1))"

definition enc32 :: "uint32_t \<Rightarrow> uint8_t list" where
  "enc32 x = [ucast x, ucast (drop_bit 8 x), ucast (drop_bit 16 x), ucast (drop_bit 24 x)]"

definition dec32 :: "uint8_t list \<Rightarrow> uint32_t" where
  "dec32 bs = ucast (bs ! 0) OR push_bit 8 (ucast (bs ! 1)) OR push_bit 16 (ucast (bs ! 2)) OR
     push_bit 24 (ucast (bs ! 3))"

section \<open>The operations\<close>

record OS_QUEUE =
  OSQStart :: nat
  OSQEnd :: nat
  OSQIn :: nat
  OSQOut :: nat
  OSQSize :: uint16_t
  OSQEntries :: uint16_t

text \<open>
  The body of the write functions: \<^verbatim>\<open>*cqueue->OSQIn = data; cqueue->OSQIn++\<close> with a
  pointer that advances by the size of a cell.
\<close>

definition queue_write :: "nat \<Rightarrow> ('c \<Rightarrow> uint8_t list) \<Rightarrow> 'q OS_QUEUE_scheme \<Rightarrow> 'c \<Rightarrow> uint8_t list \<Rightarrow>
    (uint8_t \<times> 'q OS_QUEUE_scheme \<times> uint8_t list) option" where
  "queue_write width enc cqueue data mem =
    (if OSQEntries cqueue < OSQSize cqueue then do {
       let q = cqueue\<lparr>OSQEntries := OSQEntries cqueue + 1\<rparr>;
       let q = (if OSQIn q = OSQEnd q then q\<lparr>OSQIn := OSQStart q\<rparr> else q);
       mem \<leftarrow> store mem (OSQIn q) (enc data);
       Some (WRITE_BUFFER_OK, q\<lparr>OSQIn := OSQIn q + width\<rparr>, mem) }
     else Some (BUFFER_UNDERRUN, cqueue, mem))"

text \<open>The lines that take the oldest cell, common to the read functions and to the pend functions.\<close>

definition queue_take :: "nat \<Rightarrow> (uint8_t list \<Rightarrow> 'c) \<Rightarrow> 'q OS_QUEUE_scheme \<Rightarrow> uint8_t list \<Rightarrow>
    ('c \<times> 'q OS_QUEUE_scheme) option" where
  "queue_take width dec cqueue mem = do {
     let q = (if OSQOut cqueue = OSQEnd cqueue then cqueue\<lparr>OSQOut := OSQStart cqueue\<rparr> else cqueue);
     bs \<leftarrow> load mem (OSQOut q) width;
     Some (dec bs, q\<lparr>OSQOut := OSQOut q + width, OSQEntries := OSQEntries q - 1\<rparr>) }"

text \<open>\<open>pdata\<close> is the variable behind the output pointer.\<close>

definition queue_read :: "nat \<Rightarrow> (uint8_t list \<Rightarrow> 'c) \<Rightarrow> 'q OS_QUEUE_scheme \<Rightarrow> 'c \<Rightarrow> uint8_t list \<Rightarrow>
    (uint8_t \<times> 'c \<times> 'q OS_QUEUE_scheme) option" where
  "queue_read width dec cqueue pdata mem =
    (if OSQEntries cqueue > 0
     then map_option (\<lambda>(d, q). (READ_BUFFER_OK, d, q)) (queue_take width dec cqueue mem)
     else Some (NO_ENTRY_AVAILABLE, pdata, cqueue))"

definition queue_clean :: "'q OS_QUEUE_scheme \<Rightarrow> uint8_t \<times> 'q OS_QUEUE_scheme" where
  "queue_clean cqueue =
    (CLEAN_BUFFER_OK, cqueue\<lparr>OSQEntries := 0, OSQIn := OSQStart cqueue, OSQOut := OSQStart cqueue\<rparr>)"

definition OSWQueue :: "OS_QUEUE \<Rightarrow> uint8_t \<Rightarrow> uint8_t list \<Rightarrow> (uint8_t \<times> OS_QUEUE \<times> uint8_t list) option" where
  "OSWQueue = queue_write 1 enc8"

definition OSRQueue :: "OS_QUEUE \<Rightarrow> uint8_t \<Rightarrow> uint8_t list \<Rightarrow> (uint8_t \<times> uint8_t \<times> OS_QUEUE) option" where
  "OSRQueue = queue_read 1 dec8"

definition OSWQueue16 :: "OS_QUEUE \<Rightarrow> uint16_t \<Rightarrow> uint8_t list \<Rightarrow> (uint8_t \<times> OS_QUEUE \<times> uint8_t list) option" where
  "OSWQueue16 = queue_write 2 enc16"

definition OSRQueue16 :: "OS_QUEUE \<Rightarrow> uint16_t \<Rightarrow> uint8_t list \<Rightarrow> (uint8_t \<times> uint16_t \<times> OS_QUEUE) option" where
  "OSRQueue16 = queue_read 2 dec16"

definition OSCleanQueue16 :: "OS_QUEUE \<Rightarrow> uint8_t \<times> OS_QUEUE" where
  "OSCleanQueue16 = queue_clean"

definition OSWQueue32 :: "OS_QUEUE \<Rightarrow> uint32_t \<Rightarrow> uint8_t list \<Rightarrow> (uint8_t \<times> OS_QUEUE \<times> uint8_t list) option" where
  "OSWQueue32 = queue_write 4 enc32"

definition OSRQueue32 :: "OS_QUEUE \<Rightarrow> uint32_t \<Rightarrow> uint8_t list \<Rightarrow> (uint8_t \<times> uint32_t \<times> OS_QUEUE) option" where
  "OSRQueue32 = queue_read 4 dec32"

definition OSCleanQueue32 :: "OS_QUEUE \<Rightarrow> uint8_t \<times> OS_QUEUE" where
  "OSCleanQueue32 = queue_clean"

text \<open>
  The ring part of the create functions: \<open>qsize\<close> cells starting at the word
  \<open>iQueueAddress\<close> of \<^verbatim>\<open>QUEUE_STACK\<close>.
\<close>

definition queue_setup :: "nat \<Rightarrow> uint16_t \<Rightarrow> uint16_t \<Rightarrow> OS_QUEUE" where
  "queue_setup width addr qsize =
    (let start = 4 * unat addr in
     \<lparr>OSQStart = start, OSQEnd = start + width * unat qsize, OSQIn = start, OSQOut = start,
      OSQSize = qsize, OSQEntries = 0\<rparr>)"

definition OSQueue16Create :: "config \<Rightarrow> OS_QUEUE \<Rightarrow> uint16_t \<Rightarrow> kernel \<Rightarrow> uint8_t \<times> OS_QUEUE \<times> kernel" where
  "OSQueue16Create C cqueue qsize k =
    (if iNesting k > 0 then (IRQ_PEND_ERR, cqueue, k)
     else let qsize = (if (unat qsize * 2) mod sizeof_OS_CPU_TYPE \<noteq> 0 then qsize + 1 else qsize) in
       if unat (iQueueAddress k) + unat qsize * 2 div sizeof_OS_CPU_TYPE > QUEUE_HEAP_SIZE C div sizeof_OS_CPU_TYPE
       then (NO_MEMORY, cqueue, k)
       else (ALLOC_EVENT_OK, queue_setup 2 (iQueueAddress k) qsize,
             k\<lparr>iQueueAddress := of_nat (unat (iQueueAddress k) + unat qsize * 2 div sizeof_OS_CPU_TYPE)\<rparr>))"

definition OSQueue32Create :: "config \<Rightarrow> OS_QUEUE \<Rightarrow> uint16_t \<Rightarrow> kernel \<Rightarrow> uint8_t \<times> OS_QUEUE \<times> kernel" where
  "OSQueue32Create C cqueue qsize k =
    (if iNesting k > 0 then (IRQ_PEND_ERR, cqueue, k)
     else if unat (iQueueAddress k) + unat qsize * 4 div sizeof_OS_CPU_TYPE > QUEUE_HEAP_SIZE C div sizeof_OS_CPU_TYPE
     then (NO_MEMORY, cqueue, k)
     else (ALLOC_EVENT_OK, queue_setup 4 (iQueueAddress k) qsize,
           k\<lparr>iQueueAddress := of_nat (unat (iQueueAddress k) + unat qsize * 4 div sizeof_OS_CPU_TYPE)\<rparr>))"

section \<open>Loading what was stored\<close>

lemma store_length: "store mem p bs = Some mem' \<Longrightarrow> length mem' = length mem"
  by (auto simp: store_def split: if_splits)

lemma load_store_same: "store mem p bs = Some mem' \<Longrightarrow> load mem' p (length bs) = Some bs"
  by (auto simp: store_def load_def split: if_splits)

lemma take_drop_append_other:
  assumes "p + length bs \<le> length mem" and "q + n \<le> p \<or> p + length bs \<le> q" and "q + n \<le> length mem"
  shows "take n (drop q (take p mem @ bs @ drop (p + length bs) mem)) = take n (drop q mem)"
proof (rule nth_equalityI)
  let ?L = "take p mem @ bs @ drop (p + length bs) mem"
  have len: "length ?L = length mem" using assms(1) by simp
  show "length (take n (drop q ?L)) = length (take n (drop q mem))"
    by (simp only: length_take length_drop len)
  fix i assume "i < length (take n (drop q ?L))"
  then have i: "i < n" by (simp only: length_take min_less_iff_conj)
  show "take n (drop q ?L) ! i = take n (drop q mem) ! i"
    using assms i by (auto simp: nth_append add.commute add.left_commute)
qed

lemma load_store_other:
  assumes "store mem p bs = Some mem'" and "q + n \<le> p \<or> p + length bs \<le> q"
  shows "load mem' q n = load mem q n"
  using assms take_drop_append_other [of p bs mem q n] store_length [OF assms(1)]
  by (auto simp: store_def load_def split: if_splits)

lemma dec8_enc8: "dec8 (enc8 x) = x"
  by (simp add: dec8_def enc8_def)

lemma dec16_enc16: "dec16 (enc16 x) = x"
  by (rule bit_word_eqI) (auto simp: dec16_def enc16_def bit_simps)

lemma dec32_enc32: "dec32 (enc32 x) = x"
proof (rule bit_word_eqI)
  fix n assume "n < LENGTH(32)"
  then consider "n < 8" | "8 \<le> n" "n < 16" | "16 \<le> n" "n < 24" | "24 \<le> n" "n < 32" by fastforce
  then show "bit (dec32 (enc32 x)) n = bit x n"
    by cases (auto simp: dec32_def enc32_def bit_simps)
qed

section \<open>Refinement of a bounded list\<close>

text \<open>
  \<open>ring w dec q mem xs\<close>: the buffer holds the cells \<open>xs\<close>, oldest first. The pointers
  may stand at the end of the buffer, where the next access wraps them.
\<close>

definition ring :: "nat \<Rightarrow> (uint8_t list \<Rightarrow> 'c) \<Rightarrow> 'q OS_QUEUE_scheme \<Rightarrow> uint8_t list \<Rightarrow> 'c list \<Rightarrow> bool" where
  "ring w dec q mem xs \<longleftrightarrow>
     (\<exists>a b n. n = unat (OSQSize q) \<and> 0 < n \<and> 0 < w \<and> OSQEnd q = OSQStart q + w * n \<and> OSQEnd q \<le> length mem \<and>
        OSQOut q = OSQStart q + w * a \<and> a \<le> n \<and> OSQIn q = OSQStart q + w * b \<and> b \<le> n \<and>
        length xs = unat (OSQEntries q) \<and> length xs \<le> n \<and> (a + length xs) mod n = b mod n \<and>
        (\<forall>m < length xs. map_option dec (load mem (OSQStart q + w * ((a + m) mod n)) w) = Some (xs ! m)))"

lemma slot_disjoint:
  assumes "i \<noteq> j"
  shows "w * i + w \<le> w * j \<or> w * j + w \<le> w * (i :: nat)"
proof -
  from assms consider "Suc i \<le> j" | "Suc j \<le> i" by linarith
  then show ?thesis
    by cases (metis mult_Suc_right add.commute mult_le_mono2)+
qed


lemma load_some: "p + n \<le> length mem \<Longrightarrow> load mem p n = Some (take n (drop p mem))"
  by (simp add: load_def)

lemma mod_wrap: "b \<le> n \<Longrightarrow> 0 < n \<Longrightarrow> (if b = n then 0 else b) = b mod (n :: nat)"
  by simp

lemma mod_add_neq:
  assumes "m < l" and "l < n"
  shows "(a + m) mod n \<noteq> (a + l) mod (n :: nat)"
proof
  assume "(a + m) mod n = (a + l) mod n"
  then have "n dvd (a + l) - (a + m)" using assms by (metis mod_eq_dvd_iff_nat add_le_mono less_imp_le order_refl)
  with assms have "n dvd l - m" by simp
  with assms show False by (auto dest: dvd_imp_le)
qed

text \<open>A cell encoding: what the clients of the buffer rely on.\<close>

locale cell =
  fixes width :: nat and enc :: "'c \<Rightarrow> uint8_t list" and dec :: "uint8_t list \<Rightarrow> 'c" and valid :: "'c \<Rightarrow> bool"
  assumes width_pos: "0 < width"
    and enc_length: "valid x \<Longrightarrow> length (enc x) = width"
    and dec_enc: "valid x \<Longrightarrow> dec (enc x) = x"
begin

lemma ring_write:
  assumes r: "ring width dec q mem xs" and v: "valid x" and room: "length xs < unat (OSQSize q)"
  shows "\<exists>q' mem'. queue_write width enc q x mem = Some (WRITE_BUFFER_OK, q', mem') \<and>
     ring width dec q' mem' (xs @ [x]) \<and> OSQStart q' = OSQStart q \<and> OSQSize q' = OSQSize q \<and>
     (\<exists>p. OSQStart q \<le> p \<and> p + width \<le> OSQEnd q \<and> store mem p (enc x) = Some mem')"
proof -
  from r obtain a b n where n: "n = unat (OSQSize q)" "0 < n" and e: "OSQEnd q = OSQStart q + width * n"
    "OSQEnd q \<le> length mem" and ao: "OSQOut q = OSQStart q + width * a" "a \<le> n"
    and bi: "OSQIn q = OSQStart q + width * b" "b \<le> n" and l: "length xs = unat (OSQEntries q)"
    and ab: "(a + length xs) mod n = b mod n"
    and c: "\<forall>m < length xs. map_option dec (load mem (OSQStart q + width * ((a + m) mod n)) width) = Some (xs ! m)"
    unfolding ring_def by auto
  have lt: "OSQEntries q < OSQSize q" using room l by (simp add: word_less_nat_alt)
  then have s: "unat (OSQEntries q + 1) = Suc (unat (OSQEntries q))"
    using room l n unsigned_less [of "OSQSize q", where 'a = nat] by (simp add: unat_word_ariths)
  have wb: "OSQIn q = OSQEnd q \<longleftrightarrow> b = n" using bi e width_pos by simp
  let ?i = "b mod n"
  let ?p = "OSQStart q + width * ?i"
  have ib: "?i < n" using n(2) by simp
  then have "width * ?i + width \<le> width * n"
    by (metis Suc_leI mult_Suc_right add.commute mult_le_mono2)
  then have pe: "?p + width \<le> OSQEnd q" using e(1) by simp
  then obtain mem' where m: "store mem ?p (enc x) = Some mem'"
    using e(2) enc_length [OF v] by (simp add: store_def)
  let ?q = "q\<lparr>OSQEntries := OSQEntries q + 1, OSQIn := OSQStart q + width * Suc ?i\<rparr>"
  have p: "(if OSQIn q = OSQEnd q then OSQStart q else OSQIn q) = ?p"
    using wb bi n(2) mod_wrap [OF bi(2) n(2)] by (cases "b = n") auto
  have w: "queue_write width enc q x mem = Some (WRITE_BUFFER_OK, ?q, mem')"
    using lt m p by (cases "OSQIn q = OSQEnd q") (auto simp: queue_write_def Let_def)
  have lm: "length mem' = length mem" by (rule store_length [OF m])
  have i': "?i = (a + length xs) mod n" using ab by simp
  have "map_option dec (load mem' (OSQStart q + width * ((a + k) mod n)) width) = Some ((xs @ [x]) ! k)"
    if k: "k < Suc (length xs)" for k
  proof (cases "k = length xs")
    case True
    then show ?thesis using load_store_same [OF m] enc_length [OF v] dec_enc [OF v] by (simp add: i')
  next
    case False
    with k have k': "k < length xs" by simp
    have "(a + k) mod n \<noteq> ?i" unfolding i' using mod_add_neq [OF k'] room n(1) by simp
    from slot_disjoint [OF this, of width] have "load mem' (OSQStart q + width * ((a + k) mod n)) width =
        load mem (OSQStart q + width * ((a + k) mod n)) width"
      using enc_length [OF v] by (intro load_store_other [OF m]) auto
    with c k' show ?thesis by (simp add: nth_append)
  qed
  moreover have "(a + Suc (length xs)) mod n = Suc ?i mod n" using ab by (metis add_Suc_right mod_Suc_eq)
  ultimately have "ring width dec ?q mem' (xs @ [x])"
    unfolding ring_def using n e ao ib l s lm room width_pos
    by - (rule exI [of _ a], rule exI [of _ "Suc ?i"], rule exI [of _ n], simp add: Suc_le_eq)
  moreover have "\<exists>p. OSQStart q \<le> p \<and> p + width \<le> OSQEnd q \<and> store mem p (enc x) = Some mem'"
    using m pe by (intro exI [of _ ?p]) simp
  moreover have "OSQStart ?q = OSQStart q" "OSQSize ?q = OSQSize q" by simp_all
  ultimately show ?thesis using w by blast
qed

lemma ring_write_full:
  assumes "ring width dec q mem xs" and "length xs = unat (OSQSize q)"
  shows "queue_write width enc q x mem = Some (BUFFER_UNDERRUN, q, mem)"
proof -
  from assms have "OSQEntries q = OSQSize q" unfolding ring_def by (auto simp: word_unat_eq_iff)
  then show ?thesis by (simp add: queue_write_def)
qed

lemma ring_take:
  assumes r: "ring width dec q mem (x # xs)"
  shows "\<exists>q'. queue_take width dec q mem = Some (x, q') \<and> ring width dec q' mem xs \<and>
     OSQStart q' = OSQStart q \<and> OSQSize q' = OSQSize q"
proof -
  from r obtain a b n where n: "n = unat (OSQSize q)" "0 < n" and e: "OSQEnd q = OSQStart q + width * n"
    "OSQEnd q \<le> length mem" and ao: "OSQOut q = OSQStart q + width * a" "a \<le> n"
    and bi: "OSQIn q = OSQStart q + width * b" "b \<le> n" and l': "length (x # xs) = unat (OSQEntries q)"
    and ln': "length (x # xs) \<le> n" and ab': "(a + length (x # xs)) mod n = b mod n"
    and c': "\<forall>m < length (x # xs).
      map_option dec (load mem (OSQStart q + width * ((a + m) mod n)) width) = Some ((x # xs) ! m)"
    unfolding ring_def by blast
  have l: "Suc (length xs) = unat (OSQEntries q)" and ln: "Suc (length xs) \<le> n"
    and ab: "(a + Suc (length xs)) mod n = b mod n" using l' ln' ab' by simp_all
  have c: "map_option dec (load mem (OSQStart q + width * ((a + m) mod n)) width) = Some ((x # xs) ! m)"
    if "m < Suc (length xs)" for m using c' that by simp
  let ?o = "a mod n"
  let ?q = "q\<lparr>OSQOut := OSQStart q + width * Suc ?o, OSQEntries := OSQEntries q - 1\<rparr>"
  have wb: "OSQOut q = OSQEnd q \<longleftrightarrow> a = n" using ao e width_pos by simp
  have p: "(if OSQOut q = OSQEnd q then OSQStart q else OSQOut q) = OSQStart q + width * ?o"
    using wb ao n(2) mod_wrap [OF ao(2) n(2)] by (cases "a = n") auto
  from c [of 0] obtain bs where bs: "load mem (OSQStart q + width * ?o) width = Some bs" "dec bs = x" by auto
  have t: "queue_take width dec q mem = Some (x, ?q)"
    using p bs by (cases "OSQOut q = OSQEnd q") (auto simp: queue_take_def Let_def)
  have "OSQEntries q \<noteq> 0" using l by auto
  then have u: "unat (OSQEntries q - 1) = length xs" using l by (simp add: unat_minus_one)
  have sh: "(Suc ?o + m) mod n = (a + Suc m) mod n" for m
    by (metis add_Suc_shift mod_add_left_eq)
  have "map_option dec (load mem (OSQStart q + width * ((Suc ?o + m) mod n)) width) = Some (xs ! m)"
    if "m < length xs" for m using c [of "Suc m"] that by (simp only: sh) simp
  moreover have "(Suc ?o + length xs) mod n = b mod n" using ab sh by simp
  ultimately have "ring width dec ?q mem xs"
    unfolding ring_def using n e bi u ln width_pos
    by - (rule exI [of _ "Suc ?o"], rule exI [of _ b], rule exI [of _ n], simp add: Suc_le_eq)
  with t show ?thesis by auto
qed

lemma ring_read:
  assumes r: "ring width dec q mem xs"
  shows "xs = [] \<Longrightarrow> queue_read width dec q d mem = Some (NO_ENTRY_AVAILABLE, d, q)"
    and "xs = x # ys \<Longrightarrow> \<exists>q'. queue_read width dec q d mem = Some (READ_BUFFER_OK, x, q') \<and>
       ring width dec q' mem ys \<and> OSQStart q' = OSQStart q \<and> OSQSize q' = OSQSize q"
proof -
  have l: "length xs = unat (OSQEntries q)" using r by (auto simp: ring_def)
  show "queue_read width dec q d mem = Some (NO_ENTRY_AVAILABLE, d, q)" if "xs = []"
  proof -
    from l that have "OSQEntries q = 0" by (simp add: unat_eq_0)
    then show ?thesis by (simp add: queue_read_def)
  qed
  show "\<exists>q'. queue_read width dec q d mem = Some (READ_BUFFER_OK, x, q') \<and> ring width dec q' mem ys \<and>
      OSQStart q' = OSQStart q \<and> OSQSize q' = OSQSize q" if "xs = x # ys"
  proof -
    from l that have "OSQEntries q > 0" by (simp add: word_gt_0) (metis nat.simps(3) unat_0)
    with ring_take [of q mem x ys] r that show ?thesis by (auto simp: queue_read_def)
  qed
qed

lemma ring_clean:
  "ring width dec q mem xs \<Longrightarrow> ring width dec (snd (queue_clean q)) mem []"
  unfolding ring_def queue_clean_def using width_pos by auto

lemma ring_setup:
  assumes "0 < unat qsize" and "4 * unat addr + width * unat qsize \<le> length mem"
  shows "ring width dec (queue_setup width addr qsize) mem []"
  unfolding ring_def queue_setup_def using assms width_pos by (auto simp: Let_def)

end

section \<open>Bounded first-in first-out queues\<close>

text \<open>A sequence of writes, and a sequence of reads that collects what they return.\<close>

primrec puts :: "('c \<Rightarrow> 's \<Rightarrow> (uint8_t \<times> 's) option) \<Rightarrow> 'c list \<Rightarrow> 's \<Rightarrow> (uint8_t list \<times> 's) option" where
  "puts put [] s = Some ([], s)"
| "puts put (x # xs) s = do {
     (r, s) \<leftarrow> put x s;
     (rs, s) \<leftarrow> puts put xs s;
     Some (r # rs, s) }"

primrec gets :: "('s \<Rightarrow> (uint8_t \<times> 'c \<times> 's) option) \<Rightarrow> nat \<Rightarrow> 's \<Rightarrow> ('c list \<times> 's) option" where
  "gets get 0 s = Some ([], s)"
| "gets get (Suc n) s = do {
     (_, x, s) \<leftarrow> get s;
     (xs, s) \<leftarrow> gets get n s;
     Some (x # xs, s) }"

locale fifo =
  fixes put :: "'c \<Rightarrow> 's \<Rightarrow> (uint8_t \<times> 's) option"
    and get :: "'s \<Rightarrow> (uint8_t \<times> 'c \<times> 's) option"
    and holds :: "'s \<Rightarrow> 'c list \<Rightarrow> bool"
    and capacity :: "'s \<Rightarrow> nat"
    and valid :: "'c \<Rightarrow> bool"
  assumes bounded: "holds s xs \<Longrightarrow> length xs \<le> capacity s"
    and put_room: "holds s xs \<Longrightarrow> valid x \<Longrightarrow> length xs < capacity s \<Longrightarrow>
      \<exists>s'. put x s = Some (WRITE_BUFFER_OK, s') \<and> holds s' (xs @ [x]) \<and> capacity s' = capacity s"
    and put_full: "holds s xs \<Longrightarrow> length xs = capacity s \<Longrightarrow> put x s = Some (BUFFER_UNDERRUN, s)"
    and get_some: "holds s (x # xs) \<Longrightarrow>
      \<exists>s'. get s = Some (READ_BUFFER_OK, x, s') \<and> holds s' xs \<and> capacity s' = capacity s"
begin

lemma puts_room:
  "holds s xs \<Longrightarrow> \<forall>x \<in> set ys. valid x \<Longrightarrow> length xs + length ys \<le> capacity s \<Longrightarrow>
   \<exists>s'. puts put ys s = Some (replicate (length ys) WRITE_BUFFER_OK, s') \<and> holds s' (xs @ ys) \<and>
     capacity s' = capacity s"
proof (induction ys arbitrary: s xs)
  case Nil
  then show ?case by simp
next
  case (Cons y ys)
  then obtain s1 where s1: "put y s = Some (WRITE_BUFFER_OK, s1)" "holds s1 (xs @ [y])" "capacity s1 = capacity s"
    using put_room [of s xs y] by auto
  with Cons.IH [OF s1(2)] Cons.prems obtain s' where
    "puts put ys s1 = Some (replicate (length ys) WRITE_BUFFER_OK, s')" "holds s' ((xs @ [y]) @ ys)"
    "capacity s' = capacity s1" by auto
  with s1 show ?case by simp
qed

lemma gets_all:
  "holds s (xs @ ys) \<Longrightarrow> \<exists>s'. gets get (length xs) s = Some (xs, s') \<and> holds s' ys \<and> capacity s' = capacity s"
proof (induction xs arbitrary: s)
  case Nil
  then show ?case by simp
next
  case (Cons x xs)
  then obtain s1 where s1: "get s = Some (READ_BUFFER_OK, x, s1)" "holds s1 (xs @ ys)" "capacity s1 = capacity s"
    using get_some [of s x "xs @ ys"] by auto
  with Cons.IH [OF s1(2)] show ?case by auto
qed

text \<open>What goes in comes out in the same order, and the queue can be refilled for ever.\<close>

lemma puts_gets:
  assumes "holds s xs" and "\<forall>x \<in> set ys. valid x" and "length xs + length ys \<le> capacity s"
  shows "\<exists>s' s''. puts put ys s = Some (replicate (length ys) WRITE_BUFFER_OK, s') \<and>
     gets get (length xs + length ys) s' = Some (xs @ ys, s'') \<and> holds s'' [] \<and> capacity s'' = capacity s"
proof -
  from puts_room [OF assms] obtain s' where
    s': "puts put ys s = Some (replicate (length ys) WRITE_BUFFER_OK, s')" "holds s' (xs @ ys)" "capacity s' = capacity s"
    by blast
  from gets_all [of s' "xs @ ys" "[]"] s'(2) obtain s'' where
    "gets get (length (xs @ ys)) s' = Some (xs @ ys, s'')" "holds s'' []" "capacity s'' = capacity s'" by auto
  with s' show ?thesis by auto
qed

end

text \<open>The operations with the queue and the memory as one state.\<close>

definition write_state :: "nat \<Rightarrow> ('c \<Rightarrow> uint8_t list) \<Rightarrow> 'c \<Rightarrow> 'q OS_QUEUE_scheme \<times> uint8_t list \<Rightarrow>
    (uint8_t \<times> 'q OS_QUEUE_scheme \<times> uint8_t list) option" where
  "write_state w enc x s = queue_write w enc (fst s) x (snd s)"

definition read_state :: "nat \<Rightarrow> (uint8_t list \<Rightarrow> 'c) \<Rightarrow> 'c \<Rightarrow> 'q OS_QUEUE_scheme \<times> uint8_t list \<Rightarrow>
    (uint8_t \<times> 'c \<times> 'q OS_QUEUE_scheme \<times> uint8_t list) option" where
  "read_state w dec d s =
     map_option (\<lambda>(r, x, q). (r, x, q, snd s)) (queue_read w dec (fst s) d (snd s))"

context cell
begin

lemma ring_bounded: "ring width dec q mem xs \<Longrightarrow> length xs \<le> unat (OSQSize q)"
  by (auto simp: ring_def)

end

sublocale cell \<subseteq> rf: fifo "write_state width enc" "read_state width dec d"
  "\<lambda>s. ring width dec (fst s) (snd s)" "\<lambda>s. unat (OSQSize (fst s))" valid for d
proof
  fix s xs assume "ring width dec (fst s) (snd s) xs"
  then show "length xs \<le> unat (OSQSize (fst s))" by (rule ring_bounded)
next
  fix s xs x assume "ring width dec (fst s) (snd s) xs" "valid x" "length xs < unat (OSQSize (fst s))"
  from ring_write [OF this] show "\<exists>s'. write_state width enc x s = Some (WRITE_BUFFER_OK, s') \<and>
      ring width dec (fst s') (snd s') (xs @ [x]) \<and> unat (OSQSize (fst s')) = unat (OSQSize (fst s))"
    by (auto simp: write_state_def)
next
  fix s xs x assume "ring width dec (fst s) (snd s) xs" "length xs = unat (OSQSize (fst s))"
  from ring_write_full [OF this] show "write_state width enc x s = Some (BUFFER_UNDERRUN, s)"
    by (simp add: write_state_def)
next
  fix s x xs assume "ring width dec (fst s) (snd s) (x # xs)"
  from ring_read(2) [OF this refl, of d] show "\<exists>s'. read_state width dec d s = Some (READ_BUFFER_OK, x, s') \<and>
      ring width dec (fst s') (snd s') xs \<and> unat (OSQSize (fst s')) = unat (OSQSize (fst s))"
    by (auto simp: read_state_def)
qed

interpretation c8: cell 1 enc8 dec8 "\<lambda>_. True"
  by unfold_locales (simp_all add: dec8_enc8, simp add: enc8_def)

interpretation c16: cell 2 enc16 dec16 "\<lambda>_. True"
  by unfold_locales (simp_all add: dec16_enc16, simp add: enc16_def)

interpretation c32: cell 4 enc32 dec32 "\<lambda>_. True"
  by unfold_locales (simp_all add: dec32_enc32, simp add: enc32_def)

text \<open>The cells of a dynamic queue are the byte blocks of its element size.\<close>

lemma cell_bytes: "0 < n \<Longrightarrow> cell n (\<lambda>bs. bs) (\<lambda>bs. bs) (\<lambda>bs. length bs = n)"
  by unfold_locales simp_all

section \<open>Queues do not disturb each other\<close>

lemma ring_other:
  assumes r: "ring w dec q mem xs" and m: "store mem p bs = Some mem'"
    and d: "p + length bs \<le> OSQStart q \<or> OSQEnd q \<le> p"
  shows "ring w dec q mem' xs"
proof -
  from r obtain a b n where n: "n = unat (OSQSize q)" "0 < n" "0 < w" and e: "OSQEnd q = OSQStart q + w * n"
    "OSQEnd q \<le> length mem" and ab: "OSQOut q = OSQStart q + w * a" "a \<le> n" "OSQIn q = OSQStart q + w * b" "b \<le> n"
      "length xs = unat (OSQEntries q)" "length xs \<le> n" "(a + length xs) mod n = b mod n"
    and c: "\<forall>m < length xs. map_option dec (load mem (OSQStart q + w * ((a + m) mod n)) w) = Some (xs ! m)"
    unfolding ring_def by blast
  have "load mem' (OSQStart q + w * i) w = load mem (OSQStart q + w * i) w" if "i < n" for i
  proof (rule load_store_other [OF m])
    from that have "w * i + w \<le> w * n" by (metis Suc_leI mult_Suc_right add.commute mult_le_mono2)
    with d e show "OSQStart q + w * i + w \<le> p \<or> p + length bs \<le> OSQStart q + w * i" by auto
  qed
  then have "\<forall>m < length xs. map_option dec (load mem' (OSQStart q + w * ((a + m) mod n)) w) = Some (xs ! m)"
    using c n(2) by simp
  with n e ab store_length [OF m] show ?thesis unfolding ring_def by (intro exI conjI) auto
qed

end
