(* ===== verification/Queue.thy ===== *)
theory Queue
  imports Events Ring
begin

text \<open>
  The kernel objects of \<^verbatim>\<open>src/brtos/queue.c\<close>: the static byte queues (a control block and a
  ring buffer of the same index, with the bytes in \<^verbatim>\<open>QUEUE_STACK\<close>) and the dynamic queues
  (control block, ring buffer and bytes obtained from the allocator chosen by
  \<^verbatim>\<open>BRTOSConfig.h\<close>, a parameter here). A pend that blocks is split at
  \<^verbatim>\<open>ChangeContext\<close>.
\<close>

section \<open>Static queues\<close>

record BRTOS_Queue = event_block +
  OSEventCount :: uint8_t
  OSEventPointer :: ptr

record queues =
  BRTOS_Queue_Table :: "BRTOS_Queue list"
  BRTOS_OS_QUEUE_Table :: "OS_QUEUE list"
  QUEUE_STACK :: "uint8_t list"

definition queue_round :: "uint16_t \<Rightarrow> uint16_t" where
  "queue_round qsize = (if qsize mod 4 \<noteq> 0 then qsize + (4 - qsize mod 4) else qsize)"

definition OSQueueCreate :: "config \<Rightarrow> uint16_t \<Rightarrow> ptr \<Rightarrow> kernel \<Rightarrow> queues \<Rightarrow>
    (uint8_t \<times> ptr \<times> kernel \<times> queues) option" where
  "OSQueueCreate C qsize event k qs =
    (if iNesting k > 0 then Some (IRQ_PEND_ERR, event, k, qs)
     else
       let qsize = queue_round qsize in
       if unat (iQueueAddress k) + unat qsize div sizeof_OS_CPU_TYPE > QUEUE_HEAP_SIZE C div sizeof_OS_CPU_TYPE
       then Some (NO_MEMORY, event, k, qs)
       else case free_block (BRTOS_Queue_Table qs) of
         None \<Rightarrow> Some (NO_AVAILABLE_EVENT, event, k, qs)
       | Some i \<Rightarrow> do {
           let e = (BRTOS_Queue_Table qs ! i)\<lparr>OSEventAllocated := TRUE8, OSEventPointer := Some i,
                     OSEventWait := 0, OSEventWaitList := 0\<rparr>;
           qt \<leftarrow> wr (BRTOS_OS_QUEUE_Table qs) i (queue_setup 1 (iQueueAddress k) qsize);
           Some (ALLOC_EVENT_OK, Some i,
             k\<lparr>iQueueAddress := iQueueAddress k + qsize div 4\<rparr>,
             qs\<lparr>BRTOS_Queue_Table := (BRTOS_Queue_Table qs)[i := e], BRTOS_OS_QUEUE_Table := qt\<rparr>) })"

definition OSQueueClean :: "ptr \<Rightarrow> queues \<Rightarrow> (uint8_t \<times> queues) option" where
  "OSQueueClean pont_event qs = do {
     e \<leftarrow> deref (BRTOS_Queue_Table qs) pont_event;
     j \<leftarrow> OSEventPointer e;
     q \<leftarrow> rd (BRTOS_OS_QUEUE_Table qs) j;
     let (r, q) = queue_clean q;
     Some (r, qs\<lparr>BRTOS_OS_QUEUE_Table := (BRTOS_OS_QUEUE_Table qs)[j := q]\<rparr>) }"

text \<open>The pointer is dereferenced before the check for null.\<close>

definition OSQueuePend :: "config \<Rightarrow> ptr \<Rightarrow> uint8_t \<Rightarrow> ostick_t \<Rightarrow> kernel \<Rightarrow> queues \<Rightarrow>
    (kernel \<times> queues \<times> uint8_t) outcome option" where
  "OSQueuePend C pont_event pdata time_wait k qs = do {
     i \<leftarrow> pont_event;
     e \<leftarrow> rd (BRTOS_Queue_Table qs) i;
     if ERROR_CHECK C \<and> iNesting k > 0 then Some (Return IRQ_PEND_ERR (k, qs, pdata))
     else if ERROR_CHECK C \<and> pont_event = None then Some (Return NULL_EVENT_POINTER (k, qs, pdata))
     else if ERROR_CHECK C \<and> OSEventAllocated e \<noteq> TRUE8 then Some (Return ERR_EVENT_NO_CREATED (k, qs, pdata))
     else do {
       j \<leftarrow> OSEventPointer e;
       q \<leftarrow> rd (BRTOS_OS_QUEUE_Table qs) j;
       if OSQEntries q > 0 then do {
         (d, q) \<leftarrow> queue_take 1 dec8 q (QUEUE_STACK qs);
         Some (Return READ_BUFFER_OK
           (k, qs\<lparr>BRTOS_OS_QUEUE_Table := (BRTOS_OS_QUEUE_Table qs)[j := q]\<rparr>, d)) }
       else if time_wait = NO_TIMEOUT
       then Some (Return EXIT_BY_NO_ENTRY_AVAILABLE (k, qs, pdata))
       else do {
         (iPriority, e, k) \<leftarrow> pend_suspend C QUEUE time_wait e k;
         k \<leftarrow> ChangeContext C k;
         Some (Suspend iPriority
           (k, qs\<lparr>BRTOS_Queue_Table := (BRTOS_Queue_Table qs)[i := e]\<rparr>, pdata)) } } }"

definition OSQueuePend_resume :: "ptr \<Rightarrow> uint8_t \<Rightarrow> ostick_t \<Rightarrow> nat \<Rightarrow> uint8_t \<Rightarrow> kernel \<Rightarrow> queues \<Rightarrow>
    (uint8_t \<times> kernel \<times> queues \<times> uint8_t) option" where
  "OSQueuePend_resume pont_event pdata time_wait Task iPriority k qs = do {
     i \<leftarrow> pont_event;
     e \<leftarrow> rd (BRTOS_Queue_Table qs) i;
     j \<leftarrow> OSEventPointer e;
     (expired, e, k) \<leftarrow> (if time_wait \<noteq> 0 then pend_resume Task iPriority e k else Some (False, e, k));
     let qs = qs\<lparr>BRTOS_Queue_Table := (BRTOS_Queue_Table qs)[i := e]\<rparr>;
     if expired then Some (TIMEOUT, k, qs, pdata)
     else do {
       q \<leftarrow> rd (BRTOS_OS_QUEUE_Table qs) j;
       (d, q) \<leftarrow> queue_take 1 dec8 q (QUEUE_STACK qs);
       Some (READ_BUFFER_OK, k, qs\<lparr>BRTOS_OS_QUEUE_Table := (BRTOS_OS_QUEUE_Table qs)[j := q]\<rparr>, d) } }"

text \<open>The end of the post functions: waking a waiter after the data is in the buffer.\<close>

definition queue_notify :: "config \<Rightarrow> 'e event_block_scheme \<Rightarrow> kernel \<Rightarrow> ('e event_block_scheme \<times> kernel) option" where
  "queue_notify C e k =
    (if OSEventWait e \<noteq> 0 then do {
       (_, e, k) \<leftarrow> post_wake C e k;
       k \<leftarrow> (if iNesting k = 0 then ChangeContext C k else Some k);
       Some (e, k) }
     else Some (e, k))"

definition OSQueuePost :: "config \<Rightarrow> ptr \<Rightarrow> uint8_t \<Rightarrow> kernel \<Rightarrow> queues \<Rightarrow> (uint8_t \<times> kernel \<times> queues) option" where
  "OSQueuePost C pont_event data k qs = do {
     i \<leftarrow> pont_event;
     e \<leftarrow> rd (BRTOS_Queue_Table qs) i;
     if ERROR_CHECK C \<and> pont_event = None then Some (NULL_EVENT_POINTER, k, qs)
     else if ERROR_CHECK C \<and> OSEventAllocated e \<noteq> TRUE8 then Some (ERR_EVENT_NO_CREATED, k, qs)
     else do {
       j \<leftarrow> OSEventPointer e;
       q \<leftarrow> rd (BRTOS_OS_QUEUE_Table qs) j;
       (r, q, mem) \<leftarrow> queue_write 1 enc8 q data (QUEUE_STACK qs);
       let qs = qs\<lparr>BRTOS_OS_QUEUE_Table := (BRTOS_OS_QUEUE_Table qs)[j := q], QUEUE_STACK := mem\<rparr>;
       if r \<noteq> WRITE_BUFFER_OK then Some (BUFFER_UNDERRUN, k, qs)
       else do {
         (e, k) \<leftarrow> queue_notify C e k;
         Some (WRITE_BUFFER_OK, k, qs\<lparr>BRTOS_Queue_Table := (BRTOS_Queue_Table qs)[i := e]\<rparr>) } } }"

section \<open>Dynamic queues\<close>

text \<open>
  \<^verbatim>\<open>OS_DQUEUE\<close>: the field \<^verbatim>\<open>OSQLength\<close> is the capacity \<open>OSQSize\<close> of the ring.
\<close>

record OS_DQUEUE = OS_QUEUE +
  OSQTSize :: uint16_t

text \<open>
  The heap: what is stored at an address, read as a control block, as a ring buffer or as
  bytes. A block that has just been allocated holds whatever was there before.
\<close>

record dqueues =
  DEvent :: "uint32_t \<Rightarrow> BRTOS_Queue"
  DPointer :: "uint32_t \<Rightarrow> uint32_t"
  DQueue :: "uint32_t \<Rightarrow> OS_DQUEUE"
  DHeap :: "uint8_t list"

abbreviation (input) sizeof_OS_DQUEUE :: uint16_t where "sizeof_OS_DQUEUE \<equiv> 24"
abbreviation (input) sizeof_BRTOS_Queue :: uint16_t where "sizeof_BRTOS_Queue \<equiv> 12"

definition OSDQueueCreate :: "(uint16_t \<Rightarrow> 'h \<Rightarrow> uint32_t \<times> 'h) \<Rightarrow> (uint32_t \<Rightarrow> 'h \<Rightarrow> 'h) \<Rightarrow>
    uint16_t \<Rightarrow> OS_CPU_TYPE \<Rightarrow> uint32_t \<Rightarrow> kernel \<Rightarrow> 'h \<Rightarrow> dqueues \<Rightarrow> uint8_t \<times> uint32_t \<times> 'h \<times> dqueues" where
  "OSDQueueCreate BRTOS_ALLOC BRTOS_DEALLOC queue_length type_size event k h ds =
    (if iNesting k > 0 then (IRQ_PEND_ERR, event, h, ds)
     else if queue_length > 0 \<and> type_size > 0 then
       let (cqueue, h) = BRTOS_ALLOC sizeof_OS_DQUEUE h in
       if cqueue \<noteq> 0 then
         let size_in_bytes = ucast (ucast queue_length * type_size) :: uint16_t;
             (start, h) = BRTOS_ALLOC size_in_bytes h in
         if start \<noteq> 0 then
           let (pont_event, h) = BRTOS_ALLOC sizeof_BRTOS_Queue h in
           if pont_event = 0
           then (NO_AVAILABLE_EVENT, event, BRTOS_DEALLOC cqueue (BRTOS_DEALLOC start h), ds)
           else
             let q = \<lparr>OSQStart = unat start, OSQEnd = unat start + unat size_in_bytes,
                      OSQIn = unat start, OSQOut = unat start, OSQSize = queue_length, OSQEntries = 0,
                      OSQTSize = ucast type_size\<rparr>;
                 e = (DEvent ds pont_event)\<lparr>OSEventWait := 0, OSEventWaitList := 0\<rparr>
             in (ALLOC_EVENT_OK, pont_event, h,
                 ds\<lparr>DQueue := (DQueue ds)(cqueue := q), DEvent := (DEvent ds)(pont_event := e),
                    DPointer := (DPointer ds)(pont_event := cqueue)\<rparr>)
         else (NO_AVAILABLE_MEMORY, event, BRTOS_DEALLOC cqueue h, ds)
       else (NO_AVAILABLE_MEMORY, event, h, ds)
     else (INVALID_PARAMETERS, event, h, ds))"

definition OSDQueueDelete :: "(uint32_t \<Rightarrow> 'h \<Rightarrow> 'h) \<Rightarrow> uint32_t \<Rightarrow> kernel \<Rightarrow> 'h \<Rightarrow> dqueues \<Rightarrow>
    uint8_t \<times> uint32_t \<times> 'h \<times> dqueues" where
  "OSDQueueDelete BRTOS_DEALLOC event k h ds =
    (let cqueue = DPointer ds event in
     if iNesting k > 0 then (IRQ_PEND_ERR, event, h, ds)
     else
       let h = BRTOS_DEALLOC (of_nat (OSQStart (DQueue ds cqueue))) h;
           h = BRTOS_DEALLOC cqueue h;
           e = (DEvent ds event)\<lparr>OSEventAllocated := 0, OSEventCount := 0, OSEventWait := 0, OSEventWaitList := 0\<rparr>;
           ds = ds\<lparr>DEvent := (DEvent ds)(event := e)\<rparr>;
           h = BRTOS_DEALLOC event h
       in (DELETE_EVENT_OK, 0, h, ds))"

definition OSDQueueClean :: "uint32_t \<Rightarrow> dqueues \<Rightarrow> uint8_t \<times> dqueues" where
  "OSDQueueClean pont_event ds =
    (let cqueue = DPointer ds pont_event; (r, q) = queue_clean (DQueue ds cqueue)
     in (r, ds\<lparr>DQueue := (DQueue ds)(cqueue := q)\<rparr>))"

text \<open>The loops \<^verbatim>\<open>while(n) { *dst++ = *cqueue->OSQOut++; n--; }\<close> and its converse.\<close>

primrec copy_out :: "uint8_t list \<Rightarrow> nat \<Rightarrow> nat \<Rightarrow> uint8_t list option" where
  "copy_out mem 0 p = Some []"
| "copy_out mem (Suc n) p = do {
     b \<leftarrow> rd mem p;
     bs \<leftarrow> copy_out mem n (Suc p);
     Some (b # bs) }"

primrec copy_in :: "nat \<Rightarrow> uint8_t list \<Rightarrow> uint8_t list \<Rightarrow> nat \<Rightarrow> uint8_t list option" where
  "copy_in 0 src mem p = Some mem"
| "copy_in (Suc n) src mem p = do {
     b \<leftarrow> rd src 0;
     mem \<leftarrow> wr mem p b;
     copy_in n (tl src) mem (Suc p) }"

definition dqueue_take :: "OS_DQUEUE \<Rightarrow> uint8_t list \<Rightarrow> (uint8_t list \<times> OS_DQUEUE) option" where
  "dqueue_take cqueue mem = do {
     let q = (if OSQOut cqueue = OSQEnd cqueue then cqueue\<lparr>OSQOut := OSQStart cqueue\<rparr> else cqueue);
     bs \<leftarrow> copy_out mem (unat (OSQTSize q)) (OSQOut q);
     Some (bs, q\<lparr>OSQOut := OSQOut q + unat (OSQTSize q), OSQEntries := OSQEntries q - 1\<rparr>) }"

definition dqueue_write :: "OS_DQUEUE \<Rightarrow> uint8_t list \<Rightarrow> uint8_t list \<Rightarrow> (uint8_t \<times> OS_DQUEUE \<times> uint8_t list) option" where
  "dqueue_write cqueue src mem =
    (if OSQEntries cqueue < OSQSize cqueue then do {
       let q = cqueue\<lparr>OSQEntries := OSQEntries cqueue + 1\<rparr>;
       let q = (if OSQIn q = OSQEnd q then q\<lparr>OSQIn := OSQStart q\<rparr> else q);
       mem \<leftarrow> copy_in (unat (OSQTSize q)) src mem (OSQIn q);
       Some (WRITE_BUFFER_OK, q\<lparr>OSQIn := OSQIn q + unat (OSQTSize q)\<rparr>, mem) }
     else Some (BUFFER_UNDERRUN, cqueue, mem))"

definition OSDQueuePend :: "config \<Rightarrow> uint32_t \<Rightarrow> uint8_t list \<Rightarrow> ostick_t \<Rightarrow> kernel \<Rightarrow> dqueues \<Rightarrow>
    (kernel \<times> dqueues \<times> uint8_t list) outcome option" where
  "OSDQueuePend C pont_event pdata time_wait k ds =
    (if ERROR_CHECK C \<and> iNesting k > 0 then Some (Return IRQ_PEND_ERR (k, ds, pdata))
     else if ERROR_CHECK C \<and> pont_event = 0 then Some (Return NULL_EVENT_POINTER (k, ds, pdata))
     else
       let cqueue = DPointer ds pont_event; e = DEvent ds pont_event; q = DQueue ds cqueue in
       if ERROR_CHECK C \<and> OSEventAllocated e \<noteq> TRUE8 then Some (Return ERR_EVENT_NO_CREATED (k, ds, pdata))
       else if OSQEntries q > 0 then do {
         (bs, q) \<leftarrow> dqueue_take q (DHeap ds);
         Some (Return READ_BUFFER_OK (k, ds\<lparr>DQueue := (DQueue ds)(cqueue := q)\<rparr>, bs)) }
       else if time_wait = NO_TIMEOUT
       then Some (Return EXIT_BY_NO_ENTRY_AVAILABLE (k, ds, pdata))
       else do {
         (iPriority, e, k) \<leftarrow> pend_suspend C QUEUE time_wait e k;
         k \<leftarrow> ChangeContext C k;
         Some (Suspend iPriority (k, ds\<lparr>DEvent := (DEvent ds)(pont_event := e)\<rparr>, pdata)) })"

definition OSDQueuePend_resume :: "uint32_t \<Rightarrow> uint8_t list \<Rightarrow> ostick_t \<Rightarrow> nat \<Rightarrow> uint8_t \<Rightarrow> kernel \<Rightarrow> dqueues \<Rightarrow>
    (uint8_t \<times> kernel \<times> dqueues \<times> uint8_t list) option" where
  "OSDQueuePend_resume pont_event pdata time_wait Task iPriority k ds = do {
     let cqueue = DPointer ds pont_event;
     (expired, e, k) \<leftarrow> (if time_wait \<noteq> 0 then pend_resume Task iPriority (DEvent ds pont_event) k
                        else Some (False, DEvent ds pont_event, k));
     let ds = ds\<lparr>DEvent := (DEvent ds)(pont_event := e)\<rparr>;
     if expired then Some (TIMEOUT, k, ds, pdata)
     else do {
       (bs, q) \<leftarrow> dqueue_take (DQueue ds cqueue) (DHeap ds);
       Some (READ_BUFFER_OK, k, ds\<lparr>DQueue := (DQueue ds)(cqueue := q)\<rparr>, bs) } }"

definition OSDQueuePost :: "config \<Rightarrow> uint32_t \<Rightarrow> uint8_t list \<Rightarrow> kernel \<Rightarrow> dqueues \<Rightarrow>
    (uint8_t \<times> kernel \<times> dqueues) option" where
  "OSDQueuePost C pont_event pdata k ds =
    (if ERROR_CHECK C \<and> pont_event = 0 then Some (NULL_EVENT_POINTER, k, ds)
     else
       let cqueue = DPointer ds pont_event; e = DEvent ds pont_event in
       if ERROR_CHECK C \<and> OSEventAllocated e \<noteq> TRUE8 then Some (ERR_EVENT_NO_CREATED, k, ds)
       else do {
         (r, q, mem) \<leftarrow> dqueue_write (DQueue ds cqueue) pdata (DHeap ds);
         let ds = ds\<lparr>DQueue := (DQueue ds)(cqueue := q), DHeap := mem\<rparr>;
         if r \<noteq> WRITE_BUFFER_OK then Some (BUFFER_UNDERRUN, k, ds)
         else do {
           (e, k) \<leftarrow> queue_notify C e k;
           Some (WRITE_BUFFER_OK, k, ds\<lparr>DEvent := (DEvent ds)(pont_event := e)\<rparr>) } })"

section \<open>The byte loops are block copies\<close>

lemma copy_out_load: "p + n \<le> length mem \<Longrightarrow> copy_out mem n p = load mem p n"
proof (induction n arbitrary: p)
  case 0
  then show ?case by (simp add: load_def)
next
  case (Suc n)
  then have "copy_out mem n (Suc p) = load mem (Suc p) n" by simp
  moreover have "drop p mem = mem ! p # drop (Suc p) mem" using Suc.prems by (simp add: Cons_nth_drop_Suc)
  ultimately show ?case using Suc.prems by (simp add: load_def)
qed

lemma store_step:
  assumes "p + Suc (length bs) \<le> length mem"
  shows "store (mem[p := b]) (Suc p) bs = store mem p (b # bs)"
  using assms by (auto simp: store_def take_Suc_conv_app_nth upd_conv_take_nth_drop add.commute)

lemma copy_in_store:
  "n \<le> length src \<Longrightarrow> p + n \<le> length mem \<Longrightarrow> copy_in n src mem p = store mem p (take n src)"
proof (induction n arbitrary: src mem p)
  case 0
  then show ?case by (simp add: store_def)
next
  case (Suc n)
  then obtain b bs where src: "src = b # bs" by (cases src) auto
  have "copy_in n bs (mem[p := b]) (Suc p) = store (mem[p := b]) (Suc p) (take n bs)"
    using Suc.IH [of bs "Suc p" "mem[p := b]"] Suc.prems src by simp
  also have "\<dots> = store mem p (b # take n bs)"
    by (rule store_step) (use Suc.prems src in simp)
  finally show ?case using Suc.prems src by simp
qed

lemma ring_bounds:
  assumes "ring w dec q mem xs"
  shows "OSQStart q \<le> OSQIn q" and "OSQIn q \<le> OSQEnd q" and "OSQIn q \<noteq> OSQEnd q \<Longrightarrow> OSQIn q + w \<le> OSQEnd q"
    and "OSQOut q \<noteq> OSQEnd q \<Longrightarrow> OSQOut q + w \<le> OSQEnd q" and "OSQStart q + w \<le> OSQEnd q"
    and "OSQEnd q \<le> length mem" and "length xs = unat (OSQEntries q)"
proof -
  from assms obtain a b n where n: "0 < n" and e: "OSQEnd q = OSQStart q + w * n" "OSQEnd q \<le> length mem"
    and ab: "OSQOut q = OSQStart q + w * a" "a \<le> n" "OSQIn q = OSQStart q + w * b" "b \<le> n"
    and l: "length xs = unat (OSQEntries q)"
    unfolding ring_def by blast
  have st: "w * i + w \<le> w * n" if "i < n" for i
    using that by (metis Suc_leI mult_Suc_right add.commute mult_le_mono2)
  show "OSQStart q \<le> OSQIn q" using ab by simp
  show "OSQIn q \<le> OSQEnd q" using ab e by simp
  show "OSQIn q + w \<le> OSQEnd q" if "OSQIn q \<noteq> OSQEnd q"
    using that ab e st [of b] by (cases "b = n") auto
  show "OSQOut q + w \<le> OSQEnd q" if "OSQOut q \<noteq> OSQEnd q"
    using that ab e st [of a] by (cases "a = n") auto
  show "OSQStart q + w \<le> OSQEnd q" using e st [OF n] by simp
  show "OSQEnd q \<le> length mem" and "length xs = unat (OSQEntries q)" by (rule e(2), rule l)
qed

text \<open>On a well-formed buffer the byte loops are the block operations of the ring.\<close>

lemma dqueue_take_eq:
  assumes "ring (unat (OSQTSize q)) (\<lambda>bs. bs) q mem xs"
  shows "dqueue_take q mem = queue_take (unat (OSQTSize q)) (\<lambda>bs. bs) q mem"
proof -
  note b = ring_bounds [OF assms]
  have "copy_out mem (unat (OSQTSize q)) p = load mem p (unat (OSQTSize q))"
    if "p + unat (OSQTSize q) \<le> OSQEnd q" for p
    using that b(6) by (intro copy_out_load) simp
  then show ?thesis using b(4,5) by (cases "OSQOut q = OSQEnd q") (simp_all add: dqueue_take_def queue_take_def Let_def)
qed

lemma dqueue_write_eq:
  assumes "ring (unat (OSQTSize q)) (\<lambda>bs. bs) q mem xs" and "unat (OSQTSize q) = length src"
  shows "dqueue_write q src mem = queue_write (unat (OSQTSize q)) (\<lambda>bs. bs) q src mem"
proof -
  note b = ring_bounds [OF assms(1)]
  have "copy_in (unat (OSQTSize q)) src mem p = store mem p src"
    if "p + unat (OSQTSize q) \<le> OSQEnd q" for p
    using that b(6) assms(2) copy_in_store [of "unat (OSQTSize q)" src p mem] by simp
  then show ?thesis using b(3,5) by (cases "OSQIn q = OSQEnd q") (simp_all add: dqueue_write_def queue_write_def Let_def)
qed

section \<open>Creation\<close>

lemma unat_queue_round:
  assumes "unat qsize \<le> 65532"
  shows "unat (queue_round qsize) = 4 * ((unat qsize + 3) div 4)" and "unat qsize \<le> unat (queue_round qsize)"
proof -
  have m: "unat (qsize mod 4) = unat qsize mod 4" by (simp add: unat_mod)
  have d: "4 * ((unat qsize + 3) div 4) = (if unat qsize mod 4 = 0 then unat qsize else unat qsize + (4 - unat qsize mod 4))"
    by presburger
  show "unat (queue_round qsize) = 4 * ((unat qsize + 3) div 4)"
  proof (cases "unat qsize mod 4 = 0")
    case True
    then have "qsize mod 4 = 0" using m by (simp add: unat_eq_0)
    with True show ?thesis by (simp add: queue_round_def d)
  next
    case False
    then have nz: "qsize mod 4 \<noteq> 0" using m by (metis unat_0)
    have "qsize mod 4 \<le> 4" using m by (simp add: word_le_nat_alt)
    then have "unat (4 - qsize mod 4) = 4 - unat qsize mod 4" using m by (simp add: unat_sub)
    moreover have "unat qsize + (4 - unat qsize mod 4) \<le> 65532" using assms False by presburger
    ultimately show ?thesis using nz False by (simp add: queue_round_def d unat_word_ariths(1))
  qed
  then show "unat qsize \<le> unat (queue_round qsize)" by presburger
qed

text \<open>
  A successful creation takes the next free bytes of \<^verbatim>\<open>QUEUE_STACK\<close>: the new buffer is empty,
  as large as requested, begins where the earlier ones end and lies inside the memory.
\<close>

lemma OSQueueCreate_spec:
  assumes n: "iNesting k = 0" and sz: "0 < qsize" "unat qsize \<le> 65532"
    and fit: "unat (iQueueAddress k) + unat (queue_round qsize) div 4 \<le> QUEUE_HEAP_SIZE C div 4"
    and heap: "QUEUE_HEAP_SIZE C < 4 * 65536" "length (QUEUE_STACK qs) = QUEUE_HEAP_SIZE C"
    and free: "free_block (BRTOS_Queue_Table qs) = Some i" and tbl: "length (BRTOS_OS_QUEUE_Table qs) = length (BRTOS_Queue_Table qs)"
  obtains k' qs' where "OSQueueCreate C qsize event k qs = Some (ALLOC_EVENT_OK, Some i, k', qs')"
    and "ring 1 dec8 (BRTOS_OS_QUEUE_Table qs' ! i) (QUEUE_STACK qs') []"
    and "unat qsize \<le> unat (OSQSize (BRTOS_OS_QUEUE_Table qs' ! i))"
    and "OSQStart (BRTOS_OS_QUEUE_Table qs' ! i) = 4 * unat (iQueueAddress k)"
    and "OSQEnd (BRTOS_OS_QUEUE_Table qs' ! i) = 4 * unat (iQueueAddress k')"
    and "4 * unat (iQueueAddress k') \<le> QUEUE_HEAP_SIZE C"
    and "OSEventAllocated (BRTOS_Queue_Table qs' ! i) = TRUE8" and "OSEventPointer (BRTOS_Queue_Table qs' ! i) = Some i"
    and "wait_ok (BRTOS_Queue_Table qs' ! i)" and "waiters (BRTOS_Queue_Table qs' ! i) = {}"
    and "QUEUE_STACK qs' = QUEUE_STACK qs"
    and "k' = k\<lparr>iQueueAddress := iQueueAddress k'\<rparr>"
proof -
  note f = free_block_Some(1) [OF free]
  let ?r = "queue_round qsize" and ?a = "iQueueAddress k"
  let ?e = "(BRTOS_Queue_Table qs ! i)\<lparr>OSEventAllocated := TRUE8, OSEventPointer := Some i, OSEventWait := 0, OSEventWaitList := 0\<rparr>"
  let ?k = "k\<lparr>iQueueAddress := ?a + ?r div 4\<rparr>"
  let ?qs = "qs\<lparr>BRTOS_Queue_Table := (BRTOS_Queue_Table qs)[i := ?e],
      BRTOS_OS_QUEUE_Table := (BRTOS_OS_QUEUE_Table qs)[i := queue_setup 1 ?a ?r]\<rparr>"
  note ur = unat_queue_round [OF sz(2)]
  have pos: "0 < unat ?r" using ur(2) sz(1) by (simp add: word_less_nat_alt)
  have "unat ?a + unat ?r div 4 < 65536" using fit heap(1) by simp
  then have a': "unat (?a + ?r div 4) = unat ?a + unat ?r div 4" by (simp add: unat_word_ariths(1) unat_div)
  have q4: "4 * (unat ?r div 4) = unat ?r" using ur(1) by simp
  then have fit4: "4 * unat ?a + unat ?r \<le> QUEUE_HEAP_SIZE C" using fit by linarith
  have c: "OSQueueCreate C qsize event k qs = Some (ALLOC_EVENT_OK, Some i, ?k, ?qs)"
    using n fit free f tbl by (simp add: OSQueueCreate_def Let_def)
  have st: "BRTOS_OS_QUEUE_Table ?qs ! i = queue_setup 1 ?a ?r" using f tbl by simp
  have rg: "ring 1 dec8 (queue_setup 1 ?a ?r) (QUEUE_STACK qs) []"
    using c8.ring_setup [OF pos] fit4 heap(2) by simp
  show ?thesis
    by (rule that [OF c]) (use st rg ur(2) f a' q4 fit4 in \<open>simp_all add: queue_setup_def Let_def wait_ok_def waiters_def\<close>)
qed

section \<open>Post and pend\<close>

text \<open>The static queue \<open>i\<close> is created, holds the bytes \<open>xs\<close>, and its wait list is consistent.\<close>

definition queue_inv :: "config \<Rightarrow> kernel \<Rightarrow> queues \<Rightarrow> nat \<Rightarrow> uint8_t list \<Rightarrow> bool" where
  "queue_inv C k qs i xs \<longleftrightarrow> i < length (BRTOS_Queue_Table qs) \<and> i < length (BRTOS_OS_QUEUE_Table qs) \<and>
     OSEventAllocated (BRTOS_Queue_Table qs ! i) = TRUE8 \<and> OSEventPointer (BRTOS_Queue_Table qs ! i) = Some i \<and>
     ring 1 dec8 (BRTOS_OS_QUEUE_Table qs ! i) (QUEUE_STACK qs) xs \<and>
     wait_ok (BRTOS_Queue_Table qs ! i) \<and> waiters_installed C k (BRTOS_Queue_Table qs ! i)"

lemma queue_invD:
  assumes "queue_inv C k qs i xs"
  shows "i < length (BRTOS_Queue_Table qs)" and "i < length (BRTOS_OS_QUEUE_Table qs)"
    and "OSEventAllocated (BRTOS_Queue_Table qs ! i) = TRUE8" and "OSEventPointer (BRTOS_Queue_Table qs ! i) = Some i"
    and "ring 1 dec8 (BRTOS_OS_QUEUE_Table qs ! i) (QUEUE_STACK qs) xs"
    and "wait_ok (BRTOS_Queue_Table qs ! i)" and "waiters_installed C k (BRTOS_Queue_Table qs ! i)"
  using assms by (auto simp: queue_inv_def)

lemma same_event_queue:
  fixes e e' :: BRTOS_Queue
  assumes "same_event e e'"
  shows "OSEventPointer e' = OSEventPointer e" and "OSEventAllocated e' = OSEventAllocated e"
  using assms by (cases e; cases e'; simp add: same_event_def)+

lemma queue_notify_spec:
  assumes s: "sys_ok C k ys" and e: "wait_ok e" "waiters_installed C k e"
  obtains e' k' where "queue_notify C e k = Some (e', k')" and "same_event e e'" and "wait_ok e'"
    and "waiters_installed C k' e'" and "sys_ok C k' ys" and "frame k k'"
    and "waiters e = {} \<longrightarrow> e' = e \<and> k' = k"
    and "waiters e \<noteq> {} \<longrightarrow> waiters e' = waiters e - {Max (waiters e)} \<and> readied k k' (Max (waiters e)) \<and>
      (iNesting k = 0 \<longrightarrow> runs_highest C k')"
proof (cases "waiters e = {}")
  case True
  then have "OSEventWait e = 0" using wait_ok_0 [OF e(1)] by simp
  with that [of e k] s e True show ?thesis by (simp add: queue_notify_def)
next
  case False
  from post_switch_spec [OF s e(1) False e(2)] obtain p e' k1 k' where
    k1: "post_wake C e k = Some (p, e', k1)"
    and k': "(if iNesting k1 = 0 then ChangeContext C k1 else Some k1) = Some k'"
    and e': "wait_ok e'" "waiters e' = waiters e - {Max (waiters e)}" "same_event e e'" "waiters_installed C k' e'"
    and r: "readied k k' (Max (waiters e))" and s': "sys_ok C k' ys"
    and hi: "iNesting k = 0 \<longrightarrow> runs_highest C k'" and nz: "OSEventWait e \<noteq> 0" .
  have "queue_notify C e k = Some (e', k')" using k1 k' nz by (simp add: queue_notify_def)
  then show ?thesis using that e' s' readiedD(1) [OF r] False r hi by blast
qed

lemma OSQueuePost_room:
  assumes s: "sys_ok C k ys" and q: "queue_inv C k qs i xs"
    and room: "length xs < unat (OSQSize (BRTOS_OS_QUEUE_Table qs ! i))"
  obtains k' qs' where "OSQueuePost C (Some i) d k qs = Some (WRITE_BUFFER_OK, k', qs')"
    and "queue_inv C k' qs' i (xs @ [d])" and "sys_ok C k' ys" and "frame k k'"
    and "waiters (BRTOS_Queue_Table qs ! i) = {} \<longrightarrow> k' = k \<and> waiters (BRTOS_Queue_Table qs' ! i) = {}"
    and "waiters (BRTOS_Queue_Table qs ! i) \<noteq> {} \<longrightarrow>
      waiters (BRTOS_Queue_Table qs' ! i) = waiters (BRTOS_Queue_Table qs ! i) - {Max (waiters (BRTOS_Queue_Table qs ! i))} \<and>
      readied k k' (Max (waiters (BRTOS_Queue_Table qs ! i))) \<and> (iNesting k = 0 \<longrightarrow> runs_highest C k')"
proof -
  let ?e = "BRTOS_Queue_Table qs ! i"
  note qd = queue_invD [OF q]
  from c8.ring_write [OF qd(5) TrueI room] obtain q' mem' where
    w: "queue_write 1 enc8 (BRTOS_OS_QUEUE_Table qs ! i) d (QUEUE_STACK qs) = Some (WRITE_BUFFER_OK, q', mem')"
    and r: "ring 1 dec8 q' mem' (xs @ [d])" by blast
  from queue_notify_spec [OF s qd(6,7)] obtain e' k' where
    n: "queue_notify C ?e k = Some (e', k')" and e': "same_event ?e e'" "wait_ok e'" "waiters_installed C k' e'"
    and k': "sys_ok C k' ys" "frame k k'" "waiters ?e = {} \<longrightarrow> e' = ?e \<and> k' = k"
      "waiters ?e \<noteq> {} \<longrightarrow> waiters e' = waiters ?e - {Max (waiters ?e)} \<and> readied k k' (Max (waiters ?e)) \<and>
        (iNesting k = 0 \<longrightarrow> runs_highest C k')" .
  let ?qs = "qs\<lparr>BRTOS_OS_QUEUE_Table := (BRTOS_OS_QUEUE_Table qs)[i := q'], QUEUE_STACK := mem',
      BRTOS_Queue_Table := (BRTOS_Queue_Table qs)[i := e']\<rparr>"
  have "OSQueuePost C (Some i) d k qs = Some (WRITE_BUFFER_OK, k', ?qs)"
    using qd(1-4) w n by (simp add: OSQueuePost_def)
  moreover have "queue_inv C k' ?qs i (xs @ [d])"
    using qd(1-4) r e' by (simp add: queue_inv_def same_event_queue)
  moreover have "BRTOS_Queue_Table ?qs ! i = e'" using qd(1) by simp
  ultimately show ?thesis using that [of k' ?qs] k' by metis
qed

lemma OSQueuePost_full:
  assumes q: "queue_inv C k qs i xs" and full: "length xs = unat (OSQSize (BRTOS_OS_QUEUE_Table qs ! i))"
  shows "OSQueuePost C (Some i) d k qs = Some (BUFFER_UNDERRUN, k, qs)"
proof -
  note qd = queue_invD [OF q]
  from c8.ring_write_full [OF qd(5) full] have
    "queue_write 1 enc8 (BRTOS_OS_QUEUE_Table qs ! i) d (QUEUE_STACK qs) =
      Some (BUFFER_UNDERRUN, BRTOS_OS_QUEUE_Table qs ! i, QUEUE_STACK qs)" .
  with qd show ?thesis by (simp add: OSQueuePost_def)
qed

lemma OSQueuePend_take:
  assumes q: "queue_inv C k qs i (x # xs)" and n: "iNesting k = 0"
  obtains qs' where "OSQueuePend C (Some i) d w k qs = Some (Return READ_BUFFER_OK (k, qs', x))"
    and "queue_inv C k qs' i xs"
proof -
  note qd = queue_invD [OF q]
  from c8.ring_take [OF qd(5)] obtain q' where
    t: "queue_take 1 dec8 (BRTOS_OS_QUEUE_Table qs ! i) (QUEUE_STACK qs) = Some (x, q')"
    and r: "ring 1 dec8 q' (QUEUE_STACK qs) xs" by blast
  have "unat (OSQEntries (BRTOS_OS_QUEUE_Table qs ! i)) = Suc (length xs)" using ring_bounds(7) [OF qd(5)] by simp
  then have pos: "OSQEntries (BRTOS_OS_QUEUE_Table qs ! i) > 0" by (simp add: word_gt_0) (metis nat.simps(3) unat_0)
  let ?qs = "qs\<lparr>BRTOS_OS_QUEUE_Table := (BRTOS_OS_QUEUE_Table qs)[i := q']\<rparr>"
  have "OSQueuePend C (Some i) d w k qs = Some (Return READ_BUFFER_OK (k, ?qs, x))"
    using qd(1-4) t n pos by (simp add: OSQueuePend_def)
  moreover have "queue_inv C k ?qs i xs" using qd r by (simp add: queue_inv_def)
  ultimately show ?thesis by (rule that)
qed

lemma OSQueuePend_block:
  assumes s: "sys_ok C k ys" and n: "iNesting k = 0" and i: "installed C k (unat (currentTask k))"
    and p: "prio_of k (unat (currentTask k)) \<noteq> 0" and t: "unat (currentTask k) \<notin> set ys"
    and q: "queue_inv C k qs j []" and nw: "prio_of k (unat (currentTask k)) \<notin> waiters (BRTOS_Queue_Table qs ! j)"
    and w: "w \<noteq> NO_TIMEOUT"
  obtains k' qs' where
    "OSQueuePend C (Some j) d w k qs = Some (Suspend (Priority (tcb k (unat (currentTask k)))) (k', qs', d))"
    and "sys_ok C k' (if w = 0 then ys else ys @ [unat (currentTask k)])"
    and "slept k k' (unat (currentTask k)) (wait_stamp (OSTickCounter k) w)"
    and "queue_inv C k' qs' j []" and "runs_highest C k'"
    and "waiters (BRTOS_Queue_Table qs' ! j) = insert (prio_of k (unat (currentTask k))) (waiters (BRTOS_Queue_Table qs ! j))"
proof -
  let ?t = "unat (currentTask k)" and ?e = "BRTOS_Queue_Table qs ! j"
  note qd = queue_invD [OF q]
  from pend_switch_spec [OF s n i p t qd(6,7) nw, of QUEUE w] obtain e' k1 k' where
    k1: "pend_suspend C QUEUE w ?e k = Some (Priority (tcb k ?t), e', k1)" "ChangeContext C k1 = Some k'"
    and k': "sys_ok C k' (if w = 0 then ys else ys @ [?t])" "slept k k' ?t (wait_stamp (OSTickCounter k) w)"
      "runs_highest C k'"
    and e': "wait_ok e'" "waiters e' = insert (prio_of k ?t) (waiters ?e)" "waiters_installed C k' e'" "same_event ?e e'" .
  have "unat (OSQEntries (BRTOS_OS_QUEUE_Table qs ! j)) = 0" using ring_bounds(7) [OF qd(5)] by simp
  then have z: "OSQEntries (BRTOS_OS_QUEUE_Table qs ! j) = 0" by (simp add: unat_eq_0)
  let ?qs = "qs\<lparr>BRTOS_Queue_Table := (BRTOS_Queue_Table qs)[j := e']\<rparr>"
  have "OSQueuePend C (Some j) d w k qs = Some (Suspend (Priority (tcb k ?t)) (k', ?qs, d))"
    using qd(1-4) z w n k1 by (simp add: OSQueuePend_def)
  moreover have "queue_inv C k' ?qs j []"
    using qd(1-5) e' by (simp add: queue_inv_def same_event_queue)
  ultimately show ?thesis using that [of k' ?qs] k' e'(2) qd(1) by simp
qed

text \<open>A waiter woken by a post takes the oldest byte.\<close>

lemma OSQueuePend_resume_take:
  assumes q: "queue_inv C k qs i (x # xs)"
  obtains qs' where "OSQueuePend_resume (Some i) d 0 t p k qs = Some (READ_BUFFER_OK, k, qs', x)"
    and "queue_inv C k qs' i xs"
proof -
  note qd = queue_invD [OF q]
  from c8.ring_take [OF qd(5)] obtain q' where
    t: "queue_take 1 dec8 (BRTOS_OS_QUEUE_Table qs ! i) (QUEUE_STACK qs) = Some (x, q')"
    and r: "ring 1 dec8 q' (QUEUE_STACK qs) xs" by blast
  let ?qs = "qs\<lparr>BRTOS_OS_QUEUE_Table := (BRTOS_OS_QUEUE_Table qs)[i := q']\<rparr>"
  have "OSQueuePend_resume (Some i) d 0 t p k qs = Some (READ_BUFFER_OK, k, ?qs, x)"
    using qd(1-4) t by (simp add: OSQueuePend_resume_def)
  moreover have "queue_inv C k ?qs i xs" using qd r by (simp add: queue_inv_def)
  ultimately show ?thesis by (rule that)
qed

section \<open>Separate queues, and queues without entries\<close>

lemma queue_write_store:
  assumes "ring 1 dec8 q mem xs" and "queue_write 1 enc8 q d mem = Some (r, q', mem')"
  obtains "mem' = mem" | p where "OSQStart q \<le> p" and "p + 1 \<le> OSQEnd q" and "store mem p (enc8 d) = Some mem'"
proof (cases "length xs < unat (OSQSize q)")
  case True
  from c8.ring_write [OF assms(1) TrueI True, of d] assms(2) that(2) show ?thesis by auto
next
  case False
  with c8.ring_bounded [OF assms(1)] have "length xs = unat (OSQSize q)" by simp
  from c8.ring_write_full [OF assms(1) this, of d] assms(2) that(1) show ?thesis by simp
qed

lemma queue_write_other:
  assumes "ring 1 dec8 q mem xs" and "queue_write 1 enc8 q d mem = Some (r, q', mem')"
    and o: "ring 1 dec8 o' mem zs" and d: "OSQEnd o' \<le> OSQStart q \<or> OSQEnd q \<le> OSQStart o'"
  shows "ring 1 dec8 o' mem' zs"
  using assms(1,2)
proof (cases rule: queue_write_store)
  case 1
  with o show ?thesis by simp
next
  case (2 p)
  with d show ?thesis by (intro ring_other [OF o 2(3)]) (auto simp: enc8_def)
qed

lemma OSQueuePost_other:
  assumes q: "queue_inv C k qs i xs" and j: "j \<noteq> i"
    and o: "ring 1 dec8 (BRTOS_OS_QUEUE_Table qs ! j) (QUEUE_STACK qs) zs"
    and d: "OSQEnd (BRTOS_OS_QUEUE_Table qs ! j) \<le> OSQStart (BRTOS_OS_QUEUE_Table qs ! i) \<or>
      OSQEnd (BRTOS_OS_QUEUE_Table qs ! i) \<le> OSQStart (BRTOS_OS_QUEUE_Table qs ! j)"
    and r: "OSQueuePost C (Some i) x k qs = Some (r, k', qs')"
  shows "ring 1 dec8 (BRTOS_OS_QUEUE_Table qs' ! j) (QUEUE_STACK qs') zs"
proof -
  note qd = queue_invD [OF q]
  from r qd(1-4) obtain v q' mem' where
    w: "queue_write 1 enc8 (BRTOS_OS_QUEUE_Table qs ! i) x (QUEUE_STACK qs) = Some (v, q', mem')"
    and t: "BRTOS_OS_QUEUE_Table qs' = (BRTOS_OS_QUEUE_Table qs)[i := q']" "QUEUE_STACK qs' = mem'"
    by (auto simp: OSQueuePost_def Let_def bind_eq_Some_conv split: if_splits)
  from queue_write_other [OF qd(5) w o d] t j show ?thesis by simp
qed

text \<open>Taking from an empty buffer without a check wraps the number of entries around.\<close>

lemma ring_take_empty:
  assumes "ring 1 dec8 q mem []"
  shows "\<exists>d q'. queue_take 1 dec8 q mem = Some (d, q') \<and> OSQEntries q' = 0xFFFF"
proof -
  note b = ring_bounds [OF assms]
  have e: "OSQEntries q = 0" using b(7) by (simp add: unat_eq_zero)
  show ?thesis using b(4,5,6) by (auto simp: queue_take_def load_def e Let_def)
qed

section \<open>Dynamic queues\<close>

text \<open>The buffer of the queue behind the event at an address, as a list of elements of \<open>n\<close> bytes.\<close>

definition dqueue_holds :: "dqueues \<Rightarrow> uint32_t \<Rightarrow> uint8_t list list \<Rightarrow> bool" where
  "dqueue_holds ds ev xs \<longleftrightarrow> (let q = DQueue ds (DPointer ds ev) in
     ring (unat (OSQTSize q)) (\<lambda>bs. bs) q (DHeap ds) xs)"

lemma ring_width_pos: "ring w dec q mem xs \<Longrightarrow> 0 < w"
  by (auto simp: ring_def)

lemma queue_write_TSize:
  fixes q :: OS_DQUEUE
  shows "queue_write w enc q x mem = Some (r, q', mem') \<Longrightarrow> OSQTSize q' = OSQTSize q"
  by (auto simp: queue_write_def Let_def bind_eq_Some_conv split: if_splits)

lemma queue_take_TSize:
  fixes q :: OS_DQUEUE
  shows "queue_take w dec q mem = Some (x, q') \<Longrightarrow> OSQTSize q' = OSQTSize q"
  by (auto simp: queue_take_def Let_def bind_eq_Some_conv split: if_splits)

lemma OSDQueuePost_room:
  assumes h: "dqueue_holds ds ev xs" and ev: "ev \<noteq> 0" "OSEventAllocated (DEvent ds ev) = TRUE8" "OSEventWait (DEvent ds ev) = 0"
    and len: "length bs = unat (OSQTSize (DQueue ds (DPointer ds ev)))"
    and room: "length xs < unat (OSQSize (DQueue ds (DPointer ds ev)))"
  shows "\<exists>ds'. OSDQueuePost C ev bs k ds = Some (WRITE_BUFFER_OK, k, ds') \<and> dqueue_holds ds' ev (xs @ [bs]) \<and>
     DEvent ds' ev = DEvent ds ev"
proof -
  let ?q = "DQueue ds (DPointer ds ev)"
  have r: "ring (unat (OSQTSize ?q)) (\<lambda>bs. bs) ?q (DHeap ds) xs" using h by (simp add: dqueue_holds_def Let_def)
  from cell.ring_write [OF cell_bytes [OF ring_width_pos [OF r]] r, of bs] len room obtain q' mem' where
    w: "queue_write (unat (OSQTSize ?q)) (\<lambda>bs. bs) ?q bs (DHeap ds) = Some (WRITE_BUFFER_OK, q', mem')"
    and r': "ring (unat (OSQTSize ?q)) (\<lambda>bs. bs) q' mem' (xs @ [bs])" by auto
  have "dqueue_write ?q bs (DHeap ds) = Some (WRITE_BUFFER_OK, q', mem')"
    using dqueue_write_eq [OF r] len w by simp
  with ev r' queue_write_TSize [OF w] show ?thesis
    by (simp add: OSDQueuePost_def queue_notify_def Let_def dqueue_holds_def)
qed

lemma OSDQueuePend_take:
  assumes h: "dqueue_holds ds ev (x # xs)" and ev: "ev \<noteq> 0" "OSEventAllocated (DEvent ds ev) = TRUE8" and n: "iNesting k = 0"
  shows "\<exists>ds'. OSDQueuePend C ev d w k ds = Some (Return READ_BUFFER_OK (k, ds', x)) \<and> dqueue_holds ds' ev xs"
proof -
  let ?q = "DQueue ds (DPointer ds ev)"
  have r: "ring (unat (OSQTSize ?q)) (\<lambda>bs. bs) ?q (DHeap ds) (x # xs)" using h by (simp add: dqueue_holds_def Let_def)
  have e: "OSQEntries ?q > 0" using ring_bounds(7) [OF r] by (simp add: word_less_nat_alt)
  from cell.ring_take [OF cell_bytes [OF ring_width_pos [OF r]] r] obtain q' where
    t: "queue_take (unat (OSQTSize ?q)) (\<lambda>bs. bs) ?q (DHeap ds) = Some (x, q')"
    and r': "ring (unat (OSQTSize ?q)) (\<lambda>bs. bs) q' (DHeap ds) xs" by blast
  with ev n e dqueue_take_eq [OF r] queue_take_TSize [OF t] show ?thesis
    by (simp add: OSDQueuePend_def Let_def dqueue_holds_def)
qed

text \<open>
  \<^verbatim>\<open>OSDQueueCreate\<close> writes every field of the control block but the allocation mark, which
  keeps whatever the allocated memory held.
\<close>

lemma OSDQueueCreate_mark:
  assumes "OSDQueueCreate al de n ts ev k h ds = (ALLOC_EVENT_OK, p, h1, ds1)"
  shows "OSEventAllocated (DEvent ds1 p) = OSEventAllocated (DEvent ds p)" and "p \<noteq> 0"
  using assms by (auto simp: OSDQueueCreate_def Let_def split: if_splits prod.splits)

end
