(* ===== verification/Init.thy ===== *)
theory Init
  imports Semaphore Mutex Mailbox Queue
begin

text \<open>
  The initialisation of the system: \<^verbatim>\<open>initEvents\<close> and \<^verbatim>\<open>BRTOSInit\<close> of
  \<^verbatim>\<open>src/brtos/BRTOS.c\<close>, on the kernel together with the four tables of event control blocks.
  The set-up of the tick timer hardware is left out.
\<close>

record system =
  sys_kernel :: kernel
  BRTOS_Sem_Table :: "BRTOS_Sem list"
  BRTOS_Mutex_Table :: "BRTOS_Mutex list"
  BRTOS_Mbox_Table :: "BRTOS_Mbox list"
  sys_queues :: queues

definition initEvents :: "system \<Rightarrow> system" where
  "initEvents s = s\<lparr>
     BRTOS_Sem_Table := init_table (BRTOS_Sem_Table s),
     BRTOS_Mutex_Table := init_table (BRTOS_Mutex_Table s),
     BRTOS_Mbox_Table := init_table (BRTOS_Mbox_Table s),
     sys_queues := (sys_queues s)\<lparr>BRTOS_Queue_Table := init_table (BRTOS_Queue_Table (sys_queues s))\<rparr>\<rparr>"

definition BRTOSInit :: "config \<Rightarrow> system \<Rightarrow> system" where
  "BRTOSInit C s = (let s = initEvents s in s\<lparr>sys_kernel := PreInstallTasks C (sys_kernel s)\<rparr>)"

lemma init_table_none: "e \<in> set (init_table t) \<Longrightarrow> OSEventAllocated e = 0"
  by (auto simp: init_table_def)

lemma BRTOSInit_boot:
  assumes "unat (NUMBER_OF_TASKS C) \<le> 32" and "sys_kernel s = boot_kernel C"
  shows "kernel_ok C (sys_kernel (BRTOSInit C s))" and "alloc_ok C (sys_kernel (BRTOSInit C s))"
    and "delay_list (sys_kernel (BRTOSInit C s)) []" and "\<not> installed C (sys_kernel (BRTOSInit C s)) t"
proof -
  have k: "sys_kernel (BRTOSInit C s) = PreInstallTasks C (boot_kernel C)"
    by (simp add: BRTOSInit_def initEvents_def Let_def assms(2))
  show "kernel_ok C (sys_kernel (BRTOSInit C s))" "alloc_ok C (sys_kernel (BRTOSInit C s))"
    "delay_list (sys_kernel (BRTOSInit C s)) []"
    unfolding k using PreInstallTasks_ok [OF assms(1)] by simp_all
  show "\<not> installed C (sys_kernel (BRTOSInit C s)) t"
    unfolding k installed_def using PreInstallTasks_tcb [of t "boot_kernel C" C] length_boot_kernel [of C]
    by (auto simp: is_task_def)
qed

end
