(* ===== verification/System.thy ===== *)
theory System
  imports Semaphore
begin

text \<open>
  The kernel in operation: tasks that sleep, pend on semaphores and post them in any order, with
  tick interrupts in between, as a transition system over the definitions of the code. A task that
  gave up the processor inside a call resumes there when it runs again; posts may come from tasks or
  from interrupts (on the Cortex-M4 port, interrupt handlers call the post functions with
  \<^verbatim>\<open>iNesting\<close> zero and the switch is left to PendSV). The theory shows an invariant of all
  reachable states, that no operation of a reachable state runs into undefined behaviour, and that
  semaphores neither lose nor invent a token.
\<close>

section \<open>States and steps\<close>

text \<open>Where a task stands: in its own code, in \<^verbatim>\<open>OSDelayTask\<close>, or in \<^verbatim>\<open>OSSemPend\<close> on a semaphore
  with a time-out and its local variable \<^verbatim>\<open>iPriority\<close>, after the context switch.\<close>

datatype position = Active | Sleeping | InPend nat ostick_t uint8_t

text \<open>Two counters per semaphore record the posts that returned OK and the pends that did.\<close>

record sem_system =
  ker :: kernel
  sems :: "BRTOS_Sem list"
  pos :: "nat \<Rightarrow> position"
  posted :: "nat \<Rightarrow> nat"
  taken :: "nat \<Rightarrow> nat"

abbreviation cur :: "sem_system \<Rightarrow> nat" where
  "cur s \<equiv> unat (currentTask (ker s))"

definition add_if :: "bool \<Rightarrow> nat \<Rightarrow> (nat \<Rightarrow> nat) \<Rightarrow> nat \<Rightarrow> nat" where
  "add_if b j f = (if b then f(j := Suc (f j)) else f)"

text \<open>A task may wait for a semaphore for ever, for a time up to the period of the tick counter, or not at all. The two time-outs that are left
  out, 65533 and 65535, can make the tick of the wake-up equal to the mark of an expired time-out.\<close>

definition good_wait :: "ostick_t \<Rightarrow> bool" where
  "good_wait w \<longleftrightarrow> w \<le> TICK_COUNT_OVERFLOW \<or> w = NO_TIMEOUT"

inductive step :: "config \<Rightarrow> sem_system \<Rightarrow> sem_system \<Rightarrow> bool" for C where
  tick: "TickTimer C (ker s) = Some k \<Longrightarrow> step C s (s\<lparr>ker := k\<rparr>)"
| delay: "pos s (cur s) = Active \<Longrightarrow> prio_of (ker s) (cur s) \<noteq> 0 \<Longrightarrow> 0 < w \<Longrightarrow>
    OSDelayTask C w (ker s) = Some (r, k) \<Longrightarrow> step C s (s\<lparr>ker := k, pos := (pos s)(cur s := Sleeping)\<rparr>)"
| delay_end: "pos s (cur s) = Sleeping \<Longrightarrow> step C s (s\<lparr>pos := (pos s)(cur s := Active)\<rparr>)"
| pend_return: "pos s (cur s) = Active \<Longrightarrow> prio_of (ker s) (cur s) \<noteq> 0 \<Longrightarrow> good_wait w \<Longrightarrow> j < length (sems s) \<Longrightarrow>
    OSSemPend C (Some j) w (ker s) (sems s) = Some (Return r (k, tbl)) \<Longrightarrow>
    step C s (s\<lparr>ker := k, sems := tbl, taken := add_if (r = OK) j (taken s)\<rparr>)"
| pend_suspends: "pos s (cur s) = Active \<Longrightarrow> prio_of (ker s) (cur s) \<noteq> 0 \<Longrightarrow> good_wait w \<Longrightarrow> j < length (sems s) \<Longrightarrow>
    OSSemPend C (Some j) w (ker s) (sems s) = Some (Suspend p (k, tbl)) \<Longrightarrow>
    step C s (s\<lparr>ker := k, sems := tbl, pos := (pos s)(cur s := InPend j w p)\<rparr>)"
| resume: "pos s (cur s) = InPend j w p \<Longrightarrow>
    OSSemPend_resume (Some j) w (cur s) p (ker s) (sems s) = Some (r, k, tbl) \<Longrightarrow>
    step C s (s\<lparr>ker := k, sems := tbl, pos := (pos s)(cur s := Active), taken := add_if (r = OK) j (taken s)\<rparr>)"
| post: "j < length (sems s) \<Longrightarrow> OSSemPost C (Some j) (ker s) (sems s) = Some (r, k, tbl) \<Longrightarrow>
    step C s (s\<lparr>ker := k, sems := tbl, posted := add_if (r = OK) j (posted s)\<rparr>)"

inductive reachable :: "config \<Rightarrow> sem_system \<Rightarrow> sem_system \<Rightarrow> bool" for C s0 where
  start: "reachable C s0 s0"
| next_state: "reachable C s0 s \<Longrightarrow> step C s s' \<Longrightarrow> reachable C s0 s'"

section \<open>Invariant\<close>

text \<open>
  How the position of a task is reflected in the kernel: a task in its own code is ready; a sleeping
  task is ready exactly when it has left the delay list; a task inside a pend is in the delay list
  exactly when it waits with a time-out that has not expired, and it is ready exactly when it was
  posted (it left the waiting list) or its time-out has expired.
\<close>

definition free_of :: "BRTOS_Sem list \<Rightarrow> nat \<Rightarrow> bool" where
  "free_of tbl p \<longleftrightarrow> (\<forall>e \<in> set tbl. p \<notin> waiters e)"

definition task_ok :: "kernel \<Rightarrow> nat list \<Rightarrow> BRTOS_Sem list \<Rightarrow> position \<Rightarrow> nat \<Rightarrow> bool" where
  "task_ok k xs tbl q t \<longleftrightarrow> (case q of
     Active \<Rightarrow> prio_of k t \<in> prios (OSReadyList k) \<and> t \<notin> set xs \<and> free_of tbl (prio_of k t)
   | Sleeping \<Rightarrow> (prio_of k t \<in> prios (OSReadyList k) \<longleftrightarrow> t \<notin> set xs) \<and> free_of tbl (prio_of k t)
   | InPend j w p \<Rightarrow> j < length tbl \<and> p = Priority (tcb k t) \<and>
       (\<forall>i < length tbl. i \<noteq> j \<longrightarrow> prio_of k t \<notin> waiters (tbl ! i)) \<and>
       (t \<in> set xs \<longleftrightarrow> w \<noteq> 0 \<and> TimeToWait (tcb k t) \<noteq> EXIT_BY_TIMEOUT) \<and>
       (prio_of k t \<in> prios (OSReadyList k) \<longleftrightarrow> prio_of k t \<notin> waiters (tbl ! j) \<or> (w \<noteq> 0 \<and> t \<notin> set xs)))"

definition sems_ok :: "config \<Rightarrow> kernel \<Rightarrow> BRTOS_Sem list \<Rightarrow> bool" where
  "sems_ok C k tbl \<longleftrightarrow> (\<forall>j < length tbl. OSEventAllocated (tbl ! j) = TRUE8 \<and> sem_inv C k (tbl ! j))"

definition system_inv :: "config \<Rightarrow> sem_system \<Rightarrow> nat list \<Rightarrow> bool" where
  "system_inv C s xs \<longleftrightarrow> sys_ok C (ker s) xs \<and> iNesting (ker s) = 0 \<and> runs_highest C (ker s) \<and>
     sems_ok C (ker s) (sems s) \<and> (\<forall>t. installed C (ker s) t \<longrightarrow> task_ok (ker s) xs (sems s) (pos s t) t)"

lemma system_invI:
  assumes "sys_ok C (ker s) xs" and "iNesting (ker s) = 0" and "runs_highest C (ker s)" and "sems_ok C (ker s) (sems s)"
    and "\<And>t. installed C (ker s) t \<Longrightarrow> task_ok (ker s) xs (sems s) (pos s t) t"
  shows "system_inv C s xs"
  using assms by (simp add: system_inv_def)

lemma system_invD:
  assumes "system_inv C s xs"
  shows "sys_ok C (ker s) xs" and "iNesting (ker s) = 0" and "runs_highest C (ker s)" and "sems_ok C (ker s) (sems s)"
    and "installed C (ker s) t \<Longrightarrow> task_ok (ker s) xs (sems s) (pos s t) t" and "kernel_ok C (ker s)"
    and "installed C (ker s) (cur s)" and "prio_of (ker s) (cur s) \<in> prios (OSReadyList (ker s))"
proof -
  show *: "sys_ok C (ker s) xs" "iNesting (ker s) = 0" "runs_highest C (ker s)" "sems_ok C (ker s) (sems s)"
    using assms by (auto simp: system_inv_def)
  show "installed C (ker s) t \<Longrightarrow> task_ok (ker s) xs (sems s) (pos s t) t" using assms by (simp add: system_inv_def)
  show "kernel_ok C (ker s)" using *(1) by (rule sys_okD)
  show "installed C (ker s) (cur s)" using *(3) by (simp add: runs_highest_def)
  have "Max (runnable (ker s)) \<in> runnable (ker s)" by (rule Max_runnable [OF sys_okD(6) [OF *(1)]])
  then show "prio_of (ker s) (cur s) \<in> prios (OSReadyList (ker s))" using *(3) by (simp add: runs_highest_def runnable_def)
qed

lemma sems_okD:
  assumes "sems_ok C k tbl" and "j < length tbl"
  shows "sem_at tbl j (tbl ! j)" and "sem_inv C k (tbl ! j)"
  using assms by (auto simp: sems_ok_def sem_at_def)

lemma sems_ok_prio: "\<forall>i. Priority (tcb k' i) = Priority (tcb k i) \<Longrightarrow> sems_ok C k tbl \<Longrightarrow> sems_ok C k' tbl"
  using sem_inv_prio [of k' k C] by (simp add: sems_ok_def)

lemma nth_update: "i < length xs \<Longrightarrow> xs[j := v] ! i = (if i = j then v else xs ! i)"
  by (auto simp: nth_list_update)

lemma sems_ok_update:
  assumes "sems_ok C k tbl" and "\<forall>i. Priority (tcb k' i) = Priority (tcb k i)" and "sem_inv C k' e" and "OSEventAllocated e = TRUE8"
  shows "sems_ok C k' (tbl[j := e])"
  using sems_ok_prio [OF assms(2,1)] assms(3,4) by (auto simp: sems_ok_def nth_update)

lemma free_of_nth: "free_of tbl p \<longleftrightarrow> (\<forall>i < length tbl. p \<notin> waiters (tbl ! i))"
  by (simp add: free_of_def all_set_conv_all_nth)

text \<open>What a step leaves as it was for a task keeps the task consistent.\<close>

lemma task_ok_cong:
  assumes "Priority (tcb k' t) = Priority (tcb k t)"
    and "prio_of k t \<in> prios (OSReadyList k') \<longleftrightarrow> prio_of k t \<in> prios (OSReadyList k)"
    and "t \<in> set xs' \<longleftrightarrow> t \<in> set xs" and "TimeToWait (tcb k' t) = TimeToWait (tcb k t)"
    and "length tbl' = length tbl" and "\<forall>i < length tbl. prio_of k t \<in> waiters (tbl' ! i) \<longleftrightarrow> prio_of k t \<in> waiters (tbl ! i)"
  shows "task_ok k' xs' tbl' q t = task_ok k xs tbl q t"
  using assms by (auto simp: task_ok_def free_of_nth split: position.split)

lemma waiters_update:
  "length tbl = n \<Longrightarrow> (\<And>i. i = j \<Longrightarrow> i < n \<Longrightarrow> p \<in> waiters e \<longleftrightarrow> p \<in> waiters (tbl ! i)) \<Longrightarrow>
     \<forall>i < n. p \<in> waiters (tbl[j := e] ! i) \<longleftrightarrow> p \<in> waiters (tbl ! i)"
  by (auto simp: nth_update)

section \<open>Every step preserves the invariant\<close>

lemma inv_tick:
  assumes inv: "system_inv C s xs" and k: "TickTimer C (ker s) = Some k"
  shows "\<exists>ys. system_inv C (s\<lparr>ker := k\<rparr>) ys"
proof -
  note d = system_invD [OF inv]
  let ?k = "OSIncCounter (ker s)" let ?ys = "waiting ?k xs" let ?D = "due ?k xs"
  from TickTimer_spec [OF d(1)] k have k1: "sys_ok C k ?ys" and w: "woken ?k k ?D" and h: "iNesting (ker s) = 0 \<longrightarrow> runs_highest C k"
    by (metis option.inject)+
  have pr: "\<forall>i. Priority (tcb k i) = Priority (tcb (ker s) i)" by (simp add: wokenD [OF w])
  have "task_ok k ?ys (sems s) (pos s t) t" if i: "installed C k t" for t
  proof -
    have it: "installed C (ker s) t" using i pr by (simp add: installed_def)
    have old: "task_ok (ker s) xs (sems s) (pos s t) t" by (rule d(5) [OF it])
    have inj: "prio_of (ker s) t \<in> prio_of (ker s) ` ?D \<longleftrightarrow> t \<in> ?D"
      using installed_inj [OF d(6) it] sys_okD(3) [OF d(1)] by auto
    show ?thesis
    proof (cases "t \<in> ?D")
      case False
      then show ?thesis
        using old inj by (subst task_ok_cong [where k = "ker s" and xs = xs and tbl = "sems s"]) (auto simp: wokenD [OF w])
    next
      case True
      with old inj show ?thesis
        by (auto simp: task_ok_def wokenD [OF w] split: position.splits)
    qed
  qed
  then show ?thesis
    using k1 h d(2,4) pr sems_ok_prio [OF pr] by (auto simp: system_inv_def wokenD [OF w] intro!: exI [of _ ?ys])
qed

text \<open>A task that gives up the processor does not change how the others stand.\<close>

lemma slept_others:
  assumes inv: "system_inv C s xs" and sl: "slept (ker s) k c W" and c: "installed C (ker s) c"
    and t: "installed C k t" "t \<noteq> c" and xs: "set ys \<subseteq> insert c (set xs)" "set xs \<subseteq> set ys"
    and tbl: "length tbl = length (sems s)"
      "\<forall>i < length (sems s). prio_of (ker s) t \<in> waiters (tbl ! i) \<longleftrightarrow> prio_of (ker s) t \<in> waiters (sems s ! i)"
  shows "task_ok k ys tbl (pos s t) t"
proof -
  note d = system_invD [OF inv] and fr = frameD [OF sleptD(1) [OF sl]]
  have it: "installed C (ker s) t" using t(1) by (simp add: installed_def fr)
  have "prio_of (ker s) t \<noteq> prio_of (ker s) c" using installed_inj [OF d(6) it c] t(2) by blast
  with d(5) [OF it] t(2) xs tbl show ?thesis
    by (subst task_ok_cong [where k = "ker s" and xs = xs and tbl = "sems s"]) (auto simp: fr sleptD(2,3) [OF sl])
qed

lemma inv_delay:
  assumes inv: "system_inv C s xs" and a: "pos s (cur s) = Active" and p: "prio_of (ker s) (cur s) \<noteq> 0"
    and w: "0 < w" and k: "OSDelayTask C w (ker s) = Some (r, k)"
  shows "system_inv C (s\<lparr>ker := k, pos := (pos s)(cur s := Sleeping)\<rparr>) (xs @ [cur s])"
proof -
  note d = system_invD [OF inv]
  from d(5) [OF d(7)] a have c: "cur s \<notin> set xs" "free_of (sems s) (prio_of (ker s) (cur s))" by (simp_all add: task_ok_def)
  from OSDelayTask_spec [OF d(1,2,7) p c(1) w] obtain k' where
    k': "OSDelayTask C w (ker s) = Some (OK, k')" "sys_ok C k' (xs @ [cur s])"
      "slept (ker s) k' (cur s) (wake_tick (OSTickCounter (ker s)) w)" "runs_highest C k'" .
  with k have kk: "k = k'" by simp
  note sl = k'(3) [folded kk] and fr = frameD [OF sleptD(1) [OF k'(3) [folded kk]]]
  have "task_ok k (xs @ [cur s]) (sems s) (((pos s)(cur s := Sleeping)) t) t" if i: "installed C k t" for t
  proof (cases "t = cur s")
    case True
    with c show ?thesis by (simp add: task_ok_def fr sleptD(3) [OF sl])
  next
    case False
    with slept_others [OF inv sl d(7) i False, of "xs @ [cur s]" "sems s"] show ?thesis by auto
  qed
  moreover have "sems_ok C k (sems s)" by (rule sems_ok_prio [OF _ d(4)]) (simp add: fr)
  moreover have "iNesting k = 0" using d(2) by (simp add: fr)
  ultimately show ?thesis using k'(2,4) [folded kk] by (simp add: system_inv_def)
qed

lemma inv_delay_end:
  assumes inv: "system_inv C s xs" and a: "pos s (cur s) = Sleeping"
  shows "system_inv C (s\<lparr>pos := (pos s)(cur s := Active)\<rparr>) xs"
proof -
  note d = system_invD [OF inv]
  from d(5) [OF d(7)] a d(8) have "task_ok (ker s) xs (sems s) Active (cur s)" by (simp add: task_ok_def)
  with d show ?thesis by (auto simp: system_inv_def)
qed

text \<open>What a pend does in a consistent system.\<close>

lemma pend_outcome:
  assumes inv: "system_inv C s xs" and a: "pos s (cur s) = Active" and p: "prio_of (ker s) (cur s) \<noteq> 0"
    and w: "good_wait w" and j: "j < length (sems s)"
  defines "e \<equiv> sems s ! j" and "c \<equiv> cur s"
  obtains (takes) "OSEventCount e > 0"
      and "OSSemPend C (Some j) w (ker s) (sems s) = Some (Return OK (ker s, (sems s)[j := e\<lparr>OSEventCount := OSEventCount e - 1\<rparr>]))"
    | (refuses) "OSSemPend C (Some j) w (ker s) (sems s) = Some (Return EXIT_BY_NO_ENTRY_AVAILABLE (ker s, sems s))"
    | (blocks) k e' where "OSSemPend C (Some j) w (ker s) (sems s) = Some (Suspend (Priority (tcb (ker s) c)) (k, (sems s)[j := e']))"
      and "OSEventCount e = 0" and "OSEventCount e' = 0" and "OSEventAllocated e' = TRUE8" and "sem_inv C k e'"
      and "waiters e' = insert (prio_of (ker s) c) (waiters e)" and "runs_highest C k"
      and "sys_ok C k (if w = 0 then xs else xs @ [c])" and "slept (ker s) k c (wait_stamp (OSTickCounter (ker s)) w)"
      and "w \<noteq> 0 \<longrightarrow> wake_tick (OSTickCounter (ker s)) w < TICK_COUNT_OVERFLOW" and "Binary e' = Binary e"
proof -
  note d = system_invD [OF inv] and sd = sems_okD [OF system_invD(4) [OF inv] j]
  from d(5) [OF d(7)] a j have cf: "c \<notin> set xs" "prio_of (ker s) c \<notin> waiters e"
    by (auto simp: task_ok_def free_of_nth e_def c_def)
  show ?thesis
  proof (cases "OSEventCount e = 0")
    case False
    then have "OSEventCount e > 0" by (simp add: word_gt_0)
    with takes OSSemPend_take [OF sd(1) _ d(2)] show ?thesis by (simp add: e_def)
  next
    case True
    show ?thesis
    proof (cases "w = NO_TIMEOUT")
      case True
      with OSSemPend_no_wait [OF sd(1) _ d(2), of C] \<open>OSEventCount e = 0\<close> refuses show ?thesis by (simp add: e_def)
    next
      case False
      with w have wb: "w \<le> TICK_COUNT_OVERFLOW" by (simp add: good_wait_def)
      from OSSemPend_block [OF d(1,2,7) p cf(1) [unfolded c_def] sd cf(2) [unfolded e_def c_def] True [unfolded e_def] False]
      obtain k e' where
        "OSSemPend C (Some j) w (ker s) (sems s) = Some (Suspend (Priority (tcb (ker s) c)) (k, (sems s)[j := e']))"
        "sys_ok C k (if w = 0 then xs else xs @ [c])" "slept (ker s) k c (wait_stamp (OSTickCounter (ker s)) w)"
        "sem_inv C k e'" "waiters e' = insert (prio_of (ker s) c) (waiters e)" "OSEventCount e' = 0"
        "OSEventAllocated e' = TRUE8" "runs_highest C k" "Binary e' = Binary e" unfolding c_def e_def .
      with True wake_tick_lt [OF sys_okD(4) [OF d(1)] wb] show ?thesis by (intro blocks [of k e']) simp_all
    qed
  qed
qed

text \<open>A changed count alone does not matter for the waiting tasks.\<close>

lemma system_inv_counters [simp]:
  "system_inv C (s\<lparr>taken := f\<rparr>) xs = system_inv C s xs" "system_inv C (s\<lparr>posted := g\<rparr>) xs = system_inv C s xs"
  by (simp_all add: system_inv_def)

lemma inv_count:
  assumes inv: "system_inv C s xs" and j: "j < length (sems s)" and e: "sem_inv C (ker s) e" "OSEventAllocated e = TRUE8"
    and w: "waiters e = waiters (sems s ! j)"
  shows "system_inv C (s\<lparr>sems := (sems s)[j := e]\<rparr>) xs"
proof -
  note d = system_invD [OF inv]
  have "task_ok (ker s) xs ((sems s)[j := e]) (pos s t) t" if "installed C (ker s) t" for t
    using d(5) [OF that] w by (subst task_ok_cong [where k = "ker s" and xs = xs and tbl = "sems s"]) (auto simp: nth_update)
  moreover have "sems_ok C (ker s) ((sems s)[j := e])" by (rule sems_ok_update [OF d(4) _ e]) simp
  ultimately show ?thesis using d by (simp add: system_inv_def)
qed

lemma inv_pend_return:
  assumes inv: "system_inv C s xs" and a: "pos s (cur s) = Active" "prio_of (ker s) (cur s) \<noteq> 0" "good_wait w" "j < length (sems s)"
    and r: "OSSemPend C (Some j) w (ker s) (sems s) = Some (Return r (k, tbl))"
  shows "system_inv C (s\<lparr>ker := k, sems := tbl, taken := f\<rparr>) xs"
proof (rule pend_outcome [OF inv a])
  note d = system_invD [OF inv] and sd = sems_okD [OF system_invD(4) [OF inv] a(4)]
  assume c: "OSEventCount (sems s ! j) > 0" and "OSSemPend C (Some j) w (ker s) (sems s) =
    Some (Return OK (ker s, (sems s)[j := (sems s ! j)\<lparr>OSEventCount := OSEventCount (sems s ! j) - 1\<rparr>]))"
  with r have "k = ker s" "tbl = (sems s)[j := (sems s ! j)\<lparr>OSEventCount := OSEventCount (sems s ! j) - 1\<rparr>]" by simp_all
  with inv_count [OF inv a(4) sem_inv_take [OF sd(2) c]] sd(1) show ?thesis
    by (simp add: sem_at_def waiters_def)
qed (use r inv in auto)

lemma inv_pend_suspends:
  assumes inv: "system_inv C s xs" and a: "pos s (cur s) = Active" "prio_of (ker s) (cur s) \<noteq> 0" "good_wait w" "j < length (sems s)"
    and r: "OSSemPend C (Some j) w (ker s) (sems s) = Some (Suspend p (k, tbl))"
  shows "\<exists>ys. system_inv C (s\<lparr>ker := k, sems := tbl, pos := (pos s)(cur s := InPend j w p)\<rparr>) ys"
proof (rule pend_outcome [OF inv a])
  note d = system_invD [OF inv]
  let ?c = "cur s" let ?e = "sems s ! j" let ?ys = "if w = 0 then xs else xs @ [?c]"
  fix k' e'
  assume o: "OSSemPend C (Some j) w (ker s) (sems s) = Some (Suspend (Priority (tcb (ker s) ?c)) (k', (sems s)[j := e']))"
    and e': "OSEventAllocated e' = TRUE8" "sem_inv C k' e'" and wt: "waiters e' = insert (prio_of (ker s) ?c) (waiters ?e)"
    and h: "runs_highest C k'" and ok: "sys_ok C k' ?ys" and sl: "slept (ker s) k' ?c (wait_stamp (OSTickCounter (ker s)) w)"
    and wk: "w \<noteq> 0 \<longrightarrow> wake_tick (OSTickCounter (ker s)) w < TICK_COUNT_OVERFLOW"
  from r o have kt: "k = k'" "tbl = (sems s)[j := e']" "p = Priority (tcb (ker s) ?c)" by simp_all
  note fr = frameD [OF sleptD(1) [OF sl]]
  from d(5) [OF d(7)] a have c: "?c \<notin> set xs" "free_of (sems s) (prio_of (ker s) ?c)" by (simp_all add: task_ok_def)
  have tw: "TimeToWait (tcb k' ?c) \<noteq> EXIT_BY_TIMEOUT" using wk by (auto simp: sleptD(2) [OF sl])
  have "task_ok k' ?ys ((sems s)[j := e']) (((pos s)(?c := InPend j w p)) t) t" if i: "installed C k' t" for t
  proof (cases "t = ?c")
    case True
    with c wt tw a(4) show ?thesis by (auto simp: task_ok_def fr sleptD(3) [OF sl] kt free_of_nth nth_update)
  next
    case False
    have it: "installed C (ker s) t" using i by (simp add: installed_def fr)
    have "prio_of (ker s) t \<noteq> prio_of (ker s) ?c" using installed_inj [OF d(6) it d(7)] False by blast
    then have "\<forall>i < length (sems s). prio_of (ker s) t \<in> waiters ((sems s)[j := e'] ! i) \<longleftrightarrow> prio_of (ker s) t \<in> waiters (sems s ! i)"
      using wt by (auto simp: nth_update)
    moreover have "set ?ys \<subseteq> insert ?c (set xs)" "set xs \<subseteq> set ?ys" by auto
    ultimately have "task_ok k' ?ys ((sems s)[j := e']) (pos s t) t"
      by (intro slept_others [OF inv sl d(7) i False]) simp_all
    with False show ?thesis by simp
  qed
  moreover have "sems_ok C k' ((sems s)[j := e'])" by (rule sems_ok_update [OF d(4) _ e'(2,1)]) (simp add: fr)
  moreover have "iNesting k' = 0" using d(2) by (simp add: fr)
  ultimately have "system_inv C (s\<lparr>ker := k', sems := (sems s)[j := e'], pos := (pos s)(?c := InPend j w p)\<rparr>) ?ys"
    using ok h by (intro system_invI) simp_all
  then show ?thesis unfolding kt by blast
qed (use r in auto)

text \<open>What a resumed pend does: it takes its token, or reports the time-out and leaves the waiting list.\<close>

lemma runs_highest_frame:
  assumes "runs_highest C k" and "frame k k'" and "OSReadyList k' = OSReadyList k" and "currentTask k' = currentTask k"
  shows "runs_highest C k'"
  using assms by (simp add: runs_highest_def runnable_def frame_installed frameD)

lemma resume_outcome:
  assumes inv: "system_inv C s xs" and a: "pos s (cur s) = InPend j w p"
  defines "e \<equiv> sems s ! j" and "c \<equiv> cur s"
  obtains (granted) k ys e' where "prio_of (ker s) c \<notin> waiters e" and "frame (ker s) k"
      and "OSSemPend_resume (Some j) w c p (ker s) (sems s) = Some (OK, k, (sems s)[j := e'])"
      and "sys_ok C k ys" and "set ys = set xs - {c}" and "OSReadyList k = OSReadyList (ker s)"
      and "currentTask k = currentTask (ker s)" and "\<forall>t. t \<noteq> c \<longrightarrow> TimeToWait (tcb k t) = TimeToWait (tcb (ker s) t)"
      and "waiters e' = waiters e" and "sem_inv C k e'" and "OSEventAllocated e' = TRUE8" and "OSEventCount e' = OSEventCount e" and "Binary e' = Binary e"
    | (expired) e' where "prio_of (ker s) c \<in> waiters e" and "c \<notin> set xs"
      and "OSSemPend_resume (Some j) w c p (ker s) (sems s) = Some (TIMEOUT, ker s, (sems s)[j := e'])"
      and "waiters e' = waiters e - {prio_of (ker s) c}" and "sem_inv C (ker s) e'" and "OSEventAllocated e' = TRUE8"
      and "OSEventCount e' = OSEventCount e" and "Binary e' = Binary e"
proof -
  note d = system_invD [OF inv]
  have tk: "task_ok (ker s) xs (sems s) (InPend j w p) c" using d(5) [OF d(7)] a by (simp add: c_def)
  have j: "j < length (sems s)" and p: "p = Priority (tcb (ker s) c)" using tk by (simp_all add: task_ok_def)
  have x: "c \<in> set xs \<longleftrightarrow> w \<noteq> 0 \<and> TimeToWait (tcb (ker s) c) \<noteq> EXIT_BY_TIMEOUT" using tk by (simp add: task_ok_def)
  have g: "prio_of (ker s) c \<notin> waiters e \<or> (w \<noteq> 0 \<and> c \<notin> set xs)"
    using tk d(8) unfolding task_ok_def e_def c_def position.case by blast
  note sd = sems_okD [OF d(4) j, folded e_def]
  have al: "OSEventAllocated e = TRUE8" using sd(1) by (simp add: sem_at_def)
  have id: "(sems s)[j := e] = sems s" by (simp add: e_def)
  consider "w = 0" | "w \<noteq> 0" "TimeToWait (tcb (ker s) c) = EXIT_BY_TIMEOUT" | "w \<noteq> 0" "TimeToWait (tcb (ker s) c) \<noteq> EXIT_BY_TIMEOUT" by blast
  then show ?thesis
  proof cases
    case 1
    with g x have "prio_of (ker s) c \<notin> waiters e" "c \<notin> set xs" by simp_all
    with 1 d(1) sd(2) al show ?thesis by (intro granted [of "ker s" e xs]) (simp_all add: OSSemPend_resume_def id)
  next
    case 2
    have p32: "unat p < 32" using installed_prio(1) [OF d(6,7)] p by (simp add: c_def)
    have cl: "c < length (ContextTask (ker s))" using installed_index [OF d(6,7)] by (simp add: c_def)
    from OSSemPend_resume_timeout [OF sd p32 cl 2] obtain e' where
      r: "OSSemPend_resume (Some j) w c p (ker s) (sems s) = Some (if unat p \<in> waiters e then TIMEOUT else OK, ker s, (sems s)[j := e'])"
      "sem_inv C (ker s) e'" "waiters e' = waiters e - {unat p}" "OSEventCount e' = OSEventCount e" "OSEventAllocated e' = TRUE8"
      "Binary e' = Binary e" .
    have cx: "c \<notin> set xs" using 2(2) unfolding x by blast
    show ?thesis
    proof (cases "unat p \<in> waiters e")
      case True
      with r cx show ?thesis by (intro expired [of e']) (simp_all add: p)
    next
      case False
      with r cx d(1) show ?thesis by (intro granted [of "ker s" e' xs]) (simp_all add: p)
    qed
  next
    case 3
    then have cx: "c \<in> set xs" unfolding x by blast
    with g have np: "prio_of (ker s) c \<notin> waiters e" by blast
    from OSSemPend_resume_posted [OF sd d(1) cx 3] obtain k where
      r: "OSSemPend_resume (Some j) w c p (ker s) (sems s) = Some (OK, k, sems s)"
      "sem_inv C k e" "sys_ok C k (remove1 c xs)" "frame (ker s) k" "OSReadyList k = OSReadyList (ker s)"
      "currentTask k = currentTask (ker s)" "TimeToWait (tcb k c) = NO_TIMEOUT"
      "\<forall>i. i \<noteq> c \<longrightarrow> TimeToWait (tcb k i) = TimeToWait (tcb (ker s) i)" .
    have "set (remove1 c xs) = set xs - {c}" using sys_okD(9) [OF d(1)] by (rule set_remove1_eq)
    with r np al show ?thesis by (intro granted [of k e "remove1 c xs"]) (simp_all add: id)
  qed
qed

lemma inv_resume:
  assumes inv: "system_inv C s xs" and a: "pos s (cur s) = InPend j w p"
    and r: "OSSemPend_resume (Some j) w (cur s) p (ker s) (sems s) = Some (r, k, tbl)"
  shows "\<exists>ys. system_inv C (s\<lparr>ker := k, sems := tbl, pos := (pos s)(cur s := Active), taken := f\<rparr>) ys"
proof (rule resume_outcome [OF inv a])
  note d = system_invD [OF inv]
  let ?c = "cur s" let ?e = "sems s ! j"
  from d(5) [OF d(7)] a have tk: "task_ok (ker s) xs (sems s) (InPend j w p) ?c" by simp
  fix k' ys e'
  assume o: "OSSemPend_resume (Some j) w ?c p (ker s) (sems s) = Some (OK, k', (sems s)[j := e'])"
    and np: "prio_of (ker s) ?c \<notin> waiters ?e" and f: "frame (ker s) k'" and ok: "sys_ok C k' ys" "set ys = set xs - {?c}"
    and rl: "OSReadyList k' = OSReadyList (ker s)" "currentTask k' = currentTask (ker s)"
    and tw: "\<forall>t. t \<noteq> ?c \<longrightarrow> TimeToWait (tcb k' t) = TimeToWait (tcb (ker s) t)"
    and e': "waiters e' = waiters ?e" "sem_inv C k' e'" "OSEventAllocated e' = TRUE8"
  from r o have kt: "k = k'" "tbl = (sems s)[j := e']" by simp_all
  note fr = frameD [OF f]
  have "task_ok k' ys ((sems s)[j := e']) (((pos s)(?c := Active)) t) t" if i: "installed C k' t" for t
  proof (cases "t = ?c")
    case True
    with tk np d(8) e'(1) ok(2) show ?thesis by (auto simp: task_ok_def fr rl free_of_nth nth_update)
  next
    case False
    have it: "installed C (ker s) t" using i by (simp add: installed_def fr)
    with d(5) [OF it] False ok(2) tw e'(1) show ?thesis
      by (subst task_ok_cong [where k = "ker s" and xs = xs and tbl = "sems s"]) (auto simp: fr rl nth_update)
  qed
  moreover have "sems_ok C k' ((sems s)[j := e'])" by (rule sems_ok_update [OF d(4) _ e'(2,3)]) (simp add: fr)
  moreover have "iNesting k' = 0" "runs_highest C k'" using d(2) runs_highest_frame [OF d(3) f rl] by (simp_all add: fr)
  ultimately have "system_inv C (s\<lparr>ker := k', sems := (sems s)[j := e'], pos := (pos s)(?c := Active), taken := f\<rparr>) ys"
    using ok by (intro system_invI) simp_all
  then show ?thesis unfolding kt by blast
next
  note d = system_invD [OF inv]
  let ?c = "cur s" let ?e = "sems s ! j"
  from d(5) [OF d(7)] a have tk: "task_ok (ker s) xs (sems s) (InPend j w p) ?c" by simp
  fix e'
  assume o: "OSSemPend_resume (Some j) w ?c p (ker s) (sems s) = Some (TIMEOUT, ker s, (sems s)[j := e'])"
    and cx: "?c \<notin> set xs" and wt: "waiters e' = waiters ?e - {prio_of (ker s) ?c}"
    and e': "sem_inv C (ker s) e'" "OSEventAllocated e' = TRUE8"
  from r o have kt: "k = ker s" "tbl = (sems s)[j := e']" by simp_all
  have "task_ok (ker s) xs ((sems s)[j := e']) (((pos s)(?c := Active)) t) t" if i: "installed C (ker s) t" for t
  proof (cases "t = ?c")
    case True
    with tk d(8) wt cx show ?thesis by (auto simp: task_ok_def free_of_nth nth_update)
  next
    case False
    have "prio_of (ker s) t \<noteq> prio_of (ker s) ?c" using installed_inj [OF d(6) i d(7)] False by blast
    with d(5) [OF i] False wt show ?thesis
      by (subst task_ok_cong [where k = "ker s" and xs = xs and tbl = "sems s"]) (auto simp: nth_update)
  qed
  moreover have "sems_ok C (ker s) ((sems s)[j := e'])" by (rule sems_ok_update [OF d(4) _ e']) simp
  ultimately have "system_inv C (s\<lparr>ker := ker s, sems := (sems s)[j := e'], pos := (pos s)(?c := Active), taken := f\<rparr>) xs"
    using d(1-3) by (intro system_invI) simp_all
  then show ?thesis unfolding kt by blast
qed

text \<open>A post hands its token to the waiter of the highest priority, or stores it.\<close>

lemma post_outcome:
  assumes inv: "system_inv C s xs" and j: "j < length (sems s)"
  defines "e \<equiv> sems s ! j"
  obtains (wakes) k e' t where "waiters e \<noteq> {}" and "installed C (ker s) t" and "prio_of (ker s) t = Max (waiters e)"
      and "OSSemPost C (Some j) (ker s) (sems s) = Some (OK, k, (sems s)[j := e'])"
      and "sys_ok C k xs" and "readied (ker s) k (prio_of (ker s) t)" and "runs_highest C k" and "sem_inv C k e'"
      and "OSEventAllocated e' = TRUE8" and "waiters e' = waiters e - {prio_of (ker s) t}"
      and "OSEventCount e' = OSEventCount e" and "Binary e' = Binary e"
    | (stores) "waiters e = {}" and "sem_inv C (ker s) (snd (sem_give C e))"
      and "OSSemPost C (Some j) (ker s) (sems s) = Some (fst (sem_give C e), ker s, (sems s)[j := snd (sem_give C e)])"
proof -
  note d = system_invD [OF inv] and sd = sems_okD [OF system_invD(4) [OF inv] j, folded e_def]
  show ?thesis
  proof (cases "waiters e = {}")
    case True
    with OSSemPost_store [OF sd True] stores show ?thesis by blast
  next
    case False
    have m: "Max (waiters e) \<in> waiters e" using False by (intro Max_in) (simp_all add: waiters_def)
    with sem_invD(2) [OF sd(2)] obtain t where t: "installed C (ker s) t" "prio_of (ker s) t = Max (waiters e)"
      by (auto simp: waiters_installed_def)
    from OSSemPost_wake [OF d(1) sd False] obtain k e' where
      "OSSemPost C (Some j) (ker s) (sems s) = Some (OK, k, (sems s)[j := e'])" "sys_ok C k xs"
      "readied (ker s) k (Max (waiters e))" "sem_inv C k e'" "waiters e' = waiters e - {Max (waiters e)}"
      "OSEventCount e' = OSEventCount e" "OSEventAllocated e' = TRUE8" "iNesting (ker s) = 0 \<longrightarrow> runs_highest C k"
      "Binary e' = Binary e" .
    with wakes [OF False t] d(2) show ?thesis by (simp add: t(2))
  qed
qed

text \<open>Only a task inside a pend on a semaphore is among its waiters.\<close>

lemma waiter_position:
  assumes "task_ok k xs tbl q t" and "j < length tbl" and "prio_of k t \<in> waiters (tbl ! j)"
  obtains w p where "q = InPend j w p"
  using assms by (auto simp: task_ok_def free_of_nth split: position.splits)

lemma inv_post:
  assumes inv: "system_inv C s xs" and j: "j < length (sems s)"
    and r: "OSSemPost C (Some j) (ker s) (sems s) = Some (r, k, tbl)"
  shows "system_inv C (s\<lparr>ker := k, sems := tbl, posted := f\<rparr>) xs"
proof (rule post_outcome [OF inv j])
  note d = system_invD [OF inv] and sd = sems_okD [OF system_invD(4) [OF inv] j]
  let ?e = "sems s ! j"
  assume w: "waiters ?e = {}" and g: "sem_inv C (ker s) (snd (sem_give C ?e))"
    and "OSSemPost C (Some j) (ker s) (sems s) = Some (fst (sem_give C ?e), ker s, (sems s)[j := snd (sem_give C ?e)])"
  with r have "k = ker s" "tbl = (sems s)[j := snd (sem_give C ?e)]" by simp_all
  with inv_count [OF inv j g] sd(1) show ?thesis by (auto simp: sem_at_def sem_give_def waiters_def)
next
  note d = system_invD [OF inv]
  let ?e = "sems s ! j"
  fix k' e' u
  assume u: "installed C (ker s) u" and m: "prio_of (ker s) u = Max (waiters ?e)" and ne: "waiters ?e \<noteq> {}"
    and o: "OSSemPost C (Some j) (ker s) (sems s) = Some (OK, k', (sems s)[j := e'])" and ok: "sys_ok C k' xs"
    and rd: "readied (ker s) k' (prio_of (ker s) u)" and h: "runs_highest C k'" and e': "sem_inv C k' e'" "OSEventAllocated e' = TRUE8"
    and wt: "waiters e' = waiters ?e - {prio_of (ker s) u}"
  from r o have kt: "k = k'" "tbl = (sems s)[j := e']" by simp_all
  note fr = frameD [OF readiedD(1) [OF rd]] readiedD(2,3) [OF rd]
  have uw: "prio_of (ker s) u \<in> waiters ?e" unfolding m using ne by (intro Max_in) (simp_all add: waiters_def)
  have "task_ok k' xs ((sems s)[j := e']) (pos s t) t" if i: "installed C k' t" for t
  proof -
    have it: "installed C (ker s) t" using i by (simp add: installed_def fr)
    show ?thesis
    proof (cases "t = u")
      case True
      from waiter_position [OF d(5) [OF u] j uw] obtain w p where q: "pos s u = InPend j w p" .
      with d(5) [OF u] wt True show ?thesis by (auto simp: task_ok_def fr nth_update)
    next
      case False
      have "prio_of (ker s) t \<noteq> prio_of (ker s) u" using installed_inj [OF d(6) it u] False by blast
      with d(5) [OF it] wt show ?thesis
        by (subst task_ok_cong [where k = "ker s" and xs = xs and tbl = "sems s"]) (auto simp: fr nth_update)
    qed
  qed
  moreover have "sems_ok C k' ((sems s)[j := e'])" by (rule sems_ok_update [OF d(4) _ e']) (simp add: fr)
  ultimately show ?thesis using ok h d(2) unfolding kt by (intro system_invI) (simp_all add: fr)
qed

lemma inv_step: "step C s s' \<Longrightarrow> system_inv C s xs \<Longrightarrow> \<exists>ys. system_inv C s' ys"
proof (induction rule: step.induct)
  case (tick s k)
  then show ?case by (intro inv_tick)
next
  case (delay s w r k)
  then show ?case using inv_delay by blast
next
  case (delay_end s)
  then show ?case using inv_delay_end by blast
next
  case (pend_return s w j r k tbl)
  then show ?case using inv_pend_return by blast
next
  case (pend_suspends s w j p k tbl)
  then show ?case by (intro inv_pend_suspends)
next
  case (resume s j w p r k tbl)
  then show ?case by (intro inv_resume)
next
  case (post j s r k tbl)
  then show ?case using inv_post by blast
qed

lemma reachable_inv: "reachable C s0 s \<Longrightarrow> system_inv C s0 xs \<Longrightarrow> \<exists>ys. system_inv C s ys"
  by (induction rule: reachable.induct) (auto dest: inv_step)

section \<open>No undefined behaviour\<close>

text \<open>Every call that a task or an interrupt can make in a consistent state returns.\<close>

lemma inv_defined:
  assumes inv: "system_inv C s xs"
  shows "TickTimer C (ker s) \<noteq> None" and "j < length (sems s) \<Longrightarrow> OSSemPost C (Some j) (ker s) (sems s) \<noteq> None"
    and "pos s (cur s) = Active \<Longrightarrow> prio_of (ker s) (cur s) \<noteq> 0 \<Longrightarrow> OSDelayTask C w (ker s) \<noteq> None"
    and "pos s (cur s) = Active \<Longrightarrow> prio_of (ker s) (cur s) \<noteq> 0 \<Longrightarrow> j < length (sems s) \<Longrightarrow>
      OSSemPend C (Some j) w (ker s) (sems s) \<noteq> None"
    and "pos s (cur s) = InPend j w p \<Longrightarrow> OSSemPend_resume (Some j) w (cur s) p (ker s) (sems s) \<noteq> None"
proof -
  note d = system_invD [OF inv]
  show "TickTimer C (ker s) \<noteq> None" by (rule TickTimer_spec [OF d(1)]) simp
  show "OSSemPost C (Some j) (ker s) (sems s) \<noteq> None" if "j < length (sems s)"
    by (rule post_outcome [OF inv that]) simp_all
  show "OSDelayTask C w (ker s) \<noteq> None" if a: "pos s (cur s) = Active" "prio_of (ker s) (cur s) \<noteq> 0"
  proof (cases "0 < w")
    case True
    show ?thesis by (rule OSDelayTask_spec [OF d(1,2,7) a(2) _ True]) (use d(5) [OF d(7)] a(1) in \<open>simp_all add: task_ok_def\<close>)
  qed (use d(2) in \<open>auto simp: OSDelayTask_def Let_def\<close>)
  show "OSSemPend C (Some j) w (ker s) (sems s) \<noteq> None" if a: "pos s (cur s) = Active" "prio_of (ker s) (cur s) \<noteq> 0" "j < length (sems s)"
  proof (cases "OSEventCount (sems s ! j) = 0 \<and> w \<noteq> NO_TIMEOUT")
    case True
    note sd = sems_okD [OF d(4) a(3)]
    from d(5) [OF d(7)] a(1,3) have "cur s \<notin> set xs" "prio_of (ker s) (cur s) \<notin> waiters (sems s ! j)" by (auto simp: task_ok_def free_of_nth)
    with True OSSemPend_block [OF d(1,2,7) a(2) _ sd, of w] show ?thesis by (metis option.distinct(1))
  next
    case False
    then have "OSEventCount (sems s ! j) > 0 \<or> w = NO_TIMEOUT" by (auto simp: word_gt_0)
    with sems_okD(1) [OF d(4) a(3)] d(2) show ?thesis by (auto simp: OSSemPend_def sem_at_def Let_def)
  qed
  show "OSSemPend_resume (Some j) w (cur s) p (ker s) (sems s) \<noteq> None" if "pos s (cur s) = InPend j w p"
    by (rule resume_outcome [OF inv that]) simp_all
qed

section \<open>Tokens are conserved\<close>

text \<open>A task that was posted but has not resumed yet holds a token that is in no count.\<close>

fun granted :: "nat \<Rightarrow> BRTOS_Sem \<Rightarrow> nat \<Rightarrow> position \<Rightarrow> bool" where
  "granted j e p (InPend i _ _) \<longleftrightarrow> i = j \<and> p \<notin> waiters e"
| "granted j e p _ \<longleftrightarrow> False"

definition in_flight :: "config \<Rightarrow> sem_system \<Rightarrow> nat \<Rightarrow> nat set" where
  "in_flight C s j = {t. installed C (ker s) t \<and> granted j (sems s ! j) (prio_of (ker s) t) (pos s t)}"

definition tokens :: "config \<Rightarrow> sem_system \<Rightarrow> nat \<Rightarrow> nat" where
  "tokens C s j = unat (OSEventCount (sems s ! j)) + card (in_flight C s j)"

definition counting :: "config \<Rightarrow> sem_system \<Rightarrow> nat \<Rightarrow> bool" where
  "counting C s j \<longleftrightarrow> j < length (sems s) \<and> (Binary (sems s ! j) = FALSE8 \<or> \<not> BRTOS_BINARY_SEM_EN C)"

definition balanced :: "config \<Rightarrow> sem_system \<Rightarrow> sem_system \<Rightarrow> nat \<Rightarrow> bool" where
  "balanced C s s' j \<longleftrightarrow> counting C s' j \<and> tokens C s' j + taken s' j + posted s j = tokens C s j + taken s j + posted s' j"

lemma finite_in_flight [simp]: "finite (in_flight C s j)"
  by (rule finite_subset [of _ "{1..unat (NUMBER_OF_TASKS C)}"]) (auto simp: in_flight_def installed_def is_task_def)

lemma balanced_trans: "balanced C a b j \<Longrightarrow> balanced C b c j \<Longrightarrow> balanced C a c j"
  by (auto simp: balanced_def)

lemma in_flight_cong:
  assumes "\<And>t. Priority (tcb (ker s') t) = Priority (tcb (ker s) t)"
    and "\<And>t. installed C (ker s) t \<Longrightarrow> granted j (sems s' ! j) (prio_of (ker s) t) (pos s' t) =
      (if t = c then b else granted j (sems s ! j) (prio_of (ker s) t) (pos s t))"
    and "installed C (ker s) c"
  shows "in_flight C s' j = (if b then insert c (in_flight C s j) else in_flight C s j - {c})"
  using assms(2) [of c] assms by (auto simp: in_flight_def installed_def split: if_splits)

lemma balanced_tick: "balanced C s (s\<lparr>ker := k\<rparr>) j"
  if inv: "system_inv C s xs" and k: "TickTimer C (ker s) = Some k" and c: "counting C s j"
proof -
  from TickTimer_spec [OF system_invD(1) [OF inv]] k have w: "woken (OSIncCounter (ker s)) k (due (OSIncCounter (ker s)) xs)"
    by (metis option.inject)
  have "in_flight C (s\<lparr>ker := k\<rparr>) j = in_flight C s j" by (simp add: in_flight_def installed_def wokenD [OF w])
  with c show ?thesis by (simp add: balanced_def tokens_def counting_def)
qed

text \<open>A step of the current task that ends outside of the grants keeps them, if the other tasks
  see the same waiting lists.\<close>

lemma in_flight_moves:
  assumes inv: "system_inv C s xs" and f: "frame (ker s) (ker s')" and p: "pos s' = (pos s)(cur s := q)"
    and q: "\<not> granted j (sems s' ! j) (prio_of (ker s) (cur s)) q"
    and w: "\<And>p. p \<noteq> prio_of (ker s) (cur s) \<Longrightarrow> p \<in> waiters (sems s' ! j) \<longleftrightarrow> p \<in> waiters (sems s ! j)"
  shows "in_flight C s' j = in_flight C s j - {cur s}"
proof -
  note d = system_invD [OF inv]
  have "granted j (sems s' ! j) (prio_of (ker s) t) (pos s' t) =
      (if t = cur s then False else granted j (sems s ! j) (prio_of (ker s) t) (pos s t))" if "installed C (ker s) t" for t
  proof (cases "t = cur s")
    case False
    then have "prio_of (ker s) t \<noteq> prio_of (ker s) (cur s)" using installed_inj [OF d(6) that d(7)] by blast
    from w [OF this] False show ?thesis by (cases "pos s t") (simp_all add: p)
  qed (use q in \<open>simp add: p\<close>)
  with in_flight_cong [of s' s C j "cur s" False, OF _ _ d(7)] show ?thesis by (simp add: frameD [OF f])
qed

text \<open>The same when the task was not granted a token before.\<close>

lemma in_flight_stays:
  assumes "system_inv C s xs" and "frame (ker s) (ker s')" and "pos s' = (pos s)(cur s := q)"
    and "\<not> granted j (sems s' ! j) (prio_of (ker s) (cur s)) q"
    and "\<And>p. p \<noteq> prio_of (ker s) (cur s) \<Longrightarrow> p \<in> waiters (sems s' ! j) \<longleftrightarrow> p \<in> waiters (sems s ! j)"
    and "\<not> granted j (sems s ! j) (prio_of (ker s) (cur s)) (pos s (cur s))"
  shows "in_flight C s' j = in_flight C s j"
  using in_flight_moves [OF assms(1-5)] assms(6) by (auto simp: in_flight_def)

lemma balanced_delay:
  assumes inv: "system_inv C s xs" and a: "pos s (cur s) = Active" and p: "prio_of (ker s) (cur s) \<noteq> 0"
    and w: "0 < w" and k: "OSDelayTask C w (ker s) = Some (r, k)" and c: "counting C s j"
  shows "balanced C s (s\<lparr>ker := k, pos := (pos s)(cur s := Sleeping)\<rparr>) j"
proof -
  note d = system_invD [OF inv]
  from d(5) [OF d(7)] a have "cur s \<notin> set xs" by (simp add: task_ok_def)
  from OSDelayTask_spec [OF d(1,2,7) p this w] k have "frame (ker s) k" by (metis option.inject prod.inject sleptD(1))
  then have "in_flight C (s\<lparr>ker := k, pos := (pos s)(cur s := Sleeping)\<rparr>) j = in_flight C s j"
    by (intro in_flight_stays [OF inv]) (use a in auto)
  with c show ?thesis by (simp add: balanced_def tokens_def counting_def)
qed

lemma balanced_delay_end:
  assumes inv: "system_inv C s xs" and a: "pos s (cur s) = Sleeping" and c: "counting C s j"
  shows "balanced C s (s\<lparr>pos := (pos s)(cur s := Active)\<rparr>) j"
proof -
  have "in_flight C (s\<lparr>pos := (pos s)(cur s := Active)\<rparr>) j = in_flight C s j"
    by (intro in_flight_stays [OF inv]) (use a in auto)
  with c show ?thesis by (simp add: balanced_def tokens_def counting_def)
qed

lemma balanced_pend_return:
  assumes inv: "system_inv C s xs" and a: "pos s (cur s) = Active" "prio_of (ker s) (cur s) \<noteq> 0" "good_wait w" "i < length (sems s)"
    and r: "OSSemPend C (Some i) w (ker s) (sems s) = Some (Return r (k, tbl))" and c: "counting C s j"
  shows "balanced C s (s\<lparr>ker := k, sems := tbl, taken := add_if (r = OK) i (taken s)\<rparr>) j"
proof (rule pend_outcome [OF inv a])
  let ?e = "(sems s ! i)\<lparr>OSEventCount := OSEventCount (sems s ! i) - 1\<rparr>"
  assume g: "OSEventCount (sems s ! i) > 0" and "OSSemPend C (Some i) w (ker s) (sems s) = Some (Return OK (ker s, (sems s)[i := ?e]))"
  with r have e: "k = ker s" "tbl = (sems s)[i := ?e]" "r = OK" by simp_all
  from g have n: "unat (OSEventCount (sems s ! i) - 1) + 1 = unat (OSEventCount (sems s ! i))"
    by (simp add: unat_minus_one unat_gt_0 word_gt_0)
  have wt: "waiters (tbl ! j) = waiters (sems s ! j)" using c e by (simp add: counting_def nth_update waiters_def)
  have "in_flight C (s\<lparr>ker := k, sems := tbl, taken := add_if (r = OK) i (taken s)\<rparr>) j = in_flight C s j"
    by (intro in_flight_stays [OF inv]) (use a wt e in auto)
  with c n show ?thesis unfolding balanced_def tokens_def counting_def by (auto simp: e nth_update add_if_def)
next
  assume "OSSemPend C (Some i) w (ker s) (sems s) = Some (Return EXIT_BY_NO_ENTRY_AVAILABLE (ker s, sems s))"
  with r have e: "k = ker s" "tbl = sems s" "r \<noteq> OK" by auto
  have "in_flight C (s\<lparr>ker := k, sems := tbl, taken := add_if (r = OK) i (taken s)\<rparr>) j = in_flight C s j"
    by (intro in_flight_stays [OF inv]) (use a e in auto)
  with c e show ?thesis by (simp add: balanced_def tokens_def counting_def add_if_def)
qed (use r in simp)

lemma balanced_pend_suspends:
  assumes inv: "system_inv C s xs" and a: "pos s (cur s) = Active" "prio_of (ker s) (cur s) \<noteq> 0" "good_wait w" "i < length (sems s)"
    and r: "OSSemPend C (Some i) w (ker s) (sems s) = Some (Suspend p (k, tbl))" and c: "counting C s j"
  shows "balanced C s (s\<lparr>ker := k, sems := tbl, pos := (pos s)(cur s := InPend i w p)\<rparr>) j"
proof (rule pend_outcome [OF inv a])
  fix k' e'
  assume "OSSemPend C (Some i) w (ker s) (sems s) = Some (Suspend (Priority (tcb (ker s) (cur s))) (k', (sems s)[i := e']))"
    and n: "OSEventCount (sems s ! i) = 0" "OSEventCount e' = 0" "Binary e' = Binary (sems s ! i)"
    and wt: "waiters e' = insert (prio_of (ker s) (cur s)) (waiters (sems s ! i))"
    and sl: "slept (ker s) k' (cur s) (wait_stamp (OSTickCounter (ker s)) w)"
  with r have e: "k = k'" "tbl = (sems s)[i := e']" by simp_all
  have "in_flight C (s\<lparr>ker := k, sems := tbl, pos := (pos s)(cur s := InPend i w p)\<rparr>) j = in_flight C s j"
    by (intro in_flight_stays [OF inv]) (use a c wt sleptD(1) [OF sl] in \<open>auto simp: e nth_update counting_def\<close>)
  with c n show ?thesis by (auto simp: balanced_def tokens_def counting_def e nth_update)
qed (use r in simp_all)

lemma balanced_resume:
  assumes inv: "system_inv C s xs" and a: "pos s (cur s) = InPend i w p"
    and r: "OSSemPend_resume (Some i) w (cur s) p (ker s) (sems s) = Some (r, k, tbl)" and c: "counting C s j"
  shows "balanced C s (s\<lparr>ker := k, sems := tbl, pos := (pos s)(cur s := Active), taken := add_if (r = OK) i (taken s)\<rparr>) j"
    (is "balanced C s ?s j")
proof (rule resume_outcome [OF inv a])
  fix k' ys e'
  assume g: "prio_of (ker s) (cur s) \<notin> waiters (sems s ! i)" and f: "frame (ker s) k'"
    and "OSSemPend_resume (Some i) w (cur s) p (ker s) (sems s) = Some (OK, k', (sems s)[i := e'])"
    and wt: "waiters e' = waiters (sems s ! i)" and n: "OSEventCount e' = OSEventCount (sems s ! i)" "Binary e' = Binary (sems s ! i)"
  with r have e: "k = k'" "tbl = (sems s)[i := e']" "r = OK" by simp_all
  have fl: "in_flight C ?s j = in_flight C s j - {cur s}"
    by (intro in_flight_moves [OF inv, where q = Active]) (use c wt f in \<open>auto simp: e nth_update counting_def\<close>)
  have "cur s \<in> in_flight C s j \<longleftrightarrow> i = j" using a g system_invD(7) [OF inv] by (auto simp: in_flight_def)
  with fl have "card (in_flight C ?s j) + (if i = j then 1 else 0) = card (in_flight C s j)"
    using card_Suc_Diff1 [OF finite_in_flight, of "cur s" C s j] by auto
  with c n show ?thesis by (auto simp: balanced_def tokens_def counting_def e nth_update add_if_def)
next
  fix e'
  assume g: "prio_of (ker s) (cur s) \<in> waiters (sems s ! i)"
    and "OSSemPend_resume (Some i) w (cur s) p (ker s) (sems s) = Some (TIMEOUT, ker s, (sems s)[i := e'])"
    and wt: "waiters e' = waiters (sems s ! i) - {prio_of (ker s) (cur s)}"
    and n: "OSEventCount e' = OSEventCount (sems s ! i)" "Binary e' = Binary (sems s ! i)"
  with r have e: "k = ker s" "tbl = (sems s)[i := e']" "r \<noteq> OK" by auto
  have "in_flight C ?s j = in_flight C s j"
    by (intro in_flight_stays [OF inv, where q = Active]) (use a g c wt in \<open>auto simp: e nth_update counting_def\<close>)
  with c n e(3) show ?thesis by (auto simp: balanced_def tokens_def counting_def e nth_update add_if_def)
qed

lemma balanced_post:
  assumes inv: "system_inv C s xs" and i: "i < length (sems s)"
    and r: "OSSemPost C (Some i) (ker s) (sems s) = Some (r, k, tbl)" and c: "counting C s j"
  shows "balanced C s (s\<lparr>ker := k, sems := tbl, posted := add_if (r = OK) i (posted s)\<rparr>) j" (is "balanced C s ?s j")
proof (rule post_outcome [OF inv i])
  let ?e = "sems s ! i"
  assume "OSSemPost C (Some i) (ker s) (sems s) = Some (fst (sem_give C ?e), ker s, (sems s)[i := snd (sem_give C ?e)])"
  with r have e: "k = ker s" "tbl = (sems s)[i := snd (sem_give C ?e)]" "r = fst (sem_give C ?e)" by simp_all
  have w: "waiters (snd (sem_give C ?e)) = waiters ?e" "Binary (snd (sem_give C ?e)) = Binary ?e"
    by (simp_all add: sem_give_def waiters_def)
  have "waiters (tbl ! j) = waiters (sems s ! j)" using c w by (simp add: e nth_update counting_def)
  then have "granted j (tbl ! j) p q = granted j (sems s ! j) p q" for p q by (cases q) simp_all
  then have fl: "in_flight C ?s j = in_flight C s j" by (simp add: in_flight_def e(1))
  show ?thesis
  proof (cases "i = j")
    case True
    have b: "Binary ?e = FALSE8 \<or> \<not> BRTOS_BINARY_SEM_EN C" using c True by (simp add: counting_def)
    have "unat (OSEventCount ?e) < 256" using unsigned_less [of "OSEventCount ?e", where 'a = nat] by simp
    then have n: "unat (OSEventCount (snd (sem_give C ?e))) = unat (OSEventCount ?e) + (if r = OK then 1 else 0)"
      unfolding e sem_give_count [OF b] by simp
    have "tbl ! j = snd (sem_give C ?e)" using i True by (simp add: e)
    with c True w fl n show ?thesis by (simp add: balanced_def tokens_def counting_def e(2) add_if_def)
  next
    case False
    with c fl show ?thesis by (auto simp: balanced_def tokens_def counting_def e nth_update add_if_def)
  qed
next
  note d = system_invD [OF inv]
  let ?e = "sems s ! i"
  fix k' e' u
  assume ne: "waiters ?e \<noteq> {}" and u: "installed C (ker s) u" and m: "prio_of (ker s) u = Max (waiters ?e)"
    and "OSSemPost C (Some i) (ker s) (sems s) = Some (OK, k', (sems s)[i := e'])"
    and rd: "readied (ker s) k' (prio_of (ker s) u)" and wt: "waiters e' = waiters ?e - {prio_of (ker s) u}"
    and n: "OSEventCount e' = OSEventCount ?e" "Binary e' = Binary ?e"
  with r have e: "k = k'" "tbl = (sems s)[i := e']" "r = OK" by simp_all
  have uw: "prio_of (ker s) u \<in> waiters ?e" unfolding m using ne by (intro Max_in) (simp_all add: waiters_def)
  from waiter_position [OF d(5) [OF u] i uw] obtain w p where q: "pos s u = InPend i w p" .
  have "granted j (tbl ! j) (prio_of (ker s) t) (pos s t) =
      (if t = u then i = j else granted j (sems s ! j) (prio_of (ker s) t) (pos s t))" if "installed C (ker s) t" for t
  proof (cases "t = u")
    case True
    have "i = j \<Longrightarrow> prio_of (ker s) u \<notin> waiters (tbl ! j)" using wt i by (simp add: e)
    with q True show ?thesis by auto
  next
    case False
    then have "prio_of (ker s) t \<noteq> prio_of (ker s) u" using installed_inj [OF d(6) that u] by blast
    with wt c have "prio_of (ker s) t \<in> waiters (tbl ! j) \<longleftrightarrow> prio_of (ker s) t \<in> waiters (sems s ! j)"
      by (simp add: e nth_update counting_def)
    with False show ?thesis by (cases "pos s t") simp_all
  qed
  then have "in_flight C ?s j = (if i = j then insert u (in_flight C s j) else in_flight C s j - {u})"
    by (intro in_flight_cong [OF _ _ u]) (simp_all add: frameD [OF readiedD(1) [OF rd]] e(1))
  moreover have "u \<notin> in_flight C s j" using q uw by (auto simp: in_flight_def)
  ultimately have "card (in_flight C ?s j) = card (in_flight C s j) + (if i = j then 1 else 0)" by auto
  with c n show ?thesis by (auto simp: balanced_def tokens_def counting_def e nth_update add_if_def)
qed

lemma balanced_step: "step C s s' \<Longrightarrow> system_inv C s xs \<Longrightarrow> counting C s j \<Longrightarrow> balanced C s s' j"
proof (induction rule: step.induct)
  case (tick s k)
  then show ?case by (intro balanced_tick)
next
  case (delay s w r k)
  then show ?case by (intro balanced_delay)
next
  case (delay_end s)
  then show ?case by (intro balanced_delay_end)
next
  case (pend_return s w j r k tbl)
  then show ?case by (intro balanced_pend_return)
next
  case (pend_suspends s w j p k tbl)
  then show ?case by (intro balanced_pend_suspends)
next
  case (resume s j w p r k tbl)
  then show ?case by (intro balanced_resume)
next
  case (post j s r k tbl)
  then show ?case by (intro balanced_post)
qed

lemma reachable_balanced:
  "reachable C s0 s \<Longrightarrow> system_inv C s0 xs \<Longrightarrow> counting C s0 j \<Longrightarrow> balanced C s0 s j"
proof (induction rule: reachable.induct)
  case (next_state s s')
  from reachable_inv [OF next_state(1,4)] obtain ys where "system_inv C s ys" by blast
  with next_state balanced_step [of C s s' ys j] show ?case by (auto simp: balanced_def)
qed (simp add: balanced_def)

section \<open>Waiting ends\<close>

text \<open>
  A run in which task \<open>t\<close> stays at position \<open>q\<close> while other tasks and interrupts act; \<open>n\<close> counts the
  ticks, which are the steps that move the tick counter.
\<close>

inductive stays :: "config \<Rightarrow> nat \<Rightarrow> position \<Rightarrow> sem_system \<Rightarrow> nat \<Rightarrow> sem_system \<Rightarrow> bool" for C t q s0 where
  stays_here: "pos s0 t = q \<Longrightarrow> stays C t q s0 0 s0"
| stays_step: "stays C t q s0 n s \<Longrightarrow> step C s s' \<Longrightarrow> pos s' t = q \<Longrightarrow>
    stays C t q s0 (if OSTickCounter (ker s') = OSTickCounter (ker s) then n else Suc n) s'"

lemma stays_reachable: "stays C t q s0 n s \<Longrightarrow> reachable C s0 s \<and> pos s t = q"
  by (induction rule: stays.induct) (auto intro: reachable.intros)

text \<open>What a step may do to the time stamp of a task that stays inside its pend: only a tick touches
  it, when it is due.\<close>

definition stamp_kept :: "nat \<Rightarrow> kernel \<Rightarrow> kernel \<Rightarrow> bool" where
  "stamp_kept t k k' \<longleftrightarrow> Priority (tcb k' t) = Priority (tcb k t) \<and>
     (OSTickCounter k' = OSTickCounter k \<and> TimeToWait (tcb k' t) = TimeToWait (tcb k t) \<or>
      OSTickCounter k' = OSTickCounter (OSIncCounter k) \<and>
        (TimeToWait (tcb k' t) = EXIT_BY_TIMEOUT \<or>
         TimeToWait (tcb k' t) = TimeToWait (tcb k t) \<and> TimeToWait (tcb k t) \<noteq> OSTickCounter k'))"

lemma stamp_keptI:
  "frame k k' \<Longrightarrow> TimeToWait (tcb k' t) = TimeToWait (tcb k t) \<Longrightarrow> stamp_kept t k k'"
  by (simp add: stamp_kept_def frameD)

lemma stamp_tick:
  assumes inv: "system_inv C s xs" and k: "TickTimer C (ker s) = Some k" and t: "installed C (ker s) t" "pos s t = InPend j w p" "w \<noteq> 0"
  shows "stamp_kept t (ker s) k"
proof -
  note d = system_invD [OF inv]
  let ?k = "OSIncCounter (ker s)"
  from TickTimer_spec [OF d(1)] k have w: "woken ?k k (due ?k xs)" by (metis option.inject)
  from d(5) [OF t(1)] t(2,3) have "t \<notin> set xs \<longrightarrow> TimeToWait (tcb (ker s) t) = EXIT_BY_TIMEOUT" by (simp add: task_ok_def)
  then show ?thesis by (auto simp: stamp_kept_def wokenD [OF w])
qed

lemma step_stamp:
  assumes "step C s s'" and "system_inv C s xs" and "installed C (ker s) t" and "pos s t = InPend j w p" and "w \<noteq> 0"
    and "pos s' t = InPend j w p"
  shows "stamp_kept t (ker s) (ker s')"
  using assms
proof (induction rule: step.induct)
  case (tick s k)
  then show ?case using stamp_tick by simp
next
  case (delay s v r k)
  note d = system_invD [OF delay(5)]
  from delay have t: "t \<noteq> cur s" and c: "cur s \<notin> set xs" using d(5) [OF d(7)] by (auto simp: task_ok_def)
  from OSDelayTask_spec [OF d(1,2,7) delay(2) c delay(3)] delay(4) obtain W where sl: "slept (ker s) k (cur s) W"
    by (metis option.inject prod.inject)
  then show ?case using t by (simp add: stamp_keptI sleptD)
next
  case (delay_end s)
  then show ?case by (simp add: stamp_keptI)
next
  case (pend_return s v i r k tbl)
  have "k = ker s" by (rule pend_outcome [OF pend_return(6,1-4)]) (use pend_return(5) in simp_all)
  then show ?case by (simp add: stamp_keptI)
next
  case (pend_suspends s v i p' k tbl)
  then have t: "t \<noteq> cur s" by auto
  have "\<exists>W. slept (ker s) k (cur s) W" by (rule pend_outcome [OF pend_suspends(6,1-4)]) (use pend_suspends(5) in auto)
  then show ?case using t by (auto simp: stamp_keptI sleptD)
next
  case (resume s i v p' r k tbl)
  then have t: "t \<noteq> cur s" by auto
  have "frame (ker s) k \<and> TimeToWait (tcb k t) = TimeToWait (tcb (ker s) t)"
    by (rule resume_outcome [OF resume(3,1)]) (use resume(2) t in simp_all)
  then show ?case by (simp add: stamp_keptI)
next
  case (post i s r k tbl)
  have "frame (ker s) k \<and> TimeToWait (tcb k t) = TimeToWait (tcb (ker s) t)"
    by (rule post_outcome [OF post(3,1)]) (use post(2) in \<open>simp_all add: readiedD\<close>)
  then show ?case by (simp add: stamp_keptI)
qed

lemma OSIncCounter_moves:
  assumes "tick_ok k"
  shows "OSTickCounter (OSIncCounter k) \<noteq> OSTickCounter k"
proof -
  have "unat (OSTickCounter k) < 65532" using assms by (simp add: word_less_nat_alt)
  then have "(unat (OSTickCounter k) + 1) mod 65532 \<noteq> unat (OSTickCounter k)"
    by (cases "unat (OSTickCounter k) + 1 = 65532") simp_all
  with unat_iterate_OSIncCounter [OF assms, of 1] show ?thesis by auto
qed

text \<open>After \<open>n\<close> ticks the stamp of a timed wait still lies ahead, or the wait has expired.\<close>

lemma stays_stamp:
  assumes "stays C t (InPend j w p) s0 n s" and inv: "system_inv C s0 xs" and t: "installed C (ker s0) t"
    and w: "0 < w" "w \<le> TICK_COUNT_OVERFLOW" and c: "TimeToWait (tcb (ker s0) t) = wake_tick (OSTickCounter (ker s0)) w"
  shows "Priority (tcb (ker s) t) = Priority (tcb (ker s0) t) \<and> (TimeToWait (tcb (ker s) t) = EXIT_BY_TIMEOUT \<or>
     n < unat w \<and> TimeToWait (tcb (ker s) t) = wake_tick (OSTickCounter (ker s0)) w \<and>
     OSTickCounter (ker s) = OSTickCounter ((OSIncCounter ^^ n) (ker s0)))"
  using assms(1)
proof (induction rule: stays.induct)
  case stays_here
  with w c show ?case by (simp add: unat_gt_0 word_gt_0)
next
  case (stays_step n s s')
  note sr = stays_reachable [OF stays_step(1)]
  from reachable_inv [OF conjunct1 [OF sr] inv] obtain ys where ys: "system_inv C s ys" by blast
  have it: "installed C (ker s) t" using t stays_step.IH by (simp add: installed_def)
  have wn: "w \<noteq> 0" using w(1) by auto
  note k = step_stamp [OF stays_step(2) ys it conjunct2 [OF sr] wn stays_step(3), unfolded stamp_kept_def]
  note tk = sys_okD(4) [OF system_invD(1) [OF inv]] and mv = OSIncCounter_moves [OF sys_okD(4) [OF system_invD(1) [OF ys]]]
  have s: "OSTickCounter (OSIncCounter (ker s)) = OSTickCounter ((OSIncCounter ^^ Suc n) (ker s0))"
    if "OSTickCounter (ker s) = OSTickCounter ((OSIncCounter ^^ n) (ker s0))"
    using that by (simp add: OSIncCounter_def Let_def)
  have e: "Suc n < unat w" if "n < unat w" "OSTickCounter ((OSIncCounter ^^ Suc n) (ker s0)) \<noteq> wake_tick (OSTickCounter (ker s0)) w"
    using wake_tick_exact(1) [OF tk w] that by (cases "Suc n = unat w") (auto simp del: funpow.simps)
  show ?case
  proof (cases "OSTickCounter (ker s') = OSTickCounter (ker s)")
    case True
    with k mv stays_step.IH show ?thesis by auto
  next
    case False
    with k have "OSTickCounter (ker s') = OSTickCounter (OSIncCounter (ker s))" by blast
    with False k stays_step.IH s e show ?thesis by auto
  qed
qed

lemma stays_ready:
  assumes st: "stays C t (InPend j w p) s0 n s" and inv: "system_inv C s0 xs" and t: "installed C (ker s0) t"
    and w: "0 < w" "w \<le> TICK_COUNT_OVERFLOW" and c: "TimeToWait (tcb (ker s0) t) = wake_tick (OSTickCounter (ker s0)) w"
    and n: "unat w \<le> n"
  shows "prio_of (ker s) t \<in> prios (OSReadyList (ker s))"
proof -
  note sr = stays_reachable [OF st]
  from reachable_inv [OF conjunct1 [OF sr] inv] obtain ys where ys: "system_inv C s ys" by blast
  from stays_stamp [OF st inv t w c] n have "Priority (tcb (ker s) t) = Priority (tcb (ker s0) t)"
    and e: "TimeToWait (tcb (ker s) t) = EXIT_BY_TIMEOUT" by auto
  then have "installed C (ker s) t" using t by (simp add: installed_def)
  from system_invD(5) [OF ys this] sr e w(1) show ?thesis by (auto simp: task_ok_def)
qed

text \<open>Such runs exist: while the tick interrupts come and no task runs, every task stays where it is.\<close>

lemma stays_ticks:
  assumes "system_inv C s xs" and "pos s t = q"
  shows "\<exists>s' ys. stays C t q s n s' \<and> system_inv C s' ys"
proof (induction n)
  case 0
  with assms show ?case by (auto intro: stays.intros)
next
  case (Suc n)
  then obtain s' ys where s': "stays C t q s n s'" "system_inv C s' ys" by blast
  from inv_defined(1) [OF s'(2)] obtain k where k: "TickTimer C (ker s') = Some k" by blast
  from TickTimer_spec [OF system_invD(1) [OF s'(2)]] k have "woken (OSIncCounter (ker s')) k (due (OSIncCounter (ker s')) ys)"
    by (metis option.inject)
  then have c: "OSTickCounter k \<noteq> OSTickCounter (ker s')"
    using OSIncCounter_moves [OF sys_okD(4) [OF system_invD(1) [OF s'(2)]]] by (simp add: wokenD)
  have "pos s' t = q" using stays_reachable [OF s'(1)] by simp
  with stays_step [OF s'(1) step.tick [OF k]] c have "stays C t q s (Suc n) (s'\<lparr>ker := k\<rparr>)" by simp
  with inv_tick [OF s'(2) k] show ?case by blast
qed

end
