(* ===== verification/Demo.thy ===== *)
theory Demo
  imports Blocking Init System
begin

text \<open>
  A small concrete system, on which the properties are exercised: the idle task, a task of
  priority 5 and a task of priority 10, with the ceiling priority 15 reserved for a mutex. The
  state is a function of the ready list and of the running task.
\<close>

definition demo_config :: config where
  "demo_config = example_config\<lparr>NUMBER_OF_TASKS := 3, ERROR_CHECK := True\<rparr>"

definition demo_task :: "uint8_t \<Rightarrow> ContextType" where
  "demo_task p = zero_task\<lparr>Priority := p, TimeToWait := NO_TIMEOUT\<rparr>"

definition demo :: "PriorityType \<Rightarrow> uint8_t \<Rightarrow> kernel" where
  "demo ready c = (boot_kernel demo_config)\<lparr>
     PriorityVector := (replicate 32 EMPTY_PRIO)[0 := 1, 5 := 2, 10 := 3, 15 := MUTEX_PRIO],
     ContextTask := [zero_task, demo_task 0, demo_task 5, demo_task 10],
     OSReadyList := ready, currentTask := c, TaskAlloc := 7, NumberOfInstalledTasks := 3\<rparr>"

lemma demo_config_simps [simp]:
  "NUMBER_OF_TASKS demo_config = 3" "ERROR_CHECK demo_config = True" "VERBOSE demo_config = False"
  "OPTIMIZED_SCHEDULER demo_config = True" "FPU_SUPPORT demo_config = True"
  "BRTOS_BINARY_SEM_EN demo_config = True" "QUEUE_HEAP_SIZE demo_config = 1024"
  "HEAP_SIZE demo_config = 12288" "NUMBER_MIN_OF_STACKED_BYTES demo_config = 68"
  "IDLE_STACK_SIZE demo_config = 512" "STACK_GROWTH demo_config = False"
  "configTICK_RATE_HZ demo_config = 1000" "Idle_fct demo_config = 0x08000101" "STACK_base demo_config = 0x20000000"
  "COMPUTES_CPU_LOAD demo_config = True"
  by (simp_all add: demo_config_def example_config_def)

lemma demo_simps [simp]:
  "OSReadyList (demo r c) = r" "currentTask (demo r c) = c" "iNesting (demo r c) = 0"
  "OSBlockedList (demo r c) = 0xFFFFFFFF" "OSTickCounter (demo r c) = 0" "Head (demo r c) = None"
  "Tail (demo r c) = None" "TaskAlloc (demo r c) = 7" "iQueueAddress (demo r c) = 0"
  "ContextTask (demo r c) = [zero_task, demo_task 0, demo_task 5, demo_task 10]"
  by (simp_all add: demo_def boot_kernel_def)

lemma demo_vector [simp]:
  "PriorityVector (demo r c) = (replicate 32 EMPTY_PRIO)[0 := 1, 5 := 2, 10 := 3, 15 := MUTEX_PRIO]"
  by (simp add: demo_def)

lemma demo_task_simps [simp]: "Priority (demo_task p) = p" "TimeToWait (demo_task p) = NO_TIMEOUT"
  by (simp_all add: demo_task_def)

lemma demo_installed: "installed demo_config (demo r c) t \<longleftrightarrow> t = 1 \<or> t = 2 \<or> t = 3"
proof (cases "t \<in> {0, 1, 2, 3}")
  case True
  then show ?thesis by (auto simp: installed_def is_task_def)
next
  case False
  then show ?thesis by (auto simp: installed_def is_task_def)
qed

lemma prios_all: "prios (0xFFFFFFFF :: PriorityType) = {..<32}"
proof -
  have "bit (0xFFFFFFFF :: PriorityType) i \<longleftrightarrow> i < 32" for i
  proof -
    have "(0xFFFFFFFF :: PriorityType) = mask 32" by (simp add: mask_eq_exp_minus_1)
    then show ?thesis by (simp only: bit_mask_iff) simp
  qed
  then show ?thesis by (auto simp: prios_def)
qed

text \<open>The three ready lists used: the low task with or without the high task, and the idle task alone.\<close>

abbreviation ready_low :: PriorityType where "ready_low \<equiv> 2 ^ 0 OR 2 ^ 5"
abbreviation ready_high :: PriorityType where "ready_high \<equiv> (2 ^ 0 OR 2 ^ 5) OR 2 ^ 10"

lemma prios_masks: "prios (2 ^ 0 :: PriorityType) = {0}" "prios (2 ^ 5 :: PriorityType) = {5}"
  "prios (2 ^ 10 :: PriorityType) = {10}" "prios (2 ^ 15 :: PriorityType) = {15}"
  by (rule prios_exp, simp)+

lemma prios_ready: "prios ready_low = {0, 5}" "prios ready_high = {0, 5, 10}"
  unfolding prios_or prios_masks by auto

lemma demo_kernel_ok:
  assumes "prios r \<subseteq> {0, 5, 10}"
  shows "kernel_ok demo_config (demo r c)"
proof (rule kernel_okI)
  show "arrays_ok demo_config (demo r c)" by (simp add: arrays_ok_def)
  show "prio_ok demo_config (demo r c)" by (auto simp: prio_ok_def demo_installed)
  show "ready_ok demo_config (demo r c)" using assms by (auto simp: ready_ok_def demo_installed)
qed

lemma demo_sys_ok:
  assumes "prios r \<subseteq> {0, 5, 10}" and "0 \<in> prios r" and "unat c \<le> 3"
  shows "sys_ok demo_config (demo r c) []"
  using demo_kernel_ok [OF assms(1)] assms(2,3)
  by (simp add: sys_ok_def delay_list_def runnable_def prios_all)

lemma demo_low_ok: "sys_ok demo_config (demo ready_low 2) []"
  by (rule demo_sys_ok) (simp_all only: prios_ready, auto)

lemma demo_high_ok: "sys_ok demo_config (demo ready_high 3) []"
  by (rule demo_sys_ok) (simp_all only: prios_ready, auto)

lemma demo_alloc_ok: "alloc_ok demo_config (demo r c)"
proof -
  have m: "(7 :: uint32_t) = mask 3" by (simp add: mask_eq_exp_minus_1)
  have "bit (7 :: uint32_t) i" if "i < 3" for i
    using that unfolding m bit_mask_iff by simp
  then show ?thesis by (auto simp: alloc_ok_def demo_installed)
qed

text \<open>Facts about the running task of the two states.\<close>

lemma demo_running [simp]:
  "installed demo_config (demo r 2) 2" "installed demo_config (demo r 3) 3" "installed demo_config (demo r c) (Suc 0)"
  by (simp_all add: demo_installed)

lemma demo_cur: "unat (currentTask (demo r c)) = unat c"
  by simp

text \<open>The state after \<^verbatim>\<open>PreInstallTasks\<close>, in which no task is installed.\<close>

definition demo_boot :: kernel where
  "demo_boot = PreInstallTasks demo_config (boot_kernel demo_config)"

lemma demo_boot_ok: "kernel_ok demo_config demo_boot" "alloc_ok demo_config demo_boot" "delay_list demo_boot []"
  unfolding demo_boot_def by (rule PreInstallTasks_ok, simp)+

lemma demo_boot_simps [simp]:
  "iStackAddress demo_boot = 0" "free_tcb demo_config demo_boot = Some 0" "OSBlockedList demo_boot = 0xFFFFFFFF"
  "PriorityVector demo_boot = replicate 32 EMPTY_PRIO" "currentTask demo_boot = 0" "StackAddress demo_boot = 0x20000000"
  by (simp_all add: demo_boot_def PreInstallTasks_def boot_kernel_def free_tcb_def upt_rec map_replicate)

section \<open>Event control blocks\<close>

text \<open>A semaphore with no waiter and a given count, and one with the task of priority 10 waiting.\<close>

definition demo_sem :: "uint8_t \<Rightarrow> BRTOS_Sem" where
  "demo_sem cnt = \<lparr>OSEventAllocated = 1, OSEventWait = 0, OSEventWaitList = 0, BRTOS_Sem.OSEventCount = cnt, Binary = 0\<rparr>"

definition demo_sem_waiting :: BRTOS_Sem where
  "demo_sem_waiting = \<lparr>OSEventAllocated = 1, OSEventWait = 1, OSEventWaitList = 2 ^ 10, BRTOS_Sem.OSEventCount = 0, Binary = 0\<rparr>"

lemma demo_sem_simps [simp]:
  "BRTOS_Sem.OSEventCount (demo_sem c) = c" "OSEventAllocated (demo_sem c) = 1" "waiters (demo_sem c) = {}"
  "wait_ok (demo_sem c)" "Binary (demo_sem c) = 0"
  by (simp_all add: demo_sem_def waiters_def wait_ok_def)

lemma demo_sem_waiters: "waiters demo_sem_waiting = {10}"
  unfolding demo_sem_waiting_def waiters_def using prios_masks(3) by simp

lemma demo_sem_waiting_simps [simp]:
  "BRTOS_Sem.OSEventCount demo_sem_waiting = 0" "OSEventAllocated demo_sem_waiting = 1" "Binary demo_sem_waiting = 0"
  by (simp_all add: demo_sem_waiting_def)

lemma demo_sem_inv: "sem_inv demo_config (demo r c) (demo_sem n)"
  by (simp add: sem_inv_def waiters_installed_def)

lemma demo_prio_3: "prio_of (demo r c) 3 = 10" "installed demo_config (demo r c) 3"
  by (simp_all add: demo_installed)

lemma demo_waiter: "waiters e = {10} \<Longrightarrow> waiters_installed demo_config (demo r c) e"
  unfolding waiters_installed_def using demo_prio_3 [of r c] by (metis singletonD)

lemma demo_sem_waiting_inv: "sem_inv demo_config (demo r c) demo_sem_waiting"
proof -
  have "wait_ok demo_sem_waiting" by (simp add: wait_ok_def demo_sem_waiters) (simp add: demo_sem_waiting_def)
  then show ?thesis by (simp add: sem_inv_def demo_waiter demo_sem_waiters)
qed

text \<open>A free mutex with the reserved ceiling 15.\<close>

definition demo_mutex :: BRTOS_Mutex where
  "demo_mutex = \<lparr>OSEventAllocated = 1, OSEventWait = 0, OSEventWaitList = 0, BRTOS_Mutex.OSEventState = AVAILABLE_RESOURCE,
     OSEventOwner = 0, OSMaxPriority = 15, OSOriginalPriority = 0\<rparr>"

lemma demo_mutex_free: "mutex_free (demo r c) demo_mutex"
  by (simp add: mutex_free_def demo_mutex_def wait_ok_def waiters_def)

text \<open>
  The state in which the low task holds the mutex and runs at the ceiling 15, while the high task
  waits for the mutex.
\<close>

abbreviation ready_held :: PriorityType where "ready_held \<equiv> 2 ^ 0 OR 2 ^ 15"

definition demo_held :: kernel where
  "demo_held = (demo ready_held 2)\<lparr>
     PriorityVector := (replicate 32 EMPTY_PRIO)[0 := 1, 5 := 2, 10 := 3, 15 := 2],
     ContextTask := [zero_task, demo_task 0, demo_task 15, demo_task 10]\<rparr>"

definition demo_mutex_held :: BRTOS_Mutex where
  "demo_mutex_held = \<lparr>OSEventAllocated = 1, OSEventWait = 1, OSEventWaitList = 2 ^ 10, BRTOS_Mutex.OSEventState = BUSY_RESOURCE,
     OSEventOwner = 2, OSMaxPriority = 15, OSOriginalPriority = 5\<rparr>"

lemma demo_held_simps [simp]:
  "OSReadyList demo_held = ready_held" "currentTask demo_held = 2" "iNesting demo_held = 0"
  "OSBlockedList demo_held = 0xFFFFFFFF" "OSTickCounter demo_held = 0" "Head demo_held = None" "Tail demo_held = None"
  "ContextTask demo_held = [zero_task, demo_task 0, demo_task 15, demo_task 10]"
  "PriorityVector demo_held = (replicate 32 EMPTY_PRIO)[0 := 1, 5 := 2, 10 := 3, 15 := 2]"
  by (simp_all add: demo_held_def)

lemma prios_held: "prios ready_held = {0, 15}"
  unfolding prios_or prios_masks by auto

lemma demo_held_installed: "installed demo_config demo_held t \<longleftrightarrow> t = 1 \<or> t = 2 \<or> t = 3"
  by (cases "t \<in> {0, 1, 2, 3}") (auto simp: installed_def is_task_def)

lemma demo_held_ok: "sys_ok demo_config demo_held []"
proof -
  have r: "prios (OSReadyList demo_held) = {0, 15}" unfolding demo_held_simps by (rule prios_held)
  have "kernel_ok demo_config demo_held"
  proof (rule kernel_okI)
    show "arrays_ok demo_config demo_held" by (simp add: arrays_ok_def)
    show "prio_ok demo_config demo_held" by (auto simp: prio_ok_def demo_held_installed)
    show "ready_ok demo_config demo_held" unfolding ready_ok_def r by (simp add: demo_held_installed)
  qed
  moreover have "0 \<in> runnable demo_held" unfolding runnable_def r by (simp add: prios_all)
  ultimately show ?thesis by (simp add: sys_ok_def delay_list_def)
qed

lemma demo_held_waiters: "waiters demo_mutex_held = {10}"
  unfolding demo_mutex_held_def waiters_def using prios_masks(3) by simp

lemma demo_mutex_held_ok: "mutex_held demo_config demo_held demo_mutex_held"
proof -
  have "waiters_installed demo_config demo_held demo_mutex_held"
    unfolding waiters_installed_def demo_held_waiters by (simp add: demo_held_installed) (rule exI [of _ 3], simp)
  moreover have "wait_ok demo_mutex_held" unfolding wait_ok_def demo_held_waiters by (simp add: demo_mutex_held_def)
  ultimately show ?thesis
    unfolding mutex_held_def demo_held_waiters by (auto simp: demo_mutex_held_def demo_held_installed)
qed

text \<open>A mailbox without a message, with or without the high task waiting.\<close>

definition demo_mbox :: BRTOS_Mbox where
  "demo_mbox = \<lparr>OSEventAllocated = 1, OSEventWait = 0, OSEventWaitList = 0, BRTOS_Mbox.OSEventState = NO_MESSAGE, BRTOS_Mbox.OSEventPointer = 0\<rparr>"

definition demo_mbox_waiting :: BRTOS_Mbox where
  "demo_mbox_waiting = \<lparr>OSEventAllocated = 1, OSEventWait = 1, OSEventWaitList = 2 ^ 10, BRTOS_Mbox.OSEventState = NO_MESSAGE,
     BRTOS_Mbox.OSEventPointer = 0\<rparr>"

lemma demo_mbox_waiters: "waiters demo_mbox_waiting = {10}" "waiters demo_mbox = {}"
  unfolding demo_mbox_waiting_def demo_mbox_def waiters_def using prios_masks(3) by simp_all

lemma demo_mbox_inv: "mbox_inv demo_config (demo r c) demo_mbox" "mbox_inv demo_config (demo r c) demo_mbox_waiting"
proof -
  show "mbox_inv demo_config (demo r c) demo_mbox"
    by (simp add: mbox_inv_def wait_ok_def waiters_installed_def demo_mbox_waiters) (simp add: demo_mbox_def)
  show "mbox_inv demo_config (demo r c) demo_mbox_waiting"
    by (simp add: mbox_inv_def wait_ok_def demo_waiter demo_mbox_waiters) (simp add: demo_mbox_waiting_def)
qed

text \<open>The byte queue of eight entries that \<^verbatim>\<open>OSQueueCreate\<close> builds at the start of the queue heap.\<close>

definition demo_queue :: OS_QUEUE where
  "demo_queue = queue_setup 1 0 8"

definition demo_heap :: "uint8_t list" where
  "demo_heap = replicate 1024 0"

definition demo_queue_event :: BRTOS_Queue where
  "demo_queue_event = \<lparr>OSEventAllocated = 1, OSEventWait = 0, OSEventWaitList = 0, OSEventCount = 0, OSEventPointer = Some 0\<rparr>"

definition demo_queues :: queues where
  "demo_queues = \<lparr>BRTOS_Queue_Table = [demo_queue_event], BRTOS_OS_QUEUE_Table = [demo_queue], QUEUE_STACK = demo_heap\<rparr>"

lemma demo_ring: "ring 1 dec8 demo_queue demo_heap []"
  unfolding demo_queue_def demo_heap_def by (rule c8.ring_setup) simp_all

lemma demo_queue_inv: "queue_inv demo_config (demo r c) demo_queues 0 []"
  using demo_ring
  by (simp add: queue_inv_def demo_queues_def demo_queue_event_def wait_ok_def waiters_def waiters_installed_def)

text \<open>A dynamic queue of four elements of three bytes at the start of a heap of 64 bytes.\<close>

definition demo_dqueues :: dqueues where
  "demo_dqueues = \<lparr>DEvent = (\<lambda>_. demo_queue_event), DPointer = (\<lambda>_. 2),
     DQueue = (\<lambda>_. \<lparr>OSQStart = 0, OSQEnd = 12, OSQIn = 0, OSQOut = 0, OSQSize = 4, OSQEntries = 0, OSQTSize = 3\<rparr>),
     DHeap = replicate 64 0\<rparr>"

lemma demo_dqueue_holds: "dqueue_holds demo_dqueues 1 []"
  unfolding dqueue_holds_def demo_dqueues_def ring_def by (auto intro!: exI [of _ "0 :: nat"])

section \<open>A running system\<close>

text \<open>The three tasks, all ready, with one semaphore.\<close>

definition demo_system :: "uint8_t \<Rightarrow> sem_system" where
  "demo_system n = \<lparr>ker = demo ready_high 3, sems = [demo_sem n], pos = (\<lambda>_. Active), posted = (\<lambda>_. 0), taken = (\<lambda>_. 0)\<rparr>"

lemma demo_system_inv: "system_inv demo_config (demo_system n) []"
proof (rule system_invI)
  have r: "prios ready_high = {0, 5, 10}" by (rule prios_ready)
  show "sys_ok demo_config (ker (demo_system n)) []" by (simp only: demo_system_def sem_system.simps demo_high_ok)
  show "runs_highest demo_config (ker (demo_system n))"
    unfolding runs_highest_def runnable_def demo_system_def sem_system.simps demo_simps r prios_all by simp
  show "sems_ok demo_config (ker (demo_system n)) (sems (demo_system n))"
    by (simp add: sems_ok_def demo_system_def demo_sem_inv)
  show "task_ok (ker (demo_system n)) [] (sems (demo_system n)) (pos (demo_system n) t) t"
    if "installed demo_config (ker (demo_system n)) t" for t
    using that unfolding demo_system_def sem_system.simps demo_installed task_ok_def demo_simps r by (auto simp: free_of_def)
qed (simp add: demo_system_def)

end
