(* ===== verification/KernelProps.thy ===== *)
theory KernelProps
  imports Demo
begin

text \<open>
  The properties of the kernel proper: scheduling, time, the delay list, the life of a task and
  blocking. Each is stated over the definitions of the model and followed by an application to
  the concrete system of \<open>Demo\<close>.
\<close>

section \<open>Time\<close>

text \<open>
  C7: exact sleep. In a consistent system, \<^verbatim>\<open>OSDelayTask\<close> of \<open>w\<close> ticks
  (\<open>w\<close> at most the period 65532 of the tick counter) succeeds, switches to the highest runnable
  task, keeps the caller out of the ready list during the next \<open>w - 1\<close> tick interrupts, and the
  \<open>w\<close>-th tick interrupt makes it ready with the time-out mark, whatever the value of the tick
  counter, so also across its wrap-around.
\<close>

theorem delay_exact:
  assumes "sys_ok C k xs" and "iNesting k = 0" and "installed C k (unat (currentTask k))"
    and "prio_of k (unat (currentTask k)) \<noteq> 0" and "unat (currentTask k) \<notin> set xs"
    and "0 < w" and "w \<le> TICK_COUNT_OVERFLOW"
  shows "\<exists>k1. OSDelayTask C w k = Some (OK, k1) \<and> runs_highest C k1 \<and>
     (\<forall>n < unat w. \<exists>k2. run_ticks C n k1 = Some k2 \<and>
        asleep C k2 (unat (currentTask k)) (wake_tick (OSTickCounter k) w)) \<and>
     (\<exists>k2. run_ticks C (unat w) k1 = Some k2 \<and> timed_out C k2 (unat (currentTask k)))"
proof -
  from OSDelayTask_spec [OF assms(1-6)] obtain k1 where
    k1: "OSDelayTask C w k = Some (OK, k1)" "sys_ok C k1 (xs @ [unat (currentTask k)])"
    and sl: "slept k k1 (unat (currentTask k)) (wake_tick (OSTickCounter k) w)" and rh: "runs_highest C k1" .
  have c: "OSTickCounter k1 = OSTickCounter k" using frameD(5) [OF sleptD(1) [OF sl]] .
  have a: "asleep C k1 (unat (currentTask k)) (wake_tick (OSTickCounter k) w)" by (rule slept_asleep [OF k1(2) sl])
  note before = run_ticks_asleep [OF a sys_okD(4) [OF assms(1)] c refl assms(6,7)]
  from a c have "asleep C k1 (unat (currentTask k)) (wake_tick (OSTickCounter k1) w)" by simp
  from run_ticks_wakes [OF this assms(6,7)] k1(1) rh before show ?thesis by blast
qed

theorem delay_exact_witness:
  "\<exists>k1. OSDelayTask demo_config 2 (demo ready_high 3) = Some (OK, k1) \<and> runs_highest demo_config k1 \<and>
     (\<forall>n < 2. \<exists>k2. run_ticks demo_config n k1 = Some k2 \<and> asleep demo_config k2 3 (wake_tick 0 2)) \<and>
     (\<exists>k2. run_ticks demo_config 2 k1 = Some k2 \<and> timed_out demo_config k2 3)"
  using delay_exact [OF demo_high_ok, of 2] by simp

text \<open>
  C8: one tick interrupt advances the tick counter, makes ready exactly the tasks of the delay
  list whose wake-up tick is the new value, marks them with \<^verbatim>\<open>EXIT_BY_TIMEOUT\<close>, removes them
  and only them from the delay list without changing the order of the others, and ends with the
  highest runnable task on the processor.
\<close>

theorem tick_wakes_due:
  assumes "sys_ok C k xs"
  shows "\<exists>k1. TickTimer C k = Some k1 \<and> OSTickCounter k1 = OSTickCounter (OSIncCounter k) \<and>
     sys_ok C k1 (waiting (OSIncCounter k) xs) \<and>
     woken (OSIncCounter k) k1 (due (OSIncCounter k) xs) \<and> (iNesting k = 0 \<longrightarrow> runs_highest C k1)"
proof -
  from TickTimer_spec [OF assms] obtain k1 where
    "TickTimer C k = Some k1" "sys_ok C k1 (waiting (OSIncCounter k) xs)"
    "woken (OSIncCounter k) k1 (due (OSIncCounter k) xs)" "iNesting k = 0 \<longrightarrow> runs_highest C k1" .
  then show ?thesis by (auto simp: wokenD)
qed

theorem tick_wakes_due_witness:
  "\<exists>k1. TickTimer demo_config (demo ready_low 2) = Some k1 \<and> OSTickCounter k1 = 1 \<and>
     sys_ok demo_config k1 [] \<and> runs_highest demo_config k1"
  using tick_wakes_due [OF demo_low_ok] by (auto simp: OSIncCounter_def Let_def)

text \<open>
  the tickless variant of the tick counter. Advancing the counter by \<open>inc\<close> ticks at once
  leaves the same kernel as \<open>inc\<close> single increments, for every \<open>inc\<close> up to the period of the
  counter.
\<close>

theorem tickless_counter:
  assumes "OSTickCounter k < TICK_COUNT_OVERFLOW" and "inc \<le> TICK_COUNT_OVERFLOW"
  shows "OSIncCounter_tickless inc k = (OSIncCounter ^^ unat inc) k"
proof (cases "inc = 1")
  case True
  then show ?thesis by (simp add: OSIncCounter_tickless_def)
next
  case False
  have "OSIncCounter_tickless inc k = k\<lparr>OSTickCounter := wake_tick (OSTickCounter k) inc\<rparr>"
    using False by (simp add: OSIncCounter_tickless_def wake_tick_def Let_def)
  moreover have "wake_tick (OSTickCounter k) inc = OSTickCounter ((OSIncCounter ^^ unat inc) k)"
    by (simp add: word_unat_eq_iff unat_wake_tick [OF assms] unat_iterate_OSIncCounter [OF assms(1)])
  ultimately show ?thesis by (subst iterate_OSIncCounter) simp
qed

theorem tickless_counter_witness:
  "OSIncCounter_tickless 3 (demo ready_low 2) = (OSIncCounter ^^ 3) (demo ready_low 2)"
  using tickless_counter [of "demo ready_low 2" 3] by simp

text \<open>
  \<^verbatim>\<open>OSDelayTaskHMSM\<close> converts a valid time into ticks without overflow for every tick
  rate up to 4660 Hz: the 32-bit computation is the exact number of ticks (the milliseconds
  rounded down).
\<close>

theorem HMSM_exact:
  assumes "minutes \<le> 59" and "seconds \<le> 59" and "miliseconds \<le> 999"
    and "unat (configTICK_RATE_HZ C) \<le> 4660"
  shows "unat (HMSM_ticks C hours minutes seconds miliseconds) =
    (unat hours * 3600 + unat minutes * 60 + unat seconds) * unat (configTICK_RATE_HZ C) +
    unat miliseconds * unat (configTICK_RATE_HZ C) div 1000"
  using unat_HMSM_ticks [OF assms] .

theorem HMSM_exact_witness: "unat (HMSM_ticks demo_config 1 30 15 250) = 5415250"
  using HMSM_exact [of 30 15 250 demo_config 1] by simp

text \<open>
  a wait longer than the period of the tick counter is not honoured. Near the wrap-around,
  \<^verbatim>\<open>OSDelayTask\<close> accepts a delay of 65535 ticks and stores the reserved mark
  \<^verbatim>\<open>EXIT_BY_TIMEOUT\<close> as the wake-up tick; a delay of 65533 ticks stores the value
  \<^verbatim>\<open>TICK_COUNT_OVERFLOW\<close>, which no tick ever reaches: the task never wakes up.
\<close>

theorem long_delay_hazard:
  "wake_tick 65530 65535 = EXIT_BY_TIMEOUT \<and> wake_tick 65531 65533 = TICK_COUNT_OVERFLOW \<and>
   (OSTickCounter k = 65531 \<longrightarrow> (\<forall>n. OSTickCounter ((OSIncCounter ^^ n) k) \<noteq> wake_tick 65531 65533))"
proof -
  have w: "wake_tick 65531 65533 = TICK_COUNT_OVERFLOW" by (simp add: wake_tick_def)
  have "OSTickCounter ((OSIncCounter ^^ n) k) \<noteq> TICK_COUNT_OVERFLOW" if "OSTickCounter k = 65531" for n
  proof -
    from that have "tick_ok k" by simp
    from tick_ok_iterate [OF this, of n] show ?thesis by auto
  qed
  with w show ?thesis by (simp add: wake_tick_def)
qed

theorem long_delay_hazard_witness:
  "\<forall>n. OSTickCounter ((OSIncCounter ^^ n) ((demo ready_low 2)\<lparr>OSTickCounter := 65531\<rparr>)) \<noteq> 0xFFFC"
  using long_delay_hazard [of "(demo ready_low 2)\<lparr>OSTickCounter := 65531\<rparr>"] by auto

section \<open>Scheduling\<close>

text \<open>
  C9: a context switch in a consistent kernel with a runnable task never fails, changes nothing
  but the running task and the stack pointers, keeps the invariant and, outside of interrupts,
  leaves the installed task of the highest ready and unblocked priority running.
\<close>

theorem switch_runs_highest:
  assumes "kernel_ok C k" and "runnable k \<noteq> {}" and "unat (currentTask k) < length (ContextTask k)"
  shows "\<exists>k1. ChangeContext C k = Some k1 \<and> same_kernel k k1 \<and> kernel_ok C k1 \<and>
     (iNesting k = 0 \<longrightarrow> installed C k1 (unat (currentTask k1)) \<and>
        prio_of k1 (unat (currentTask k1)) = Max (runnable k1))"
  using ChangeContext_spec [OF assms] assms(1) by (metis runs_highest_def same_kernel_ok)

theorem switch_runs_highest_witness:
  "\<exists>k1. ChangeContext demo_config (demo ready_high 2) = Some k1 \<and>
     prio_of k1 (unat (currentTask k1)) = Max (runnable k1)"
proof -
  have "sys_ok demo_config (demo ready_high 2) []" by (rule demo_sys_ok) (simp_all only: prios_ready, auto)
  note d = sys_okD [OF this]
  from switch_runs_highest [OF d(1,6,7)] show ?thesis by auto
qed

text \<open>
  C28: the successive-approximation search returns the highest set bit of every non-empty ready
  list, in each of the three widths it is compiled for.
\<close>

theorem SAScheduler_highest:
  "(w8 \<noteq> 0 \<longrightarrow> unat (SAScheduler8 w8) = Max (prios w8)) \<and>
   (w16 \<noteq> 0 \<longrightarrow> unat (SAScheduler16 w16) = Max (prios w16)) \<and>
   (w32 \<noteq> 0 \<longrightarrow> unat (SAScheduler32 w32) = Max (prios w32))"
  using sa8.sched_Max sa16.sched_Max sa32.sched_Max by blast

theorem SAScheduler_highest_witness:
  "unat (SAScheduler8 9) = Max (prios (9 :: uint8_t)) \<and> unat (SAScheduler16 9) = Max (prios (9 :: uint16_t)) \<and>
   unat (SAScheduler32 9) = Max (prios (9 :: uint32_t))"
  using SAScheduler_highest [of 9 9 9] by simp

text \<open>
  the search with the count-leading-zeros instruction and the successive approximation select
  the same priority for every non-empty list.
\<close>

theorem schedulers_agree: "w \<noteq> 0 \<Longrightarrow> Optimezed_Scheduler w = SAScheduler32 w"
  using sa_clz.agree [of w] by simp

theorem schedulers_agree_witness: "Optimezed_Scheduler 5 = SAScheduler32 5"
  by (rule schedulers_agree) simp

section \<open>The delay list\<close>

text \<open>
  the macros for the doubly linked delay list. Inserting a task that is not in the list
  appends it; removing any task of the list, be it the only, the first, the last or an inner one,
  never follows a null pointer and leaves the others in order; so removing an inserted task gives
  back the list.
\<close>

theorem delay_list_insert_remove:
  assumes "delay_list k xs" and "t \<notin> set xs" and "t < length (ContextTask k)" and "u \<in> set (xs @ [t])"
  shows "\<exists>k1 k2. IncludeTaskIntoDelayList t k = Some k1 \<and> delay_list k1 (xs @ [t]) \<and>
     RemoveFromDelayList u k1 = Some k2 \<and> delay_list k2 (remove1 u (xs @ [t])) \<and>
     (u = t \<longrightarrow> delay_list k2 xs)"
proof -
  from dl.insert_ok [OF assms(1-3)] obtain k1 where
    k1: "IncludeTaskIntoDelayList t k = Some k1" "delay_list k1 (xs @ [t])" by blast
  from dl.remove_ok [OF k1(2) assms(4)] obtain k2 where
    k2: "RemoveFromDelayList u k1 = Some k2" "delay_list k2 (remove1 u (xs @ [t]))" by blast
  have "remove1 t (xs @ [t]) = xs" using assms(2) by (simp add: remove1_append)
  with k1 k2 show ?thesis by auto
qed

theorem delay_list_insert_remove_witness:
  "\<exists>k1 k2. IncludeTaskIntoDelayList 2 (demo ready_low 2) = Some k1 \<and> delay_list k1 [2] \<and>
     RemoveFromDelayList 2 k1 = Some k2 \<and> delay_list k2 []"
  using delay_list_insert_remove [OF sys_okD(2) [OF demo_low_ok], of 2 2] by auto

section \<open>Tasks\<close>

text \<open>
  C27: installing a task. When the stack is large enough and fits the heap, the priority is a
  valid free one and a task control block is free, \<^verbatim>\<open>OSInstallTask\<close> succeeds: the handle names
  a task that was not installed before, which is now installed and ready at the requested
  priority with an empty timer, every other task is untouched, and the invariants of the kernel,
  of the allocation word and of the delay list are preserved.
\<close>

theorem install_task:
  assumes ok: "kernel_ok C k" and al: "alloc_ok C k" and dl: "delay_list k xs" "\<forall>t \<in> set xs. installed C k t"
    and st: "NUMBER_MIN_OF_STACKED_BYTES C \<le> unat (b - b mod 4)"
    and fit: "unat (iStackAddress k) + unat (b - b mod 4) div 4 \<le> HEAP_SIZE C div 4"
    and pr: "0 < p" "p \<le> configMAX_TASK_PRIORITY" "PriorityVector k ! unat p = EMPTY_PRIO"
    and fr: "free_tcb C k = Some i"
  shows "\<exists>k1. OSInstallTask C f n b p a k = Some (OK, Some (of_nat (Suc i)), k1) \<and>
     \<not> installed C k (Suc i) \<and> installed C k1 (Suc i) \<and> prio_of k1 (Suc i) = unat p \<and>
     TimeToWait (tcb k1 (Suc i)) = NO_TIMEOUT \<and> prios (OSReadyList k1) = insert (unat p) (prios (OSReadyList k)) \<and>
     (\<forall>u. u \<noteq> Suc i \<longrightarrow> tcb k1 u = tcb k u) \<and> kernel_ok C k1 \<and> alloc_ok C k1 \<and> delay_list k1 xs"
proof -
  note ar = kernel_okD(1) [OF ok] and fr' = free_tcb_Some [OF fr]
  have pe: "priority_error C f p k = Some None"
    using pr ar by (simp add: priority_error_def arrays_ok_def word_le_nat_alt word_gt_0 not_less)
  from OSInstallTask_OK [OF ar st fit pe fr] obtain h k1 where
    k1: "OSInstallTask C f n b p a k = Some (OK, h, k1)" by blast
  from OSInstallTask_effect [OF ar k1] fr have h: "h = Some (of_nat (Suc i))" and ins: "installs C i (unat p) k k1"
    by force+
  have len: "Suc i < length (ContextTask k)" using ar fr'(1) by (simp add: arrays_ok_def)
  have ni: "\<not> installed C k (Suc i)" by (rule free_tcb_not_installed [OF fr al])
  have rdy: "prios (OSReadyList k1) = insert (unat p) (prios (OSReadyList k))"
    using ins by (auto simp: installs_def prios_or prios_PriorityMask)
  show ?thesis
    using k1 h ni rdy installs_kernel_ok [OF ok al ins fr' pr(3)] installs_installed [OF ins ar fr'(1), of "Suc i"]
      installs_tcb [OF ins len] installs_delay_list [OF ins dl ni] by blast
qed

theorem install_task_witness:
  "\<exists>k1. OSInstallTask demo_config 0x08000201 ''new'' 512 20 0 demo_boot = Some (OK, Some (of_nat (Suc 0)), k1) \<and>
     installed demo_config k1 (Suc 0) \<and> prio_of k1 (Suc 0) = 20 \<and> kernel_ok demo_config k1"
  using install_task [OF demo_boot_ok, of 512 20 0 "0x08000201" "''new''" 0] by auto

text \<open>
  an installation that fails returns no handle and changes nothing: no stack space, no
  task control block and no priority is lost.
\<close>

theorem install_error:
  assumes "OSInstallTask C f n b p a k = Some (r, h, k1)" and "r \<noteq> OK"
  shows "h = None \<and> k1 = k \<and> r \<in> {STACK_SIZE_TOO_SMALL, NO_MEMORY, END_OF_AVAILABLE_PRIORITIES,
    BUSY_PRIORITY, CANNOT_ASSIGN_IDLE_TASK_PRIO, END_OF_AVAILABLE_TCB}"
  using OSInstallTask_error [OF assms] OSInstallTask_codes [OF assms(1)] assms(2) by blast

theorem install_error_witness:
  "OSInstallTask demo_config 0x08000201 ''busy'' 512 5 0 (demo ready_low 2) = Some (BUSY_PRIORITY, None, demo ready_low 2)"
proof -
  have "OSInstallTask demo_config 0x08000201 ''busy'' 512 5 0 (demo ready_low 2) =
      Some (BUSY_PRIORITY, None, demo ready_low 2)"
    by (simp add: OSInstallTask_def priority_error_def Let_def demo_def boot_kernel_def)
  with install_error [OF this] show ?thesis by simp
qed


text \<open>
  uninstalling a task that was just installed by the dynamic version of
  \<^verbatim>\<open>OSInstallTask\<close> succeeds, gives its stack back to the allocator and restores the priority
  vector, the ready list, the allocation word and the number of installed tasks; the invariants
  hold again and the delay list is unchanged.
\<close>

theorem install_uninstall_restores:
  assumes "kernel_ok C k" and "alloc_ok C k" and "delay_list k xs" and "\<forall>t \<in> set xs. installed C k t"
    and "OSInstallTask_dyn alloc de C f n b p a h k = Some (OK, Some H, h1, k1)" and "p \<noteq> 0"
    and "currentTask k = 0 \<or> installed C k (unat (currentTask k))"
  shows "\<exists>k2. OSUninstallTask de C H so h1 k1 = Some (OK, de (StackInit (tcb k1 (unat H))) h1, k2) \<and>
     PriorityVector k2 = PriorityVector k \<and> OSReadyList k2 = OSReadyList k \<and> TaskAlloc k2 = TaskAlloc k \<and>
     NumberOfInstalledTasks k2 = NumberOfInstalledTasks k \<and> kernel_ok C k2 \<and> alloc_ok C k2 \<and> delay_list k2 xs"
  by (rule install_uninstall [OF assms])

theorem install_uninstall_restores_witness:
  "\<exists>h1 k1 k2. OSInstallTask_dyn (\<lambda>n h. (0x20001000, h + 1)) (\<lambda>p h. h - 1) demo_config 0x08000201 ''dyn'' 512 20 0
       (0 :: nat) demo_boot = Some (OK, Some 1, h1, k1) \<and>
     OSUninstallTask (\<lambda>p h. h - 1) demo_config 1 0 h1 k1 = Some (OK, h1 - 1, k2) \<and>
     PriorityVector k2 = PriorityVector demo_boot \<and> kernel_ok demo_config k2"
proof -
  let ?inst = "OSInstallTask_dyn (\<lambda>n h. (0x20001000, h + 1)) (\<lambda>p h. h - 1) demo_config 0x08000201 ''dyn'' 512 20 0 (0 :: nat) demo_boot"
  have ar: "arrays_ok demo_config demo_boot" using demo_boot_ok(1) by (rule kernel_okD)
  have pe: "priority_error demo_config 0x08000201 20 demo_boot = Some None" by (simp add: priority_error_def)
  from OSInstallTask_dyn_OK [OF ar _ pe, of 512 0 "\<lambda>n h. (0x20001000, h + 1)" 0 "0x20001000" "Suc 0" "\<lambda>p h. h - 1" "''dyn''" 0]
  obtain hn k1 where r0: "?inst = Some (OK, hn, Suc 0, k1)" by auto
  from OSInstallTask_dyn_effect [OF ar r0] have "hn = Some 1" by force
  with r0 have r: "?inst = Some (OK, Some 1, Suc 0, k1)" by simp
  from install_uninstall_restores [OF demo_boot_ok _ r, of 0] r show ?thesis by auto
qed

text \<open>
  starting the system. With room for the idle task, \<^verbatim>\<open>BRTOSStart\<close> installs it at
  priority 0, selects the highest runnable task and leaves a consistent kernel in which that task
  runs on its own stack; every task that was runnable still is.
\<close>

theorem start_runs_highest:
  assumes "kernel_ok C k" and "alloc_ok C k" and "free_tcb C k = Some i" and "PriorityVector k ! 0 = EMPTY_PRIO"
    and "NUMBER_MIN_OF_STACKED_BYTES C \<le> unat (IDLE_STACK_SIZE C - IDLE_STACK_SIZE C mod 4)"
    and "unat (iStackAddress k) + unat (IDLE_STACK_SIZE C - IDLE_STACK_SIZE C mod 4) div 4 \<le> HEAP_SIZE C div 4"
    and "0 \<in> prios (OSBlockedList k)"
  shows "\<exists>k1. BRTOSStart C k = Some (OK, k1) \<and> kernel_ok C k1 \<and> alloc_ok C k1 \<and> runs_highest C k1 \<and>
     0 \<in> runnable k1 \<and> runnable k \<subseteq> runnable k1 \<and> SPvalue k1 = StackPoint (tcb k1 (unat (currentTask k1)))"
  using BRTOSStart_spec [OF assms] by metis

theorem start_runs_highest_witness:
  "\<exists>k1. BRTOSStart demo_config demo_boot = Some (OK, k1) \<and> kernel_ok demo_config k1 \<and> runs_highest demo_config k1"
proof -
  have "0 \<in> prios (OSBlockedList demo_boot)" by (simp add: prios_all)
  with start_runs_highest [OF demo_boot_ok(1,2), of 0] show ?thesis by auto
qed

text \<open>
  the stack of a new task. After a successful installation the saved stack pointer of the
  task points at the frame the context switch pops: the words above it are R4 to R11, with an FPU
  the exception return value, the parameter in R0, the scratch registers, the entry point of the
  task in the program counter and the thumb bit in the status register.
\<close>

theorem install_stack_frame:
  assumes "arrays_ok C k" and "OSInstallTask C f n b p a k = Some (OK, h, k1)"
    and "NUMBER_MIN_OF_STACKED_BYTES C = 4 * length (initial_frame C f (ucast (b - b mod 4) div 10) a)"
    and "\<not> STACK_GROWTH C" and "StackAddress k = STACK_base C + 4 * ucast (iStackAddress k)"
    and "free_tcb C k = Some i"
    and "j < length (initial_frame C f (ucast (b - b mod 4) div 10) a)"
  shows "RAM k1 (StackPoint (tcb k1 (Suc i)) + 4 * of_nat j) =
    rev (initial_frame C f (ucast (b - b mod 4) div 10) a) ! j"
  using OSInstallTask_frame(2) [OF assms] .

theorem install_stack_frame_witness:
  "\<exists>h k1. OSInstallTask demo_config 0x08000201 ''new'' 512 20 7 demo_boot = Some (OK, h, k1) \<and>
     RAM k1 (StackPoint (tcb k1 1) + 4 * of_nat 9) = 7 \<and> RAM k1 (StackPoint (tcb k1 1) + 4 * of_nat 15) = 0x08000201"
proof -
  have ar: "arrays_ok demo_config demo_boot" using demo_boot_ok(1) by (rule kernel_okD)
  have pe: "priority_error demo_config 0x08000201 20 demo_boot = Some None" by (simp add: priority_error_def)
  from OSInstallTask_OK [OF ar _ _ pe, of 512 0 "''new''" 7] obtain h k1 where
    r: "OSInstallTask demo_config 0x08000201 ''new'' 512 20 7 demo_boot = Some (OK, h, k1)" by auto
  from install_stack_frame [OF ar r, of 0 9] install_stack_frame [OF ar r, of 0 15] r show ?thesis
    by (auto simp: initial_frame_def)
qed

section \<open>Blocking\<close>

text \<open>
  blocking and unblocking a task. A blocked task leaves the set of runnable priorities but
  keeps its place in the ready list; if it was the running task, the highest remaining task takes
  over at once. Unblocking gives back exactly the set of runnable priorities, and the highest of
  them runs.
\<close>

theorem block_unblock:
  assumes "sys_ok C k xs" and "iNesting k = 0" and "H \<noteq> 0" and "installed C k (unat H)"
    and "prio_of k (unat H) \<noteq> 0" and "prio_of k (unat H) \<in> runnable k"
  shows "\<exists>k1 k2. OSBlockTask C H k = Some (OK, k1) \<and> sys_ok C k1 xs \<and>
     runnable k1 = runnable k - {prio_of k (unat H)} \<and> OSReadyList k1 = OSReadyList k \<and>
     (H = ucast (currentTask k) \<longrightarrow> runs_highest C k1) \<and>
     OSUnBlockTask C H k1 = Some (OK, k2) \<and> sys_ok C k2 xs \<and> runnable k2 = runnable k \<and>
     (currentTask k1 \<noteq> 0 \<longrightarrow> runs_highest C k2)"
proof -
  have z: "0 \<in> prios (OSBlockedList k)" using sys_okD(5) [OF assms(1)] by (simp add: runnable_def)
  from OSBlockTask_spec [OF assms(1-5) z] obtain k1 where
    k1: "OSBlockTask C H k = Some (OK, k1)" "sys_ok C k1 xs" "H = ucast (currentTask k) \<longrightarrow> runs_highest C k1"
    and r1: "reblocked k k1 (prios (OSBlockedList k) - {prio_of k (unat H)})" .
  from r1 have p: "prio_of k1 (unat H) = prio_of k (unat H)" and n: "iNesting k1 = 0"
    and b1: "prios (OSBlockedList k1) = prios (OSBlockedList k) - {prio_of k (unat H)}"
    and rl: "OSReadyList k1 = OSReadyList k"
    using assms(2) by (auto simp: reblocked_def)
  have i1: "installed C k1 (unat H)" using assms(4) by (simp add: reblocked_installed [OF r1])
  from OSUnBlockTask_spec [OF k1(2) i1] obtain k2 where
    k2: "OSUnBlockTask C H k1 = Some (OK, k2)" "sys_ok C k2 xs" "currentTask k1 \<noteq> 0 \<and> iNesting k1 = 0 \<longrightarrow> runs_highest C k2"
    and r2: "reblocked k1 k2 (insert (prio_of k1 (unat H)) (prios (OSBlockedList k1)))" .
  have "runnable k1 = runnable k - {prio_of k (unat H)}" "runnable k2 = runnable k"
    unfolding reblocked_runnable [OF r1] reblocked_runnable [OF r2] p b1 rl
    using assms(6) by (auto simp: runnable_def)
  with k1 k2 n rl show ?thesis by blast
qed

theorem block_unblock_witness:
  "\<exists>k1 k2. OSBlockTask demo_config 3 (demo ready_high 3) = Some (OK, k1) \<and> runs_highest demo_config k1 \<and>
     OSUnBlockTask demo_config 3 k1 = Some (OK, k2) \<and> runnable k2 = runnable (demo ready_high 3)"
proof -
  have "10 \<in> runnable (demo ready_high 3)" using prios_ready(2) by (simp add: runnable_def prios_all)
  with block_unblock [OF demo_high_ok, of 3] show ?thesis by auto
qed

text \<open>
  blocking a range of tasks. \<^verbatim>\<open>OSBlockMultipleTask\<close> blocks the priorities of all the
  tasks of the range except the running one, and nothing else.
\<close>

theorem block_range:
  assumes "kernel_ok C k" and "iNesting k = 0" and "unat s + unat n < 256"
    and "\<forall>t. unat s \<le> t \<and> t < unat s + unat n \<longrightarrow> installed C k t"
  shows "\<exists>k1. OSBlockMultipleTask C s n k = Some (OK, k1) \<and> kernel_ok C k1 \<and> currentTask k1 = currentTask k \<and>
     OSReadyList k1 = OSReadyList k \<and>
     prios (OSBlockedList k1) = prios (OSBlockedList k) -
       prio_of k ` ({unat s..<unat s + unat n} - {unat (currentTask k)})"
proof -
  have u: "unat (s + n) = unat s + unat n" using assms(3) by (simp add: unat_word_ariths)
  from for_tasks_block [OF assms(1), of "[unat s..<unat s + unat n]"] assms(4) obtain k1 where
    "for_tasks (block_step C) [unat s..<unat s + unat n] k = Some k1" "currentTask k1 = currentTask k" "kernel_ok C k1"
    "reblocked k k1 (prios (OSBlockedList k) - prio_of k ` ({unat s..<unat s + unat n} - {unat (currentTask k)}))"
    by auto
  then show ?thesis using assms(2) u by (simp add: OSBlockMultipleTask_def reblocked_def)
qed

theorem block_range_witness:
  "\<exists>k1. OSBlockMultipleTask demo_config 1 3 (demo ready_high 3) = Some (OK, k1) \<and>
     prios (OSBlockedList k1) = prios (0xFFFFFFFF :: PriorityType) - prio_of (demo ready_high 3) ` ({1..<4} - {3})"
proof -
  have "\<forall>t. 1 \<le> t \<and> t < 4 \<longrightarrow> installed demo_config (demo ready_high 3) t" by (auto simp: demo_installed)
  with block_range [OF sys_okD(1) [OF demo_high_ok], of 1 3] show ?thesis by auto
qed

text \<open>
  blocking by priority and blocking by handle are the same operation on an installed task.
\<close>

theorem block_priority_task:
  assumes "kernel_ok C k" and "installed C k t"
  shows "OSBlockPriority C (Priority (tcb k t)) k = OSBlockTask C (of_nat t) k \<and>
     OSUnBlockPriority C (Priority (tcb k t)) k = OSUnBlockTask C (of_nat t) k"
  using OSBlockPriority_task [OF assms] OSUnBlockPriority_task [OF assms] by blast

theorem block_priority_task_witness:
  "OSBlockPriority demo_config 10 (demo ready_high 3) = OSBlockTask demo_config 3 (demo ready_high 3)"
  using block_priority_task [OF sys_okD(1) [OF demo_high_ok], of 3] by simp

end
