(* ===== verification/EventProps.thy ===== *)
theory EventProps
  imports Demo
begin

text \<open>
  The properties of semaphores, mutexes and mailboxes: what pend, post, acquire and release do to
  the kernel and to the event control block on each of their branches.
\<close>

section \<open>Waiting lists\<close>

text \<open>
  waiters are served in priority order. Selecting from a consistent event control block as
  often as it has waiters yields each waiting priority exactly once, from the highest to the
  lowest.
\<close>

theorem wait_list_order:
  assumes "wait_ok e"
  shows "wait_queue.drain (event_select C) (card (waiters e)) e = Some (rev (sorted_list_of_set (waiters e)))"
  using wl.drain_sorted [OF assms] .

theorem wait_list_order_witness:
  "wait_queue.drain (event_select demo_config) (card (waiters demo_sem_waiting)) demo_sem_waiting = Some [10]"
  using wait_list_order [OF sem_invD(1) [OF demo_sem_waiting_inv], of demo_config] by (simp add: demo_sem_waiters)

section \<open>Semaphores\<close>

text \<open>
  \<^verbatim>\<open>OSSemPend\<close> on an exhausted semaphore. The calling task enters the waiting list,
  leaves the ready list and, when a time-out is given, enters the delay list with the wake-up tick;
  the highest remaining task runs; the invariants of kernel and semaphore are preserved.
\<close>

theorem sem_pend_blocks:
  assumes "sys_ok C k xs" and "iNesting k = 0" and "installed C k (unat (currentTask k))"
    and "prio_of k (unat (currentTask k)) \<noteq> 0" and "unat (currentTask k) \<notin> set xs"
    and "sem_at tbl j e" and "sem_inv C k e" and "prio_of k (unat (currentTask k)) \<notin> waiters e"
    and "BRTOS_Sem.OSEventCount e = 0" and "w \<noteq> NO_TIMEOUT"
  shows "\<exists>k1 e1. OSSemPend C (Some j) w k tbl =
       Some (Suspend (Priority (tcb k (unat (currentTask k)))) (k1, tbl[j := e1])) \<and>
     waiters e1 = insert (prio_of k (unat (currentTask k))) (waiters e) \<and> sem_inv C k1 e1 \<and>
     slept k k1 (unat (currentTask k)) (wait_stamp (OSTickCounter k) w) \<and>
     sys_ok C k1 (if w = 0 then xs else xs @ [unat (currentTask k)]) \<and> runs_highest C k1"
  using OSSemPend_block [OF assms] by metis

theorem sem_pend_blocks_witness:
  "\<exists>k1 e1. OSSemPend demo_config (Some 0) 5 (demo ready_high 3) [demo_sem 0] = Some (Suspend 10 (k1, [e1])) \<and>
     waiters e1 = {10} \<and> sys_ok demo_config k1 [3] \<and> runs_highest demo_config k1"
  using sem_pend_blocks [OF demo_high_ok _ _ _ _ _ demo_sem_inv [of _ _ 0], of "[demo_sem 0]" 0 5]
  by (auto simp: sem_at_def)

text \<open>
  \<^verbatim>\<open>OSSemPost\<close> with waiters readies exactly the waiter of the highest priority, takes it
  out of the waiting list, keeps the count and, outside of interrupts, leaves the highest runnable
  task running.
\<close>

theorem sem_post_wakes:
  assumes "sys_ok C k xs" and "sem_at tbl j e" and "sem_inv C k e" and "waiters e \<noteq> {}"
  shows "\<exists>k1 e1. OSSemPost C (Some j) k tbl = Some (OK, k1, tbl[j := e1]) \<and>
     readied k k1 (Max (waiters e)) \<and> waiters e1 = waiters e - {Max (waiters e)} \<and>
     BRTOS_Sem.OSEventCount e1 = BRTOS_Sem.OSEventCount e \<and> sem_inv C k1 e1 \<and> sys_ok C k1 xs \<and>
     (iNesting k = 0 \<longrightarrow> runs_highest C k1)"
  using OSSemPost_wake [OF assms] by metis

theorem sem_post_wakes_witness:
  "\<exists>k1 e1. OSSemPost demo_config (Some 0) (demo ready_low 2) [demo_sem_waiting] = Some (OK, k1, [e1]) \<and>
     readied (demo ready_low 2) k1 10 \<and> waiters e1 = {} \<and> runs_highest demo_config k1"
  using sem_post_wakes [OF demo_low_ok _ demo_sem_waiting_inv, of "[demo_sem_waiting]" 0]
  by (auto simp: sem_at_def demo_sem_waiters)

text \<open>
  \<^verbatim>\<open>OSSemPost\<close> without waiters counts up to 255 and then reports the overflow without
  wrapping around; a binary semaphore stays at one; the invariant is preserved and the kernel is
  untouched.
\<close>

theorem sem_post_stores:
  assumes "sem_at tbl j e" and "sem_inv C k e" and "waiters e = {}"
  shows "\<exists>r e1. OSSemPost C (Some j) k tbl = Some (r, k, tbl[j := e1]) \<and> sem_inv C k e1 \<and>
     (Binary e = FALSE8 \<or> \<not> BRTOS_BINARY_SEM_EN C \<longrightarrow>
        unat (BRTOS_Sem.OSEventCount e1) = min 255 (unat (BRTOS_Sem.OSEventCount e) + 1) \<and>
        r = (if unat (BRTOS_Sem.OSEventCount e) < 255 then OK else ERR_SEM_OVF)) \<and>
     (Binary e = TRUE8 \<and> BRTOS_BINARY_SEM_EN C \<longrightarrow> BRTOS_Sem.OSEventCount e1 = 1 \<and> r = OK)"
  using OSSemPost_store [OF assms] sem_give_count [of e C] sem_give_binary [OF assms(2)] by blast

theorem sem_post_stores_witness:
  "\<exists>e1. OSSemPost demo_config (Some 0) (demo ready_low 2) [demo_sem 255] = Some (ERR_SEM_OVF, demo ready_low 2, [e1]) \<and>
     unat (BRTOS_Sem.OSEventCount e1) = 255"
  using sem_post_stores [OF _ demo_sem_inv [of ready_low 2 255], of "[demo_sem 255]" 0] by (auto simp: sem_at_def)

text \<open>
  creating a semaphore takes the first free control block, with the given count and no
  waiter; deleting it frees that block again and touches no other.
\<close>

theorem sem_create_delete:
  assumes "iNesting k = 0" and "free_block tbl = Some i"
  shows "\<exists>e tbl2. OSSemCreate C cnt event k tbl = (ALLOC_EVENT_OK, Some i, tbl[i := e]) \<and>
     sem_at (tbl[i := e]) i e \<and> sem_inv C k e \<and> BRTOS_Sem.OSEventCount e = cnt \<and> waiters e = {} \<and>
     OSSemDelete (Some i) k (tbl[i := e]) = Some (DELETE_EVENT_OK, None, tbl2) \<and>
     free_block tbl2 = Some i \<and> (\<forall>j. j \<noteq> i \<longrightarrow> tbl2 ! j = tbl ! j)"
proof -
  from OSSemCreate_spec [OF assms, of C cnt event k] obtain e where
    e: "OSSemCreate C cnt event k tbl = (ALLOC_EVENT_OK, Some i, tbl[i := e])" "sem_inv C k e"
    "BRTOS_Sem.OSEventCount e = cnt" "OSEventAllocated e = TRUE8" "waiters e = {}" .
  from OSSemCreate_Delete [OF assms, of C cnt event] e(1) obtain tbl2 where
    "OSSemDelete (Some i) k (tbl[i := e]) = Some (DELETE_EVENT_OK, None, tbl2)" "free_block tbl2 = Some i"
    "\<forall>j. j \<noteq> i \<longrightarrow> tbl2 ! j = tbl ! j" by auto
  with e free_block_Some(1) [OF assms(2)] show ?thesis unfolding sem_at_def by auto
qed

theorem sem_create_delete_witness:
  "\<exists>e tbl2. OSSemCreate demo_config 3 None (demo ready_low 2) [demo_sem 0, (demo_sem 0)\<lparr>OSEventAllocated := 0\<rparr>] =
       (ALLOC_EVENT_OK, Some 1, [demo_sem 0, e]) \<and> BRTOS_Sem.OSEventCount e = 3 \<and>
     OSSemDelete (Some 1) (demo ready_low 2) [demo_sem 0, e] = Some (DELETE_EVENT_OK, None, tbl2)"
proof -
  have "free_block [demo_sem 0, (demo_sem 0)\<lparr>OSEventAllocated := 0\<rparr>] = Some 1"
    by (simp add: free_block_def upt_rec)
  from sem_create_delete [OF _ this, of "demo ready_low 2" demo_config 3 None] show ?thesis by auto
qed

text \<open>
  \<^verbatim>\<open>OSSemBinaryCreate\<close> does not honour the initial bit value 1: a semaphore created with
  the bit value one is empty, only values above one create an available semaphore.
\<close>

theorem sem_binary_create_one:
  assumes "iNesting k = 0" and "free_block tbl = Some i"
  shows "\<exists>e1 e2. OSSemBinaryCreate 1 event k tbl = (ALLOC_EVENT_OK, Some i, tbl[i := e1]) \<and> BRTOS_Sem.OSEventCount e1 = 0 \<and>
     OSSemBinaryCreate 2 event k tbl = (ALLOC_EVENT_OK, Some i, tbl[i := e2]) \<and> BRTOS_Sem.OSEventCount e2 = 1"
proof -
  from OSSemBinaryCreate_spec [OF assms, of 1 event example_config k] obtain e1 where
    "OSSemBinaryCreate 1 event k tbl = (ALLOC_EVENT_OK, Some i, tbl[i := e1])" "BRTOS_Sem.OSEventCount e1 = 0" by auto
  moreover from OSSemBinaryCreate_spec [OF assms, of 2 event example_config k] obtain e2 where
    "OSSemBinaryCreate 2 event k tbl = (ALLOC_EVENT_OK, Some i, tbl[i := e2])" "BRTOS_Sem.OSEventCount e2 = 1" by auto
  ultimately show ?thesis by blast
qed

theorem sem_binary_create_one_witness:
  "\<exists>e1. OSSemBinaryCreate 1 None (demo ready_low 2) [(demo_sem 0)\<lparr>OSEventAllocated := 0\<rparr>] = (ALLOC_EVENT_OK, Some 0, [e1]) \<and>
     BRTOS_Sem.OSEventCount e1 = 0"
proof -
  have "free_block [(demo_sem 0)\<lparr>OSEventAllocated := 0\<rparr>] = Some 0" by (simp add: free_block_def)
  from sem_binary_create_one [OF _ this, of "demo ready_low 2" None] show ?thesis by auto
qed

section \<open>Mutexes\<close>

text \<open>
  acquiring a free mutex. The caller becomes the owner at once, its original priority is
  recorded and it runs at the ceiling priority if that is higher than its own; the kernel stays
  consistent and every task waiting with a time-out stays in the delay list.
\<close>

theorem mutex_acquire_ceiling:
  assumes "sys_ok C k xs" and "iNesting k = 0" and "installed C k (unat (currentTask k))"
    and "prio_of k (unat (currentTask k)) \<noteq> 0" and "mutex_free k (tbl ! j)" and "j < length tbl"
  shows "\<exists>k1 e1. OSMutexAcquire C (Some j) w k tbl = Some (Return OK (k1, tbl[j := e1])) \<and>
     mutex_held C k1 e1 \<and> OSEventOwner e1 = currentTask k \<and>
     OSOriginalPriority e1 = Priority (tcb k (unat (currentTask k))) \<and>
     Priority (tcb k1 (unat (currentTask k))) =
       max (Priority (tcb k (unat (currentTask k)))) (OSMaxPriority (tbl ! j)) \<and>
     currentTask k1 = currentTask k \<and> sys_ok C k1 xs"
proof -
  from mutex_acquire_free [OF assms] obtain k1 e1 where
    k1: "OSMutexAcquire C (Some j) w k tbl = Some (Return OK (k1, tbl[j := e1]))" "sys_ok C k1 xs"
      "mutex_held C k1 e1" "reprioritised k k1"
    and e1: "e1 = (tbl ! j)\<lparr>BRTOS_Mutex.OSEventState := BUSY_RESOURCE, OSEventOwner := currentTask k,
      OSOriginalPriority := Priority (tcb k (unat (currentTask k)))\<rparr>" by metis
  from mutex_heldD(8) [OF k1(3)] e1 k1 show ?thesis by (auto simp: reprioritised_def)
qed

theorem mutex_acquire_ceiling_witness:
  "\<exists>k1 e1. OSMutexAcquire demo_config (Some 0) 0 (demo ready_low 2) [demo_mutex] = Some (Return OK (k1, [e1])) \<and>
     mutex_held demo_config k1 e1 \<and> OSEventOwner e1 = 2 \<and> Priority (tcb k1 2) = 15"
proof -
  have "OSMaxPriority demo_mutex = 15" by (simp add: demo_mutex_def)
  with mutex_acquire_ceiling [OF demo_low_ok, of "[demo_mutex]" 0 0] show ?thesis
    by (auto simp: demo_mutex_free max_def)
qed

text \<open>
  C11: acquiring and releasing an uncontended mutex is the identity on the kernel: the priority of
  the task, the ready list and the priority vector are exactly as before, and the mutex is free
  again.
\<close>

theorem mutex_acquire_release_identity:
  assumes "sys_ok C k xs" and "iNesting k = 0" and "installed C k (unat (currentTask k))"
    and "prio_of k (unat (currentTask k)) \<noteq> 0" and "mutex_free k (tbl ! j)" and "j < length tbl"
    and "prio_of k (unat (currentTask k)) \<in> prios (OSReadyList k)"
  shows "\<exists>k1 tbl1. OSMutexAcquire C (Some j) w k tbl = Some (Return OK (k1, tbl1)) \<and>
     OSMutexRelease C (Some j) k1 tbl1 =
       Some (OK, k, tbl[j := (tbl ! j)\<lparr>OSOriginalPriority := Priority (tcb k (unat (currentTask k)))\<rparr>])"
  by (rule mutex_acquire_release [OF assms])

theorem mutex_acquire_release_identity_witness:
  "\<exists>k1 tbl1. OSMutexAcquire demo_config (Some 0) 0 (demo ready_low 2) [demo_mutex] = Some (Return OK (k1, tbl1)) \<and>
     OSMutexRelease demo_config (Some 0) k1 tbl1 =
       Some (OK, demo ready_low 2, [demo_mutex\<lparr>OSOriginalPriority := 5\<rparr>])"
proof -
  have "5 \<in> prios (OSReadyList (demo ready_low 2))" using prios_ready(1) by simp
  with mutex_acquire_release_identity [OF demo_low_ok, of "[demo_mutex]" 0 0] show ?thesis by (simp add: demo_mutex_free)
qed

text \<open>
  C10: releasing a contended mutex hands it over to the waiter of the highest priority, which
  becomes ready and the owner; the releasing task gets its original priority back, the mutex stays
  busy and the highest runnable task runs. Only the owner can release: any other task gets an
  error and nothing changes.
\<close>

theorem mutex_handover:
  assumes "sys_ok C k xs" and "iNesting k = 0" and "j < length tbl" and "mutex_held C k (tbl ! j)"
    and "waiters (tbl ! j) \<noteq> {}" and "prio_of k (unat (currentTask k)) \<in> prios (OSReadyList k)"
  shows "(OSEventOwner (tbl ! j) \<noteq> currentTask k \<longrightarrow> OSMutexRelease C (Some j) k tbl = Some (ERR_EVENT_OWNER, k, tbl)) \<and>
     (OSEventOwner (tbl ! j) = currentTask k \<longrightarrow>
       (\<exists>k1 e1 u. OSMutexRelease C (Some j) k tbl = Some (OK, k1, tbl[j := e1]) \<and>
         installed C k u \<and> prio_of k u = Max (waiters (tbl ! j)) \<and> unat (OSEventOwner e1) = u \<and>
         BRTOS_Mutex.OSEventState e1 = BUSY_RESOURCE \<and> waiters e1 = waiters (tbl ! j) - {Max (waiters (tbl ! j))} \<and>
         Max (waiters (tbl ! j)) \<in> prios (OSReadyList k1) \<and>
         Priority (tcb k1 (unat (currentTask k))) = OSOriginalPriority (tbl ! j) \<and>
         sys_ok C k1 xs \<and> runs_highest C k1))"
  using mutex_release_handover [OF assms(1-4) _ assms(5,6)]
    mutex_release_not_owner [OF assms(3) mutex_heldD(1) [OF assms(4)] _ assms(2)] by metis

theorem mutex_handover_witness:
  "\<exists>k1 e1. OSMutexRelease demo_config (Some 0) demo_held [demo_mutex_held] = Some (OK, k1, [e1]) \<and>
     OSEventOwner e1 = 3 \<and> 10 \<in> prios (OSReadyList k1) \<and> Priority (tcb k1 2) = 5 \<and> runs_highest demo_config k1"
proof -
  have o: "OSEventOwner demo_mutex_held = 2" "OSOriginalPriority demo_mutex_held = 5" by (simp_all add: demo_mutex_held_def)
  have "15 \<in> prios (OSReadyList demo_held)" unfolding demo_held_simps prios_held by simp
  with mutex_handover [OF demo_held_ok, of 0 "[demo_mutex_held]"] demo_mutex_held_ok o
  have "\<exists>k1 e1 u. OSMutexRelease demo_config (Some 0) demo_held [demo_mutex_held] = Some (OK, k1, [e1]) \<and>
      installed demo_config demo_held u \<and> prio_of demo_held u = 10 \<and> unat (OSEventOwner e1) = u \<and>
      10 \<in> prios (OSReadyList k1) \<and> Priority (tcb k1 2) = 5 \<and> runs_highest demo_config k1"
    by (simp add: demo_held_waiters) blast
  then obtain k1 e1 u where u: "OSMutexRelease demo_config (Some 0) demo_held [demo_mutex_held] = Some (OK, k1, [e1])"
    "u = 1 \<or> u = 2 \<or> u = 3" "prio_of demo_held u = 10" "unat (OSEventOwner e1) = u"
    "10 \<in> prios (OSReadyList k1)" "Priority (tcb k1 2) = 5" "runs_highest demo_config k1"
    by (auto simp only: demo_held_installed)
  from u(2,3) have "u = 3" by auto
  with u(4) have "OSEventOwner e1 = 3" by (simp add: word_unat_eq_iff)
  with u show ?thesis by blast
qed

text \<open>
  releasing an uncontended mutex never reschedules. A task of priority 5 that held a mutex
  with ceiling 15 keeps the processor after the release, although a task of priority 10 became
  ready in the meantime: the highest runnable task does not run until the next context switch.
\<close>

theorem mutex_release_no_switch:
  "\<exists>k1 tbl1. OSMutexRelease demo_config (Some 0) (demo_held\<lparr>OSReadyList := ready_held OR 2 ^ 10\<rparr>)
       [demo_mutex_held\<lparr>OSEventWait := 0, OSEventWaitList := 0\<rparr>] = Some (OK, k1, tbl1) \<and>
     currentTask k1 = 2 \<and> prio_of k1 2 = 5 \<and> 10 \<in> runnable k1 \<and> iNesting k1 = 0 \<and> \<not> runs_highest demo_config k1"
proof -
  define R where "R = (ready_held OR 2 ^ 10) AND NOT (PriorityMask ! 15) OR PriorityMask ! 5"
  define k1 where "k1 = demo_held\<lparr>OSReadyList := R,
    ContextTask := [zero_task, demo_task 0, demo_task 15\<lparr>Priority := 5\<rparr>, demo_task 10],
    PriorityVector := (replicate 32 EMPTY_PRIO)[0 := 1, 5 := 2, 10 := 3, 15 := MUTEX_PRIO]\<rparr>"
  have "OSMutexRelease demo_config (Some 0) (demo_held\<lparr>OSReadyList := ready_held OR 2 ^ 10\<rparr>)
       [demo_mutex_held\<lparr>OSEventWait := 0, OSEventWaitList := 0\<rparr>] =
      Some (OK, k1, [demo_mutex_held\<lparr>OSEventWait := 0, OSEventWaitList := 0, OSEventOwner := 0,
        BRTOS_Mutex.OSEventState := AVAILABLE_RESOURCE\<rparr>])"
    unfolding k1_def R_def
    by (simp add: OSMutexRelease_def restore_priority_def demo_mutex_held_def Let_def list_update_swap)
  moreover have r: "prios R = {0, 5, 10}"
    unfolding R_def prios_or prios_and_not prios_held prios_masks by (simp add: prios_PriorityMask) auto
  moreover have "10 \<in> runnable k1" by (simp add: k1_def runnable_def r prios_all)
  moreover have c: "currentTask k1 = 2" "prio_of k1 2 = 5" "iNesting k1 = 0" by (simp_all add: k1_def)
  moreover have "\<not> runs_highest demo_config k1"
  proof
    assume "runs_highest demo_config k1"
    then have "5 = Max (runnable k1)" using c by (simp add: runs_highest_def)
    moreover have "10 \<le> Max (runnable k1)" using finite_runnable \<open>10 \<in> runnable k1\<close> by (rule Max_ge)
    ultimately show False by simp
  qed
  ultimately show ?thesis by blast
qed

text \<open>
  a failed creation leaks the ceiling. When no control block is left,
  \<^verbatim>\<open>OSMutexCreate\<close> reports \<^verbatim>\<open>NO_AVAILABLE_EVENT\<close> but has already reserved the priority,
  so a second attempt, or the installation of a task, with that priority finds it busy.
\<close>

theorem mutex_create_leak:
  assumes "iNesting k = 0" and "0 < p" and "unat p < length (PriorityVector k)"
    and "PriorityVector k ! unat p = EMPTY_PRIO" and "free_block tbl = None"
  shows "\<exists>k1. OSMutexCreate event p k tbl = Some (NO_AVAILABLE_EVENT, event, k1, tbl) \<and>
     PriorityVector k1 ! unat p = MUTEX_PRIO \<and> (\<exists>r. OSMutexCreate event p k1 tbl2 = Some (BUSY_PRIORITY, r))"
  using assms by (simp add: OSMutexCreate_def Let_def)

theorem mutex_create_leak_witness:
  "\<exists>k1. OSMutexCreate None 20 (demo ready_low 2) [demo_mutex] = Some (NO_AVAILABLE_EVENT, None, k1, [demo_mutex]) \<and>
     PriorityVector k1 ! 20 = MUTEX_PRIO"
  using mutex_create_leak [of "demo ready_low 2" 20 "[demo_mutex]" None] by (auto simp: free_block_None demo_mutex_def)

section \<open>Mailboxes\<close>

text \<open>
  a message posted to a mailbox nobody waits on is the message the next pend returns, exactly
  once: the mailbox is empty afterwards, and the kernel is untouched.
\<close>

theorem mbox_post_pend:
  assumes "j < length tbl" and "mbox_inv C k (tbl ! j)" and "waiters (tbl ! j) = {}" and "iNesting k = 0"
  shows "\<exists>tbl1 tbl2. OSMboxPost C (Some j) m k tbl = Some (OK, k, tbl1) \<and>
     OSMboxPend C (Some j) Mail w k tbl1 = Some (Return OK (k, tbl2, m)) \<and>
     OSMboxPend C (Some j) Mail NO_TIMEOUT k tbl2 = Some (Return EXIT_BY_NO_ENTRY_AVAILABLE (k, tbl2, Mail)) \<and>
     mbox_inv C k (tbl2 ! j)"
proof -
  let ?t = "tbl[j := (tbl ! j)\<lparr>BRTOS_Mbox.OSEventPointer := m, OSEventState := NO_MESSAGE\<rparr>]"
  from OSMboxPost_Pend [OF assms, of m Mail w] obtain tbl1 where
    "OSMboxPost C (Some j) m k tbl = Some (OK, k, tbl1)" "OSMboxPend C (Some j) Mail w k tbl1 = Some (Return OK (k, ?t, m))"
    by blast
  moreover have "OSMboxPend C (Some j) Mail NO_TIMEOUT k ?t = Some (Return EXIT_BY_NO_ENTRY_AVAILABLE (k, ?t, Mail))"
    using assms by (simp add: OSMboxPend_def mbox_inv_def)
  moreover have "mbox_inv C k (?t ! j)" using assms by simp
  ultimately show ?thesis by blast
qed

theorem mbox_post_pend_witness:
  "\<exists>tbl1 tbl2. OSMboxPost demo_config (Some 0) 0xCAFE (demo ready_low 2) [demo_mbox] = Some (OK, demo ready_low 2, tbl1) \<and>
     OSMboxPend demo_config (Some 0) 0 0 (demo ready_low 2) tbl1 = Some (Return OK (demo ready_low 2, tbl2, 0xCAFE))"
  using mbox_post_pend [OF _ _ _ demo_simps(3), of 0 "[demo_mbox]" demo_config ready_low 2 "0xCAFE" 0 0] demo_mbox_inv(1)
  by (auto simp: demo_mbox_waiters)

text \<open>
  C30: a message posted to a waiter can be delivered twice. The post readies the waiter but leaves
  the message marked as available until the waiter runs; a task that pends in between takes the
  message, and the waiter, which resumes without checking, returns the same message.
\<close>

theorem mbox_duplicate_delivery:
  assumes "sys_ok C k xs" and "j < length tbl" and "mbox_inv C k (tbl ! j)" and "waiters (tbl ! j) = {unat p}"
    and "iNesting k = 0"
  shows "\<exists>k1 tbl1 tbl2 tbl3. OSMboxPost C (Some j) m k tbl = Some (OK, k1, tbl1) \<and>
     OSMboxPend C (Some j) Mail w k1 tbl1 = Some (Return OK (k1, tbl2, m)) \<and>
     OSMboxPend_resume (Some j) 0 t p k1 tbl2 = Some (OK, k1, tbl3, m)"
proof -
  have ne: "waiters (tbl ! j) \<noteq> {}" using assms(4) by simp
  from OSMboxPost_wake [OF assms(1-3) ne, of m] obtain k1 e1 where
    k1: "OSMboxPost C (Some j) m k tbl = Some (OK, k1, tbl[j := e1])" "mbox_inv C k1 e1"
      "BRTOS_Mbox.OSEventPointer e1 = m" "BRTOS_Mbox.OSEventState e1 = AVAILABLE_MESSAGE"
      and rd: "readied k k1 (Max (waiters (tbl ! j)))" by metis
  have n: "iNesting k1 = 0" using frameD(7) [OF readiedD(1) [OF rd]] assms(5) by simp
  let ?t = "tbl[j := e1\<lparr>BRTOS_Mbox.OSEventState := NO_MESSAGE\<rparr>]"
  have "OSMboxPend C (Some j) Mail w k1 (tbl[j := e1]) = Some (Return OK (k1, ?t, m))"
    using k1 n assms(2) by (simp add: OSMboxPend_def mbox_inv_def)
  moreover have "OSMboxPend_resume (Some j) 0 t p k1 ?t =
      Some (OK, k1, ?t[j := (?t ! j)\<lparr>BRTOS_Mbox.OSEventState := NO_MESSAGE\<rparr>], m)"
    using OSMboxPend_resume_message [of j ?t C k1 t p] k1 assms(2) by simp
  ultimately show ?thesis using k1(1) by blast
qed

theorem mbox_duplicate_delivery_witness:
  "\<exists>k1 tbl1 tbl2 tbl3. OSMboxPost demo_config (Some 0) 7 (demo ready_low 2) [demo_mbox_waiting] = Some (OK, k1, tbl1) \<and>
     OSMboxPend demo_config (Some 0) 0 5 k1 tbl1 = Some (Return OK (k1, tbl2, 7)) \<and>
     OSMboxPend_resume (Some 0) 0 3 10 k1 tbl2 = Some (OK, k1, tbl3, 7)"
  using mbox_duplicate_delivery [OF demo_low_ok, of 0 "[demo_mbox_waiting]" 10 7 0 5 3] demo_mbox_inv(2)
  by (simp add: demo_mbox_waiters)

end
