(* ===== verification/QueueProps.thy ===== *)
theory QueueProps
  imports Demo
begin

text \<open>
  The properties of the queues: the circular buffers of 8, 16 and 32-bit elements are
  first-in-first-out, the event queues refine a list of bytes, the buffers handed out do not
  overlap, and the dynamic queues behave like the static ones once their control block is marked
  as allocated.
\<close>

section \<open>Circular buffers\<close>

text \<open>
  The write and read functions of the three widths on a pair of a control block and the memory;
  \<open>d\<close> is the previous content of the variable a read stores into.
\<close>

definition put8 :: "uint8_t \<Rightarrow> OS_QUEUE \<times> uint8_t list \<Rightarrow> (uint8_t \<times> OS_QUEUE \<times> uint8_t list) option" where
  "put8 x s = OSWQueue (fst s) x (snd s)"

definition get8 :: "uint8_t \<Rightarrow> OS_QUEUE \<times> uint8_t list \<Rightarrow> (uint8_t \<times> uint8_t \<times> OS_QUEUE \<times> uint8_t list) option" where
  "get8 d s = map_option (\<lambda>(r, x, q). (r, x, q, snd s)) (OSRQueue (fst s) d (snd s))"

definition put16 :: "uint16_t \<Rightarrow> OS_QUEUE \<times> uint8_t list \<Rightarrow> (uint8_t \<times> OS_QUEUE \<times> uint8_t list) option" where
  "put16 x s = OSWQueue16 (fst s) x (snd s)"

definition get16 :: "uint16_t \<Rightarrow> OS_QUEUE \<times> uint8_t list \<Rightarrow> (uint8_t \<times> uint16_t \<times> OS_QUEUE \<times> uint8_t list) option" where
  "get16 d s = map_option (\<lambda>(r, x, q). (r, x, q, snd s)) (OSRQueue16 (fst s) d (snd s))"

definition put32 :: "uint32_t \<Rightarrow> OS_QUEUE \<times> uint8_t list \<Rightarrow> (uint8_t \<times> OS_QUEUE \<times> uint8_t list) option" where
  "put32 x s = OSWQueue32 (fst s) x (snd s)"

definition get32 :: "uint32_t \<Rightarrow> OS_QUEUE \<times> uint8_t list \<Rightarrow> (uint8_t \<times> uint32_t \<times> OS_QUEUE \<times> uint8_t list) option" where
  "get32 d s = map_option (\<lambda>(r, x, q). (r, x, q, snd s)) (OSRQueue32 (fst s) d (snd s))"

lemma put_get_state:
  "put8 = write_state 1 enc8" "get8 d = read_state 1 dec8 d" "put16 = write_state 2 enc16" "get16 d' = read_state 2 dec16 d'"
  "put32 = write_state 4 enc32" "get32 d'' = read_state 4 dec32 d''"
  by (auto simp: fun_eq_iff put8_def get8_def put16_def get16_def put32_def get32_def write_state_def read_state_def
      OSWQueue_def OSRQueue_def OSWQueue16_def OSRQueue16_def OSWQueue32_def OSRQueue32_def)

text \<open>
  C12: first in, first out. Writing a sequence of elements that fits into the free part of a
  circular buffer succeeds, and reading as many elements as the buffer then holds returns the old
  contents followed by the new elements, in order; the buffer is empty afterwards. This holds for
  the buffers of 8, 16 and 32-bit elements, wherever the input and output positions stand, so
  across every wrap-around.
\<close>

theorem queues_fifo:
  "(ring 1 dec8 q mem xs \<and> length xs + length ys \<le> unat (OSQSize q) \<longrightarrow>
     (\<exists>s1 q2 mem2. puts put8 ys (q, mem) = Some (replicate (length ys) WRITE_BUFFER_OK, s1) \<and>
       gets (get8 d) (length xs + length ys) s1 = Some (xs @ ys, q2, mem2) \<and> ring 1 dec8 q2 mem2 [] \<and> OSQSize q2 = OSQSize q)) \<and>
   (ring 2 dec16 q mem xs' \<and> length xs' + length ys' \<le> unat (OSQSize q) \<longrightarrow>
     (\<exists>s1 q2 mem2. puts put16 ys' (q, mem) = Some (replicate (length ys') WRITE_BUFFER_OK, s1) \<and>
       gets (get16 d') (length xs' + length ys') s1 = Some (xs' @ ys', q2, mem2) \<and> ring 2 dec16 q2 mem2 [] \<and> OSQSize q2 = OSQSize q)) \<and>
   (ring 4 dec32 q mem xs'' \<and> length xs'' + length ys'' \<le> unat (OSQSize q) \<longrightarrow>
     (\<exists>s1 q2 mem2. puts put32 ys'' (q, mem) = Some (replicate (length ys'') WRITE_BUFFER_OK, s1) \<and>
       gets (get32 d'') (length xs'' + length ys'') s1 = Some (xs'' @ ys'', q2, mem2) \<and> ring 4 dec32 q2 mem2 [] \<and>
       OSQSize q2 = OSQSize q))"
  using c8.rf.puts_gets [of "(q, mem)" xs ys d] c16.rf.puts_gets [of "(q, mem)" xs' ys' d']
    c32.rf.puts_gets [of "(q, mem)" xs'' ys'' d'']
  unfolding put_get_state by (auto simp: word_unat_eq_iff)

theorem queues_fifo_witness:
  "(\<exists>s1 q2 mem2. puts put8 [7, 8] (demo_queue, demo_heap) = Some ([0, 0], s1) \<and>
     gets (get8 0) (Suc (Suc 0)) s1 = Some ([7, 8], q2, mem2)) \<and>
   (\<exists>s1 q2 mem2. puts put16 [700, 800] (queue_setup 2 0 4, demo_heap) = Some ([0, 0], s1) \<and>
     gets (get16 0) (Suc (Suc 0)) s1 = Some ([700, 800], q2, mem2)) \<and>
   (\<exists>s1 q2 mem2. puts put32 [1, 0xDEADBEEF] (queue_setup 4 0 2, demo_heap) = Some ([0, 0], s1) \<and>
     gets (get32 0) (Suc (Suc 0)) s1 = Some ([1, 0xDEADBEEF], q2, mem2))"
proof -
  have "ring 2 dec16 (queue_setup 2 0 4) demo_heap []" by (rule c16.ring_setup) (simp_all add: demo_heap_def)
  moreover have "ring 4 dec32 (queue_setup 4 0 2) demo_heap []" by (rule c32.ring_setup) (simp_all add: demo_heap_def)
  moreover have "unat (OSQSize demo_queue) = 8" "unat (OSQSize (queue_setup 2 0 4)) = 4" "unat (OSQSize (queue_setup 4 0 2)) = 2"
    by (simp_all add: demo_queue_def queue_setup_def)
  ultimately show ?thesis
    using demo_ring queues_fifo [of demo_queue demo_heap "[]" "[7, 8]" 0 "[]" "[]" 0 "[]" "[]" 0]
      queues_fifo [of "queue_setup 2 0 4" demo_heap "[]" "[]" 0 "[]" "[700, 800]" 0 "[]" "[]" 0]
      queues_fifo [of "queue_setup 4 0 2" demo_heap "[]" "[]" 0 "[]" "[]" 0 "[]" "[1, 0xDEADBEEF]" 0] by auto
qed

section \<open>Event queues\<close>

text \<open>
  C13: \<^verbatim>\<open>OSQueuePost\<close> appends the byte when there is room, and readies exactly the waiter of
  the highest priority if there is one; a full queue rejects the byte with
  \<^verbatim>\<open>BUFFER_UNDERRUN\<close> and nothing changes.
\<close>

theorem queue_post:
  assumes "sys_ok C k ys" and "queue_inv C k qs i xs"
  shows "if length xs < unat (OSQSize (BRTOS_OS_QUEUE_Table qs ! i))
     then \<exists>k1 qs1. OSQueuePost C (Some i) d k qs = Some (WRITE_BUFFER_OK, k1, qs1) \<and>
       queue_inv C k1 qs1 i (xs @ [d]) \<and> sys_ok C k1 ys \<and>
       waiters (BRTOS_Queue_Table qs1 ! i) = waiters (BRTOS_Queue_Table qs ! i) - {Max (waiters (BRTOS_Queue_Table qs ! i))} \<and>
       (if waiters (BRTOS_Queue_Table qs ! i) = {} then k1 = k
        else readied k k1 (Max (waiters (BRTOS_Queue_Table qs ! i))) \<and> (iNesting k = 0 \<longrightarrow> runs_highest C k1))
     else OSQueuePost C (Some i) d k qs = Some (BUFFER_UNDERRUN, k, qs)"
proof (cases "length xs < unat (OSQSize (BRTOS_OS_QUEUE_Table qs ! i))")
  case True
  let ?W = "waiters (BRTOS_Queue_Table qs ! i)"
  from OSQueuePost_room [OF assms True, of d] obtain k1 qs1 where
    "OSQueuePost C (Some i) d k qs = Some (WRITE_BUFFER_OK, k1, qs1)" "queue_inv C k1 qs1 i (xs @ [d])" "sys_ok C k1 ys"
    "frame k k1" "?W = {} \<longrightarrow> k1 = k \<and> waiters (BRTOS_Queue_Table qs1 ! i) = {}"
    "?W \<noteq> {} \<longrightarrow> waiters (BRTOS_Queue_Table qs1 ! i) = ?W - {Max ?W} \<and> readied k k1 (Max ?W) \<and>
      (iNesting k = 0 \<longrightarrow> runs_highest C k1)" .
  then show ?thesis using True by (cases "?W = {}") auto
next
  case False
  with c8.ring_bounded [OF queue_invD(5) [OF assms(2)]] have "length xs = unat (OSQSize (BRTOS_OS_QUEUE_Table qs ! i))" by simp
  from OSQueuePost_full [OF assms(2) this] False show ?thesis by simp
qed

theorem queue_post_witness:
  "\<exists>k1 qs1. OSQueuePost demo_config (Some 0) 42 (demo ready_low 2) demo_queues = Some (WRITE_BUFFER_OK, k1, qs1) \<and>
     queue_inv demo_config k1 qs1 0 [42]"
  using queue_post [OF demo_low_ok demo_queue_inv, of 42] by (auto simp: demo_queues_def demo_queue_def queue_setup_def)

text \<open>
  C14: \<^verbatim>\<open>OSQueuePend\<close> returns and removes the oldest byte of a queue that is not empty; on an
  empty queue it suspends the caller in the waiting list, with the time-out if one is given, and
  the highest remaining task runs.
\<close>

theorem queue_pend:
  assumes "sys_ok C k ys" and "iNesting k = 0" and "installed C k (unat (currentTask k))"
    and "prio_of k (unat (currentTask k)) \<noteq> 0" and "unat (currentTask k) \<notin> set ys" and "queue_inv C k qs j xs"
    and "prio_of k (unat (currentTask k)) \<notin> waiters (BRTOS_Queue_Table qs ! j)" and "w \<noteq> NO_TIMEOUT"
  shows "case xs of
     x # xs' \<Rightarrow> \<exists>qs1. OSQueuePend C (Some j) d w k qs = Some (Return READ_BUFFER_OK (k, qs1, x)) \<and> queue_inv C k qs1 j xs'
   | [] \<Rightarrow> \<exists>k1 qs1. OSQueuePend C (Some j) d w k qs = Some (Suspend (Priority (tcb k (unat (currentTask k)))) (k1, qs1, d)) \<and>
       queue_inv C k1 qs1 j [] \<and>
       waiters (BRTOS_Queue_Table qs1 ! j) = insert (prio_of k (unat (currentTask k))) (waiters (BRTOS_Queue_Table qs ! j)) \<and>
       slept k k1 (unat (currentTask k)) (wait_stamp (OSTickCounter k) w) \<and>
       sys_ok C k1 (if w = 0 then ys else ys @ [unat (currentTask k)]) \<and> runs_highest C k1"
proof (cases xs)
  case Nil
  show ?thesis
    unfolding Nil list.case by (rule OSQueuePend_block [OF assms(1-5) assms(6) [unfolded Nil] assms(7,8), of d]) blast
next
  case (Cons x xs')
  show ?thesis
    unfolding Cons list.case by (rule OSQueuePend_take [OF assms(6) [unfolded Cons] assms(2), of d w]) blast
qed

theorem queue_pend_witness:
  "\<exists>k1 qs1. OSQueuePend demo_config (Some 0) 0 5 (demo ready_high 3) demo_queues = Some (Suspend 10 (k1, qs1, 0)) \<and>
     sys_ok demo_config k1 [3] \<and> runs_highest demo_config k1"
proof -
  have "waiters (BRTOS_Queue_Table demo_queues ! 0) = {}" by (simp add: demo_queues_def demo_queue_event_def waiters_def)
  with queue_pend [OF demo_high_ok _ _ _ _ demo_queue_inv, of 5 0] show ?thesis by auto
qed

text \<open>
  \<^verbatim>\<open>OSQueueCreate\<close> with a size between 1 and 65532 that fits the rest of the queue heap
  hands out an empty buffer of at least the requested size, which starts where the last one ended,
  ends at the new end of the used part and stays inside the heap.
\<close>

theorem queue_create:
  assumes "iNesting k = 0" and "0 < qsize" and "unat qsize \<le> 65532"
    and "unat (iQueueAddress k) + unat (queue_round qsize) div 4 \<le> QUEUE_HEAP_SIZE C div 4"
    and "QUEUE_HEAP_SIZE C < 4 * 65536" and "length (QUEUE_STACK qs) = QUEUE_HEAP_SIZE C"
    and "free_block (BRTOS_Queue_Table qs) = Some i" and "length (BRTOS_OS_QUEUE_Table qs) = length (BRTOS_Queue_Table qs)"
  shows "\<exists>k1 qs1. OSQueueCreate C qsize event k qs = Some (ALLOC_EVENT_OK, Some i, k1, qs1) \<and>
     ring 1 dec8 (BRTOS_OS_QUEUE_Table qs1 ! i) (QUEUE_STACK qs1) [] \<and>
     unat qsize \<le> unat (OSQSize (BRTOS_OS_QUEUE_Table qs1 ! i)) \<and>
     OSQStart (BRTOS_OS_QUEUE_Table qs1 ! i) = 4 * unat (iQueueAddress k) \<and>
     OSQEnd (BRTOS_OS_QUEUE_Table qs1 ! i) = 4 * unat (iQueueAddress k1) \<and>
     4 * unat (iQueueAddress k1) \<le> QUEUE_HEAP_SIZE C \<and> waiters (BRTOS_Queue_Table qs1 ! i) = {}"
  using OSQueueCreate_spec [OF assms] by metis

theorem queue_create_witness:
  "\<exists>k1 qs1. OSQueueCreate demo_config 10 None (demo ready_low 2)
       (demo_queues\<lparr>BRTOS_Queue_Table := [demo_queue_event\<lparr>OSEventAllocated := 0\<rparr>]\<rparr>) = Some (ALLOC_EVENT_OK, Some 0, k1, qs1) \<and>
     10 \<le> unat (OSQSize (BRTOS_OS_QUEUE_Table qs1 ! 0))"
proof -
  let ?qs = "demo_queues\<lparr>BRTOS_Queue_Table := [demo_queue_event\<lparr>OSEventAllocated := 0\<rparr>]\<rparr>"
  have "free_block (BRTOS_Queue_Table ?qs) = Some 0" by (simp add: free_block_def)
  with queue_create [of "demo ready_low 2" 10 demo_config ?qs 0 None] show ?thesis
    by (auto simp: queue_round_def demo_queues_def demo_heap_def)
qed

text \<open>
  a post to one queue never changes the contents of another queue whose buffer does not
  overlap, as is the case for buffers from \<^verbatim>\<open>OSQueueCreate\<close>.
\<close>

theorem queue_isolation:
  assumes "queue_inv C k qs i xs" and "j \<noteq> i"
    and "ring 1 dec8 (BRTOS_OS_QUEUE_Table qs ! j) (QUEUE_STACK qs) zs"
    and "OSQEnd (BRTOS_OS_QUEUE_Table qs ! j) \<le> OSQStart (BRTOS_OS_QUEUE_Table qs ! i) \<or>
      OSQEnd (BRTOS_OS_QUEUE_Table qs ! i) \<le> OSQStart (BRTOS_OS_QUEUE_Table qs ! j)"
    and "OSQueuePost C (Some i) x k qs = Some (r, k1, qs1)"
  shows "ring 1 dec8 (BRTOS_OS_QUEUE_Table qs1 ! j) (QUEUE_STACK qs1) zs"
  by (rule OSQueuePost_other [OF assms])

theorem queue_isolation_witness:
  "\<exists>r k1 qs1. OSQueuePost demo_config (Some 0) 9 (demo ready_low 2)
       (demo_queues\<lparr>BRTOS_OS_QUEUE_Table := [demo_queue, queue_setup 1 2 8]\<rparr>) = Some (r, k1, qs1) \<and>
     ring 1 dec8 (BRTOS_OS_QUEUE_Table qs1 ! 1) (QUEUE_STACK qs1) []"
proof -
  let ?qs = "demo_queues\<lparr>BRTOS_OS_QUEUE_Table := [demo_queue, queue_setup 1 2 8]\<rparr>"
  have q: "queue_inv demo_config (demo ready_low 2) ?qs 0 []"
    using demo_queue_inv [of ready_low 2] by (simp add: queue_inv_def demo_queues_def)
  have "ring 1 dec8 (queue_setup 1 2 8) demo_heap []" by (rule c8.ring_setup) (simp_all add: demo_heap_def)
  then have o: "ring 1 dec8 (BRTOS_OS_QUEUE_Table ?qs ! 1) (QUEUE_STACK ?qs) []" by (simp add: demo_queues_def)
  have d: "OSQEnd (BRTOS_OS_QUEUE_Table ?qs ! 0) \<le> OSQStart (BRTOS_OS_QUEUE_Table ?qs ! 1)"
    by (simp add: demo_queue_def queue_setup_def)
  have "length ([] :: uint8_t list) < unat (OSQSize (BRTOS_OS_QUEUE_Table ?qs ! 0))" by (simp add: demo_queue_def queue_setup_def)
  from OSQueuePost_room [OF demo_low_ok q this, of 9] obtain k1 qs1 where
    "OSQueuePost demo_config (Some 0) 9 (demo ready_low 2) ?qs = Some (WRITE_BUFFER_OK, k1, qs1)" .
  with queue_isolation [OF q _ o, of 9] d show ?thesis by auto
qed

text \<open>
  C31: a byte posted to a queue with a waiter can be lost to the accounting. The post readies the
  waiter but the byte stays in the buffer; a task that pends before the waiter runs takes it, and
  the waiter, which resumes without checking, reads a stale byte and wraps the number of entries
  around to 65535: the queue then counts as full for every post and never as empty.
\<close>

theorem queue_steal_underflow:
  assumes "sys_ok C k ys" and "queue_inv C k qs i []" and "waiters (BRTOS_Queue_Table qs ! i) \<noteq> {}" and "iNesting k = 0"
  shows "\<exists>k1 qs1 qs2 qs3 x. OSQueuePost C (Some i) d k qs = Some (WRITE_BUFFER_OK, k1, qs1) \<and>
     OSQueuePend C (Some i) d' w k1 qs1 = Some (Return READ_BUFFER_OK (k1, qs2, d)) \<and>
     OSQueuePend_resume (Some i) d'' 0 t p k1 qs2 = Some (READ_BUFFER_OK, k1, qs3, x) \<and>
     OSQEntries (BRTOS_OS_QUEUE_Table qs3 ! i) = 0xFFFF"
proof -
  have room: "length [] < unat (OSQSize (BRTOS_OS_QUEUE_Table qs ! i))" using queue_invD(5) [OF assms(2)] by (auto simp: ring_def)
  from OSQueuePost_room [OF assms(1,2) room, of d] obtain k1 qs1 where
    p: "OSQueuePost C (Some i) d k qs = Some (WRITE_BUFFER_OK, k1, qs1)" "queue_inv C k1 qs1 i [d]" "frame k k1"
    unfolding append_Nil by metis
  have n: "iNesting k1 = 0" using frameD(7) [OF p(3)] assms(4) by simp
  from OSQueuePend_take [OF p(2) n] obtain qs2 where
    t: "OSQueuePend C (Some i) d' w k1 qs1 = Some (Return READ_BUFFER_OK (k1, qs2, d))" "queue_inv C k1 qs2 i []" by metis
  note qd = queue_invD [OF t(2)]
  from ring_take_empty [OF qd(5)] obtain x q' where
    "queue_take 1 dec8 (BRTOS_OS_QUEUE_Table qs2 ! i) (QUEUE_STACK qs2) = Some (x, q')" "OSQEntries q' = 0xFFFF" by blast
  then have "\<exists>qs3. OSQueuePend_resume (Some i) d'' 0 t p k1 qs2 = Some (READ_BUFFER_OK, k1, qs3, x) \<and>
      OSQEntries (BRTOS_OS_QUEUE_Table qs3 ! i) = 0xFFFF"
    using qd(1-4) by (simp add: OSQueuePend_resume_def)
  with p(1) t(1) show ?thesis by blast
qed

theorem queue_steal_underflow_witness:
  "\<exists>k1 qs1 qs2 qs3 x. OSQueuePost demo_config (Some 0) 42 (demo ready_low 2)
       (demo_queues\<lparr>BRTOS_Queue_Table := [demo_queue_event\<lparr>OSEventWait := 1, OSEventWaitList := 2 ^ 10\<rparr>]\<rparr>) =
       Some (WRITE_BUFFER_OK, k1, qs1) \<and>
     OSQueuePend demo_config (Some 0) 0 5 k1 qs1 = Some (Return READ_BUFFER_OK (k1, qs2, 42)) \<and>
     OSQueuePend_resume (Some 0) 0 0 3 10 k1 qs2 = Some (READ_BUFFER_OK, k1, qs3, x) \<and>
     OSQEntries (BRTOS_OS_QUEUE_Table qs3 ! 0) = 0xFFFF"
proof -
  let ?e = "demo_queue_event\<lparr>OSEventWait := 1, OSEventWaitList := 2 ^ 10\<rparr>"
  let ?qs = "demo_queues\<lparr>BRTOS_Queue_Table := [?e]\<rparr>"
  have w: "waiters ?e = {10}" unfolding waiters_def using prios_masks(3) by simp
  have "queue_inv demo_config (demo ready_low 2) ?qs 0 []"
    using demo_queue_inv [of ready_low 2] demo_waiter [OF w] w
    by (simp add: queue_inv_def demo_queues_def wait_ok_def demo_queue_event_def)
  from queue_steal_underflow [OF demo_low_ok this, of 42 0 5 0 3 10] w show ?thesis by simp
qed

section \<open>Dynamic queues\<close>

text \<open>
  C29: the byte-by-byte copies of the dynamic queues. Posting an element of the queue's element
  size to a queue with room that nobody waits on, and pending afterwards, returns the oldest
  element, byte for byte; the rest of the queue and the new element stay, in order.
\<close>

theorem dqueue_post_pend:
  assumes "dqueue_holds ds ev xs" and "ev \<noteq> 0" and "OSEventAllocated (DEvent ds ev) = TRUE8"
    and "OSEventWait (DEvent ds ev) = 0" and "length bs = unat (OSQTSize (DQueue ds (DPointer ds ev)))"
    and "length xs < unat (OSQSize (DQueue ds (DPointer ds ev)))" and "iNesting k = 0"
  shows "\<exists>ds1 ds2. OSDQueuePost C ev bs k ds = Some (WRITE_BUFFER_OK, k, ds1) \<and>
     OSDQueuePend C ev d w k ds1 = Some (Return READ_BUFFER_OK (k, ds2, hd (xs @ [bs]))) \<and>
     dqueue_holds ds2 ev (tl (xs @ [bs]))"
proof -
  from OSDQueuePost_room [OF assms(1-6), of C k] obtain ds1 where
    p: "OSDQueuePost C ev bs k ds = Some (WRITE_BUFFER_OK, k, ds1)" "dqueue_holds ds1 ev (xs @ [bs])"
    "DEvent ds1 ev = DEvent ds ev" by blast
  have h: "dqueue_holds ds1 ev (hd (xs @ [bs]) # tl (xs @ [bs]))" using p(2) by (cases xs) auto
  from OSDQueuePend_take [OF h assms(2) _ assms(7), of C d w] assms(3) p show ?thesis by auto
qed

theorem dqueue_post_pend_witness:
  "\<exists>ds1 ds2. OSDQueuePost demo_config 1 [7, 8, 9] (demo ready_low 2) demo_dqueues = Some (WRITE_BUFFER_OK, demo ready_low 2, ds1) \<and>
     OSDQueuePend demo_config 1 [] 5 (demo ready_low 2) ds1 = Some (Return READ_BUFFER_OK (demo ready_low 2, ds2, [7, 8, 9]))"
  using dqueue_post_pend [OF demo_dqueue_holds, of "[7, 8, 9]" "demo ready_low 2" demo_config "[]" 5]
  by (auto simp: demo_dqueues_def demo_queue_event_def)

text \<open>
  a created dynamic queue cannot be used with error checking. \<^verbatim>\<open>OSDQueueCreate\<close> never
  sets the allocation mark of the control block it allocates, so unless the memory happened to hold
  the mark, every post and pend with \<^verbatim>\<open>ERROR_CHECK\<close> reports that the event does not exist.
\<close>

theorem dqueue_create_unmarked:
  assumes "OSDQueueCreate al de n ts event k h ds = (ALLOC_EVENT_OK, p, h1, ds1)"
    and "OSEventAllocated (DEvent ds p) \<noteq> TRUE8" and "ERROR_CHECK C" and "iNesting k = 0"
  shows "OSDQueuePost C p bs k ds1 = Some (ERR_EVENT_NO_CREATED, k, ds1) \<and>
     OSDQueuePend C p d w k ds1 = Some (Return ERR_EVENT_NO_CREATED (k, ds1, d))"
  using OSDQueueCreate_mark [OF assms(1)] assms(2-4) by (simp add: OSDQueuePost_def OSDQueuePend_def Let_def)

theorem dqueue_create_unmarked_witness:
  "\<exists>p h1 ds1. OSDQueueCreate (\<lambda>n h. (h, h + 64)) (\<lambda>a h. h) 4 3 0 (demo ready_low 2) 64
       (demo_dqueues\<lparr>DEvent := (\<lambda>_. demo_queue_event\<lparr>OSEventAllocated := 0\<rparr>)\<rparr>) = (ALLOC_EVENT_OK, p, h1, ds1) \<and>
     OSDQueuePost demo_config p [1, 2, 3] (demo ready_low 2) ds1 = Some (ERR_EVENT_NO_CREATED, demo ready_low 2, ds1)"
proof -
  let ?ds = "demo_dqueues\<lparr>DEvent := (\<lambda>_. demo_queue_event\<lparr>OSEventAllocated := 0\<rparr>)\<rparr>"
  obtain p h1 ds1 where
    c: "OSDQueueCreate (\<lambda>n h. (h, h + 64)) (\<lambda>a h. h) 4 3 0 (demo ready_low 2) 64 ?ds = (ALLOC_EVENT_OK, p, h1, ds1)"
    by (simp add: OSDQueueCreate_def Let_def)
  from dqueue_create_unmarked [OF c, of demo_config "[1, 2, 3]" "[]" 0] c show ?thesis by auto
qed

end
