(* ===== verification/Calendar.thy ===== *)
theory Calendar
  imports Prelude
begin

text \<open>
  \<^verbatim>\<open>src/brtos/OSTime.c\<close>: the up-time clock, which application code drives once per second, and the
  calendar. The file's static variables are one record. The reference is the proleptic Gregorian
  calendar: a date and time denotes a number of seconds since the start of the year 0, and an
  update of the calendar is one second.
\<close>

section \<open>Data\<close>

record OSTime =
  RTC_Second :: uint8_t
  RTC_Minute :: uint8_t
  RTC_Hour :: uint8_t

record OSDate =
  RTC_Day :: uint8_t
  RTC_Month :: uint8_t
  RTC_Year :: uint16_t

record OS_RTC =
  Year :: uint16_t
  Month :: uint8_t
  Day :: uint8_t
  Hour :: uint8_t
  Min :: uint8_t
  Sec :: uint8_t

record clock =
  Hora :: OSTime
  Data :: OSDate
  OSRtc :: OS_RTC
  LeapMonth :: uint8_t

definition MonthLength :: "uint8_t list" where
  "MonthLength = [0, 31, 28, 31, 30, 31, 30, 31, 31, 30, 31, 30, 31]"

section \<open>Operations\<close>

text \<open>The three nested carries of \<^verbatim>\<open>OSUpdateTime\<close>; the flag tells that the day is over.\<close>

definition advance_time :: "OSTime \<Rightarrow> bool \<times> OSTime" where
  "advance_time h =
    (let h = h\<lparr>RTC_Second := RTC_Second h + 1\<rparr> in
     if RTC_Second h = 60
     then let h = h\<lparr>RTC_Second := 0, RTC_Minute := RTC_Minute h + 1\<rparr> in
       if RTC_Minute h = 60
       then let h = h\<lparr>RTC_Minute := 0, RTC_Hour := RTC_Hour h + 1\<rparr> in
         if RTC_Hour h = 24 then (True, h\<lparr>RTC_Hour := 0\<rparr>) else (False, h)
       else (False, h)
     else (False, h))"

definition OSUpdateTime :: "clock \<Rightarrow> clock" where
  "OSUpdateTime c = c\<lparr>Hora := snd (advance_time (Hora c))\<rparr>"

definition OSUpdateUptime :: "clock \<Rightarrow> clock" where
  "OSUpdateUptime c =
    (let (over, h) = advance_time (Hora c); c = c\<lparr>Hora := h\<rparr> in
     if over then c\<lparr>Data := (Data c)\<lparr>RTC_Day := RTC_Day (Data c) + 1\<rparr>\<rparr> else c)"

definition OSUpdateDate :: "clock \<Rightarrow> clock" where
  "OSUpdateDate c =
    (let d = Data c; d = d\<lparr>RTC_Day := RTC_Day d + 1\<rparr>;
       d = (if RTC_Day d = 30
            then let d = d\<lparr>RTC_Day := 0, RTC_Month := RTC_Month d + 1\<rparr> in
              if RTC_Month d = 12
              then let d = d\<lparr>RTC_Month := 0, RTC_Year := RTC_Year d + 1\<rparr> in
                if RTC_Year d = 9999 then d\<lparr>RTC_Year := 0\<rparr> else d
              else d
            else d)
     in c\<lparr>Data := d\<rparr>)"

definition OSResetTime :: "clock \<Rightarrow> clock" where
  "OSResetTime c = c\<lparr>Hora := (Hora c)\<lparr>RTC_Second := 0, RTC_Minute := 0, RTC_Hour := 0\<rparr>\<rparr>"

definition OSResetDate :: "clock \<Rightarrow> clock" where
  "OSResetDate c = c\<lparr>Data := (Data c)\<lparr>RTC_Day := 0, RTC_Month := 0, RTC_Year := 0\<rparr>\<rparr>"

definition OSUptime :: "clock \<Rightarrow> OSTime" where
  "OSUptime c = Hora c"

definition OSUpDate :: "clock \<Rightarrow> OSDate" where
  "OSUpDate c = Data c"

text \<open>The nested conditions that set \<^verbatim>\<open>LeapMonth\<close>.\<close>

definition leap_month :: "OS_RTC \<Rightarrow> uint8_t" where
  "leap_month r =
    (if Month r = 2
     then if Year r AND 3 = 0
       then if Year r mod 100 = 0
         then if Year r mod 400 = 0 then 1 else 0
         else 1
       else 0
     else 0)"

text \<open>A month that is not an index of \<^verbatim>\<open>MonthLength\<close> is an access out of bounds.\<close>

definition OSUpdateCalendar :: "clock \<Rightarrow> clock option" where
  "OSUpdateCalendar c =
    (let r = (OSRtc c)\<lparr>Sec := Sec (OSRtc c) + 1\<rparr> in
     if Sec r = 60
     then let r = r\<lparr>Sec := 0, Min := Min r + 1\<rparr> in
       if Min r > 59
       then let r = r\<lparr>Min := 0, Hour := Hour r + 1\<rparr> in
         if Hour r > 23
         then let r = r\<lparr>Hour := 0, Day := Day r + 1\<rparr>; leap = leap_month r in
           do {
             len \<leftarrow> rd MonthLength (unat (Month r));
             let r = (if unat (Day r) > unat len + unat leap
                      then let r = r\<lparr>Day := 1, Month := Month r + 1\<rparr> in
                        if Month r > 12 then r\<lparr>Month := 1, Year := Year r + 1\<rparr> else r
                      else r);
             Some (c\<lparr>OSRtc := r, LeapMonth := leap\<rparr>) }
         else Some (c\<lparr>OSRtc := r\<rparr>)
       else Some (c\<lparr>OSRtc := r\<rparr>)
     else Some (c\<lparr>OSRtc := r\<rparr>))"

definition GetCalendar :: "clock \<Rightarrow> OS_RTC" where
  "GetCalendar c = OSRtc c"

definition SetCalendar :: "OS_RTC \<Rightarrow> clock \<Rightarrow> clock" where
  "SetCalendar rtc c = c\<lparr>OSRtc := rtc\<rparr>"

definition Init_Calendar :: "clock \<Rightarrow> clock" where
  "Init_Calendar c = SetCalendar \<lparr>Year = 2011, Month = 3, Day = 28, Hour = 9, Min = 0, Sec = 30\<rparr> c"

section \<open>The reference calendar\<close>

definition leap_year :: "nat \<Rightarrow> bool" where
  "leap_year y \<longleftrightarrow> 4 dvd y \<and> (100 dvd y \<longrightarrow> 400 dvd y)"

definition days_of_month :: "nat \<Rightarrow> nat \<Rightarrow> nat" where
  "days_of_month y m = (if m = 2 then if leap_year y then 29 else 28
     else if m \<in> {4, 6, 9, 11} then 30 else 31)"

definition days_before_month :: "nat \<Rightarrow> nat \<Rightarrow> nat" where
  "days_before_month y m = (\<Sum>i \<in> {1..<m}. days_of_month y i)"

definition days_before_year :: "nat \<Rightarrow> nat" where
  "days_before_year y = (\<Sum>i < y. 365 + (if leap_year i then 1 else 0))"

definition day_number :: "nat \<Rightarrow> nat \<Rightarrow> nat \<Rightarrow> nat" where
  "day_number y m d = days_before_year y + days_before_month y m + (d - 1)"

definition instant :: "OS_RTC \<Rightarrow> nat" where
  "instant r = ((day_number (unat (Year r)) (unat (Month r)) (unat (Day r)) * 24 + unat (Hour r)) * 60 + unat (Min r)) * 60 + unat (Sec r)"

definition valid_rtc :: "OS_RTC \<Rightarrow> bool" where
  "valid_rtc r \<longleftrightarrow> Sec r < 60 \<and> Min r < 60 \<and> Hour r < 24 \<and> 1 \<le> Month r \<and> Month r \<le> 12 \<and>
     1 \<le> Day r \<and> unat (Day r) \<le> days_of_month (unat (Year r)) (unat (Month r))"

lemma days_of_month_bounds: "28 \<le> days_of_month y m" "days_of_month y m \<le> 31"
  by (auto simp: days_of_month_def)

lemma days_of_december [simp]: "days_of_month y 12 = 31"
  by (simp add: days_of_month_def)

lemma days_before_month_Suc: "1 \<le> m \<Longrightarrow> days_before_month y (Suc m) = days_before_month y m + days_of_month y m"
  by (simp add: days_before_month_def)

lemma months: "{1..<13} = {1, 2, 3, 4, 5, 6, 7, 8, 9, 10, 11, 12 :: nat}"
  by (rule set_eqI) (simp, presburger)

lemma year_length: "days_before_month y 13 = 365 + (if leap_year y then 1 else 0)"
  unfolding days_before_month_def months by (simp add: days_of_month_def)

lemma day_number_next_day: "1 \<le> d \<Longrightarrow> day_number y m (Suc d) = Suc (day_number y m d)"
  by (simp add: day_number_def)

lemma day_number_next_month: "1 \<le> m \<Longrightarrow> d = days_of_month y m \<Longrightarrow> 1 \<le> d \<Longrightarrow> day_number y (Suc m) 1 = Suc (day_number y m d)"
  by (simp add: day_number_def days_before_month_Suc)

lemma day_number_next_year: "d = 31 \<Longrightarrow> day_number (Suc y) 1 1 = Suc (day_number y 12 d)"
  using days_before_month_Suc [of 12 y] year_length [of y]
  by (simp add: day_number_def days_before_year_def days_before_month_def)

section \<open>The calendar follows the reference\<close>

lemma unat_inc8: "unat x < 255 \<Longrightarrow> unat (x + 1) = unat x + 1" for x :: uint8_t
  by (simp add: unat_word_ariths)

lemma unat_inc16: "unat x < 65535 \<Longrightarrow> unat (x + 1) = unat x + 1" for x :: uint16_t
  by (simp add: unat_word_ariths)

lemma leap_month_spec: "unat (leap_month r) = (if Month r = 2 \<and> leap_year (unat (Year r)) then 1 else 0)"
proof -
  have "Year r AND 3 = Year r mod 4" using take_bit_eq_mask [of 2 "Year r"] by (simp add: take_bit_eq_mod mask_eq_exp_minus_1)
  then have m: "Year r AND 3 = 0 \<longleftrightarrow> 4 dvd unat (Year r)" "Year r mod 100 = 0 \<longleftrightarrow> 100 dvd unat (Year r)"
    "Year r mod 400 = 0 \<longleftrightarrow> 400 dvd unat (Year r)"
    by (simp_all add: word_unat_eq_iff unat_mod dvd_eq_mod_eq_0)
  show ?thesis by (simp add: leap_month_def leap_year_def m)
qed

lemma MonthLength_spec:
  assumes "1 \<le> Month r" and "Month r \<le> 12"
  obtains len where "rd MonthLength (unat (Month r)) = Some len"
    and "unat len + unat (leap_month r) = days_of_month (unat (Year r)) (unat (Month r))"
proof -
  have "unat (Month r) \<in> {1..<13}" using assms by (simp add: word_le_nat_alt)
  then have "unat (Month r) \<in> {1, 2, 3, 4, 5, 6, 7, 8, 9, 10, 11, 12}" unfolding months .
  moreover have "Month r = 2 \<longleftrightarrow> unat (Month r) = 2" by (simp add: word_unat_eq_iff)
  ultimately show ?thesis by (intro that [of "MonthLength ! unat (Month r)"]) (auto simp: MonthLength_def leap_month_spec days_of_month_def)
qed

lemma valid_rtc_nat:
  "valid_rtc r \<longleftrightarrow> unat (Sec r) < 60 \<and> unat (Min r) < 60 \<and> unat (Hour r) < 24 \<and> 1 \<le> unat (Month r) \<and> unat (Month r) \<le> 12 \<and>
     1 \<le> unat (Day r) \<and> unat (Day r) \<le> days_of_month (unat (Year r)) (unat (Month r))"
  by (simp add: valid_rtc_def word_less_nat_alt word_le_nat_alt)

lemma valid_rtc_inc:
  assumes "valid_rtc r"
  shows "unat (Sec r + 1) = unat (Sec r) + 1" and "unat (Min r + 1) = unat (Min r) + 1" and "unat (Hour r + 1) = unat (Hour r) + 1"
    and "unat (Day r + 1) = unat (Day r) + 1" and "unat (Month r + 1) = unat (Month r) + 1"
  using assms [unfolded valid_rtc_nat] days_of_month_bounds(2) [of "unat (Year r)" "unat (Month r)"]
  by (intro unat_inc8, linarith)+

text \<open>The date one day later.\<close>

definition next_day :: "OS_RTC \<Rightarrow> OS_RTC" where
  "next_day r =
    (if unat (Day r) < days_of_month (unat (Year r)) (unat (Month r)) then r\<lparr>Day := Day r + 1\<rparr>
     else if unat (Month r) < 12 then r\<lparr>Day := 1, Month := Month r + 1\<rparr>
     else r\<lparr>Day := 1, Month := 1, Year := Year r + 1\<rparr>)"

lemma next_day_spec:
  assumes v: "valid_rtc r"
  shows "valid_rtc (next_day r)"
    and "unat (Year r) < 65535 \<Longrightarrow> day_number (unat (Year (next_day r))) (unat (Month (next_day r))) (unat (Day (next_day r))) =
      Suc (day_number (unat (Year r)) (unat (Month r)) (unat (Day r)))"
    and "Hour (next_day r) = Hour r" and "Min (next_day r) = Min r" and "Sec (next_day r) = Sec r"
proof -
  note d = v [unfolded valid_rtc_nat] and b = days_of_month_bounds
  note i = valid_rtc_inc [OF v]
  show "valid_rtc (next_day r)"
    using d b(1) [THEN le_trans [rotated], of 1] by (simp add: valid_rtc_nat next_day_def i)
  assume y: "unat (Year r) < 65535"
  show "day_number (unat (Year (next_day r))) (unat (Month (next_day r))) (unat (Day (next_day r))) =
      Suc (day_number (unat (Year r)) (unat (Month r)) (unat (Day r)))"
    using d y day_number_next_day [of "unat (Day r)"] day_number_next_month [of "unat (Month r)" "unat (Day r)" "unat (Year r)"]
      day_number_next_year [of "unat (Day r)" "unat (Year r)"] b [of "unat (Year r)" "unat (Month r)"]
    by (auto simp: next_day_def i unat_inc16)
qed (simp_all add: next_day_def)

text \<open>What one update does to the calendar, on every branch.\<close>

definition next_second :: "OS_RTC \<Rightarrow> OS_RTC" where
  "next_second r =
    (if unat (Sec r) < 59 then r\<lparr>Sec := Sec r + 1\<rparr>
     else if unat (Min r) < 59 then r\<lparr>Sec := 0, Min := Min r + 1\<rparr>
     else if unat (Hour r) < 23 then r\<lparr>Sec := 0, Min := 0, Hour := Hour r + 1\<rparr>
     else (next_day r)\<lparr>Sec := 0, Min := 0, Hour := 0\<rparr>)"

lemma month_over:
  assumes v: "valid_rtc r" and l: "unat len + unat (leap_month r) = days_of_month (unat (Year r)) (unat (Month r))"
  shows "(let r = r\<lparr>Day := Day r + 1\<rparr> in
      if unat (Day r) > unat len + unat (leap_month r)
      then let r = r\<lparr>Day := 1, Month := Month r + 1\<rparr> in if Month r > 12 then r\<lparr>Month := 1, Year := Year r + 1\<rparr> else r
      else r) = next_day r"
proof -
  note d = v [unfolded valid_rtc_nat] and i = valid_rtc_inc [OF v]
  have "leap_month (r\<lparr>Day := x\<rparr>) = leap_month r" for x by (simp add: leap_month_def)
  with l d i show ?thesis by (auto simp: next_day_def Let_def word_less_nat_alt)
qed

lemma OSUpdateCalendar_next:
  assumes v: "valid_rtc (OSRtc c)"
  shows "\<exists>l. OSUpdateCalendar c = Some (c\<lparr>OSRtc := next_second (OSRtc c), LeapMonth := l\<rparr>)"
proof -
  let ?r = "OSRtc c"
  note d = v [unfolded valid_rtc_nat] and i = valid_rtc_inc [OF v]
  have s: "Sec ?r + 1 = 60 \<longleftrightarrow> \<not> unat (Sec ?r) < 59" "59 < Min ?r + 1 \<longleftrightarrow> \<not> unat (Min ?r) < 59"
    "23 < Hour ?r + 1 \<longleftrightarrow> \<not> unat (Hour ?r) < 23" using d i by (auto simp: word_unat_eq_iff word_less_nat_alt)
  let ?q = "?r\<lparr>Sec := 0, Min := 0, Hour := 0\<rparr>"
  have vq: "valid_rtc ?q" using v by (simp add: valid_rtc_def)
  from vq have "1 \<le> Month ?q" "Month ?q \<le> 12" unfolding valid_rtc_def by blast+
  then obtain len where len: "rd MonthLength (unat (Month ?q)) = Some len"
    "unat len + unat (leap_month ?q) = days_of_month (unat (Year ?q)) (unat (Month ?q))" by (rule MonthLength_spec)
  have n: "next_day ?q = (next_day ?r)\<lparr>Sec := 0, Min := 0, Hour := 0\<rparr>" by (simp add: next_day_def)
  have lm: "leap_month (?q\<lparr>Day := x\<rparr>) = leap_month ?q" for x by (simp add: leap_month_def)
  show ?thesis
  proof (cases "unat (Sec ?r) < 59 \<or> unat (Min ?r) < 59 \<or> unat (Hour ?r) < 23")
    case True
    then show ?thesis by (intro exI [of _ "LeapMonth c"]) (auto simp: OSUpdateCalendar_def next_second_def s Let_def)
  next
    case False
    with month_over [OF vq len(2)] len(1) lm [of "Day ?r + 1"] show ?thesis
      by (intro exI [of _ "leap_month ?q"]) (simp add: OSUpdateCalendar_def next_second_def s Let_def n)
  qed
qed

lemma next_second_valid:
  assumes v: "valid_rtc r"
  shows "valid_rtc (next_second r)"
proof -
  note d = v [unfolded valid_rtc_nat] and n = next_day_spec(1) [OF v, unfolded valid_rtc_nat]
  show ?thesis using d n unfolding next_second_def valid_rtc_nat
    by (auto simp: valid_rtc_inc [OF v])
qed

lemma next_second_instant:
  assumes v: "valid_rtc r" and y: "unat (Year r) < 65535"
  shows "instant (next_second r) = instant r + 1"
proof -
  note d = v [unfolded valid_rtc_nat] and n = next_day_spec(2) [OF v y]
  have "\<not> unat (Sec r) < 59 \<longleftrightarrow> unat (Sec r) = 59" "\<not> unat (Min r) < 59 \<longleftrightarrow> unat (Min r) = 59"
    "\<not> unat (Hour r) < 23 \<longleftrightarrow> unat (Hour r) = 23" using d by auto
  with n show ?thesis by (auto simp: next_second_def instant_def valid_rtc_inc [OF v])
qed

text \<open>Any number of updates, and the last instant that the 16-bit year can count.\<close>

primrec run_calendar :: "nat \<Rightarrow> clock \<Rightarrow> clock option" where
  "run_calendar 0 c = Some c"
| "run_calendar (Suc n) c = do { c \<leftarrow> run_calendar n c; OSUpdateCalendar c }"

definition end_of_calendar :: nat where
  "end_of_calendar = 86400 * days_before_year 65535"

lemma before_end_of_calendar: "instant r < end_of_calendar \<Longrightarrow> unat (Year r) < 65535"
proof (rule ccontr)
  assume "\<not> unat (Year r) < 65535"
  with unsigned_less [of "Year r", where 'a = nat] have "unat (Year r) = 65535" by simp
  moreover assume "instant r < end_of_calendar"
  ultimately show False by (simp add: instant_def end_of_calendar_def day_number_def)
qed

lemma run_calendar_spec:
  assumes v: "valid_rtc (OSRtc c)"
  shows "\<exists>c'. run_calendar n c = Some c' \<and> valid_rtc (OSRtc c') \<and> Hora c' = Hora c \<and> Data c' = Data c \<and>
    (instant (OSRtc c) + n \<le> end_of_calendar \<longrightarrow> instant (OSRtc c') = instant (OSRtc c) + n)"
proof (induction n)
  case (Suc n)
  then obtain d where d: "run_calendar n c = Some d" "valid_rtc (OSRtc d)" "Hora d = Hora c" "Data d = Data c"
    "instant (OSRtc c) + n \<le> end_of_calendar \<longrightarrow> instant (OSRtc d) = instant (OSRtc c) + n" by blast
  from OSUpdateCalendar_next [OF d(2)] obtain l where
    "OSUpdateCalendar d = Some (d\<lparr>OSRtc := next_second (OSRtc d), LeapMonth := l\<rparr>)" by blast
  moreover have "instant (next_second (OSRtc d)) = instant (OSRtc c) + Suc n" if "instant (OSRtc c) + Suc n \<le> end_of_calendar"
    using that d(5) next_second_instant [OF d(2) before_end_of_calendar] by simp
  ultimately show ?case using d next_second_valid [OF d(2)] by auto
qed (use v in simp)

section \<open>The reference identifies dates\<close>

lemma days_before_month_le: "m \<le> 12 \<Longrightarrow> days_before_month y m + days_of_month y m \<le> days_before_month y 13" if "1 \<le> m"
proof -
  assume "m \<le> 12"
  then have "days_before_month y (Suc m) \<le> days_before_month y 13"
    unfolding days_before_month_def by (intro sum_mono2) auto
  with days_before_month_Suc [OF that] show ?thesis by simp
qed

lemma day_number_year:
  assumes "valid_rtc r"
  shows "days_before_year (unat (Year r)) \<le> day_number (unat (Year r)) (unat (Month r)) (unat (Day r))"
    and "day_number (unat (Year r)) (unat (Month r)) (unat (Day r)) < days_before_year (Suc (unat (Year r)))"
proof -
  note d = assms [unfolded valid_rtc_nat]
  show "days_before_year (unat (Year r)) \<le> day_number (unat (Year r)) (unat (Month r)) (unat (Day r))" by (simp add: day_number_def)
  have "days_before_year (Suc (unat (Year r))) = days_before_year (unat (Year r)) + days_before_month (unat (Year r)) 13"
    by (simp add: days_before_year_def year_length)
  moreover have "days_before_month (unat (Year r)) (unat (Month r)) + days_of_month (unat (Year r)) (unat (Month r))
      \<le> days_before_month (unat (Year r)) 13" using d by (intro days_before_month_le) blast+
  ultimately show "day_number (unat (Year r)) (unat (Month r)) (unat (Day r)) < days_before_year (Suc (unat (Year r)))"
    using d unfolding day_number_def by (elim conjE) linarith
qed

text \<open>Values in consecutive intervals are equal only in the same interval.\<close>

lemma interval_unique:
  fixes f :: "nat \<Rightarrow> nat"
  assumes "mono f" and "f a \<le> x" and "x < f (Suc a)" and "f b \<le> x" and "x < f (Suc b)"
  shows "a = b"
proof (rule ccontr)
  assume "a \<noteq> b"
  then consider "Suc a \<le> b" | "Suc b \<le> a" by linarith
  then show False using assms(2-5) monoD [OF assms(1), of "Suc a" b] monoD [OF assms(1), of "Suc b" a] by cases linarith+
qed

lemma days_before_mono: "mono days_before_year" "mono (days_before_month y)"
  unfolding days_before_year_def days_before_month_def by (intro monoI sum_mono2; auto)+

lemma instant_parts:
  fixes h m s h' m' s' :: nat
  assumes "((d * 24 + h) * 60 + m) * 60 + s = ((d' * 24 + h') * 60 + m') * 60 + s'"
    and "h < 24" and "m < 60" and "s < 60" and "h' < 24" and "m' < 60" and "s' < 60"
  shows "d = d' \<and> h = h' \<and> m = m' \<and> s = s'"
proof -
  have *: "a * k + b = a' * k + b' \<Longrightarrow> b < k \<Longrightarrow> b' < k \<Longrightarrow> a = a' \<and> b = b'" for a b a' b' k :: nat
    by (metis add_right_cancel div_mult_self3 div_less add.left_neutral add.commute less_nat_zero_code)
  show ?thesis using *[OF assms(1) assms(4,7)] *[of "d * 24 + h" 60 m] *[of d 24 h] assms by blast
qed

lemma instant_inj:
  assumes v: "valid_rtc r" "valid_rtc q" and e: "instant r = instant q"
  shows "r = q"
proof -
  note d = v(1) [unfolded valid_rtc_nat] v(2) [unfolded valid_rtc_nat]
  from instant_parts [OF e [unfolded instant_def]] d have t: "unat (Hour r) = unat (Hour q)" "unat (Min r) = unat (Min q)"
    "unat (Sec r) = unat (Sec q)" and n: "day_number (unat (Year r)) (unat (Month r)) (unat (Day r)) =
      day_number (unat (Year q)) (unat (Month q)) (unat (Day q))" by blast+
  have y: "unat (Year r) = unat (Year q)"
    using interval_unique [OF days_before_mono(1)] day_number_year [OF v(1)] day_number_year [OF v(2)] n by metis
  let ?m = "days_before_month (unat (Year q))"
  have m: "unat (Month r) = unat (Month q)"
    using d n y by (intro interval_unique [OF days_before_mono(2), of "unat (Year q)" _ "?m (unat (Month q)) + (unat (Day q) - 1)"])
      (auto simp: day_number_def days_before_month_Suc)
  have "unat (Day r) = unat (Day q)" using n [unfolded day_number_def y m] d by linarith
  then show ?thesis using t y m by (cases r; cases q) (simp add: word_unat_eq_iff)
qed

lemma instant_before_end:
  assumes v: "valid_rtc r" and y: "unat (Year r) < 65535"
  shows "instant r + 1 \<le> end_of_calendar"
proof -
  note d = v [unfolded valid_rtc_nat]
  let ?n = "day_number (unat (Year r)) (unat (Month r)) (unat (Day r))"
  have "?n < days_before_year (Suc (unat (Year r)))" using day_number_year [OF v] by simp
  also have "\<dots> \<le> days_before_year 65535" using y by (intro monoD [OF days_before_mono(1)]) simp
  finally have "?n + 1 \<le> days_before_year 65535" by simp
  then have "86400 * ?n + 86400 \<le> end_of_calendar" unfolding end_of_calendar_def by linarith
  moreover have "instant r = 86400 * ?n + (3600 * unat (Hour r) + 60 * unat (Min r) + unat (Sec r))" by (simp add: instant_def)
  ultimately show ?thesis using d by linarith
qed

section \<open>The up-time clock\<close>

definition valid_time :: "OSTime \<Rightarrow> bool" where
  "valid_time h \<longleftrightarrow> unat (RTC_Second h) < 60 \<and> unat (RTC_Minute h) < 60 \<and> unat (RTC_Hour h) < 24"

definition seconds :: "OSTime \<Rightarrow> nat" where
  "seconds h = (unat (RTC_Hour h) * 60 + unat (RTC_Minute h)) * 60 + unat (RTC_Second h)"

lemma seconds_sum: "seconds h = 3600 * unat (RTC_Hour h) + 60 * unat (RTC_Minute h) + unat (RTC_Second h)"
  by (simp add: seconds_def)

lemma seconds_bound: "valid_time h \<Longrightarrow> seconds h < 86400"
  unfolding valid_time_def seconds_sum by linarith

lemma advance_time_spec:
  assumes v: "valid_time h"
  shows "valid_time (snd (advance_time h))"
    and "fst (advance_time h) \<longleftrightarrow> seconds h = 86399"
    and "seconds (snd (advance_time h)) = (if seconds h = 86399 then 0 else seconds h + 1)"
proof -
  note d = v [unfolded valid_time_def]
  have i: "unat (RTC_Second h + 1) = unat (RTC_Second h) + 1" "unat (RTC_Minute h + 1) = unat (RTC_Minute h) + 1"
    "unat (RTC_Hour h + 1) = unat (RTC_Hour h) + 1" using d by (intro unat_inc8, linarith)+
  have s: "RTC_Second h + 1 = 60 \<longleftrightarrow> unat (RTC_Second h) = 59" "RTC_Minute h + 1 = 60 \<longleftrightarrow> unat (RTC_Minute h) = 59"
    "RTC_Hour h + 1 = 24 \<longleftrightarrow> unat (RTC_Hour h) = 23" by (simp_all add: word_unat_eq_iff i)
  have e: "seconds h = 86399 \<longleftrightarrow> unat (RTC_Second h) = 59 \<and> unat (RTC_Minute h) = 59 \<and> unat (RTC_Hour h) = 23"
    using d unfolding seconds_sum by linarith
  show "valid_time (snd (advance_time h))" using d by (auto simp: advance_time_def valid_time_def Let_def s i)
  show "fst (advance_time h) \<longleftrightarrow> seconds h = 86399" unfolding e by (simp add: advance_time_def Let_def s)
  show "seconds (snd (advance_time h)) = (if seconds h = 86399 then 0 else seconds h + 1)"
    unfolding e by (auto simp: advance_time_def Let_def s i seconds_def)
qed

definition uptime :: "clock \<Rightarrow> nat" where
  "uptime c = unat (RTC_Day (Data c)) * 86400 + seconds (Hora c)"

lemma OSUpdateUptime_spec:
  assumes v: "valid_time (Hora c)"
  shows "valid_time (Hora (OSUpdateUptime c))" and "uptime (OSUpdateUptime c) = (uptime c + 1) mod (256 * 86400)"
proof -
  note a = advance_time_spec [OF v]
  show "valid_time (Hora (OSUpdateUptime c))" using a(1) by (cases "advance_time (Hora c)") (simp add: OSUpdateUptime_def Let_def)
  have b: "unat (RTC_Day (Data c)) < 256" using unsigned_less [of "RTC_Day (Data c)", where 'a = nat] by simp
  have i: "unat (RTC_Day (Data c) + 1) = (unat (RTC_Day (Data c)) + 1) mod 256" by (simp add: unat_word_ariths)
  show "uptime (OSUpdateUptime c) = (uptime c + 1) mod (256 * 86400)"
  proof (cases "seconds (Hora c) = 86399")
    case True
    then have "uptime c + 1 = (unat (RTC_Day (Data c)) + 1) * 86400" by (simp add: uptime_def)
    moreover have "uptime (OSUpdateUptime c) = (unat (RTC_Day (Data c)) + 1) mod 256 * 86400"
      using True a by (cases "advance_time (Hora c)") (simp add: uptime_def OSUpdateUptime_def Let_def i)
    ultimately show ?thesis by (simp add: mult_mod_left)
  next
    case False
    then have "uptime (OSUpdateUptime c) = uptime c + 1"
      using a by (cases "advance_time (Hora c)") (simp add: uptime_def OSUpdateUptime_def Let_def)
    moreover have "uptime c + 1 < 256 * 86400" using b False seconds_bound [OF v] unfolding uptime_def by linarith
    ultimately show ?thesis by simp
  qed
qed

lemma uptime_iterate:
  "valid_time (Hora c) \<Longrightarrow> valid_time (Hora ((OSUpdateUptime ^^ n) c)) \<and>
     uptime ((OSUpdateUptime ^^ n) c) = (uptime c + n) mod (256 * 86400)"
proof (induction n)
  case 0
  have "unat (RTC_Day (Data c)) < 256" using unsigned_less [of "RTC_Day (Data c)", where 'a = nat] by simp
  with 0 seconds_bound [OF 0] have "uptime c < 256 * 86400" unfolding uptime_def by linarith
  with 0 show ?case by simp
next
  case (Suc n)
  with OSUpdateUptime_spec [of "(OSUpdateUptime ^^ n) c"] show ?case by (simp add: mod_Suc_eq)
qed

section \<open>The date counter\<close>

text \<open>\<^verbatim>\<open>OSUpdateDate\<close> counts in months of thirty days and years of twelve such months.\<close>

definition valid_date :: "OSDate \<Rightarrow> bool" where
  "valid_date d \<longleftrightarrow> unat (RTC_Day d) < 30 \<and> unat (RTC_Month d) < 12 \<and> unat (RTC_Year d) < 9999"

definition date_number :: "OSDate \<Rightarrow> nat" where
  "date_number d = 360 * unat (RTC_Year d) + 30 * unat (RTC_Month d) + unat (RTC_Day d)"

lemma OSUpdateDate_spec:
  assumes v: "valid_date (Data c)"
  shows "valid_date (Data (OSUpdateDate c)) \<and> date_number (Data (OSUpdateDate c)) = (date_number (Data c) + 1) mod (9999 * 360)"
proof -
  let ?d = "Data c"
  note d = v [unfolded valid_date_def]
  have i: "unat (RTC_Day ?d + 1) = unat (RTC_Day ?d) + 1" "unat (RTC_Month ?d + 1) = unat (RTC_Month ?d) + 1"
    using d by (intro unat_inc8, linarith)+
  have j: "unat (RTC_Year ?d + 1) = unat (RTC_Year ?d) + 1" using d by (intro unat_inc16) linarith
  have s: "RTC_Day ?d + 1 = 30 \<longleftrightarrow> unat (RTC_Day ?d) = 29" "RTC_Month ?d + 1 = 12 \<longleftrightarrow> unat (RTC_Month ?d) = 11"
    "RTC_Year ?d + 1 = 9999 \<longleftrightarrow> unat (RTC_Year ?d) = 9998" "RTC_Day ?d = 29 \<longleftrightarrow> unat (RTC_Day ?d) = 29"
    by (simp_all add: word_unat_eq_iff i j)
  have e: "date_number ?d + 1 = 9999 * 360 \<longleftrightarrow> unat (RTC_Day ?d) = 29 \<and> unat (RTC_Month ?d) = 11 \<and> unat (RTC_Year ?d) = 9998"
    and b: "date_number ?d + 1 \<le> 9999 * 360" using d unfolding date_number_def by linarith+
  have m: "(date_number ?d + 1) mod (9999 * 360) =
    (if unat (RTC_Day ?d) = 29 \<and> unat (RTC_Month ?d) = 11 \<and> unat (RTC_Year ?d) = 9998 then 0 else date_number ?d + 1)"
    using b unfolding e [symmetric] by (cases "date_number ?d + 1 = 9999 * 360") (simp_all only: mod_less mod_self if_True if_False le_neq_implies_less refl)
  show ?thesis unfolding m using d by (auto simp: OSUpdateDate_def Let_def s i j valid_date_def date_number_def)
qed

end
