(* ===== verification/TimerHeap.thy ===== *)
theory TimerHeap
  imports Prelude "HOL-Library.Multiset"
begin

text \<open>
  The binary heap of \<^verbatim>\<open>src/brtos/stimer.c\<close>: an array of pointers to timer blocks, ordered by
  the field \<^verbatim>\<open>timeout\<close> of the blocks, with the root at index 1. \<open>Subir\<close> moves an entry
  up and \<open>Descer\<close> moves it down. The theory shows that each restores the heap from the single
  violation that the timer functions make, that \<open>Descer\<close> ends for every list length that an
  \<^verbatim>\<open>int8_t\<close> can hold, and that both only permute the entries.
\<close>

section \<open>Data and operations\<close>

datatype TIMER_STATE = TIMER_NOT_ALLOCATED | TIMER_NOT_USED | TIMER_STOPPED | TIMER_RUNNING | TIMER_SEARCH

record BRTOS_TIMER_T =
  func_cb :: ptr
  timeout :: ostick_t
  state :: TIMER_STATE

text \<open>Reading the time-out through an entry of the array; a null or wild pointer is undefined behaviour.\<close>

definition entry_timeout :: "BRTOS_TIMER_T list \<Rightarrow> ptr list \<Rightarrow> nat \<Rightarrow> ostick_t option" where
  "entry_timeout m ts i = do { p \<leftarrow> rd ts i; t \<leftarrow> deref m p; Some (timeout t) }"

text \<open>The exchange of two entries through the variable \<^verbatim>\<open>tmp\<close>.\<close>

definition swap_entries :: "ptr list \<Rightarrow> nat \<Rightarrow> nat \<Rightarrow> ptr list" where
  "swap_entries ts i j = ts[i := ts ! j, j := ts ! i]"

definition PAI :: "nat \<Rightarrow> nat" where "PAI i = i div 2"
definition LEFT :: "nat \<Rightarrow> nat" where "LEFT i = (2 * i) mod 256"
definition RIGHT :: "nat \<Rightarrow> nat" where "RIGHT i = (2 * i + 1) mod 256"

function Subir :: "BRTOS_TIMER_T list \<Rightarrow> ptr list \<Rightarrow> nat \<Rightarrow> ptr list option" where
  "Subir m ts i =
    (if i > 1 then do {
       a \<leftarrow> entry_timeout m ts (PAI i);
       b \<leftarrow> entry_timeout m ts i;
       if a > b then Subir m (swap_entries ts (PAI i) i) (PAI i) else Some ts }
     else Some ts)"
  by pat_completeness auto
termination by (relation "measure (\<lambda>(_, _, i). i)") (auto simp: PAI_def)

declare Subir.simps [simp del]

definition nonnull :: "ptr list \<Rightarrow> nat \<Rightarrow> bool option" where
  "nonnull ts i = map_option (\<lambda>p. p \<noteq> None) (rd ts i)"

text \<open>The choice of the son and the test of the loop, with the short-circuit evaluation of C.\<close>

definition and_then :: "bool option \<Rightarrow> bool option \<Rightarrow> bool option" where
  "and_then a b = Option.bind a (\<lambda>x. if x then b else Some False)"

definition earlier :: "BRTOS_TIMER_T list \<Rightarrow> ptr list \<Rightarrow> nat \<Rightarrow> nat \<Rightarrow> bool option" where
  "earlier m ts i j = do { a \<leftarrow> entry_timeout m ts i; b \<leftarrow> entry_timeout m ts j; Some (a < b) }"

definition select_son :: "BRTOS_TIMER_T list \<Rightarrow> ptr list \<Rightarrow> nat \<Rightarrow> nat \<Rightarrow> nat option" where
  "select_son m ts i n = do {
     right \<leftarrow> (if RIGHT i \<le> n
              then and_then (nonnull ts (RIGHT i)) (and_then (nonnull ts (LEFT i)) (earlier m ts (RIGHT i) (LEFT i)))
              else Some False);
     Some (if right then RIGHT i else LEFT i) }"

definition sinks :: "BRTOS_TIMER_T list \<Rightarrow> ptr list \<Rightarrow> nat \<Rightarrow> nat \<Rightarrow> nat \<Rightarrow> bool option" where
  "sinks m ts son i n =
    (if son \<le> n then and_then (nonnull ts son) (and_then (nonnull ts i) (earlier m ts son i)) else Some False)"

text \<open>The loop need not end if the indices wrap, so it is a partial function.\<close>

partial_function (option) Descer :: "BRTOS_TIMER_T list \<Rightarrow> ptr list \<Rightarrow> nat \<Rightarrow> nat \<Rightarrow> ptr list option" where
  "Descer m ts i n =
    Option.bind (select_son m ts i n) (\<lambda>son.
    Option.bind (sinks m ts son i n) (\<lambda>down.
    if down then Descer m (swap_entries ts son i) son n else Some ts))"

section \<open>Heaps\<close>

text \<open>The entries \<open>1\<dots>n\<close> point to timer blocks; \<open>key\<close> is the time-out of an entry.\<close>

definition full :: "BRTOS_TIMER_T list \<Rightarrow> ptr list \<Rightarrow> nat \<Rightarrow> bool" where
  "full m ts n \<longleftrightarrow> n < length ts \<and> (\<forall>i. 1 \<le> i \<and> i \<le> n \<longrightarrow> (\<exists>p < length m. ts ! i = Some p))"

definition key :: "BRTOS_TIMER_T list \<Rightarrow> ptr list \<Rightarrow> nat \<Rightarrow> ostick_t" where
  "key m ts i = timeout (m ! the (ts ! i))"

definition heap :: "BRTOS_TIMER_T list \<Rightarrow> ptr list \<Rightarrow> nat \<Rightarrow> bool" where
  "heap m ts n \<longleftrightarrow> (\<forall>i. 2 \<le> i \<and> i \<le> n \<longrightarrow> key m ts (i div 2) \<le> key m ts i)"

text \<open>Heaps except that entry \<open>j\<close> may be earlier than its father, or later than its sons.\<close>

definition heap_but_up :: "BRTOS_TIMER_T list \<Rightarrow> ptr list \<Rightarrow> nat \<Rightarrow> nat \<Rightarrow> bool" where
  "heap_but_up m ts n j \<longleftrightarrow> (\<forall>i. 2 \<le> i \<and> i \<le> n \<and> i \<noteq> j \<longrightarrow> key m ts (i div 2) \<le> key m ts i) \<and>
     (\<forall>i. 2 \<le> j \<and> i \<le> n \<and> i div 2 = j \<longrightarrow> key m ts (j div 2) \<le> key m ts i)"

definition heap_but_down :: "BRTOS_TIMER_T list \<Rightarrow> ptr list \<Rightarrow> nat \<Rightarrow> nat \<Rightarrow> bool" where
  "heap_but_down m ts n j \<longleftrightarrow> (\<forall>i. 2 \<le> i \<and> i \<le> n \<and> i div 2 \<noteq> j \<longrightarrow> key m ts (i div 2) \<le> key m ts i) \<and>
     (\<forall>i. 2 \<le> j \<and> i \<le> n \<and> i div 2 = j \<longrightarrow> key m ts (j div 2) \<le> key m ts i)"

text \<open>The entries are permuted within \<open>1\<dots>n\<close>.\<close>

definition shuffled :: "nat \<Rightarrow> ptr list \<Rightarrow> ptr list \<Rightarrow> bool" where
  "shuffled n ts ts' \<longleftrightarrow> length ts' = length ts \<and> mset ts' = mset ts \<and> (\<forall>i. i = 0 \<or> n < i \<longrightarrow> ts' ! i = ts ! i)"

lemma shuffled_refl [simp]: "shuffled n ts ts"
  by (simp add: shuffled_def)

lemma shuffled_trans: "shuffled n a b \<Longrightarrow> shuffled n b c \<Longrightarrow> shuffled n a c"
  by (simp add: shuffled_def)

lemma swap_nth:
  "i < length ts \<Longrightarrow> j < length ts \<Longrightarrow> k < length ts \<Longrightarrow>
     swap_entries ts i j ! k = (if k = i then ts ! j else if k = j then ts ! i else ts ! k)"
  by (auto simp: swap_entries_def nth_list_update)

lemma swap_shuffled:
  assumes "1 \<le> i" and "i \<le> n" and "1 \<le> j" and "j \<le> n" and "n < length ts"
  shows "shuffled n ts (swap_entries ts i j)"
proof -
  have "i < length ts" "j < length ts" using assms by simp_all
  then have "mset (swap_entries ts i j) = mset ts" unfolding swap_entries_def by (subst mset_swap) simp_all
  moreover have "swap_entries ts i j ! k = ts ! k" if "k = 0 \<or> n < k" for k
    using that assms by (auto simp: swap_entries_def)
  ultimately show ?thesis by (simp add: shuffled_def swap_entries_def)
qed

lemma swap_full:
  assumes "full m ts n" and "1 \<le> i" and "i \<le> n" and "1 \<le> j" and "j \<le> n"
  shows "full m (swap_entries ts i j) n"
  using assms unfolding full_def by (auto simp: swap_nth swap_entries_def [of ts i j, THEN arg_cong [of _ _ length]])

lemma swap_key:
  assumes "full m ts n" and "1 \<le> i" and "i \<le> n" and "1 \<le> j" and "j \<le> n" and "k \<le> n"
  shows "key m (swap_entries ts i j) k = (if k = i then key m ts j else if k = j then key m ts i else key m ts k)"
  using assms by (simp add: key_def full_def swap_nth)

lemma entry_timeout_full: "full m ts n \<Longrightarrow> 1 \<le> i \<Longrightarrow> i \<le> n \<Longrightarrow> entry_timeout m ts i = Some (key m ts i)"
  by (auto simp: full_def entry_timeout_def key_def)

lemma nonnull_full: "full m ts n \<Longrightarrow> 1 \<le> i \<Longrightarrow> i \<le> n \<Longrightarrow> nonnull ts i = Some True"
  by (auto simp: full_def nonnull_def)

text \<open>The root is the earliest entry.\<close>

lemma heap_root: "heap m ts n \<Longrightarrow> 1 \<le> i \<Longrightarrow> i \<le> n \<Longrightarrow> key m ts 1 \<le> key m ts i"
proof (induction i rule: less_induct)
  case (less i)
  show ?case
  proof (cases "i = 1")
    case False
    with less.prems have "1 \<le> i div 2" "i div 2 < i" "i div 2 \<le> n" by auto
    with less False have "key m ts 1 \<le> key m ts (i div 2)" by blast
    also have "\<dots> \<le> key m ts i" using less.prems False by (simp add: heap_def)
    finally show ?thesis .
  qed simp
qed

section \<open>Moving up\<close>

lemma swap_up:
  assumes f: "full m ts n" and h: "heap_but_up m ts n j" and j: "2 \<le> j" "j \<le> n" and gt: "key m ts j < key m ts (j div 2)"
  shows "heap_but_up m (swap_entries ts (j div 2) j) n (j div 2)"
proof -
  let ?f = "j div 2" let ?ts = "swap_entries ts ?f j"
  have f1: "1 \<le> ?f" "?f \<le> n" "?f < j" using j by auto
  note k = swap_key [OF f f1(1,2) _ j(2)]
  have up: "key m ts (i div 2) \<le> key m ts i" if "2 \<le> i" "i \<le> n" "i \<noteq> j" for i using h that by (simp add: heap_but_up_def)
  have son: "key m ts ?f \<le> key m ts i" if "i \<le> n" "i div 2 = j" for i using h that j by (simp add: heap_but_up_def)
  have "key m ?ts (i div 2) \<le> key m ?ts i" if i: "2 \<le> i" "i \<le> n" "i \<noteq> ?f" for i
  proof -
    have b: "i div 2 \<le> n" "i div 2 < i" using i by auto
    consider "i = j" | "i \<noteq> j" "i div 2 = ?f" | "i \<noteq> j" "i div 2 = j" | "i \<noteq> j" "i div 2 \<noteq> ?f" "i div 2 \<noteq> j" by blast
    then show ?thesis
    proof cases
      case 1
      with less_imp_le [OF gt] f1 j show ?thesis by (simp add: k)
    next
      case 2
      with up [OF i(1,2)] gt i f1 j b show ?thesis by (simp add: k)
    next
      case 3
      with son [OF i(2)] i f1 j b show ?thesis by (auto simp: k)
    next
      case 4
      with up [OF i(1,2)] i f1 j b show ?thesis by (simp add: k)
    qed
  qed
  moreover have "key m ?ts (?f div 2) \<le> key m ?ts i" if i: "2 \<le> ?f" "i \<le> n" "i div 2 = ?f" for i
  proof -
    have g: "?f div 2 \<le> n" "?f div 2 < ?f" "2 \<le> i" using i f1 by auto
    have "key m ts (?f div 2) \<le> key m ts ?f" using up [OF i(1) f1(2)] f1(3) by simp
    moreover have "i \<noteq> j \<Longrightarrow> key m ts ?f \<le> key m ts i" using up [OF g(3) i(2)] i(3) by simp
    ultimately show ?thesis using i g f1 j by (auto simp: k)
  qed
  ultimately show ?thesis by (simp add: heap_but_up_def)
qed

lemma Subir_spec:
  "full m ts n \<Longrightarrow> heap_but_up m ts n j \<Longrightarrow> 1 \<le> j \<Longrightarrow> j \<le> n \<Longrightarrow>
     \<exists>ts'. Subir m ts j = Some ts' \<and> full m ts' n \<and> heap m ts' n \<and> shuffled n ts ts' \<and>
       ((\<forall>i. 1 \<le> i \<and> i \<le> n \<and> i \<noteq> j \<longrightarrow> key m ts j < key m ts i) \<longrightarrow> ts' ! 1 = ts ! j)"
proof (induction j arbitrary: ts rule: less_induct)
  case (less j)
  note f = less.prems(1) and h = less.prems(2)
  show ?case
  proof (cases "2 \<le> j")
    case False
    with less.prems have j: "j = 1" by simp
    with h have "heap m ts n" by (auto simp: heap_but_up_def heap_def)
    with f j show ?thesis by (subst Subir.simps) simp
  next
    case True
    have b: "1 \<le> j div 2" "j div 2 \<le> n" "j div 2 < j" using True less.prems by auto
    note e = entry_timeout_full [OF f b(1,2)] entry_timeout_full [OF f less.prems(3,4)]
    show ?thesis
    proof (cases "key m ts j < key m ts (j div 2)")
      case False
      with h True have "heap m ts n" unfolding heap_def heap_but_up_def by (metis not_less)
      moreover have "Subir m ts j = Some ts" using True False e by (subst Subir.simps) (simp add: PAI_def)
      ultimately show ?thesis using f False b by auto
    next
      case lt: True
      let ?ts = "swap_entries ts (j div 2) j"
      have f': "full m ?ts n" by (rule swap_full [OF f b(1,2) less.prems(3,4)])
      from less.IH [OF b(3) f' swap_up [OF f h True less.prems(4) lt] b(1,2)] obtain ts' where
        t: "Subir m ?ts (j div 2) = Some ts'" "full m ts' n" "heap m ts' n" "shuffled n ?ts ts'"
          "(\<forall>i. 1 \<le> i \<and> i \<le> n \<and> i \<noteq> j div 2 \<longrightarrow> key m ?ts (j div 2) < key m ?ts i) \<longrightarrow> ts' ! 1 = ?ts ! (j div 2)" by blast
      have "Subir m ts j = Some ts'" using True lt e t(1) by (subst Subir.simps) (simp add: PAI_def)
      moreover have "shuffled n ts ts'"
        using swap_shuffled [OF b(1,2) less.prems(3,4), of ts] f t(4) by (auto simp: full_def intro: shuffled_trans)
      moreover have "ts' ! 1 = ts ! j" if m: "\<forall>i. 1 \<le> i \<and> i \<le> n \<and> i \<noteq> j \<longrightarrow> key m ts j < key m ts i"
      proof -
        have "key m ?ts (j div 2) < key m ?ts i" if "1 \<le> i" "i \<le> n" "i \<noteq> j div 2" for i
          using that m lt b less.prems by (simp add: swap_key [OF f b(1,2) less.prems(3,4)])
        moreover have "j div 2 < length ts" "j < length ts" using f b less.prems by (auto simp: full_def)
        ultimately show ?thesis using t(5) by (simp add: swap_nth)
      qed
      ultimately show ?thesis using t(2,3) by blast
    qed
  qed
qed

section \<open>Moving down\<close>

lemma select_son_spec:
  assumes f: "full m ts n" and i: "1 \<le> i" and n: "n \<le> 127" "i \<le> 127"
  obtains son where "select_son m ts i n = Some son" and "son = 2 * i \<or> son = 2 * i + 1"
    and "2 * i \<le> n \<longrightarrow> son \<le> n \<and> (\<forall>c \<le> n. c div 2 = i \<longrightarrow> key m ts son \<le> key m ts c)"
    and "n < 2 * i \<longrightarrow> n < son"
proof -
  have lr: "LEFT i = 2 * i" "RIGHT i = 2 * i + 1" using n by (simp_all add: LEFT_def RIGHT_def)
  have two: "c = 2 * i \<or> c = 2 * i + 1" if "c div 2 = i" for c using that by auto
  show ?thesis
  proof (cases "RIGHT i \<le> n")
    case False
    then have r: "select_son m ts i n = Some (2 * i)" by (simp add: select_son_def lr)
    have c: "c = 2 * i" if "c \<le> n" "c div 2 = i" for c using two [OF that(2)] that(1) False lr by auto
    show ?thesis
    proof (rule that [OF r])
      have "key m ts (2 * i) \<le> key m ts x" if "x \<le> n" "x div 2 = i" for x unfolding c [OF that] ..
      then show "2 * i \<le> n \<longrightarrow> 2 * i \<le> n \<and> (\<forall>c \<le> n. c div 2 = i \<longrightarrow> key m ts (2 * i) \<le> key m ts c)" by blast
    qed simp_all
  next
    case True
    then have b: "1 \<le> LEFT i" "LEFT i \<le> n" "1 \<le> RIGHT i" using i by (simp_all add: lr)
    note e = entry_timeout_full [OF f b(1,2)] entry_timeout_full [OF f b(3) True] nonnull_full [OF f b(1,2)] nonnull_full [OF f b(3) True]
    have "select_son m ts i n = Some (if key m ts (RIGHT i) < key m ts (LEFT i) then RIGHT i else LEFT i)"
      using True by (simp add: select_son_def and_then_def earlier_def e)
    moreover have "key m ts (if key m ts (RIGHT i) < key m ts (LEFT i) then RIGHT i else LEFT i) \<le> key m ts c" if "c div 2 = i" for c
      using two [OF that] by (auto simp: lr)
    ultimately show ?thesis using True b lr
      by (intro that [of "if key m ts (RIGHT i) < key m ts (LEFT i) then RIGHT i else LEFT i"]) simp_all
  qed
qed

lemma swap_down:
  assumes f: "full m ts n" and h: "heap_but_down m ts n j" and j: "1 \<le> j" and s: "s \<le> n" "s div 2 = j"
    and least: "\<forall>c \<le> n. c div 2 = j \<longrightarrow> key m ts s \<le> key m ts c" and lt: "key m ts s < key m ts j"
  shows "heap_but_down m (swap_entries ts s j) n s"
proof -
  let ?ts = "swap_entries ts s j"
  have b: "1 \<le> s" "j < s" "j \<le> n" "2 \<le> s" using j s by auto
  note k = swap_key [OF f b(1) s(1) j b(3)]
  have up: "key m ts (i div 2) \<le> key m ts i" if "2 \<le> i" "i \<le> n" "i div 2 \<noteq> j" for i using h that by (simp add: heap_but_down_def)
  have son: "key m ts (j div 2) \<le> key m ts i" if "2 \<le> j" "i \<le> n" "i div 2 = j" for i using h that by (simp add: heap_but_down_def)
  have "key m ?ts (i div 2) \<le> key m ?ts i" if i: "2 \<le> i" "i \<le> n" "i div 2 \<noteq> s" for i
  proof -
    have b2: "i div 2 \<le> n" "i div 2 < i" using i by auto
    consider "i = s" | "i = j" | "i \<noteq> s" "i \<noteq> j" "i div 2 = j" | "i \<noteq> s" "i \<noteq> j" "i div 2 \<noteq> j" by blast
    then show ?thesis
    proof cases
      case 1
      with less_imp_le [OF lt] s b show ?thesis by (simp add: k)
    next
      case 2
      with son [of s] s i b b2 show ?thesis by (auto simp: k)
    next
      case 3
      with least i b b2 show ?thesis by (auto simp: k)
    next
      case 4
      with up [OF i(1,2)] i b b2 show ?thesis by (auto simp: k)
    qed
  qed
  moreover have "key m ?ts (s div 2) \<le> key m ?ts i" if i: "i \<le> n" "i div 2 = s" for i
  proof -
    have "i \<noteq> j" "i \<noteq> s" "2 \<le> i" "i div 2 \<noteq> j" using i b by auto
    with up [of i] i s b show ?thesis by (auto simp: k)
  qed
  ultimately show ?thesis by (simp add: heap_but_down_def)
qed

text \<open>For every list length that the counter can hold, the loop ends and restores the heap.\<close>

lemma Descer_spec:
  assumes n: "n \<le> 127"
  shows "full m ts n \<Longrightarrow> heap_but_down m ts n j \<Longrightarrow> 1 \<le> j \<Longrightarrow> j \<le> max 1 n \<Longrightarrow>
     \<exists>ts'. Descer m ts j n = Some ts' \<and> full m ts' n \<and> heap m ts' n \<and> shuffled n ts ts'"
proof (induction "n - j" arbitrary: ts j rule: less_induct)
  case less
  note f = less.prems(1) and h = less.prems(2)
  have j127: "j \<le> 127" using less.prems(4) n by simp
  from select_son_spec [OF f less.prems(3) n j127] obtain s where
    s: "select_son m ts j n = Some s" "s = 2 * j \<or> s = 2 * j + 1"
      "2 * j \<le> n \<longrightarrow> s \<le> n \<and> (\<forall>c \<le> n. c div 2 = j \<longrightarrow> key m ts s \<le> key m ts c)" "n < 2 * j \<longrightarrow> n < s" .
  have sj: "s div 2 = j" using s(2) by auto
  show ?case
  proof (cases "2 * j \<le> n")
    case False
    then have "c div 2 \<noteq> j" if "c \<le> n" for c using that by auto
    with h have "heap m ts n" by (auto simp: heap_def heap_but_down_def)
    moreover have "Descer m ts j n = Some ts" using s(1,4) False by (subst Descer.simps) (simp add: sinks_def)
    ultimately show ?thesis using f by auto
  next
    case True
    then have sn: "s \<le> n" and least: "\<forall>c \<le> n. c div 2 = j \<longrightarrow> key m ts s \<le> key m ts c" using s(3) by auto
    have b: "1 \<le> s" "j < s" "j \<le> n" using sn sj less.prems(3) by auto
    have down: "sinks m ts s j n = Some (key m ts s < key m ts j)"
      using sn by (simp add: sinks_def and_then_def earlier_def entry_timeout_full [OF f b(1) sn]
          entry_timeout_full [OF f less.prems(3) b(3)] nonnull_full [OF f b(1) sn] nonnull_full [OF f less.prems(3) b(3)])
    show ?thesis
    proof (cases "key m ts s < key m ts j")
      case False
      then have "key m ts (i div 2) \<le> key m ts i" if "2 \<le> i" "i \<le> n" for i
        using that h least by (cases "i div 2 = j") (force simp: heap_but_down_def)+
      then have "heap m ts n" by (simp add: heap_def)
      moreover have "Descer m ts j n = Some ts" using s(1) down False by (subst Descer.simps) simp
      ultimately show ?thesis using f by auto
    next
      case lt: True
      let ?ts = "swap_entries ts s j"
      have "n - s < n - j" using b sn by simp
      from less.hyps [OF this swap_full [OF f b(1) sn less.prems(3) b(3)] swap_down [OF f h less.prems(3) sn sj least lt] b(1)]
      obtain ts' where t: "Descer m ?ts s n = Some ts'" "full m ts' n" "heap m ts' n" "shuffled n ?ts ts'"
        using sn by (metis max.coboundedI2)
      have "Descer m ts j n = Some ts'" using s(1) down lt t(1) by (subst Descer.simps) simp
      moreover have "shuffled n ts ts'"
        using swap_shuffled [OF b(1) sn less.prems(3) b(3), of ts] f t(4) by (auto simp: full_def intro: shuffled_trans)
      ultimately show ?thesis using t(2,3) by blast
    qed
  qed
qed

end
