(* ===== verification/SoftTimer.thy ===== *)
theory SoftTimer
  imports TimerHeap Tick Tasks
begin

text \<open>
  \<^verbatim>\<open>src/brtos/stimer.c\<close>: soft timers. Two heaps of running timers, for the current and for the next
  period of the tick counter, a fixed table of timer blocks, and a task that sleeps until the earliest
  time-out. \<open>N\<close> is \<^verbatim>\<open>BRTOS_MAX_TIMER\<close>; a \<^verbatim>\<open>BRTOS_TIMER\<close> is an index into the table. The
  callbacks are application code: they are a parameter, which may change the whole state. Every \<^verbatim>\<open>count\<close> lies
  between 0 and 126, where the signed and the unsigned reading agree.
\<close>

section \<open>Data\<close>

record BRTOS_TMR_T =
  timers :: "ptr list"
  count :: uint8_t

text \<open>\<^verbatim>\<open>BRTOS_TIMER_VECTOR\<close> with the two lists \<^verbatim>\<open>BRTOS_TMR_PING\<close> and \<^verbatim>\<open>BRTOS_TMR_PONG\<close>, to which the
  pointers \<^verbatim>\<open>current\<close> and \<^verbatim>\<open>future\<close> are indices.\<close>

record timer_vector =
  mem :: "BRTOS_TIMER_T list"
  lists :: "BRTOS_TMR_T list"
  current :: nat
  future :: nat
  handling_task :: uint8_t

abbreviation (input) TIMER_MAX_COUNTER :: ostick_t where "TIMER_MAX_COUNTER \<equiv> TICK_COUNT_OVERFLOW - 1"

type_synonym callbacks = "nat \<Rightarrow> kernel \<Rightarrow> timer_vector \<Rightarrow> ostick_t \<times> kernel \<times> timer_vector"

section \<open>Lists\<close>

text \<open>The four lines that put a timer into a list.\<close>

definition list_add :: "nat \<Rightarrow> BRTOS_TIMER_T list \<Rightarrow> nat \<Rightarrow> BRTOS_TMR_T \<Rightarrow> BRTOS_TMR_T option" where
  "list_add N m p l = do {
     let l = (if unat (count l) < N - 1 then l\<lparr>count := count l + 1\<rparr> else l);
     ts \<leftarrow> wr (timers l) (unat (count l)) (Some p);
     ts \<leftarrow> Subir m ts (unat (count l));
     Some (l\<lparr>timers := ts\<rparr>) }"

text \<open>The three lines that take out the root.\<close>

definition drop_root :: "BRTOS_TMR_T \<Rightarrow> BRTOS_TMR_T option" where
  "drop_root l = do {
     v \<leftarrow> rd (timers l) (unat (count l));
     ts \<leftarrow> wr (timers l) 1 v;
     ts \<leftarrow> wr ts (unat (count l)) None;
     Some (l\<lparr>timers := ts, count := (if count l > 0 then count l - 1 else count l)\<rparr>) }"

definition list_order :: "BRTOS_TIMER_T list \<Rightarrow> BRTOS_TMR_T \<Rightarrow> BRTOS_TMR_T option" where
  "list_order m l = map_option (\<lambda>ts. l\<lparr>timers := ts\<rparr>) (Descer m (timers l) 1 (unat (count l)))"

definition on_list :: "nat \<Rightarrow> (BRTOS_TMR_T \<Rightarrow> BRTOS_TMR_T option) \<Rightarrow> timer_vector \<Rightarrow> timer_vector option" where
  "on_list i f v = do { l \<leftarrow> rd (lists v) i; l \<leftarrow> f l; Some (v\<lparr>lists := (lists v)[i := l]\<rparr>) }"

definition set_timer :: "nat \<Rightarrow> (BRTOS_TIMER_T \<Rightarrow> BRTOS_TIMER_T) \<Rightarrow> timer_vector \<Rightarrow> timer_vector option" where
  "set_timer p f v = map_option (\<lambda>m. v\<lparr>mem := m\<rparr>) (upd (mem v) p f)"

definition root :: "nat \<Rightarrow> timer_vector \<Rightarrow> ptr option" where
  "root i v = do { l \<leftarrow> rd (lists v) i; rd (timers l) 1 }"

section \<open>The public functions\<close>

text \<open>The two list pointers and the blocks; the lists themselves are as they were at start-up.\<close>

definition BRTOS_TimerTaskInit :: "timer_vector \<Rightarrow> timer_vector" where
  "BRTOS_TimerTaskInit v = v\<lparr>current := 0, future := 1,
     mem := map (\<lambda>t. t\<lparr>state := TIMER_NOT_USED, func_cb := None, timeout := 0\<rparr>) (mem v)\<rparr>"

text \<open>Zero-initialised static storage.\<close>

definition boot_timers :: "nat \<Rightarrow> timer_vector" where
  "boot_timers N = \<lparr>mem = replicate N \<lparr>func_cb = None, timeout = 0, state = TIMER_NOT_ALLOCATED\<rparr>,
     lists = replicate 2 \<lparr>timers = replicate N None, count = 0\<rparr>, current = 0, future = 0, handling_task = 0\<rparr>"

text \<open>\<^verbatim>\<open>OSTimerInit\<close> never returns if the task cannot be installed: the result is \<^term>\<open>None\<close> then.\<close>

definition OSTimerInit :: "config \<Rightarrow> uint32_t \<Rightarrow> uint16_t \<Rightarrow> uint8_t \<Rightarrow> kernel \<Rightarrow> timer_vector \<Rightarrow> (kernel \<times> timer_vector) option" where
  "OSTimerInit C BRTOSTimerTask timertask_stacksize prio k v = do {
     let v = BRTOS_TimerTaskInit v;
     (r, _, k) \<leftarrow> OSInstallTask C BRTOSTimerTask ''BRTOS Timers Task'' timertask_stacksize prio 0 k;
     if r = OK then Some (k, v) else None }"

text \<open>The search for a free block: the error code, or its index.\<close>

fun find_block :: "BRTOS_TIMER_T list \<Rightarrow> nat \<Rightarrow> uint8_t + nat" where
  "find_block [] i = Inl NO_AVAILABLE_EVENT"
| "find_block (t # m) i =
    (if state t = TIMER_NOT_ALLOCATED then Inl ERR_EVENT_NO_CREATED
     else if state t = TIMER_NOT_USED then Inr i
     else find_block m (Suc i))"

text \<open>The common part of \<^verbatim>\<open>OSTimerSet\<close> and \<^verbatim>\<open>OSTimerStart\<close>: compute the time-out, insert the timer,
  and wake the timer task earlier if the new timer is among the first.\<close>

definition arm :: "nat \<Rightarrow> nat \<Rightarrow> ostick_t \<Rightarrow> kernel \<Rightarrow> timer_vector \<Rightarrow> (kernel \<times> timer_vector) option" where
  "arm N p time_wait k v = do {
     let t = (ucast (OSGetCount k) :: osdtick_t) + ucast time_wait;
     (k, v) \<leftarrow> (if t \<ge> ucast TICK_COUNT_OVERFLOW
       then do {
         v \<leftarrow> set_timer p (\<lambda>b. b\<lparr>timeout := ucast (t - ucast TICK_COUNT_OVERFLOW)\<rparr>) v;
         v \<leftarrow> on_list (future v) (list_add N (mem v) p) v;
         Some (k, v) }
       else do {
         v \<leftarrow> set_timer p (\<lambda>b. b\<lparr>timeout := ucast t\<rparr>) v;
         v \<leftarrow> on_list (current v) (list_add N (mem v) p) v;
         if currentTask k \<noteq> 0 then do {
           r \<leftarrow> root (current v) v;
           b \<leftarrow> deref (mem v) r;
           if ucast t = timeout b then do {
             ct \<leftarrow> upd (ContextTask k) (unat (handling_task v)) (\<lambda>x. x\<lparr>TimeToWait := ucast t\<rparr>);
             Some (k\<lparr>ContextTask := ct\<rparr>, v) }
           else Some (k, v) }
         else Some (k, v) });
     v \<leftarrow> set_timer p (\<lambda>b. b\<lparr>state := TIMER_RUNNING\<rparr>) v;
     Some (k, v) }"

text \<open>\<open>cbp\<close> is the pointer to the caller's variable: \<^term>\<open>None\<close> if it is null, otherwise the variable's value.\<close>

definition OSTimerSet :: "nat \<Rightarrow> ptr option \<Rightarrow> ptr \<Rightarrow> ostick_t \<Rightarrow> kernel \<Rightarrow> timer_vector \<Rightarrow>
    (uint8_t \<times> ptr option \<times> kernel \<times> timer_vector) option" where
  "OSTimerSet N cbp cb time_wait k v =
    (if cb = None \<or> cbp = None then Some (NULL_EVENT_POINTER, cbp, k, v)
     else case find_block (mem v) 0 of
       Inl e \<Rightarrow> Some (e, cbp, k, v)
     | Inr p \<Rightarrow> do {
         v \<leftarrow> set_timer p (\<lambda>b. b\<lparr>state := TIMER_STOPPED, func_cb := cb\<rparr>) v;
         (k, v) \<leftarrow> (if time_wait > 0 then arm N p time_wait k v else Some (k, v));
         Some (OK, Some (Some p), k, v) })"

definition OSTimerGet :: "ptr \<Rightarrow> kernel \<Rightarrow> timer_vector \<Rightarrow> ostick_t option" where
  "OSTimerGet p k v = (case p of
     None \<Rightarrow> Some 0
   | Some i \<Rightarrow> do {
       b \<leftarrow> rd (mem v) i;
       Some (if state b = TIMER_RUNNING
             then let tickcount = OSGetCount k in
               if timeout b \<ge> tickcount then timeout b - tickcount
               else TIMER_MAX_COUNTER - tickcount + timeout b + 1
             else 0) })"

definition OSTimerStart :: "nat \<Rightarrow> ptr \<Rightarrow> ostick_t \<Rightarrow> kernel \<Rightarrow> timer_vector \<Rightarrow> (uint8_t \<times> kernel \<times> timer_vector) option" where
  "OSTimerStart N p time_wait k v = (case p of
     None \<Rightarrow> Some (NULL_EVENT_POINTER, k, v)
   | Some i \<Rightarrow>
      if time_wait \<noteq> 0 then do {
        let time_wait = (if time_wait > TIMER_MAX_COUNTER then TIMER_MAX_COUNTER else time_wait);
        (k, v) \<leftarrow> arm N i time_wait k v;
        Some (OK, k, v) }
      else Some (NULL_EVENT_POINTER, k, v))"

text \<open>The index of the timer that is marked \<^verbatim>\<open>TIMER_SEARCH\<close>, or one more than the last index.\<close>

function search_timer :: "BRTOS_TIMER_T list \<Rightarrow> BRTOS_TMR_T \<Rightarrow> nat \<Rightarrow> nat option" where
  "search_timer m l pos =
    (if pos \<le> unat (count l) then do {
       p \<leftarrow> rd (timers l) pos;
       b \<leftarrow> deref m p;
       if state b = TIMER_SEARCH then Some pos else search_timer m l (Suc pos) }
     else Some pos)"
  by pat_completeness auto
termination by (relation "measure (\<lambda>(_, l, pos). Suc (unat (count l)) - pos)") auto

declare search_timer.simps [simp del]

definition list_remove :: "BRTOS_TIMER_T list \<Rightarrow> BRTOS_TIMER_T list \<Rightarrow> BRTOS_TMR_T \<Rightarrow> BRTOS_TMR_T option" where
  "list_remove m m0 l = do {
     pos_timer \<leftarrow> search_timer m l 1;
     ts \<leftarrow> Subir m0 (timers l) pos_timer;
     l \<leftarrow> drop_root (l\<lparr>timers := ts\<rparr>);
     list_order m0 l }"

definition OSTimerStop :: "ptr \<Rightarrow> uint8_t \<Rightarrow> kernel \<Rightarrow> timer_vector \<Rightarrow> (uint8_t \<times> timer_vector) option" where
  "OSTimerStop p del k v = (case p of
     None \<Rightarrow> Some (NULL_EVENT_POINTER, v)
   | Some i \<Rightarrow> do {
       b \<leftarrow> rd (mem v) i;
       let l = (if timeout b \<ge> OSGetCount k then current v else future v);
       v1 \<leftarrow> set_timer i (\<lambda>b. b\<lparr>state := TIMER_SEARCH\<rparr>) v;
       v2 \<leftarrow> set_timer i (\<lambda>b. b\<lparr>timeout := 0\<rparr>) v1;
       v \<leftarrow> on_list l (list_remove (mem v1) (mem v2)) v2;
       v \<leftarrow> set_timer i (\<lambda>b. if del > 0 then b\<lparr>state := TIMER_NOT_USED, func_cb := None\<rparr> else b\<lparr>state := TIMER_STOPPED\<rparr>) v;
       Some (OK, v) })"

section \<open>The timer task\<close>

definition BRTOS_TimerTaskSleep :: "config \<Rightarrow> ostick_t \<Rightarrow> kernel \<Rightarrow> kernel option" where
  "BRTOS_TimerTaskSleep C next_time_to_wake k = do {
     let Task = unat (currentTask k);
     ct \<leftarrow> upd (ContextTask k) Task (\<lambda>t. t\<lparr>TimeToWait := next_time_to_wake\<rparr>);
     k \<leftarrow> IncludeTaskIntoDelayList Task (k\<lparr>ContextTask := ct\<rparr>);
     k \<leftarrow> set_suspended C Task DELAY k;
     t \<leftarrow> rd (ContextTask k) Task;
     m \<leftarrow> rd PriorityMask (unat (Priority t));
     ChangeContext C (k\<lparr>OSReadyList := OSReadyList k AND NOT m\<rparr>) }"

text \<open>An expired timer is stopped and its callback runs; the result is the time to repeat.\<close>

definition run_callback :: "callbacks \<Rightarrow> nat \<Rightarrow> kernel \<Rightarrow> timer_vector \<Rightarrow> (ostick_t \<times> kernel \<times> timer_vector) option" where
  "run_callback cb p k v = do {
     v \<leftarrow> set_timer p (\<lambda>b. b\<lparr>state := TIMER_STOPPED\<rparr>) v;
     b \<leftarrow> rd (mem v) p;
     Some (case func_cb b of Some f \<Rightarrow> cb f k v | None \<Rightarrow> (0, k, v)) }"

definition to_future :: "nat \<Rightarrow> nat \<Rightarrow> nat \<Rightarrow> ostick_t \<Rightarrow> timer_vector \<Rightarrow> timer_vector option" where
  "to_future N li p t v = do {
     v \<leftarrow> set_timer p (\<lambda>b. b\<lparr>timeout := t\<rparr>) v;
     v \<leftarrow> on_list (future v) (list_add N (mem v) p) v;
     on_list li drop_root v }"

definition retire :: "nat \<Rightarrow> nat \<Rightarrow> timer_vector \<Rightarrow> timer_vector option" where
  "retire li p v = do {
     v \<leftarrow> set_timer p (\<lambda>b. b\<lparr>timeout := 0, state := TIMER_NOT_USED, func_cb := None\<rparr>) v;
     on_list li drop_root v }"

text \<open>The bodies of the two loops: the callback runs, the timer is put where it belongs, and the list is ordered. In
  the first loop the tick counter has wrapped while the task waited, and a timer that repeats goes to the
  future list.\<close>

definition expire_rest :: "callbacks \<Rightarrow> nat \<Rightarrow> nat \<Rightarrow> nat \<Rightarrow> osdtick_t \<times> kernel \<times> timer_vector \<Rightarrow>
    (osdtick_t \<times> kernel \<times> timer_vector) option" where
  "expire_rest cb N li p s = (case s of (tmo, k, v) \<Rightarrow> do {
     (repeat, k, v) \<leftarrow> run_callback cb p k v;
     (tmo, v) \<leftarrow> (if repeat > 0
        then do {
          v \<leftarrow> set_timer p (\<lambda>b. b\<lparr>state := TIMER_RUNNING\<rparr>) v;
          let tmo = (ucast (OSGetTickCount k) :: osdtick_t) + ucast repeat;
          v \<leftarrow> to_future N li p (ucast tmo) v;
          Some (tmo, v) }
        else map_option (Pair tmo) (retire li p v));
     v \<leftarrow> on_list li (list_order (mem v)) v;
     Some (tmo, k, v) })"

definition expire_due :: "callbacks \<Rightarrow> nat \<Rightarrow> nat \<Rightarrow> nat \<Rightarrow> osdtick_t \<times> kernel \<times> timer_vector \<Rightarrow>
    (osdtick_t \<times> kernel \<times> timer_vector) option" where
  "expire_due cb N li p s = (case s of (tmo, k, v) \<Rightarrow> do {
     (repeat, k, v) \<leftarrow> run_callback cb p k v;
     (tmo, v) \<leftarrow> (if repeat > 0
        then do {
          v \<leftarrow> set_timer p (\<lambda>b. b\<lparr>state := TIMER_RUNNING\<rparr>) v;
          let tmo = (ucast (OSGetTickCount k) :: osdtick_t) + ucast repeat;
          v \<leftarrow> (if tmo \<ge> ucast TICK_COUNT_OVERFLOW
                then to_future N li p (ucast (tmo - ucast TICK_COUNT_OVERFLOW)) v
                else set_timer p (\<lambda>b. b\<lparr>timeout := ucast tmo\<rparr>) v);
          Some (tmo, v) }
        else map_option (Pair tmo) (retire li p v));
     v \<leftarrow> on_list li (list_order (mem v)) v;
     Some (tmo, k, v) })"

partial_function (option) run_rest :: "callbacks \<Rightarrow> nat \<Rightarrow> nat \<Rightarrow> ptr \<Rightarrow> osdtick_t \<times> kernel \<times> timer_vector \<Rightarrow>
    (osdtick_t \<times> kernel \<times> timer_vector) option" where
  "run_rest cb N li p s = (case p of
     None \<Rightarrow> Some s
   | Some i \<Rightarrow>
       Option.bind (expire_rest cb N li i s) (\<lambda>s.
       Option.bind (root li (snd (snd s))) (\<lambda>p. run_rest cb N li p s)))"

partial_function (option) run_due :: "callbacks \<Rightarrow> nat \<Rightarrow> nat \<Rightarrow> ptr \<Rightarrow> osdtick_t \<times> kernel \<times> timer_vector \<Rightarrow>
    (ptr \<times> osdtick_t \<times> kernel \<times> timer_vector) option" where
  "run_due cb N li p s = (case p of
     None \<Rightarrow> Some (p, s)
   | Some i \<Rightarrow>
       Option.bind (rd (mem (snd (snd s))) i) (\<lambda>b.
       if timeout b \<le> OSGetTickCount (fst (snd s))
       then Option.bind (expire_due cb N li i s) (\<lambda>s.
            Option.bind (root li (snd (snd s))) (\<lambda>p. run_due cb N li p s))
       else Some (p, s)))"

definition switch_lists :: "timer_vector \<Rightarrow> timer_vector" where
  "switch_lists v = v\<lparr>current := future v, future := current v\<rparr>"

definition next_wake :: "ptr \<Rightarrow> timer_vector \<Rightarrow> ostick_t option" where
  "next_wake p v = (case p of Some i \<Rightarrow> map_option timeout (rd (mem v) i) | None \<Rightarrow> Some TIMER_MAX_COUNTER)"

text \<open>The rest of a turn from the loop over the timers that are due: the lists are switched if the current one is
  empty and the last repetition went beyond the counter, and the next wake-up is chosen. The local variable
  \<^verbatim>\<open>timeout\<close> lives across the turns.\<close>

definition finish_turn :: "callbacks \<Rightarrow> nat \<Rightarrow> nat \<Rightarrow> ptr \<Rightarrow> osdtick_t \<times> kernel \<times> timer_vector \<Rightarrow>
    (ostick_t \<times> osdtick_t \<times> kernel \<times> timer_vector) option" where
  "finish_turn cb N li p s = do {
     (p, tmo, k, v) \<leftarrow> run_due cb N li p s;
     (p, v) \<leftarrow> (if tmo > ucast TIMER_MAX_COUNTER \<and> p = None
       then do {
         let v = switch_lists v;
         p \<leftarrow> root (current v) v;
         Some (p, v) }
       else Some (p, v));
     w \<leftarrow> next_wake p v;
     Some (w, tmo, k, v) }"

text \<open>The task up to its first sleep, and one turn of its loop from a wake-up to the next sleep.\<close>

definition BRTOSTimerTask :: "kernel \<Rightarrow> timer_vector \<Rightarrow> (ostick_t \<times> timer_vector) option" where
  "BRTOSTimerTask k v = do {
     let v = v\<lparr>handling_task := currentTask k\<rparr>;
     p \<leftarrow> root (current v) v;
     w \<leftarrow> next_wake p v;
     Some (w, v) }"

definition BRTOSTimerTask_wake :: "callbacks \<Rightarrow> nat \<Rightarrow> osdtick_t \<Rightarrow> kernel \<Rightarrow> timer_vector \<Rightarrow>
    (ostick_t \<times> osdtick_t \<times> kernel \<times> timer_vector) option" where
  "BRTOSTimerTask_wake cb N tmo k v = do {
     let li = current v;
     p \<leftarrow> root li v;
     late \<leftarrow> (case p of None \<Rightarrow> Some False | Some i \<Rightarrow> map_option (\<lambda>b. timeout b > OSGetTickCount k) (rd (mem v) i));
     if late
     then do {
       (tmo, k, v) \<leftarrow> run_rest cb N li p (tmo, k, v);
       let v = switch_lists v;
       p \<leftarrow> root (current v) v;
       finish_turn cb N (current v) p (tmo, k, v) }
     else finish_turn cb N li p (tmo, k, v) }"

section \<open>Invariant\<close>

definition armed :: "BRTOS_TMR_T \<Rightarrow> nat set" where
  "armed l = {p. Some p \<in> set (timers l)}"

text \<open>The entries \<open>1\<dots>count\<close> are exactly the used ones, and no timer has two of them.\<close>

definition list_shape :: "nat \<Rightarrow> BRTOS_TIMER_T list \<Rightarrow> BRTOS_TMR_T \<Rightarrow> bool" where
  "list_shape N m l \<longleftrightarrow> length (timers l) = N \<and> unat (count l) < N \<and> 2 \<le> N \<and> N \<le> 128 \<and>
     (\<forall>i < N. timers l ! i = None \<longleftrightarrow> i = 0 \<or> unat (count l) < i) \<and>
     (\<forall>p \<in> armed l. p < length m) \<and> (\<forall>p. Multiset.count (mset (timers l)) (Some p) \<le> 1)"

definition list_ok :: "nat \<Rightarrow> BRTOS_TIMER_T list \<Rightarrow> BRTOS_TMR_T \<Rightarrow> bool" where
  "list_ok N m l \<longleftrightarrow> list_shape N m l \<and> heap m (timers l) (unat (count l))"

lemma list_shape_entry:
  assumes "list_shape N m l" and "1 \<le> i" and "i \<le> unat (count l)"
  obtains p where "timers l ! i = Some p" and "p \<in> armed l" and "p < length m"
proof -
  from assms have i: "i < N" and l: "length (timers l) = N" by (simp_all add: list_shape_def)
  from assms i have "timers l ! i \<noteq> None" by (simp add: list_shape_def)
  then obtain p where p: "timers l ! i = Some p" by blast
  with i l have "p \<in> armed l" unfolding armed_def by (metis (mono_tags) mem_Collect_eq nth_mem)
  with p that assms(1) show ?thesis by (auto simp: list_shape_def)
qed

lemma list_shape_full: "list_shape N m l \<Longrightarrow> full m (timers l) (unat (count l))"
  unfolding full_def by (metis list_shape_entry list_shape_def)

lemma list_shape_shuffled:
  assumes s: "list_shape N m l" and h: "shuffled (unat (count l)) (timers l) ts" and f: "full m ts (unat (count l))"
  shows "list_shape N m (l\<lparr>timers := ts\<rparr>)" and "armed (l\<lparr>timers := ts\<rparr>) = armed l"
proof -
  have m: "mset ts = mset (timers l)" and len: "length ts = length (timers l)"
    and o: "\<And>i. i = 0 \<or> unat (count l) < i \<Longrightarrow> ts ! i = timers l ! i" using h by (auto simp: shuffled_def)
  then have "set ts = set (timers l)" by (metis set_mset_mset)
  then show a: "armed (l\<lparr>timers := ts\<rparr>) = armed l" by (simp add: armed_def)
  have "ts ! i = None \<longleftrightarrow> i = 0 \<or> unat (count l) < i" if "i < N" for i
  proof (cases "i = 0 \<or> unat (count l) < i")
    case True
    with o [OF True] s that show ?thesis by (auto simp: list_shape_def)
  next
    case False
    then have "1 \<le> i" "i \<le> unat (count l)" by simp_all
    with f have "ts ! i \<noteq> None" by (auto simp: full_def)
    with False show ?thesis by blast
  qed
  with s a m len show "list_shape N m (l\<lparr>timers := ts\<rparr>)" by (simp add: list_shape_def)
qed

lemma armed_nth:
  assumes "list_shape N m l"
  shows "p \<in> armed l \<longleftrightarrow> (\<exists>i. 1 \<le> i \<and> i \<le> unat (count l) \<and> timers l ! i = Some p)"
proof
  assume "p \<in> armed l"
  then obtain i where i: "i < length (timers l)" "timers l ! i = Some p" by (auto simp: armed_def in_set_conv_nth)
  with assms have "\<not> (i = 0 \<or> unat (count l) < i)" by (auto simp: list_shape_def)
  with i show "\<exists>i. 1 \<le> i \<and> i \<le> unat (count l) \<and> timers l ! i = Some p" by (intro exI [of _ i]) simp
next
  assume "\<exists>i. 1 \<le> i \<and> i \<le> unat (count l) \<and> timers l ! i = Some p"
  with list_shape_entry [OF assms] show "p \<in> armed l" by (metis option.inject)
qed

text \<open>Only the time-outs of the armed timers matter.\<close>

lemma heap_cong:
  assumes "list_shape N m l" and "\<forall>p \<in> armed l. timeout (m' ! p) = timeout (m ! p)"
  shows "heap m' (timers l) (unat (count l)) = heap m (timers l) (unat (count l))"
    and "heap_but_down m' (timers l) (unat (count l)) 1 = heap_but_down m (timers l) (unat (count l)) 1"
proof -
  have k: "key m' (timers l) i = key m (timers l) i" if "1 \<le> i" "i \<le> unat (count l)" for i
  proof -
    from list_shape_entry [OF assms(1) that] obtain p where p: "timers l ! i = Some p" "p \<in> armed l" .
    with assms(2) show ?thesis by (simp add: key_def)
  qed
  then show "heap m' (timers l) (unat (count l)) = heap m (timers l) (unat (count l))"
    by (auto simp: heap_def)
  show "heap_but_down m' (timers l) (unat (count l)) 1 = heap_but_down m (timers l) (unat (count l)) 1"
    using k by (auto simp: heap_but_down_def)
qed

lemma list_shape_mem: "list_shape N m l \<Longrightarrow> length m' = length m \<Longrightarrow> list_shape N m' l"
  by (simp add: list_shape_def)

section \<open>Insertion\<close>

lemma unat_next: "unat (c + 1) = Suc (unat c)" if "unat c < 255" for c :: uint8_t
  using that by (simp add: unat_word_ariths)

lemma armed_count: "p \<in> armed l \<longleftrightarrow> 0 < Multiset.count (mset (timers l)) (Some p)"
  by (simp add: armed_def)

text \<open>Writing an entry that was free.\<close>

lemma armed_fill:
  assumes "list_shape N m l" and "i < N" and "timers l ! i = None"
  shows "armed (l\<lparr>timers := (timers l)[i := Some p]\<rparr>) = insert p (armed l)"
    and "Multiset.count (mset ((timers l)[i := Some p])) (Some q) = Multiset.count (mset (timers l)) (Some q) + (if q = p then 1 else 0)"
proof -
  have i: "i < length (timers l)" using assms by (simp add: list_shape_def)
  have "mset ((timers l)[i := Some p]) = add_mset (Some p) (mset (timers l) - {#None#})" using i assms(3) by (simp add: mset_update)
  then show c: "Multiset.count (mset ((timers l)[i := Some p])) (Some q) = Multiset.count (mset (timers l)) (Some q) + (if q = p then 1 else 0)" for q
    by simp
  have "x \<in> armed (l\<lparr>timers := (timers l)[i := Some p]\<rparr>) \<longleftrightarrow> x \<in> insert p (armed l)" for x
    using c [of x] by (simp add: armed_count)
  then show "armed (l\<lparr>timers := (timers l)[i := Some p]\<rparr>) = insert p (armed l)" by blast
qed

lemma list_add_spec:
  assumes l: "list_ok N m l" and r: "unat (count l) < N - 1" and p: "p < length m" "p \<notin> armed l"
  obtains l' where "list_add N m p l = Some l'" and "list_ok N m l'" and "armed l' = insert p (armed l)"
    and "unat (count l') = Suc (unat (count l))"
proof -
  let ?c = "unat (count l)" let ?ts = "(timers l)[Suc ?c := Some p]" let ?l = "l\<lparr>timers := ?ts, count := count l + 1\<rparr>"
  from l have s: "list_shape N m l" and h: "heap m (timers l) ?c" by (simp_all add: list_ok_def)
  from s have n: "length (timers l) = N" "N \<le> 128" and e: "timers l ! Suc ?c = None" using r by (simp_all add: list_shape_def)
  have c: "unat (count l + 1) = Suc ?c" using r n by (intro unat_next) simp
  have np: "Multiset.count (mset (timers l)) (Some p) = 0" using p(2) by (simp add: armed_def count_eq_zero_iff)
  note a = armed_fill [OF s _ e, of p]
  have s': "list_shape N m ?l"
    using s r p(1) a np c unfolding list_shape_def armed_def by (auto simp: nth_list_update)
  have k: "key m ?ts i = key m (timers l) i" if "i \<le> ?c" for i using that by (simp add: key_def)
  have "heap_but_up m ?ts (Suc ?c) (Suc ?c)"
    using h unfolding heap_but_up_def heap_def by (auto simp: k le_Suc_eq)
  moreover have "full m ?ts (Suc ?c)" using list_shape_full [OF s'] c by simp
  ultimately obtain ts' where
    t: "Subir m ?ts (Suc ?c) = Some ts'" "full m ts' (Suc ?c)" "heap m ts' (Suc ?c)" "shuffled (Suc ?c) ?ts ts'"
    using Subir_spec [of m ?ts "Suc ?c" "Suc ?c"] by auto
  have "list_add N m p l = Some (?l\<lparr>timers := ts'\<rparr>)" using r n t(1) c by (simp add: list_add_def)
  moreover have "list_ok N m (?l\<lparr>timers := ts'\<rparr>)" "armed (?l\<lparr>timers := ts'\<rparr>) = armed ?l"
    using list_shape_shuffled [OF s', of ts'] t c by (simp_all add: list_ok_def)
  moreover have "armed ?l = insert p (armed l)" using a(1) r by (simp add: armed_def)
  ultimately show ?thesis using that c by simp
qed

lemma Subir_mset: "Subir m ts i = Some ts' \<Longrightarrow> mset ts' = mset ts"
proof (induction i arbitrary: ts rule: less_induct)
  case (less i)
  show ?case
  proof (cases "i > 1 \<and> (\<exists>x y. entry_timeout m ts (PAI i) = Some x \<and> entry_timeout m ts i = Some y \<and> x > y)")
    case True
    then obtain x y where xy: "i > 1" "entry_timeout m ts (PAI i) = Some x" "entry_timeout m ts i = Some y" "x > y" by blast
    then have b: "i < length ts" "PAI i < length ts" by (auto simp: entry_timeout_def rd_eq_Some split: bind_splits)
    have "Subir m (swap_entries ts (PAI i) i) (PAI i) = Some ts'" using less.prems xy by (subst (asm) Subir.simps) simp
    with less.IH [of "PAI i"] xy(1) have "mset ts' = mset (swap_entries ts (PAI i) i)" by (simp add: PAI_def)
    also have "\<dots> = mset ts" unfolding swap_entries_def using b by (subst mset_swap) simp_all
    finally show ?thesis .
  next
    case False
    with less.prems show ?thesis by (subst (asm) Subir.simps) (auto split: bind_splits if_splits)
  qed
qed

text \<open>A full list does not refuse: the new timer takes the last entry, and the timer there is lost.\<close>

lemma list_add_full:
  assumes s: "list_shape N m l" and c: "unat (count l) = N - 1" "2 \<le> N" and q: "timers l ! (N - 1) = Some q" and a: "list_add N m p l = Some l'"
    and p: "p \<noteq> q"
  shows "q \<in> armed l" and "q \<notin> armed l'"
proof -
  have n: "length (timers l) = N" "N - 1 < N" using s c by (auto simp: list_shape_def)
  then show "q \<in> armed l" using q by (metis armed_def mem_Collect_eq nth_mem)
  have one: "Multiset.count (mset (timers l)) (Some q) \<le> 1" using s by (simp add: list_shape_def)
  let ?ts = "(timers l)[N - 1 := Some p]"
  have "mset ?ts = add_mset (Some p) (mset (timers l) - {#Some q#})" using n q by (simp add: mset_update)
  then have z: "Multiset.count (mset ?ts) (Some q) = 0" using one p by simp
  from a c n obtain ts' where "Subir m ?ts (N - 1) = Some ts'" "timers l' = ts'"
    by (auto simp: list_add_def split: bind_splits)
  with Subir_mset z show "q \<notin> armed l'" by (metis armed_count less_irrefl)
qed

section \<open>Removal of the root\<close>

lemma drop_root_spec:
  assumes s: "list_shape N m l" and h: "heap_but_down m (timers l) (unat (count l)) 1" and c: "0 < unat (count l)"
    and q: "timers l ! 1 = Some q"
  obtains l' where "drop_root l = Some l'" and "list_shape N m l'" and "heap_but_down m (timers l') (unat (count l')) 1"
    and "armed l' = armed l - {q}" and "unat (count l') = unat (count l) - 1"
proof -
  let ?c = "unat (count l)" let ?ts = "(timers l)[1 := timers l ! ?c, ?c := None]" let ?l = "l\<lparr>timers := ?ts, count := count l - 1\<rparr>"
  have n: "length (timers l) = N" "?c < N" "1 < N" using s c by (auto simp: list_shape_def)
  have c0: "0 < count l" using c by (simp add: word_gt_0 unat_gt_0)
  then have u: "unat (count l - 1) = ?c - 1" by (metis unat_minus_one word_gt_0)
  have "drop_root l = Some ?l" using n c0 by (simp add: drop_root_def)
  moreover have m: "mset ?ts = add_mset None (mset (timers l) - {#Some q#})"
  proof (cases "?c = 1")
    case True
    with n q show ?thesis by (simp add: mset_update)
  next
    case False
    have "mset ((timers l)[1 := timers l ! ?c]) = add_mset (timers l ! ?c) (mset (timers l) - {#Some q#})"
      using n q by (simp add: mset_update)
    moreover have "(timers l)[1 := timers l ! ?c] ! ?c = timers l ! ?c" using False by simp
    ultimately show ?thesis using n by (simp add: mset_update)
  qed
  moreover have a: "armed ?l = armed l - {q}"
  proof -
    have one: "Multiset.count (mset (timers l)) (Some q) \<le> 1" using s by (simp add: list_shape_def)
    have "x \<in> armed ?l \<longleftrightarrow> x \<in> armed l - {q}" for x
      using m one by (cases "x = q") (simp_all add: armed_count)
    then show ?thesis by blast
  qed
  moreover have mc: "Multiset.count (mset ?ts) (Some p) \<le> 1" for p
    unfolding m using s by (auto simp: list_shape_def le_diff_conv le_SucI)
  moreover have "list_shape N m ?l"
    unfolding list_shape_def a
  proof (intro conjI allI impI ballI)
    fix i assume i: "i < N"
    show "timers ?l ! i = None \<longleftrightarrow> i = 0 \<or> unat (count ?l) < i"
      using s n c i u unfolding list_shape_def by (auto simp: nth_list_update)
  next
    show "Multiset.count (mset (timers ?l)) (Some p) \<le> 1" for p using mc by simp
  qed (use s n u in \<open>auto simp: list_shape_def\<close>)
  moreover have "heap_but_down m ?ts (?c - 1) 1"
  proof -
    have k: "key m ?ts i = key m (timers l) i" if "2 \<le> i" "i < ?c" for i using that by (simp add: key_def)
    show ?thesis unfolding heap_but_down_def
    proof (intro conjI allI impI)
      fix i assume i: "2 \<le> i \<and> i \<le> ?c - 1 \<and> i div 2 \<noteq> 1"
      then have b: "2 \<le> i div 2" "i div 2 < ?c" "2 \<le> i" "i < ?c" by auto
      show "key m ?ts (i div 2) \<le> key m ?ts i" unfolding k [OF b(1,2)] k [OF b(3,4)] using h i b by (auto simp: heap_but_down_def)
    qed simp
  qed
  ultimately show ?thesis using that [of ?l] u by simp
qed

lemma list_order_spec:
  assumes s: "list_shape N m l" and h: "heap_but_down m (timers l) (unat (count l)) 1"
  obtains l' where "list_order m l = Some l'" and "list_ok N m l'" and "armed l' = armed l" and "count l' = count l"
proof -
  have "unat (count l) \<le> 127" using s by (simp add: list_shape_def)
  from Descer_spec [OF this list_shape_full [OF s] h] obtain ts where
    "Descer m (timers l) 1 (unat (count l)) = Some ts" "full m ts (unat (count l))" "heap m ts (unat (count l))"
    "shuffled (unat (count l)) (timers l) ts" by auto
  with list_shape_shuffled [OF s, of ts] that [of "l\<lparr>timers := ts\<rparr>"] show ?thesis by (simp add: list_order_def list_ok_def)
qed

section \<open>The whole timer service\<close>

text \<open>
  Consistent timers: two heaps that share no timer, at most \<open>N - 1\<close> running timers, which are
  exactly the timers in the lists.
\<close>

definition timers_ok :: "nat \<Rightarrow> timer_vector \<Rightarrow> bool" where
  "timers_ok N v \<longleftrightarrow> length (mem v) = N \<and> length (lists v) = 2 \<and> current v < 2 \<and> future v < 2 \<and> current v \<noteq> future v \<and>
     list_ok N (mem v) (lists v ! current v) \<and> list_ok N (mem v) (lists v ! future v) \<and>
     armed (lists v ! current v) \<inter> armed (lists v ! future v) = {} \<and>
     unat (count (lists v ! current v)) + unat (count (lists v ! future v)) < N \<and>
     (\<forall>p < N. state (mem v ! p) = TIMER_RUNNING \<longleftrightarrow> p \<in> armed (lists v ! current v) \<union> armed (lists v ! future v)) \<and>
     (\<forall>p < N. state (mem v ! p) \<noteq> TIMER_SEARCH)"

abbreviation cur_armed :: "timer_vector \<Rightarrow> nat set" where "cur_armed v \<equiv> armed (lists v ! current v)"
abbreviation fut_armed :: "timer_vector \<Rightarrow> nat set" where "fut_armed v \<equiv> armed (lists v ! future v)"

lemma timers_okD:
  assumes "timers_ok N v"
  shows "length (mem v) = N" and "length (lists v) = 2" and "current v < 2" and "future v < 2" and "current v \<noteq> future v"
    and "list_ok N (mem v) (lists v ! current v)" and "list_ok N (mem v) (lists v ! future v)"
    and "cur_armed v \<inter> fut_armed v = {}"
    and "unat (count (lists v ! current v)) + unat (count (lists v ! future v)) < N"
    and "p < N \<Longrightarrow> state (mem v ! p) = TIMER_RUNNING \<longleftrightarrow> p \<in> cur_armed v \<union> fut_armed v"
    and "p < N \<Longrightarrow> state (mem v ! p) \<noteq> TIMER_SEARCH"
  using assms by (simp_all add: timers_ok_def)

lemma list_ok_shape: "list_ok N m l \<Longrightarrow> list_shape N m l"
  by (simp add: list_ok_def)

lemma entries_distinct:
  assumes s: "list_shape N m l" and a: "a < N" "timers l ! a = Some p" and b: "b < N" "timers l ! b = Some p"
  shows "a = b"
proof (rule ccontr)
  assume ne: "a \<noteq> b"
  have n: "length (timers l) = N" and one: "Multiset.count (mset (timers l)) (Some p) \<le> 1" using s by (simp_all add: list_shape_def)
  have "mset ((timers l)[a := None]) = add_mset None (mset (timers l) - {#Some p#})" using n a by (simp add: mset_update)
  then have "Multiset.count (mset ((timers l)[a := None])) (Some p) = 0" using one by simp
  then have "Some p \<notin> set ((timers l)[a := None])" by (metis count_eq_zero_iff set_mset_mset)
  moreover have "(timers l)[a := None] ! b = Some p" using ne b by simp
  ultimately show False using n b(1) by (metis length_list_update nth_mem)
qed

text \<open>A list stays a heap when timers outside it change, and a heap but for its root when the root's timer changes.\<close>

lemma list_ok_outside:
  assumes "list_ok N m l" and "length m' = length m" and "\<forall>p \<in> armed l. timeout (m' ! p) = timeout (m ! p)"
  shows "list_ok N m' l"
  using assms heap_cong(1) [OF list_ok_shape] list_shape_mem by (auto simp: list_ok_def)

lemma list_ok_root:
  assumes l: "list_ok N m l" and m: "length m' = length m" "\<forall>p. p \<noteq> q \<longrightarrow> timeout (m' ! p) = timeout (m ! p)" and r: "timers l ! 1 = Some q"
  shows "list_shape N m' l" and "heap_but_down m' (timers l) (unat (count l)) 1"
proof -
  note s = list_ok_shape [OF l]
  show "list_shape N m' l" by (rule list_shape_mem [OF s m(1)])
  have k: "key m' (timers l) i = key m (timers l) i" if i: "2 \<le> i" "i \<le> unat (count l)" for i
  proof -
    have "1 \<le> i" using i by simp
    from list_shape_entry [OF s this i(2)] obtain p where p: "timers l ! i = Some p" .
    have "i < N" "1 < N" using s i by (auto simp: list_shape_def)
    with entries_distinct [OF s _ _ _ r, of i] p i have "p \<noteq> q" by auto
    with m(2) p show ?thesis by (simp add: key_def)
  qed
  show "heap_but_down m' (timers l) (unat (count l)) 1" unfolding heap_but_down_def
  proof (intro conjI allI impI)
    fix i assume i: "2 \<le> i \<and> i \<le> unat (count l) \<and> i div 2 \<noteq> 1"
    then have b: "2 \<le> i div 2" "i div 2 \<le> unat (count l)" by auto
    with l i show "key m' (timers l) (i div 2) \<le> key m' (timers l) i" by (simp add: k list_ok_def heap_def)
  qed simp
qed

lemma root_armed:
  assumes l: "list_ok N m l" and r: "timers l ! 1 = Some q"
  shows "0 < unat (count l)" and "q \<in> armed l" and "q < length m" and "\<forall>p \<in> armed l. timeout (m ! q) \<le> timeout (m ! p)"
proof -
  note s = list_ok_shape [OF l]
  have n: "1 < N" using s by (simp add: list_shape_def)
  with s r show c: "0 < unat (count l)" by (auto simp: list_shape_def)
  have o: "1 \<le> unat (count l)" using c by simp
  from list_shape_entry [OF s le_refl o] r show "q \<in> armed l" "q < length m" by (metis option.inject)+
  show "\<forall>p \<in> armed l. timeout (m ! q) \<le> timeout (m ! p)"
  proof
    fix p assume "p \<in> armed l"
    with armed_nth [OF s] obtain i where i: "1 \<le> i" "i \<le> unat (count l)" "timers l ! i = Some p" by blast
    have "heap m (timers l) (unat (count l))" using l by (simp add: list_ok_def)
    from heap_root [OF this i(1,2)] r i(3) show "timeout (m ! q) \<le> timeout (m ! p)" by (simp add: key_def)
  qed
qed

lemma root_empty:
  assumes l: "list_ok N m l" and r: "timers l ! 1 = None"
  shows "armed l = {}"
proof -
  note s = list_ok_shape [OF l]
  have "unat (count l) = 0" using s r by (auto simp: list_shape_def)
  with armed_nth [OF s] show ?thesis by auto
qed

lemma drop_order:
  assumes l: "list_ok N m l" and m: "length m' = length m" "\<forall>p. p \<noteq> q \<longrightarrow> timeout (m' ! p) = timeout (m ! p)" and r: "timers l ! 1 = Some q"
  obtains l1 l2 where "drop_root l = Some l1" and "list_order m' l1 = Some l2" and "list_ok N m' l2"
    and "armed l2 = armed l - {q}" and "unat (count l2) = unat (count l) - 1"
proof -
  note lr = list_ok_root [OF l m r]
  from drop_root_spec [OF lr root_armed(1) [OF l r] r] obtain l1 where
    l1: "drop_root l = Some l1" "list_shape N m' l1" "heap_but_down m' (timers l1) (unat (count l1)) 1"
      "armed l1 = armed l - {q}" "unat (count l1) = unat (count l) - 1" .
  from list_order_spec [OF l1(2,3)] obtain l2 where "list_order m' l1 = Some l2" "list_ok N m' l2" "armed l2 = armed l1" "count l2 = count l1" .
  with that l1 show ?thesis by simp
qed

lemma reorder:
  assumes l: "list_ok N m l" and m: "length m' = length m" "\<forall>p. p \<noteq> q \<longrightarrow> timeout (m' ! p) = timeout (m ! p)" and r: "timers l ! 1 = Some q"
  obtains l' where "list_order m' l = Some l'" and "list_ok N m' l'" and "armed l' = armed l" and "count l' = count l"
  using list_order_spec [OF list_ok_root [OF l m r]] by blast

text \<open>The state that \<^verbatim>\<open>OSTimerInit\<close> leaves.\<close>

lemma list_ok_empty: "2 \<le> N \<Longrightarrow> N \<le> 128 \<Longrightarrow> list_ok N m \<lparr>timers = replicate N None, count = 0\<rparr>"
  by (auto simp: list_ok_def list_shape_def heap_def armed_def)

lemma timers_init_ok:
  assumes "2 \<le> N" and "N \<le> 128"
  shows "timers_ok N (BRTOS_TimerTaskInit (boot_timers N))"
  using list_ok_empty [OF assms] assms
  by (auto simp: timers_ok_def BRTOS_TimerTaskInit_def boot_timers_def armed_def)

section \<open>Expiry\<close>

text \<open>
  Callbacks that leave the timers alone. \<open>act\<close> is what each of them does to the kernel and the time it asks to be repeated after: it may
  change the kernel in any way, and any number of ticks may pass meanwhile.
\<close>

type_synonym actions = "nat \<Rightarrow> kernel \<Rightarrow> ostick_t \<times> kernel"

definition tidy :: "actions \<Rightarrow> callbacks \<Rightarrow> bool" where
  "tidy act cb \<longleftrightarrow> (\<forall>f k v. cb f k v = (fst (act f k), snd (act f k), v))"

definition answer :: "actions \<Rightarrow> BRTOS_TIMER_T \<Rightarrow> kernel \<Rightarrow> ostick_t \<times> kernel" where
  "answer act b k = (case func_cb b of Some f \<Rightarrow> act f k | None \<Rightarrow> (0, k))"

text \<open>What expiry does to a timer block, if the callback ended at tick \<open>T\<close> and asked for \<open>r\<close> ticks: the block is armed again for the tick \<open>re T r\<close>, or freed. \<open>serve\<close> is
  the run of one timer, callback included.\<close>

definition rearm :: "(ostick_t \<Rightarrow> ostick_t \<Rightarrow> ostick_t) \<Rightarrow> ostick_t \<Rightarrow> ostick_t \<Rightarrow> BRTOS_TIMER_T \<Rightarrow> BRTOS_TIMER_T" where
  "rearm re T r b = (if r > 0 then b\<lparr>state := TIMER_RUNNING, timeout := re T r\<rparr>
     else b\<lparr>timeout := 0, state := TIMER_NOT_USED, func_cb := None\<rparr>)"

definition serve :: "(ostick_t \<Rightarrow> ostick_t \<Rightarrow> ostick_t) \<Rightarrow> actions \<Rightarrow> nat \<Rightarrow> kernel \<times> BRTOS_TIMER_T list \<Rightarrow> kernel \<times> BRTOS_TIMER_T list" where
  "serve re act p s = (case s of (k, m) \<Rightarrow> case answer act (m ! p) k of (r, k') \<Rightarrow> (k', m[p := rearm re (OSTickCounter k') r (m ! p)]))"

definition wraps :: "ostick_t \<Rightarrow> ostick_t \<Rightarrow> bool" where
  "wraps T r \<longleftrightarrow> (ucast T :: osdtick_t) + ucast r \<ge> ucast TICK_COUNT_OVERFLOW"

lemma serve_other: "q \<noteq> p \<Longrightarrow> snd (serve re act p (k, m)) ! q = m ! q"
  by (simp add: serve_def split: prod.split)

lemma serve_others: "q \<notin> set ps \<Longrightarrow> snd (fold (serve re act) ps s) ! q = snd s ! q"
proof (induction ps arbitrary: s)
  case (Cons p ps)
  then show ?case using serve_other [of q p re act "fst s" "snd s"] by simp
qed simp

lemma set_timer_Some: "p < length (mem v) \<Longrightarrow> set_timer p f v = Some (v\<lparr>mem := (mem v)[p := f (mem v ! p)]\<rparr>)"
  by (simp add: set_timer_def)

lemma on_list_Some: "i < length (lists v) \<Longrightarrow> f (lists v ! i) = Some l \<Longrightarrow> on_list i f v = Some (v\<lparr>lists := (lists v)[i := l]\<rparr>)"
  by (simp add: on_list_def)

lemma run_callback_tidy:
  assumes "tidy act cb" and "p < length (mem v)" and "answer act (mem v ! p) k = (r, k')"
  shows "run_callback cb p k v = Some (r, k', v\<lparr>mem := (mem v)[p := (mem v ! p)\<lparr>state := TIMER_STOPPED\<rparr>]\<rparr>)"
  using assms by (auto simp: run_callback_def set_timer_Some tidy_def answer_def split: option.splits)

lemma timers_ok_update:
  assumes ok: "timers_ok N v" and i: "i \<in> cur_armed v" and b: "state b \<noteq> TIMER_SEARCH"
    and lc: "list_ok N ((mem v)[i := b]) lc" and lf: "list_ok N ((mem v)[i := b]) lf"
    and ac: "armed lc = (if state b = TIMER_RUNNING \<and> \<not> fut then cur_armed v else cur_armed v - {i})"
    and af: "armed lf = (if state b = TIMER_RUNNING \<and> fut then insert i (fut_armed v) else fut_armed v)"
    and n: "unat (count lc) + unat (count lf) < N"
    and v': "mem v' = (mem v)[i := b]" "lists v' ! current v = lc" "lists v' ! future v = lf" "length (lists v') = 2"
      "current v' = current v" "future v' = future v"
  shows "timers_ok N v'"
proof -
  note d = timers_okD [OF ok]
  have "state ((mem v)[i := b] ! p) = TIMER_RUNNING \<longleftrightarrow> p \<in> armed lc \<union> armed lf" if "p < N" for p
    using d(10) [OF that] d(1,8) i that ac af by (cases "p = i") (auto simp: nth_list_update)
  moreover have "state ((mem v)[i := b] ! p) \<noteq> TIMER_SEARCH" if "p < N" for p
    using d(11) [OF that] b d(1) that by (cases "p = i") auto
  moreover have "armed lc \<inter> armed lf = {}" using d(8) i ac af by auto
  ultimately show ?thesis using d(1,3,4,5) lc lf n by (simp add: timers_ok_def v')
qed

lemma expire_due_spec:
  fixes k' :: kernel
  assumes ok: "timers_ok N v" and q: "tidy act cb" and r: "timers (lists v ! current v) ! 1 = Some i" and a: "answer act (mem v ! i) k = (rp, k')"
  defines "b \<equiv> mem v ! i" and "T \<equiv> OSTickCounter k'"
  shows "\<exists>tmo' v'. expire_due cb N (current v) i (tmo, k, v) = Some (tmo', k', v') \<and> timers_ok N v' \<and>
     mem v' = (mem v)[i := rearm wake_tick T rp b] \<and> current v' = current v \<and> future v' = future v \<and>
     cur_armed v' = (if rp > 0 \<and> \<not> wraps T rp then cur_armed v else cur_armed v - {i}) \<and>
     fut_armed v' = (if rp > 0 \<and> wraps T rp then insert i (fut_armed v) else fut_armed v)"
proof -
  note d = timers_okD [OF ok]
  note ra = root_armed [OF d(6) r]
  let ?m = "(mem v)[i := rearm wake_tick T rp b]" let ?c = "lists v ! current v" let ?f = "lists v ! future v"
  have ml: "length ?m = length (mem v)" and mo: "\<forall>p. p \<noteq> i \<longrightarrow> timeout (?m ! p) = timeout (mem v ! p)" by simp_all
  have il: "i < length (mem v)" using ra(3) .
  have nf: "i \<notin> fut_armed v" using d(8) ra(2) by blast
  have fo: "list_ok N ?m ?f" by (rule list_ok_outside [OF d(7) ml]) (use mo nf in metis)
  have cf: "unat (count ?f) < N - 1" using d(9) ra(1) by linarith
  note ev = Let_def expire_due_def run_callback_tidy [OF q il a] set_timer_Some il b_def T_def OSGetTickCount_def wraps_def wake_tick_def
  show ?thesis
  proof (cases "rp > 0")
    case False
    from drop_order [OF d(6) ml mo r] obtain l1 l2 where l: "drop_root ?c = Some l1" "list_order ?m l1 = Some l2" "list_ok N ?m l2"
      "armed l2 = armed ?c - {i}" "unat (count l2) = unat (count ?c) - 1" .
    let ?v = "v\<lparr>mem := ?m, lists := (lists v)[current v := l2]\<rparr>"
    have fb: "rearm wake_tick T rp b = b\<lparr>timeout := 0, state := TIMER_NOT_USED, func_cb := None\<rparr>" using False by (simp add: rearm_def)
    have "expire_due cb N (current v) i (tmo, k, v) = Some (tmo, k', ?v)"
      using False l(1,2) d(2,3) by (simp add: ev retire_def on_list_def fb [unfolded b_def T_def])
    moreover have "timers_ok N ?v"
      by (rule timers_ok_update [OF ok ra(2), of "rearm wake_tick T rp b" l2 ?f False]) (use d l fo nf in \<open>auto simp: fb\<close>)
    ultimately show ?thesis using False d l by (intro exI [of _ tmo] exI [of _ ?v]) auto
  next
    case True
    show ?thesis
    proof (cases "wraps T rp")
      case False
      from reorder [OF d(6) ml mo r] obtain l2 where l: "list_order ?m ?c = Some l2" "list_ok N ?m l2" "armed l2 = armed ?c" "count l2 = count ?c" .
      let ?v = "v\<lparr>mem := ?m, lists := (lists v)[current v := l2]\<rparr>"
      have fb: "rearm wake_tick T rp b = b\<lparr>state := TIMER_RUNNING, timeout := ucast ((ucast T :: osdtick_t) + ucast (rp))\<rparr>"
        using True False by (simp add: rearm_def wake_tick_def wraps_def)
      have "expire_due cb N (current v) i (tmo, k, v) = Some ((ucast T :: osdtick_t) + ucast (rp), k', ?v)"
        using True False l(1) d(2,3) by (simp add: ev on_list_def fb [unfolded b_def T_def])
      moreover have "timers_ok N ?v"
        by (rule timers_ok_update [OF ok ra(2), of "rearm wake_tick T rp b" l2 ?f False]) (use d l fo nf in \<open>auto simp: fb\<close>)
      ultimately show ?thesis using True False d l by (intro exI [of _ "(ucast T :: osdtick_t) + ucast (rp)"] exI [of _ ?v]) auto
    next
      case w: True
      from list_add_spec [OF fo cf _ nf] il obtain lf where lf: "list_add N ?m i ?f = Some lf" "list_ok N ?m lf"
        "armed lf = insert i (armed ?f)" "unat (count lf) = Suc (unat (count ?f))" by auto
      from drop_order [OF d(6) ml mo r] obtain l1 l2 where l: "drop_root ?c = Some l1" "list_order ?m l1 = Some l2" "list_ok N ?m l2"
        "armed l2 = armed ?c - {i}" "unat (count l2) = unat (count ?c) - 1" .
      let ?v = "v\<lparr>mem := ?m, lists := (lists v)[future v := lf, current v := l2]\<rparr>"
      have fb: "rearm wake_tick T rp b = b\<lparr>state := TIMER_RUNNING,
          timeout := ucast ((ucast T :: osdtick_t) + ucast (rp) - ucast TICK_COUNT_OVERFLOW)\<rparr>"
        using True w by (simp add: rearm_def wake_tick_def wraps_def)
      have "expire_due cb N (current v) i (tmo, k, v) = Some ((ucast T :: osdtick_t) + ucast (rp), k', ?v)"
        using True w l(1,2) lf(1) d(2,3,4,5) by (simp add: ev to_future_def on_list_def fb [unfolded b_def T_def])
      moreover have "timers_ok N ?v"
        by (rule timers_ok_update [OF ok ra(2), of "rearm wake_tick T rp b" l2 lf True]) (use d l lf nf ra(1) in \<open>auto simp: fb\<close>)
      ultimately show ?thesis using True w d l lf by (intro exI [of _ "(ucast T :: osdtick_t) + ucast (rp)"] exI [of _ ?v]) auto
    qed
  qed
qed

text \<open>A timer that repeats within the period of the tick counter is later than the current tick.\<close>

lemma rearm_later:
  assumes "r > 0" and "\<not> wraps T r"
  shows "T < wake_tick T r"
proof -
  let ?s = "(ucast T :: osdtick_t) + ucast r"
  have b: "unat T < 65536" "unat r < 65536"
    using unsigned_less [of T, where 'a = nat] unsigned_less [of r, where 'a = nat] by simp_all
  have s: "unat ?s = unat T + unat r" using b by (simp add: unat_word_ariths unsigned_ucast_eq take_bit_nat_eq_self)
  have "unat T + unat r < 65532" using assms(2) s by (simp add: wraps_def word_le_nat_alt not_le)
  then have "unat (ucast ?s :: ostick_t) = unat T + unat r" by (simp add: unsigned_ucast_eq take_bit_nat_eq_self s)
  moreover have "wake_tick T r = ucast ?s" using assms(2) by (simp add: wake_tick_def wraps_def Let_def)
  moreover have "0 < unat r" using assms(1) by (simp add: unat_gt_0 word_gt_0)
  ultimately show ?thesis by (simp add: word_less_nat_alt)
qed

definition due_timers :: "ostick_t \<Rightarrow> timer_vector \<Rightarrow> nat set" where
  "due_timers T v = {p \<in> cur_armed v. timeout (mem v ! p) \<le> T}"

lemma finite_armed [simp]: "finite (armed l)"
proof -
  have "armed l \<subseteq> the ` set (timers l)" by (force simp: armed_def)
  then show ?thesis by (rule finite_subset) simp
qed

lemma finite_due [simp]: "finite (due_timers T v)"
  by (simp add: due_timers_def)

lemma root_rd: "list_ok N m l \<Longrightarrow> rd (timers l) 1 = Some (timers l ! 1)"
  by (simp add: list_ok_def list_shape_def)

lemma root_eq: "timers_ok N v \<Longrightarrow> root (current v) v = Some (timers (lists v ! current v) ! 1)"
  using timers_okD(2,3,6) [of N v] root_rd by (auto simp: root_def)

text \<open>
  The loop ends, whatever the callbacks do to the kernel: a timer that stays in the list is armed for a later tick than the one at which its callback ended, so
  that either its time-out has grown, or the counter went back behind all time-outs and nothing is due. \<open>in_time\<close> says of a sequence of timers that each of them is due
  when it is served.
\<close>

fun in_time :: "actions \<Rightarrow> nat list \<Rightarrow> kernel \<times> BRTOS_TIMER_T list \<Rightarrow> bool" where
  "in_time act [] s \<longleftrightarrow> True"
| "in_time act (p # ps) s \<longleftrightarrow> timeout (snd s ! p) \<le> OSTickCounter (fst s) \<and> in_time act ps (serve wake_tick act p s)"

text \<open>What one pass over the current list does with the sequence \<open>ps\<close> of served timers: exactly these timers are changed, each was due, and
  no timer that is left in the list is due. If no tick passes, each timer that is due is served once.\<close>

definition pass :: "actions \<Rightarrow> nat list \<Rightarrow> kernel \<Rightarrow> timer_vector \<Rightarrow> kernel \<Rightarrow> timer_vector \<Rightarrow> bool" where
  "pass act ps k v k' v' \<longleftrightarrow> (k', mem v') = fold (serve wake_tick act) ps (k, mem v) \<and> in_time act ps (k, mem v) \<and>
     set ps \<subseteq> cur_armed v \<and> cur_armed v \<subseteq> armed (lists v' ! current v) \<union> set ps \<and>
     (\<forall>p \<in> armed (lists v' ! current v). OSTickCounter k' < timeout (mem v' ! p)) \<and>
     ((\<forall>f k. OSTickCounter (snd (act f k)) = OSTickCounter k) \<longrightarrow> distinct ps \<and> set ps = due_timers (OSTickCounter k) v)"

definition room :: "timer_vector \<Rightarrow> nat" where
  "room v = (\<Sum>p \<in> cur_armed v. 65536 - unat (timeout (mem v ! p)))"

lemma room_step:
  assumes i: "i \<in> cur_armed v" and o: "\<And>p. p \<noteq> i \<Longrightarrow> mem v' ! p = mem v ! p"
    and a: "cur_armed v' = cur_armed v - {i} \<or> cur_armed v' = cur_armed v \<and> timeout (mem v ! i) < timeout (mem v' ! i)"
  shows "room v' < room v"
proof -
  let ?f = "\<lambda>v p. 65536 - unat (timeout (mem v ! p))"
  have b: "unat (timeout (mem v ! i)) < 65536" using unsigned_less [of "timeout (mem v ! i)", where 'a = nat] by simp
  have r: "room v = ?f v i + (\<Sum>p \<in> cur_armed v - {i}. ?f v p)" unfolding room_def by (rule sum.remove [OF finite_armed i])
  have e: "(\<Sum>p \<in> cur_armed v - {i}. ?f v' p) = (\<Sum>p \<in> cur_armed v - {i}. ?f v p)" by (rule sum.cong) (auto simp: o)
  from a show ?thesis
  proof
    assume "cur_armed v' = cur_armed v - {i}"
    then have "room v' = (\<Sum>p \<in> cur_armed v - {i}. ?f v' p)" by (simp add: room_def)
    with r e b show ?thesis by linarith
  next
    assume c: "cur_armed v' = cur_armed v \<and> timeout (mem v ! i) < timeout (mem v' ! i)"
    then have "room v' = ?f v' i + (\<Sum>p \<in> cur_armed v - {i}. ?f v' p)" unfolding room_def using sum.remove [OF finite_armed i] by (simp only: simp_thms) blast
    moreover have "unat (timeout (mem v ! i)) < unat (timeout (mem v' ! i))" using c by (simp add: word_less_nat_alt)
    ultimately show ?thesis using r e b by linarith
  qed
qed

lemma run_due_none:
  assumes ok: "timers_ok N v" and d: "due_timers (OSTickCounter k) v = {}"
  shows "run_due cb N (current v) (timers (lists v ! current v) ! 1) (tmo, k, v) = Some (timers (lists v ! current v) ! 1, tmo, k, v)"
proof (cases "timers (lists v ! current v) ! 1")
  case (Some i)
  from root_armed [OF timers_okD(6) [OF ok] Some] d have "\<not> timeout (mem v ! i) \<le> OSTickCounter k" "i < length (mem v)" by (auto simp: due_timers_def)
  with Some show ?thesis by (subst run_due.simps) (simp add: OSGetTickCount_def)
qed (subst run_due.simps, simp)

lemma pass_none: "due_timers (OSTickCounter k) v = {} \<Longrightarrow> pass act [] k v k v"
  by (auto simp: pass_def due_timers_def not_le [symmetric])

lemma pass_Cons:
  assumes a: "answer act (mem v ! i) k = (r, k1)" and i: "i \<in> due_timers (OSTickCounter k) v"
    and m: "mem v1 = (mem v)[i := rearm wake_tick (OSTickCounter k1) r (mem v ! i)]" and c: "current v1 = current v"
    and A: "cur_armed v1 = (if r > 0 \<and> \<not> wraps (OSTickCounter k1) r then cur_armed v else cur_armed v - {i})"
    and p: "pass act ps k1 v1 k' v'" and l: "i < length (mem v)"
  shows "pass act (i # ps) k v k' v'"
proof -
  have s: "serve wake_tick act i (k, mem v) = (k1, mem v1)" by (simp add: serve_def a m)
  have ia: "i \<in> cur_armed v" "timeout (mem v ! i) \<le> OSTickCounter k" using i by (simp_all add: due_timers_def)
  have sub: "cur_armed v1 \<subseteq> cur_armed v" "cur_armed v \<subseteq> insert i (cur_armed v1)" using A by (auto split: if_splits)
  have "distinct (i # ps) \<and> set (i # ps) = due_timers (OSTickCounter k) v" if q: "\<forall>f k. OSTickCounter (snd (act f k)) = OSTickCounter k"
  proof -
    have T: "OSTickCounter k1 = OSTickCounter k" using a q by (auto simp: answer_def split: option.splits) (metis snd_conv)
    have "i \<notin> due_timers (OSTickCounter k) v1"
    proof (cases "r > 0 \<and> \<not> wraps (OSTickCounter k1) r")
      case True
      with rearm_later [of r "OSTickCounter k1"] m l show ?thesis by (simp add: rearm_def due_timers_def not_le T)
    next
      case False
      then have "cur_armed v1 = cur_armed v - {i}" using A by (simp only: if_False)
      then show ?thesis by (simp add: due_timers_def)
    qed
    moreover have "x \<in> due_timers (OSTickCounter k) v1 \<longleftrightarrow> x \<in> due_timers (OSTickCounter k) v" if "x \<noteq> i" for x
      using that A by (auto simp: due_timers_def m)
    ultimately have d: "due_timers (OSTickCounter k) v1 = due_timers (OSTickCounter k) v - {i}"
      by (intro set_eqI) (metis Diff_iff singletonD singletonI)
    have "distinct ps" "set ps = due_timers (OSTickCounter k) v1" using p q by (simp_all add: pass_def T)
    with d i show ?thesis by auto
  qed
  then show ?thesis using p sub ia c unfolding pass_def by (auto simp: s)
qed

lemma run_due_spec:
  assumes q: "tidy act cb"
  shows "timers_ok N v \<Longrightarrow>
     \<exists>ps tmo' k' v'. run_due cb N (current v) (timers (lists v ! current v) ! 1) (tmo, k, v) =
         Some (timers (lists v' ! current v') ! 1, tmo', k', v') \<and> timers_ok N v' \<and> current v' = current v \<and> future v' = future v \<and> pass act ps k v k' v'"
proof (induction "room v" arbitrary: v k tmo rule: less_induct)
  case less
  note d = timers_okD [OF less.prems]
  let ?r = "timers (lists v ! current v) ! 1"
  show ?case
  proof (cases "due_timers (OSTickCounter k) v = {}")
    case True
    with run_due_none [OF less.prems True] pass_none [OF True] less.prems show ?thesis by blast
  next
    case False
    then have "armed (lists v ! current v) \<noteq> {}" by (auto simp: due_timers_def)
    with root_empty [OF d(6)] obtain i where i: "?r = Some i" by blast
    note ra = root_armed [OF d(6) i]
    have du: "i \<in> due_timers (OSTickCounter k) v" using False ra(2,4) by (auto simp: due_timers_def intro: order_trans)
    obtain r k1 where a: "answer act (mem v ! i) k = (r, k1)" by (cases "answer act (mem v ! i) k")
    let ?T = "OSTickCounter k1"
    from expire_due_spec [OF less.prems q i a, of tmo] obtain tmo1 v1 where
      e: "expire_due cb N (current v) i (tmo, k, v) = Some (tmo1, k1, v1)" and ok: "timers_ok N v1"
      and m: "mem v1 = (mem v)[i := rearm wake_tick ?T r (mem v ! i)]" and c: "current v1 = current v" "future v1 = future v"
      and ac: "cur_armed v1 = (if r > 0 \<and> \<not> wraps ?T r then cur_armed v else cur_armed v - {i})" by blast
    have il: "i < length (mem v)" using ra(3) .
    have st: "run_due cb N (current v) ?r (tmo, k, v) = run_due cb N (current v1) (timers (lists v1 ! current v1) ! 1) (tmo1, k1, v1)"
      unfolding i using e root_eq [OF ok] du il c(1) by (subst run_due.simps) (simp add: OSGetTickCount_def due_timers_def)
    have "\<exists>ps tmo' k' v'. run_due cb N (current v1) (timers (lists v1 ! current v1) ! 1) (tmo1, k1, v1) =
         Some (timers (lists v' ! current v') ! 1, tmo', k', v') \<and> timers_ok N v' \<and> current v' = current v1 \<and> future v' = future v1 \<and> pass act ps k1 v1 k' v'"
    proof (cases "r > 0 \<and> \<not> wraps ?T r \<and> ?T < timeout (mem v ! i)")
      case True
      then have "?T < timeout (mem v1 ! i)" using rearm_later [of r ?T] il by (simp add: m rearm_def)
      moreover have "?T < timeout (mem v1 ! p)" if "p \<in> cur_armed v" "p \<noteq> i" for p using True ra(4) that by (auto simp: m intro: less_le_trans)
      ultimately have n: "due_timers ?T v1 = {}" using ac True by (fastforce simp: due_timers_def not_le)
      show ?thesis using run_due_none [OF ok n] pass_none [OF n] ok by blast
    next
      case F: False
      have "room v1 < room v"
      proof (rule room_step [OF ra(2)])
        show "mem v1 ! p = mem v ! p" if "p \<noteq> i" for p using that by (simp add: m)
        show "cur_armed v1 = cur_armed v - {i} \<or> cur_armed v1 = cur_armed v \<and> timeout (mem v ! i) < timeout (mem v1 ! i)"
        proof (cases "r > 0 \<and> \<not> wraps ?T r")
          case True
          then have "timeout (mem v ! i) \<le> ?T" "timeout (mem v1 ! i) = wake_tick ?T r" using F il by (auto simp: m rearm_def)
          with True ac rearm_later [of r ?T] show ?thesis by (auto intro: le_less_trans)
        qed (use ac in \<open>simp only: if_False simp_thms\<close>)
      qed
      from less.hyps [OF this ok] show ?thesis .
    qed
    then obtain ps tmo' k' v' where "run_due cb N (current v1) (timers (lists v1 ! current v1) ! 1) (tmo1, k1, v1) =
         Some (timers (lists v' ! current v') ! 1, tmo', k', v')" "timers_ok N v'" "current v' = current v1" "future v' = future v1" "pass act ps k1 v1 k' v'" by blast
    with st c pass_Cons [OF a du m c(1) ac _ il] show ?thesis by (intro exI [of _ "i # ps"] exI [of _ tmo'] exI [of _ k'] exI [of _ v']) simp
  qed
qed

section \<open>Starting a timer\<close>

text \<open>The timer task is told to wake at the time-out of the new timer if none of the list is earlier.\<close>

definition told :: "kernel \<Rightarrow> timer_vector \<Rightarrow> ostick_t \<Rightarrow> kernel" where
  "told k v t = (if currentTask k \<noteq> 0 \<and> (\<forall>p \<in> cur_armed v. t \<le> timeout (mem v ! p))
     then k\<lparr>ContextTask := (ContextTask k)[unat (handling_task v) := (tcb k (unat (handling_task v)))\<lparr>TimeToWait := t\<rparr>]\<rparr> else k)"

lemma list_ok_fresh:
  assumes "list_ok N m l" and "p \<notin> armed l"
  shows "list_ok N (m[p := b]) l"
proof (rule list_ok_outside [OF assms(1)])
  show "\<forall>q \<in> armed l. timeout (m[p := b] ! q) = timeout (m ! q)" using assms(2) by (metis nth_list_update_neq)
qed simp

lemma list_ok_state:
  assumes "list_ok N m l" and "timeout b = timeout (m ! p)"
  shows "list_ok N (m[p := b]) l"
proof (rule list_ok_outside [OF assms(1)])
  show "\<forall>q \<in> armed l. timeout (m[p := b] ! q) = timeout (m ! q)" using assms(2) by (metis list_update_beyond not_le nth_list_update)
qed simp

lemma root_is_new:
  assumes l: "list_ok N m l" and p: "p \<in> armed l" "p < length m"
  obtains r where "timers l ! 1 = Some r" and "r < length m"
    and "timeout (m ! p) = timeout (m ! r) \<longleftrightarrow> (\<forall>q \<in> armed l. timeout (m ! p) \<le> timeout (m ! q))"
proof -
  from root_empty [OF l] p obtain r where r: "timers l ! 1 = Some r" by blast
  note ra = root_armed [OF l r]
  have "timeout (m ! p) = timeout (m ! r) \<longleftrightarrow> (\<forall>q \<in> armed l. timeout (m ! p) \<le> timeout (m ! q))"
    using ra(2,4) p(1) by (metis order_antisym)
  with that r ra(3) show ?thesis by blast
qed

lemma arm_spec:
  fixes w :: ostick_t
  assumes ok: "timers_ok N v" and p: "p < N" "p \<notin> cur_armed v" "p \<notin> fut_armed v"
    and room: "unat (count (lists v ! current v)) + unat (count (lists v ! future v)) + 1 < N"
    and h: "unat (handling_task v) < length (ContextTask k)"
  defines "t \<equiv> wake_tick (OSTickCounter k) w"
  defines "late \<equiv> (ucast (OSTickCounter k) :: osdtick_t) + ucast w \<ge> ucast TICK_COUNT_OVERFLOW"
  shows "\<exists>v'. arm N p w k v = Some (if late then k else told k v t, v') \<and> timers_ok N v' \<and>
     mem v' = (mem v)[p := (mem v ! p)\<lparr>timeout := t, state := TIMER_RUNNING\<rparr>] \<and> current v' = current v \<and> future v' = future v \<and>
     handling_task v' = handling_task v \<and> cur_armed v' = (if late then cur_armed v else insert p (cur_armed v)) \<and>
     fut_armed v' = (if late then insert p (fut_armed v) else fut_armed v)"
proof -
  note d = timers_okD [OF ok]
  let ?i = "if late then future v else current v" let ?j = "if late then current v else future v"
  let ?m = "(mem v)[p := (mem v ! p)\<lparr>timeout := t\<rparr>]" let ?b = "(mem v ! p)\<lparr>timeout := t, state := TIMER_RUNNING\<rparr>"
  let ?l = "lists v ! ?i" let ?o = "lists v ! ?j"
  have li: "?i < 2" "?j < 2" "?i \<noteq> ?j" using d(3,4,5) by auto
  have lo: "list_ok N ?m ?l" "list_ok N ?m ?o" using list_ok_fresh [OF d(6) p(2)] list_ok_fresh [OF d(7) p(3)] by auto
  have pl: "p \<notin> armed ?l" "p < length ?m" using p d(1) by auto
  have c: "unat (count ?l) < N - 1" using room by (auto split: if_splits)
  from list_add_spec [OF lo(1) c pl(2,1)] obtain l' where
    l': "list_add N ?m p ?l = Some l'" "list_ok N ?m l'" "armed l' = insert p (armed ?l)" "unat (count l') = Suc (unat (count ?l))" .
  have mm: "(mem v)[p := ?b] = ?m[p := ?b]" by simp
  have tb: "timeout ?b = timeout (?m ! p)" using pl(2) by simp
  have lo2: "list_ok N ((mem v)[p := ?b]) l'" "list_ok N ((mem v)[p := ?b]) ?o"
    unfolding mm by (rule list_ok_state [OF l'(2) tb], rule list_ok_state [OF lo(2) tb])
  let ?v = "v\<lparr>mem := (mem v)[p := ?b], lists := (lists v)[?i := l']\<rparr>"
  have s: "set_timer p (\<lambda>b. b\<lparr>timeout := t\<rparr>) v = Some (v\<lparr>mem := ?m\<rparr>)" using p d(1) by (simp add: set_timer_Some)
  have a: "on_list ?i (list_add N ?m p) (v\<lparr>mem := ?m\<rparr>) = Some (v\<lparr>mem := ?m, lists := (lists v)[?i := l']\<rparr>)"
    using l'(1) li d(2) by (simp add: on_list_def)
  have run: "set_timer p (\<lambda>b. b\<lparr>state := TIMER_RUNNING\<rparr>) (v\<lparr>mem := ?m, lists := (lists v)[?i := l']\<rparr>) = Some ?v"
    using p d(1) by (simp add: set_timer_Some)
  have "arm N p w k v = Some (if late then k else told k v t, ?v)"
  proof (cases late)
    case True
    then have t: "ucast ((ucast (OSTickCounter k) :: osdtick_t) + ucast w - 65532) = t"
      by (simp add: t_def late_def wake_tick_def Let_def)
    show ?thesis using True s a run by (simp add: arm_def OSGetCount_def late_def t)
  next
    case False
    then have t: "ucast ((ucast (OSTickCounter k) :: osdtick_t) + ucast w) = t" by (simp add: t_def late_def wake_tick_def Let_def)
    have pa: "p \<in> armed l'" using l'(3) by simp
    from root_is_new [OF l'(2) pa pl(2)] obtain r where r: "timers l' ! 1 = Some r" "r < length ?m"
      "timeout (?m ! p) = timeout (?m ! r) \<longleftrightarrow> (\<forall>q \<in> armed l'. timeout (?m ! p) \<le> timeout (?m ! q))" .
    have "(\<forall>q \<in> armed l'. t \<le> timeout (?m ! q)) \<longleftrightarrow> (\<forall>q \<in> cur_armed v. t \<le> timeout (mem v ! q))"
      using False l'(3) p(2) pl(2) by (auto simp: nth_list_update)
    with r(3) pl(2) have e: "t = timeout (?m ! r) \<longleftrightarrow> (\<forall>q \<in> cur_armed v. t \<le> timeout (mem v ! q))" by simp
    have rt: "root (current v) (v\<lparr>mem := ?m, lists := (lists v)[current v := l']\<rparr>) = Some (Some r)"
      using False r(1) d(2,3) root_rd [OF l'(2)] by (simp add: root_def)
    show ?thesis unfolding told_def e [symmetric] using False s a run rt r(2) h by (simp add: arm_def Let_def OSGetCount_def late_def t)
  qed
  moreover have "timers_ok N ?v"
  proof -
    have "state ((mem v)[p := ?b] ! q) = TIMER_RUNNING \<longleftrightarrow> q \<in> armed l' \<union> armed ?o" if "q < N" for q
      using d(10) [OF that] l'(3) d(1) that by (cases "q = p") (auto split: if_splits)
    moreover have "state ((mem v)[p := ?b] ! q) \<noteq> TIMER_SEARCH" if "q < N" for q
      using d(11) [OF that] d(1) that by (cases "q = p") auto
    moreover have "armed l' \<inter> armed ?o = {}" using d(8) p l'(3) by (auto split: if_splits)
    moreover have "unat (count l') + unat (count ?o) < N" using l'(4) room by (auto split: if_splits)
    ultimately show ?thesis using d(1-5) lo2 by (cases late) (auto simp: timers_ok_def Un_commute Int_commute add.commute)
  qed
  ultimately show ?thesis using l'(3) d(2,3,4,5) by (intro exI [of _ ?v]) (cases late; simp)
qed

lemma find_block_Inr:
  "find_block m j = Inr i \<Longrightarrow> j \<le> i \<and> i - j < length m \<and> state (m ! (i - j)) = TIMER_NOT_USED"
  by (induction m j rule: find_block.induct) (auto split: if_splits simp: nth_Cons' Suc_diff_le)

lemma find_block_none: "\<forall>t \<in> set m. state t \<noteq> TIMER_NOT_USED \<and> state t \<noteq> TIMER_NOT_ALLOCATED \<Longrightarrow> find_block m j = Inl NO_AVAILABLE_EVENT"
  by (induction m j rule: find_block.induct) auto

text \<open>A change of the callback and of the state of a block that does not run is harmless.\<close>

lemma timers_ok_idle:
  assumes ok: "timers_ok N v" and p: "p < N" "state (mem v ! p) \<noteq> TIMER_RUNNING"
    and b: "timeout b = timeout (mem v ! p)" "state b \<noteq> TIMER_RUNNING" "state b \<noteq> TIMER_SEARCH"
  shows "timers_ok N (v\<lparr>mem := (mem v)[p := b]\<rparr>)"
proof -
  note d = timers_okD [OF ok]
  have "state ((mem v)[p := b] ! q) = TIMER_RUNNING \<longleftrightarrow> q \<in> cur_armed v \<union> fut_armed v" if "q < N" for q
    using d(10) [OF that] d(10) [OF p(1)] p b d(1) that by (cases "q = p") auto
  moreover have "state ((mem v)[p := b] ! q) \<noteq> TIMER_SEARCH" if "q < N" for q
    using d(11) [OF that] b d(1) that by (cases "q = p") auto
  ultimately show ?thesis using d list_ok_state [OF d(6) b(1)] list_ok_state [OF d(7) b(1)] by (simp add: timers_ok_def)
qed

lemma OSTimerSet_spec:
  assumes ok: "timers_ok N v" and f: "find_block (mem v) 0 = Inr p"
    and room: "unat (count (lists v ! current v)) + unat (count (lists v ! future v)) + 1 < N"
    and h: "unat (handling_task v) < length (ContextTask k)" and w: "0 < w"
  shows "\<exists>k' v'. OSTimerSet N (Some x) (Some cb) w k v = Some (OK, Some (Some p), k', v') \<and> timers_ok N v' \<and>
     mem v' = (mem v)[p := (mem v ! p)\<lparr>func_cb := Some cb, timeout := wake_tick (OSTickCounter k) w, state := TIMER_RUNNING\<rparr>] \<and>
     OSTickCounter k' = OSTickCounter k"
proof -
  note d = timers_okD [OF ok]
  from find_block_Inr [OF f] d(1) have p: "p < N" "state (mem v ! p) = TIMER_NOT_USED" by simp_all
  let ?b = "(mem v ! p)\<lparr>state := TIMER_STOPPED, func_cb := Some cb\<rparr>" let ?v = "v\<lparr>mem := (mem v)[p := ?b]\<rparr>"
  have okv: "timers_ok N ?v" by (rule timers_ok_idle [OF ok p(1)]) (simp_all add: p(2))
  have np: "p \<notin> cur_armed v" "p \<notin> fut_armed v" using d(10) [OF p(1)] p(2) by auto
  from arm_spec [OF okv p(1), of k w] np room h obtain v' k' where
    a: "arm N p w k ?v = Some (k', v')" "timers_ok N v'" "OSTickCounter k' = OSTickCounter k"
      "mem v' = (mem ?v)[p := (mem ?v ! p)\<lparr>timeout := wake_tick (OSTickCounter k) w, state := TIMER_RUNNING\<rparr>]"
    by (auto simp: told_def split: if_splits)
  have s: "set_timer p (\<lambda>b. b\<lparr>state := TIMER_STOPPED, func_cb := Some cb\<rparr>) v = Some ?v" using p(1) d(1) by (simp add: set_timer_Some)
  have "OSTimerSet N (Some x) (Some cb) w k v = Some (OK, Some (Some p), k', v')"
    using f s a(1) w by (simp add: OSTimerSet_def)
  with a p(1) d(1) show ?thesis by simp
qed

text \<open>The remaining time is the distance from the tick counter to the time-out, modulo the counter's period.\<close>

lemma OSTimerGet_spec:
  assumes "i < length (mem v)" and "state (mem v ! i) = TIMER_RUNNING" and "timeout (mem v ! i) < TICK_COUNT_OVERFLOW" and "tick_ok k"
  shows "\<exists>r. OSTimerGet (Some i) k v = Some r \<and>
     unat r = (unat (timeout (mem v ! i)) + (65532 - unat (OSTickCounter k))) mod 65532"
proof -
  let ?t = "timeout (mem v ! i)" let ?c = "OSTickCounter k"
  have b: "unat ?t < 65532" "unat ?c < 65532" using assms(3,4) by (simp_all add: word_less_nat_alt)
  show ?thesis
  proof (cases "?t \<ge> ?c")
    case True
    then have c: "unat ?c \<le> unat ?t" by (simp add: word_le_nat_alt)
    have u: "unat (?t - ?c) = unat ?t - unat ?c" using True by (rule unat_sub)
    have e: "unat ?t + (65532 - unat ?c) = (unat ?t - unat ?c) + 65532" using c b by linarith
    have m: "(unat ?t + (65532 - unat ?c)) mod 65532 = unat ?t - unat ?c"
      unfolding e mod_add_self2 using b by (intro mod_less) linarith
    have r: "OSTimerGet (Some i) k v = Some (?t - ?c)" using assms(1,2) True by (simp add: OSTimerGet_def OSGetCount_def Let_def)
    show ?thesis unfolding r m by (rule exI [of _ "?t - ?c"]) (simp only: u simp_thms)
  next
    case False
    then have lt: "unat ?t < unat ?c" by (simp add: word_le_nat_alt)
    define x where "x = 65531 - ?c"
    have "unat x = unat (65531 :: ostick_t) - unat ?c" unfolding x_def using b by (intro unat_sub) (simp add: word_le_nat_alt)
    then have x: "unat x = 65531 - unat ?c" by simp
    have "unat (x + ?t + 1) = unat x + unat ?t + 1" using b lt x by (simp add: unat_word_ariths)
    then have u: "unat (65531 - ?c + ?t + 1) = unat ?t + (65532 - unat ?c)" unfolding x_def [symmetric] x using b lt by linarith
    have m: "(unat ?t + (65532 - unat ?c)) mod 65532 = unat ?t + (65532 - unat ?c)" using lt b by (intro mod_less) linarith
    have r: "OSTimerGet (Some i) k v = Some (65531 - ?c + ?t + 1)" using assms(1,2) False by (simp add: OSTimerGet_def OSGetCount_def Let_def)
    show ?thesis unfolding r m by (rule exI [of _ "65531 - ?c + ?t + 1"]) (simp only: u simp_thms)
  qed
qed

lemma OSTimerGet_wake:
  assumes i: "i < length (mem v)" "state (mem v ! i) = TIMER_RUNNING" "timeout (mem v ! i) = wake_tick (OSTickCounter k) w"
    and t: "tick_ok k" and w: "w < TICK_COUNT_OVERFLOW"
  shows "OSTimerGet (Some i) k v = Some w"
proof -
  let ?c = "unat (OSTickCounter k)"
  have b: "?c < 65532" "unat w < 65532" using t w by (simp_all add: word_less_nat_alt)
  have u: "unat (wake_tick (OSTickCounter k) w) = (?c + unat w) mod 65532" using t w by (intro unat_wake_tick) simp_all
  have l: "timeout (mem v ! i) < TICK_COUNT_OVERFLOW" unfolding i(3) using t w by (intro wake_tick_lt) simp_all
  from OSTimerGet_spec [OF i(1,2) l t] obtain r where r: "OSTimerGet (Some i) k v = Some r"
    "unat r = ((?c + unat w) mod 65532 + (65532 - ?c)) mod 65532" unfolding i(3) u by blast
  have e: "?c + unat w + (65532 - ?c) = unat w + 65532" using b by linarith
  have "unat r = unat w" unfolding r(2) mod_add_left_eq e using b by simp
  with r(1) show ?thesis by (simp add: word_unat_eq_iff)
qed

section \<open>Stopping a timer\<close>

lemma search_timer_finds:
  assumes s: "list_shape N m l" and a: "timers l ! a = Some i" "a \<le> unat (count l)" and m: "\<forall>q \<in> armed l. state (m ! q) = TIMER_SEARCH \<longleftrightarrow> q = i"
  shows "1 \<le> pos \<Longrightarrow> pos \<le> a \<Longrightarrow> search_timer m l pos = Some a"
proof (induction "a - pos" arbitrary: pos)
  case 0
  then have p: "pos = a" "1 \<le> a" by simp_all
  from list_shape_entry [OF s p(2) a(2)] a(1) have i: "i \<in> armed l" "i < length m" by (metis option.inject)+
  have "a < length (timers l)" using s a(2) by (simp add: list_shape_def)
  with p a i m show ?case by (subst search_timer.simps) simp
next
  case (Suc n)
  then have lt: "pos < a" by simp
  then have pc: "pos \<le> unat (count l)" using a(2) by simp
  from list_shape_entry [OF s Suc(3) pc] obtain p where p: "timers l ! pos = Some p" "p \<in> armed l" "p < length m" .
  have "a < N" "pos < N" using s a(2) pc by (auto simp: list_shape_def)
  with entries_distinct [OF s _ p(1), of a] lt a(1) have "p \<noteq> i" by auto
  with m p have "state (m ! p) \<noteq> TIMER_SEARCH" by blast
  moreover have "pos < length (timers l)" using s pc by (auto simp: list_shape_def)
  ultimately have "search_timer m l pos = search_timer m l (Suc pos)"
    using pc p by (subst search_timer.simps) simp
  also have "\<dots> = Some a" using Suc lt by (intro Suc.hyps(1)) auto
  finally show ?case .
qed

text \<open>Taking a timer out of a list: with time-out zero it rises to the root, if all others are later.\<close>

lemma list_remove_spec:
  assumes l: "list_ok N m l" and i: "i \<in> armed l" and m1: "length m1 = length m" "\<forall>q \<in> armed l. state (m1 ! q) = TIMER_SEARCH \<longleftrightarrow> q = i"
    and m0: "length m0 = length m" "timeout (m0 ! i) = 0" "\<forall>q. q \<noteq> i \<longrightarrow> timeout (m0 ! q) = timeout (m ! q)"
    and pos: "\<forall>q \<in> armed l - {i}. 0 < timeout (m ! q)"
  obtains l' where "list_remove m1 m0 l = Some l'" and "list_ok N m0 l'" and "armed l' = armed l - {i}" and "unat (count l') = unat (count l) - 1"
proof -
  let ?c = "unat (count l)" let ?ts = "timers l"
  note s = list_ok_shape [OF l] and s0 = list_shape_mem [OF list_ok_shape [OF l] m0(1)] and s1 = list_shape_mem [OF list_ok_shape [OF l] m1(1)]
  from armed_nth [OF s] i obtain a where a: "1 \<le> a" "a \<le> ?c" "?ts ! a = Some i" by blast
  have f: "search_timer m1 l 1 = Some a" by (rule search_timer_finds [OF s1 a(3,2) m1(2)]) (use a in simp_all)
  have k: "key m0 ?ts j = key m ?ts j \<and> 0 < key m ?ts j" if j: "1 \<le> j" "j \<le> ?c" "j \<noteq> a" for j
  proof -
    from list_shape_entry [OF s j(1,2)] obtain q where q: "?ts ! j = Some q" "q \<in> armed l" .
    have "a < N" "j < N" using s a j by (auto simp: list_shape_def)
    then have "q \<noteq> i" using entries_distinct [OF s _ q(1) _ , of a] a(3) j(3) by auto
    with q m0(3) pos show ?thesis by (simp add: key_def)
  qed
  have ka: "key m0 ?ts a = 0" using a(3) m0(2) by (simp add: key_def)
  have h: "key m ?ts (j div 2) \<le> key m ?ts j" if "2 \<le> j" "j \<le> ?c" for j using l that by (simp add: list_ok_def heap_def)
  have "heap_but_up m0 ?ts ?c a" unfolding heap_but_up_def
  proof (intro conjI allI impI)
    fix j assume j: "2 \<le> j \<and> j \<le> ?c \<and> j \<noteq> a"
    then have b: "1 \<le> j div 2" "j div 2 \<le> ?c" by auto
    show "key m0 ?ts (j div 2) \<le> key m0 ?ts j"
    proof (cases "j div 2 = a")
      case False
      with j b h k show ?thesis by simp
    qed (simp add: ka)
  next
    fix j assume j: "2 \<le> a \<and> j \<le> ?c \<and> j div 2 = a"
    then have b: "1 \<le> a div 2" "a div 2 \<le> ?c" "a div 2 \<noteq> a" "2 \<le> j" "1 \<le> j" "j \<noteq> a" using a by auto
    have "key m ?ts (a div 2) \<le> key m ?ts a" "key m ?ts a \<le> key m ?ts j" using h [of a] h [of j] j b a by auto
    with j b k show "key m0 ?ts (a div 2) \<le> key m0 ?ts j" by simp
  qed
  from Subir_spec [OF list_shape_full [OF s0] this a(1,2)] obtain ts where
    t: "Subir m0 ?ts a = Some ts" "full m0 ts ?c" "heap m0 ts ?c" "shuffled ?c ?ts ts" and
    t1: "(\<forall>j. 1 \<le> j \<and> j \<le> ?c \<and> j \<noteq> a \<longrightarrow> key m0 ?ts a < key m0 ?ts j) \<longrightarrow> ts ! 1 = ?ts ! a" by blast
  have r: "timers (l\<lparr>timers := ts\<rparr>) ! 1 = Some i" using t1 k ka a(3) by simp
  note sh = list_shape_shuffled [OF s0 t(4,2)]
  have "list_ok N m0 (l\<lparr>timers := ts\<rparr>)" using sh(1) t(3) by (simp add: list_ok_def)
  from drop_order [OF this refl _ r] obtain l1 l2 where
    "drop_root (l\<lparr>timers := ts\<rparr>) = Some l1" "list_order m0 l1 = Some l2" "list_ok N m0 l2"
    "armed l2 = armed (l\<lparr>timers := ts\<rparr>) - {i}" "unat (count l2) = unat (count (l\<lparr>timers := ts\<rparr>)) - 1" by blast
  with that sh(2) f t(1) show ?thesis by (simp add: list_remove_def)
qed

lemma OSTimerStop_spec:
  assumes ok: "timers_ok N v" and i: "i < N" "state (mem v ! i) = TIMER_RUNNING"
    and place: "i \<in> cur_armed v \<longleftrightarrow> timeout (mem v ! i) \<ge> OSTickCounter k"
    and pos: "\<forall>q \<in> cur_armed v \<union> fut_armed v - {i}. 0 < timeout (mem v ! q)"
  shows "\<exists>v'. OSTimerStop (Some i) del k v = Some (OK, v') \<and> timers_ok N v' \<and> current v' = current v \<and> future v' = future v \<and>
     cur_armed v' = cur_armed v - {i} \<and> fut_armed v' = fut_armed v - {i} \<and> (\<forall>q. q \<noteq> i \<longrightarrow> mem v' ! q = mem v ! q) \<and>
     state (mem v' ! i) = (if del > 0 then TIMER_NOT_USED else TIMER_STOPPED)"
proof -
  note d = timers_okD [OF ok]
  let ?li = "if timeout (mem v ! i) \<ge> OSTickCounter k then current v else future v"
  let ?lo = "if timeout (mem v ! i) \<ge> OSTickCounter k then future v else current v"
  let ?l = "lists v ! ?li" let ?o = "lists v ! ?lo"
  have il: "i < length (mem v)" using i d(1) by simp
  have in_l: "i \<in> armed ?l" "i \<notin> armed ?o" using d(8) d(10) [OF i(1)] i(2) place by (auto split: if_splits)
  have lo: "list_ok N (mem v) ?l" "list_ok N (mem v) ?o" and li: "?li < 2" "?lo < 2" "?li \<noteq> ?lo" using d(3-7) by auto
  let ?m1 = "(mem v)[i := (mem v ! i)\<lparr>state := TIMER_SEARCH\<rparr>]"
  let ?m0 = "(mem v)[i := (mem v ! i)\<lparr>state := TIMER_SEARCH, timeout := 0\<rparr>]"
  let ?b = "(if del > 0 then (mem v ! i)\<lparr>timeout := 0, state := TIMER_NOT_USED, func_cb := None\<rparr> else (mem v ! i)\<lparr>timeout := 0, state := TIMER_STOPPED\<rparr>)"
  have "\<forall>q \<in> armed ?l. state (?m1 ! q) = TIMER_SEARCH \<longleftrightarrow> q = i"
  proof
    fix q assume "q \<in> armed ?l"
    then have "q < N" using lo(1) d(1) by (auto simp: list_ok_def list_shape_def)
    then show "state (?m1 ! q) = TIMER_SEARCH \<longleftrightarrow> q = i" using d(11) [of q] il by (cases "q = i") auto
  qed
  moreover have "\<forall>q \<in> armed ?l - {i}. 0 < timeout (mem v ! q)" using pos by auto
  ultimately obtain l' where l': "list_remove ?m1 ?m0 ?l = Some l'" "list_ok N ?m0 l'" "armed l' = armed ?l - {i}" "unat (count l') = unat (count ?l) - 1"
    using list_remove_spec [OF lo(1) in_l(1), of ?m1 ?m0] il by auto
  let ?v = "v\<lparr>lists := (lists v)[?li := l'], mem := (mem v)[i := ?b]\<rparr>"
  have ol: "list_ok N ((mem v)[i := ?b]) l'" "list_ok N ((mem v)[i := ?b]) ?o"
  proof -
    have m: "(mem v)[i := ?b] = ?m0[i := ?b]" by simp
    show "list_ok N ((mem v)[i := ?b]) l'" unfolding m by (rule list_ok_fresh [OF l'(2)]) (simp add: l'(3))
    show "list_ok N ((mem v)[i := ?b]) ?o" by (rule list_ok_fresh [OF lo(2) in_l(2)])
  qed
  have "on_list ?li (list_remove ?m1 ?m0) (v\<lparr>mem := ?m0\<rparr>) = Some (v\<lparr>mem := ?m0, lists := (lists v)[?li := l']\<rparr>)"
    using l'(1) li d(2) by (simp add: on_list_def)
  then have run: "OSTimerStop (Some i) del k v = Some (OK, ?v)"
    using il by (simp add: OSTimerStop_def OSGetCount_def set_timer_Some Let_def)
  have "state ((mem v)[i := ?b] ! q) = TIMER_RUNNING \<longleftrightarrow> q \<in> armed l' \<union> armed ?o" if "q < N" for q
    using d(10) [OF that] l'(3) in_l(2) il by (cases "q = i") (auto split: if_splits)
  moreover have "state ((mem v)[i := ?b] ! q) \<noteq> TIMER_SEARCH" if "q < N" for q
    using d(11) [OF that] il by (cases "q = i") auto
  moreover have "armed l' \<inter> armed ?o = {}" using d(8) l'(3) by (auto split: if_splits)
  moreover have "unat (count l') + unat (count ?o) < N" using l'(4) d(9) by (auto split: if_splits)
  ultimately have "timers_ok N ?v"
    using d(1-5) ol by (cases "timeout (mem v ! i) \<ge> OSTickCounter k") (auto simp: timers_ok_def Un_commute Int_commute add.commute)
  moreover have "cur_armed ?v = cur_armed v - {i}" "fut_armed ?v = fut_armed v - {i}"
    using l'(3) in_l(2) d(2-5) by (auto split: if_splits)
  ultimately show ?thesis using run il by (intro exI [of _ ?v]) simp
qed

section \<open>One turn of the timer task\<close>

lemma timers_ok_switch: "timers_ok N (switch_lists v) = timers_ok N v"
  by (auto simp: timers_ok_def switch_lists_def Un_commute Int_commute add.commute)

lemma next_wake_spec:
  assumes ok: "timers_ok N v"
  obtains w where "next_wake (timers (lists v ! current v) ! 1) v = Some w"
    and "\<forall>p \<in> cur_armed v. w \<le> timeout (mem v ! p)" and "cur_armed v \<noteq> {} \<longrightarrow> (\<exists>p \<in> cur_armed v. w = timeout (mem v ! p))"
    and "cur_armed v = {} \<longrightarrow> w = TIMER_MAX_COUNTER"
proof -
  note d = timers_okD [OF ok]
  show ?thesis
  proof (cases "timers (lists v ! current v) ! 1")
    case None
    with root_empty [OF d(6)] that [of TIMER_MAX_COUNTER] show ?thesis by (simp add: next_wake_def)
  next
    case (Some i)
    note ra = root_armed [OF d(6) Some]
    show ?thesis by (rule that [of "timeout (mem v ! i)"]) (use ra Some in \<open>auto simp: next_wake_def\<close>)
  qed
qed

text \<open>The end of a turn fires the timers that are due; the task will sleep until the earliest timer of the list
  that is the current one then.\<close>

definition sleeps_well :: "timer_vector \<Rightarrow> ostick_t \<Rightarrow> bool" where
  "sleeps_well v w \<longleftrightarrow> (\<forall>p \<in> cur_armed v. w \<le> timeout (mem v ! p)) \<and>
     (cur_armed v \<noteq> {} \<longrightarrow> (\<exists>p \<in> cur_armed v. w = timeout (mem v ! p))) \<and> (cur_armed v = {} \<longrightarrow> w = TIMER_MAX_COUNTER)"

lemma finish_turn_spec:
  assumes ok: "timers_ok N v" and q: "tidy act cb"
  shows "\<exists>ps w tmo' k' v'. finish_turn cb N (current v) (timers (lists v ! current v) ! 1) (tmo, k, v) = Some (w, tmo', k', v') \<and>
     timers_ok N v' \<and> pass act ps k v k' v' \<and> sleeps_well v' w"
proof -
  let ?r = "timers (lists v ! current v) ! 1"
  from run_due_spec [OF q ok, of tmo k] obtain ps tmo' k' v1 where
    r: "run_due cb N (current v) ?r (tmo, k, v) = Some (timers (lists v1 ! current v1) ! 1, tmo', k', v1)" and ok1: "timers_ok N v1"
    and p: "pass act ps k v k' v1" by blast
  let ?sw = "tmo' > ucast TIMER_MAX_COUNTER \<and> timers (lists v1 ! current v1) ! 1 = None"
  let ?v = "if ?sw then switch_lists v1 else v1"
  have okv: "timers_ok N ?v" using ok1 timers_ok_switch by simp
  have pv: "pass act ps k v k' ?v" using p by (simp add: pass_def switch_lists_def)
  from next_wake_spec [OF okv] obtain w where w: "next_wake (timers (lists ?v ! current ?v) ! 1) ?v = Some w" "sleeps_well ?v w"
    unfolding sleeps_well_def by metis
  have "finish_turn cb N (current v) ?r (tmo, k, v) = Some (w, tmo', k', ?v)"
  proof (cases ?sw)
    case True
    then have v: "?v = switch_lists v1" by (simp only: if_P)
    show ?thesis using r True root_eq [OF okv] w(1) unfolding v finish_turn_def by (simp add: Let_def)
  next
    case False
    then have v: "?v = v1" by (simp only: if_False)
    show ?thesis using r False w(1) unfolding v finish_turn_def by (auto simp: Let_def)
  qed
  with okv pv w(2) show ?thesis by blast
qed

lemma late_iff:
  assumes ok: "timers_ok N v"
  shows "(case timers (lists v ! current v) ! 1 of None \<Rightarrow> Some False
     | Some i \<Rightarrow> map_option (\<lambda>b. timeout b > OSGetTickCount k) (rd (mem v) i)) =
     Some (cur_armed v \<noteq> {} \<and> due_timers (OSTickCounter k) v = {})"
proof (cases "timers (lists v ! current v) ! 1")
  case None
  with root_empty [OF timers_okD(6) [OF ok]] show ?thesis by simp
next
  case (Some i)
  note ra = root_armed [OF timers_okD(6) [OF ok] Some]
  have "timeout (mem v ! i) > OSTickCounter k \<longleftrightarrow> due_timers (OSTickCounter k) v = {}"
    using ra(2,4) by (auto simp: due_timers_def not_le dest: order_less_le_trans)
  with Some ra(2,3) show ?thesis by (auto simp: OSGetTickCount_def)
qed

text \<open>A turn that starts on time: the timers that are due fire.\<close>

lemma timer_wake_spec:
  assumes ok: "timers_ok N v" and q: "tidy act cb" and ontime: "cur_armed v \<noteq> {} \<longrightarrow> due_timers (OSTickCounter k) v \<noteq> {}"
  shows "\<exists>ps w tmo' k' v'. BRTOSTimerTask_wake cb N tmo k v = Some (w, tmo', k', v') \<and> timers_ok N v' \<and> pass act ps k v k' v' \<and> sleeps_well v' w"
  using finish_turn_spec [OF ok q, of tmo k] root_eq [OF ok] late_iff [OF ok, of k] ontime
  unfolding BRTOSTimerTask_wake_def by (auto simp: Let_def)

section \<open>Late wake-ups\<close>

text \<open>
  A turn in which the earliest timer is still ahead is taken for one in which the tick counter has
  wrapped: every timer of the list fires at once, and the ones that repeat go to the other list, counted from
  the current tick.
\<close>

lemma ucast_sum: "ucast ((ucast a :: osdtick_t) + ucast b) = a + b" for a b :: ostick_t
proof -
  have "unat a < 65536" "unat b < 65536" using unsigned_less [of a, where 'a = nat] unsigned_less [of b, where 'a = nat] by simp_all
  then have "unat ((ucast a :: osdtick_t) + ucast b) = unat a + unat b"
    by (simp add: unat_word_ariths unsigned_ucast_eq take_bit_nat_eq_self)
  then show ?thesis by (simp add: word_unat_eq_iff unsigned_ucast_eq take_bit_eq_mod unat_word_ariths)
qed

lemma expire_rest_spec:
  fixes k' :: kernel
  assumes ok: "timers_ok N v" and q: "tidy act cb" and r: "timers (lists v ! current v) ! 1 = Some i" and a: "answer act (mem v ! i) k = (rp, k')"
  defines "b \<equiv> mem v ! i" and "T \<equiv> OSTickCounter k'"
  shows "\<exists>tmo' v'. expire_rest cb N (current v) i (tmo, k, v) = Some (tmo', k', v') \<and> timers_ok N v' \<and>
     mem v' = (mem v)[i := rearm (+) T rp b] \<and> current v' = current v \<and> future v' = future v \<and> cur_armed v' = cur_armed v - {i} \<and>
     fut_armed v' = (if rp > 0 then insert i (fut_armed v) else fut_armed v)"
proof -
  note d = timers_okD [OF ok]
  note ra = root_armed [OF d(6) r]
  let ?m = "(mem v)[i := rearm (+) T rp b]" let ?c = "lists v ! current v" let ?f = "lists v ! future v"
  have ml: "length ?m = length (mem v)" and mo: "\<forall>p. p \<noteq> i \<longrightarrow> timeout (?m ! p) = timeout (mem v ! p)" by simp_all
  have il: "i < length (mem v)" using ra(3) .
  have nf: "i \<notin> fut_armed v" using d(8) ra(2) by blast
  have fo: "list_ok N ?m ?f" by (rule list_ok_fresh [OF d(7) nf])
  have cf: "unat (count ?f) < N - 1" using d(9) ra(1) by linarith
  note ev = Let_def expire_rest_def run_callback_tidy [OF q il a] set_timer_Some il b_def T_def OSGetTickCount_def ucast_sum
  from drop_order [OF d(6) ml mo r] obtain l1 l2 where l: "drop_root ?c = Some l1" "list_order ?m l1 = Some l2" "list_ok N ?m l2"
    "armed l2 = armed ?c - {i}" "unat (count l2) = unat (count ?c) - 1" .
  show ?thesis
  proof (cases "rp > 0")
    case False
    let ?v = "v\<lparr>mem := ?m, lists := (lists v)[current v := l2]\<rparr>"
    have fb: "rearm (+) T rp b = b\<lparr>timeout := 0, state := TIMER_NOT_USED, func_cb := None\<rparr>" using False by (simp add: rearm_def)
    have "expire_rest cb N (current v) i (tmo, k, v) = Some (tmo, k', ?v)"
      using False l(1,2) d(2,3) by (simp add: ev retire_def on_list_def fb [unfolded b_def T_def])
    moreover have "timers_ok N ?v"
      by (rule timers_ok_update [OF ok ra(2), of "rearm (+) T rp b" l2 ?f False]) (use d l fo nf in \<open>auto simp: fb\<close>)
    ultimately show ?thesis using False d l by (intro exI [of _ tmo] exI [of _ ?v]) auto
  next
    case True
    from list_add_spec [OF fo cf _ nf] il obtain lf where lf: "list_add N ?m i ?f = Some lf" "list_ok N ?m lf"
      "armed lf = insert i (armed ?f)" "unat (count lf) = Suc (unat (count ?f))" by auto
    let ?v = "v\<lparr>mem := ?m, lists := (lists v)[future v := lf, current v := l2]\<rparr>"
    have fb: "rearm (+) T rp b = b\<lparr>state := TIMER_RUNNING, timeout := T + rp\<rparr>" using True by (simp add: rearm_def)
    have "expire_rest cb N (current v) i (tmo, k, v) = Some ((ucast T :: osdtick_t) + ucast (rp), k', ?v)"
      using True l(1,2) lf(1) d(2,3,4,5) by (simp add: ev to_future_def on_list_def fb [unfolded b_def T_def])
    moreover have "timers_ok N ?v"
      by (rule timers_ok_update [OF ok ra(2), of "rearm (+) T rp b" l2 lf True]) (use d l lf nf ra(1) in \<open>auto simp: fb\<close>)
    ultimately show ?thesis using True d l lf by (intro exI [of _ "(ucast T :: osdtick_t) + ucast (rp)"] exI [of _ ?v]) auto
  qed
qed

lemma run_rest_spec:
  assumes q: "tidy act cb"
  shows "timers_ok N v \<Longrightarrow>
     \<exists>ps tmo' k' v'. run_rest cb N (current v) (timers (lists v ! current v) ! 1) (tmo, k, v) = Some (tmo', k', v') \<and> timers_ok N v' \<and>
       current v' = current v \<and> future v' = future v \<and> cur_armed v' = {} \<and>
       distinct ps \<and> set ps = cur_armed v \<and> (k', mem v') = fold (serve (+) act) ps (k, mem v)"
proof (induction "card (cur_armed v)" arbitrary: v k tmo rule: less_induct)
  case less
  note d = timers_okD [OF less.prems]
  let ?r = "timers (lists v ! current v) ! 1"
  show ?case
  proof (cases ?r)
    case None
    have "run_rest cb N (current v) ?r (tmo, k, v) = Some (tmo, k, v)" unfolding None by (subst run_rest.simps) simp
    with root_empty [OF d(6) None] less.prems show ?thesis by (intro exI [of _ "[]"] exI [of _ tmo] exI [of _ k] exI [of _ v]) auto
  next
    case (Some i)
    note ra = root_armed [OF d(6) Some]
    obtain r k1 where a: "answer act (mem v ! i) k = (r, k1)" by (cases "answer act (mem v ! i) k")
    from expire_rest_spec [OF less.prems q Some a, of tmo] obtain tmo1 v1 where
      e: "expire_rest cb N (current v) i (tmo, k, v) = Some (tmo1, k1, v1)" and ok: "timers_ok N v1"
      and m: "mem v1 = (mem v)[i := rearm (+) (OSTickCounter k1) r (mem v ! i)]" and c: "current v1 = current v" "future v1 = future v"
      and ac: "cur_armed v1 = cur_armed v - {i}" by blast
    have "card (cur_armed v1) < card (cur_armed v)" unfolding ac by (rule card_Diff1_less [OF finite_armed ra(2)])
    from less.hyps [OF this ok, of tmo1 k1] obtain ps tmo2 k2 v2 where
      r: "run_rest cb N (current v1) (timers (lists v1 ! current v1) ! 1) (tmo1, k1, v1) = Some (tmo2, k2, v2)"
      and v2: "timers_ok N v2" "current v2 = current v1" "future v2 = future v1" "cur_armed v2 = {}"
      and ps: "distinct ps" "set ps = cur_armed v1" "(k2, mem v2) = fold (serve (+) act) ps (k1, mem v1)" by blast
    have "run_rest cb N (current v) ?r (tmo, k, v) = Some (tmo2, k2, v2)"
      unfolding Some using e r root_eq [OF ok] c(1) by (subst run_rest.simps) simp
    moreover have "serve (+) act i (k, mem v) = (k1, mem v1)" by (simp add: serve_def a m)
    then have "(k2, mem v2) = fold (serve (+) act) (i # ps) (k, mem v)" using ps(3) by simp
    moreover have "distinct (i # ps)" "set (i # ps) = cur_armed v" using ps(1,2) ac ra(2) by auto
    ultimately show ?thesis using v2 c by (intro exI [of _ "i # ps"] exI [of _ tmo2] exI [of _ k2] exI [of _ v2]) (simp only: simp_thms)
  qed
qed

lemma wake_late:
  assumes ok: "timers_ok N v" and q: "tidy act cb" and r: "cur_armed v \<noteq> {}" "due_timers (OSTickCounter k) v = {}"
  shows "\<exists>ps qs w tmo' k' v' s. BRTOSTimerTask_wake cb N tmo k v = Some (w, tmo', k', v') \<and> timers_ok N v' \<and> sleeps_well v' w \<and>
     distinct ps \<and> set ps = cur_armed v \<and> s = fold (serve (+) act) ps (k, mem v) \<and> (k', mem v') = fold (serve wake_tick act) qs s \<and>
     in_time act qs s \<and> (\<forall>q \<in> set qs. q < N \<and> state (snd s ! q) = TIMER_RUNNING)"
proof -
  from run_rest_spec [OF q ok, of tmo k] obtain ps tmo1 k1 v1 where
    v1: "run_rest cb N (current v) (timers (lists v ! current v) ! 1) (tmo, k, v) = Some (tmo1, k1, v1)" "timers_ok N v1"
      "distinct ps" "set ps = cur_armed v" "(k1, mem v1) = fold (serve (+) act) ps (k, mem v)" by blast
  let ?v = "switch_lists v1"
  have ok2: "timers_ok N ?v" using v1(2) timers_ok_switch by simp
  from finish_turn_spec [OF ok2 q, of tmo1 k1] obtain qs w tmo' k' v' where
    f: "finish_turn cb N (current ?v) (timers (lists ?v ! current ?v) ! 1) (tmo1, k1, ?v) = Some (w, tmo', k', v')" "timers_ok N v'"
      "pass act qs k1 ?v k' v'" "sleeps_well v' w" by blast
  have "BRTOSTimerTask_wake cb N tmo k v = Some (w, tmo', k', v')"
    using root_eq [OF ok] late_iff [OF ok, of k] r v1(1) root_eq [OF ok2] f(1) unfolding BRTOSTimerTask_wake_def by (simp add: Let_def)
  moreover have "mem ?v = mem v1" by (simp add: switch_lists_def)
  with f(3) have "(k', mem v') = fold (serve wake_tick act) qs (k1, mem v1)" "in_time act qs (k1, mem v1)" "set qs \<subseteq> cur_armed ?v"
    by (simp_all add: pass_def)
  moreover have "q < N \<and> state (mem v1 ! q) = TIMER_RUNNING" if "q \<in> set qs" for q
  proof -
    have "q \<in> cur_armed ?v" using that \<open>set qs \<subseteq> cur_armed ?v\<close> by blast
    moreover then have "q < N" using timers_okD(1,6) [OF ok2] by (auto simp: list_ok_def list_shape_def)
    ultimately show ?thesis using timers_okD(10) [OF ok2, of q] \<open>mem ?v = mem v1\<close> by simp
  qed
  ultimately show ?thesis using v1(3,4) v1(5) [symmetric] f(2,4)
    by - (rule exI [of _ ps], rule exI [of _ qs], rule exI [of _ w], rule exI [of _ tmo'],
      rule exI [of _ k'], rule exI [of _ v'], rule exI [of _ "(k1, mem v1)"], simp)
qed

lemma timer_wake_total:
  assumes ok: "timers_ok N v" and q: "tidy act cb"
  shows "\<exists>w tmo' k' v'. BRTOSTimerTask_wake cb N tmo k v = Some (w, tmo', k', v') \<and> timers_ok N v' \<and> sleeps_well v' w"
proof (cases "cur_armed v \<noteq> {} \<and> due_timers (OSTickCounter k) v = {}")
  case True
  with wake_late [OF ok q, of k tmo] show ?thesis by blast
next
  case False
  with timer_wake_spec [OF ok q, of k tmo] show ?thesis by blast
qed

section \<open>Where the timers fail\<close>

text \<open>With no timer in the current list the task never looks at the other one.\<close>

lemma wake_empty:
  assumes ok: "timers_ok N v" and e: "cur_armed v = {}" and t: "tmo \<le> ucast TIMER_MAX_COUNTER"
  shows "BRTOSTimerTask_wake cb N tmo k v = Some (TIMER_MAX_COUNTER, tmo, k, v)"
proof -
  have r: "timers (lists v ! current v) ! 1 = None"
    using root_armed(2) [OF timers_okD(6) [OF ok]] e by (cases "timers (lists v ! current v) ! 1") auto
  have "run_due cb N (current v) None (tmo, k, v) = Some (None, tmo, k, v)" by (subst run_due.simps) simp
  moreover have "\<not> tmo > ucast TIMER_MAX_COUNTER" using t by (simp only: not_less)
  ultimately have "finish_turn cb N (current v) None (tmo, k, v) = Some (TIMER_MAX_COUNTER, tmo, k, v)"
    by (auto simp only: finish_turn_def next_wake_def Option.bind.simps option.case prod.case if_False simp_thms)
  then show ?thesis using root_eq [OF ok] r by (simp add: BRTOSTimerTask_wake_def Let_def)
qed

text \<open>Starting a timer that runs already puts it into the list a second time.\<close>

lemma list_add_twice:
  assumes s: "list_shape N m l" and p: "p \<in> armed l" and c: "unat (count l) < N - 1" and a: "list_add N m p l = Some l'"
  shows "Multiset.count (mset (timers l')) (Some p) = 2"
proof -
  let ?c = "unat (count l)"
  have n: "length (timers l) = N" "N \<le> 128" and e: "timers l ! Suc ?c = None" using s c by (simp_all add: list_shape_def)
  have u: "unat (count l + 1) = Suc ?c" using c n by (intro unat_next) simp
  have o: "Multiset.count (mset (timers l)) (Some p) = 1"
    using s p armed_count [of p l] by (auto simp: list_shape_def intro: le_antisym)
  have "Multiset.count (mset ((timers l)[Suc ?c := Some p])) (Some p) = 2" using armed_fill(2) [OF s _ e, of p p] c o by simp
  moreover from a c n u obtain ts' where "Subir m ((timers l)[Suc ?c := Some p]) (Suc ?c) = Some ts'" "timers l' = ts'"
    by (auto simp: list_add_def split: bind_splits)
  ultimately show ?thesis using Subir_mset by metis
qed

end
