(* ===== verification/ServiceProps.thy ===== *)
theory ServiceProps
  imports Demo Calendar SoftTimer
begin

text \<open>
  Properties of the services beside the kernel: the soft timers (\<^verbatim>\<open>stimer.c\<close>) and the clocks
  (\<^verbatim>\<open>OSTime.c\<close>).
\<close>

section \<open>A table of four timers\<close>

text \<open>Two running timers in the current list, due at the ticks 5 and 9, whose callbacks are 0 and 1.\<close>

definition demo_timer :: "nat \<Rightarrow> ostick_t \<Rightarrow> BRTOS_TIMER_T" where
  "demo_timer f t = \<lparr>func_cb = Some f, timeout = t, state = TIMER_RUNNING\<rparr>"

definition demo_idle :: BRTOS_TIMER_T where
  "demo_idle = \<lparr>func_cb = None, timeout = 0, state = TIMER_NOT_USED\<rparr>"

definition demo_timers :: timer_vector where
  "demo_timers = \<lparr>mem = [demo_timer 0 5, demo_timer 1 9, demo_idle, demo_idle],
     lists = [\<lparr>timers = [None, Some 0, Some 1, None], count = 2\<rparr>, \<lparr>timers = replicate 4 None, count = 0\<rparr>],
     current = 0, future = 1, handling_task = 2\<rparr>"

definition demo_at :: "ostick_t \<Rightarrow> kernel" where
  "demo_at t = (demo ready_high 3)\<lparr>OSTickCounter := t\<rparr>"

lemma demo_at_tick [simp]: "OSTickCounter (demo_at t) = t" "length (ContextTask (demo_at t)) = 4"
  by (simp_all add: demo_at_def)

lemma demo_timers_simps [simp]:
  "mem demo_timers = [demo_timer 0 5, demo_timer 1 9, demo_idle, demo_idle]" "current demo_timers = 0" "future demo_timers = 1"
  "handling_task demo_timers = 2" "timeout (demo_timer f t) = t" "state (demo_timer f t) = TIMER_RUNNING" "func_cb (demo_timer f t) = Some f"
  by (simp_all add: demo_timers_def demo_timer_def)

lemma demo_armed: "cur_armed demo_timers = {0, 1}" "fut_armed demo_timers = {}"
  by (auto simp: armed_def demo_timers_def)

lemma all_less_4: "(\<forall>p < 4. P p) \<longleftrightarrow> P 0 \<and> P 1 \<and> P 2 \<and> P (3 :: nat)"
  by (auto simp: less_Suc_eq numeral_eq_Suc)

lemma demo_lists: "timers (lists demo_timers ! 0) = [None, Some 0, Some 1, None]" "unat (count (lists demo_timers ! 0)) = 2"
  "lists demo_timers ! 1 = \<lparr>timers = replicate 4 None, count = 0\<rparr>" "length (lists demo_timers) = 2"
  by (simp_all add: demo_timers_def)

lemma demo_list_ok: "list_ok 4 (mem demo_timers) (lists demo_timers ! 0)"
proof -
  have i: "2 \<le> i \<and> i \<le> 2 \<longleftrightarrow> i = 2" for i :: nat by linarith
  have "heap (mem demo_timers) [None, Some 0, Some 1, None] 2" unfolding heap_def i by (simp add: key_def)
  moreover have "\<forall>p \<in> armed (lists demo_timers ! 0). p < 4" using demo_armed(1) by auto
  moreover have "Multiset.count (mset [None, Some 0, Some 1, None]) (Some p) \<le> 1" for p :: nat by simp
  ultimately show ?thesis unfolding list_ok_def list_shape_def all_less_4 demo_lists by (auto simp: numeral_eq_Suc)
qed

lemma demo_timers_ok: "timers_ok 4 demo_timers"
proof -
  have "list_ok 4 (mem demo_timers) (lists demo_timers ! 1)" unfolding demo_lists by (rule list_ok_empty) simp_all
  with demo_list_ok show ?thesis unfolding timers_ok_def all_less_4
    using demo_armed by (simp add: demo_lists(2,4)) (simp add: demo_idle_def, simp add: demo_timers_def)
qed

text \<open>Callbacks that do not ask for a repetition, and callbacks as the one of timer 2 in \<^verbatim>\<open>tests/test_stimer.c\<close>: the tick counter advances by
  five meanwhile, and the timer is to be repeated after 100 ticks.\<close>

definition once :: actions where
  "once f k = (0, k)"

definition busy :: actions where
  "busy f k = (100, (OSIncCounter ^^ 5) k)"

definition callbacks_of :: "actions \<Rightarrow> callbacks" where
  "callbacks_of act f k v = (fst (act f k), snd (act f k), v)"

lemma callbacks_of_tidy: "tidy act (callbacks_of act)"
  by (simp add: tidy_def callbacks_of_def)

lemma once_serve: "serve re once p (k, m) = (k, m[p := (m ! p)\<lparr>timeout := 0, state := TIMER_NOT_USED, func_cb := None\<rparr>])"
  by (simp add: serve_def answer_def once_def rearm_def split: option.split)

lemma busy_serve:
  assumes "func_cb (m ! p) = Some f"
  shows "serve re busy p (k, m) = ((OSIncCounter ^^ 5) k, m[p := (m ! p)\<lparr>state := TIMER_RUNNING, timeout := re (OSTickCounter ((OSIncCounter ^^ 5) k)) 100\<rparr>])"
  using assms by (simp add: serve_def answer_def busy_def rearm_def word_gt_0)

lemma inc_5 [simp]: "OSTickCounter ((OSIncCounter ^^ 5) (demo_at 5)) = 10" "OSTickCounter ((OSIncCounter ^^ 5) ((OSIncCounter ^^ 5) (demo_at 5))) = 15"
proof -
  have f: "(OSIncCounter ^^ 5) k = OSIncCounter (OSIncCounter (OSIncCounter (OSIncCounter (OSIncCounter k))))" for k by (simp add: numeral_eq_Suc)
  show "OSTickCounter ((OSIncCounter ^^ 5) (demo_at 5)) = 10" "OSTickCounter ((OSIncCounter ^^ 5) ((OSIncCounter ^^ 5) (demo_at 5))) = 15"
    unfolding f by (simp_all add: OSIncCounter_def)
qed

section \<open>Soft timers\<close>

text \<open>
  C15: a turn of the timer task that begins when the earliest timer of the current list is due serves a sequence \<open>ps\<close> of timers of this list: each is due when it is
  served, its callback runs, and it is armed again for the number of ticks the callback asked for, counted from the end of the callback, or freed. At the end no timer of the
  list is due, no timer outside \<open>ps\<close> has changed, and the task sleeps until the earliest timer of the list that is the current one then. If no tick passes meanwhile, the timers served are
  exactly the ones that are due, each once. A callback may change the kernel and take any number of ticks; it is
  assumed not to start, stop or set timers.
\<close>

theorem timer_fires_due:
  assumes ok: "timers_ok N v" and q: "tidy act cb" and due: "cur_armed v \<noteq> {} \<longrightarrow> due_timers (OSTickCounter k) v \<noteq> {}"
  shows "\<exists>ps w tmo' k' v'. BRTOSTimerTask_wake cb N tmo k v = Some (w, tmo', k', v') \<and> timers_ok N v' \<and>
     (k', mem v') = fold (serve wake_tick act) ps (k, mem v) \<and> in_time act ps (k, mem v) \<and> set ps \<subseteq> cur_armed v \<and>
     (\<forall>p. p \<notin> set ps \<longrightarrow> mem v' ! p = mem v ! p) \<and>
     cur_armed v \<subseteq> armed (lists v' ! current v) \<union> set ps \<and> (\<forall>p \<in> armed (lists v' ! current v). OSTickCounter k' < timeout (mem v' ! p)) \<and>
     ((\<forall>f k. OSTickCounter (snd (act f k)) = OSTickCounter k) \<longrightarrow> distinct ps \<and> set ps = due_timers (OSTickCounter k) v) \<and> sleeps_well v' w"
proof -
  from timer_wake_spec [OF ok q due, of tmo] obtain ps w tmo' k' v' where
    r: "BRTOSTimerTask_wake cb N tmo k v = Some (w, tmo', k', v')" "timers_ok N v'" "pass act ps k v k' v'" "sleeps_well v' w" by blast
  have "mem v' ! p = mem v ! p" if "p \<notin> set ps" for p
    using serve_others [OF that, of wake_tick act "(k, mem v)"] r(3) by (metis pass_def snd_conv)
  with r show ?thesis unfolding pass_def by blast
qed

lemma demo_due: "due_timers 5 demo_timers = {0}"
  unfolding due_timers_def demo_armed by (auto simp: word_le_nat_alt)

lemma busy_turn:
  assumes t: "in_time busy ps (demo_at 5, mem demo_timers)" and s: "set ps \<subseteq> {0, 1}"
    and f: "(k', mem v') = fold (serve wake_tick busy) ps (demo_at 5, mem demo_timers)"
    and A: "{0, 1} \<subseteq> A \<union> set ps" "\<forall>p \<in> A. OSTickCounter k' < timeout (mem v' ! p)"
  shows "OSTickCounter k' = 15 \<and> timeout (mem v' ! 0) = 110 \<and> timeout (mem v' ! 1) = 115"
proof -
  let ?k1 = "(OSIncCounter ^^ 5) (demo_at 5)" let ?k2 = "(OSIncCounter ^^ 5) ?k1"
  let ?b = "\<lambda>f t. (demo_timer f t)\<lparr>state := TIMER_RUNNING, timeout := t\<rparr>"
  have w: "wake_tick 10 100 = 110" "wake_tick 15 100 = 115" by (simp_all add: wake_tick_def word_le_nat_alt)
  let ?s1 = "(?k1, [(demo_timer 0 5)\<lparr>state := TIMER_RUNNING, timeout := 110\<rparr>, demo_timer 1 9, demo_idle, demo_idle])"
  let ?s2 = "(?k2, [(demo_timer 0 5)\<lparr>state := TIMER_RUNNING, timeout := 110\<rparr>, (demo_timer 1 9)\<lparr>state := TIMER_RUNNING, timeout := 115\<rparr>, demo_idle, demo_idle])"
  have s1: "serve wake_tick busy 0 (demo_at 5, mem demo_timers) = ?s1" by (subst busy_serve [where f = 0]) (simp_all add: w)
  have s2: "serve wake_tick busy 1 ?s1 = ?s2" by (subst busy_serve [where f = 1]) (simp_all add: w)
  have "ps \<noteq> []" using A f by (fastforce simp: word_less_nat_alt)
  with t s obtain qs where p: "ps = 0 # qs" by (cases ps) (auto simp: word_le_nat_alt)
  have "qs \<noteq> []" using A f s1 p by (fastforce simp: word_less_nat_alt)
  with t s p s1 obtain rs where q: "qs = 1 # rs" by (cases qs) (auto simp: word_le_nat_alt)
  have "rs = []" using t s p q s1 s2 by (cases rs) (auto simp: word_le_nat_alt)
  with f p q s1 s2 have "(k', mem v') = ?s2" by (simp only: fold.simps o_apply id_apply)
  then show ?thesis by simp
qed

text \<open>At tick 5 the first timer is due. If its callback takes no time it is the only one that runs; if it takes five ticks, the second timer, which was
  armed for tick 9, runs in the same turn.\<close>

theorem timer_fires_due_witness:
  "(\<exists>w tmo' v'. BRTOSTimerTask_wake (callbacks_of once) 4 0 (demo_at 5) demo_timers = Some (w, tmo', demo_at 5, v') \<and>
     state (mem v' ! 0) = TIMER_NOT_USED \<and> mem v' ! 1 = demo_timer 1 9) \<and>
   (\<exists>w tmo' k' v'. BRTOSTimerTask_wake (callbacks_of busy) 4 0 (demo_at 5) demo_timers = Some (w, tmo', k', v') \<and>
     OSTickCounter k' = 15 \<and> timeout (mem v' ! 0) = 110 \<and> timeout (mem v' ! 1) = 115)"
proof (intro conjI)
  have d: "cur_armed demo_timers \<noteq> {} \<longrightarrow> due_timers (OSTickCounter (demo_at 5)) demo_timers \<noteq> {}" using demo_due by simp
  note t = timer_fires_due [OF demo_timers_ok callbacks_of_tidy d, of _ 0]
  from t [of once] demo_due obtain ps w tmo' k' v' where
    o: "BRTOSTimerTask_wake (callbacks_of once) 4 0 (demo_at 5) demo_timers = Some (w, tmo', k', v')" "distinct ps" "set ps = {0}"
      "(k', mem v') = fold (serve wake_tick once) ps (demo_at 5, mem demo_timers)" "\<forall>p. p \<notin> set ps \<longrightarrow> mem v' ! p = mem demo_timers ! p"
    by (auto simp: once_def)
  have "ps = [0]" using o(2,3) by (cases ps; cases "tl ps") auto
  with o show "\<exists>w tmo' v'. BRTOSTimerTask_wake (callbacks_of once) 4 0 (demo_at 5) demo_timers = Some (w, tmo', demo_at 5, v') \<and>
     state (mem v' ! 0) = TIMER_NOT_USED \<and> mem v' ! 1 = demo_timer 1 9" by (auto simp: once_serve)
  from t [of busy] obtain ps w tmo' k' v' where
    b: "BRTOSTimerTask_wake (callbacks_of busy) 4 0 (demo_at 5) demo_timers = Some (w, tmo', k', v')"
      "(k', mem v') = fold (serve wake_tick busy) ps (demo_at 5, mem demo_timers)" "in_time busy ps (demo_at 5, mem demo_timers)"
      "set ps \<subseteq> cur_armed demo_timers" "cur_armed demo_timers \<subseteq> armed (lists v' ! current demo_timers) \<union> set ps"
      "\<forall>p \<in> armed (lists v' ! current demo_timers). OSTickCounter k' < timeout (mem v' ! p)" by blast
  from busy_turn [OF b(3) _ b(2) _ b(6)] b(4,5) b(1) demo_armed(1)
  show "\<exists>w tmo' k' v'. BRTOSTimerTask_wake (callbacks_of busy) 4 0 (demo_at 5) demo_timers = Some (w, tmo', k', v') \<and>
     OSTickCounter k' = 15 \<and> timeout (mem v' ! 0) = 110 \<and> timeout (mem v' ! 1) = 115" by metis
qed

text \<open>
  C16: every turn of the timer task ends, whether it begins in time or not, and the task goes to sleep with consistent lists until the earliest timer. The callbacks may take any number of
  ticks, past the wrap-around too, and ask for any repetition, even one shorter than they take themselves: a timer is armed again for a tick after the end of its callback, so
  that its time-out grows with each run and the loop comes to an end. They are assumed to return and not to start, stop or set timers.
\<close>

theorem timer_task_returns:
  assumes "timers_ok N v" and "tidy act cb"
  shows "\<exists>w tmo' k' v'. BRTOSTimerTask_wake cb N tmo k v = Some (w, tmo', k', v') \<and> timers_ok N v' \<and> sleeps_well v' w"
  by (rule timer_wake_total [OF assms])

theorem timer_task_returns_witness:
  "\<exists>w tmo' k' v'. BRTOSTimerTask_wake (callbacks_of busy) 4 0 (demo_at 2) demo_timers = Some (w, tmo', k', v') \<and> timers_ok 4 v'"
  using timer_task_returns [OF demo_timers_ok callbacks_of_tidy] by blast

text \<open>
  a timer that was set for \<open>w\<close> ticks has \<open>w\<close> ticks left: \<^verbatim>\<open>OSTimerGet\<close> inverts \<^verbatim>\<open>OSTimerSet\<close>,
  across the wrap-around of the tick counter. The timer gets the first free block, which holds the callback.
\<close>

theorem timer_set_get:
  assumes ok: "timers_ok N v" and f: "find_block (mem v) 0 = Inr p"
    and room: "unat (count (lists v ! current v)) + unat (count (lists v ! future v)) + 1 < N"
    and h: "unat (handling_task v) < length (ContextTask k)" and w: "0 < w" "w < TICK_COUNT_OVERFLOW" and t: "tick_ok k"
  shows "\<exists>k' v'. OSTimerSet N (Some x) (Some cb) w k v = Some (OK, Some (Some p), k', v') \<and> timers_ok N v' \<and>
     state (mem v' ! p) = TIMER_RUNNING \<and> func_cb (mem v' ! p) = Some cb \<and> (\<forall>q. q \<noteq> p \<longrightarrow> mem v' ! q = mem v ! q) \<and>
     OSTimerGet (Some p) k' v' = Some w"
proof -
  from OSTimerSet_spec [OF ok f room h w(1), of x cb] obtain k' v' where
    s: "OSTimerSet N (Some x) (Some cb) w k v = Some (OK, Some (Some p), k', v')" "timers_ok N v'"
      "mem v' = (mem v)[p := (mem v ! p)\<lparr>func_cb := Some cb, timeout := wake_tick (OSTickCounter k) w, state := TIMER_RUNNING\<rparr>]"
      "OSTickCounter k' = OSTickCounter k" by blast
  have p: "p < length (mem v)" using find_block_Inr [OF f] by simp
  have g: "OSTimerGet (Some p) k' v' = Some w" by (rule OSTimerGet_wake) (use s p t w(2) in simp_all)
  show ?thesis using s p g by (intro exI [of _ k'] exI [of _ v']) simp
qed

theorem timer_set_get_witness:
  "\<exists>k' v'. OSTimerSet 4 (Some None) (Some 7) 20 (demo_at 65530) demo_timers = Some (OK, Some (Some 2), k', v') \<and>
     func_cb (mem v' ! 2) = Some 7 \<and> OSTimerGet (Some 2) k' v' = Some 20"
proof -
  have c: "unat (count (lists demo_timers ! current demo_timers)) + unat (count (lists demo_timers ! future demo_timers)) + 1 < 4"
    by (simp add: demo_timers_def)
  have f: "find_block (mem demo_timers) 0 = Inr 2" by (simp add: demo_idle_def)
  from timer_set_get [OF demo_timers_ok f c, of "demo_at 65530" 20 None 7] show ?thesis by auto
qed

text \<open>
  stopping a running timer takes exactly that timer out of its list, whatever its position in the heap, and frees
  its block if asked to. The list is found by comparing the time-out with the tick counter; and no other running timer may have the
  time-out 0, by which the stopped timer is moved to the root.
\<close>

theorem timer_stop:
  assumes "timers_ok N v" and "i < N" and "state (mem v ! i) = TIMER_RUNNING"
    and "i \<in> cur_armed v \<longleftrightarrow> timeout (mem v ! i) \<ge> OSTickCounter k"
    and "\<forall>q \<in> cur_armed v \<union> fut_armed v - {i}. 0 < timeout (mem v ! q)"
  shows "\<exists>v'. OSTimerStop (Some i) del k v = Some (OK, v') \<and> timers_ok N v' \<and>
     cur_armed v' = cur_armed v - {i} \<and> fut_armed v' = fut_armed v - {i} \<and> (\<forall>q. q \<noteq> i \<longrightarrow> mem v' ! q = mem v ! q) \<and>
     state (mem v' ! i) = (if del > 0 then TIMER_NOT_USED else TIMER_STOPPED)"
  using OSTimerStop_spec [OF assms] by blast

theorem timer_stop_witness:
  "\<exists>v'. OSTimerStop (Some 1) 1 (demo_at 3) demo_timers = Some (OK, v') \<and> cur_armed v' = {0} \<and> mem v' ! 0 = demo_timer 0 5 \<and>
     state (mem v' ! 1) = TIMER_NOT_USED"
proof -
  have p: "1 \<in> cur_armed demo_timers \<longleftrightarrow> timeout (mem demo_timers ! 1) \<ge> OSTickCounter (demo_at 3)"
    using demo_armed by (simp add: word_le_nat_alt)
  have q: "\<forall>q \<in> cur_armed demo_timers \<union> fut_armed demo_timers - {1}. 0 < timeout (mem demo_timers ! q)"
    unfolding demo_armed by (auto simp: word_less_nat_alt)
  from timer_stop [OF demo_timers_ok _ _ p q, of 1] demo_armed show ?thesis by auto
qed





section \<open>The clocks\<close>

text \<open>
  C25: the calendar is the Gregorian calendar. From every valid date, \<open>n\<close> calls of \<^verbatim>\<open>OSUpdateCalendar\<close> show
  the one valid date that lies \<open>n\<close> seconds later, leap years included, up to the last year of the 16-bit counter.
\<close>

theorem calendar_counts_seconds:
  assumes v: "valid_rtc (GetCalendar c)" and n: "instant (GetCalendar c) + n \<le> end_of_calendar"
  shows "\<exists>c'. run_calendar n c = Some c' \<and> (\<forall>r. valid_rtc r \<and> instant r = instant (GetCalendar c) + n \<longleftrightarrow> r = GetCalendar c')"
proof -
  from run_calendar_spec [OF v [unfolded GetCalendar_def], of n] n obtain c' where
    c: "run_calendar n c = Some c'" "valid_rtc (OSRtc c')" "instant (OSRtc c') = instant (OSRtc c) + n" by (auto simp: GetCalendar_def)
  with instant_inj show ?thesis by (intro exI [of _ c']) (auto simp: GetCalendar_def)
qed

text \<open>The last second of February in a leap year.\<close>

definition demo_clock :: clock where
  "demo_clock = \<lparr>Hora = \<lparr>RTC_Second = 59, RTC_Minute = 59, RTC_Hour = 23\<rparr>, Data = \<lparr>RTC_Day = 29, RTC_Month = 11, RTC_Year = 5\<rparr>,
     OSRtc = \<lparr>Year = 2012, Month = 2, Day = 28, Hour = 23, Min = 59, Sec = 59\<rparr>, LeapMonth = 0\<rparr>"

lemma demo_rtc_valid: "valid_rtc (OSRtc demo_clock)"
  by (simp add: demo_clock_def valid_rtc_nat days_of_month_def leap_year_def)

theorem calendar_counts_seconds_witness:
  "\<forall>r. valid_rtc r \<and> instant r = instant (OSRtc demo_clock) + 1 \<longleftrightarrow> r = \<lparr>Year = 2012, Month = 2, Day = 29, Hour = 0, Min = 0, Sec = 0\<rparr>"
proof -
  have "run_calendar 1 demo_clock = Some (demo_clock\<lparr>OSRtc := \<lparr>Year = 2012, Month = 2, Day = 29, Hour = 0, Min = 0, Sec = 0\<rparr>, LeapMonth := 1\<rparr>)"
    by (simp add: demo_clock_def OSUpdateCalendar_def leap_month_def MonthLength_def Let_def)
  moreover have "instant (OSRtc demo_clock) + 1 \<le> end_of_calendar" by (rule instant_before_end [OF demo_rtc_valid]) (simp add: demo_clock_def)
  ultimately show ?thesis using calendar_counts_seconds [of demo_clock 1] demo_rtc_valid by (simp add: GetCalendar_def)
qed

text \<open>
  C26: every field of the calendar stays in its range, for any number of seconds, so that the index into the table of
  the month lengths is always in bounds; the year wraps to zero after 65535.
\<close>

theorem calendar_in_range:
  assumes "valid_rtc rtc"
  shows "\<exists>c'. run_calendar n (SetCalendar rtc c) = Some c' \<and> valid_rtc (GetCalendar c') \<and> Hora c' = Hora c \<and> Data c' = Data c"
  using run_calendar_spec [of "SetCalendar rtc c" n] assms by (auto simp: SetCalendar_def GetCalendar_def)

theorem calendar_in_range_witness:
  "\<exists>c'. run_calendar 100000 (SetCalendar (OSRtc demo_clock) demo_clock) = Some c' \<and> valid_rtc (GetCalendar c')"
  using calendar_in_range [OF demo_rtc_valid] by blast

text \<open>
  the up-time is exact modulo 256 days: \<open>n\<close> calls of \<^verbatim>\<open>OSUpdateUptime\<close> add \<open>n\<close> seconds, and the
  8-bit counter of the days wraps silently.
\<close>

theorem uptime_exact:
  assumes "valid_time (OSUptime c)"
  shows "valid_time (OSUptime ((OSUpdateUptime ^^ n) c)) \<and> uptime ((OSUpdateUptime ^^ n) c) = (uptime c + n) mod (256 * 86400)"
  using uptime_iterate [of c n] assms by (simp add: OSUptime_def)

theorem uptime_exact_witness:
  "uptime ((OSUpdateUptime ^^ 86400) demo_clock) = 30 * 86400 + 86399"
proof -
  have "valid_time (OSUptime demo_clock)" by (simp add: valid_time_def OSUptime_def demo_clock_def)
  moreover have "uptime demo_clock = 29 * 86400 + 86399" by (simp add: uptime_def seconds_def demo_clock_def)
  ultimately show ?thesis using uptime_exact [of demo_clock 86400] by simp
qed

text \<open>
  \<^verbatim>\<open>OSUpdateDate\<close> counts days in twelve months of thirty days, and the year returns to zero after 9998.
\<close>

theorem date_thirty_days:
  assumes "valid_date (OSUpDate c)"
  shows "valid_date (OSUpDate (OSUpdateDate c)) \<and> date_number (OSUpDate (OSUpdateDate c)) = (date_number (OSUpDate c) + 1) mod (9999 * 360)"
  using OSUpdateDate_spec [of c] assms by (simp add: OSUpDate_def)

theorem date_thirty_days_witness:
  "date_number (OSUpDate (OSUpdateDate demo_clock)) = 6 * 360"
proof -
  have "valid_date (OSUpDate demo_clock)" by (simp add: valid_date_def OSUpDate_def demo_clock_def)
  moreover have "date_number (OSUpDate demo_clock) = 5 * 360 + 359" by (simp add: date_number_def OSUpDate_def demo_clock_def)
  ultimately show ?thesis using date_thirty_days [of demo_clock] by simp
qed

end
