(* ===== verification/Info.thy ===== *)
theory Info
  imports Kernel Calendar "HOL-Library.Signed_Division"
begin

text \<open>
  \<^verbatim>\<open>src/brtos/OSInfo.c\<close>: the text output of the kernel's state. Every function writes through a
  moving pointer into a buffer of the caller and through a local array into which numbers are
  printed; both are character lists here, and a write beyond the end of either is the result
  \<^term>\<open>None\<close>. A position in the caller's buffer is the pointer \<^verbatim>\<open>string\<close>.
\<close>

section \<open>Characters and numbers\<close>

abbreviation (input) NUL :: char where "NUL \<equiv> CHR 0x00"

definition byte :: "int \<Rightarrow> char" where
  "byte x = char_of (nat (x mod 256))"

text \<open>Conversion to the type \<^verbatim>\<open>int16_t\<close>.\<close>

definition wrap16 :: "int \<Rightarrow> int" where
  "wrap16 x = (x + 32768) mod 65536 - 32768"

section \<open>Operations\<close>

function mem_cpy :: "string \<Rightarrow> nat \<Rightarrow> string \<Rightarrow> nat \<Rightarrow> nat \<Rightarrow> (nat \<times> string) option" where
  "mem_cpy dst d src s i = do {
     c \<leftarrow> rd src s;
     if c = NUL then Some (i, dst)
     else do {
       dst \<leftarrow> wr dst d c;
       mem_cpy dst (Suc d) src (Suc s) (Suc i) } }"
  by pat_completeness auto
termination by (relation "measure (\<lambda>(_, _, src, s, _). length src - s)") (auto simp: rd_def split: if_splits)

declare mem_cpy.simps [simp del]

text \<open>\<^verbatim>\<open>string += mem_cpy(string, src)\<close>, the same for a string literal, and \<^verbatim>\<open>*string++ = c\<close>.\<close>

type_synonym cursor = "string \<times> nat"

definition cat :: "string \<Rightarrow> nat \<Rightarrow> cursor \<Rightarrow> cursor option" where
  "cat src s z = (case z of (dst, d) \<Rightarrow> map_option (\<lambda>(i, dst). (dst, d + i)) (mem_cpy dst d src s 0))"

definition cats :: "string \<Rightarrow> cursor \<Rightarrow> cursor option" where
  "cats lit = cat (lit @ [NUL]) 0"

definition putc :: "char \<Rightarrow> cursor \<Rightarrow> cursor option" where
  "putc c z = (case z of (dst, d) \<Rightarrow> map_option (\<lambda>dst. (dst, Suc d)) (wr dst d c))"

definition end_string :: "cursor \<Rightarrow> cursor option" where
  "end_string z = (case z of (dst, d) \<Rightarrow> map_option (\<lambda>dst. (dst, d)) (wr dst d NUL))"

text \<open>\<^verbatim>\<open>PrintDecimal\<close>: the loop that fills with spaces, the loop over the digits, and the whole function,
  whose result is the offset of the returned pointer.\<close>

fun fill_spaces :: "nat \<Rightarrow> string \<Rightarrow> string option" where
  "fill_spaces 0 buff = Some buff"
| "fill_spaces (Suc i) buff = do { buff \<leftarrow> fill_spaces i buff; wr buff i CHR '' '' }"

fun put_digits :: "nat \<Rightarrow> int \<Rightarrow> string \<Rightarrow> (nat \<times> string) option" where
  "put_digits 0 val buff = Some (0, buff)"
| "put_digits (Suc i) val buff = do {
     let backup = val mod 65536;
     let val = wrap16 (val sdiv 10);
     buff \<leftarrow> wr buff (Suc i) (byte (backup - val * 10 + 48));
     if val = 0 then Some (i, buff) else put_digits i val buff }"

definition PrintDecimal :: "int \<Rightarrow> string \<Rightarrow> (nat \<times> string) option" where
  "PrintDecimal val buff = do {
     buff \<leftarrow> fill_spaces 6 buff;
     buff \<leftarrow> wr buff 6 NUL;
     let (val, s) = (if val < 0 then (wrap16 (- val), CHR ''-'') else (val, CHR '' ''));
     (i, buff) \<leftarrow> put_digits 5 val buff;
     buff \<leftarrow> wr buff i s;
     Some (if s = CHR ''-'' then i else Suc i, buff) }"

text \<open>A number printed into the local array and copied from there, from the returned pointer or from a fixed offset.\<close>

definition print_at :: "nat option \<Rightarrow> int \<Rightarrow> string \<Rightarrow> cursor \<Rightarrow> (string \<times> cursor) option" where
  "print_at off v str z = do {
     (p, str) \<leftarrow> PrintDecimal v str;
     z \<leftarrow> cat str (case off of None \<Rightarrow> p | Some i \<Rightarrow> i) z;
     Some (str, z) }"

abbreviation (input) newline :: string where "newline \<equiv> [CHR 0x0A, CHR 0x0D]"

text \<open>\<open>str\<close> is the local array \<^verbatim>\<open>CHAR8 str[6]\<close> as the function finds it.\<close>

definition OSUptimeInfo :: "string \<Rightarrow> clock \<Rightarrow> cursor \<Rightarrow> cursor option" where
  "OSUptimeInfo str c z = do {
     let Uptime = OSUptime c;
     let UpDate = OSUpDate c;
     z \<leftarrow> cats (newline @ ''BRTOS UPTIME: '') z;
     (str, z) \<leftarrow> (if RTC_Day UpDate > 0
       then do {
         (str, z) \<leftarrow> print_at None (uint (RTC_Day UpDate)) str z;
         z \<leftarrow> cats ''d '' z;
         Some (str, z) }
       else Some (str, z));
     (str, z) \<leftarrow> print_at None (uint (RTC_Hour Uptime)) str z;
     z \<leftarrow> cats ''h '' z;
     (str, z) \<leftarrow> print_at None (uint (RTC_Minute Uptime)) str z;
     z \<leftarrow> cats ''m '' z;
     (str, z) \<leftarrow> print_at None (uint (RTC_Second Uptime)) str z;
     z \<leftarrow> cats (''s'' @ newline) z;
     end_string z }"

definition OSCPULoad :: "kernel \<Rightarrow> cursor \<Rightarrow> cursor option" where
  "OSCPULoad k z = do {
     let percent = LastOSDuty k;
     z \<leftarrow> cats (newline @ ''CPU LOAD: '') z;
     z \<leftarrow> (if percent \<ge> 1000 then cats ''100 %'' z
       else do {
         let cent = (ucast (percent div 100) :: uint8_t);
         let caracter = cent + 48;
         z \<leftarrow> (if caracter \<noteq> 48 then putc (char_of (unat caracter)) z else Some z);
         let dez = (ucast ((percent - ucast cent * 100) div 10) :: uint8_t);
         let caracter = dez + 48;
         z \<leftarrow> putc (char_of (unat caracter)) z;
         z \<leftarrow> putc CHR ''.'' z;
         let caracter = (ucast (percent mod 10 + 48) :: uint8_t);
         z \<leftarrow> putc (char_of (unat caracter)) z;
         putc CHR ''%'' z });
     z \<leftarrow> cats newline z;
     end_string z }"

text \<open>The three lines that print an amount of used memory from the second character of the field, and the total.\<close>

definition print_usage :: "nat \<Rightarrow> nat \<Rightarrow> string \<Rightarrow> cursor \<Rightarrow> (string \<times> cursor) option" where
  "print_usage used cap str z = do {
     (str, z) \<leftarrow> print_at (Some 1) (wrap16 (int used)) str z;
     z \<leftarrow> cats '' of '' z;
     print_at None (wrap16 (int cap)) str z }"

text \<open>\<open>used\<close> is the result of \<^verbatim>\<open>OSGetUsedHeapSize\<close> of the allocator, \<open>dyn_size\<close> is
  \<^verbatim>\<open>DYNAMIC_HEAP_SIZE\<close>, and the two flags are \<^verbatim>\<open>BRTOS_DYNAMIC_TASKS_ENABLED\<close> and
  \<^verbatim>\<open>BRTOS_DYNAMIC_QUEUE_ENABLED\<close>. The local array has eight bytes.\<close>

definition OSAvailableMemory :: "config \<Rightarrow> bool \<Rightarrow> bool \<Rightarrow> nat \<Rightarrow> nat \<Rightarrow> string \<Rightarrow> kernel \<Rightarrow> cursor \<Rightarrow> cursor option" where
  "OSAvailableMemory C dyn_tasks dyn_queue used dyn_size str k z = do {
     z \<leftarrow> cats (newline @ ''***** BRTOS Memory Info *****'' @ newline) z;
     z \<leftarrow> cats (if dyn_tasks then ''DYNAMIC MEMORY HEAP:       '' else ''STATIC TASK MEMORY HEAP:   '') z;
     let address = iStackAddress k * of_nat sizeof_OS_CPU_TYPE;
     (str, z) \<leftarrow> (if dyn_tasks then print_usage used dyn_size str z else print_usage (unat address) (HEAP_SIZE C) str z);
     (str, z) \<leftarrow> (if QUEUE_HEAP_SIZE C > 0
       then do {
         z \<leftarrow> cats (newline @ ''STATIC QUEUE MEMORY HEAP:  '') z;
         let address = iQueueAddress k * of_nat sizeof_OS_CPU_TYPE;
         print_usage (unat address) (QUEUE_HEAP_SIZE C) str z }
       else Some (str, z));
     z \<leftarrow> cats newline z;
     z \<leftarrow> (if dyn_queue \<and> \<not> dyn_tasks
       then do {
         z \<leftarrow> cats ''DYNAMIC QUEUE MEMORY HEAP: '' z;
         (str, z) \<leftarrow> print_usage used dyn_size str z;
         cats newline z }
       else Some z);
     end_string z }"

section \<open>Reference: decimal numbers\<close>

fun decimal :: "nat \<Rightarrow> string" where
  "decimal n = (if n < 10 then [char_of (n + 48)] else decimal (n div 10) @ [char_of (n mod 10 + 48)])"

declare decimal.simps [simp del]

definition decimal_int :: "int \<Rightarrow> string" where
  "decimal_int v = (if v < 0 then CHR ''-'' # decimal (nat (- v)) else decimal (nat v))"

definition read_decimal :: "string \<Rightarrow> nat" where
  "read_decimal s = foldl (\<lambda>n c. 10 * n + (of_char c - 48)) 0 s"

lemma read_decimal [simp]: "read_decimal (decimal n) = n"
proof (induction n rule: decimal.induct)
  case (1 n)
  have "of_char (char_of (n mod 10 + 48) :: char) = n mod 10 + 48" by simp
  with 1 show ?case by (cases "n < 10") (simp_all add: read_decimal_def decimal.simps [of n])
qed

lemma decimal_not_Nil [simp]: "decimal n \<noteq> []"
  by (subst decimal.simps) simp

lemma decimal_length_pos: "0 < length (decimal n)"
  by simp

lemma decimal_length: "0 < k \<Longrightarrow> n < 10 ^ k \<Longrightarrow> length (decimal n) \<le> k"
proof (induction n arbitrary: k rule: decimal.induct)
  case (1 n)
  show ?case
  proof (cases "n < 10")
    case False
    define j where "j = k - 1"
    have "k \<noteq> 1" using False 1(3) by auto
    then have k: "k = Suc j" "0 < j" using 1(2) by (simp_all add: j_def)
    have "n div 10 < 10 ^ j" using 1(3) k by (simp add: less_mult_imp_div_less mult.commute)
    with 1(1) [OF False k(2)] False k show ?thesis by (subst decimal.simps) simp
  qed (use 1 in \<open>simp add: decimal.simps\<close>)
qed

lemma decimal_digits: "c \<in> set (decimal n) \<Longrightarrow> 48 \<le> (of_char c :: nat) \<and> of_char c < (58 :: nat)"
proof (induction n rule: decimal.induct)
  case (1 n)
  show ?case
  proof (cases "n < 10")
    case True
    with 1(2) show ?thesis by (subst (asm) decimal.simps) simp
  next
    case False
    with 1 show ?thesis by (subst (asm) (2) decimal.simps) auto
  qed
qed

lemma decimal_no_NUL: "NUL \<notin> set (decimal n)" "NUL \<notin> set (decimal_int v)"
  using decimal_digits [of NUL] by (auto simp: decimal_int_def)

section \<open>\<^verbatim>\<open>PrintDecimal\<close> prints decimal numbers\<close>

lemma fill_spaces: "n \<le> length b \<Longrightarrow> fill_spaces n b = Some (replicate n CHR '' '' @ drop n b)"
proof (induction n)
  case (Suc n)
  then have "drop n b = b ! n # drop (Suc n) b" by (simp add: Cons_nth_drop_Suc)
  with Suc show ?case by (simp add: list_update_append replicate_append_same flip: append_assoc)
qed simp

lemma wrap16_id: "- 32768 \<le> x \<Longrightarrow> x < 32768 \<Longrightarrow> wrap16 x = x"
  by (simp add: wrap16_def)

lemma byte_digit: "byte (int n - int (n div 10) * 10 + 48) = char_of (n mod 10 + 48)"
proof -
  have "int n - int (n div 10) * 10 + 48 = int (n mod 10 + 48)" by (simp add: zdiv_int zmod_int minus_div_mult_eq_mod)
  then show ?thesis by (simp add: byte_def)
qed

lemma put_digits_spec:
  "n < 32768 \<Longrightarrow> length (decimal n) \<le> i \<Longrightarrow> i < length b \<Longrightarrow>
     put_digits i (int n) b = Some (i - length (decimal n), take (Suc i - length (decimal n)) b @ decimal n @ drop (Suc i) b)"
proof (induction i arbitrary: n b)
  case (Suc i)
  let ?b = "b[Suc i := char_of (n mod 10 + 48)]"
  have v: "wrap16 (int n sdiv 10) = int (n div 10)" using Suc.prems(1) by (simp add: wrap16_id signed_divide_int_def zdiv_int)
  have m: "int n mod 65536 = int n" using Suc.prems(1) by simp
  have step: "put_digits (Suc i) (int n) b = (if n div 10 = 0 then Some (i, ?b) else put_digits i (int (n div 10)) ?b)"
    unfolding put_digits.simps Let_def v m byte_digit using Suc.prems(3) by simp
  have b: "take (Suc i) ?b = take (Suc i) b" "drop (Suc i) ?b = char_of (n mod 10 + 48) # drop (Suc (Suc i)) b"
    using Suc.prems(3) by (simp_all add: drop_update_swap flip: Cons_nth_drop_Suc)
  show ?case
  proof (cases "n < 10")
    case True
    then have d: "decimal n = [char_of (n mod 10 + 48)]" by (subst decimal.simps) simp
    have "?b = take (Suc i) b @ char_of (n mod 10 + 48) # drop (Suc (Suc i)) b"
      using append_take_drop_id [of "Suc i" ?b] unfolding b by simp
    with True step d show ?thesis by simp
  next
    case False
    let ?m = "n div 10"
    have d: "decimal n = decimal ?m @ [char_of (n mod 10 + 48)]" using False by (subst decimal.simps) simp
    from Suc.IH [of ?m ?b] Suc.prems d have "put_digits i (int ?m) ?b =
        Some (i - length (decimal ?m), take (Suc i - length (decimal ?m)) ?b @ decimal ?m @ drop (Suc i) ?b)" by simp
    moreover have "?m \<noteq> 0" using False by simp
    ultimately show ?thesis unfolding step d using b by simp
  qed
qed simp

text \<open>The number stands right-justified in a field of six characters, and the result points at its first character.\<close>

lemma PrintDecimal_spec:
  assumes v: "- 32768 < v" "v < 32768" and b: "7 \<le> length b"
  defines "L \<equiv> length (decimal_int v)"
  shows "PrintDecimal v b = Some (6 - L, replicate (6 - L) CHR '' '' @ decimal_int v @ NUL # drop 7 b)" and "1 \<le> L" and "L \<le> 6"
proof -
  let ?n = "nat \<bar>v\<bar>" let ?d = "decimal ?n" let ?s = "if v < 0 then CHR ''-'' else CHR '' ''"
  have n: "?n < 32768" "length ?d \<le> 5" "0 < length ?d" using v by (auto intro!: decimal_length)
  have L: "L = length ?d + (if v < 0 then 1 else 0)" unfolding L_def decimal_int_def by simp
  show "1 \<le> L" using n(3) unfolding L by linarith
  show "L \<le> 6" using n L by auto
  let ?b = "replicate 6 CHR '' '' @ NUL # drop 7 b"
  have "drop 6 b = b ! 6 # drop 7 b" using b Cons_nth_drop_Suc [of 6 b] by simp
  then have f: "fill_spaces 6 b = Some (replicate 6 CHR '' '' @ b ! 6 # drop 7 b)" using fill_spaces [of 6 b] b by simp
  have w: "wr (replicate 6 CHR '' '' @ b ! 6 # drop 7 b) 6 NUL = Some ?b" by (simp add: list_update_append)
  have val: "(if v < 0 then (wrap16 (- v), CHR ''-'') else (v, CHR '' '')) = (int ?n, ?s)" using v by (simp add: wrap16_id)
  have pd: "put_digits 5 (int ?n) ?b = Some (5 - length ?d, replicate (6 - length ?d) CHR '' '' @ ?d @ NUL # drop 7 b)"
    using put_digits_spec [OF n(1,2), of ?b] n by (simp add: take_Cons' min_def)
  have six: "6 - length ?d = Suc (5 - length ?d)" using n by linarith
  have "replicate (6 - length ?d) CHR '' '' = replicate (5 - length ?d) CHR '' '' @ [CHR '' '']"
    unfolding six by (simp add: replicate_append_same)
  then have e: "(replicate (6 - length ?d) CHR '' '' @ ?d @ NUL # drop 7 b)[5 - length ?d := ?s] =
      replicate (5 - length ?d) CHR '' '' @ ?s # ?d @ NUL # drop 7 b" by (simp add: list_update_append)
  have "5 - length ?d < length (replicate (6 - length ?d) CHR '' '' @ ?d @ NUL # drop 7 b)" unfolding six by simp
  then have we: "wr (replicate (6 - length ?d) CHR '' '' @ ?d @ NUL # drop 7 b) (5 - length ?d) ?s =
      Some (replicate (5 - length ?d) CHR '' '' @ ?s # ?d @ NUL # drop 7 b)" by (simp only: wr_def e if_True)
  have p: "PrintDecimal v b = Some (if v < 0 then 5 - length ?d else 6 - length ?d,
      replicate (5 - length ?d) CHR '' '' @ ?s # ?d @ NUL # drop 7 b)"
    by (simp only: PrintDecimal_def f w val Option.bind.simps Let_def prod.case pd we) (use six in \<open>cases "v < 0"; simp\<close>)
  show "PrintDecimal v b = Some (6 - L, replicate (6 - L) CHR '' '' @ decimal_int v @ NUL # drop 7 b)"
    unfolding p L decimal_int_def using six by (cases "v < 0") (simp_all add: replicate_append_same)
qed

section \<open>Texts behind a moving pointer\<close>

text \<open>The pointer stands behind the text \<open>out\<close>, with \<open>rest\<close> of the buffer left.\<close>

definition behind :: "string \<Rightarrow> string \<Rightarrow> cursor" where
  "behind out rest = (out @ rest, length out)"

lemma mem_cpy_spec:
  "NUL \<notin> set t \<Longrightarrow> length t \<le> length rest \<Longrightarrow>
     mem_cpy (out @ rest) (length out) (before @ t @ NUL # after) (length before) i = Some (i + length t, out @ t @ drop (length t) rest)"
proof (induction t arbitrary: out rest before i)
  case Nil
  show ?case by (subst mem_cpy.simps) simp
next
  case (Cons c t)
  then obtain r rest' where r: "rest = r # rest'" by (cases rest) auto
  from Cons.IH [of rest' "out @ [c]" "before @ [c]" "Suc i"] Cons.prems show ?case
    by (subst mem_cpy.simps) (auto simp: r nth_append list_update_append)
qed

lemma cat_behind:
  assumes "NUL \<notin> set t" and "length t \<le> length rest" and "s = length before"
  shows "cat (before @ t @ NUL # after) s (behind out rest) = Some (behind (out @ t) (drop (length t) rest))"
  using mem_cpy_spec [OF assms(1,2), of out before after 0] assms(3) by (simp add: cat_def behind_def)

lemma cats_behind [simp]:
  "NUL \<notin> set t \<Longrightarrow> length t \<le> length rest \<Longrightarrow> cats t (behind out rest) = Some (behind (out @ t) (drop (length t) rest))"
  using cat_behind [of t rest 0 "[]" "[]" out] by (simp add: cats_def)

lemma putc_behind [simp]: "0 < length rest \<Longrightarrow> putc c (behind out rest) = Some (behind (out @ [c]) (drop 1 rest))"
  by (cases rest) (simp_all add: putc_def behind_def list_update_append)

lemma end_behind [simp]: "0 < length rest \<Longrightarrow> end_string (behind out rest) = Some (behind out (NUL # drop 1 rest))"
  by (cases rest) (simp_all add: end_string_def behind_def list_update_append)

lemma behind_ex [simp]: "\<exists>rest'. behind out (c # r) = behind out (c # rest')"
  by (rule exI) (rule refl)

definition printed :: "int \<Rightarrow> string \<Rightarrow> string" where
  "printed v str = replicate (6 - length (decimal_int v)) CHR '' '' @ decimal_int v @ NUL # drop 7 str"

definition small :: "int \<Rightarrow> bool" where
  "small v \<longleftrightarrow> - 32768 < v \<and> v < 32768"

lemma length_printed [simp]: "small v \<Longrightarrow> 7 \<le> length str \<Longrightarrow> length (printed v str) = length str"
  using PrintDecimal_spec(3) [of v str] by (simp add: printed_def small_def)

lemma decimal_int_length: "small v \<Longrightarrow> length (decimal_int v) \<le> 6"
  using PrintDecimal_spec(3) [of v "replicate 7 NUL"] by (simp add: small_def)

lemma print_at_None [simp]:
  assumes "small v" and "7 \<le> length str" and "length (decimal_int v) \<le> length rest"
  shows "print_at None v str (behind out rest) = Some (printed v str, behind (out @ decimal_int v) (drop (length (decimal_int v)) rest))"
  using PrintDecimal_spec(1) [of v str] assms cat_behind [OF decimal_no_NUL(2) assms(3), of _ "replicate (6 - length (decimal_int v)) CHR '' ''" "drop 7 str" out]
  by (simp add: print_at_def printed_def small_def)

text \<open>From a fixed offset the number comes with its leading spaces.\<close>

lemma print_at_Some [simp]:
  assumes v: "small v" and str: "7 \<le> length str" and i: "i \<le> 6 - length (decimal_int v)" and room: "6 - i \<le> length rest"
  defines "t \<equiv> replicate (6 - length (decimal_int v) - i) CHR '' '' @ decimal_int v"
  shows "print_at (Some i) v str (behind out rest) = Some (printed v str, behind (out @ t) (drop (6 - i) rest))"
proof -
  have L: "length (decimal_int v) \<le> 6" by (rule decimal_int_length [OF v])
  have l: "length t = 6 - i" using i L by (simp add: t_def)
  have n: "NUL \<notin> set t" using decimal_no_NUL(2) [of v] by (auto simp: t_def)
  have "printed v str = replicate i CHR '' '' @ t @ NUL # drop 7 str"
    unfolding printed_def t_def append_assoc [symmetric] replicate_add [symmetric] using i by simp
  with PrintDecimal_spec(1) [of v str] v str cat_behind [OF n, of rest i "replicate i CHR '' ''" "drop 7 str" out] room show ?thesis
    by (simp add: print_at_def small_def l flip: printed_def)
qed

lemma fill_spaces_length: "fill_spaces n b = Some b' \<Longrightarrow> length b' = length b"
  by (induction n arbitrary: b') (auto simp: wr_eq_Some split: bind_splits)

text \<open>It writes seven bytes, so that an array of six is too short.\<close>

lemma PrintDecimal_short: "length str < 7 \<Longrightarrow> PrintDecimal v str = None"
  using fill_spaces_length [of 6 str] by (cases "fill_spaces 6 str") (auto simp: PrintDecimal_def wr_def)

section \<open>The texts\<close>

lemma uint8_decimal: "small (uint (x :: uint8_t))" "decimal_int (uint x) = decimal (unat x)" "length (decimal (unat x)) \<le> 3"
proof -
  have "uint x < 256" "unat x < 256" using unsigned_less [of x, where 'a = int] unsigned_less [of x, where 'a = nat] by simp_all
  then show "small (uint x)" "length (decimal (unat x)) \<le> 3" by (simp_all add: small_def less_le_trans [OF _ uint_ge_0] decimal_length)
  show "decimal_int (uint x) = decimal (unat x)" by (simp add: decimal_int_def not_less)
qed

lemma literal_NUL [simp]: "NUL \<notin> set (newline @ ''BRTOS UPTIME: '')" "NUL \<notin> set (newline @ ''CPU LOAD: '')"
  by simp_all

definition uptime_text :: "clock \<Rightarrow> string" where
  "uptime_text c = newline @ ''BRTOS UPTIME: '' @
     (if RTC_Day (Data c) > 0 then decimal (unat (RTC_Day (Data c))) @ ''d '' else []) @
     decimal (unat (RTC_Hour (Hora c))) @ ''h '' @ decimal (unat (RTC_Minute (Hora c))) @ ''m '' @
     decimal (unat (RTC_Second (Hora c))) @ ''s'' @ newline"

lemma OSUptimeInfo_spec:
  assumes str: "7 \<le> length str" and room: "40 \<le> length rest"
  shows "\<exists>rest'. OSUptimeInfo str c (behind out rest) = Some (behind (out @ uptime_text c) (NUL # rest'))"
proof -
  note b = uint8_decimal [of "RTC_Day (Data c)"] uint8_decimal [of "RTC_Hour (Hora c)"] uint8_decimal [of "RTC_Minute (Hora c)"]
    uint8_decimal [of "RTC_Second (Hora c)"]
  show ?thesis using b str room
    by (simp add: OSUptimeInfo_def uptime_text_def OSUptime_def OSUpDate_def Let_def)
qed

lemma OSUptimeInfo_overflow:
  assumes "length str = 6" and "16 \<le> length rest"
  shows "OSUptimeInfo str c (behind out rest) = None"
  using assms PrintDecimal_short [of str] by (simp add: OSUptimeInfo_def Let_def print_at_def)

text \<open>The load is kept in tenths of a per cent.\<close>

definition load_text :: "nat \<Rightarrow> string" where
  "load_text p = newline @ ''CPU LOAD: '' @
     (if p \<ge> 1000 then ''100 %'' else decimal (p div 10) @ ''.'' @ decimal (p mod 10) @ ''%'') @ newline"

lemma load_digits:
  fixes percent :: uint32_t
  assumes p: "unat percent < 1000"
  defines "cent \<equiv> (ucast (percent div 100) :: uint8_t)"
  shows "unat (cent + 48) = unat percent div 100 + 48"
    and "unat ((ucast ((percent - ucast cent * 100) div 10) :: uint8_t) + 48) = unat percent div 10 mod 10 + 48"
    and "unat (ucast (percent mod 10 + 48) :: uint8_t) = unat percent mod 10 + 48"
proof -
  let ?p = "unat percent"
  have c: "unat cent = ?p div 100" unfolding cent_def using p by (simp add: unsigned_ucast_eq take_bit_nat_eq_self unat_div)
  have "?p div 100 < 10" using p by simp
  then show "unat (cent + 48) = ?p div 100 + 48" by (simp add: unat_word_ariths c)
  have m: "unat (ucast cent * 100 :: uint32_t) = ?p div 100 * 100"
    using \<open>?p div 100 < 10\<close> by (simp add: unat_word_ariths unsigned_ucast_eq take_bit_nat_eq_self c)
  have "unat (percent - ucast cent * 100) = ?p - ?p div 100 * 100" using m by (subst unat_sub) (simp_all add: word_le_nat_alt)
  then have r: "unat (percent - ucast cent * 100) = ?p mod 100" by (simp add: minus_div_mult_eq_mod)
  have d: "?p mod 100 div 10 = ?p div 10 mod 10" using mod_mult2_eq [of ?p 10 10] by simp
  have "unat (ucast ((percent - ucast cent * 100) div 10) :: uint8_t) = ?p mod 100 div 10"
    by (simp add: unsigned_ucast_eq take_bit_nat_eq_self unat_div r)
  then show "unat ((ucast ((percent - ucast cent * 100) div 10) :: uint8_t) + 48) = ?p div 10 mod 10 + 48"
    by (simp add: unat_word_ariths d)
  have "unat (percent mod 10 + 48) = ?p mod 10 + 48" by (simp add: unat_word_ariths unat_mod)
  then show "unat (ucast (percent mod 10 + 48) :: uint8_t) = ?p mod 10 + 48" by (simp add: unsigned_ucast_eq take_bit_nat_eq_self)
qed

lemma OSCPULoad_spec:
  assumes room: "20 \<le> length rest"
  shows "\<exists>rest'. OSCPULoad k (behind out rest) = Some (behind (out @ load_text (unat (LastOSDuty k))) (NUL # rest'))"
proof -
  let ?p = "unat (LastOSDuty k)"
  have ge: "LastOSDuty k \<ge> 1000 \<longleftrightarrow> ?p \<ge> 1000" by (simp add: word_le_nat_alt)
  have z: "(ucast (LastOSDuty k div 100) :: uint8_t) + 48 \<noteq> 48 \<longleftrightarrow> ?p div 100 \<noteq> 0" if "?p < 1000"
    using load_digits(1) [OF that] by (simp add: word_unat_eq_iff)
  have d: "decimal (?p mod 10) = [char_of (?p mod 10 + 48)]" by (subst decimal.simps) simp
  have e: "decimal (?p div 10) = (if ?p div 100 \<noteq> 0 then [char_of (?p div 100 + 48)] else []) @ [char_of (?p div 10 mod 10 + 48)]" if "?p < 1000"
  proof -
    have "?p div 10 div 10 = ?p div 100" "?p div 100 < 10" using that by (simp_all add: div_mult2_eq [symmetric])
    then show ?thesis by (subst decimal.simps) (auto simp: decimal.simps [of "?p div 100"] div_eq_0_iff)
  qed
  show ?thesis
  proof (cases "?p \<ge> 1000")
    case True
    then show ?thesis using room ge by (simp add: OSCPULoad_def load_text_def Let_def)
  next
    case False
    then have lt: "?p < 1000" by simp
    show ?thesis using room ge False z [OF lt] load_digits [OF lt]
      by (simp add: OSCPULoad_def load_text_def Let_def d e [OF lt])
  qed
qed

section \<open>The memory report\<close>

text \<open>What the report shows for an amount of \<open>a\<close> bytes: the number is converted to a signed 16-bit one, and the
  sign of a five-digit number stands in the column that is skipped.\<close>

definition shown :: "nat \<Rightarrow> string" where
  "shown a = (if a < 32768 then replicate (5 - length (decimal a)) CHR '' '' @ decimal a else decimal (65536 - a))"

definition showable :: "nat \<Rightarrow> bool" where
  "showable a \<longleftrightarrow> a < 32768 \<or> 32768 < a \<and> a \<le> 55536"

lemma decimal_length_5: "10000 \<le> n \<Longrightarrow> n < 100000 \<Longrightarrow> length (decimal n) = 5"
proof -
  assume n: "10000 \<le> n" "n < 100000"
  have q: "n div 10 div 10 = n div 100" "n div 100 div 10 = n div 1000" "n div 1000 div 10 = n div 10000"
    by (simp_all add: div_mult2_eq [symmetric])
  from n have "\<not> n < 10" "\<not> n div 10 < 10" "\<not> n div 100 < 10" "\<not> n div 1000 < 10" "n div 10000 < 10" by simp_all
  then show ?thesis using decimal.simps [of n] decimal.simps [of "n div 10"] decimal.simps [of "n div 100"]
      decimal.simps [of "n div 1000"] decimal.simps [of "n div 10000"] unfolding q by simp
qed

lemma print_shown:
  assumes a: "showable a" and str: "7 \<le> length str" and room: "5 \<le> length rest"
  shows "print_at (Some 1) (wrap16 (int a)) str (behind out rest) =
      Some (printed (wrap16 (int a)) str, behind (out @ shown a) (drop 5 rest))"
    and "small (wrap16 (int a))" and "length (shown a) = 5"
proof (atomize (full), cases "a < 32768")
  case True
  then have w: "wrap16 (int a) = int a" by (simp add: wrap16_id)
  have d: "decimal_int (int a) = decimal a" "length (decimal a) \<le> 5" using True by (simp_all add: decimal_int_def decimal_length)
  have sm: "small (int a)" using True by (simp add: small_def)
  have "1 \<le> 6 - length (decimal_int (int a))" "6 - 1 \<le> length rest" using d room by simp_all
  from print_at_Some [OF sm str this, of out] True d sm show "print_at (Some 1) (wrap16 (int a)) str (behind out rest) =
      Some (printed (wrap16 (int a)) str, behind (out @ shown a) (drop 5 rest)) \<and> small (wrap16 (int a)) \<and> length (shown a) = 5"
    unfolding w by (simp add: shown_def)
next
  case False
  then have b: "32768 < a" "a \<le> 55536" using a by (auto simp: showable_def)
  have e: "int a + 32768 = (int a - 32768) + 65536" by simp
  have "(int a + 32768) mod 65536 = int a - 32768" unfolding e mod_add_self2 using b by (intro mod_pos_pos_trivial) simp_all
  then have w: "wrap16 (int a) = - int (65536 - a)" unfolding wrap16_def using b by simp
  have L: "length (decimal (65536 - a)) = 5" using b by (intro decimal_length_5) linarith+
  have d: "decimal_int (wrap16 (int a)) = CHR ''-'' # decimal (65536 - a)" unfolding w decimal_int_def using b
    by (simp only: if_P minus_minus nat_int neg_less_0_iff_less of_nat_0_less_iff zero_less_diff)
  have sm: "small (wrap16 (int a))" unfolding w small_def using b by linarith
  have "printed (wrap16 (int a)) str = [CHR ''-''] @ decimal (65536 - a) @ NUL # drop 7 str" by (simp add: printed_def d L)
  moreover have "PrintDecimal (wrap16 (int a)) str = Some (0, [CHR ''-''] @ decimal (65536 - a) @ NUL # drop 7 str)"
    using PrintDecimal_spec(1) [of "wrap16 (int a)" str] sm str by (simp add: small_def d L)
  ultimately show "print_at (Some 1) (wrap16 (int a)) str (behind out rest) =
      Some (printed (wrap16 (int a)) str, behind (out @ shown a) (drop 5 rest)) \<and> small (wrap16 (int a)) \<and> length (shown a) = 5"
    using cat_behind [OF decimal_no_NUL(1), of "65536 - a" rest 1 "[CHR ''-'']" "drop 7 str" out] False L room sm
    by (simp add: print_at_def shown_def)
qed

text \<open>Amounts of memory of which the used part is shown in a field and the total as it is.\<close>

definition usage :: "nat \<Rightarrow> nat \<Rightarrow> string" where
  "usage a n = shown a @ '' of '' @ decimal n"

definition memory_text :: "config \<Rightarrow> bool \<Rightarrow> bool \<Rightarrow> nat \<Rightarrow> nat \<Rightarrow> nat \<Rightarrow> nat \<Rightarrow> string" where
  "memory_text C dyn_tasks dyn_queue used dyn_size a q = newline @ ''***** BRTOS Memory Info *****'' @ newline @
     (if dyn_tasks then ''DYNAMIC MEMORY HEAP:       '' @ usage used dyn_size
      else ''STATIC TASK MEMORY HEAP:   '' @ usage a (HEAP_SIZE C)) @
     (if QUEUE_HEAP_SIZE C > 0 then newline @ ''STATIC QUEUE MEMORY HEAP:  '' @ usage q (QUEUE_HEAP_SIZE C) else []) @ newline @
     (if dyn_queue \<and> \<not> dyn_tasks then ''DYNAMIC QUEUE MEMORY HEAP: '' @ usage used dyn_size @ newline else [])"

lemma total_shown:
  "n < 32768 \<Longrightarrow> wrap16 (int n) = int n" "n < 32768 \<Longrightarrow> small (int n)" "decimal_int (int n) = decimal n" "n < 32768 \<Longrightarrow> length (decimal n) \<le> 5"
  by (simp_all add: wrap16_id small_def decimal_int_def decimal_length)

definition usage_str :: "nat \<Rightarrow> nat \<Rightarrow> string \<Rightarrow> string" where
  "usage_str a n str = printed (int n) (printed (wrap16 (int a)) str)"

lemma print_usage_spec:
  assumes a: "showable a" and n: "n < 32768" and str: "7 \<le> length str" and room: "14 \<le> length rest"
  shows "print_usage a n str (behind out rest) = Some (usage_str a n str, behind (out @ usage a n) (drop (length (usage a n)) rest))"
proof -
  let ?str = "printed (wrap16 (int a)) str" let ?out = "out @ shown a"
  have r: "5 \<le> length rest" using room by simp
  note p = print_shown [OF a str r] and t = total_shown [of n]
  have l: "7 \<le> length ?str" using length_printed [OF p(2) str] str by simp
  have c: "cats '' of '' (behind ?out (drop 5 rest)) = Some (behind (?out @ '' of '') (drop 4 (drop 5 rest)))"
    using cats_behind [of "'' of ''" "drop 5 rest" ?out] room by simp
  have "length (decimal_int (int n)) \<le> length (drop 4 (drop 5 rest))" using t(3,4) n room by simp
  from print_at_None [OF t(2) [OF n] l this, of "?out @ '' of ''"] have
    q: "print_at None (wrap16 (int n)) ?str (behind (?out @ '' of '') (drop 4 (drop 5 rest))) =
      Some (usage_str a n str, behind (out @ usage a n) (drop (length (usage a n)) rest))"
    unfolding t(1) [OF n] t(3) usage_def usage_str_def using p(3) by (simp add: add.commute add.left_commute)
  show "print_usage a n str (behind out rest) = Some (usage_str a n str, behind (out @ usage a n) (drop (length (usage a n)) rest))"
    by (simp only: print_usage_def p(1) c q Option.bind.simps prod.case)
qed

lemma usage_length:
  assumes "showable a" and "n < 32768"
  shows "length (usage a n) \<le> 14" and "7 \<le> length str \<Longrightarrow> length (usage_str a n str) = length str"
proof -
  have s: "length (shown a) = 5" "small (wrap16 (int a))"
    by (rule print_shown(3) [OF assms(1), of "replicate 7 NUL" "replicate 5 NUL"] print_shown(2) [OF assms(1), of "replicate 7 NUL" "replicate 5 NUL"]; simp)+
  with total_shown(4) [OF assms(2)] show "length (usage a n) \<le> 14" by (simp add: usage_def)
  show "length (usage_str a n str) = length str" if "7 \<le> length str"
    using length_printed [OF total_shown(2) [OF assms(2)], of "printed (wrap16 (int a)) str"] length_printed [OF s(2) that] that
    by (simp add: usage_str_def)
qed

lemma words_of: "unat x * 4 < 65536 \<Longrightarrow> unat (x * 4 :: uint16_t) = unat x * 4" for x :: uint16_t
  by (simp add: unat_word_ariths)

lemma OSAvailableMemory_spec:
  assumes str: "7 \<le> length str" and room: "180 \<le> length rest"
    and a: "showable (unat (iStackAddress k) * 4)" and q: "showable (unat (iQueueAddress k) * 4)" and u: "showable used"
    and t: "HEAP_SIZE C < 32768" "QUEUE_HEAP_SIZE C < 32768" "dyn_size < 32768"
  shows "\<exists>rest'. OSAvailableMemory C dt dq used dyn_size str k (behind out rest) =
     Some (behind (out @ memory_text C dt dq used dyn_size (unat (iStackAddress k) * 4) (unat (iQueueAddress k) * 4)) (NUL # rest'))"
proof -
  have b: "unat (iStackAddress k) * 4 < 65536" "unat (iQueueAddress k) * 4 < 65536" using a q by (auto simp: showable_def)
  note w = words_of [OF b(1)] words_of [OF b(2)]
  note l = usage_length(1) [OF a t(1)] usage_length(1) [OF q t(2)] usage_length(1) [OF u t(3)]
  note pu = print_usage_spec [OF a t(1)] print_usage_spec [OF q t(2)] print_usage_spec [OF u t(3)]
    usage_length(2) [OF a t(1)] usage_length(2) [OF q t(2)] usage_length(2) [OF u t(3)]
  show ?thesis
    using str room l by (cases dt; cases "QUEUE_HEAP_SIZE C > 0"; cases dq)
      (simp_all add: OSAvailableMemory_def memory_text_def Let_def w pu)
qed

end
