(* ===== verification/TaskList.thy ===== *)
theory TaskList
  imports Info
begin

text \<open>
  \<^verbatim>\<open>src/brtos/OSInfo.c\<close>, the tables of the tasks: \<^verbatim>\<open>OSTaskList\<close> without \<^verbatim>\<open>WATERMARK\<close>, and
  \<^verbatim>\<open>OSRuntimeStats\<close>. \<open>dyn\<close> is \<^verbatim>\<open>BRTOS_DYNAMIC_TASKS_ENABLED\<close>.
\<close>

section \<open>Operations\<close>

text \<open>The columns with the number and the name of a task, which both tables share.\<close>

fun put_spaces :: "nat \<Rightarrow> cursor \<Rightarrow> cursor option" where
  "put_spaces 0 z = Some z"
| "put_spaces (Suc n) z = do { z \<leftarrow> putc CHR '' '' z; put_spaces n z }"

definition print_id :: "nat \<Rightarrow> string \<Rightarrow> cursor \<Rightarrow> (string \<times> cursor) option" where
  "print_id j str z = do {
     z \<leftarrow> putc CHR ''['' z;
     if j < 10
     then do {
       z \<leftarrow> putc (char_of (j + 48)) z;
       z \<leftarrow> cats '']  '' z;
       Some (str, z) }
     else do {
       (str, z) \<leftarrow> print_at (Some 4) (int j) str z;
       z \<leftarrow> cats ''] '' z;
       Some (str, z) } }"

definition print_name :: "string \<Rightarrow> cursor \<Rightarrow> cursor option" where
  "print_name name z = do {
     z' \<leftarrow> cats name z;
     put_spaces (24 - (snd z' - snd z)) z' }"

text \<open>The loop over the words of the stack, downwards from the saved stack pointer, until sixteen words in a row
  are zero or the end of the stack is reached. \<open>i\<close> is the variable \<^verbatim>\<open>i\<close>.\<close>

partial_function (option) scan_stack :: "(uint32_t \<Rightarrow> uint32_t) \<Rightarrow> uint32_t \<Rightarrow> uint32_t \<Rightarrow> nat \<Rightarrow> (uint32_t \<times> nat) option" where
  "scan_stack ram sp_end sp i =
    (if i < 16 \<and> sp > sp_end then scan_stack ram sp_end (sp - 4) (if ram sp = 0 then Suc i else 0)
     else Some (sp, i))"

definition stack_end :: "config \<Rightarrow> bool \<Rightarrow> kernel \<Rightarrow> nat \<Rightarrow> uint32_t option" where
  "stack_end C dyn k j =
    (if dyn then map_option StackInit (rd (ContextTask k) j)
     else if j = 1 then Some (STACK_base C)
     else map_option StackInit (rd (ContextTask k) (j - 1)))"

definition stack_used :: "config \<Rightarrow> bool \<Rightarrow> kernel \<Rightarrow> nat \<Rightarrow> uint16_t option" where
  "stack_used C dyn k j = do {
     t \<leftarrow> rd (ContextTask k) j;
     sp_end \<leftarrow> stack_end C dyn k j;
     (sp, i) \<leftarrow> scan_stack (RAM k) sp_end (StackPoint t) 0;
     let top = (if dyn then StackInit t + ucast (StackSize t) else StackInit t);
     Some (ucast (top - (sp + of_nat i * 4))) }"

definition state_char :: "kernel \<Rightarrow> uint8_t \<Rightarrow> char option" where
  "state_char k p = do {
     m \<leftarrow> rd PriorityMask (unat p);
     Some (if OSBlockedList k AND m = 0 then CHR ''B''
           else if OSReadyList k AND m = m then CHR ''R'' else CHR ''S'') }"

definition task_row :: "config \<Rightarrow> bool \<Rightarrow> kernel \<Rightarrow> nat \<Rightarrow> string \<times> cursor \<Rightarrow> (string \<times> cursor) option" where
  "task_row C dyn k j s = (case s of (str, z) \<Rightarrow> do {
     t \<leftarrow> rd (ContextTask k) j;
     if Priority t \<noteq> EMPTY_PRIO
     then do {
       (str, z) \<leftarrow> print_id j str z;
       z \<leftarrow> print_name (TaskName t) z;
       z \<leftarrow> cats ''  '' z;
       c \<leftarrow> state_char k (Priority t);
       z \<leftarrow> putc c z;
       z \<leftarrow> cats ''      '' z;
       (str, z) \<leftarrow> print_at (Some 2) (uint (Priority t)) str z;
       z \<leftarrow> cats ''       '' z;
       VirtualStack \<leftarrow> stack_used C dyn k j;
       (str, z) \<leftarrow> print_at (Some 0) (wrap16 (uint VirtualStack)) str z;
       z \<leftarrow> cats newline z;
       Some (str, z) }
     else Some (str, z) })"

fun for_rows :: "(nat \<Rightarrow> 'a \<Rightarrow> 'a option) \<Rightarrow> nat list \<Rightarrow> 'a \<Rightarrow> 'a option" where
  "for_rows row [] s = Some s"
| "for_rows row (j # js) s = do { s \<leftarrow> row j s; for_rows row js s }"

definition listed :: "config \<Rightarrow> bool \<Rightarrow> kernel \<Rightarrow> nat list" where
  "listed C dyn k = [1..<Suc (if dyn then unat (NUMBER_OF_TASKS C) else unat (NumberOfInstalledTasks k))]"

abbreviation (input) stars :: string where "stars \<equiv> replicate 59 CHR ''*''"

definition OSTaskList :: "config \<Rightarrow> bool \<Rightarrow> string \<Rightarrow> kernel \<Rightarrow> cursor \<Rightarrow> cursor option" where
  "OSTaskList C dyn str k z = do {
     z \<leftarrow> cats (newline @ stars @ newline) z;
     z \<leftarrow> cats (''ID   NAME                    STATE   PRIORITY   STACK SIZE'' @ newline) z;
     z \<leftarrow> cats (stars @ newline) z;
     (str, z) \<leftarrow> for_rows (task_row C dyn k) (listed C dyn k) (str, z);
     z \<leftarrow> cats newline z;
     end_string z }"

text \<open>\<^verbatim>\<open>OSRuntimeStats\<close>: \<open>timer\<close> is the result of \<^verbatim>\<open>OSGetTimerForRuntimeStats\<close>; a hundredth of it is a divisor. The
  call of \<^verbatim>\<open>sprintf\<close> writes a text and its end into the local array of sixteen bytes.\<close>

definition sprintf :: "string \<Rightarrow> string \<Rightarrow> string option" where
  "sprintf t str = (if length t < length str then Some (t @ NUL # drop (Suc (length t)) str) else None)"

definition stats_row :: "uint32_t \<Rightarrow> kernel \<Rightarrow> nat \<Rightarrow> string \<times> cursor \<Rightarrow> (string \<times> cursor) option" where
  "stats_row total_time k j s = (case s of (str, z) \<Rightarrow> do {
     t \<leftarrow> rd (ContextTask k) j;
     if Priority t \<noteq> EMPTY_PRIO
     then do {
       (str, z) \<leftarrow> print_id j str z;
       z \<leftarrow> print_name (TaskName t) z;
       percentage \<leftarrow> (if total_time = 0 then None else Some (Runtime t div total_time));
       str \<leftarrow> sprintf (decimal (unat (Runtime t))) str;
       z' \<leftarrow> cat str 0 z;
       z \<leftarrow> put_spaces (12 - (snd z' - snd z)) z';
       str \<leftarrow> sprintf (if percentage > 0 then decimal (unat percentage) @ ''%'' else ''<1%'') str;
       z \<leftarrow> cat str 0 z;
       z \<leftarrow> cats newline z;
       Some (str, z) }
     else Some (str, z) })"

definition OSRuntimeStats :: "config \<Rightarrow> bool \<Rightarrow> uint32_t \<Rightarrow> string \<Rightarrow> kernel \<Rightarrow> cursor \<Rightarrow> cursor option" where
  "OSRuntimeStats C dyn timer str k z = do {
     z \<leftarrow> cats (newline @ replicate 46 CHR ''*'' @ newline) z;
     z \<leftarrow> cats (''ID   NAME                    Abs Time   % Time '' @ newline) z;
     z \<leftarrow> cats (replicate 46 CHR ''*'' @ newline) z;
     let total_time = timer div 100;
     (str, z) \<leftarrow> for_rows (stats_row total_time k) (listed C dyn k) (str, z);
     z \<leftarrow> cats newline z;
     end_string z }"

section \<open>The scan of a stack\<close>

text \<open>
  The words of a stack from the saved stack pointer down to its end, and the depth of the stack below the pointer: the number of words
  before the first one from which on sixteen words in a row, or all words down to the end, are zero.
\<close>

definition stack_words :: "(uint32_t \<Rightarrow> uint32_t) \<Rightarrow> uint32_t \<Rightarrow> uint32_t \<Rightarrow> uint32_t list" where
  "stack_words ram sp_end sp = map (\<lambda>n. ram (sp - of_nat n * 4)) [0..<(unat sp - unat sp_end + 3) div 4]"

fun stack_depth :: "uint32_t list \<Rightarrow> nat" where
  "stack_depth [] = 0"
| "stack_depth (w # ws) = (if list_all (\<lambda>x. x = 0) (take 16 (w # ws)) then 0 else Suc (stack_depth ws))"

lemma stack_words_end: "sp \<le> sp_end \<Longrightarrow> stack_words ram sp_end sp = []"
  by (simp add: stack_words_def word_le_nat_alt)

lemma stack_words_step:
  assumes "sp > sp_end" and "4 \<le> unat sp_end"
  shows "stack_words ram sp_end sp = ram sp # stack_words ram sp_end (sp - 4)"
proof -
  have l: "unat sp_end < unat sp" using assms(1) by (simp add: word_less_nat_alt)
  have u: "unat (sp - 4) = unat sp - 4" using l assms(2) by (subst unat_sub) (simp_all add: word_le_nat_alt)
  have n: "(unat sp - unat sp_end + 3) div 4 = Suc ((unat (sp - 4) - unat sp_end + 3) div 4)"
  proof (cases "unat sp - unat sp_end < 4")
    case True
    then have "unat sp - unat sp_end + 3 = unat sp - unat sp_end - 1 + 4" "unat (sp - 4) - unat sp_end = 0" using l u by linarith+
    with True l show ?thesis by (simp add: div_add_self2)
  next
    case False
    then have "unat sp - unat sp_end + 3 = unat (sp - 4) - unat sp_end + 3 + 4" using u by linarith
    then show ?thesis by (simp add: div_add_self2)
  qed
  show ?thesis unfolding stack_words_def n upt_conv_Cons [OF zero_less_Suc] map_Suc_upt [symmetric] list.map by (simp add: algebra_simps)
qed

lemma depth_zeros: "stack_depth (replicate 16 0 @ ws) = 0" "stack_depth (replicate i 0) = 0"
  by (simp add: numeral_eq_Suc) (cases i; simp add: list_all_iff in_set_conv_nth)

lemma depth_run: "w \<noteq> 0 \<Longrightarrow> i < 16 \<Longrightarrow> stack_depth (replicate i 0 @ w # ws) = Suc (i + stack_depth ws)"
proof (induction i)
  case (Suc i)
  then have "\<not> list_all (\<lambda>x. x = 0) (take 16 (0 # replicate i 0 @ w # ws))" by (auto simp: list_all_iff take_Cons' min_def)
  with Suc show ?case by simp
qed simp

text \<open>The scan ends, and the address it reports is that of the first free word.\<close>

lemma scan_stack_spec:
  assumes e: "4 \<le> unat sp_end"
  shows "i \<le> 16 \<Longrightarrow> \<exists>sp' i'. scan_stack ram sp_end sp i = Some (sp', i') \<and>
     sp' + of_nat i' * 4 = sp + of_nat i * 4 - of_nat (stack_depth (replicate i 0 @ stack_words ram sp_end sp)) * 4"
proof (induction "unat sp" arbitrary: sp i rule: less_induct)
  case less
  show ?case
  proof (cases "i < 16 \<and> sp > sp_end")
    case True
    let ?i = "if ram sp = 0 then Suc i else 0"
    have u: "unat (sp - 4) < unat sp" using True e by (subst unat_sub) (auto simp: word_le_nat_alt word_less_nat_alt)
    have "?i \<le> 16" using True by simp
    from less.hyps [OF u this] obtain sp' i' where h: "scan_stack ram sp_end (sp - 4) ?i = Some (sp', i')"
      "sp' + of_nat i' * 4 = sp - 4 + of_nat ?i * 4 - of_nat (stack_depth (replicate ?i 0 @ stack_words ram sp_end (sp - 4))) * 4" by blast
    have "scan_stack ram sp_end sp i = Some (sp', i')" using True h(1) by (subst scan_stack.simps) simp
    moreover have "sp' + of_nat i' * 4 = sp + of_nat i * 4 - of_nat (stack_depth (replicate i 0 @ stack_words ram sp_end sp)) * 4"
    proof (cases "ram sp = 0")
      case z: True
      have eq: "replicate i 0 @ stack_words ram sp_end sp = replicate (Suc i) 0 @ stack_words ram sp_end (sp - 4)"
        unfolding stack_words_step [OF conjunct2 [OF True] e] z by (simp add: replicate_app_Cons_same)
      show ?thesis unfolding eq using h(2) z by (simp add: algebra_simps del: stack_depth.simps replicate.simps)
    next
      case z: False
      show ?thesis using h(2) z depth_run [OF z conjunct1 [OF True], of "stack_words ram sp_end (sp - 4)"]
        stack_words_step [OF conjunct2 [OF True] e, of ram] by (simp add: algebra_simps)
    qed
    ultimately show ?thesis by blast
  next
    case False
    then have "stack_depth (replicate i 0 @ stack_words ram sp_end sp) = 0"
      using less.prems depth_zeros(1) [of "stack_words ram sp_end sp"] depth_zeros(2) [of i] stack_words_end [of sp sp_end ram]
      by (cases "i = 16") (simp_all add: not_less)
    moreover have "scan_stack ram sp_end sp i = Some (sp, i)" using False by (subst scan_stack.simps) auto
    ultimately show ?thesis by simp
  qed
qed

text \<open>The end and the top of the stack of a task, and the bytes between its top and the first free word.\<close>

definition lower_end :: "config \<Rightarrow> bool \<Rightarrow> kernel \<Rightarrow> nat \<Rightarrow> uint32_t" where
  "lower_end C dyn k j = (if dyn then StackInit (tcb k j) else if j = 1 then STACK_base C else StackInit (tcb k (j - 1)))"

definition upper_end :: "bool \<Rightarrow> kernel \<Rightarrow> nat \<Rightarrow> uint32_t" where
  "upper_end dyn k j = (if dyn then StackInit (tcb k j) + ucast (StackSize (tcb k j)) else StackInit (tcb k j))"

definition stack_bytes :: "config \<Rightarrow> bool \<Rightarrow> kernel \<Rightarrow> nat \<Rightarrow> nat" where
  "stack_bytes C dyn k j = unat (upper_end dyn k j) - unat (StackPoint (tcb k j)) +
     4 * stack_depth (stack_words (RAM k) (lower_end C dyn k j) (StackPoint (tcb k j)))"

lemma stack_used_spec:
  assumes "j < length (ContextTask k)" and "4 \<le> unat (lower_end C dyn k j)" and "StackPoint (tcb k j) \<le> upper_end dyn k j"
    and "stack_bytes C dyn k j < 32768"
  obtains s where "stack_used C dyn k j = Some s" and "unat s = stack_bytes C dyn k j"
proof -
  let ?sp = "StackPoint (tcb k j)" let ?e = "lower_end C dyn k j" let ?t = "upper_end dyn k j"
  let ?d = "stack_depth (stack_words (RAM k) ?e ?sp)"
  have "stack_end C dyn k j = Some ?e" using assms(1) by (simp add: stack_end_def lower_end_def)
  moreover from scan_stack_spec [OF assms(2), of 0 "RAM k" ?sp] obtain sp i where
    "scan_stack (RAM k) ?e ?sp 0 = Some (sp, i)" "sp + of_nat i * 4 = ?sp - of_nat ?d * 4" by auto
  ultimately have r: "stack_used C dyn k j = Some (ucast (?t - (?sp - of_nat ?d * 4)))"
    using assms(1) by (simp add: stack_used_def upper_end_def Let_def)
  have b: "unat ?t - unat ?sp + 4 * ?d < 32768" using assms(4) by (simp add: stack_bytes_def)
  have d: "unat (of_nat ?d * 4 :: uint32_t) = 4 * ?d"
    using b by (subst unat_mult_lem [THEN iffD1]) (simp_all add: unsigned_of_nat take_bit_nat_eq_self)
  have "unat (?t - ?sp) = unat ?t - unat ?sp" using assms(3) by (simp add: unat_sub)
  then have "unat ((?t - ?sp) + of_nat ?d * 4) = unat ?t - unat ?sp + 4 * ?d"
    using b d by (subst unat_add_lem [THEN iffD1]) simp_all
  then have "unat (ucast ((?t - ?sp) + of_nat ?d * 4) :: uint16_t) = stack_bytes C dyn k j"
    using b by (simp add: unsigned_ucast_eq take_bit_nat_eq_self stack_bytes_def)
  moreover have "?t - (?sp - of_nat ?d * 4) = (?t - ?sp) + of_nat ?d * 4" by (simp only: diff_diff_eq2 diff_add_eq)
  ultimately show ?thesis using r that by metis
qed

section \<open>The table of the tasks\<close>

definition right :: "nat \<Rightarrow> string \<Rightarrow> string" where
  "right w t = replicate (w - length t) CHR '' '' @ t"

definition id_text :: "nat \<Rightarrow> string" where
  "id_text j = ''['' @ decimal j @ (if j < 10 then '']  '' else ''] '')"

definition left :: "nat \<Rightarrow> string \<Rightarrow> string" where
  "left w t = t @ replicate (w - length t) CHR '' ''"

lemma put_spaces_behind [simp]:
  "n \<le> length rest \<Longrightarrow> put_spaces n (behind out rest) = Some (behind (out @ replicate n CHR '' '') (drop n rest))"
proof (induction n arbitrary: out rest)
  case (Suc n)
  then have "0 < length rest" "n \<le> length (drop 1 rest)" by auto
  with Suc.IH [of "drop 1 rest" "out @ '' ''"] show ?case by (simp add: replicate_app_Cons_same)
qed simp

lemma snd_behind [simp]: "snd (behind out rest) = length out"
  by (simp add: behind_def)

lemma print_id_spec:
  assumes "j < 100" and "7 \<le> length str" and "6 \<le> length rest"
  shows "\<exists>str'. print_id j str (behind out rest) = Some (str', behind (out @ id_text j) (drop (length (id_text j)) rest)) \<and>
     length str' = length str"
proof (cases "j < 10")
  case True
  then have d: "decimal j = [char_of (j + 48)]" by (subst decimal.simps) simp
  have "rest \<noteq> []" using assms(3) by auto
  then show ?thesis using True assms by (simp add: print_id_def id_text_def d)
next
  case False
  have ne: "rest \<noteq> []" using assms(3) by auto
  have "\<not> j div 10 \<ge> 10" using assms(1) by simp
  then have L: "length (decimal j) = 2" using False by (subst decimal.simps) (simp add: decimal.simps [of "j div 10"])
  have d: "decimal_int (int j) = decimal j" "small (int j)" using assms(1) by (simp_all add: decimal_int_def small_def)
  have "4 \<le> 6 - length (decimal_int (int j))" "6 - 4 \<le> length (drop 1 rest)" using d L assms(3) by simp_all
  from print_at_Some [OF d(2) assms(2) this, of "out @ ''[''"] have
    p: "print_at (Some 4) (int j) str (behind (out @ ''['') (drop 1 rest)) =
      Some (printed (int j) str, behind (out @ ''['' @ decimal j) (drop 3 rest))" using d L by (simp add: numeral_eq_Suc)
  have "print_id j str (behind out rest) = Some (printed (int j) str, behind (out @ id_text j) (drop (length (id_text j)) rest))"
    using False assms L ne p by (simp add: print_id_def id_text_def)
  then show ?thesis using length_printed [OF d(2) assms(2)] by simp
qed

lemma left_length: "length (left w t) = max w (length t)"
  by (simp add: left_def)

lemma print_name_spec:
  assumes "NUL \<notin> set name" and "max 24 (length name) \<le> length rest"
  shows "print_name name (behind out rest) = Some (behind (out @ left 24 name) (drop (length (left 24 name)) rest))"
  using assms by (cases "length name \<le> 24") (simp_all add: print_name_def left_def)

text \<open>What a row needs: a name of at most 32 characters, a priority of the kernel, a stack in the memory, and a use of it that fits into a signed 16-bit number.\<close>

definition row_ok :: "config \<Rightarrow> bool \<Rightarrow> kernel \<Rightarrow> nat \<Rightarrow> bool" where
  "row_ok C dyn k j \<longleftrightarrow> j < 100 \<and> j < length (ContextTask k) \<and> (Priority (tcb k j) \<noteq> EMPTY_PRIO \<longrightarrow>
     unat (Priority (tcb k j)) < 32 \<and> NUL \<notin> set (TaskName (tcb k j)) \<and> length (TaskName (tcb k j)) \<le> 32 \<and>
     4 \<le> unat (lower_end C dyn k j) \<and> StackPoint (tcb k j) \<le> upper_end dyn k j \<and> stack_bytes C dyn k j < 32768)"

text \<open>A task is blocked if its priority is, otherwise ready or suspended.\<close>

definition task_state :: "kernel \<Rightarrow> nat \<Rightarrow> char" where
  "task_state k p = (if p \<notin> prios (OSBlockedList k) then CHR ''B'' else if p \<in> prios (OSReadyList k) then CHR ''R'' else CHR ''S'')"

definition row_text :: "config \<Rightarrow> bool \<Rightarrow> kernel \<Rightarrow> nat \<Rightarrow> string" where
  "row_text C dyn k j = (if Priority (tcb k j) = EMPTY_PRIO then []
     else id_text j @ left 24 (TaskName (tcb k j)) @ ''  '' @ [task_state k (prio_of k j)] @ ''      '' @
       right 4 (decimal (prio_of k j)) @ ''       '' @ right 6 (decimal (stack_bytes C dyn k j)) @ newline)"

lemma state_char_spec:
  assumes p: "unat p < 32"
  shows "state_char k p = Some (task_state k (unat p))"
proof -
  let ?m = "PriorityMask ! unat p"
  have m: "prios ?m = {unat p}" by (rule prios_PriorityMask [OF p])
  have "OSBlockedList k AND ?m = 0 \<longleftrightarrow> prios (OSBlockedList k AND ?m) = {}" by simp
  then have b: "OSBlockedList k AND ?m = 0 \<longleftrightarrow> unat p \<notin> prios (OSBlockedList k)" by (simp only: prios_and m) auto
  have "OSReadyList k AND ?m = ?m \<longleftrightarrow> prios (OSReadyList k AND ?m) = prios ?m" by (metis prios_eqI)
  then have r: "OSReadyList k AND ?m = ?m \<longleftrightarrow> unat p \<in> prios (OSReadyList k)" by (simp only: prios_and m) auto
  show ?thesis using p by (simp add: state_char_def task_state_def b r)
qed

lemma id_text_length: "j < 100 \<Longrightarrow> length (id_text j) = 5"
proof -
  assume j: "j < 100"
  have "length (decimal j) = (if j < 10 then 1 else 2)" using j less_mult_imp_div_less [of j 10 10]
    by (subst decimal.simps) (simp add: decimal.simps [of "j div 10"])
  then show ?thesis by (simp add: id_text_def)
qed

lemma task_row_spec:
  assumes r: "row_ok C dyn k j" and str: "7 \<le> length str" and room: "65 \<le> length rest"
  shows "\<exists>str'. task_row C dyn k j (str, behind out rest) =
      Some (str', behind (out @ row_text C dyn k j) (drop (length (row_text C dyn k j)) rest)) \<and> length str' = length str"
    and "length (row_text C dyn k j) \<le> 65"
proof (atomize (full), cases "Priority (tcb k j) = EMPTY_PRIO")
  case True
  with r show "(\<exists>str'. task_row C dyn k j (str, behind out rest) =
      Some (str', behind (out @ row_text C dyn k j) (drop (length (row_text C dyn k j)) rest)) \<and> length str' = length str) \<and>
    length (row_text C dyn k j) \<le> 65" by (simp add: task_row_def row_ok_def row_text_def)
next
  case False
  let ?t = "tcb k j" let ?p = "Priority ?t"
  from r False obtain s where j: "j < 100" "j < length (ContextTask k)" and p: "unat ?p < 32"
    and name: "NUL \<notin> set (TaskName ?t)" "length (TaskName ?t) \<le> 32" and s: "stack_used C dyn k j = Some s" "unat s < 32768" "stack_bytes C dyn k j = unat s"
    by (auto simp: row_ok_def elim: stack_used_spec)
  note i = id_text_length [OF j(1)]
  from print_id_spec [OF j(1) str, of rest out] room obtain str1 where
    id: "print_id j str (behind out rest) = Some (str1, behind (out @ id_text j) (drop 5 rest))" "length str1 = length str" by (auto simp: i)
  have d: "length (decimal (unat ?p)) \<le> 2" using p by (intro decimal_length) simp_all
  note t = total_shown [of "unat s"]
  define v where "v = wrap16 (uint s)"
  have "uint s = int (unat s)" by (rule uint_nat)
  then have v: "v = int (unat s)" unfolding v_def using t(1) [OF s(2)] by (simp only:)
  have sm: "small v" "decimal_int v = decimal (unat s)" unfolding v by (rule t(2) [OF s(2)], rule t(3))
  have w: "print_at (Some 0) v str2 (behind o2 r2) = Some (printed v str2, behind (o2 @ right 6 (decimal (unat s))) (drop 6 r2))"
    if "7 \<le> length str2" "6 \<le> length r2" for str2 o2 r2
    using print_at_Some [OF sm(1) that(1), of 0 r2 o2] that by (simp add: right_def sm(2))
  have q: "print_at (Some 2) (uint ?p) str2 (behind o2 r2) = Some (printed (uint ?p) str2, behind (o2 @ right 4 (decimal (unat ?p))) (drop 4 r2))"
    if "7 \<le> length str2" "4 \<le> length r2" for str2 o2 r2
    using print_at_Some [OF uint8_decimal(1) that(1), of 2 ?p r2 o2] that d by (simp add: right_def uint8_decimal(2))
  have len: "length (left 24 (TaskName ?t)) \<le> 32" "length (right 4 (decimal (unat ?p))) = 4" "length (right 6 (decimal (unat s))) = 6"
    using name(2) d t(4) [OF s(2)] by (simp_all add: left_length right_def)
  let ?l = "length (left 24 (TaskName ?t))"
  have nm: "print_name (TaskName ?t) (behind (out @ id_text j) (drop 5 rest)) = Some (behind ((out @ id_text j) @ left 24 (TaskName ?t)) (drop ?l (drop 5 rest)))"
    by (rule print_name_spec [OF name(1)]) (use name(2) room in auto)
  have "task_row C dyn k j (str, behind out rest) = Some (printed v (printed (uint ?p) str1),
      behind (out @ row_text C dyn k j) (drop (?l + 33) rest))"
    using False j str room len(1) s id nm by (simp add: task_row_def row_text_def state_char_spec [OF p] q w v_def [symmetric]
        length_printed [OF uint8_decimal(1)] add.commute)
  moreover have "length (row_text C dyn k j) = ?l + 33" using False s(3) i len by (simp add: row_text_def)
  ultimately show "(\<exists>str'. task_row C dyn k j (str, behind out rest) =
      Some (str', behind (out @ row_text C dyn k j) (drop (length (row_text C dyn k j)) rest)) \<and> length str' = length str) \<and>
    length (row_text C dyn k j) \<le> 65" using id(2) str len(1) length_printed [OF uint8_decimal(1)] length_printed [OF sm(1)] by simp
qed

section \<open>Tables of rows\<close>

text \<open>What a table needs of its rows: each appends its text, of at most \<open>width\<close> characters, and the local array
  keeps its size, at least \<open>need\<close> bytes.\<close>

locale row_printer =
  fixes row :: "nat \<Rightarrow> string \<times> cursor \<Rightarrow> (string \<times> cursor) option"
    and row_fits :: "nat \<Rightarrow> bool" and text_of :: "nat \<Rightarrow> string" and width :: nat and need :: nat
  assumes prints: "row_fits j \<Longrightarrow> need \<le> length str \<Longrightarrow> width \<le> length rest \<Longrightarrow>
      \<exists>str'. row j (str, behind out rest) = Some (str', behind (out @ text_of j) (drop (length (text_of j)) rest)) \<and> length str' = length str"
    and fits: "row_fits j \<Longrightarrow> length (text_of j) \<le> width"
begin

lemma table:
  "\<forall>j \<in> set js. row_fits j \<Longrightarrow> need \<le> length str \<Longrightarrow> width * length js \<le> length rest \<Longrightarrow>
     \<exists>str'. for_rows row js (str, behind out rest) =
       Some (str', behind (out @ concat (map text_of js)) (drop (length (concat (map text_of js))) rest)) \<and> length str' = length str"
proof (induction js arbitrary: str out rest)
  case (Cons j js)
  let ?r = "drop (length (text_of j)) rest"
  from Cons.prems have f: "row_fits j" "width \<le> length rest" by auto
  from prints [OF f(1) Cons.prems(2) f(2), of out] obtain str1 where
    r: "row j (str, behind out rest) = Some (str1, behind (out @ text_of j) ?r)" "length str1 = length str" by blast
  have "width * length js \<le> length ?r" using Cons.prems(3) fits [OF f(1)] by simp
  with Cons.IH [of str1 ?r "out @ text_of j"] Cons.prems r obtain str2 where
    "for_rows row js (str1, behind (out @ text_of j) ?r) = Some (str2, behind (out @ text_of j @ concat (map text_of js))
      (drop (length (concat (map text_of js))) ?r))" "length str2 = length str1" by auto
  with r show ?case by (simp add: add.commute)
qed simp

lemma table_length: "\<forall>j \<in> set js. row_fits j \<Longrightarrow> length (concat (map text_of js)) \<le> width * length js"
  by (induction js) (auto dest: fits intro: add_mono)

lemma rest_of_table:
  assumes "\<forall>j \<in> set js. row_fits j" and "need \<le> length str" and "width * length js + 3 \<le> length rest"
  shows "\<exists>rest'. do { (str, z) \<leftarrow> for_rows row js (str, behind out rest); z \<leftarrow> cats newline z; end_string z } =
     Some (behind (out @ concat (map text_of js) @ newline) (NUL # rest'))"
proof -
  let ?rows = "concat (map text_of js)" let ?r = "drop (length ?rows) rest"
  from table [OF assms(1,2), of rest out] assms(3) obtain str' where
    t: "for_rows row js (str, behind out rest) = Some (str', behind (out @ ?rows) ?r)" by auto
  have "3 \<le> length ?r" using table_length [OF assms(1)] assms(3) by simp
  then have e: "cats newline (behind (out @ ?rows) ?r) = Some (behind ((out @ ?rows) @ newline) (drop 2 ?r))"
    "end_string (behind ((out @ ?rows) @ newline) (drop 2 ?r)) = Some (behind ((out @ ?rows) @ newline) (NUL # drop 1 (drop 2 ?r)))"
    by (simp_all add: numeral_eq_Suc)
  have "do { (str, z) \<leftarrow> for_rows row js (str, behind out rest); z \<leftarrow> cats newline z; end_string z } =
     Some (behind ((out @ ?rows) @ newline) (NUL # drop 1 (drop 2 ?r)))" by (simp only: t e Option.bind.simps prod.case)
  then show ?thesis by (simp only: append_assoc) (rule exI, rule refl)
qed

end

interpretation task_table: row_printer "task_row C dyn k" "row_ok C dyn k" "row_text C dyn k" 65 7 for C dyn k
proof unfold_locales
  fix j and str rest out :: string
  assume r: "row_ok C dyn k j" "7 \<le> length str" "65 \<le> length rest"
  show "\<exists>str'. task_row C dyn k j (str, behind out rest) =
      Some (str', behind (out @ row_text C dyn k j) (drop (length (row_text C dyn k j)) rest)) \<and> length str' = length str"
    by (rule task_row_spec(1) [OF r])
next
  fix j
  assume "row_ok C dyn k j"
  then show "length (row_text C dyn k j) \<le> 65" by (rule task_row_spec(2) [of _ _ _ _ "replicate 7 NUL" "replicate 65 NUL"]) simp_all
qed

definition task_table_text :: "config \<Rightarrow> bool \<Rightarrow> kernel \<Rightarrow> string" where
  "task_table_text C dyn k = newline @ stars @ newline @
     ''ID   NAME                    STATE   PRIORITY   STACK SIZE'' @ newline @ stars @ newline @
     concat (map (row_text C dyn k) (listed C dyn k)) @ newline"

lemma OSTaskList_spec:
  assumes r: "\<forall>j \<in> set (listed C dyn k). row_ok C dyn k j" and str: "7 \<le> length str"
    and room: "190 + 65 * length (listed C dyn k) \<le> length rest"
  shows "\<exists>rest'. OSTaskList C dyn str k (behind out rest) = Some (behind (out @ task_table_text C dyn k) (NUL # rest'))"
proof -
  let ?js = "listed C dyn k" let ?rows = "concat (map (row_text C dyn k) ?js)"
  let ?a = "newline @ stars @ newline" let ?c = "stars @ newline"
  let ?b = "''ID   NAME                    STATE   PRIORITY   STACK SIZE'' @ newline"
  have h1: "cats ?a (behind out rest) = Some (behind (out @ ?a) (drop 63 rest))" using room by simp
  have h2: "cats ?b (behind (out @ ?a) (drop 63 rest)) = Some (behind ((out @ ?a) @ ?b) (drop 123 rest))" using room by simp
  have h3: "cats ?c (behind ((out @ ?a) @ ?b) (drop 123 rest)) = Some (behind (((out @ ?a) @ ?b) @ ?c) (drop 184 rest))" using room by simp
  let ?o = "((out @ ?a) @ ?b) @ ?c"
  have "65 * length ?js + 3 \<le> length (drop 184 rest)" using room by simp
  from task_table.rest_of_table [OF r str this, of ?o] show ?thesis
    unfolding OSTaskList_def h1 Option.bind.simps h2 h3 by (simp only: Option.bind.simps task_table_text_def append_assoc)
qed

section \<open>The run-time statistics\<close>

definition stats_ok :: "kernel \<Rightarrow> nat \<Rightarrow> bool" where
  "stats_ok k j \<longleftrightarrow> j < 100 \<and> j < length (ContextTask k) \<and> (Priority (tcb k j) \<noteq> EMPTY_PRIO \<longrightarrow>
     NUL \<notin> set (TaskName (tcb k j)) \<and> length (TaskName (tcb k j)) \<le> 24)"

definition percent_text :: "nat \<Rightarrow> string" where
  "percent_text p = (if p > 0 then decimal p @ ''%'' else ''<1%'')"

definition stats_text :: "uint32_t \<Rightarrow> kernel \<Rightarrow> nat \<Rightarrow> string" where
  "stats_text total_time k j = (if Priority (tcb k j) = EMPTY_PRIO then []
     else id_text j @ left 24 (TaskName (tcb k j)) @ left 12 (decimal (unat (Runtime (tcb k j)))) @
       percent_text (unat (Runtime (tcb k j)) div unat total_time) @ newline)"

lemma decimal_length_32: "length (decimal (unat (x :: uint32_t))) \<le> 10"
proof -
  have "unat x < 10 ^ 10" using unsigned_less [of x, where 'a = nat] by simp
  then show ?thesis by (intro decimal_length) simp_all
qed

lemma sprintf_cat:
  assumes "NUL \<notin> set t" and "length t < length str" and "length t \<le> length rest"
  shows "\<exists>str'. sprintf t str = Some str' \<and> length str' = length str \<and>
     cat str' 0 (behind out rest) = Some (behind (out @ t) (drop (length t) rest))"
  using assms cat_behind [OF assms(1,3), of 0 "[]" "drop (Suc (length t)) str" out] by (simp add: sprintf_def)

lemma stats_row_spec:
  assumes r: "stats_ok k j" and tot: "total_time \<noteq> 0" and str: "16 \<le> length str" and room: "54 \<le> length rest"
  shows "\<exists>str'. stats_row total_time k j (str, behind out rest) =
      Some (str', behind (out @ stats_text total_time k j) (drop (length (stats_text total_time k j)) rest)) \<and> length str' = length str"
    and "length (stats_text total_time k j) \<le> 54"
proof (atomize (full), cases "Priority (tcb k j) = EMPTY_PRIO")
  case True
  with r show "(\<exists>str'. stats_row total_time k j (str, behind out rest) =
      Some (str', behind (out @ stats_text total_time k j) (drop (length (stats_text total_time k j)) rest)) \<and> length str' = length str) \<and>
    length (stats_text total_time k j) \<le> 54" by (simp add: stats_row_def stats_ok_def stats_text_def)
next
  case False
  let ?t = "tcb k j" let ?n = "decimal (unat (Runtime ?t))" let ?p = "unat (Runtime ?t) div unat total_time"
  from r False have j: "j < 100" "j < length (ContextTask k)" and name: "NUL \<notin> set (TaskName ?t)" "length (TaskName ?t) \<le> 24"
    by (auto simp: stats_ok_def)
  note i = id_text_length [OF j(1)]
  have str7: "7 \<le> length str" using str by simp
  from print_id_spec [OF j(1) str7, of rest out] room obtain str1 where
    id: "print_id j str (behind out rest) = Some (str1, behind (out @ id_text j) (drop 5 rest))" "length str1 = length str" by (auto simp: i)
  let ?o = "(out @ id_text j) @ left 24 (TaskName ?t)"
  have nm: "print_name (TaskName ?t) (behind (out @ id_text j) (drop 5 rest)) = Some (behind ?o (drop 29 rest))"
    using print_name_spec [OF name(1), of "drop 5 rest" "out @ id_text j"] room name(2) by (simp add: left_length)
  have ln: "length ?n \<le> 10" by (rule decimal_length_32)
  have "length ?n < length str1" "length ?n \<le> length (drop 29 rest)" using ln id(2) str room by simp_all
  from sprintf_cat [OF decimal_no_NUL(1) this, of ?o] obtain str2 where
    s2: "sprintf ?n str1 = Some str2" "length str2 = length str" "cat str2 0 (behind ?o (drop 29 rest)) = Some (behind (?o @ ?n) (drop (length ?n) (drop 29 rest)))"
    unfolding id(2) by blast
  have sp: "put_spaces (12 - (snd (behind (?o @ ?n) (drop (length ?n) (drop 29 rest))) - snd (behind ?o (drop 29 rest))))
      (behind (?o @ ?n) (drop (length ?n) (drop 29 rest))) = Some (behind (?o @ left 12 ?n) (drop 41 rest))"
    using ln room by (simp add: left_def)
  have pu: "unat (Runtime ?t div total_time) = ?p" by (rule unat_div)
  have pt: "(if Runtime ?t div total_time > 0 then decimal (unat (Runtime ?t div total_time)) @ ''%'' else ''<1%'') = percent_text ?p"
    unfolding percent_text_def pu [symmetric] by (simp add: unat_gt_0 word_gt_0)
  have lp: "length (percent_text ?p) \<le> 11" "NUL \<notin> set (percent_text ?p)"
    using decimal_length_32 [of "Runtime ?t div total_time"] decimal_no_NUL(1) [of ?p] unfolding pu by (auto simp: percent_text_def)
  have "length (percent_text ?p) < length str2" "length (percent_text ?p) \<le> length (drop 41 rest)" using lp(1) s2(2) str room by simp_all
  from sprintf_cat [OF lp(2) this, of "?o @ left 12 ?n"] obtain str3 where
    s3: "sprintf (percent_text ?p) str2 = Some str3" "length str3 = length str"
      "cat str3 0 (behind (?o @ left 12 ?n) (drop 41 rest)) = Some (behind ((?o @ left 12 ?n) @ percent_text ?p) (drop (length (percent_text ?p)) (drop 41 rest)))"
    unfolding s2(2) by blast
  have nl: "cats newline (behind ((?o @ left 12 ?n) @ percent_text ?p) (drop (length (percent_text ?p)) (drop 41 rest))) =
      Some (behind (((?o @ left 12 ?n) @ percent_text ?p) @ newline) (drop 2 (drop (length (percent_text ?p)) (drop 41 rest))))"
    using lp(1) room by (simp add: numeral_eq_Suc)
  have e: "out @ stats_text total_time k j = ((?o @ left 12 ?n) @ percent_text ?p) @ newline" using False by (simp add: stats_text_def)
  have l: "length (stats_text total_time k j) = 43 + length (percent_text ?p)"
    using False i ln name(2) by (simp add: stats_text_def left_def)
  have pc: "(if total_time = 0 then None else Some (Runtime ?t div total_time)) = Some (Runtime ?t div total_time)" using tot by simp
  have pr: "(Priority ?t \<noteq> EMPTY_PRIO) = True" using False by simp
  have "stats_row total_time k j (str, behind out rest) = Some (str3, behind (out @ stats_text total_time k j)
      (drop 2 (drop (length (percent_text ?p)) (drop 41 rest))))"
    by (simp only: stats_row_def prod.case rd_in [OF j(2)] Option.bind.simps pr if_True id(1) nm pc s2 sp pt s3 nl e)
  then show "(\<exists>str'. stats_row total_time k j (str, behind out rest) =
      Some (str', behind (out @ stats_text total_time k j) (drop (length (stats_text total_time k j)) rest)) \<and> length str' = length str) \<and>
    length (stats_text total_time k j) \<le> 54" using lp(1) s3(2) by (simp add: l add.commute)
qed

interpretation stats_table: row_printer "stats_row total_time k" "\<lambda>j. stats_ok k j \<and> total_time \<noteq> 0" "stats_text total_time k" 54 16
  for total_time k
proof unfold_locales
  fix j and str rest out :: string
  assume r: "stats_ok k j \<and> total_time \<noteq> 0" "16 \<le> length str" "54 \<le> length rest"
  show "\<exists>str'. stats_row total_time k j (str, behind out rest) =
      Some (str', behind (out @ stats_text total_time k j) (drop (length (stats_text total_time k j)) rest)) \<and> length str' = length str"
    by (rule stats_row_spec(1)) (use r in auto)
next
  fix j
  assume "stats_ok k j \<and> total_time \<noteq> 0"
  then show "length (stats_text total_time k j) \<le> 54" by (intro stats_row_spec(2) [of _ _ _ "replicate 16 NUL" "replicate 54 NUL"]) auto
qed

definition stats_table_text :: "config \<Rightarrow> bool \<Rightarrow> uint32_t \<Rightarrow> kernel \<Rightarrow> string" where
  "stats_table_text C dyn timer k = newline @ replicate 46 CHR ''*'' @ newline @
     ''ID   NAME                    Abs Time   % Time '' @ newline @ replicate 46 CHR ''*'' @ newline @
     concat (map (stats_text (timer div 100) k) (listed C dyn k)) @ newline"

lemma OSRuntimeStats_spec:
  assumes r: "\<forall>j \<in> set (listed C dyn k). stats_ok k j" and t: "100 \<le> timer" and str: "16 \<le> length str"
    and room: "160 + 54 * length (listed C dyn k) \<le> length rest"
  shows "\<exists>rest'. OSRuntimeStats C dyn timer str k (behind out rest) = Some (behind (out @ stats_table_text C dyn timer k) (NUL # rest'))"
proof -
  let ?js = "listed C dyn k"
  let ?a = "newline @ replicate 46 CHR ''*'' @ newline" let ?c = "replicate 46 CHR ''*'' @ newline"
  let ?b = "''ID   NAME                    Abs Time   % Time '' @ newline"
  have h1: "cats ?a (behind out rest) = Some (behind (out @ ?a) (drop 50 rest))" using room by simp
  have h2: "cats ?b (behind (out @ ?a) (drop 50 rest)) = Some (behind ((out @ ?a) @ ?b) (drop 99 rest))" using room by simp
  have h3: "cats ?c (behind ((out @ ?a) @ ?b) (drop 99 rest)) = Some (behind (((out @ ?a) @ ?b) @ ?c) (drop 147 rest))" using room by simp
  have nz: "timer div 100 \<noteq> 0"
  proof
    assume "timer div 100 = 0"
    then have "unat timer div 100 = 0" using unat_div [of timer 100] by simp
    moreover have "100 \<le> unat timer" using t by (simp add: word_le_nat_alt)
    ultimately show False by (simp add: div_eq_0_iff)
  qed
  have "54 * length ?js + 3 \<le> length (drop 147 rest)" using room by simp
  moreover have "\<forall>j \<in> set ?js. stats_ok k j \<and> timer div 100 \<noteq> 0" using r nz by blast
  ultimately have "\<exists>rest'. do { (str, z) \<leftarrow> for_rows (stats_row (timer div 100) k) ?js (str, behind (((out @ ?a) @ ?b) @ ?c) (drop 147 rest));
      z \<leftarrow> cats newline z; end_string z } =
      Some (behind ((((out @ ?a) @ ?b) @ ?c) @ concat (map (stats_text (timer div 100) k) ?js) @ newline) (NUL # rest'))"
    by (intro stats_table.rest_of_table str)
  then show ?thesis unfolding OSRuntimeStats_def h1 Option.bind.simps h2 h3 Let_def by (simp only: Option.bind.simps stats_table_text_def append_assoc)
qed

text \<open>In the first hundred units of the timer the divisor is zero.\<close>

lemma OSRuntimeStats_div_zero:
  assumes t: "timer < 100" and j: "listed C dyn k = j # js" "Priority (tcb k j) \<noteq> EMPTY_PRIO"
  shows "OSRuntimeStats C dyn timer str k z = None"
proof -
  have "timer div 100 = 0" using t by (simp add: word_less_nat_alt word_unat_eq_iff unat_div)
  with j show ?thesis by (auto simp: OSRuntimeStats_def stats_row_def Let_def rd_def split: bind_splits)
qed

end
