(* ===== verification/InfoProps.thy ===== *)
theory InfoProps
  imports Demo TaskList
begin

text \<open>Properties of the text output of the kernel's state (\<^verbatim>\<open>OSInfo.c\<close>).\<close>

section \<open>Numbers\<close>

definition read_int :: "string \<Rightarrow> int" where
  "read_int t = (if hd t = CHR ''-'' then - int (read_decimal (tl t)) else int (read_decimal t))"

lemma read_decimal_int: "read_int (decimal_int v) = v"
proof -
  have "CHR ''-'' \<notin> set (decimal (nat v))" using decimal_digits [of "CHR ''-''" "nat v"] by auto
  then have "hd (decimal (nat v)) \<noteq> CHR ''-''" by (metis decimal_not_Nil hd_in_set)
  then show ?thesis by (simp add: read_int_def decimal_int_def)
qed

text \<open>
  \<^verbatim>\<open>PrintDecimal\<close> writes a number of 16 bits right-justified into a field of six characters and an end of string, and returns
  the pointer to the first character of the number: reading the text there gives the number back. The one number it cannot print is the
  least one. It needs seven bytes.
\<close>

theorem print_decimal_roundtrip:
  assumes "- 32768 < v" and "v < 32768" and "7 \<le> length b"
  shows "\<exists>t. PrintDecimal v b = Some (6 - length t, replicate (6 - length t) CHR '' '' @ t @ NUL # drop 7 b) \<and>
     length t \<le> 6 \<and> NUL \<notin> set t \<and> read_int t = v"
  using PrintDecimal_spec [OF assms] decimal_no_NUL(2) read_decimal_int by blast

theorem print_decimal_roundtrip_witness:
  "\<exists>t. PrintDecimal (- 123) (replicate 8 NUL) = Some (6 - length t, replicate (6 - length t) CHR '' '' @ t @ [NUL, NUL]) \<and> read_int t = - 123"
  using print_decimal_roundtrip [of "- 123" "replicate 8 NUL"] by auto

section \<open>Reports\<close>

text \<open>
  the up-time report prints days, hours, minutes and seconds, but only with a local array of seven bytes: the array
  \<^verbatim>\<open>str[6]\<close> of the code is one byte too short for \<^verbatim>\<open>PrintDecimal\<close>, and every call writes beyond it.
\<close>

theorem uptime_report:
  assumes "40 \<le> length rest"
  shows "(length str = 6 \<longrightarrow> OSUptimeInfo str c (behind out rest) = None) \<and>
     (7 \<le> length str \<longrightarrow> (\<exists>rest'. OSUptimeInfo str c (behind out rest) = Some (behind (out @ uptime_text c) (NUL # rest'))))"
  using OSUptimeInfo_overflow [of str rest c out] OSUptimeInfo_spec [of str rest c out] assms by simp

definition demo_uptime :: clock where
  "demo_uptime = \<lparr>Hora = \<lparr>RTC_Second = 7, RTC_Minute = 30, RTC_Hour = 12\<rparr>, Data = \<lparr>RTC_Day = 3, RTC_Month = 0, RTC_Year = 0\<rparr>,
     OSRtc = \<lparr>Year = 2011, Month = 3, Day = 28, Hour = 9, Min = 0, Sec = 30\<rparr>, LeapMonth = 0\<rparr>"

theorem uptime_report_witness:
  "OSUptimeInfo (replicate 6 NUL) demo_uptime (behind [] (replicate 64 NUL)) = None \<and>
   (\<exists>rest'. OSUptimeInfo (replicate 7 NUL) demo_uptime (behind [] (replicate 64 NUL)) = Some (behind (uptime_text demo_uptime) (NUL # rest')))"
  using uptime_report [of "replicate 64 NUL" "replicate 6 NUL" demo_uptime "[]"]
    uptime_report [of "replicate 64 NUL" "replicate 7 NUL" demo_uptime "[]"] by simp

text \<open>
  C34: the task list shows every installed task in one row, with its number, name, state (blocked, ready or suspended), priority and
  the number of bytes used of its stack, and ends the string; no write leaves the buffer if it has 65 characters for each task and 190 more. The bytes used
  reach from the top of the stack to the first word below the saved stack pointer from which on sixteen words, or all words down to the end
  of the stack, are zero. The names have at most 32 characters, and the stacks use less than 32768 bytes.
\<close>

theorem task_list_table:
  assumes "\<forall>j \<in> set (listed C dyn k). row_ok C dyn k j" and "length str = 9"
    and "190 + 65 * length (listed C dyn k) \<le> length rest"
  shows "\<exists>rest'. OSTaskList C dyn str k (behind out rest) = Some (behind (out @ task_table_text C dyn k) (NUL # rest'))"
  using assms by (intro OSTaskList_spec) simp_all

lemma demo_listed: "listed demo_config False (demo r c) = [1, 2, 3]"
  by (simp add: listed_def demo_def upt_rec)

text \<open>Three tasks with stacks of 128 bytes, each with a word at the saved stack pointer; the second one has also used the word four words below.\<close>

definition demo_stacks :: kernel where
  "demo_stacks = (let k = demo ready_low 2; stack = (\<lambda>j a b. (tcb k j)\<lparr>StackInit := a, StackPoint := b\<rparr>) in
     k\<lparr>ContextTask := [tcb k 0, stack 1 0x20000080 0x20000060, stack 2 0x20000100 0x200000E0, stack 3 0x20000180 0x20000140],
       RAM := (\<lambda>a. if a \<in> {0x20000060, 0x200000E0, 0x200000D0, 0x20000140} then 1 else 0)\<rparr>)"

lemma demo_stacks_listed: "listed demo_config False demo_stacks = [1, 2, 3]"
  by (simp add: listed_def demo_stacks_def demo_def upt_rec Let_def)

lemma demo_stacks_tasks:
  "ContextTask demo_stacks = [zero_task, (demo_task 0)\<lparr>StackInit := 0x20000080, StackPoint := 0x20000060\<rparr>,
     (demo_task 5)\<lparr>StackInit := 0x20000100, StackPoint := 0x200000E0\<rparr>, (demo_task 10)\<lparr>StackInit := 0x20000180, StackPoint := 0x20000140\<rparr>]"
  "RAM demo_stacks = (\<lambda>a. if a \<in> {0x20000060, 0x200000E0, 0x200000D0, 0x20000140} then 1 else 0)"
  by (simp_all add: demo_stacks_def Let_def)

lemma demo_stacks_ends: "lower_end demo_config False demo_stacks 1 = 0x20000000" "lower_end demo_config False demo_stacks 2 = 0x20000080"
  "lower_end demo_config False demo_stacks 3 = 0x20000100" "upper_end False demo_stacks 1 = 0x20000080" "upper_end False demo_stacks 2 = 0x20000100"
  "upper_end False demo_stacks 3 = 0x20000180"
  by (simp_all add: lower_end_def upper_end_def demo_stacks_tasks)

lemma demo_stacks_bytes: "stack_bytes demo_config False demo_stacks 1 = 36" "stack_bytes demo_config False demo_stacks 2 = 52"
  "stack_bytes demo_config False demo_stacks 3 = 68"
  unfolding stack_bytes_def demo_stacks_ends by (simp_all add: stack_words_def demo_stacks_tasks upt_conv_Cons)

lemma demo_stacks_rows: "\<forall>j \<in> set (listed demo_config False demo_stacks). row_ok demo_config False demo_stacks j"
proof -
  have "row_ok demo_config False demo_stacks 1" "row_ok demo_config False demo_stacks 2" "row_ok demo_config False demo_stacks 3"
    unfolding row_ok_def demo_stacks_ends demo_stacks_bytes by (simp_all add: demo_stacks_tasks demo_task_def zero_task_def word_le_nat_alt)
  then show ?thesis unfolding demo_stacks_listed by simp
qed

theorem task_list_table_witness:
  "(\<exists>rest'. OSTaskList demo_config False (replicate 9 NUL) demo_stacks (behind [] (replicate 400 NUL)) =
     Some (behind (task_table_text demo_config False demo_stacks) (NUL # rest'))) \<and> stack_bytes demo_config False demo_stacks 2 = 52"
  using task_list_table [OF demo_stacks_rows, of "replicate 9 NUL" "replicate 400 NUL" "[]"] by (simp add: demo_stacks_listed demo_stacks_bytes)

text \<open>
  the memory report shows the used bytes of each heap exactly up to 32767; for more bytes it converts the number to a
  signed one and skips the sign, so that 40000 used bytes are reported as 25536.
\<close>

theorem memory_report:
  assumes "length str = 8" and "180 \<le> length rest"
    and "showable (unat (iStackAddress k) * 4)" and "showable (unat (iQueueAddress k) * 4)" and "showable used"
    and "HEAP_SIZE C < 32768" "QUEUE_HEAP_SIZE C < 32768" "dyn_size < 32768"
  shows "\<exists>rest'. OSAvailableMemory C dt dq used dyn_size str k (behind out rest) =
     Some (behind (out @ memory_text C dt dq used dyn_size (unat (iStackAddress k) * 4) (unat (iQueueAddress k) * 4)) (NUL # rest'))"
  using assms by (intro OSAvailableMemory_spec) simp_all

theorem memory_report_witness:
  "(\<exists>rest'. OSAvailableMemory demo_config True True 40000 20480 (replicate 8 NUL) (demo ready_low 2) (behind [] (replicate 200 NUL)) =
     Some (behind (memory_text demo_config True True 40000 20480 0 0) (NUL # rest'))) \<and> shown 40000 = ''25536''"
proof -
  have d: "iStackAddress (demo ready_low 2) = 0" "iQueueAddress (demo ready_low 2) = 0" by (simp_all add: demo_def boot_kernel_def)
  have a: "showable (unat (iStackAddress (demo ready_low 2)) * 4)" "showable (unat (iQueueAddress (demo ready_low 2)) * 4)"
    "showable 40000" unfolding d by (simp_all add: showable_def)
  have h: "HEAP_SIZE demo_config < 32768" "QUEUE_HEAP_SIZE demo_config < 32768" "(20480 :: nat) < 32768" by simp_all
  have l: "length (replicate 8 NUL) = 8" "180 \<le> length (replicate 200 NUL)" by simp_all
  have z: "unat (0 :: uint16_t) * 4 = 0" by simp
  have "shown 40000 = ''25536''" by (simp add: shown_def decimal.simps char_of_def bit_numeral_rec bit_0)
  then show ?thesis using memory_report [OF l a h, of True True "[]", unfolded append.simps d z] by blast
qed

text \<open>
  the load report prints the load in per cent with one decimal, and 100 per cent for every value above.
\<close>

theorem load_report:
  assumes "20 \<le> length rest"
  shows "\<exists>rest'. OSCPULoad k (behind out rest) = Some (behind (out @ load_text (unat (LastOSDuty k))) (NUL # rest'))"
  by (rule OSCPULoad_spec [OF assms])

theorem load_report_witness:
  "\<exists>rest'. OSCPULoad ((demo ready_low 2)\<lparr>LastOSDuty := 473\<rparr>) (behind [] (replicate 32 NUL)) = Some (behind (load_text 473) (NUL # rest'))"
  using load_report [of "replicate 32 NUL" "(demo ready_low 2)\<lparr>LastOSDuty := 473\<rparr>" "[]"] by simp

text \<open>
  the statistics show for every task the time it ran and the share of the total time. In the first hundred
  units of the timer the total is divided down to zero, and the report divides by it.
\<close>

theorem stats_report:
  assumes "\<forall>j \<in> set (listed C dyn k). stats_ok k j" and "length str = 16"
    and "160 + 54 * length (listed C dyn k) \<le> length rest"
  shows "(100 \<le> timer \<longrightarrow> (\<exists>rest'. OSRuntimeStats C dyn timer str k (behind out rest) =
       Some (behind (out @ stats_table_text C dyn timer k) (NUL # rest')))) \<and>
     (timer < 100 \<and> listed C dyn k = j # js \<and> Priority (tcb k j) \<noteq> EMPTY_PRIO \<longrightarrow> OSRuntimeStats C dyn timer str k z = None)"
  using OSRuntimeStats_spec [of C dyn k timer str rest out] OSRuntimeStats_div_zero [of timer C dyn k j js str z] assms by simp

theorem stats_report_witness:
  "(\<exists>rest'. OSRuntimeStats demo_config False 1000 (replicate 16 NUL) (demo ready_low 2) (behind [] (replicate 400 NUL)) =
       Some (behind (stats_table_text demo_config False 1000 (demo ready_low 2)) (NUL # rest'))) \<and>
   OSRuntimeStats demo_config False 99 (replicate 16 NUL) (demo ready_low 2) (behind [] (replicate 400 NUL)) = None"
proof -
  have r: "\<forall>j \<in> set (listed demo_config False (demo ready_low 2)). stats_ok (demo ready_low 2) j"
    unfolding demo_listed by (auto simp: stats_ok_def demo_task_def zero_task_def)
  have p: "Priority (tcb (demo ready_low 2) 1) \<noteq> EMPTY_PRIO" by simp
  show ?thesis
    using stats_report [OF r, of "replicate 16 NUL" "replicate 400 NUL" 1000 "[]" 1 "[2, 3]" "behind [] (replicate 400 NUL)"]
      stats_report [OF r, of "replicate 16 NUL" "replicate 400 NUL" 99 "[]" 1 "[2, 3]" "behind [] (replicate 400 NUL)"] p
    by (simp add: demo_listed word_le_nat_alt word_less_nat_alt del: demo_simps)
qed

end
