(* ===== verification/Terminal.thy ===== *)
theory Terminal
  imports Prelude
begin

text \<open>
  \<^verbatim>\<open>src/modules/terminal/terminal.c\<close>: a command line. Characters arrive one at a time in
  \<^verbatim>\<open>terminal_input\<close>, which edits a line and tells when it is complete; \<^verbatim>\<open>terminal_process\<close> splits the
  line into words and calls the command. Text that goes out through \<^verbatim>\<open>putchar_func\<close> is collected in
  \<open>echo\<close>, text of \<^verbatim>\<open>TERM_PRINT\<close> in \<open>printed_text\<close>; the functions of the commands are a
  parameter. The indices \<^verbatim>\<open>term_in_idx\<close> and \<^verbatim>\<open>cpi\<close> are never decremented at zero and are natural numbers.
\<close>

section \<open>Data\<close>

abbreviation (input) EOS :: char where "EOS \<equiv> CHR 0x00"
abbreviation (input) DEL :: char where "DEL \<equiv> CHR 0x7F"
abbreviation (input) BS :: char where "BS \<equiv> CHR 0x08"
abbreviation (input) CR :: char where "CR \<equiv> CHR 0x0D"
abbreviation (input) LF :: char where "LF \<equiv> CHR 0x0A"
abbreviation (input) UP_KEY_CHAR :: char where "UP_KEY_CHAR \<equiv> CHR 0xE0"
abbreviation (input) CHARS_TO_DISCARD :: nat where "CHARS_TO_DISCARD \<equiv> 1"
abbreviation (input) TERM_INPUT_BUFSIZE :: nat where "TERM_INPUT_BUFSIZE \<equiv> 32"
abbreviation (input) TERM_ARGS_MAX_COUNT :: nat where "TERM_ARGS_MAX_COUNT \<equiv> 6"

text \<open>A command of the table, and one that was added; \<open>next_cmd\<close> points to the handler of the next one.\<close>

record cmd_t =
  cmd_func :: nat
  cmd_name :: string

record dcmd_t =
  dcmd_func :: nat
  dcmd_name :: string
  dcmd_description :: string
  next_cmd :: ptr

text \<open>The static variables of the file. \<open>handlers\<close> is the memory of the handlers that the application
  passes to \<^verbatim>\<open>terminal_add_cmd\<close>, and \<open>hook_calls\<close> the calls of the installed input function.\<close>

record terminal =
  putchar_func :: ptr
  input :: ptr
  term_in_idx :: nat
  term_tmp_idx :: int
  discard_char :: nat
  cpi :: nat
  term_in :: string
  last_term_in :: string
  cmd_head :: ptr
  handlers :: "dcmd_t list"
  echo :: string
  printed_text :: string
  hook_calls :: "(nat \<times> char) list"

definition boot_terminal :: "dcmd_t list \<Rightarrow> terminal" where
  "boot_terminal hs = \<lparr>putchar_func = None, input = None, term_in_idx = 0, term_tmp_idx = 0, discard_char = 0, cpi = 0,
     term_in = replicate TERM_INPUT_BUFSIZE EOS, last_term_in = replicate TERM_INPUT_BUFSIZE EOS, cmd_head = None, handlers = hs,
     echo = [], printed_text = [], hook_calls = []\<rparr>"

section \<open>Line editing\<close>

definition putchar :: "char \<Rightarrow> terminal \<Rightarrow> terminal option" where
  "putchar c t = (case putchar_func t of None \<Rightarrow> None | Some f \<Rightarrow> Some (t\<lparr>echo := echo t @ [c]\<rparr>))"

fun puts :: "string \<Rightarrow> terminal \<Rightarrow> terminal option" where
  "puts [] t = Some t"
| "puts (c # cs) t = do { t \<leftarrow> putchar c t; puts cs t }"

definition term_putchar_install :: "ptr \<Rightarrow> terminal \<Rightarrow> terminal" where
  "term_putchar_install f t = (if f = None then t else t\<lparr>putchar_func := f\<rparr>)"

definition terminal_set_input :: "ptr \<Rightarrow> terminal \<Rightarrow> terminal" where
  "terminal_set_input f t = t\<lparr>input := f\<rparr>"

definition terminal_init :: "ptr \<Rightarrow> terminal \<Rightarrow> terminal option" where
  "terminal_init f t = puts [LF, CR, CHR ''>'', CHR ''>''] (term_putchar_install f t)"

text \<open>The first half of \<^verbatim>\<open>terminal_input\<close>, up to the counter of the characters on the screen: the character that
  the second half works on, or \<^term>\<open>None\<close> if the function returns here. The character that follows the up key is dropped and replaced by it.\<close>

definition count_char :: "char \<Rightarrow> terminal \<Rightarrow> terminal" where
  "count_char c t = (if c \<noteq> CR
     then t\<lparr>term_tmp_idx := (if term_tmp_idx t \<ge> 0 then term_tmp_idx t + 1 else 1)\<rparr>
     else t\<lparr>term_tmp_idx := 0\<rparr>)"

definition receive :: "char \<Rightarrow> terminal \<Rightarrow> (char option \<times> terminal) option" where
  "receive c t =
    (if c \<noteq> DEL
     then if c \<noteq> UP_KEY_CHAR
       then if discard_char t = 0
         then do { t \<leftarrow> putchar c t; Some (Some c, count_char c t) }
         else let t = t\<lparr>discard_char := discard_char t - 1\<rparr> in
           if discard_char t = 0 then Some (Some UP_KEY_CHAR, count_char UP_KEY_CHAR t)
           else Some (None, t)
       else Some (None, t\<lparr>discard_char := CHARS_TO_DISCARD\<rparr>)
     else let t = t\<lparr>term_tmp_idx := term_tmp_idx t - 1\<rparr> in
       if term_tmp_idx t \<ge> 0 then do { t \<leftarrow> putchar c t; Some (Some c, t) } else Some (Some c, t))"

text \<open>The loops of the up key: the line on the screen is erased, the last line is shown and copied.\<close>

fun show_last :: "nat list \<Rightarrow> terminal \<Rightarrow> terminal option" where
  "show_last [] t = Some t"
| "show_last (i # is) t = do { c \<leftarrow> rd (last_term_in t) i; t \<leftarrow> putchar c t; show_last is t }"

fun copy_last :: "nat list \<Rightarrow> terminal \<Rightarrow> terminal option" where
  "copy_last [] t = Some t"
| "copy_last (i # is) t = do {
     c \<leftarrow> rd (last_term_in t) i;
     b \<leftarrow> wr (term_in t) i c;
     copy_last is (t\<lparr>term_in := b\<rparr>) }"

definition recall :: "terminal \<Rightarrow> terminal option" where
  "recall t = do {
     t \<leftarrow> puts (replicate (term_in_idx t) DEL) t;
     let t = t\<lparr>term_in_idx := 0\<rparr>;
     c \<leftarrow> rd (last_term_in t) 0;
     if c \<noteq> EOS
     then do {
       t \<leftarrow> show_last [0..<Suc (cpi t)] t;
       t \<leftarrow> copy_last [0..<Suc (cpi t)] t;
       b \<leftarrow> wr (term_in t) (Suc (cpi t)) EOS;
       Some (t\<lparr>term_in := b, term_in_idx := cpi t, term_tmp_idx := int (cpi t)\<rparr>) }
     else Some t }"

definition edit :: "char \<Rightarrow> terminal \<Rightarrow> (bool \<times> terminal) option" where
  "edit c t =
    (if term_tmp_idx t \<ge> 0
     then if (c = BS \<or> c = DEL) \<and> term_in_idx t > 0
       then do {
         b \<leftarrow> wr (term_in t) (term_in_idx t) EOS;
         Some (False, t\<lparr>term_in := b, term_in_idx := term_in_idx t - 1\<rparr>) }
       else if c = UP_KEY_CHAR
         then map_option (Pair False) (recall t)
         else do {
           b \<leftarrow> wr (term_in t) (term_in_idx t) c;
           let t = t\<lparr>term_in := b, term_in_idx := term_in_idx t + 1\<rparr>;
           if c = LF \<or> c = CR \<or> term_in_idx t = TERM_INPUT_BUFSIZE - 1
           then do {
             b \<leftarrow> wr (term_in t) (term_in_idx t - 1) EOS;
             Some (True, t\<lparr>term_in := b\<rparr>) }
           else Some (False, t) }
     else Some (False, t))"

definition terminal_input :: "char \<Rightarrow> terminal \<Rightarrow> (bool \<times> terminal) option" where
  "terminal_input c t = do {
     let t = (case input t of None \<Rightarrow> t | Some f \<Rightarrow> t\<lparr>hook_calls := hook_calls t @ [(f, c)]\<rparr>);
     (r, t) \<leftarrow> receive c t;
     case r of None \<Rightarrow> Some (False, t) | Some c \<Rightarrow> edit c t }"

section \<open>Commands\<close>

fun strcmp :: "string \<Rightarrow> string \<Rightarrow> int" where
  "strcmp [] [] = 0"
| "strcmp [] (d # ds) = - int (of_char d)"
| "strcmp (c # cs) [] = int (of_char c)"
| "strcmp (c # cs) (d # ds) = (if c = d then strcmp cs ds else int (of_char c) - int (of_char d))"

text \<open>Conversion to the type \<^verbatim>\<open>int8_t\<close>.\<close>

definition wrap8 :: "int \<Rightarrow> int" where
  "wrap8 x = (x + 128) mod 256 - 128"

text \<open>The binary search in the table, with \<^verbatim>\<open>inf\<close> and \<^verbatim>\<open>sup\<close>: the index, or \<^term>\<open>None\<close> in the result.\<close>

partial_function (option) binary_search :: "cmd_t list \<Rightarrow> string \<Rightarrow> int \<Rightarrow> int \<Rightarrow> int option option" where
  "binary_search cmds c lo hi =
    (if lo \<le> hi
     then let meio = wrap8 ((lo + hi) div 2) in
       if meio < 0 then None
       else Option.bind (rd cmds (nat meio)) (\<lambda>x.
         if strcmp (cmd_name x) c < 0 then binary_search cmds c (wrap8 (meio + 1)) hi
         else if strcmp (cmd_name x) c > 0 then binary_search cmds c lo (wrap8 (meio - 1))
         else Some (Some meio))
     else Some None)"

text \<open>The search in the list of the added commands.\<close>

partial_function (option) find_dcmd :: "dcmd_t list \<Rightarrow> string \<Rightarrow> ptr \<Rightarrow> uint8_t \<Rightarrow> uint8_t option option" where
  "find_dcmd hs c p idx = (case p of
     None \<Rightarrow> Some None
   | Some i \<Rightarrow> Option.bind (rd hs i) (\<lambda>h.
       if strcmp (dcmd_name h) c = 0 then Some (Some idx) else find_dcmd hs c (next_cmd h) (idx + 1)))"

definition search_cmd :: "cmd_t list \<Rightarrow> terminal \<Rightarrow> string \<Rightarrow> uint8_t option" where
  "search_cmd cmds t c = do {
     r \<leftarrow> binary_search cmds c 0 (wrap8 (int (length cmds) - 1));
     case r of
       Some meio \<Rightarrow> Some (word_of_int meio)
     | None \<Rightarrow> do {
         d \<leftarrow> find_dcmd (handlers t) c (cmd_head t) (of_nat (length cmds));
         Some (case d of Some idx \<Rightarrow> idx | None \<Rightarrow> 0) } }"

partial_function (option) last_dcmd :: "dcmd_t list \<Rightarrow> nat \<Rightarrow> nat option" where
  "last_dcmd hs i = Option.bind (rd hs i) (\<lambda>h. case next_cmd h of None \<Rightarrow> Some i | Some j \<Rightarrow> last_dcmd hs j)"

definition terminal_add_cmd :: "nat \<Rightarrow> nat \<Rightarrow> string \<Rightarrow> string \<Rightarrow> terminal \<Rightarrow> terminal option" where
  "terminal_add_cmd handler cmd name description t = do {
     t \<leftarrow> (case cmd_head t of
       None \<Rightarrow> Some (t\<lparr>cmd_head := Some handler\<rparr>)
     | Some h \<Rightarrow> do {
         l \<leftarrow> last_dcmd (handlers t) h;
         hs \<leftarrow> upd (handlers t) l (\<lambda>x. x\<lparr>next_cmd := Some handler\<rparr>);
         Some (t\<lparr>handlers := hs\<rparr>) });
     hs \<leftarrow> wr (handlers t) handler \<lparr>dcmd_func = cmd, dcmd_name = name, dcmd_description = description, next_cmd = None\<rparr>;
     Some (t\<lparr>handlers := hs\<rparr>) }"

text \<open>\<^verbatim>\<open>cmd_help\<close>, which only prints. \<open>descriptions\<close> is \<^verbatim>\<open>ListOfCmdDesc\<close>.\<close>

definition term_print :: "string \<Rightarrow> terminal \<Rightarrow> terminal" where
  "term_print s t = t\<lparr>printed_text := printed_text t @ s\<rparr>"

fun print_cmds :: "cmd_t list \<Rightarrow> string list \<Rightarrow> terminal \<Rightarrow> terminal" where
  "print_cmds (x # xs) (d # ds) t = print_cmds xs ds (term_print (d @ [LF, CR]) (term_print (cmd_name x @ '' : '') t))"
| "print_cmds _ _ t = t"

partial_function (option) print_dcmds :: "ptr \<Rightarrow> terminal \<Rightarrow> terminal option" where
  "print_dcmds p t = (case p of
     None \<Rightarrow> Some t
   | Some i \<Rightarrow> Option.bind (rd (handlers t) i) (\<lambda>h.
       print_dcmds (next_cmd h) (term_print (dcmd_description h @ [LF, CR]) (term_print (dcmd_name h @ '' : '') t))))"

definition cmd_help :: "cmd_t list \<Rightarrow> string list \<Rightarrow> terminal \<Rightarrow> terminal option" where
  "cmd_help cmds descriptions t = do {
     let t = term_print (''If you have not typed '' @ [CHR 0x22] @ ''help'' @ [CHR 0x22] @ '', the command you typed was not found!'' @ [CR, LF]) t;
     let t = term_print (''Else, here is the list of supported commands: '' @ [CR, LF]) t;
     let t = term_print (replicate 16 CHR ''-'' @ [LF, CR]) t;
     let t = print_cmds cmds descriptions t;
     t \<leftarrow> print_dcmds (cmd_head t) t;
     Some (term_print (replicate 16 CHR ''-'' @ [LF, CR]) t) }"

section \<open>Processing a line\<close>

definition is_delim :: "char \<Rightarrow> bool" where
  "is_delim c \<longleftrightarrow> c = CHR '' '' \<or> c = CHR 0x09 \<or> c = CR \<or> c = LF"

text \<open>\<^verbatim>\<open>strtok\<close> from a position of the buffer: the offset of the next word, if there is one, the position from which the next
  call goes on, and the buffer with an end of string behind the word.\<close>

function scan_while :: "(char \<Rightarrow> bool) \<Rightarrow> string \<Rightarrow> nat \<Rightarrow> nat option" where
  "scan_while P buf p = do { c \<leftarrow> rd buf p; if P c then scan_while P buf (Suc p) else Some p }"
  by pat_completeness auto
termination by (relation "measure (\<lambda>(_, buf, p). length buf - p)") (auto simp: rd_def split: if_splits)

declare scan_while.simps [simp del]

definition strtok :: "string \<Rightarrow> nat \<Rightarrow> (nat option \<times> nat \<times> string) option" where
  "strtok buf p = do {
     p \<leftarrow> scan_while is_delim buf p;
     c \<leftarrow> rd buf p;
     if c = EOS then Some (None, p, buf)
     else do {
       e \<leftarrow> scan_while (\<lambda>c. \<not> is_delim c \<and> c \<noteq> EOS) buf p;
       c \<leftarrow> rd buf e;
       if c = EOS then Some (Some p, e, buf)
       else do { buf \<leftarrow> wr buf e EOS; Some (Some p, Suc e, buf) } } }"

lemma scan_while_ge: "scan_while P buf p = Some q \<Longrightarrow> p \<le> q \<and> q < length buf \<and> \<not> P (buf ! q) \<and> (\<forall>i. p \<le> i \<and> i < q \<longrightarrow> P (buf ! i))"
proof (induction P buf p rule: scan_while.induct)
  case (1 P buf p)
  show ?case
  proof (cases "p < length buf \<and> P (buf ! p)")
    case True
    with 1 have q: "Suc p \<le> q" "q < length buf" "\<not> P (buf ! q)" "\<forall>i. Suc p \<le> i \<and> i < q \<longrightarrow> P (buf ! i)"
      by (auto simp: scan_while.simps [of P buf p])
    have "P (buf ! i)" if "p \<le> i" "i < q" for i using that q(4) True by (cases "i = p") auto
    with q show ?thesis by auto
  next
    case False
    with 1(2) show ?thesis by (auto simp: scan_while.simps [of P buf p] rd_def split: if_splits)
  qed
qed

lemma strtok_progress: "strtok buf p = Some (Some w, q, buf') \<Longrightarrow> p < q \<and> length buf' = length buf \<and> q \<le> length buf"
  by (auto simp: strtok_def wr_eq_Some rd_eq_Some dest!: scan_while_ge split: bind_splits if_splits)
    (metis nat_neq_iff le_less_trans linorder_not_less)+

text \<open>The loop that fills \<^verbatim>\<open>argv\<close>; a seventh word is written behind the array.\<close>

function split_args :: "string \<Rightarrow> nat \<Rightarrow> nat list \<Rightarrow> (nat list \<times> string) option" where
  "split_args buf p argv = (case strtok buf p of
     None \<Rightarrow> None
   | Some (None, _, buf) \<Rightarrow> Some (argv, buf)
   | Some (Some w, q, buf) \<Rightarrow> if length argv < TERM_ARGS_MAX_COUNT then split_args buf q (argv @ [w]) else None)"
  by pat_completeness auto
termination by (relation "measure (\<lambda>(buf, p, _). length buf - p)") (auto dest!: strtok_progress)

declare split_args.simps [simp del]

text \<open>The string at a position of the buffer.\<close>

definition c_string :: "string \<Rightarrow> nat \<Rightarrow> string option" where
  "c_string buf p = map_option (\<lambda>q. take (q - p) (drop p buf)) (scan_while (\<lambda>c. c \<noteq> EOS) buf p)"

fun nth_dcmd :: "dcmd_t list \<Rightarrow> ptr \<Rightarrow> nat \<Rightarrow> nat option" where
  "nth_dcmd hs p 0 = map_option dcmd_func (deref hs p)"
| "nth_dcmd hs p (Suc n) = do { h \<leftarrow> deref hs p; nth_dcmd hs (next_cmd h) n }"

text \<open>The loop that keeps the line: up to two ends of string in a row, with spaces for single ones.\<close>

function save_line :: "nat \<Rightarrow> terminal \<Rightarrow> terminal option" where
  "save_line i t = do {
     a \<leftarrow> rd (term_in t) i;
     more \<leftarrow> (if a \<noteq> EOS then Some True else map_option (\<lambda>c. c \<noteq> EOS) (rd (term_in t) (Suc i)));
     if more
     then do {
       l \<leftarrow> wr (last_term_in t) i (if a = EOS then CHR '' '' else a);
       save_line (Suc i) (t\<lparr>last_term_in := l\<rparr>) }
     else do {
       l \<leftarrow> wr (last_term_in t) i EOS;
       Some (t\<lparr>last_term_in := l, cpi := i\<rparr>) } }"
  by pat_completeness auto
termination by (relation "measure (\<lambda>(i, t). length (term_in t) - i)") (auto simp: rd_def split: if_splits)

declare save_line.simps [simp del]

text \<open>\<open>run f argv t\<close> is the call of a command's function with the offsets of the words in \<^verbatim>\<open>term_in\<close>.\<close>

type_synonym commands = "nat \<Rightarrow> nat list \<Rightarrow> terminal \<Rightarrow> nat option \<times> terminal"

definition call_cmd :: "cmd_t list \<Rightarrow> commands \<Rightarrow> nat list \<Rightarrow> string \<Rightarrow> terminal \<Rightarrow> (nat option \<times> terminal) option" where
  "call_cmd cmds run argv name t = do {
     c \<leftarrow> search_cmd cmds t name;
     let t = term_print [CR, LF] t;
     f \<leftarrow> (if unat c < length cmds then map_option cmd_func (rd cmds (unat c))
           else nth_dcmd (handlers t) (cmd_head t) (unat c - length cmds));
     Some (run f argv t) }"

definition terminal_process :: "cmd_t list \<Rightarrow> commands \<Rightarrow> terminal \<Rightarrow> (nat option \<times> terminal) option" where
  "terminal_process cmds run t = do {
     idx_start \<leftarrow> scan_while (\<lambda>c. c = CHR '' '' \<or> c = CHR 0x09) (term_in t) 0;
     (argv, b) \<leftarrow> split_args (term_in t) idx_start [];
     let t = t\<lparr>term_in := b\<rparr>;
     (ret, t) \<leftarrow> (case argv of
       [] \<Rightarrow> Some (None, t)
     | a # _ \<Rightarrow> do {
         name \<leftarrow> c_string (term_in t) a;
         (ret, t) \<leftarrow> call_cmd cmds run argv name t;
         t \<leftarrow> save_line 0 t;
         Some (ret, term_print ([CR, LF] @ ''>>'') t) });
     Some (ret, t\<lparr>term_in := replicate TERM_INPUT_BUFSIZE EOS, term_in_idx := 0\<rparr>) }"

text \<open>The names in the table of \<^verbatim>\<open>terminal_cfg.h\<close>.\<close>

definition command_table :: "cmd_t list" where
  "command_table = [\<lparr>cmd_func = 0, cmd_name = ''help''\<rparr>, \<lparr>cmd_func = 1, cmd_name = ''runst''\<rparr>, \<lparr>cmd_func = 2, cmd_name = ''top''\<rparr>,
     \<lparr>cmd_func = 3, cmd_name = ''ver''\<rparr>]"

section \<open>Comparison of names\<close>

lemma strcmp_flip: "strcmp b a = - strcmp a b"
  by (induction a b rule: strcmp.induct) auto

lemma strcmp_trans: "strcmp a b < 0 \<Longrightarrow> strcmp b c < 0 \<Longrightarrow> strcmp a c < 0"
proof (induction a b arbitrary: c rule: strcmp.induct)
  case (2 d ds)
  then show ?case by (cases c) (auto split: if_splits)
next
  case (4 x xs y ys)
  then show ?case by (cases c) (auto split: if_splits)
qed auto

lemma of_char_EOS: "of_char c = (0 :: nat) \<longleftrightarrow> c = EOS"
proof -
  have "of_char c = (of_char EOS :: nat) \<longleftrightarrow> c = EOS" by (rule of_char_eq_iff)
  then show ?thesis by simp
qed

lemma strcmp_0: "EOS \<notin> set a \<Longrightarrow> EOS \<notin> set b \<Longrightarrow> strcmp a b = 0 \<longleftrightarrow> a = b"
  by (induction a b rule: strcmp.induct) (auto simp: of_char_EOS)

section \<open>The binary search finds the command\<close>

definition sorted_table :: "cmd_t list \<Rightarrow> bool" where
  "sorted_table cmds \<longleftrightarrow> length cmds \<le> 127 \<and>
     (\<forall>i j. i < j \<and> j < length cmds \<longrightarrow> strcmp (cmd_name (cmds ! i)) (cmd_name (cmds ! j)) < 0) \<and>
     (\<forall>x \<in> set cmds. EOS \<notin> set (cmd_name x))"

lemma wrap8_id: "- 128 \<le> x \<Longrightarrow> x < 128 \<Longrightarrow> wrap8 x = x"
  by (simp add: wrap8_def)

lemma binary_search_spec:
  assumes s: "sorted_table cmds"
  shows "0 \<le> lo \<Longrightarrow> - 1 \<le> hi \<Longrightarrow> hi < int (length cmds) \<Longrightarrow>
     \<forall>i < length cmds. int i < lo \<longrightarrow> strcmp (cmd_name (cmds ! i)) c < 0 \<Longrightarrow>
     \<forall>i < length cmds. hi < int i \<longrightarrow> strcmp (cmd_name (cmds ! i)) c > 0 \<Longrightarrow>
     (\<exists>m < length cmds. binary_search cmds c lo hi = Some (Some (int m)) \<and> strcmp (cmd_name (cmds ! m)) c = 0) \<or>
     binary_search cmds c lo hi = Some None \<and> (\<forall>i < length cmds. strcmp (cmd_name (cmds ! i)) c \<noteq> 0)"
proof (induction "nat (hi + 1 - lo)" arbitrary: lo hi rule: less_induct)
  case less
  have n: "length cmds \<le> 127" using s by (simp add: sorted_table_def)
  have srt: "strcmp (cmd_name (cmds ! i)) (cmd_name (cmds ! j)) < 0" if "i < j" "j < length cmds" for i j
    using s that by (simp add: sorted_table_def)
  show ?case
  proof (cases "lo \<le> hi")
    case False
    then have b: "binary_search cmds c lo hi = Some None" by (subst binary_search.simps) simp
    moreover have "strcmp (cmd_name (cmds ! i)) c \<noteq> 0" if "i < length cmds" for i
    proof (cases "int i < lo")
      case True
      with less.prems(4) that show ?thesis by force
    next
      case False
      with \<open>\<not> lo \<le> hi\<close> have "hi < int i" by simp
      with less.prems(5) that show ?thesis by force
    qed
    ultimately show ?thesis by blast
  next
    case True
    define m where "m = nat ((lo + hi) div 2)"
    have lh: "lo \<le> (lo + hi) div 2" "(lo + hi) div 2 \<le> hi" using True by auto
    have m: "(lo + hi) div 2 = int m" using lh less.prems(1) by (simp add: m_def)
    have ml: "m < length cmds" using lh m less.prems(3) by linarith
    have w: "wrap8 (int m) = int m" "wrap8 (int m + 1) = int m + 1" "wrap8 (int m - 1) = int m - 1"
      using ml n by (simp_all add: wrap8_id)
    let ?x = "strcmp (cmd_name (cmds ! m)) c"
    have step: "binary_search cmds c lo hi = (if ?x < 0 then binary_search cmds c (int m + 1) hi
        else if ?x > 0 then binary_search cmds c lo (int m - 1) else Some (Some (int m)))"
      using True ml by (subst binary_search.simps) (simp only: m w Let_def if_True nat_int rd_in Option.bind.simps of_nat_less_0_iff if_False)
    consider (lt) "?x < 0" | (gt) "?x > 0" | (eq) "?x = 0" by linarith
    then show ?thesis
    proof cases
      case lt
      have l: "\<forall>i < length cmds. int i < int m + 1 \<longrightarrow> strcmp (cmd_name (cmds ! i)) c < 0"
        using lt srt ml strcmp_trans by (metis less_Suc_eq nat_int_comparison(2) of_nat_Suc add.commute)
      have "nat (hi + 1 - (int m + 1)) < nat (hi + 1 - lo)" using lh m True by linarith
      from less.hyps [OF this _ less.prems(2,3) l less.prems(5)] lt step show ?thesis by simp
    next
      case gt
      have f: "strcmp c (cmd_name (cmds ! m)) < 0" using gt strcmp_flip [of c "cmd_name (cmds ! m)"] by simp
      have g: "\<forall>i < length cmds. int m - 1 < int i \<longrightarrow> strcmp (cmd_name (cmds ! i)) c > 0"
      proof (intro allI impI)
        fix i assume i: "i < length cmds" "int m - 1 < int i"
        then consider "i = m" | "m < i" by linarith
        then show "strcmp (cmd_name (cmds ! i)) c > 0"
        proof cases
          case 2
          from strcmp_trans [OF f srt [OF 2 i(1)]] strcmp_flip [of "cmd_name (cmds ! i)" c] show ?thesis by simp
        qed (use gt in simp)
      qed
      have "nat (int m - 1 + 1 - lo) < nat (hi + 1 - lo)" using lh m True by linarith
      moreover have "- 1 \<le> int m - 1" "int m - 1 < int (length cmds)" using ml by simp_all
      ultimately show ?thesis using less.hyps [of "int m - 1" lo] less.prems(1,4) g gt step by simp
    next
      case eq
      with ml step show ?thesis by auto
    qed
  qed
qed

section \<open>The list of added commands\<close>

text \<open>\<open>dlist hs p xs\<close>: the handlers that \<open>p\<close> leads to are \<open>xs\<close>.\<close>

fun dlist :: "dcmd_t list \<Rightarrow> ptr \<Rightarrow> nat list \<Rightarrow> bool" where
  "dlist hs p [] \<longleftrightarrow> p = None"
| "dlist hs p (x # xs) \<longleftrightarrow> p = Some x \<and> x < length hs \<and> dlist hs (next_cmd (hs ! x)) xs"

lemma dlist_cong:
  "dlist hs p xs \<Longrightarrow> length hs' = length hs \<Longrightarrow> \<forall>x \<in> set xs. next_cmd (hs' ! x) = next_cmd (hs ! x) \<Longrightarrow> dlist hs' p xs"
  by (induction xs arbitrary: p) auto

lemma dlist_bound: "dlist hs p xs \<Longrightarrow> \<forall>x \<in> set xs. x < length hs"
  by (induction xs arbitrary: p) auto

text \<open>The position of a name in a list, counted from \<open>i\<close>.\<close>

fun position :: "string \<Rightarrow> string list \<Rightarrow> nat \<Rightarrow> nat option" where
  "position c [] i = None"
| "position c (n # ns) i = (if n = c then Some i else position c ns (Suc i))"

lemma position_append: "position c (ns @ ms) i = (case position c ns i of Some j \<Rightarrow> Some j | None \<Rightarrow> position c ms (i + length ns))"
  by (induction ns arbitrary: i) (auto split: option.split)

lemma position_None: "position c ns i = None \<longleftrightarrow> c \<notin> set ns"
  by (induction ns arbitrary: i) auto

lemma position_Some:
  "m < length ns \<Longrightarrow> ns ! m = c \<Longrightarrow> \<forall>k < m. ns ! k \<noteq> c \<Longrightarrow> position c ns i = Some (i + m)"
proof (induction ns arbitrary: m i)
  case (Cons n ns)
  show ?case
  proof (cases m)
    case (Suc l)
    have "\<forall>k < l. ns ! k \<noteq> c" using Cons.prems(3) Suc by force
    moreover have "n \<noteq> c" using Cons.prems(3) Suc by force
    ultimately show ?thesis using Cons.IH [of l "Suc i"] Cons.prems Suc by simp
  qed (use Cons.prems in simp)
qed simp

lemma find_dcmd_spec:
  assumes c: "EOS \<notin> set c"
  shows "dlist hs p xs \<Longrightarrow> \<forall>x \<in> set xs. EOS \<notin> set (dcmd_name (hs ! x)) \<Longrightarrow>
     find_dcmd hs c p (of_nat i) = Some (map_option of_nat (position c (map (\<lambda>x. dcmd_name (hs ! x)) xs) i))"
proof (induction xs arbitrary: p i)
  case Nil
  then show ?case by (subst find_dcmd.simps) simp
next
  case (Cons x xs)
  have "strcmp (dcmd_name (hs ! x)) c = 0 \<longleftrightarrow> dcmd_name (hs ! x) = c" using Cons.prems(2) c by (intro strcmp_0) auto
  with Cons.IH [of "next_cmd (hs ! x)" "Suc i"] Cons.prems show ?case by (subst find_dcmd.simps) (simp add: add.commute)
qed

text \<open>The search returns the position of the name among the names of the table and then of the added commands, or 0.\<close>

definition all_names :: "cmd_t list \<Rightarrow> terminal \<Rightarrow> nat list \<Rightarrow> string list" where
  "all_names cmds t xs = map cmd_name cmds @ map (\<lambda>x. dcmd_name (handlers t ! x)) xs"

definition cmds_ok :: "cmd_t list \<Rightarrow> terminal \<Rightarrow> nat list \<Rightarrow> bool" where
  "cmds_ok cmds t xs \<longleftrightarrow> sorted_table cmds \<and> dlist (handlers t) (cmd_head t) xs \<and> (\<forall>x \<in> set xs. EOS \<notin> set (dcmd_name (handlers t ! x)))"

lemma search_cmd_spec:
  assumes ok: "cmds_ok cmds t xs" and c: "EOS \<notin> set c"
  shows "search_cmd cmds t c = Some (case position c (all_names cmds t xs) 0 of Some i \<Rightarrow> of_nat i | None \<Rightarrow> 0)"
proof -
  from ok have s: "sorted_table cmds" and d: "dlist (handlers t) (cmd_head t) xs" "\<forall>x \<in> set xs. EOS \<notin> set (dcmd_name (handlers t ! x))"
    by (simp_all add: cmds_ok_def)
  have hi: "wrap8 (int (length cmds) - 1) = int (length cmds) - 1" using s by (intro wrap8_id) (simp_all add: sorted_table_def)
  have z: "strcmp (cmd_name (cmds ! i)) c = 0 \<longleftrightarrow> cmd_name (cmds ! i) = c" if "i < length cmds" for i
    using s c that by (intro strcmp_0) (auto simp: sorted_table_def)
  from binary_search_spec [OF s, of 0 "int (length cmds) - 1" c]
  consider (found) m where "m < length cmds" "binary_search cmds c 0 (int (length cmds) - 1) = Some (Some (int m))" "cmd_name (cmds ! m) = c"
    | (none) "binary_search cmds c 0 (int (length cmds) - 1) = Some None" "\<forall>i < length cmds. cmd_name (cmds ! i) \<noteq> c"
    using z by auto
  then show ?thesis
  proof cases
    case found
    have "cmd_name (cmds ! k) \<noteq> c" if "k < m" for k
    proof -
      have "strcmp (cmd_name (cmds ! k)) (cmd_name (cmds ! m)) < 0" using s that found(1) by (simp add: sorted_table_def)
      with strcmp_flip [of c c] found(3) show ?thesis by auto
    qed
    with found have "position c (map cmd_name cmds) 0 = Some m" using position_Some [of m "map cmd_name cmds" c 0] by simp
    with found show ?thesis by (simp add: search_cmd_def hi all_names_def position_append)
  next
    case none
    then have "c \<notin> set (map cmd_name cmds)" by (auto simp: in_set_conv_nth)
    then have "position c (map cmd_name cmds) 0 = None" by (simp add: position_None)
    with none find_dcmd_spec [OF c d, of "length cmds"] show ?thesis
      by (simp add: search_cmd_def hi all_names_def position_append split: option.split)
  qed
qed

lemma last_dcmd_spec:
  "dlist hs (Some i) xs \<Longrightarrow> xs \<noteq> [] \<Longrightarrow> last_dcmd hs i = Some (last xs)"
proof (induction xs arbitrary: i)
  case (Cons x xs)
  show ?case
  proof (cases xs)
    case Nil
    with Cons.prems show ?thesis by (subst last_dcmd.simps) simp
  next
    case (Cons y ys)
    with Cons.prems Cons.IH [of y] show ?thesis by (subst last_dcmd.simps) auto
  qed
qed simp

lemma dlist_snoc:
  assumes "next_cmd h = None"
  shows "dlist hs p xs \<Longrightarrow> xs \<noteq> [] \<Longrightarrow> distinct xs \<Longrightarrow> y \<notin> set xs \<Longrightarrow> y < length hs \<Longrightarrow>
     dlist (hs[last xs := (hs ! last xs)\<lparr>next_cmd := Some y\<rparr>, y := h]) p (xs @ [y])"
proof (induction xs arbitrary: p)
  case (Cons x xs)
  show ?case
  proof (cases "xs = []")
    case True
    with Cons.prems assms show ?thesis by auto
  next
    case False
    then have "last xs \<noteq> x" using Cons.prems(3) last_in_set by force
    with Cons.IH [of "next_cmd (hs ! x)"] Cons.prems False show ?thesis by auto
  qed
qed simp

text \<open>An added command stands last in the list, and the others keep their names.\<close>

lemma terminal_add_cmd_spec:
  assumes d: "dlist (handlers t) (cmd_head t) xs" "distinct xs" and h: "handler \<notin> set xs" "handler < length (handlers t)"
  shows "\<exists>hs. terminal_add_cmd handler cmd name description t = Some (t\<lparr>handlers := hs, cmd_head := Some (hd (xs @ [handler]))\<rparr>) \<and>
     length hs = length (handlers t) \<and> dlist hs (Some (hd (xs @ [handler]))) (xs @ [handler]) \<and>
     (\<forall>x \<in> set xs. dcmd_name (hs ! x) = dcmd_name (handlers t ! x) \<and> dcmd_func (hs ! x) = dcmd_func (handlers t ! x)) \<and>
     dcmd_name (hs ! handler) = name \<and> dcmd_func (hs ! handler) = cmd"
proof (cases xs)
  case Nil
  let ?hs = "(handlers t)[handler := \<lparr>dcmd_func = cmd, dcmd_name = name, dcmd_description = description, next_cmd = None\<rparr>]"
  from Nil d h have "terminal_add_cmd handler cmd name description t = Some (t\<lparr>handlers := ?hs, cmd_head := Some handler\<rparr>)"
    by (simp add: terminal_add_cmd_def)
  with Nil h show ?thesis by (intro exI [of _ ?hs]) simp
next
  case (Cons x ys)
  let ?new = "\<lparr>dcmd_func = cmd, dcmd_name = name, dcmd_description = description, next_cmd = None\<rparr>"
  let ?l = "last xs" let ?hs = "(handlers t)[?l := (handlers t ! ?l)\<lparr>next_cmd := Some handler\<rparr>, handler := ?new]"
  have hd: "cmd_head t = Some x" using d(1) Cons by simp
  have l: "?l \<in> set xs" "?l < length (handlers t)"
  proof -
    show "?l \<in> set xs" using Cons last_in_set by blast
    have "\<forall>y \<in> set xs. y < length (handlers t)" using d(1) by (rule dlist_bound)
    with \<open>?l \<in> set xs\<close> show "?l < length (handlers t)" by blast
  qed
  have "last_dcmd (handlers t) x = Some ?l" using last_dcmd_spec [of "handlers t" x xs] d(1) hd Cons by simp
  then have "terminal_add_cmd handler cmd name description t = Some (t\<lparr>handlers := ?hs\<rparr>)"
    using hd l h by (simp add: terminal_add_cmd_def)
  moreover have "t\<lparr>handlers := ?hs\<rparr> = t\<lparr>handlers := ?hs, cmd_head := Some (hd (xs @ [handler]))\<rparr>" using hd Cons by simp
  moreover have "dlist ?hs (Some (hd (xs @ [handler]))) (xs @ [handler])"
    using dlist_snoc [of ?new "handlers t" "cmd_head t" xs handler] d h hd Cons by simp
  moreover have "dcmd_name (?hs ! y) = dcmd_name (handlers t ! y) \<and> dcmd_func (?hs ! y) = dcmd_func (handlers t ! y)" if "y \<in> set xs" for y
  proof -
    have "y \<noteq> handler" using that h(1) by blast
    then show ?thesis using l by (cases "y = ?l") simp_all
  qed
  ultimately show ?thesis using h by (intro exI [of _ ?hs]) auto
qed

section \<open>The buffers stay in bounds\<close>

text \<open>Between two characters, and when a line is complete. The last two entries of the buffer are never used.\<close>

definition buffers_ok :: "terminal \<Rightarrow> bool" where
  "buffers_ok t \<longleftrightarrow> length (term_in t) = 32 \<and> term_in t ! 30 = EOS \<and> term_in t ! 31 = EOS \<and> length (last_term_in t) = 32 \<and>
     cpi t \<le> 30 \<and> last_term_in t ! cpi t = EOS \<and> putchar_func t \<noteq> None"

definition term_ok :: "terminal \<Rightarrow> bool" where
  "term_ok t \<longleftrightarrow> buffers_ok t \<and> term_in_idx t \<le> 30"

lemma buffers_okD:
  assumes "buffers_ok t"
  shows "length (term_in t) = 32" "term_in t ! 30 = EOS" "term_in t ! 31 = EOS" "length (last_term_in t) = 32" "cpi t \<le> 30"
    "last_term_in t ! cpi t = EOS" "putchar_func t \<noteq> None"
  using assms by (simp_all add: buffers_ok_def)

lemma putchar_Some: "putchar_func t \<noteq> None \<Longrightarrow> putchar c t = Some (t\<lparr>echo := echo t @ [c]\<rparr>)"
  by (auto simp: putchar_def)

lemma puts_Some: "putchar_func t \<noteq> None \<Longrightarrow> puts cs t = Some (t\<lparr>echo := echo t @ cs\<rparr>)"
proof (induction cs arbitrary: t)
  case (Cons c cs)
  then show ?case using Cons.IH [of "t\<lparr>echo := echo t @ [c]\<rparr>"] by (simp add: putchar_Some)
qed simp

lemma show_last_Some:
  "putchar_func t \<noteq> None \<Longrightarrow> \<forall>i \<in> set is. i < length (last_term_in t) \<Longrightarrow>
     show_last is t = Some (t\<lparr>echo := echo t @ map (\<lambda>i. last_term_in t ! i) is\<rparr>)"
proof (induction "is" arbitrary: t)
  case (Cons i "is")
  then show ?case using Cons.IH [of "t\<lparr>echo := echo t @ [last_term_in t ! i]\<rparr>"] by (simp add: putchar_Some)
qed simp

lemma copy_last_append: "copy_last (is @ js) t = do { t \<leftarrow> copy_last is t; copy_last js t }"
  by (induction "is" arbitrary: t) (auto split: bind_splits)

lemma copy_last_Some:
  assumes "length (term_in t) = length (last_term_in t)"
  shows "n \<le> length (last_term_in t) \<Longrightarrow> copy_last [0..<n] t = Some (t\<lparr>term_in := take n (last_term_in t) @ drop n (term_in t)\<rparr>)"
proof (induction n)
  case (Suc n)
  have "(take n (last_term_in t) @ drop n (term_in t))[n := last_term_in t ! n] = take (Suc n) (last_term_in t) @ drop (Suc n) (term_in t)"
    using Suc.prems assms by (simp add: list_update_append take_Suc_conv_app_nth flip: Cons_nth_drop_Suc)
  with Suc assms show ?case by (simp add: copy_last_append)
qed simp

text \<open>The line that the up key brings back.\<close>

lemma recall_spec:
  assumes ok: "buffers_ok t"
  defines "t0 \<equiv> t\<lparr>echo := echo t @ replicate (term_in_idx t) DEL, term_in_idx := 0\<rparr>"
  shows "recall t = Some (if last_term_in t ! 0 = EOS then t0
     else t0\<lparr>echo := echo t0 @ take (Suc (cpi t)) (last_term_in t),
       term_in := take (Suc (cpi t)) (last_term_in t) @ EOS # drop (Suc (Suc (cpi t))) (term_in t),
       term_in_idx := cpi t, term_tmp_idx := int (cpi t)\<rparr>)"
proof -
  note d = buffers_okD [OF ok]
  let ?n = "Suc (cpi t)"
  have "map (\<lambda>i. last_term_in t ! i) [0..<?n] = take ?n (last_term_in t)" using d(4,5) by (intro nth_equalityI) (auto simp del: upt_Suc)
  moreover have "(take ?n (last_term_in t) @ drop ?n (term_in t))[?n := EOS] = take ?n (last_term_in t) @ EOS # drop (Suc ?n) (term_in t)"
    using d(1,4,5) by (simp add: list_update_append drop_update_swap flip: Cons_nth_drop_Suc)
  ultimately show ?thesis using d
    by (simp add: recall_def t0_def puts_Some show_last_Some copy_last_Some Let_def del: upt_Suc)
qed

lemma recall_ok:
  assumes ok: "buffers_ok t"
  shows "\<exists>t'. recall t = Some t' \<and> term_ok t'"
proof -
  note d = buffers_okD [OF ok]
  let ?n = "Suc (cpi t)" let ?b = "take ?n (last_term_in t) @ EOS # drop (Suc ?n) (term_in t)"
  have l: "length ?b = 32" using d(1,4,5) by simp
  have "?b ! 30 = EOS \<and> ?b ! 31 = EOS"
  proof (cases "cpi t = 30")
    case True
    with d(4,6) show ?thesis by (simp add: nth_append)
  next
    case False
    then have c: "cpi t < 30" using d(5) by simp
    have "?b ! j = EOS" if "j = 30 \<or> j = 31" for j
    proof (cases "j = ?n")
      case False
      then have "?b ! j = term_in t ! j" using that c d(1,4) by (auto simp: nth_append nth_Cons' )
      with that d(2,3) show ?thesis by auto
    qed (use d(4,5) in \<open>simp add: nth_append\<close>)
    then show ?thesis by simp
  qed
  with recall_spec [OF ok] l d show ?thesis by (auto simp: term_ok_def buffers_ok_def)
qed

lemma term_ok_upd [simp]:
  "term_ok (t\<lparr>echo := e\<rparr>) = term_ok t" "term_ok (t\<lparr>term_tmp_idx := j\<rparr>) = term_ok t" "term_ok (t\<lparr>discard_char := n\<rparr>) = term_ok t"
  "term_ok (t\<lparr>hook_calls := h\<rparr>) = term_ok t" "term_ok (count_char c t) = term_ok t"
  by (simp_all add: term_ok_def buffers_ok_def count_char_def)

lemma receive_ok: "term_ok t \<Longrightarrow> \<exists>r t'. receive c t = Some (r, t') \<and> term_ok t'"
  using putchar_Some [of t c] putchar_Some [of "t\<lparr>term_tmp_idx := term_tmp_idx t - 1\<rparr>" c] buffers_okD(7) [of t]
  by (auto simp: receive_def Let_def term_ok_def [of t])

lemma edit_ok:
  assumes ok: "term_ok t"
  shows "\<exists>r t'. edit c t = Some (r, t') \<and> buffers_ok t' \<and> term_in_idx t' \<le> 31 \<and> (\<not> r \<longrightarrow> term_ok t')"
proof -
  have b: "buffers_ok t" and i: "term_in_idx t \<le> 30" using ok by (simp_all add: term_ok_def)
  note d = buffers_okD [OF b]
  from recall_ok [OF b] obtain t1 where r: "recall t = Some t1" "term_ok t1" by blast
  have w: "wr (term_in t) (term_in_idx t) x = Some ((term_in t)[term_in_idx t := x])" for x using d(1) i by simp
  have e: "(term_in t)[term_in_idx t := EOS] ! 30 = EOS" "(term_in t)[term_in_idx t := EOS] ! 31 = EOS"
    using d(1-3) i by (cases "term_in_idx t = 30"; simp)+
  have full: "term_in_idx t = 30 \<or> term_in_idx t < 30" and sgn: "term_tmp_idx t < 0 \<or> term_tmp_idx t \<ge> 0" using i by linarith+
  consider (off) "term_tmp_idx t < 0" | (erase) "term_tmp_idx t \<ge> 0" "(c = BS \<or> c = DEL) \<and> term_in_idx t > 0"
    | (up) "term_tmp_idx t \<ge> 0" "\<not> ((c = BS \<or> c = DEL) \<and> term_in_idx t > 0)" "c = UP_KEY_CHAR"
    | (ready) "term_tmp_idx t \<ge> 0" "\<not> ((c = BS \<or> c = DEL) \<and> term_in_idx t > 0)" "c \<noteq> UP_KEY_CHAR" "c = LF \<or> c = CR \<or> term_in_idx t = 30"
    | (add) "term_tmp_idx t \<ge> 0" "\<not> ((c = BS \<or> c = DEL) \<and> term_in_idx t > 0)" "c \<noteq> UP_KEY_CHAR" "c \<noteq> LF \<and> c \<noteq> CR \<and> term_in_idx t < 30"
    using full sgn by blast
  then show ?thesis
  proof cases
    case off
    with ok b i show ?thesis by (auto simp: edit_def)
  next
    case erase
    let ?t = "t\<lparr>term_in := (term_in t)[term_in_idx t := EOS], term_in_idx := term_in_idx t - 1\<rparr>"
    have "edit c t = Some (False, ?t)" using erase w by (simp add: edit_def)
    moreover have "buffers_ok ?t" using d e by (simp add: buffers_ok_def)
    ultimately show ?thesis using i by (intro exI [of _ False] exI [of _ ?t]) (auto simp: term_ok_def)
  next
    case up
    with r show ?thesis by (auto simp: edit_def term_ok_def)
  next
    case ready
    let ?t = "t\<lparr>term_in := (term_in t)[term_in_idx t := EOS], term_in_idx := Suc (term_in_idx t)\<rparr>"
    have "edit c t = Some (True, ?t)" using ready w i d(1) by (auto simp: edit_def Let_def)
    moreover have "buffers_ok ?t" using d e by (simp add: buffers_ok_def)
    ultimately show ?thesis using i by (intro exI [of _ True] exI [of _ ?t]) simp
  next
    case add
    let ?t = "t\<lparr>term_in := (term_in t)[term_in_idx t := c], term_in_idx := Suc (term_in_idx t)\<rparr>"
    have g: "((c = BS \<or> c = DEL) \<and> term_in_idx t > 0) = False" using add(2) by blast
    have n: "c \<noteq> LF" "c \<noteq> CR" "term_in_idx t \<noteq> 30" using add(4) by auto
    have "edit c t = Some (False, ?t)" unfolding edit_def g using add(1,3) n w [of c] by (simp add: Let_def)
    moreover have "buffers_ok ?t" using add d by (simp add: buffers_ok_def)
    ultimately show ?thesis using add by (intro exI [of _ False] exI [of _ ?t]) (simp add: term_ok_def)
  qed
qed

lemma terminal_input_ok:
  assumes ok: "term_ok t"
  shows "\<exists>r t'. terminal_input c t = Some (r, t') \<and> buffers_ok t' \<and> term_in_idx t' \<le> 31 \<and> (\<not> r \<longrightarrow> term_ok t')"
proof -
  let ?t = "case input t of None \<Rightarrow> t | Some f \<Rightarrow> t\<lparr>hook_calls := hook_calls t @ [(f, c)]\<rparr>"
  have "term_ok ?t" using ok by (cases "input t") simp_all
  from receive_ok [OF this, of c] obtain r t1 where r: "receive c ?t = Some (r, t1)" "term_ok t1" by blast
  show ?thesis
  proof (cases r)
    case None
    have "terminal_input c t = Some (False, t1)" using r None unfolding terminal_input_def by (simp add: Let_def)
    with r(2) show ?thesis by (auto simp: term_ok_def)
  next
    case (Some x)
    have "terminal_input c t = edit x t1" using r Some unfolding terminal_input_def by (simp add: Let_def)
    with edit_ok [OF r(2), of x] show ?thesis by simp
  qed
qed

section \<open>Words\<close>

text \<open>The words of a line, the reference for the loop with \<^verbatim>\<open>strtok\<close>.\<close>

function words_of :: "string \<Rightarrow> string list" where
  "words_of s = (let r = dropWhile is_delim s in
     if r = [] then [] else takeWhile (\<lambda>c. \<not> is_delim c) r # words_of (dropWhile (\<lambda>c. \<not> is_delim c) r))"
  by pat_completeness auto
termination
proof (relation "measure length")
  fix s r
  assume r: "r = dropWhile is_delim s" "r \<noteq> []"
  then have "\<not> is_delim (hd r)" using hd_dropWhile [of is_delim s] by simp
  then have "length (dropWhile (\<lambda>c. \<not> is_delim c) r) \<le> length (tl r)" using r(2) by (cases r) (auto simp: length_dropWhile_le)
  also have "\<dots> < length r" using r(2) by simp
  also have "\<dots> \<le> length s" unfolding r(1) by (rule length_dropWhile_le)
  finally show "(dropWhile (\<lambda>c. \<not> is_delim c) r, s) \<in> measure length" by simp
qed simp

declare words_of.simps [simp del]

text \<open>The same cut: the offsets of the words, and the line with an end of string behind each word.\<close>

function cut :: "string \<Rightarrow> nat \<Rightarrow> nat list \<times> string" where
  "cut s p = (let d = takeWhile is_delim s; r = dropWhile is_delim s in
     if r = [] then ([], s)
     else let w = takeWhile (\<lambda>c. \<not> is_delim c) r; q = dropWhile (\<lambda>c. \<not> is_delim c) r in
       if q = [] then ([p + length d], s)
       else let (os, m) = cut (tl q) (p + length d + length w + 1) in ((p + length d) # os, d @ w @ EOS # m))"
  by pat_completeness auto
termination
proof (relation "measure (\<lambda>(s, _). length s)")
  fix s d r w q :: string and p :: nat
  assume r: "r = dropWhile is_delim s" and q: "q = dropWhile (\<lambda>c. \<not> is_delim c) r" "q \<noteq> []"
  have "length (tl q) < length q" using q(2) by simp
  also have "\<dots> \<le> length r" unfolding q(1) by (rule length_dropWhile_le)
  also have "\<dots> \<le> length s" unfolding r by (rule length_dropWhile_le)
  finally show "((tl q, p + length d + length w + 1), s, p) \<in> measure (\<lambda>(s, _). length s)" by simp
qed simp

declare cut.simps [simp del]

lemma scan_while_app:
  assumes "\<forall>c \<in> set a. P c" and "\<not> P x"
  shows "scan_while P (b @ a @ x # z) (length b) = Some (length b + length a)"
  using assms(1)
proof (induction a arbitrary: b)
  case Nil
  then show ?case using assms(2) by (subst scan_while.simps) simp
next
  case (Cons c a)
  then show ?case using Cons.IH [of "b @ [c]"] by (subst scan_while.simps) simp
qed

lemma words_of_Nil [simp]: "words_of [] = []"
  by (subst words_of.simps) simp

lemma words_of_delim: "is_delim x \<Longrightarrow> words_of (x # q) = words_of q"
  by (subst (1 2) words_of.simps) simp

lemma EOS_no_delim [simp]: "\<not> is_delim EOS"
  by (simp add: is_delim_def)

text \<open>A line is its leading delimiters, a word and the rest.\<close>

lemma line_split:
  fixes s :: string
  defines "d \<equiv> takeWhile is_delim s" and "r \<equiv> dropWhile is_delim s"
  defines "w \<equiv> takeWhile (\<lambda>c. \<not> is_delim c) r" and "q \<equiv> dropWhile (\<lambda>c. \<not> is_delim c) r"
  shows "s = d @ w @ q" "\<forall>c \<in> set d. is_delim c" "\<forall>c \<in> set w. \<not> is_delim c" "r \<noteq> [] \<Longrightarrow> w \<noteq> []" "q \<noteq> [] \<Longrightarrow> is_delim (hd q)" "r = w @ q"
proof -
  show "s = d @ w @ q" "r = w @ q" by (simp_all add: d_def w_def q_def r_def)
  show "\<forall>c \<in> set d. is_delim c" "\<forall>c \<in> set w. \<not> is_delim c" by (auto simp: d_def w_def dest: set_takeWhileD)
  show "w \<noteq> []" if "r \<noteq> []"
  proof -
    have "\<not> is_delim (hd r)" using that hd_dropWhile [of is_delim s] by (simp add: r_def)
    with that show ?thesis by (cases r) (simp_all add: w_def)
  qed
  show "is_delim (hd q)" if "q \<noteq> []" using that hd_dropWhile [of "\<lambda>c. \<not> is_delim c" r] by (simp add: q_def)
qed

lemma strtok_none: "\<forall>c \<in> set s. is_delim c \<Longrightarrow> strtok (b @ s @ EOS # z) (length b) = Some (None, length b + length s, b @ s @ EOS # z)"
  using scan_while_app [of s is_delim EOS b z] by (simp add: strtok_def nth_append)

lemma strtok_word:
  assumes d: "\<forall>c \<in> set d. is_delim c" and w: "\<forall>c \<in> set w. \<not> is_delim c \<and> c \<noteq> EOS" "w \<noteq> []" and x: "x = EOS \<or> is_delim x"
  shows "strtok (b @ d @ w @ x # z) (length b) =
     Some (Some (length b + length d), if x = EOS then length b + length d + length w else Suc (length b + length d + length w), b @ d @ w @ EOS # z)"
proof -
  let ?buf = "b @ d @ w @ x # z" let ?p = "length b + length d" let ?e = "?p + length w"
  obtain y ys where y: "w = y # ys" using w(2) by (cases w) auto
  have 1: "scan_while is_delim ?buf (length b) = Some ?p" using scan_while_app [OF d, of y b "ys @ x # z"] w(1) y by simp
  have c: "?buf ! ?p = y" "?p < length ?buf" by (simp_all add: y nth_append)
  have 2: "scan_while (\<lambda>c. \<not> is_delim c \<and> c \<noteq> EOS) ?buf ?p = Some ?e"
    using scan_while_app [of w "\<lambda>c. \<not> is_delim c \<and> c \<noteq> EOS" x "b @ d" z] w(1) x by auto
  have e: "?buf ! ?e = x" "?e < length ?buf" "?buf[?e := EOS] = b @ d @ w @ EOS # z" by (simp_all add: nth_append list_update_append)
  show ?thesis using 1 2 c e w(1) y by (simp add: strtok_def)
qed

lemma split_args_step:
  "split_args buf p argv = (case strtok buf p of
     None \<Rightarrow> None
   | Some (None, _, buf) \<Rightarrow> Some (argv, buf)
   | Some (Some w, q, buf) \<Rightarrow> if length argv < 6 then split_args buf q (argv @ [w]) else None)"
  by (rule split_args.simps)

lemma split_args_spec:
  "EOS \<notin> set s \<Longrightarrow> split_args (b @ s @ EOS # z) (length b) argv =
     (if length argv + length (fst (cut s (length b))) \<le> 6 \<or> fst (cut s (length b)) = []
      then Some (argv @ fst (cut s (length b)), b @ snd (cut s (length b)) @ EOS # z) else None)"
proof (induction "length s" arbitrary: s b argv rule: less_induct)
  case less
  define d where "d = takeWhile is_delim s"
  define r where "r = dropWhile is_delim s"
  define w where "w = takeWhile (\<lambda>c. \<not> is_delim c) r"
  define q where "q = dropWhile (\<lambda>c. \<not> is_delim c) r"
  note ds = line_split [of s, folded d_def r_def, folded w_def q_def]
  have c: "cut s (length b) = (if r = [] then ([], s) else if q = [] then ([length b + length d], s)
      else let (os, m) = cut (tl q) (length b + length d + length w + 1) in ((length b + length d) # os, d @ w @ EOS # m))"
    by (subst cut.simps) (simp add: Let_def d_def r_def w_def q_def)
  have we: "\<forall>c \<in> set w. \<not> is_delim c \<and> c \<noteq> EOS" using ds(1,3) less.prems by (metis Un_iff set_append)
  consider (none) "r = []" | (last) "r \<noteq> []" "q = []" | (more) "r \<noteq> []" "q \<noteq> []" by blast
  then show ?case
  proof cases
    case none
    then have "\<forall>c \<in> set s. is_delim c" using ds(1,2,6) by simp
    with strtok_none [of s b z] none c show ?thesis by (subst split_args_step) simp
  next
    case last
    have 1: "strtok (b @ s @ EOS # z) (length b) = Some (Some (length b + length d), length (b @ s), b @ s @ EOS # z)"
      using strtok_word [OF ds(2) we ds(4) [OF last(1)], of EOS b z] ds(1) last(2) by (simp add: add.assoc)
    have 2: "strtok (b @ s @ EOS # z) (length (b @ s)) = Some (None, length (b @ s), b @ s @ EOS # z)"
      using strtok_none [of "[]" "b @ s" z] by simp
    have "split_args (b @ s @ EOS # z) (length (b @ s)) xs = Some (xs, b @ s @ EOS # z)" for xs
      by (subst split_args_step) (simp only: 2 option.case prod.case)
    with 1 last c show ?thesis by (subst split_args_step) simp
  next
    case more
    let ?b = "b @ d @ w @ [EOS]"
    have q: "q = hd q # tl q" using more by simp
    have x: "hd q \<noteq> EOS" "is_delim (hd q)" using ds(5) [OF more(2)] by (auto simp: is_delim_def)
    have sq: "b @ s @ EOS # z = b @ d @ w @ hd q # tl q @ EOS # z" using ds(1) q by (metis append.assoc append_Cons)
    have 1: "strtok (b @ s @ EOS # z) (length b) = Some (Some (length b + length d), length ?b, ?b @ tl q @ EOS # z)"
      unfolding sq using strtok_word [OF ds(2) we ds(4) [OF more(1)], of "hd q" b "tl q @ EOS # z"] x by simp
    have "EOS \<notin> set (tl q)" using less.prems ds(1) more(2) by (metis Un_iff list.set_sel(2) set_append)
    moreover have "length (tl q) < length s"
    proof -
      have "length s = length d + length w + length q" using ds(1) by (metis length_append add.assoc)
      moreover have "length (tl q) < length q" using more(2) by simp
      ultimately show ?thesis by linarith
    qed
    ultimately have ih: "split_args (?b @ tl q @ EOS # z) (length ?b) xs =
      (if length xs + length (fst (cut (tl q) (length ?b))) \<le> 6 \<or> fst (cut (tl q) (length ?b)) = []
       then Some (xs @ fst (cut (tl q) (length ?b)), ?b @ snd (cut (tl q) (length ?b)) @ EOS # z) else None)" for xs
      using less.hyps by blast
    have lb: "length b + length d + length w + 1 = length ?b" by simp
    obtain os m where om: "cut (tl q) (length ?b) = (os, m)" by (cases "cut (tl q) (length ?b)")
    have cc: "cut s (length b) = ((length b + length d) # os, d @ w @ EOS # m)" unfolding c lb om using more by simp
    show ?thesis unfolding cc by (subst split_args_step) (simp only: 1 option.case prod.case ih om fst_conv snd_conv, auto)
  qed
qed

end
