(* ===== verification/TerminalLine.thy ===== *)
theory TerminalLine
  imports Terminal
begin

text \<open>
  What \<^verbatim>\<open>terminal_process\<close> does with a line: the words it passes to the command, the command it
  calls, the line it keeps, and the sessions of typed characters and processed lines.
\<close>

section \<open>The words of the line\<close>

lemma c_string_app: "EOS \<notin> set w \<Longrightarrow> c_string (b @ w @ EOS # z) (length b) = Some w"
proof -
  assume w: "EOS \<notin> set w"
  have "scan_while (\<lambda>c. c \<noteq> EOS) (b @ w @ EOS # z) (length b) = Some (length b + length w)"
    using w by (intro scan_while_app) auto
  then show ?thesis by (simp add: c_string_def)
qed

lemma cut_words:
  "EOS \<notin> set s \<Longrightarrow> map (c_string (b @ snd (cut s (length b)) @ EOS # z)) (fst (cut s (length b))) = map Some (words_of s)"
proof (induction "length s" arbitrary: s b rule: less_induct)
  case less
  define d where "d = takeWhile is_delim s"
  define r where "r = dropWhile is_delim s"
  define w where "w = takeWhile (\<lambda>c. \<not> is_delim c) r"
  define q where "q = dropWhile (\<lambda>c. \<not> is_delim c) r"
  note ds = line_split [of s, folded d_def r_def, folded w_def q_def]
  have c: "cut s (length b) = (if r = [] then ([], s) else if q = [] then ([length b + length d], s)
      else let (os, m) = cut (tl q) (length b + length d + length w + 1) in ((length b + length d) # os, d @ w @ EOS # m))"
    by (subst cut.simps) (simp add: Let_def d_def r_def w_def q_def)
  have ws: "words_of s = (if r = [] then [] else w # words_of q)" by (subst words_of.simps) (simp add: Let_def r_def w_def q_def)
  have we: "EOS \<notin> set w" using ds(1) less.prems by (metis Un_iff set_append)
  consider (none) "r = []" | (last) "r \<noteq> []" "q = []" | (more) "r \<noteq> []" "q \<noteq> []" by blast
  then show ?case
  proof cases
    case last
    have "c_string ((b @ d) @ w @ EOS # z) (length (b @ d)) = Some w" by (rule c_string_app [OF we])
    with last c ws ds(1) show ?thesis by simp
  next
    case more
    let ?b = "b @ d @ w @ [EOS]"
    have q: "q = hd q # tl q" using more by simp
    have "EOS \<notin> set (tl q)" using less.prems ds(1) more(2) by (metis Un_iff list.set_sel(2) set_append)
    moreover have "length (tl q) < length s"
    proof -
      have "length s = length d + length w + length q" using ds(1) by (metis length_append add.assoc)
      moreover have "length (tl q) < length q" using more(2) by simp
      ultimately show ?thesis by linarith
    qed
    ultimately have ih: "map (c_string (?b @ snd (cut (tl q) (length ?b)) @ EOS # z)) (fst (cut (tl q) (length ?b))) = map Some (words_of (tl q))"
      using less.hyps by blast
    obtain os m where om: "cut (tl q) (length ?b) = (os, m)" by (cases "cut (tl q) (length ?b)")
    have cc: "cut s (length b) = ((length b + length d) # os, d @ w @ EOS # m)"
      unfolding c using more om by (simp add: add.assoc)
    have "words_of q = words_of (tl q)" using words_of_delim [OF ds(5) [OF more(2)], of "tl q"] q by simp
    moreover have "c_string ((b @ d) @ w @ EOS # m @ EOS # z) (length (b @ d)) = Some w" by (rule c_string_app [OF we])
    ultimately show ?thesis unfolding cc ws using more ih om by simp
  qed (use c ws in simp)
qed

lemma cut_count: "EOS \<notin> set s \<Longrightarrow> length (fst (cut s (length b))) = length (words_of s)" for b :: string
  using cut_words [of s b "[]"] by (metis length_map)

text \<open>The words that are passed on are the words of the line, as long as there are not more than six.\<close>

lemma split_args_words:
  assumes "EOS \<notin> set s"
  shows "length (words_of s) \<le> 6 \<Longrightarrow> \<exists>argv buf. split_args (b @ s @ EOS # z) (length b) [] = Some (argv, buf) \<and>
      map (c_string buf) argv = map Some (words_of s)"
    and "6 < length (words_of s) \<Longrightarrow> split_args (b @ s @ EOS # z) (length b) [] = None"
  using split_args_spec [OF assms, of b z "[]"] cut_words [OF assms, of b z] cut_count [OF assms, of b] by auto

text \<open>The buffer changes only where an end of string is written.\<close>

lemma strtok_keeps: "strtok buf p = Some (w, q, buf') \<Longrightarrow> length buf' = length buf \<and> (\<forall>i. buf ! i = EOS \<longrightarrow> buf' ! i = EOS)"
  by (auto simp: strtok_def wr_eq_Some nth_list_update split: bind_splits if_splits)

lemma split_args_keeps: "split_args buf p argv = Some (os, buf') \<Longrightarrow> length buf' = length buf \<and> (\<forall>i. buf ! i = EOS \<longrightarrow> buf' ! i = EOS)"
proof (induction buf p argv rule: split_args.induct)
  case (1 buf p argv)
  show ?case
  proof (cases "strtok buf p")
    case None
    with 1(2) show ?thesis by (subst (asm) split_args.simps) simp
  next
    case (Some x)
    obtain w q b where x: "x = (w, q, b)" by (cases x)
    note k = strtok_keeps [OF Some [unfolded x]]
    show ?thesis
    proof (cases w)
      case None
      with 1(2) Some x k show ?thesis by (subst (asm) split_args.simps) simp
    next
      case (Some a)
      with 1(2) \<open>strtok buf p = Some x\<close> x have "length argv < 6" "split_args b q (argv @ [a]) = Some (os, buf')"
        by (subst (asm) split_args.simps; simp split: if_splits)+
      with 1(1) [OF \<open>strtok buf p = Some x\<close> x [symmetric] Some refl] k show ?thesis by auto
    qed
  qed
qed

section \<open>The line that is kept\<close>

lemma save_line_ok:
  assumes b: "length (term_in t) = 32" "term_in t ! 30 = EOS" "term_in t ! 31 = EOS"
  shows "length (last_term_in t) = 32 \<Longrightarrow> i \<le> 30 \<Longrightarrow> \<exists>l n. save_line i t = Some (t\<lparr>last_term_in := l, cpi := n\<rparr>) \<and>
      length l = 32 \<and> n \<le> 30 \<and> l ! n = EOS"
  using b
proof (induction "31 - i" arbitrary: i t rule: less_induct)
  case less
  let ?a = "term_in t ! i"
  let ?more = "?a \<noteq> EOS \<or> term_in t ! Suc i \<noteq> EOS"
  have m: "(if ?a \<noteq> EOS then Some True else map_option (\<lambda>c. c \<noteq> EOS) (rd (term_in t) (Suc i))) = Some ?more"
    using less.prems by simp
  show ?case
  proof (cases ?more)
    case False
    then have "save_line i t = Some (t\<lparr>last_term_in := (last_term_in t)[i := EOS], cpi := i\<rparr>)"
      using less.prems by (subst save_line.simps) simp
    with less.prems show ?thesis by (intro exI [of _ "(last_term_in t)[i := EOS]"] exI [of _ i]) simp
  next
    case True
    then have "i \<noteq> 30" using less.prems(4,5) by auto
    then have i: "Suc i \<le> 30" "31 - Suc i < 31 - i" using less.prems(2) by auto
    let ?l = "(last_term_in t)[i := if ?a = EOS then CHR '' '' else ?a]"
    have s: "save_line i t = save_line (Suc i) (t\<lparr>last_term_in := ?l\<rparr>)"
      using less.prems True m by (subst save_line.simps) (simp only: rd_in Option.bind.simps if_True wr_in)
    from less.hyps [OF i(2), of "t\<lparr>last_term_in := ?l\<rparr>"] i(1) less.prems show ?thesis unfolding s by simp
  qed
qed

section \<open>The command that is called\<close>

text \<open>The functions in the order of the names, and the one that a name stands for: the first of the table if no command has it.\<close>

definition all_funcs :: "cmd_t list \<Rightarrow> terminal \<Rightarrow> nat list \<Rightarrow> nat list" where
  "all_funcs cmds t xs = map cmd_func cmds @ map (\<lambda>x. dcmd_func (handlers t ! x)) xs"

definition command_of :: "cmd_t list \<Rightarrow> terminal \<Rightarrow> nat list \<Rightarrow> string \<Rightarrow> nat" where
  "command_of cmds t xs c = all_funcs cmds t xs ! (case position c (all_names cmds t xs) 0 of Some i \<Rightarrow> i | None \<Rightarrow> 0)"

lemma position_less: "position c ns i = Some j \<Longrightarrow> j < i + length ns"
  by (induction ns arbitrary: i) (fastforce split: if_splits)+

lemma nth_dcmd_dlist: "dlist hs p xs \<Longrightarrow> n < length xs \<Longrightarrow> nth_dcmd hs p n = Some (dcmd_func (hs ! (xs ! n)))"
proof (induction xs arbitrary: p n)
  case (Cons x xs)
  then show ?case by (cases n) auto
qed simp

lemma call_cmd_spec:
  assumes ok: "cmds_ok cmds t xs" and n: "cmds \<noteq> []" "length cmds + length xs \<le> 256" and c: "EOS \<notin> set name"
  shows "call_cmd cmds run argv name t = Some (run (command_of cmds t xs name) argv (term_print [CR, LF] t))"
proof -
  define k where "k = (case position name (all_names cmds t xs) 0 of Some i \<Rightarrow> i | None \<Rightarrow> 0)"
  have d: "dlist (handlers t) (cmd_head t) xs" using ok by (simp add: cmds_ok_def)
  have "0 < length cmds" using n(1) by simp
  then have k: "k < length cmds + length xs"
    using position_less [of name "all_names cmds t xs" 0] by (auto simp: k_def all_names_def split: option.split)
  have s: "search_cmd cmds t name = Some (of_nat k)"
    using search_cmd_spec [OF ok c] by (simp add: k_def split: option.split)
  have u: "unat (of_nat k :: uint8_t) = k" using k n(2) by (simp add: unat_of_nat)
  have f: "(if k < length cmds then map_option cmd_func (rd cmds k) else nth_dcmd (handlers t) (cmd_head t) (k - length cmds))
      = Some (all_funcs cmds t xs ! k)"
    using k nth_dcmd_dlist [OF d, of "k - length cmds"] by (auto simp: all_funcs_def nth_append)
  have "all_funcs cmds t xs ! k = command_of cmds t xs name" by (simp add: command_of_def k_def)
  with f show ?thesis by (cases "k < length cmds") (auto simp: call_cmd_def s u Let_def term_print_def)
qed

section \<open>Processing a line\<close>

abbreviation (input) line_of :: "terminal \<Rightarrow> string" where
  "line_of t \<equiv> takeWhile (\<lambda>c. c \<noteq> EOS) (term_in t)"

lemma line_parts:
  assumes "buffers_ok t"
  shows "\<exists>z. term_in t = line_of t @ EOS # z" "EOS \<notin> set (line_of t)"
proof -
  note d = buffers_okD [OF assms]
  have "EOS \<in> set (term_in t)" using d(1,2) by (metis nth_mem numeral_less_iff semiring_norm(76,78,81))
  then have n: "dropWhile (\<lambda>c. c \<noteq> EOS) (term_in t) \<noteq> []" by (auto simp: dropWhile_eq_Nil_conv)
  then have "hd (dropWhile (\<lambda>c. c \<noteq> EOS) (term_in t)) = EOS" using hd_dropWhile [OF n] by simp
  with n show "\<exists>z. term_in t = line_of t @ EOS # z" by (metis list.collapse takeWhile_dropWhile_id)
  show "EOS \<notin> set (line_of t)" by (auto dest: set_takeWhileD)
qed

lemma skip_blanks:
  defines "B \<equiv> (\<lambda>c. c = CHR '' '' \<or> c = CHR 0x09)"
  shows "scan_while B (s @ EOS # z) 0 = Some (length (takeWhile B s))" "words_of (dropWhile B s) = words_of s"
proof -
  obtain x y where xy: "dropWhile B s @ EOS # z = x # y" by (cases "dropWhile B s") auto
  have "\<not> B x"
  proof (cases "dropWhile B s")
    case Nil
    with xy have "x = EOS" by simp
    then show ?thesis unfolding B_def by simp
  next
    case (Cons a b)
    with xy hd_dropWhile [of B s] show ?thesis by auto
  qed
  moreover have "s @ EOS # z = takeWhile B s @ x # y" unfolding xy [symmetric] by (simp add: append_assoc [symmetric] del: append_assoc)
  ultimately show "scan_while B (s @ EOS # z) 0 = Some (length (takeWhile B s))"
    using scan_while_app [of "takeWhile B s" B x "[]" y] by (auto dest: set_takeWhileD)
  show "words_of (dropWhile B s) = words_of s"
  proof (induction s)
    case (Cons c s)
    then show ?case by (cases "B c") (auto simp: B_def words_of_delim is_delim_def)
  qed simp
qed

text \<open>The first two loops of \<^verbatim>\<open>terminal_process\<close> together.\<close>

lemma args_of_line:
  assumes ok: "buffers_ok t"
  shows "\<exists>i. scan_while (\<lambda>c. c = CHR '' '' \<or> c = CHR 0x09) (term_in t) 0 = Some i \<and>
      (length (words_of (line_of t)) \<le> 6 \<longrightarrow> (\<exists>argv buf. split_args (term_in t) i [] = Some (argv, buf) \<and>
         map (c_string buf) argv = map Some (words_of (line_of t)) \<and> length buf = 32 \<and> buf ! 30 = EOS \<and> buf ! 31 = EOS)) \<and>
      (6 < length (words_of (line_of t)) \<longrightarrow> split_args (term_in t) i [] = None)"
proof -
  define B where "B = (\<lambda>c. c = CHR '' '' \<or> c = CHR 0x09)"
  define s where "s = line_of t"
  define b where "b = takeWhile B s" define r where "r = dropWhile B s"
  obtain z where z: "term_in t = s @ EOS # z" using line_parts(1) [OF ok] s_def by auto
  have sbr: "s = b @ r" by (simp add: b_def r_def)
  have e: "EOS \<notin> set r" using line_parts(2) [OF ok] sbr s_def by (metis Un_iff set_append)
  have w: "words_of r = words_of s" unfolding r_def B_def by (rule skip_blanks(2))
  have i: "scan_while B (term_in t) 0 = Some (length b)" unfolding z b_def B_def by (rule skip_blanks(1))
  have t: "term_in t = b @ r @ EOS # z" using z sbr by simp
  have keep: "length buf = 32 \<and> buf ! 30 = EOS \<and> buf ! 31 = EOS" if "split_args (term_in t) (length b) [] = Some (argv, buf)" for argv buf
    using split_args_keeps [OF that] buffers_okD [OF ok] by auto
  show ?thesis unfolding B_def [symmetric] s_def [symmetric] w [symmetric]
    using i keep split_args_words [OF e, of b z] unfolding t [symmetric] by (intro exI [of _ "length b"]) blast
qed

lemma c_string_no_EOS: "c_string buf p = Some w \<Longrightarrow> EOS \<notin> set w"
  by (auto simp: c_string_def in_set_conv_nth dest!: scan_while_ge)

text \<open>A line without words, and one with too many.\<close>

lemma terminal_process_empty:
  assumes ok: "buffers_ok t" and w: "words_of (line_of t) = []"
  shows "terminal_process cmds run t = Some (None, t\<lparr>term_in := replicate 32 EOS, term_in_idx := 0\<rparr>)"
proof -
  from args_of_line [OF ok] w obtain i buf where "scan_while (\<lambda>c. c = CHR '' '' \<or> c = CHR 0x09) (term_in t) 0 = Some i"
    "split_args (term_in t) i [] = Some ([], buf)" by auto
  then show ?thesis by (simp add: terminal_process_def Let_def)
qed

lemma terminal_process_overflow:
  assumes ok: "buffers_ok t" and w: "6 < length (words_of (line_of t))"
  shows "terminal_process cmds run t = None"
  using args_of_line [OF ok] w by (auto simp: terminal_process_def)

text \<open>Otherwise the command that the first word names gets all the words.\<close>

lemma terminal_process_calls:
  assumes ok: "buffers_ok t" and c: "cmds_ok cmds t xs" "cmds \<noteq> []" "length cmds + length xs \<le> 256"
    and w: "words_of (line_of t) = name # args" "length args \<le> 5"
    and run: "\<And>f argv u. buffers_ok u \<Longrightarrow> buffers_ok (snd (run f argv u))"
  shows "\<exists>i argv buf r u l n. scan_while (\<lambda>c. c = CHR '' '' \<or> c = CHR 0x09) (term_in t) 0 = Some i \<and>
     split_args (term_in t) i [] = Some (argv, buf) \<and> map (c_string buf) argv = map Some (name # args) \<and>
     run (command_of cmds t xs name) argv (term_print [CR, LF] (t\<lparr>term_in := buf\<rparr>)) = (r, u) \<and> buffers_ok u \<and>
     terminal_process cmds run t = Some (r, term_print [CR, LF, CHR ''>'', CHR ''>''] (u\<lparr>last_term_in := l, cpi := n, term_in := replicate 32 EOS, term_in_idx := 0\<rparr>)) \<and>
     save_line 0 u = Some (u\<lparr>last_term_in := l, cpi := n\<rparr>) \<and> length l = 32 \<and> n \<le> 30 \<and> l ! n = EOS"
proof -
  from args_of_line [OF ok] w obtain i argv buf where i: "scan_while (\<lambda>c. c = CHR '' '' \<or> c = CHR 0x09) (term_in t) 0 = Some i"
    and s: "split_args (term_in t) i [] = Some (argv, buf)"
    and a: "map (c_string buf) argv = map Some (name # args)" and b: "length buf = 32" "buf ! 30 = EOS" "buf ! 31 = EOS" by auto
  obtain x ys where x: "argv = x # ys" "c_string buf x = Some name" using a by (cases argv) auto
  let ?t = "t\<lparr>term_in := buf\<rparr>"
  obtain r u where ru: "run (command_of cmds t xs name) argv (term_print [CR, LF] ?t) = (r, u)" by (cases "run (command_of cmds t xs name) argv (term_print [CR, LF] ?t)")
  have "buffers_ok (term_print [CR, LF] ?t)" using b buffers_okD [OF ok] by (simp add: buffers_ok_def term_print_def)
  from run [OF this] ru have u: "buffers_ok u" by (metis snd_conv)
  have c': "cmds_ok cmds ?t xs" "command_of cmds ?t xs name = command_of cmds t xs name"
    using c(1) by (simp_all add: cmds_ok_def command_of_def all_funcs_def all_names_def)
  have call: "call_cmd cmds run argv name ?t = Some (r, u)"
    using call_cmd_spec [OF c'(1) c(2,3) c_string_no_EOS [OF x(2)], of run argv] c'(2) ru by simp
  note d = buffers_okD [OF u]
  from save_line_ok [OF d(1-4), of 0] obtain l n where l: "save_line 0 u = Some (u\<lparr>last_term_in := l, cpi := n\<rparr>)" "length l = 32" "n \<le> 30" "l ! n = EOS"
    by auto
  have "terminal_process cmds run t = Some (r, term_print [CR, LF, CHR ''>'', CHR ''>''] (u\<lparr>last_term_in := l, cpi := n, term_in := replicate 32 EOS, term_in_idx := 0\<rparr>))"
    using i s x call l(1) by (simp add: terminal_process_def Let_def term_print_def)
  with i s l a ru u show ?thesis by blast
qed

end
