(* ===== verification/TerminalSession.thy ===== *)
theory TerminalSession
  imports TerminalLine
begin

text \<open>
  The terminal over a whole session: each character goes to \<^verbatim>\<open>terminal_input\<close>, and a completed line to
  \<^verbatim>\<open>terminal_process\<close>, before the next character. The reachable states of a session, the line that a
  sequence of keys enters, and the line that the up key brings back.
\<close>

section \<open>Sessions\<close>

inductive session_step :: "cmd_t list \<Rightarrow> commands \<Rightarrow> terminal \<Rightarrow> terminal \<Rightarrow> bool" for cmds run where
  key: "terminal_input c t = Some (False, t') \<Longrightarrow> session_step cmds run t t'"
| line: "terminal_input c t = Some (True, t1) \<Longrightarrow> terminal_process cmds run t1 = Some (r, t') \<Longrightarrow> session_step cmds run t t'"
| add: "terminal_add_cmd h f name description t = Some t' \<Longrightarrow> dlist (handlers t) (cmd_head t) xs \<Longrightarrow> distinct xs \<Longrightarrow> h \<notin> set xs \<Longrightarrow>
    EOS \<notin> set name \<Longrightarrow> length cmds + length xs < 256 \<Longrightarrow> session_step cmds run t t'"

text \<open>What a session keeps, and what it relies on: a command's function leaves the terminal as it finds it, up to the echo, the text
  and its own handlers.\<close>

definition table_ok :: "cmd_t list \<Rightarrow> terminal \<Rightarrow> bool" where
  "table_ok cmds t \<longleftrightarrow> cmds \<noteq> [] \<and> (\<exists>xs. cmds_ok cmds t xs \<and> length cmds + length xs \<le> 256)"

definition polite :: "cmd_t list \<Rightarrow> commands \<Rightarrow> bool" where
  "polite cmds run \<longleftrightarrow> (\<forall>f argv t. (buffers_ok t \<longrightarrow> buffers_ok (snd (run f argv t))) \<and> (table_ok cmds t \<longrightarrow> table_ok cmds (snd (run f argv t))))"

lemma cmds_ok_cong: "handlers t' = handlers t \<Longrightarrow> cmd_head t' = cmd_head t \<Longrightarrow> cmds_ok cmds t' xs = cmds_ok cmds t xs"
  by (simp add: cmds_ok_def)

lemma table_ok_cong: "handlers t' = handlers t \<Longrightarrow> cmd_head t' = cmd_head t \<Longrightarrow> table_ok cmds t' = table_ok cmds t"
  by (simp add: table_ok_def cmds_ok_cong [of t' t])

text \<open>Typing does not touch the commands.\<close>

definition same_cmds :: "terminal \<Rightarrow> terminal \<Rightarrow> bool" where
  "same_cmds t t' \<longleftrightarrow> handlers t' = handlers t \<and> cmd_head t' = cmd_head t \<and> last_term_in t' = last_term_in t \<and> cpi t' = cpi t"

lemma same_cmds_refl: "same_cmds t t"
  by (simp add: same_cmds_def)

lemma same_cmds_trans: "same_cmds t u \<Longrightarrow> same_cmds u v \<Longrightarrow> same_cmds t v"
  by (simp add: same_cmds_def)

lemma putchar_same: "putchar c t = Some t' \<Longrightarrow> same_cmds t t'"
  by (auto simp: putchar_def same_cmds_def split: option.splits)

lemma receive_same: "receive c t = Some (r, t') \<Longrightarrow> same_cmds t t'"
  by (auto simp: receive_def Let_def count_char_def same_cmds_def dest!: putchar_same split: bind_splits if_splits)

lemma edit_same:
  assumes "edit c t = Some (r, t')" "buffers_ok t"
  shows "same_cmds t t'"
proof -
  from recall_spec [OF assms(2)] obtain t1 where r: "recall t = Some t1" "same_cmds t t1" by (simp add: same_cmds_def)
  define erase up full where e: "erase \<longleftrightarrow> (c = BS \<or> c = DEL) \<and> term_in_idx t > 0" "up \<longleftrightarrow> c = UP_KEY_CHAR"
    "full \<longleftrightarrow> c = LF \<or> c = CR \<or> term_in_idx t + 1 = 32 - 1"
  from assms(1) have "edit c t = Some (r, t')" .
  then have "t' = t1 \<or> same_cmds t t'"
    unfolding edit_def Let_def e [symmetric] using r(1)
    by (cases "term_tmp_idx t \<ge> 0"; cases erase; cases up; cases full) (auto simp: Option.bind_eq_Some_conv e(3) same_cmds_def)
  with r(2) show ?thesis by blast
qed

lemma terminal_input_same:
  assumes ok: "term_ok t" and i: "terminal_input c t = Some (r, t')"
  shows "same_cmds t t'"
proof -
  let ?t = "case input t of None \<Rightarrow> t | Some f \<Rightarrow> t\<lparr>hook_calls := hook_calls t @ [(f, c)]\<rparr>"
  have t: "term_ok ?t" "same_cmds t ?t" using ok by (cases "input t"; simp add: same_cmds_def)+
  from receive_ok [OF t(1), of c] obtain x u where r: "receive c ?t = Some (x, u)" "term_ok u" by blast
  note s = same_cmds_trans [OF t(2) receive_same [OF r(1)]]
  show ?thesis
  proof (cases x)
    case None
    with i r(1) s show ?thesis by (simp add: terminal_input_def Let_def)
  next
    case (Some y)
    with i r(1) have "edit y u = Some (r, t')" by (simp add: terminal_input_def Let_def)
    with edit_same r(2) same_cmds_trans [OF s] show ?thesis by (auto simp: term_ok_def)
  qed
qed

lemma same_cmds_table: "same_cmds t t' \<Longrightarrow> table_ok cmds t \<Longrightarrow> table_ok cmds t'"
  using table_ok_cong [of t' t cmds] by (simp add: same_cmds_def)

lemma terminal_add_cmd_cmds:
  assumes a: "terminal_add_cmd h f name description t = Some t'" and c: "cmds_ok cmds t xs" "distinct xs" "h \<notin> set xs" and n: "EOS \<notin> set name"
  shows "cmds_ok cmds t' (xs @ [h]) \<and> all_names cmds t' (xs @ [h]) = all_names cmds t xs @ [name] \<and>
     all_funcs cmds t' (xs @ [h]) = all_funcs cmds t xs @ [f] \<and> (\<exists>hs p. t' = t\<lparr>handlers := hs, cmd_head := p\<rparr>)"
proof -
  have h: "h < length (handlers t)"
    using a by (auto simp: terminal_add_cmd_def wr_eq_Some upd_eq_Some split: bind_splits option.splits)
  have d: "dlist (handlers t) (cmd_head t) xs" using c(1) by (simp add: cmds_ok_def)
  from terminal_add_cmd_spec [OF d c(2,3) h, of f name description] a obtain hs where
    t': "t' = t\<lparr>handlers := hs, cmd_head := Some (hd (xs @ [h]))\<rparr>" and hs: "dlist hs (Some (hd (xs @ [h]))) (xs @ [h])"
      "\<forall>x \<in> set xs. dcmd_name (hs ! x) = dcmd_name (handlers t ! x) \<and> dcmd_func (hs ! x) = dcmd_func (handlers t ! x)"
      "dcmd_name (hs ! h) = name" "dcmd_func (hs ! h) = f" by auto
  then show ?thesis using c(1) n by (auto simp: cmds_ok_def all_names_def all_funcs_def)
qed

lemma dlist_unique: "dlist hs p xs \<Longrightarrow> dlist hs p ys \<Longrightarrow> xs = ys"
proof (induction xs arbitrary: p ys)
  case Nil
  then show ?case by (cases ys) auto
next
  case (Cons x xs)
  then show ?case by (cases ys) auto
qed

text \<open>Each step keeps the invariant.\<close>

lemma process_keeps:
  assumes ok: "buffers_ok t" "table_ok cmds t" "polite cmds run" and p: "terminal_process cmds run t = Some (r, t')"
  shows "term_ok t' \<and> table_ok cmds t'"
proof -
  obtain xs where x: "cmds \<noteq> []" "cmds_ok cmds t xs" "length cmds + length xs \<le> 256" using ok(2) by (auto simp: table_ok_def)
  have run: "\<And>f argv u. buffers_ok u \<Longrightarrow> buffers_ok (snd (run f argv u))" using ok(3) by (simp add: polite_def)
  have fl: "term_ok (u\<lparr>last_term_in := l, cpi := n, term_in := replicate 32 EOS, term_in_idx := 0\<rparr>)"
    if "putchar_func u \<noteq> None" "length l = 32" "n \<le> 30" "l ! n = EOS" for u l n
    using that by (simp add: term_ok_def buffers_ok_def)
  show ?thesis
  proof (cases "words_of (line_of t)")
    case Nil
    from terminal_process_empty [OF ok(1) Nil] p have t': "t' = t\<lparr>term_in := replicate 32 EOS, term_in_idx := 0\<rparr>" by simp
    with fl [of t "last_term_in t" "cpi t"] buffers_okD [OF ok(1)] ok(2) table_ok_cong [of t' t cmds] show ?thesis by simp
  next
    case (Cons name args)
    then have "length args \<le> 5" using terminal_process_overflow [OF ok(1), of cmds run] p by fastforce
    from terminal_process_calls [where run = run, OF ok(1) x(2,1,3) Cons this run] obtain i argv buf q u l n where
      u: "run (command_of cmds t xs name) argv (term_print [CR, LF] (t\<lparr>term_in := buf\<rparr>)) = (q, u)" "buffers_ok u"
      and e: "terminal_process cmds run t = Some (q, term_print [CR, LF, CHR ''>'', CHR ''>''] (u\<lparr>last_term_in := l, cpi := n, term_in := replicate 32 EOS, term_in_idx := 0\<rparr>))"
      and l: "length l = 32" "n \<le> 30" "l ! n = EOS" by blast
    let ?t = "term_print [CR, LF] (t\<lparr>term_in := buf\<rparr>)"
    have "table_ok cmds ?t" using ok(2) table_ok_cong [of ?t t cmds] by (simp add: term_print_def)
    then have "table_ok cmds u" using ok(3) u(1) unfolding polite_def by (metis snd_conv)
    moreover have t': "t' = term_print [CR, LF, CHR ''>'', CHR ''>''] (u\<lparr>last_term_in := l, cpi := n, term_in := replicate 32 EOS, term_in_idx := 0\<rparr>)"
      using e p by simp
    ultimately have "table_ok cmds t'" using table_ok_cong [of t' u cmds] by (simp add: term_print_def)
    moreover have "term_ok t'" using fl [OF buffers_okD(7) [OF u(2)] l] t' by (simp add: term_print_def term_ok_def buffers_ok_def)
    ultimately show ?thesis by simp
  qed
qed

lemma session_step_keeps:
  assumes s: "session_step cmds run t t'" and ok: "term_ok t" "table_ok cmds t" "polite cmds run"
  shows "term_ok t' \<and> table_ok cmds t'"
  using s
proof cases
  case (key c)
  then have "term_ok t'" using terminal_input_ok [OF ok(1), of c] by auto
  moreover have "table_ok cmds t'" using terminal_input_same [OF ok(1) key] ok(2) by (rule same_cmds_table)
  ultimately show ?thesis by blast
next
  case (line c t1 r)
  then have "buffers_ok t1" using terminal_input_ok [OF ok(1), of c] by auto
  moreover have "table_ok cmds t1" using terminal_input_same [OF ok(1) line(1)] ok(2) by (rule same_cmds_table)
  ultimately show ?thesis using process_keeps ok(3) line(2) by blast
next
  case (add h f name description xs)
  from ok(2) obtain ys where y: "cmds \<noteq> []" "cmds_ok cmds t ys" "length cmds + length ys \<le> 256" by (auto simp: table_ok_def)
  have "ys = xs" using dlist_unique y(2) add(2) by (auto simp: cmds_ok_def)
  with terminal_add_cmd_cmds [OF add(1) _ add(3,4,5), of cmds] y add(6)
  have "cmds_ok cmds t' (xs @ [h])" "length cmds + length (xs @ [h]) \<le> 256" "\<exists>hs p. t' = t\<lparr>handlers := hs, cmd_head := p\<rparr>" by auto
  with y(1) ok(1) show ?thesis by (auto simp: table_ok_def term_ok_def buffers_ok_def)
qed

text \<open>The states that a session can reach.\<close>

inductive session :: "cmd_t list \<Rightarrow> commands \<Rightarrow> dcmd_t list \<Rightarrow> terminal \<Rightarrow> bool" for cmds run hs where
  power_on: "terminal_init (Some f) (boot_terminal hs) = Some t \<Longrightarrow> session cmds run hs t"
| goes_on: "session cmds run hs t \<Longrightarrow> session_step cmds run t t' \<Longrightarrow> session cmds run hs t'"

lemma terminal_init_spec:
  "terminal_init (Some f) (boot_terminal hs) = Some ((boot_terminal hs)\<lparr>putchar_func := Some f, echo := [LF, CR, CHR ''>'', CHR ''>'']\<rparr>)"
  by (simp add: terminal_init_def term_putchar_install_def puts_Some boot_terminal_def del: puts.simps)

lemma session_ok:
  assumes "session cmds run hs t" "sorted_table cmds" "cmds \<noteq> []" "polite cmds run"
  shows "term_ok t \<and> table_ok cmds t"
  using assms(1)
proof (induction rule: session.induct)
  case (power_on f t)
  have "length cmds \<le> 256" using assms(2) by (simp add: sorted_table_def)
  moreover have "cmds_ok cmds t []" using power_on assms(2) unfolding terminal_init_spec by (auto simp: boot_terminal_def cmds_ok_def)
  ultimately have "table_ok cmds t" using assms(3) by (auto simp: table_ok_def intro: exI [of _ "[]"])
  with power_on show ?case unfolding terminal_init_spec by (auto simp: boot_terminal_def term_ok_def buffers_ok_def)
next
  case (goes_on t t')
  with session_step_keeps assms(4) show ?case by blast
qed

text \<open>The next character is always taken, and a line that it completes is processed unless it has more than six words.\<close>

lemma session_progress:
  assumes s: "term_ok t" "table_ok cmds t" "polite cmds run"
  shows "\<exists>r u. terminal_input c t = Some (r, u) \<and>
     (r \<longrightarrow> (terminal_process cmds run u = None \<longleftrightarrow> 6 < length (words_of (line_of u))))"
proof -
  from terminal_input_ok [OF s(1), of c] obtain r u where u: "terminal_input c t = Some (r, u)" "buffers_ok u" by blast
  have "table_ok cmds u" using terminal_input_same [OF s(1) u(1)] same_cmds_table s(2) by blast
  then obtain xs where x: "cmds \<noteq> []" "cmds_ok cmds u xs" "length cmds + length xs \<le> 256" by (auto simp: table_ok_def)
  have run: "\<And>f argv u. buffers_ok u \<Longrightarrow> buffers_ok (snd (run f argv u))" using s(3) by (simp add: polite_def)
  have "terminal_process cmds run u \<noteq> None" if w: "\<not> 6 < length (words_of (line_of u))"
  proof (cases "words_of (line_of u)")
    case Nil
    from terminal_process_empty [OF u(2) Nil] show ?thesis by simp
  next
    case (Cons name args)
    with w have "length args \<le> 5" by simp
    from terminal_process_calls [where run = run, OF u(2) x(2,1,3) Cons this run] show ?thesis by auto
  qed
  then have "terminal_process cmds run u = None \<longleftrightarrow> 6 < length (words_of (line_of u))"
    using terminal_process_overflow [OF u(2), of cmds run] by blast
  with u(1) show ?thesis by (intro exI [of _ r] exI [of _ u]) simp
qed

section \<open>A typed line\<close>

text \<open>\<open>keys cs t\<close> are characters that do not complete a line.\<close>

fun keys :: "string \<Rightarrow> terminal \<Rightarrow> terminal option" where
  "keys [] t = Some t"
| "keys (c # cs) t = do { (r, t) \<leftarrow> terminal_input c t; if r then None else keys cs t }"

definition plain :: "char \<Rightarrow> bool" where
  "plain c \<longleftrightarrow> c \<noteq> EOS \<and> c \<noteq> DEL \<and> c \<noteq> BS \<and> c \<noteq> CR \<and> c \<noteq> LF \<and> c \<noteq> UP_KEY_CHAR"

definition fresh :: "terminal \<Rightarrow> bool" where
  "fresh t \<longleftrightarrow> buffers_ok t \<and> term_in t = replicate 32 EOS \<and> term_in_idx t = 0 \<and> term_tmp_idx t \<ge> 0 \<and> discard_char t = 0"

text \<open>The state after \<open>s\<close> has been typed into an empty line.\<close>

definition typing :: "string \<Rightarrow> terminal \<Rightarrow> bool" where
  "typing s u \<longleftrightarrow> term_in u = s @ replicate (32 - length s) EOS \<and> term_in_idx u = length s \<and> term_tmp_idx u \<ge> 0 \<and> discard_char u = 0"

definition typed :: "string \<Rightarrow> terminal \<Rightarrow> terminal \<Rightarrow> bool" where
  "typed s t u \<longleftrightarrow> same_cmds t u \<and> putchar_func u = putchar_func t \<and> printed_text u = printed_text t \<and> echo u = echo t @ s \<and> typing s u"

lemma empty_rest: "length s \<le> 31 \<Longrightarrow> replicate (32 - length s) EOS = EOS # replicate (31 - length s) EOS" for s :: string
proof -
  assume "length s \<le> 31"
  then have "32 - length s = Suc (31 - length s)" by simp
  then show ?thesis by simp
qed

lemma terminal_input_plain:
  assumes t: "typed s t0 t" "putchar_func t0 \<noteq> None" and c: "plain c" "length s < 30"
  shows "\<exists>u. terminal_input c t = Some (False, u) \<and> typed (s @ [c]) t0 u"
proof -
  let ?t = "case input t of None \<Rightarrow> t | Some f \<Rightarrow> t\<lparr>hook_calls := hook_calls t @ [(f, c)]\<rparr>"
  have ty: "typed s t0 ?t" using t(1) by (cases "input t") (simp_all add: typed_def typing_def same_cmds_def)
  let ?u = "?t\<lparr>echo := echo ?t @ [c], term_tmp_idx := term_tmp_idx ?t + 1\<rparr>"
  let ?v = "?u\<lparr>term_in := s @ c # replicate (31 - length s) EOS, term_in_idx := Suc (length s)\<rparr>"
  have n: "c \<noteq> DEL" "c \<noteq> BS" "c \<noteq> CR" "c \<noteq> LF" "c \<noteq> UP_KEY_CHAR" using c(1) by (simp_all add: plain_def)
  have r: "receive c ?t = Some (Some c, ?u)"
    using ty t(2) n by (simp add: receive_def putchar_Some typed_def typing_def count_char_def)
  have b: "(s @ replicate (32 - length s) EOS)[length s := c] = s @ c # replicate (31 - length s) EOS"
    using c(2) by (simp add: list_update_append empty_rest)
  have "edit c ?u = Some (False, ?v)" using ty n c(2) b by (simp add: edit_def typed_def typing_def Let_def)
  with r have "terminal_input c t = Some (False, ?v)" by (simp add: terminal_input_def Let_def)
  moreover have "typed (s @ [c]) t0 ?v" using ty c(2) by (simp add: typed_def typing_def same_cmds_def Suc_diff_le)
  ultimately show ?thesis by blast
qed

lemma keys_typed:
  assumes "putchar_func t0 \<noteq> None"
  shows "typed s t0 t \<Longrightarrow> \<forall>c \<in> set cs. plain c \<Longrightarrow> length s + length cs \<le> 30 \<Longrightarrow> \<exists>u. keys cs t = Some u \<and> typed (s @ cs) t0 u"
proof (induction cs arbitrary: s t)
  case (Cons c cs)
  from terminal_input_plain [OF Cons.prems(1) assms, of c] Cons.prems obtain v where
    v: "terminal_input c t = Some (False, v)" "typed (s @ [c]) t0 v" by auto
  from Cons.IH [OF v(2)] Cons.prems v(1) show ?case by auto
qed simp

text \<open>The carriage return completes it.\<close>

lemma terminal_input_return:
  assumes t: "typing s t" "putchar_func t \<noteq> None" and s: "length s \<le> 30"
  shows "\<exists>u. terminal_input CR t = Some (True, u) \<and> same_cmds t u \<and> term_in u = s @ replicate (32 - length s) EOS \<and>
     putchar_func u \<noteq> None \<and> printed_text u = printed_text t \<and> term_tmp_idx u = 0 \<and> discard_char u = 0"
proof -
  let ?t = "case input t of None \<Rightarrow> t | Some f \<Rightarrow> t\<lparr>hook_calls := hook_calls t @ [(f, CR)]\<rparr>"
  have ty: "typing s ?t" "same_cmds t ?t" "putchar_func ?t = putchar_func t" "printed_text ?t = printed_text t"
    using t(1) by (cases "input t"; simp add: typing_def same_cmds_def)+
  let ?u = "?t\<lparr>echo := echo ?t @ [CR], term_tmp_idx := 0\<rparr>"
  let ?b = "s @ replicate (32 - length s) EOS"
  let ?v = "?u\<lparr>term_in := ?b, term_in_idx := Suc (length s)\<rparr>"
  have r: "receive CR ?t = Some (Some CR, ?u)"
    using ty t(2) by (simp add: receive_def putchar_Some typing_def count_char_def)
  have b: "?b[length s := EOS] = ?b" "length s < length ?b" using s by (simp_all add: list_update_append empty_rest)
  have "edit CR ?u = Some (True, ?v)" using ty b by (simp add: edit_def typing_def Let_def)
  with r have "terminal_input CR t = Some (True, ?v)" by (simp add: terminal_input_def Let_def)
  with ty t(2) show ?thesis by (intro exI [of _ ?v]) (simp add: typing_def same_cmds_def)
qed

section \<open>The line comes back\<close>

text \<open>A line with one space between two words and none around them.\<close>

definition neat :: "string \<Rightarrow> bool" where
  "neat s \<longleftrightarrow> s \<noteq> [] \<and> (\<forall>c \<in> set s. plain c \<and> c \<noteq> CHR 0x09) \<and>
     (\<forall>i < length s. s ! i = CHR '' '' \<longrightarrow> 0 < i \<and> Suc i < length s \<and> s ! Suc i \<noteq> CHR '' '')"

definition marked :: "string \<Rightarrow> string" where
  "marked s = map (\<lambda>c. if c = CHR '' '' then EOS else c) s"

lemma neat_delim: "neat s \<Longrightarrow> c \<in> set s \<Longrightarrow> is_delim c \<longleftrightarrow> c = CHR '' ''"
  by (auto simp: neat_def plain_def is_delim_def)

lemma neat_hd: "neat s \<Longrightarrow> \<not> is_delim (hd s)"
proof -
  assume n: "neat s"
  then have "s \<noteq> []" by (simp add: neat_def)
  moreover from this n have "hd s \<noteq> CHR '' ''" by (auto simp: neat_def hd_conv_nth)
  ultimately show ?thesis using neat_delim [OF n, of "hd s"] by simp
qed

lemma neat_rest:
  assumes n: "neat (w @ CHR '' '' # q)"
  shows "neat q"
proof -
  have q: "q \<noteq> [] \<and> q ! 0 \<noteq> CHR '' ''"
    using n [unfolded neat_def, THEN conjunct2, THEN conjunct2, rule_format, of "length w"] by (auto simp: nth_append)
  have "0 < i \<and> Suc i < length q \<and> q ! Suc i \<noteq> CHR '' ''" if "i < length q" "q ! i = CHR '' ''" for i
  proof -
    have "(w @ CHR '' '' # q) ! (length w + Suc i) = q ! i" "(w @ CHR '' '' # q) ! Suc (length w + Suc i) = q ! Suc i"
      by (simp_all only: nth_append_length_plus nth_Cons_Suc flip: add_Suc_right)
    with n [unfolded neat_def, THEN conjunct2, THEN conjunct2, rule_format, of "length w + Suc i"] that q show ?thesis by (cases i) auto
  qed
  with n q show ?thesis by (simp add: neat_def)
qed

lemma cut_neat: "neat s \<Longrightarrow> snd (cut s p) = marked s"
proof (induction "length s" arbitrary: s p rule: less_induct)
  case less
  define w where "w = takeWhile (\<lambda>c. \<not> is_delim c) s"
  define q where "q = dropWhile (\<lambda>c. \<not> is_delim c) s"
  have ne: "s \<noteq> []" using less.prems by (simp add: neat_def)
  have d: "takeWhile is_delim s = []" "dropWhile is_delim s = s" using neat_hd [OF less.prems] ne by (cases s; simp)+
  have sw: "s = w @ q" by (simp add: w_def q_def)
  have mw: "marked w = w"
    unfolding marked_def by (intro map_idI) (auto simp: w_def is_delim_def dest!: set_takeWhileD)
  have c: "cut s p = (if q = [] then ([p], s) else let (os, m) = cut (tl q) (p + length w + 1) in (p # os, w @ EOS # m))"
    using ne d by (subst cut.simps) (simp add: Let_def w_def q_def)
  show ?case
  proof (cases "q = []")
    case True
    with sw mw c show ?thesis by simp
  next
    case False
    have "is_delim (hd q)" using hd_dropWhile [of "\<lambda>c. \<not> is_delim c" s] False by (simp add: q_def)
    moreover have "hd q \<in> set s" using sw False by simp
    ultimately have q: "q = CHR '' '' # tl q" using neat_delim [OF less.prems] False by (metis list.collapse)
    have nq: "neat (tl q)" using neat_rest less.prems sw q by metis
    have "length (tl q) < length s" using sw q by (metis length_append length_Cons less_add_Suc2 trans_less_add2 lessI)
    from less.hyps [OF this nq] have ih: "snd (cut (tl q) k) = marked (tl q)" for k .
    have "snd (cut s p) = w @ EOS # marked (tl q)"
      unfolding c using ih [of "p + length w + 1"] False by (auto split: prod.split)
    moreover have "marked s = w @ EOS # marked (tl q)"
    proof -
      have "marked (w @ CHR '' '' # tl q) = w @ EOS # marked (tl q)" using mw by (simp add: marked_def)
      with sw q show ?thesis by metis
    qed
    ultimately show ?thesis by simp
  qed
qed

text \<open>The kept line is the typed one.\<close>

lemma save_line_neat:
  assumes n: "neat s" "length s \<le> 30" and b: "term_in t = marked s @ replicate (32 - length s) EOS" "length l0 = 32"
  shows "i \<le> length s \<Longrightarrow> last_term_in t = take i s @ drop i l0 \<Longrightarrow>
     save_line i t = Some (t\<lparr>last_term_in := s @ EOS # drop (Suc (length s)) l0, cpi := length s\<rparr>)"
  using b(1)
proof (induction "length s - i" arbitrary: i t)
  case 0
  then have i: "i = length s" by simp
  have "term_in t = marked s @ EOS # EOS # replicate (30 - length s) EOS"
    using "0.prems"(3) n(2) by (simp add: empty_rest Suc_diff_le numeral_eq_Suc flip: replicate_Suc)
  then have "term_in t ! i = EOS" "term_in t ! Suc i = EOS" "Suc i < length (term_in t)" using i by (simp_all add: marked_def nth_append)
  moreover have "(s @ drop i l0)[i := EOS] = s @ EOS # drop (Suc i) l0"
    using i n(2) b(2) by (simp add: list_update_append flip: Cons_nth_drop_Suc)
  ultimately show ?case using "0.prems"(2) i b(2) n(2) by (subst save_line.simps) simp
next
  case (Suc k)
  then have i: "i < length s" by simp
  have l: "length (term_in t) = 32" "length (last_term_in t) = 32" using Suc.prems(2,3) i n(2) b(2) by (simp_all add: marked_def)
  have ti: "term_in t ! i = (if s ! i = CHR '' '' then EOS else s ! i)" using Suc.prems(3) i by (simp add: marked_def nth_append)
  have pl: "s ! i \<noteq> EOS" using n(1) i by (auto simp: neat_def plain_def)
  have more: "term_in t ! i \<noteq> EOS \<or> term_in t ! Suc i \<noteq> EOS"
  proof (cases "s ! i = CHR '' ''")
    case True
    then have j: "Suc i < length s" "s ! Suc i \<noteq> CHR '' ''" using n(1) i by (auto simp: neat_def)
    moreover have "s ! Suc i \<noteq> EOS" using n(1) j(1) by (auto simp: neat_def plain_def)
    ultimately show ?thesis using Suc.prems(3) by (simp add: marked_def nth_append)
  qed (use ti pl in simp)
  have v: "(if term_in t ! i = EOS then CHR '' '' else term_in t ! i) = s ! i" using ti pl by auto
  let ?t = "t\<lparr>last_term_in := (last_term_in t)[i := s ! i]\<rparr>"
  have m: "(if term_in t ! i \<noteq> EOS then Some True else map_option (\<lambda>c. c \<noteq> EOS) (rd (term_in t) (Suc i))) = Some True"
    using more l(1) i n(2) by simp
  have step: "save_line i t = save_line (Suc i) ?t"
    using l i n(2) m v by (subst save_line.simps) (simp only: rd_in Option.bind.simps if_True wr_in)
  have "(take i s @ drop i l0)[i := s ! i] = take (Suc i) s @ drop (Suc i) l0"
    using i n(2) b(2) by (simp add: list_update_append take_Suc_conv_app_nth flip: Cons_nth_drop_Suc)
  with Suc.hyps(1) [of "Suc i" ?t] Suc.hyps(2) Suc.prems i show ?case unfolding step by simp
qed

text \<open>What the round trip needs of the commands: they leave the line editor alone.\<close>

definition quiet :: "commands \<Rightarrow> bool" where
  "quiet run \<longleftrightarrow> (\<forall>f argv t. let u = snd (run f argv t) in term_in u = term_in t \<and> last_term_in u = last_term_in t \<and> cpi u = cpi t \<and>
     putchar_func u = putchar_func t \<and> term_tmp_idx u = term_tmp_idx t \<and> discard_char u = discard_char t)"

lemma quiet_buffers: "quiet run \<Longrightarrow> buffers_ok u \<Longrightarrow> buffers_ok (snd (run f argv u))"
  by (simp add: quiet_def Let_def buffers_ok_def)

lemma line_of_typed: "neat s \<Longrightarrow> length s \<le> 30 \<Longrightarrow> takeWhile (\<lambda>c. c \<noteq> EOS) (s @ replicate (32 - length s) EOS) = s"
  by (subst takeWhile_append2) (auto simp: neat_def plain_def empty_rest)

lemma words_neat: "neat s \<Longrightarrow> words_of s \<noteq> []"
proof -
  assume n: "neat s"
  then have "dropWhile is_delim s = s" "s \<noteq> []" using neat_hd [OF n] by (cases s; auto simp: neat_def)+
  then show ?thesis by (subst words_of.simps) (simp add: Let_def)
qed

lemma process_neat:
  assumes s: "neat s" "length s \<le> 30" "length (words_of s) \<le> 6"
    and t: "buffers_ok t" "term_in t = s @ replicate (32 - length s) EOS" "term_tmp_idx t = 0" "discard_char t = 0"
    and c: "table_ok cmds t" "quiet run"
  shows "\<exists>r u. terminal_process cmds run t = Some (r, u) \<and> fresh u \<and> cpi u = length s \<and> (\<exists>z. last_term_in u = s @ EOS # z)"
proof -
  obtain xs where x: "cmds \<noteq> []" "cmds_ok cmds t xs" "length cmds + length xs \<le> 256" using c(1) by (auto simp: table_ok_def)
  have lt: "line_of t = s" unfolding t(2) using s by (intro line_of_typed)
  obtain name args where w: "words_of (line_of t) = name # args" unfolding lt using words_neat [OF s(1)] by (cases "words_of s") auto
  then have "length args \<le> 5" using s(3) lt by simp
  from terminal_process_calls [where run = run, OF t(1) x(2,1,3) w this quiet_buffers [OF c(2)]]
  obtain i argv buf r u l n where i: "scan_while (\<lambda>c. c = CHR '' '' \<or> c = CHR 0x09) (term_in t) 0 = Some i"
    "split_args (term_in t) i [] = Some (argv, buf)"
    and ru: "run (command_of cmds t xs name) argv (term_print [CR, LF] (t\<lparr>term_in := buf\<rparr>)) = (r, u)" "buffers_ok u"
    and p: "terminal_process cmds run t = Some (r, term_print [CR, LF, CHR ''>'', CHR ''>''] (u\<lparr>last_term_in := l, cpi := n, term_in := replicate 32 EOS, term_in_idx := 0\<rparr>))"
    and sv: "save_line 0 u = Some (u\<lparr>last_term_in := l, cpi := n\<rparr>)" and l: "length l = 32" "n \<le> 30" "l ! n = EOS" by blast
  have u: "term_in u = buf" "term_tmp_idx u = 0" "discard_char u = 0"
    using c(2) [unfolded quiet_def, rule_format, of "command_of cmds t xs name" argv "term_print [CR, LF] (t\<lparr>term_in := buf\<rparr>)"] ru(1) t(3,4)
    by (simp_all add: term_print_def Let_def)
  have e: "term_in t = [] @ s @ EOS # replicate (31 - length s) EOS" using t(2) s(2) by (simp add: empty_rest)
  obtain a y where ay: "s = a # y" using s(1) by (cases s) (auto simp: neat_def)
  have "\<not> is_delim a" using neat_hd [OF s(1)] ay by simp
  then have "i = 0" using i(1) e ay by (subst (asm) scan_while.simps) (auto simp: is_delim_def)
  have es: "EOS \<notin> set s" using s(1) by (auto simp: neat_def plain_def)
  have "buf = marked s @ EOS # replicate (31 - length s) EOS"
    using i(2) split_args_spec [OF es, of "[]" "replicate (31 - length s) EOS" "[]"] e \<open>i = 0\<close> cut_neat [OF s(1), of 0]
    by (auto split: if_splits)
  then have b: "term_in u = marked s @ replicate (32 - length s) EOS" using u(1) s(2) by (simp add: empty_rest)
  have "save_line 0 u = Some (u\<lparr>last_term_in := s @ EOS # drop (Suc (length s)) (last_term_in u), cpi := length s\<rparr>)"
    using save_line_neat [OF s(1,2) b, of "last_term_in u" 0] buffers_okD(4) [OF ru(2)] by simp
  with sv have eq: "u\<lparr>last_term_in := l, cpi := n\<rparr> = u\<lparr>last_term_in := s @ EOS # drop (Suc (length s)) (last_term_in u), cpi := length s\<rparr>"
    by (simp only: option.inject)
  from arg_cong [OF eq, of last_term_in] arg_cong [OF eq, of cpi]
  have ln: "l = s @ EOS # drop (Suc (length s)) (last_term_in u)" "n = length s" by simp_all
  have "fresh (term_print [CR, LF, CHR ''>'', CHR ''>''] (u\<lparr>last_term_in := l, cpi := n, term_in := replicate 32 EOS, term_in_idx := 0\<rparr>))"
    using l u buffers_okD(7) [OF ru(2)] by (simp add: fresh_def buffers_ok_def term_print_def)
  with p ln show ?thesis by (simp add: term_print_def)
qed

lemma hooked:
  "(case input t of None \<Rightarrow> t | Some f \<Rightarrow> t\<lparr>hook_calls := hook_calls t @ [(f, c)]\<rparr>) =
     t\<lparr>hook_calls := (case input t of None \<Rightarrow> hook_calls t | Some f \<Rightarrow> hook_calls t @ [(f, c)])\<rparr>"
  by (cases "input t") simp_all

text \<open>The up key and the character after it bring the line back, as if it had been typed.\<close>

lemma up_key:
  assumes t: "fresh t" "cpi t = length s" "last_term_in t = s @ EOS # z" and s: "neat s" "length s \<le> 30" and x: "x \<noteq> DEL" "x \<noteq> UP_KEY_CHAR"
  shows "\<exists>u. keys [UP_KEY_CHAR, x] t = Some u \<and> typing s u \<and> putchar_func u = putchar_func t"
proof -
  note f = t(1) [unfolded fresh_def]
  from f have i: "term_in t = replicate 32 EOS" "term_in_idx t = 0" "term_tmp_idx t \<ge> 0" "discard_char t = 0" "buffers_ok t" by simp_all
  obtain h where 1: "terminal_input UP_KEY_CHAR t = Some (False, t\<lparr>hook_calls := h, discard_char := 1\<rparr>)"
    by (simp add: terminal_input_def hooked receive_def Let_def)
  let ?t = "t\<lparr>hook_calls := h, discard_char := 1\<rparr>"
  obtain k where k: "(case input ?t of None \<Rightarrow> ?t | Some f \<Rightarrow> ?t\<lparr>hook_calls := hook_calls ?t @ [(f, x)]\<rparr>) = ?t\<lparr>hook_calls := k\<rparr>" using hooked by blast
  let ?u = "?t\<lparr>hook_calls := k, discard_char := 0, term_tmp_idx := term_tmp_idx t + 1\<rparr>"
  have "receive x (?t\<lparr>hook_calls := k\<rparr>) = Some (Some UP_KEY_CHAR, ?u)" using x i(3) by (simp add: receive_def Let_def count_char_def)
  then have "terminal_input x ?t = edit UP_KEY_CHAR ?u" unfolding terminal_input_def k by (simp add: Let_def)
  also have "\<dots> = map_option (Pair False) (recall ?u)" using i(3) by (simp add: edit_def)
  finally have 2: "terminal_input x ?t = map_option (Pair False) (recall ?u)" .
  have "buffers_ok ?u" using i(5) by (simp add: buffers_ok_def)
  note r = recall_spec [OF this]
  obtain a y where ay: "s = a # y" "a \<noteq> EOS" using s(1) by (cases s) (auto simp: neat_def plain_def)
  have e: "take (Suc (length s)) (s @ EOS # z) @ EOS # drop (Suc (Suc (length s))) (replicate 32 EOS) = s @ replicate (32 - length s) EOS"
  proof -
    have "32 - length s = Suc (Suc (30 - length s))" using s(2) by simp
    then show ?thesis by simp
  qed
  from r t(2,3) i(1,2) ay obtain v where v: "recall ?u = Some v" "term_in v = s @ replicate (32 - length s) EOS" "term_in_idx v = length s"
    "term_tmp_idx v = int (length s)" "discard_char v = 0" "putchar_func v = putchar_func t"
    using e by simp
  then show ?thesis using 1 2 by (simp add: typing_def)
qed

end
