(* ===== verification/TerminalProps.thy ===== *)
theory TerminalProps
  imports TerminalSession
begin

text \<open>
  The properties of the terminal (\<^verbatim>\<open>src/modules/terminal/terminal.c\<close>): the search for a command, commands that are
  added, the words that a command gets, the safety of whole sessions and the line that the up key brings back.
\<close>

section \<open>A terminal to evaluate on\<close>

definition demo_term :: terminal where
  "demo_term = (boot_terminal [\<lparr>dcmd_func = 0, dcmd_name = [], dcmd_description = [], next_cmd = None\<rparr>])\<lparr>putchar_func := Some 0\<rparr>"

definition demo_run :: commands where
  "demo_run f argv t = (Some f, term_print ''ok'' t)"

lemma command_table_sorted: "sorted_table command_table"
proof -
  have "strcmp (cmd_name (command_table ! i)) (cmd_name (command_table ! j)) < 0" if "i < j" "j < length command_table" for i j
  proof -
    have "j = 1 \<and> i = 0 \<or> j = 2 \<and> (i = 0 \<or> i = 1) \<or> j = 3 \<and> (i = 0 \<or> i = 1 \<or> i = 2)" using that by (auto simp: command_table_def)
    then show ?thesis by (elim disjE conjE) (simp_all add: command_table_def)
  qed
  then show ?thesis by (simp add: sorted_table_def) (simp add: command_table_def)
qed

lemma demo_ok: "buffers_ok demo_term" "cmds_ok command_table demo_term []" "fresh demo_term" "table_ok command_table demo_term"
proof -
  show b: "buffers_ok demo_term" and c: "cmds_ok command_table demo_term []"
    using command_table_sorted by (simp_all add: demo_term_def boot_terminal_def buffers_ok_def cmds_ok_def)
  show "fresh demo_term" using b by (simp add: fresh_def) (simp add: demo_term_def boot_terminal_def)
  show "table_ok command_table demo_term" using c by (auto simp: table_ok_def command_table_def intro!: exI [of _ "[]"])
qed

lemma demo_run_quiet: "quiet demo_run" "polite cmds demo_run"
proof -
  show "quiet demo_run" by (simp add: quiet_def demo_run_def term_print_def)
  have "table_ok cmds (snd (demo_run f argv t)) = table_ok cmds t" for f argv t
    by (rule table_ok_cong) (simp_all add: demo_run_def term_print_def)
  then show "polite cmds demo_run" using quiet_buffers [OF \<open>quiet demo_run\<close>] by (simp add: polite_def)
qed

section \<open>Commands\<close>

text \<open>C37: the binary search in the sorted table and then the list of added commands give what a search from the front of
  all the names gives, and 0, the index of \<^verbatim>\<open>help\<close>, for a name that no command has.\<close>

theorem terminal_search:
  assumes "cmds_ok cmds t xs" and "EOS \<notin> set c"
  shows "search_cmd cmds t c = Some (case position c (all_names cmds t xs) 0 of Some i \<Rightarrow> of_nat i | None \<Rightarrow> 0)"
  by (rule search_cmd_spec [OF assms])

theorem terminal_search_witness: "search_cmd command_table demo_term ''top'' = Some 2 \<and> search_cmd command_table demo_term ''led'' = Some 0"
  using terminal_search [OF demo_ok(2), of "''top''"] terminal_search [OF demo_ok(2), of "''led''"] by (simp add: all_names_def command_table_def)

text \<open>a command that \<^verbatim>\<open>terminal_add_cmd\<close> adds under a new name is the one that the terminal calls for the name, and all other
  names keep their commands.\<close>

theorem terminal_add_found:
  assumes c: "cmds_ok cmds t xs" "cmds \<noteq> []" "length cmds + length xs < 256" "distinct xs"
    and h: "h \<notin> set xs" "h < length (handlers t)" and n: "EOS \<notin> set name" "name \<notin> set (all_names cmds t xs)"
  shows "\<exists>t'. terminal_add_cmd h f name description t = Some t' \<and>
     call_cmd cmds run argv name t' = Some (run f argv (term_print [CR, LF] t')) \<and>
     (EOS \<notin> set other \<longrightarrow> other \<noteq> name \<longrightarrow> call_cmd cmds run argv other t' = Some (run (command_of cmds t xs other) argv (term_print [CR, LF] t')))"
proof -
  have d: "dlist (handlers t) (cmd_head t) xs" using c(1) by (simp add: cmds_ok_def)
  from terminal_add_cmd_spec [OF d c(4) h, of f name description] obtain t' where t': "terminal_add_cmd h f name description t = Some t'" by blast
  from terminal_add_cmd_cmds [OF t' c(1,4) h(1) n(1)] have k: "cmds_ok cmds t' (xs @ [h])"
    "all_names cmds t' (xs @ [h]) = all_names cmds t xs @ [name]" "all_funcs cmds t' (xs @ [h]) = all_funcs cmds t xs @ [f]" by simp_all
  have l: "length (all_names cmds t xs) = length (all_funcs cmds t xs)" "all_funcs cmds t xs \<noteq> []" using c(2) by (simp_all add: all_names_def all_funcs_def)
  have "position name (all_names cmds t xs) 0 = None" using n(2) by (simp add: position_None)
  then have "command_of cmds t' (xs @ [h]) name = f" using k(2,3) l by (simp add: command_of_def position_append nth_append)
  moreover have "command_of cmds t' (xs @ [h]) other = command_of cmds t xs other" if "other \<noteq> name"
    using that k(2,3) l position_less [of other "all_names cmds t xs" 0]
    by (simp add: command_of_def position_append nth_append split: option.split)
  moreover have "length cmds + length (xs @ [h]) \<le> 256" using c(3) by simp
  ultimately show ?thesis using t' call_cmd_spec [OF k(1) c(2)] n(1) by simp
qed

theorem terminal_add_found_witness:
  "\<exists>t'. terminal_add_cmd 0 9 ''led'' ''switch'' demo_term = Some t' \<and>
     call_cmd command_table demo_run [0] ''led'' t' = Some (demo_run 9 [0] (term_print [CR, LF] t')) \<and>
     (EOS \<notin> set ''ver'' \<longrightarrow> ''ver'' \<noteq> ''led'' \<longrightarrow> call_cmd command_table demo_run [0] ''ver'' t' =
        Some (demo_run (command_of command_table demo_term [] ''ver'') [0] (term_print [CR, LF] t')))"
proof (rule terminal_add_found [OF demo_ok(2)])
  show "command_table \<noteq> []" "length command_table + length ([] :: nat list) < 256" by (simp_all add: command_table_def)
  show "0 < length (handlers demo_term)" by (simp add: demo_term_def boot_terminal_def)
  show "''led'' \<notin> set (all_names command_table demo_term [])" by (simp add: all_names_def command_table_def)
qed simp_all

section \<open>Lines\<close>

text \<open>C36: \<^verbatim>\<open>terminal_process\<close> splits the line into its words, at spaces, tabs and line ends, passes them to the command that the first
  one names and returns what the command returns, with the line cleared for the next one.\<close>

theorem terminal_dispatch:
  assumes ok: "buffers_ok t" and c: "cmds_ok cmds t xs" "cmds \<noteq> []" "length cmds + length xs \<le> 256"
    and run: "\<forall>f argv u. buffers_ok u \<longrightarrow> buffers_ok (snd (run f argv u))"
    and w: "words_of (line_of t) = name # args" "length args < 6"
  shows "\<exists>argv buf t'. map (c_string buf) argv = map Some (name # args) \<and>
     terminal_process cmds run t = Some (fst (run (command_of cmds t xs name) argv (term_print [CR, LF] (t\<lparr>term_in := buf\<rparr>))), t') \<and>
     term_in t' = replicate 32 EOS \<and> term_in_idx t' = 0"
proof -
  have r: "\<And>f argv u. buffers_ok u \<Longrightarrow> buffers_ok (snd (run f argv u))" using run by blast
  have "length args \<le> 5" using w(2) by simp
  from terminal_process_calls [where run = run, OF ok c w(1) this r] obtain argv buf r u l n where
    a: "map (c_string buf) argv = map Some (name # args)"
    and u: "run (command_of cmds t xs name) argv (term_print [CR, LF] (t\<lparr>term_in := buf\<rparr>)) = (r, u)"
    and p: "terminal_process cmds run t = Some (r, term_print [CR, LF, CHR ''>'', CHR ''>''] (u\<lparr>last_term_in := l, cpi := n, term_in := replicate 32 EOS, term_in_idx := 0\<rparr>))"
    by blast
  let ?t' = "term_print [CR, LF, CHR ''>'', CHR ''>''] (u\<lparr>last_term_in := l, cpi := n, term_in := replicate 32 EOS, term_in_idx := 0\<rparr>)"
  have "term_in ?t' = replicate 32 EOS" "term_in_idx ?t' = 0" by (simp_all add: term_print_def)
  with a u p show ?thesis by (metis fst_conv)
qed

definition typed_demo :: terminal where
  "typed_demo = demo_term\<lparr>term_in := ''  top   all'' @ replicate 21 EOS\<rparr>"

lemma typed_demo_ok: "buffers_ok typed_demo" "cmds_ok command_table typed_demo []" "words_of (line_of typed_demo) = [''top'', ''all'']"
proof -
  show "buffers_ok typed_demo" using demo_ok(1) by (simp add: typed_demo_def buffers_ok_def)
  show "cmds_ok command_table typed_demo []" using demo_ok(2) by (simp add: typed_demo_def cmds_ok_def)
  show "words_of (line_of typed_demo) = [''top'', ''all'']"
    by (simp add: typed_demo_def words_of.simps [of "_ # _"] is_delim_def numeral_eq_Suc)
qed

theorem terminal_dispatch_witness:
  "\<exists>argv buf t'. map (c_string buf) argv = map Some (''top'' # [''all'']) \<and>
     terminal_process command_table demo_run typed_demo =
       Some (fst (demo_run (command_of command_table typed_demo [] ''top'') argv (term_print [CR, LF] (typed_demo\<lparr>term_in := buf\<rparr>))), t') \<and>
     term_in t' = replicate 32 EOS \<and> term_in_idx t' = 0"
  by (rule terminal_dispatch [OF typed_demo_ok(1,2)])
    (use typed_demo_ok(3) quiet_buffers [OF demo_run_quiet(1)] in \<open>auto simp: command_table_def\<close>)

section \<open>Sessions\<close>

text \<open>C35: in every state that typing, processed lines and added commands can reach, the terminal accepts every character without
  leaving its buffers, and \<^verbatim>\<open>terminal_process\<close> on a line that it completes returns, exactly unless the line has more than six words: these
  overrun \<^verbatim>\<open>argv\<close>.\<close>

theorem terminal_session_safe:
  assumes "session cmds run hs t" and "sorted_table cmds" "cmds \<noteq> []" "polite cmds run"
  shows "length (term_in t) = 32 \<and> term_in_idx t \<le> 30 \<and> cpi t \<le> 30 \<and>
     (\<exists>r u. terminal_input c t = Some (r, u) \<and> (r \<longrightarrow> (terminal_process cmds run u = None \<longleftrightarrow> 6 < length (words_of (line_of u)))))"
proof -
  note s = session_ok [OF assms]
  from session_progress [OF conjunct1 [OF s] conjunct2 [OF s] assms(4)] s show ?thesis by (simp add: term_ok_def buffers_ok_def)
qed

theorem terminal_session_safe_witness:
  "\<exists>t. session command_table demo_run [] t \<and> length (term_in t) = 32 \<and> term_in_idx t \<le> 30 \<and> cpi t \<le> 30 \<and>
     (\<exists>r u. terminal_input CR t = Some (r, u) \<and> (r \<longrightarrow> (terminal_process command_table demo_run u = None \<longleftrightarrow> 6 < length (words_of (line_of u)))))"
proof -
  from session.power_on [OF terminal_init_spec [of 0 "[]"]] obtain t where t: "session command_table demo_run [] t" by blast
  have "command_table \<noteq> []" by (simp add: command_table_def)
  from t terminal_session_safe [OF t command_table_sorted this demo_run_quiet(2), of CR] show ?thesis by (intro exI [of _ t]) simp
qed

text \<open>a line with single spaces between its words that is typed, entered and processed comes back with the up key (and the
  character that follows it): entering it again gives \<^verbatim>\<open>terminal_process\<close> the same buffer.\<close>

theorem terminal_recall:
  assumes t: "fresh t" "table_ok cmds t" and run: "quiet run"
    and s: "neat s" "length s \<le> 30" "length (words_of s) \<le> 6" and x: "x \<noteq> DEL" "x \<noteq> UP_KEY_CHAR"
  shows "\<exists>t1 u r t2 t3 v. keys s t = Some t1 \<and> terminal_input CR t1 = Some (True, u) \<and> line_of u = s \<and>
     terminal_process cmds run u = Some (r, t2) \<and> keys [UP_KEY_CHAR, x] t2 = Some t3 \<and> terminal_input CR t3 = Some (True, v) \<and> term_in v = term_in u"
proof -
  have p: "putchar_func t \<noteq> None" "typed [] t t" using t(1) by (simp_all add: fresh_def buffers_ok_def typed_def typing_def same_cmds_def)
  from keys_typed [OF p, of s] s(1,2) obtain t1 where t1: "keys s t = Some t1" "typed s t t1" by (auto simp: neat_def)
  have p1: "typing s t1" "putchar_func t1 \<noteq> None" "same_cmds t t1" using t1(2) p(1) by (simp_all add: typed_def)
  from terminal_input_return [OF p1(1,2) s(2)] obtain u where u: "terminal_input CR t1 = Some (True, u)" "same_cmds t1 u"
    "term_in u = s @ replicate (32 - length s) EOS" "putchar_func u \<noteq> None" "term_tmp_idx u = 0" "discard_char u = 0" by blast
  note tu = same_cmds_trans [OF p1(3) u(2)]
  have "buffers_ok u" using t(1) tu u(3,4) s(2) by (simp add: fresh_def buffers_ok_def same_cmds_def nth_append)
  from process_neat [OF s this u(3,5,6) same_cmds_table [OF tu t(2)] run] obtain r t2 z where
    t2: "terminal_process cmds run u = Some (r, t2)" "fresh t2" "cpi t2 = length s" "last_term_in t2 = s @ EOS # z" by blast
  from up_key [OF t2(2-4) s(1,2) x] obtain t3 where t3: "keys [UP_KEY_CHAR, x] t2 = Some t3" "typing s t3" "putchar_func t3 = putchar_func t2" by blast
  have "putchar_func t3 \<noteq> None" using t2(2) t3(3) by (simp add: fresh_def buffers_ok_def)
  from terminal_input_return [OF t3(2) this s(2)] obtain v where "terminal_input CR t3 = Some (True, v)" "term_in v = term_in u" using u(3) by auto
  moreover have "line_of u = s" unfolding u(3) using s(1,2) by (rule line_of_typed)
  ultimately show ?thesis using t1(1) u(1) t2(1) t3(1) by blast
qed

lemma demo_neat: "neat ''ver x''" "words_of ''ver x'' = [''ver'', ''x'']"
proof -
  show "neat ''ver x''" by (auto simp: neat_def plain_def less_Suc_eq)
  show "words_of ''ver x'' = [''ver'', ''x'']" by (simp add: words_of.simps [of "_ # _"] is_delim_def)
qed

theorem terminal_recall_witness:
  "\<exists>t1 u r t2 t3 v. keys ''ver x'' demo_term = Some t1 \<and> terminal_input CR t1 = Some (True, u) \<and> line_of u = ''ver x'' \<and>
     terminal_process command_table demo_run u = Some (r, t2) \<and> keys [UP_KEY_CHAR, CHR ''H''] t2 = Some t3 \<and>
     terminal_input CR t3 = Some (True, v) \<and> term_in v = term_in u"
  by (rule terminal_recall [OF demo_ok(3,4) demo_run_quiet(1) demo_neat(1)]) (simp_all add: demo_neat(2))

end
