(* ===== verification/Device.thy ===== *)
theory Device
  imports Terminal
begin

text \<open>
  \<^verbatim>\<open>src/brtos/device.c\<close>: the table of the open devices. The file \<^verbatim>\<open>OSDevConfig.h\<close> with the drivers belongs to the
  application: the names of the device types, the list of the drivers, the size of the table and the drivers themselves are parameters.
  A name is a pointer, and the strings that pointers lead to are the argument \<open>str\<close> of the operations, since the table
  keeps the pointers and not the characters.
\<close>

section \<open>Data\<close>

record OS_Device_t =
  dev_name :: ptr
  device_type :: int
  base_address :: uint32_t
  DriverData :: ptr

record OS_Device_Control_t =
  device :: ptr
  device_number :: int
  api :: ptr

record device_api_t =
  api_write :: nat
  api_read :: nat
  api_set :: nat
  api_get :: nat

record driver_installer_t =
  drv_type :: int
  drv_func :: ptr

record devices =
  BRTOSDevices :: "OS_Device_t list"
  BRTOSDevControl :: "OS_Device_Control_t list"

text \<open>What \<^verbatim>\<open>OSDevConfig.h\<close> defines. \<open>END_TYPE\<close> is the number of the names.\<close>

record device_config =
  MAX_INSTALLED_DEVICES :: nat
  dev_types :: "string list"
  OSInstalledDevices :: "driver_installer_t list"

text \<open>The call of a driver's open function with a handle, the index in the table, and the option.\<close>

type_synonym open_call = "nat \<Rightarrow> nat \<Rightarrow> ptr \<Rightarrow> devices \<Rightarrow> devices"

definition boot_devices :: "device_config \<Rightarrow> devices" where
  "boot_devices C = \<lparr>
     BRTOSDevices = replicate (MAX_INSTALLED_DEVICES C) \<lparr>dev_name = None, device_type = 0, base_address = 0, DriverData = None\<rparr>,
     BRTOSDevControl = replicate (MAX_INSTALLED_DEVICES C) \<lparr>device = None, device_number = 0, api = None\<rparr>\<rparr>"

section \<open>Opening a device\<close>

fun strncmp :: "string \<Rightarrow> string \<Rightarrow> nat \<Rightarrow> int" where
  "strncmp _ _ 0 = 0"
| "strncmp [] [] (Suc n) = 0"
| "strncmp [] (d # ds) (Suc n) = - int (of_char d)"
| "strncmp (c # cs) [] (Suc n) = int (of_char c)"
| "strncmp (c # cs) (d # ds) (Suc n) = (if c = d then strncmp cs ds n else int (of_char c) - int (of_char d))"

text \<open>The length of a name less one, a number of type \<^verbatim>\<open>size_t\<close>.\<close>

definition name_length :: "string \<Rightarrow> nat" where
  "name_length s = unat (of_nat (length s) - 1 :: uint32_t)"

text \<open>The first loop: the entry with an equal name. The second: the first free entry.\<close>

fun find_open :: "(nat \<Rightarrow> string) \<Rightarrow> string \<Rightarrow> OS_Device_t list \<Rightarrow> nat \<Rightarrow> nat option" where
  "find_open str s [] index = None"
| "find_open str s (x # xs) index = (case dev_name x of
     Some p \<Rightarrow> if strcmp s (str p) = 0 then Some index else find_open str s xs (Suc index)
   | None \<Rightarrow> find_open str s xs (Suc index))"

fun find_free :: "OS_Device_t list \<Rightarrow> nat \<Rightarrow> nat option" where
  "find_free [] index = None"
| "find_free (x # xs) index = (if dev_name x = None then Some index else find_free xs (Suc index))"

text \<open>The number in the name, as an \<^verbatim>\<open>int8_t\<close>: the first digit, or the character behind the letters of a port.\<close>

definition is_digit :: "char \<Rightarrow> bool" where
  "is_digit c \<longleftrightarrow> 48 \<le> (of_char c :: nat) \<and> (of_char c :: nat) \<le> 57"

definition ascii_number :: "string \<Rightarrow> int" where
  "ascii_number s = wrap8 ((case dropWhile (\<lambda>c. \<not> is_digit c) s of [] \<Rightarrow> 0 | c # _ \<Rightarrow> int (of_char c)) - 48)"

datatype number_result = No_Device | Number int

definition find_number :: "string \<Rightarrow> number_result option" where
  "find_number s =
    (if ascii_number s < 0
     then if strncmp s ''GPIO'' (name_length s) \<noteq> 0 then Some No_Device
       else map_option (\<lambda>c. Number (wrap8 (int (of_char c)))) (rd (s @ [EOS]) 4)
     else Some (Number (ascii_number s)))"

fun find_type :: "string \<Rightarrow> string list \<Rightarrow> nat \<Rightarrow> nat" where
  "find_type s [] idx = idx"
| "find_type s (x # xs) idx = (if strncmp s x (name_length s) = 0 then idx else find_type s xs (Suc idx))"

fun open_drivers :: "open_call \<Rightarrow> int \<Rightarrow> nat \<Rightarrow> ptr \<Rightarrow> driver_installer_t list \<Rightarrow> devices \<Rightarrow> devices option" where
  "open_drivers call type index option [] d = Some d"
| "open_drivers call type index option (x # xs) d = (case drv_func x of
     Some f \<Rightarrow> if drv_type x = type
       then do {
         ds \<leftarrow> upd (BRTOSDevices d) index (\<lambda>b. b\<lparr>device_type := drv_type x\<rparr>);
         open_drivers call type index option xs (call f index option (d\<lparr>BRTOSDevices := ds\<rparr>)) }
       else open_drivers call type index option xs d
   | None \<Rightarrow> open_drivers call type index option xs d)"

definition OSDevOpen :: "device_config \<Rightarrow> open_call \<Rightarrow> (nat \<Rightarrow> string) \<Rightarrow> ptr \<Rightarrow> ptr \<Rightarrow> devices \<Rightarrow> (ptr \<times> devices) option" where
  "OSDevOpen C call str name option d = (case name of
     None \<Rightarrow> Some (None, d)
   | Some dname \<Rightarrow> (case find_open str (str dname) (BRTOSDevices d) 0 of
       Some index \<Rightarrow> Some (Some index, d)
     | None \<Rightarrow> (case find_free (BRTOSDevices d) 0 of
         None \<Rightarrow> Some (None, d)
       | Some index \<Rightarrow> do {
           number \<leftarrow> find_number (str dname);
           case number of
             No_Device \<Rightarrow> Some (None, d)
           | Number n \<Rightarrow> do {
               let type = find_type (str dname) (dev_types C) 0;
               ds \<leftarrow> upd (BRTOSDevices d) index (\<lambda>b. b\<lparr>dev_name := Some dname, DriverData := option\<rparr>);
               cs \<leftarrow> upd (BRTOSDevControl d) index (\<lambda>c. c\<lparr>device := Some index, device_number := wrap8 (n mod 256)\<rparr>);
               d \<leftarrow> open_drivers call (int type) index option (OSInstalledDevices C) (d\<lparr>BRTOSDevices := ds, BRTOSDevControl := cs\<rparr>);
               Some (Some index, d) } })))"

section \<open>Calls through the handle\<close>

text \<open>\<open>apis\<close> leads from the pointer in the handle to the functions of the driver, and \<open>call\<close> calls one of them.\<close>

definition OSDevWrite :: "(nat \<Rightarrow> device_api_t) \<Rightarrow> (nat \<Rightarrow> ptr \<Rightarrow> ptr \<Rightarrow> nat \<Rightarrow> devices \<Rightarrow> nat \<times> devices) \<Rightarrow> ptr \<Rightarrow> ptr \<Rightarrow> nat \<Rightarrow> devices \<Rightarrow> (nat \<times> devices) option" where
  "OSDevWrite apis call dev string bytes d = do { c \<leftarrow> deref (BRTOSDevControl d) dev; a \<leftarrow> api c; Some (call (api_write (apis a)) dev string bytes d) }"

definition OSDevRead :: "(nat \<Rightarrow> device_api_t) \<Rightarrow> (nat \<Rightarrow> ptr \<Rightarrow> ptr \<Rightarrow> nat \<Rightarrow> devices \<Rightarrow> nat \<times> devices) \<Rightarrow> ptr \<Rightarrow> ptr \<Rightarrow> nat \<Rightarrow> devices \<Rightarrow> (nat \<times> devices) option" where
  "OSDevRead apis call dev string bytes d = do { c \<leftarrow> deref (BRTOSDevControl d) dev; a \<leftarrow> api c; Some (call (api_read (apis a)) dev string bytes d) }"

definition OSDevSet :: "(nat \<Rightarrow> device_api_t) \<Rightarrow> (nat \<Rightarrow> ptr \<Rightarrow> uint32_t \<Rightarrow> uint32_t \<Rightarrow> devices \<Rightarrow> nat \<times> devices) \<Rightarrow> ptr \<Rightarrow> uint32_t \<Rightarrow> uint32_t \<Rightarrow> devices \<Rightarrow> (nat \<times> devices) option" where
  "OSDevSet apis call dev request v d = do { c \<leftarrow> deref (BRTOSDevControl d) dev; a \<leftarrow> api c; Some (call (api_set (apis a)) dev request v d) }"

definition OSDevGet :: "(nat \<Rightarrow> device_api_t) \<Rightarrow> (nat \<Rightarrow> ptr \<Rightarrow> uint32_t \<Rightarrow> devices \<Rightarrow> nat \<times> devices) \<Rightarrow> ptr \<Rightarrow> uint32_t \<Rightarrow> devices \<Rightarrow> (nat \<times> devices) option" where
  "OSDevGet apis call dev request d = do { c \<leftarrow> deref (BRTOSDevControl d) dev; a \<leftarrow> api c; Some (call (api_get (apis a)) dev request d) }"

section \<open>The table of names\<close>

lemma name_length_Cons: "length s < 2 ^ 32 \<Longrightarrow> name_length (c # s) = length s"
  by (simp add: name_length_def unat_of_nat take_bit_nat_eq_self)

text \<open>The strings that are compared end at their first null character.\<close>

definition c_names :: "(nat \<Rightarrow> string) \<Rightarrow> bool" where
  "c_names str \<longleftrightarrow> (\<forall>p. EOS \<notin> set (str p))"

lemma strcmp_names: "c_names str \<Longrightarrow> strcmp (str p) (str q) = 0 \<longleftrightarrow> str p = str q"
  by (simp add: c_names_def strcmp_0)

lemma find_open_None: "find_open str s xs i = None \<longleftrightarrow> (\<forall>x \<in> set xs. \<forall>p. dev_name x = Some p \<longrightarrow> strcmp s (str p) \<noteq> 0)"
  by (induction xs arbitrary: i) (auto split: option.splits)

lemma find_open_Some:
  "find_open str s xs i = Some j \<Longrightarrow> i \<le> j \<and> j < i + length xs \<and> (\<exists>p. dev_name (xs ! (j - i)) = Some p \<and> strcmp s (str p) = 0)"
proof (induction xs arbitrary: i)
  case (Cons x xs)
  have "?case" if n: "find_open str s xs (Suc i) = Some j"
  proof -
    from Cons.IH [OF n] have "j - i = Suc (j - Suc i)" by auto
    with Cons.IH [OF n] show ?thesis by auto
  qed
  with Cons.prems show ?case by (auto split: option.splits if_splits)
qed simp

lemma find_open_first:
  assumes "j < length xs" "dev_name (xs ! j) = Some p" "strcmp s (str p) = 0"
    and "\<forall>k < j. \<forall>q. dev_name (xs ! k) = Some q \<longrightarrow> strcmp s (str q) \<noteq> 0"
  shows "find_open str s xs i = Some (i + j)"
  using assms
proof (induction xs arbitrary: i j)
  case (Cons x xs)
  show ?case
  proof (cases j)
    case (Suc k)
    have "\<forall>q. dev_name x = Some q \<longrightarrow> strcmp s (str q) \<noteq> 0" using Cons.prems(4) Suc by force
    moreover have "\<forall>l < k. \<forall>q. dev_name (xs ! l) = Some q \<longrightarrow> strcmp s (str q) \<noteq> 0" using Cons.prems(4) Suc by force
    ultimately show ?thesis using Cons.IH [of k "Suc i"] Cons.prems Suc by (auto split: option.split)
  qed (use Cons.prems in auto)
qed simp

lemma find_free_Some:
  "find_free xs i = Some j \<Longrightarrow> i \<le> j \<and> j < i + length xs \<and> dev_name (xs ! (j - i)) = None \<and> (\<forall>k < j - i. dev_name (xs ! k) \<noteq> None)"
proof (induction xs arbitrary: i)
  case (Cons x xs)
  show ?case
  proof (cases "dev_name x = None")
    case False
    with Cons.prems Cons.IH [of "Suc i"] have ih: "Suc i \<le> j" "j < Suc i + length xs" "dev_name (xs ! (j - Suc i)) = None" "\<forall>k < j - Suc i. dev_name (xs ! k) \<noteq> None"
      by auto
    then have e: "j - i = Suc (j - Suc i)" by simp
    have "dev_name ((x # xs) ! k) \<noteq> None" if "k < j - i" for k using that ih(4) False e by (cases k) auto
    with ih e show ?thesis by auto
  qed (use Cons.prems in auto)
qed simp

lemma find_free_None: "find_free xs i = None \<longleftrightarrow> (\<forall>x \<in> set xs. dev_name x \<noteq> None)"
  by (induction xs arbitrary: i) auto

section \<open>Drivers\<close>

text \<open>A driver's open function fills in the pointer to its functions in the handle it gets, and leaves the names and numbers of
  all devices as they are.\<close>

definition fills_api :: "open_call \<Rightarrow> bool" where
  "fills_api call \<longleftrightarrow> (\<forall>f i opt d. let e = call f i opt d in
     map dev_name (BRTOSDevices e) = map dev_name (BRTOSDevices d) \<and> map device_number (BRTOSDevControl e) = map device_number (BRTOSDevControl d))"

lemma open_drivers_spec:
  assumes c: "fills_api call"
  shows "i < length (BRTOSDevices d) \<Longrightarrow> \<exists>e. open_drivers call ty i opt xs d = Some e \<and>
     map dev_name (BRTOSDevices e) = map dev_name (BRTOSDevices d) \<and> map device_number (BRTOSDevControl e) = map device_number (BRTOSDevControl d)"
proof (induction xs arbitrary: d)
  case (Cons x xs)
  let ?d = "d\<lparr>BRTOSDevices := (BRTOSDevices d)[i := (BRTOSDevices d ! i)\<lparr>device_type := drv_type x\<rparr>]\<rparr>"
  have n: "map dev_name (BRTOSDevices ?d) = map dev_name (BRTOSDevices d)"
    using Cons.prems by (intro nth_equalityI) (auto simp: nth_list_update)
  show ?case
  proof (cases "drv_func x \<noteq> None \<and> drv_type x = ty")
    case True
    then obtain f where f: "drv_func x = Some f" "drv_type x = ty" by auto
    let ?e = "call f i opt ?d"
    have e: "map dev_name (BRTOSDevices ?e) = map dev_name (BRTOSDevices d)" "map device_number (BRTOSDevControl ?e) = map device_number (BRTOSDevControl d)"
      using c n unfolding fills_api_def Let_def by simp_all
    then have "i < length (BRTOSDevices ?e)" using Cons.prems by (metis length_map)
    from Cons.IH [OF this] e Cons.prems f show ?thesis by simp
  next
    case False
    with Cons show ?thesis by (cases "drv_func x") auto
  qed
qed simp

text \<open>Without a driver for the type the handle stays as it is.\<close>

lemma open_drivers_none: "\<forall>x \<in> set xs. drv_type x = ty \<longrightarrow> drv_func x = None \<Longrightarrow> open_drivers call ty i opt xs d = Some d"
  by (induction xs) (auto split: option.split)

section \<open>The open function on every branch\<close>

abbreviation (input) dev_names :: "devices \<Rightarrow> ptr list" where
  "dev_names d \<equiv> map dev_name (BRTOSDevices d)"

definition devs_ok :: "device_config \<Rightarrow> devices \<Rightarrow> bool" where
  "devs_ok C d \<longleftrightarrow> length (BRTOSDevices d) = MAX_INSTALLED_DEVICES C \<and> length (BRTOSDevControl d) = MAX_INSTALLED_DEVICES C"

lemma OSDevOpen_again:
  assumes "c_names str" "j < length (BRTOSDevices d)" "dev_names d ! j = Some q" "str q = str p"
  shows "\<exists>i. OSDevOpen C call str (Some p) opt d = Some (Some i, d)"
proof -
  have "find_open str (str p) (BRTOSDevices d) 0 \<noteq> None"
    unfolding find_open_None using assms strcmp_names [of str p q] by (metis nth_map nth_mem)
  then show ?thesis by (auto simp: OSDevOpen_def)
qed

lemma OSDevOpen_new:
  assumes ok: "devs_ok C d" and c: "fills_api call" and n: "find_open str (str p) (BRTOSDevices d) 0 = None"
    and i: "find_free (BRTOSDevices d) 0 = Some i" and k: "find_number (str p) = Some (Number k)"
  shows "\<exists>e. OSDevOpen C call str (Some p) opt d = Some (Some i, e) \<and> devs_ok C e \<and> dev_names e = (dev_names d)[i := Some p] \<and>
     map device_number (BRTOSDevControl e) = (map device_number (BRTOSDevControl d))[i := wrap8 (k mod 256)]"
proof -
  have il: "i < length (BRTOSDevices d)" "i < length (BRTOSDevControl d)" using find_free_Some [OF i] ok by (auto simp: devs_ok_def)
  let ?d = "d\<lparr>BRTOSDevices := (BRTOSDevices d)[i := (BRTOSDevices d ! i)\<lparr>dev_name := Some p, DriverData := opt\<rparr>],
      BRTOSDevControl := (BRTOSDevControl d)[i := (BRTOSDevControl d ! i)\<lparr>device := Some i, device_number := wrap8 (k mod 256)\<rparr>]\<rparr>"
  have "i < length (BRTOSDevices ?d)" using il by simp
  from open_drivers_spec [OF c this, of "int (find_type (str p) (dev_types C) 0)" opt "OSInstalledDevices C"] obtain e where
    e: "open_drivers call (int (find_type (str p) (dev_types C) 0)) i opt (OSInstalledDevices C) ?d = Some e"
      "dev_names e = dev_names ?d" "map device_number (BRTOSDevControl e) = map device_number (BRTOSDevControl ?d)" by blast
  have l: "length (BRTOSDevices e) = length (BRTOSDevices d)" "length (BRTOSDevControl e) = length (BRTOSDevControl d)"
    using arg_cong [OF e(2), of length] arg_cong [OF e(3), of length] by simp_all
  have "OSDevOpen C call str (Some p) opt d = Some (Some i, e)" using n i k il e(1) by (simp add: OSDevOpen_def Let_def)
  with e l ok show ?thesis by (simp add: map_update devs_ok_def)
qed

text \<open>What a call that returns a handle has done.\<close>

lemma OSDevOpen_handle:
  assumes ok: "devs_ok C d" and c: "fills_api call" and o: "OSDevOpen C call str (Some p) opt d = Some (Some i, e)"
  shows "find_open str (str p) (BRTOSDevices d) 0 = Some i \<and> e = d \<or>
     find_open str (str p) (BRTOSDevices d) 0 = None \<and> find_free (BRTOSDevices d) 0 = Some i \<and> devs_ok C e \<and> dev_names e = (dev_names d)[i := Some p]"
proof (cases "find_open str (str p) (BRTOSDevices d) 0")
  case None
  with o obtain j n where j: "find_free (BRTOSDevices d) 0 = Some j" "find_number (str p) = Some (Number n)"
    by (auto simp: OSDevOpen_def split: option.splits bind_splits number_result.splits)
  from OSDevOpen_new [OF ok c None j, of opt] o None j show ?thesis by auto
qed (use o in \<open>auto simp: OSDevOpen_def\<close>)

text \<open>The name of the entry is the name of the device, and the next search for the name ends at the entry.\<close>

lemma OSDevOpen_entry:
  assumes ok: "devs_ok C d" and c: "fills_api call" and s: "c_names str" and o: "OSDevOpen C call str (Some p) opt d = Some (Some i, e)"
  shows "i < length (BRTOSDevices e) \<and> (\<exists>r. dev_names e ! i = Some r \<and> str r = str p) \<and> find_open str (str p) (BRTOSDevices e) 0 = Some i"
  using OSDevOpen_handle [OF ok c o]
proof (elim disjE conjE)
  assume f: "find_open str (str p) (BRTOSDevices d) 0 = Some i" "e = d"
  with find_open_Some [OF f(1)] s show ?thesis by (auto simp: strcmp_names)
next
  assume f: "find_open str (str p) (BRTOSDevices d) 0 = None" "find_free (BRTOSDevices d) 0 = Some i" "dev_names e = (dev_names d)[i := Some p]"
  have l: "length (BRTOSDevices e) = length (BRTOSDevices d)" using arg_cong [OF f(3), of length] by simp
  have i: "i < length (BRTOSDevices e)" using find_free_Some [OF f(2)] l by simp
  have ni: "dev_name (BRTOSDevices e ! i) = Some p" using f(3) i l by (metis length_map nth_list_update_eq nth_map)
  have "strcmp (str p) (str q) \<noteq> 0" if k: "k < i" "dev_name (BRTOSDevices e ! k) = Some q" for k q
  proof -
    have "dev_name (BRTOSDevices e ! k) = dev_names e ! k" using k(1) i by simp
    also have "\<dots> = dev_name (BRTOSDevices d ! k)" unfolding f(3) using k(1) i l by simp
    finally show ?thesis using f(1) k i l unfolding find_open_None by (metis nth_mem less_trans)
  qed
  with find_open_first [of i "BRTOSDevices e" p "str p" str 0] i ni strcmp_names [OF s, of p p] have "find_open str (str p) (BRTOSDevices e) 0 = Some i" by simp
  with i ni show ?thesis by simp
qed

text \<open>An open device keeps its entry.\<close>

lemma OSDevOpen_keeps:
  assumes ok: "devs_ok C d" and c: "fills_api call" and o: "OSDevOpen C call str (Some p) opt d = Some (Some i, e)"
    and k: "k < length (BRTOSDevices d)" "dev_names d ! k = Some r"
  shows "dev_names e ! k = Some r"
  using OSDevOpen_handle [OF ok c o]
proof (elim disjE conjE)
  assume f: "find_free (BRTOSDevices d) 0 = Some i" "dev_names e = (dev_names d)[i := Some p]"
  have "k \<noteq> i" using find_free_Some [OF f(1)] k by auto
  then show ?thesis unfolding f(2) using k by simp
qed (use k in simp)

end
