(* ===== verification/DeviceProps.thy ===== *)
theory DeviceProps
  imports Device
begin

text \<open>
  The properties of the device table (\<^verbatim>\<open>src/brtos/device.c\<close>): handles and names, the number that a device gets, and
  devices without a driver.
\<close>

section \<open>Drivers to evaluate on\<close>

definition demo_devices :: device_config where
  "demo_devices = \<lparr>MAX_INSTALLED_DEVICES = 3, dev_types = [''UART'', ''SPI'', ''I2C'', ''GPIO''],
     OSInstalledDevices = [\<lparr>drv_type = 0, drv_func = Some 0\<rparr>, \<lparr>drv_type = 2, drv_func = Some 1\<rparr>]\<rparr>"

definition demo_open :: open_call where
  "demo_open f i opt d = d\<lparr>BRTOSDevControl := (BRTOSDevControl d)[i := (BRTOSDevControl d ! i)\<lparr>api := Some f\<rparr>]\<rparr>"

definition demo_str :: "nat \<Rightarrow> string" where
  "demo_str p = (if p = 0 then ''UART0'' else if p = 1 then ''UART10'' else if p = 2 then ''I2C1'' else ''GPIOB'')"

lemma demo_open_fills: "fills_api demo_open"
proof -
  have "map device_number (xs[i := (xs ! i)\<lparr>api := a\<rparr>]) = map device_number xs" for xs :: "OS_Device_Control_t list" and i a
    by (cases "i < length xs") (auto simp: map_update intro: nth_equalityI simp: nth_list_update)
  then show ?thesis by (simp add: fills_api_def demo_open_def)
qed

lemma demo_names: "c_names demo_str"
  by (simp add: c_names_def demo_str_def)

lemma demo_devs_ok: "devs_ok demo_devices (boot_devices demo_devices)"
  by (simp add: devs_ok_def boot_devices_def)

section \<open>Handles\<close>

text \<open>C39: two calls of \<^verbatim>\<open>OSDevOpen\<close> that succeed give the same handle exactly if the names are equal, as strings and not only as
  pointers, and opening a device again changes nothing.\<close>

theorem dev_handles:
  assumes ok: "devs_ok C d" and c: "fills_api call" and s: "c_names str"
    and o: "OSDevOpen C call str (Some p) o1 d = Some (Some i, d1)" "OSDevOpen C call str (Some q) o2 d1 = Some (Some j, d2)"
  shows "(i = j \<longleftrightarrow> str p = str q) \<and> (str p = str q \<longrightarrow> d2 = d1)"
proof -
  note e = OSDevOpen_entry [OF ok c s o(1)]
  have ok1: "devs_ok C d1" using OSDevOpen_handle [OF ok c o(1)] ok by blast
  show ?thesis
  proof (cases "str p = str q")
    case True
    with e o(2) show ?thesis by (simp add: OSDevOpen_def)
  next
    case False
    obtain r where r: "dev_names d1 ! i = Some r" "str r = str p" using e by blast
    have "dev_names d2 ! i = Some r" using OSDevOpen_keeps [OF ok1 c o(2) _ r(1)] e by blast
    moreover from OSDevOpen_entry [OF ok1 c s o(2)] obtain u where "dev_names d2 ! j = Some u" "str u = str q" by blast
    ultimately show ?thesis using r(2) False by auto
  qed
qed

lemma demo_lengths: "name_length ''UART10'' = Suc (Suc (Suc (Suc (Suc 0))))" "name_length ''GPIOB'' = Suc (Suc (Suc (Suc 0)))" "name_length ''LCD'' = Suc (Suc 0)"
  by (simp_all add: name_length_Cons)

lemma demo_numbers: "find_number ''UART0'' = Some (Number 0)" "find_number ''UART10'' = Some (Number 1)" "find_number ''I2C0'' = Some (Number 2)"
    "find_number ''I2C1'' = Some (Number 2)" "find_number ''GPIOB'' = Some (Number 66)" "find_number ''LCD'' = Some No_Device"
  by (simp_all add: find_number_def ascii_number_def is_digit_def wrap8_def demo_lengths)

definition demo_d1 :: devices where
  "demo_d1 = snd (the (OSDevOpen demo_devices demo_open demo_str (Some 0) None (boot_devices demo_devices)))"

theorem dev_handles_witness:
  "\<exists>i j d2. OSDevOpen demo_devices demo_open demo_str (Some 0) None (boot_devices demo_devices) = Some (Some i, demo_d1) \<and>
     OSDevOpen demo_devices demo_open demo_str (Some 3) None demo_d1 = Some (Some j, d2) \<and> i \<noteq> j"
proof -
  have 1: "find_open demo_str (demo_str 0) (BRTOSDevices (boot_devices demo_devices)) 0 = None" "find_free (BRTOSDevices (boot_devices demo_devices)) 0 = Some 0"
    by (simp_all add: boot_devices_def demo_devices_def eval_nat_numeral)
  have "demo_str 0 = ''UART0''" by (simp add: demo_str_def)
  from OSDevOpen_new [OF demo_devs_ok demo_open_fills 1, of 0 None, unfolded this, OF demo_numbers(1)] obtain e where
    e: "OSDevOpen demo_devices demo_open demo_str (Some 0) None (boot_devices demo_devices) = Some (Some 0, e)" "devs_ok demo_devices e"
      "dev_names e = (dev_names (boot_devices demo_devices))[0 := Some 0]" by auto
  have d1: "demo_d1 = e" using e(1) by (simp add: demo_d1_def)
  from e(3) obtain x y z where x: "BRTOSDevices e = [x, y, z]" "dev_name x = Some 0" "dev_name y = None" "dev_name z = None"
    by (auto simp: boot_devices_def demo_devices_def eval_nat_numeral map_eq_Cons_conv)
  have 2: "find_open demo_str (demo_str 3) (BRTOSDevices e) 0 = None" "find_free (BRTOSDevices e) 0 = Some 1"
    using x by (simp_all add: demo_str_def)
  have "demo_str 3 = ''GPIOB''" by (simp add: demo_str_def)
  from OSDevOpen_new [OF e(2) demo_open_fills 2, of 66 None, unfolded this, OF demo_numbers(5)] obtain d2 where
    "OSDevOpen demo_devices demo_open demo_str (Some 3) None e = Some (Some 1, d2)" by auto
  with dev_handles [OF demo_devs_ok demo_open_fills demo_names e(1) this] e(1) d1 show ?thesis by (auto simp: demo_str_def)
qed

section \<open>Numbers and drivers\<close>

text \<open>the number of a device is the first digit of its name, so the buses \<^verbatim>\<open>I2C0\<close> and \<^verbatim>\<open>I2C1\<close> both get the number 2, and the second
  digit of a number is lost.\<close>

theorem dev_first_digit:
  assumes ok: "devs_ok C d" and c: "fills_api call" and n: "find_open str (str p) (BRTOSDevices d) 0 = None"
    and i: "find_free (BRTOSDevices d) 0 = Some i" and s: "str p = a @ k # b" "\<forall>x \<in> set a. \<not> is_digit x" "is_digit k"
  shows "\<exists>e. OSDevOpen C call str (Some p) opt d = Some (Some i, e) \<and> device_number (BRTOSDevControl e ! i) = int (of_char k) - 48"
proof -
  have "dropWhile (\<lambda>c. \<not> is_digit c) (a @ k # b) = k # b" using s(2,3) by (simp add: dropWhile_append3)
  then have "ascii_number (str p) = int (of_char k) - 48" using s(1,3) by (simp add: ascii_number_def is_digit_def wrap8_def)
  moreover have "0 \<le> int (of_char k) - (48 :: int)" using s(3) by (simp add: is_digit_def)
  ultimately have nr: "find_number (str p) = Some (Number (int (of_char k) - 48))" by (simp add: find_number_def)
  have w: "wrap8 ((int (of_char k) - 48) mod 256) = int (of_char k) - 48" using s(3) by (simp add: is_digit_def wrap8_def)
  from OSDevOpen_new [OF ok c n i nr, of opt, unfolded w] obtain e where e: "OSDevOpen C call str (Some p) opt d = Some (Some i, e)"
    "map device_number (BRTOSDevControl e) = (map device_number (BRTOSDevControl d))[i := int (of_char k) - 48]" by blast
  have "i < length (BRTOSDevControl d)" using find_free_Some [OF i] ok by (simp add: devs_ok_def)
  moreover have "length (BRTOSDevControl e) = length (BRTOSDevControl d)" using arg_cong [OF e(2), of length] by simp
  ultimately have "device_number (BRTOSDevControl e ! i) = int (of_char k) - 48" using e(2) by (metis length_map nth_list_update_eq nth_map)
  with e(1) show ?thesis by blast
qed

theorem dev_first_digit_witness:
  "\<exists>e. OSDevOpen demo_devices demo_open demo_str (Some 2) None (boot_devices demo_devices) = Some (Some 0, e) \<and>
     device_number (BRTOSDevControl e ! 0) = int (of_char CHR ''2'') - 48"
  by (rule dev_first_digit [OF demo_devs_ok demo_open_fills, where a = "''I''" and b = "''C1''"])
    (simp_all add: boot_devices_def demo_devices_def eval_nat_numeral demo_str_def is_digit_def)

text \<open>a name that no device type matches, such as one with a number of two digits, is opened all the same if there is no driver for it, and
  the first call through the handle follows a null pointer.\<close>

theorem dev_no_driver:
  assumes ok: "devs_ok C d" and n: "find_open str (str p) (BRTOSDevices d) 0 = None" and i: "find_free (BRTOSDevices d) 0 = Some i"
    and k: "find_number (str p) = Some (Number k)" and a: "api (BRTOSDevControl d ! i) = None"
    and t: "\<forall>x \<in> set (dev_types C). strncmp (str p) x (name_length (str p)) \<noteq> 0"
    and drv: "\<forall>x \<in> set (OSInstalledDevices C). drv_type x \<noteq> int (length (dev_types C))"
  shows "\<exists>e. OSDevOpen C call str (Some p) opt d = Some (Some i, e) \<and> OSDevWrite apis w (Some i) buf len e = None \<and> OSDevRead apis r (Some i) buf len e = None \<and>
     OSDevSet apis st (Some i) req v e = None \<and> OSDevGet apis g (Some i) req e = None"
proof -
  have "find_type s xs j = j + length xs" if "\<forall>x \<in> set xs. strncmp s x (name_length s) \<noteq> 0" for s xs j
    using that by (induction xs arbitrary: j) auto
  with t have ty: "find_type (str p) (dev_types C) 0 = length (dev_types C)" by simp
  have il: "i < length (BRTOSDevices d)" "i < length (BRTOSDevControl d)" using find_free_Some [OF i] ok by (auto simp: devs_ok_def)
  let ?d = "d\<lparr>BRTOSDevices := (BRTOSDevices d)[i := (BRTOSDevices d ! i)\<lparr>dev_name := Some p, DriverData := opt\<rparr>],
      BRTOSDevControl := (BRTOSDevControl d)[i := (BRTOSDevControl d ! i)\<lparr>device := Some i, device_number := wrap8 (k mod 256)\<rparr>]\<rparr>"
  have "open_drivers call (int (length (dev_types C))) i opt (OSInstalledDevices C) ?d = Some ?d" using drv by (intro open_drivers_none) auto
  then have "OSDevOpen C call str (Some p) opt d = Some (Some i, ?d)" using n i k il ty by (simp add: OSDevOpen_def Let_def)
  then show ?thesis using il a by (intro exI [of _ ?d]) (simp add: OSDevWrite_def OSDevRead_def OSDevSet_def OSDevGet_def)
qed

theorem dev_no_driver_witness:
  "\<exists>e. OSDevOpen demo_devices demo_open demo_str (Some 1) None (boot_devices demo_devices) = Some (Some 0, e) \<and>
     OSDevWrite (\<lambda>a. \<lparr>api_write = 0, api_read = 1, api_set = 2, api_get = 3\<rparr>) (\<lambda>f dev s n d. (n, d)) (Some 0) None 1 e = None \<and>
     OSDevRead (\<lambda>a. \<lparr>api_write = 0, api_read = 1, api_set = 2, api_get = 3\<rparr>) (\<lambda>f dev s n d. (n, d)) (Some 0) None 1 e = None \<and>
     OSDevSet (\<lambda>a. \<lparr>api_write = 0, api_read = 1, api_set = 2, api_get = 3\<rparr>) (\<lambda>f dev q v d. (0, d)) (Some 0) 1 1 e = None \<and>
     OSDevGet (\<lambda>a. \<lparr>api_write = 0, api_read = 1, api_set = 2, api_get = 3\<rparr>) (\<lambda>f dev q d. (0, d)) (Some 0) 1 e = None"
proof (rule dev_no_driver [OF demo_devs_ok])
  show "find_number (demo_str 1) = Some (Number 1)" using demo_numbers(2) by (simp add: demo_str_def)
qed (simp_all add: boot_devices_def demo_devices_def eval_nat_numeral demo_str_def demo_lengths)

text \<open>The table keeps the pointer to the name: when the application writes another name into the same buffer and opens it, it gets
  a handle of the table and no device is opened.\<close>

theorem dev_reused_name:
  assumes ok: "devs_ok C d" and c: "fills_api call" and s: "c_names str" "c_names (str(p := s'))"
    and o: "find_open str (str p) (BRTOSDevices d) 0 = None" "OSDevOpen C call str (Some p) o1 d = Some (Some i, d1)"
  shows "\<exists>j. OSDevOpen C call (str(p := s')) (Some p) o2 d1 = Some (Some j, d1)"
proof -
  from OSDevOpen_handle [OF ok c o(2)] o(1) have e: "find_free (BRTOSDevices d) 0 = Some i" "dev_names d1 = (dev_names d)[i := Some p]" by auto
  have l: "length (BRTOSDevices d1) = length (BRTOSDevices d)" using arg_cong [OF e(2), of length] by simp
  have i: "i < length (BRTOSDevices d)" using find_free_Some [OF e(1)] by simp
  then have "dev_names d1 ! i = Some p" unfolding e(2) by simp
  from OSDevOpen_again [OF s(2) _ this refl] i l show ?thesis by simp
qed

end
