(* ===== verification/UmmHeap.thy ===== *)
theory UmmHeap
  imports Prelude
begin

text \<open>
  \<^verbatim>\<open>src/hal/MemoryAllocation/umm_malloc.c\<close>: the allocator behind \<^verbatim>\<open>BRTOS_ALLOC\<close> and \<^verbatim>\<open>BRTOS_DEALLOC\<close>, with the search
  for the first fit, as \<^verbatim>\<open>umm_malloc_cfg.h\<close> configures it. The heap is an array of blocks of eight bytes. The
  blocks in use and the free ones form one list in the order of their addresses, and the free ones also a second list, both
  doubly linked by block numbers of 15 bits; the top bit of a block's \<^verbatim>\<open>next\<close> marks it as free. A pointer
  is a byte offset from the start of the heap.
\<close>

section \<open>Data\<close>

record umm_block =
  nblock :: uint16_t
  pblock :: uint16_t
  nfree :: uint16_t
  pfree :: uint16_t

type_synonym umm_heap = "umm_block list"

abbreviation (input) UMM_FREELIST_MASK :: uint16_t where "UMM_FREELIST_MASK \<equiv> 0x8000"
abbreviation (input) UMM_BLOCKNO_MASK :: uint16_t where "UMM_BLOCKNO_MASK \<equiv> 0x7FFF"

definition boot_heap :: "nat \<Rightarrow> umm_heap" where
  "boot_heap N = replicate N \<lparr>nblock = 0, pblock = 0, nfree = 0, pfree = 0\<rparr>"

definition UMM_NUMBLOCKS :: "umm_heap \<Rightarrow> uint16_t" where
  "UMM_NUMBLOCKS h = of_nat (length h)"

definition UMM_NBLOCK :: "umm_heap \<Rightarrow> nat \<Rightarrow> uint16_t option" where "UMM_NBLOCK h b = map_option nblock (rd h b)"
definition UMM_PBLOCK :: "umm_heap \<Rightarrow> nat \<Rightarrow> uint16_t option" where "UMM_PBLOCK h b = map_option pblock (rd h b)"
definition UMM_NFREE :: "umm_heap \<Rightarrow> nat \<Rightarrow> uint16_t option" where "UMM_NFREE h b = map_option nfree (rd h b)"
definition UMM_PFREE :: "umm_heap \<Rightarrow> nat \<Rightarrow> uint16_t option" where "UMM_PFREE h b = map_option pfree (rd h b)"

definition set_NBLOCK :: "umm_heap \<Rightarrow> nat \<Rightarrow> uint16_t \<Rightarrow> umm_heap option" where "set_NBLOCK h b v = upd h b (\<lambda>x. x\<lparr>nblock := v\<rparr>)"
definition set_PBLOCK :: "umm_heap \<Rightarrow> nat \<Rightarrow> uint16_t \<Rightarrow> umm_heap option" where "set_PBLOCK h b v = upd h b (\<lambda>x. x\<lparr>pblock := v\<rparr>)"
definition set_NFREE :: "umm_heap \<Rightarrow> nat \<Rightarrow> uint16_t \<Rightarrow> umm_heap option" where "set_NFREE h b v = upd h b (\<lambda>x. x\<lparr>nfree := v\<rparr>)"
definition set_PFREE :: "umm_heap \<Rightarrow> nat \<Rightarrow> uint16_t \<Rightarrow> umm_heap option" where "set_PFREE h b v = upd h b (\<lambda>x. x\<lparr>pfree := v\<rparr>)"

section \<open>Operations\<close>

definition umm_blocks :: "uint32_t \<Rightarrow> uint16_t" where
  "umm_blocks nbytes = (if nbytes \<le> 4 then 1 else ucast (2 + (nbytes - 5) div 8))"

definition umm_make_new_block :: "uint16_t \<Rightarrow> uint16_t \<Rightarrow> uint16_t \<Rightarrow> umm_heap \<Rightarrow> umm_heap option" where
  "umm_make_new_block c blocks freemask h = do {
     n \<leftarrow> UMM_NBLOCK h (unat c);
     h \<leftarrow> set_NBLOCK h (unat c + unat blocks) (n AND UMM_BLOCKNO_MASK);
     h \<leftarrow> set_PBLOCK h (unat c + unat blocks) c;
     n \<leftarrow> UMM_NBLOCK h (unat c);
     h \<leftarrow> set_PBLOCK h (unat (n AND UMM_BLOCKNO_MASK)) (c + blocks);
     set_NBLOCK h (unat c) ((c + blocks) OR freemask) }"

definition umm_disconnect_from_free_list :: "uint16_t \<Rightarrow> umm_heap \<Rightarrow> umm_heap option" where
  "umm_disconnect_from_free_list c h = do {
     p \<leftarrow> UMM_PFREE h (unat c);
     n \<leftarrow> UMM_NFREE h (unat c);
     h \<leftarrow> set_NFREE h (unat p) n;
     n \<leftarrow> UMM_NFREE h (unat c);
     p \<leftarrow> UMM_PFREE h (unat c);
     h \<leftarrow> set_PFREE h (unat n) p;
     v \<leftarrow> UMM_NBLOCK h (unat c);
     set_NBLOCK h (unat c) (v AND NOT UMM_FREELIST_MASK) }"

definition umm_assimilate_up :: "uint16_t \<Rightarrow> umm_heap \<Rightarrow> umm_heap option" where
  "umm_assimilate_up c h = do {
     n \<leftarrow> UMM_NBLOCK h (unat c);
     nn \<leftarrow> UMM_NBLOCK h (unat n);
     if nn AND UMM_FREELIST_MASK \<noteq> 0
     then do {
       h \<leftarrow> umm_disconnect_from_free_list n h;
       n \<leftarrow> UMM_NBLOCK h (unat c);
       nn \<leftarrow> UMM_NBLOCK h (unat n);
       h \<leftarrow> set_PBLOCK h (unat (nn AND UMM_BLOCKNO_MASK)) c;
       n \<leftarrow> UMM_NBLOCK h (unat c);
       nn \<leftarrow> UMM_NBLOCK h (unat n);
       set_NBLOCK h (unat c) (nn AND UMM_BLOCKNO_MASK) }
     else Some h }"

definition umm_assimilate_down :: "uint16_t \<Rightarrow> uint16_t \<Rightarrow> umm_heap \<Rightarrow> (uint16_t \<times> umm_heap) option" where
  "umm_assimilate_down c freemask h = do {
     p \<leftarrow> UMM_PBLOCK h (unat c);
     n \<leftarrow> UMM_NBLOCK h (unat c);
     h \<leftarrow> set_NBLOCK h (unat p) (n OR freemask);
     n \<leftarrow> UMM_NBLOCK h (unat c);
     p \<leftarrow> UMM_PBLOCK h (unat c);
     h \<leftarrow> set_PBLOCK h (unat n) p;
     p \<leftarrow> UMM_PBLOCK h (unat c);
     Some (p, h) }"

text \<open>The free block becomes the head of the free list.\<close>

definition push_free :: "uint16_t \<Rightarrow> umm_heap \<Rightarrow> umm_heap option" where
  "push_free c h = do {
     f \<leftarrow> UMM_NFREE h 0;
     h \<leftarrow> set_PFREE h (unat f) c;
     f \<leftarrow> UMM_NFREE h 0;
     h \<leftarrow> set_NFREE h (unat c) f;
     h \<leftarrow> set_PFREE h (unat c) 0;
     h \<leftarrow> set_NFREE h 0 c;
     v \<leftarrow> UMM_NBLOCK h (unat c);
     set_NBLOCK h (unat c) (v OR UMM_FREELIST_MASK) }"

definition umm_free :: "ptr \<Rightarrow> umm_heap \<Rightarrow> umm_heap option" where
  "umm_free ptr h = (case ptr of
     None \<Rightarrow> Some h
   | Some a \<Rightarrow> do {
       let c = of_nat (a div 8);
       h \<leftarrow> umm_assimilate_up c h;
       p \<leftarrow> UMM_PBLOCK h (unat c);
       v \<leftarrow> UMM_NBLOCK h (unat p);
       if v AND UMM_FREELIST_MASK \<noteq> 0
       then map_option snd (umm_assimilate_down c UMM_FREELIST_MASK h)
       else push_free c h })"

text \<open>
  The walk over the free list, in the build with \<^verbatim>\<open>UMM_FIRST_FIT\<close>, which \<^verbatim>\<open>umm_malloc_cfg.h\<close> defines: it breaks off at the first block that is
  large enough, or ends at the end of the list. The results are \<^verbatim>\<open>cf\<close> and \<^verbatim>\<open>blockSize\<close>; \<^verbatim>\<open>bestSize\<close> keeps its initial value in this build, so that
  the assignments after the loop are never executed.
\<close>

partial_function (option) first_fit :: "umm_heap \<Rightarrow> uint16_t \<Rightarrow> uint16_t \<Rightarrow> uint16_t \<Rightarrow> (uint16_t \<times> uint16_t) option" where
  "first_fit h blocks cf blockSize =
     Option.bind (UMM_NFREE h (unat cf)) (\<lambda>nf.
       if nf \<noteq> 0
       then Option.bind (UMM_NBLOCK h (unat cf)) (\<lambda>n.
         let blockSize = (n AND UMM_BLOCKNO_MASK) - cf in
         if blocks \<le> blockSize then Some (cf, blockSize) else first_fit h blocks nf blockSize)
       else Some (cf, blockSize))"

text \<open>A block of the free list is used as a whole or split, its lower part staying free.\<close>

definition take_existing :: "uint16_t \<Rightarrow> uint16_t \<Rightarrow> uint16_t \<Rightarrow> umm_heap \<Rightarrow> (uint16_t \<times> umm_heap) option" where
  "take_existing cf blockSize blocks h =
    (if blockSize = blocks
     then do { h \<leftarrow> umm_disconnect_from_free_list cf h; Some (cf, h) }
     else do {
       h \<leftarrow> umm_make_new_block cf (blockSize - blocks) UMM_FREELIST_MASK h;
       Some (cf + (blockSize - blocks), h) })"

text \<open>A new block at the end of the heap, with the initialization at the first call.\<close>

definition init_heap :: "uint16_t \<Rightarrow> umm_heap \<Rightarrow> (uint16_t \<times> umm_heap) option" where
  "init_heap cf h =
    (if cf = 0
     then do { h \<leftarrow> set_NBLOCK h 0 1; h \<leftarrow> set_NFREE h 0 1; Some (1, h) }
     else Some (cf, h))"

definition take_new :: "uint16_t \<Rightarrow> uint16_t \<Rightarrow> umm_heap \<Rightarrow> (uint16_t \<times> umm_heap) option" where
  "take_new cf blocks h = do {
     (cf, h) \<leftarrow> init_heap cf h;
     p \<leftarrow> UMM_PFREE h (unat cf);
     h \<leftarrow> set_NFREE h (unat p) (cf + blocks);
     x \<leftarrow> rd h (unat cf);
     h \<leftarrow> wr h (unat cf + unat blocks) x;
     h \<leftarrow> set_NBLOCK h (unat cf) (cf + blocks);
     h \<leftarrow> set_PBLOCK h (unat cf + unat blocks) cf;
     Some (cf, h) }"

definition umm_malloc :: "uint32_t \<Rightarrow> umm_heap \<Rightarrow> (ptr \<times> umm_heap) option" where
  "umm_malloc nbytes h =
    (if nbytes = 0 then Some (None, h)
     else do {
       let blocks = umm_blocks nbytes;
       cf \<leftarrow> UMM_NFREE h 0;
       (cf, blockSize) \<leftarrow> first_fit h blocks cf 0;
       n \<leftarrow> UMM_NBLOCK h (unat cf);
       if n AND UMM_BLOCKNO_MASK \<noteq> 0
       then do { (cf, h) \<leftarrow> take_existing cf blockSize blocks h; Some (Some (8 * unat cf + 4), h) }
       else if unat (UMM_NUMBLOCKS h) \<le> unat cf + unat blocks + 1 then Some (None, h)
       else do { (cf, h) \<leftarrow> take_new cf blocks h; Some (Some (8 * unat cf + 4), h) } })"

section \<open>Bytes\<close>

text \<open>The bytes of the heap, for the application's data, which shares the memory with the links of the free list.\<close>

definition word_bytes :: "uint16_t \<Rightarrow> nat \<Rightarrow> uint8_t" where
  "word_bytes w k = ucast (drop_bit (8 * k) w)"

definition set_word_byte :: "uint16_t \<Rightarrow> nat \<Rightarrow> uint8_t \<Rightarrow> uint16_t" where
  "set_word_byte w k v = (w AND NOT (push_bit (8 * k) 0xFF)) OR push_bit (8 * k) (ucast v)"

definition set_byte :: "nat \<Rightarrow> uint8_t \<Rightarrow> umm_heap \<Rightarrow> umm_heap option" where
  "set_byte a v h = upd h (a div 8) (\<lambda>x.
     let k = a mod 2 in
     if a mod 8 < 2 then x\<lparr>nblock := set_word_byte (nblock x) k v\<rparr>
     else if a mod 8 < 4 then x\<lparr>pblock := set_word_byte (pblock x) k v\<rparr>
     else if a mod 8 < 6 then x\<lparr>nfree := set_word_byte (nfree x) k v\<rparr>
     else x\<lparr>pfree := set_word_byte (pfree x) k v\<rparr>)"

definition get_byte :: "nat \<Rightarrow> umm_heap \<Rightarrow> uint8_t option" where
  "get_byte a h = map_option (\<lambda>x.
     let k = a mod 2 in
     if a mod 8 < 2 then word_bytes (nblock x) k
     else if a mod 8 < 4 then word_bytes (pblock x) k
     else if a mod 8 < 6 then word_bytes (nfree x) k
     else word_bytes (pfree x) k) (rd h (a div 8))"

fun heap_memset :: "nat \<Rightarrow> uint8_t \<Rightarrow> nat \<Rightarrow> umm_heap \<Rightarrow> umm_heap option" where
  "heap_memset a v 0 h = Some h"
| "heap_memset a v (Suc n) h = do { h \<leftarrow> set_byte a v h; heap_memset (Suc a) v n h }"

definition umm_calloc :: "uint32_t \<Rightarrow> uint32_t \<Rightarrow> umm_heap \<Rightarrow> (ptr \<times> umm_heap) option" where
  "umm_calloc num item_size h = do {
     (ret, h) \<leftarrow> umm_malloc (item_size * num) h;
     h \<leftarrow> (case ret of None \<Rightarrow> Some h | Some a \<Rightarrow> heap_memset a 0 (unat (item_size * num)) h);
     Some (ret, h) }"

section \<open>Accounting\<close>

record UMM_HEAP_INFO =
  totalEntries :: uint16_t
  usedEntries :: uint16_t
  freeEntries :: uint16_t
  totalBlocks :: uint16_t
  usedBlocks :: uint16_t
  freeBlocks :: uint16_t

definition no_info :: UMM_HEAP_INFO where
  "no_info = \<lparr>totalEntries = 0, usedEntries = 0, freeEntries = 0, totalBlocks = 0, usedBlocks = 0, freeBlocks = 0\<rparr>"

text \<open>The body of the loop for a block of the given size.\<close>

definition count_block :: "bool \<Rightarrow> uint16_t \<Rightarrow> UMM_HEAP_INFO \<Rightarrow> UMM_HEAP_INFO" where
  "count_block is_free n i =
    (let i = i\<lparr>totalEntries := totalEntries i + 1, totalBlocks := totalBlocks i + n\<rparr> in
     if is_free then i\<lparr>freeEntries := freeEntries i + 1, freeBlocks := freeBlocks i + n\<rparr>
     else i\<lparr>usedEntries := usedEntries i + 1, usedBlocks := usedBlocks i + n\<rparr>)"

text \<open>The loop: \<^term>\<open>Inl\<close> if it ends at the free block that \<open>ptr\<close> points to.\<close>

partial_function (option) info_loop :: "umm_heap \<Rightarrow> ptr \<Rightarrow> uint16_t \<Rightarrow> UMM_HEAP_INFO \<Rightarrow> (UMM_HEAP_INFO + uint16_t \<times> UMM_HEAP_INFO) option" where
  "info_loop h ptr blockNo i =
     Option.bind (UMM_NBLOCK h (unat blockNo)) (\<lambda>n.
       if n AND UMM_BLOCKNO_MASK \<noteq> 0
       then let is_free = (n AND UMM_FREELIST_MASK \<noteq> 0); i = count_block is_free ((n AND UMM_BLOCKNO_MASK) - blockNo) i in
         if is_free \<and> ptr = Some (8 * unat blockNo) then Some (Inl i)
         else info_loop h ptr (n AND UMM_BLOCKNO_MASK) i
       else Some (Inr (blockNo, i)))"

definition umm_info :: "ptr \<Rightarrow> umm_heap \<Rightarrow> (ptr \<times> UMM_HEAP_INFO) option" where
  "umm_info ptr h = do {
     n \<leftarrow> UMM_NBLOCK h 0;
     r \<leftarrow> info_loop h ptr (n AND UMM_BLOCKNO_MASK) no_info;
     Some (case r of
       Inl i \<Rightarrow> (ptr, i)
     | Inr (blockNo, i) \<Rightarrow> (None, i\<lparr>freeBlocks := freeBlocks i + (UMM_NUMBLOCKS h - blockNo), totalBlocks := totalBlocks i + (UMM_NUMBLOCKS h - blockNo)\<rparr>)) }"

definition OSGetUsedHeapSize :: "umm_heap \<Rightarrow> uint32_t option" where
  "OSGetUsedHeapSize h = map_option (\<lambda>(_, i). ucast (usedBlocks i) * 8) (umm_info None h)"

definition OSGetFreeHeapSize :: "umm_heap \<Rightarrow> uint32_t option" where
  "OSGetFreeHeapSize h = map_option (\<lambda>(_, i). ucast (freeBlocks i) * 8) (umm_info None h)"

end
