(* ===== verification/UmmLinks.thy ===== *)
theory UmmLinks
  imports UmmHeap
begin

text \<open>
  Doubly linked lists of block numbers, for the two lists of the allocator alike: \<open>linked N P xs\<close> says that \<open>N\<close> leads from
  each entry of \<open>xs\<close> to the next one and \<open>P\<close> back. Then the block numbers and the mark in the words of a block.
\<close>

section \<open>Linked lists\<close>

fun linked :: "(nat \<Rightarrow> nat) \<Rightarrow> (nat \<Rightarrow> nat) \<Rightarrow> nat list \<Rightarrow> bool" where
  "linked N P (x # y # zs) \<longleftrightarrow> N x = y \<and> P y = x \<and> linked N P (y # zs)"
| "linked N P _ \<longleftrightarrow> True"

lemma links_append: "linked N P (xs @ y # zs) \<longleftrightarrow> linked N P (xs @ [y]) \<and> linked N P (y # zs)"
proof (induction xs)
  case (Cons x xs)
  then show ?case by (cases xs) auto
qed simp

lemma linked_mid: "linked N P (xs @ x # y # zs) \<Longrightarrow> N x = y \<and> P y = x"
  using links_append [of N P xs x "y # zs"] by simp

lemma linked_updN: "a \<notin> set (butlast xs) \<Longrightarrow> linked (N(a := v)) P xs = linked N P xs"
  by (induction xs rule: induct_list012) auto

lemma linked_updP: "a \<notin> set (tl xs) \<Longrightarrow> linked N (P(a := v)) xs = linked N P xs"
  by (induction xs rule: induct_list012) auto

lemma links_cong: "linked N P xs \<Longrightarrow> \<forall>x \<in> set (butlast xs). N' x = N x \<Longrightarrow> \<forall>x \<in> set (tl xs). P' x = P x \<Longrightarrow> linked N' P' xs"
  by (induction xs rule: induct_list012) auto

lemma linked_remove:
  assumes l: "linked N P (xs @ p # c # n # zs)" and d: "distinct (xs @ p # c # n # zs)"
  shows "linked (N(p := n)) (P(n := p)) (xs @ p # n # zs)"
proof -
  from l have s: "linked N P (xs @ [p])" "linked N P (n # zs)" using links_append [of N P xs p "c # n # zs"] by auto
  have "linked (N(p := n)) (P(n := p)) (xs @ [p])" using s(1) d by (elim links_cong) (auto simp: tl_append split: list.splits)
  moreover have "linked (N(p := n)) (P(n := p)) (n # zs)" using s(2) d
    by (elim links_cong) (auto dest: in_set_butlastD)
  ultimately show ?thesis by (subst links_append) simp
qed

lemma linked_insert:
  assumes l: "linked N P (xs @ p # n # zs)" and d: "distinct (xs @ p # c # n # zs)"
  shows "linked (N(p := c, c := n)) (P(c := p, n := c)) (xs @ p # c # n # zs)"
proof -
  from l have s: "linked N P (xs @ [p])" "linked N P (n # zs)" using links_append [of N P xs p "n # zs"] by auto
  have "linked (N(p := c, c := n)) (P(c := p, n := c)) (xs @ [p])"
    using s(1) d by (elim links_cong) (auto simp: tl_append split: list.splits)
  moreover have "linked (N(p := c, c := n)) (P(c := p, n := c)) (n # zs)" using s(2) d
    by (elim links_cong) (auto dest: in_set_butlastD)
  ultimately show ?thesis using d by (subst links_append) auto
qed

text \<open>The end of the list moves on, or to another block.\<close>

lemma linked_extend: "linked N P (xs @ [t]) \<Longrightarrow> distinct (xs @ [t, u]) \<Longrightarrow> linked (N(t := u)) (P(u := t)) (xs @ [t, u])"
proof -
  assume l: "linked N P (xs @ [t])" and d: "distinct (xs @ [t, u])"
  have "linked (N(t := u)) (P(u := t)) (xs @ [t])" using l d by (elim links_cong) (auto simp: tl_append split: list.splits)
  then show ?thesis by (subst links_append) simp
qed

lemma linked_relast: "linked N P (xs @ [p, t]) \<Longrightarrow> distinct (xs @ [p, t]) \<Longrightarrow> u \<notin> set (xs @ [p]) \<Longrightarrow> linked (N(p := u)) (P(u := p)) (xs @ [p, u])"
proof -
  assume l: "linked N P (xs @ [p, t])" and d: "distinct (xs @ [p, t])" "u \<notin> set (xs @ [p])"
  from l have "linked N P (xs @ [p])" using links_append [of N P xs p "[t]"] by simp
  with d show ?thesis by (intro linked_extend) auto
qed

section \<open>Block numbers and marks\<close>

lemma bit_marks: "bit (0x7FFF :: uint16_t) n \<longleftrightarrow> n < 15" "bit (0x8000 :: uint16_t) n \<longleftrightarrow> n = 15"
proof -
  have m: "(0x7FFF :: uint16_t) = mask 15" "(0x8000 :: uint16_t) = 2 ^ 15" by (simp_all add: mask_eq_exp_minus_1)
  show "bit (0x7FFF :: uint16_t) n \<longleftrightarrow> n < 15" unfolding m(1) bit_mask_iff by auto
  show "bit (0x8000 :: uint16_t) n \<longleftrightarrow> n = 15" unfolding m(2) bit_exp_iff by auto
qed

lemma number_mask: "w AND 0x7FFF = take_bit 15 (w :: uint16_t)"
  by (rule bit_word_eqI) (simp only: bit_and_iff bit_take_bit_iff bit_marks, blast)

lemma mark_simps [simp]:
  fixes w :: uint16_t
  shows "(w AND 0x7FFF) AND 0x8000 = 0" "(w AND 0x7FFF) AND 0x7FFF = w AND 0x7FFF"
    "(w OR 0x8000) AND 0x7FFF = w AND 0x7FFF" "(w OR 0x8000) AND 0x8000 = 0x8000"
  subgoal by (rule bit_word_eqI) (simp only: bit_and_iff bit_or_iff bit_marks bit_0_eq bot_apply bot_bool_def, auto)
  subgoal by (rule bit_word_eqI) (simp only: bit_and_iff bit_or_iff bit_marks, auto)
  subgoal by (rule bit_word_eqI) (simp only: bit_and_iff bit_or_iff bit_marks, auto)
  subgoal by (rule bit_word_eqI) (simp only: bit_and_iff bit_or_iff bit_marks, auto)
  done

lemma clear_mark: "w AND NOT 0x8000 = w AND (0x7FFF :: uint16_t)"
  by (rule bit_word_eqI) (auto simp only: bit_and_iff bit_not_iff bit_marks possible_bit_word len_num1 len_bit0)

lemma unmarked: "w AND 0x8000 = 0 \<Longrightarrow> w AND 0x7FFF = (w :: uint16_t)"
proof (rule bit_word_eqI)
  fix n assume w: "w AND 0x8000 = 0" and n: "n < LENGTH(16)"
  have "bit (w AND 0x8000) 15 = bit w 15" unfolding bit_and_iff bit_marks by simp
  with w have b: "\<not> bit w 15" by simp
  have "n < 15 \<or> n = 15" using n by auto
  with b show "bit (w AND 0x7FFF) n = bit w n" unfolding bit_and_iff bit_marks by auto
qed

lemma block_number: "unat (w AND 0x7FFF :: uint16_t) < 32768"
proof -
  have "unat (take_bit 15 w) = take_bit 15 (unat w)" by (rule unsigned_take_bit_eq)
  also have "\<dots> < 2 ^ 15" by (rule take_bit_nat_less_exp)
  finally show ?thesis by (simp add: number_mask)
qed

lemma unat_number: "n < 32768 \<Longrightarrow> unat (of_nat n :: uint16_t) = n"
  by (simp add: unat_of_nat take_bit_nat_eq_self)

lemma number_unmarked: "n < 32768 \<Longrightarrow> of_nat n AND 0x7FFF = (of_nat n :: uint16_t)"
proof -
  assume "n < 32768"
  then have "take_bit 15 n = n" by (simp add: take_bit_nat_eq_self)
  then show ?thesis unfolding number_mask take_bit_of_nat by simp
qed

lemma number_no_mark: "n < 32768 \<Longrightarrow> of_nat n AND 0x8000 = (0 :: uint16_t)"
  using number_unmarked [of n] mark_simps(1) [of "of_nat n"] by simp

end
