(* ===== verification/UmmViews.thy ===== *)
theory UmmViews
  imports UmmLinks
begin

text \<open>
  The blocks of the heap through five functions, the two pairs of links and the mark, and the effect of every step of the
  allocator on them.
\<close>

section \<open>Views\<close>

definition Nb :: "umm_heap \<Rightarrow> nat \<Rightarrow> nat" where "Nb h i = unat (nblock (h ! i) AND 0x7FFF)"
definition Pb :: "umm_heap \<Rightarrow> nat \<Rightarrow> nat" where "Pb h i = unat (pblock (h ! i))"
definition Nf :: "umm_heap \<Rightarrow> nat \<Rightarrow> nat" where "Nf h i = unat (nfree (h ! i))"
definition Pf :: "umm_heap \<Rightarrow> nat \<Rightarrow> nat" where "Pf h i = unat (pfree (h ! i))"
definition Fr :: "umm_heap \<Rightarrow> nat \<Rightarrow> bool" where "Fr h i \<longleftrightarrow> nblock (h ! i) AND 0x8000 \<noteq> 0"

lemmas view_defs = Nb_def Pb_def Nf_def Pf_def Fr_def

definition views :: "umm_heap \<Rightarrow> (nat \<Rightarrow> nat) \<times> (nat \<Rightarrow> nat) \<times> (nat \<Rightarrow> nat) \<times> (nat \<Rightarrow> nat) \<times> (nat \<Rightarrow> bool) \<times> nat" where
  "views h = (Nb h, Pb h, Nf h, Pf h, Fr h, length h)"

lemma views_eq: "views h = (nb, pb, nf, pf, fr, n) \<longleftrightarrow> Nb h = nb \<and> Pb h = pb \<and> Nf h = nf \<and> Pf h = pf \<and> Fr h = fr \<and> length h = n"
  by (auto simp: views_def)

lemma Nb_less: "Nb h i < 32768"
  by (simp add: Nb_def block_number)

text \<open>The words behind the views.\<close>

lemma view_words:
  "of_nat (Pb h i) = pblock (h ! i)" "of_nat (Nf h i) = nfree (h ! i)" "of_nat (Pf h i) = pfree (h ! i)"
  "\<not> Fr h i \<Longrightarrow> of_nat (Nb h i) = nblock (h ! i)" "of_nat (Nb h i) = nblock (h ! i) AND 0x7FFF"
  by (simp_all add: view_defs unmarked)

lemma block_eqI:
  assumes "Nb h i = Nb h' j" "Pb h i = Pb h' j" "Nf h i = Nf h' j" "Pf h i = Pf h' j" "Fr h i = Fr h' j"
  shows "h ! i = h' ! j"
proof (rule umm_block.equality)
  have s: "w = (w AND 0x7FFF) OR (w AND 0x8000)" for w :: uint16_t
  proof (rule bit_word_eqI)
    fix n assume "n < LENGTH(16)"
    then have "n < 15 \<or> n = 15" by auto
    then show "bit w n = bit ((w AND 0x7FFF) OR (w AND 0x8000)) n" unfolding bit_or_iff bit_and_iff bit_marks by auto
  qed
  have m: "w AND 0x8000 = 0 \<or> w AND 0x8000 = 0x8000" for w :: uint16_t
  proof (cases "bit w 15")
    case True
    then have "w AND 0x8000 = 0x8000" by (intro bit_word_eqI) (simp only: bit_and_iff bit_marks, blast)
    then show ?thesis by simp
  next
    case False
    then have "w AND 0x8000 = 0" by (intro bit_word_eqI) (simp only: bit_and_iff bit_marks bit_0_eq bot_apply bot_bool_def, blast)
    then show ?thesis by simp
  qed
  have "nblock (h ! i) AND 0x7FFF = nblock (h' ! j) AND 0x7FFF" using assms(1) unfolding Nb_def word_unat_eq_iff .
  moreover have "nblock (h ! i) AND 0x8000 = nblock (h' ! j) AND 0x8000"
    using assms(5) m [of "nblock (h ! i)"] m [of "nblock (h' ! j)"] by (auto simp: Fr_def)
  ultimately show "nblock (h ! i) = nblock (h' ! j)" using s [of "nblock (h ! i)"] s [of "nblock (h' ! j)"] by metis
qed (use assms in \<open>simp_all add: view_defs word_unat_eq_iff\<close>)

section \<open>Single assignments\<close>

lemma rd_views:
  "i < length h \<Longrightarrow> UMM_NBLOCK h i = Some (nblock (h ! i))" "i < length h \<Longrightarrow> UMM_PBLOCK h i = Some (pblock (h ! i))"
  "i < length h \<Longrightarrow> UMM_NFREE h i = Some (nfree (h ! i))" "i < length h \<Longrightarrow> UMM_PFREE h i = Some (pfree (h ! i))"
  by (simp_all add: UMM_NBLOCK_def UMM_PBLOCK_def UMM_NFREE_def UMM_PFREE_def)

lemma set_NBLOCK_views:
  "i < length h \<Longrightarrow> \<exists>h'. set_NBLOCK h i v = Some h' \<and>
     views h' = ((Nb h)(i := unat (v AND 0x7FFF)), Pb h, Nf h, Pf h, (Fr h)(i := (v AND 0x8000 \<noteq> 0)), length h)"
  by (auto simp: set_NBLOCK_def views_def view_defs fun_eq_iff nth_list_update)

lemma set_PBLOCK_views:
  "i < length h \<Longrightarrow> \<exists>h'. set_PBLOCK h i v = Some h' \<and> views h' = (Nb h, (Pb h)(i := unat v), Nf h, Pf h, Fr h, length h)"
  by (auto simp: set_PBLOCK_def views_def view_defs fun_eq_iff nth_list_update)

lemma set_NFREE_views:
  "i < length h \<Longrightarrow> \<exists>h'. set_NFREE h i v = Some h' \<and> views h' = (Nb h, Pb h, (Nf h)(i := unat v), Pf h, Fr h, length h)"
  by (auto simp: set_NFREE_def views_def view_defs fun_eq_iff nth_list_update)

lemma set_PFREE_views:
  "i < length h \<Longrightarrow> \<exists>h'. set_PFREE h i v = Some h' \<and> views h' = (Nb h, Pb h, Nf h, (Pf h)(i := unat v), Fr h, length h)"
  by (auto simp: set_PFREE_def views_def view_defs fun_eq_iff nth_list_update)

text \<open>Reading, in terms of the views.\<close>

lemma rd_Nf: "i < length h \<Longrightarrow> UMM_NFREE h i = Some (of_nat (Nf h i))"
  by (simp add: rd_views view_words)

lemma rd_Pf: "i < length h \<Longrightarrow> UMM_PFREE h i = Some (of_nat (Pf h i))"
  by (simp add: rd_views view_words)

lemma rd_Pb: "i < length h \<Longrightarrow> UMM_PBLOCK h i = Some (of_nat (Pb h i))"
  by (simp add: rd_views view_words)

lemma view_less: "Pb h i < 65536" "Nf h i < 65536" "Pf h i < 65536"
  using unsigned_less [of "pblock (h ! i)"] unsigned_less [of "nfree (h ! i)"] unsigned_less [of "pfree (h ! i)"] by (simp_all add: view_defs)

lemma unat_16: "n < 65536 \<Longrightarrow> unat (of_nat n :: uint16_t) = n"
  by (simp add: unat_of_nat take_bit_nat_eq_self)

section \<open>Steps of the allocator\<close>

lemma disconnect_views:
  assumes l: "a < length h" "Pf h a < length h" "Nf h a < length h" "length h \<le> 32768" and d: "Pf h a \<noteq> a" "Nf h a \<noteq> a"
  shows "\<exists>h'. umm_disconnect_from_free_list (of_nat a) h = Some h' \<and>
     views h' = (Nb h, Pb h, (Nf h)(Pf h a := Nf h a), (Pf h)(Nf h a := Pf h a), (Fr h)(a := False), length h)"
proof -
  let ?p = "Pf h a" let ?n = "Nf h a"
  have u: "unat (of_nat a :: uint16_t) = a" "unat (of_nat ?p :: uint16_t) = ?p" "unat (of_nat ?n :: uint16_t) = ?n"
    using l by (simp_all add: unat_16)
  from set_NFREE_views [OF l(2), of "of_nat ?n"] obtain h1 where
    h1: "set_NFREE h ?p (of_nat ?n) = Some h1" "views h1 = (Nb h, Pb h, (Nf h)(?p := ?n), Pf h, Fr h, length h)" by (auto simp: u)
  have v1: "Nf h1 a = ?n" "Pf h1 a = ?p" "length h1 = length h" using h1(2) d by (auto simp: views_eq)
  from set_PFREE_views [of ?n h1 "of_nat ?p"] l(3) v1(3) obtain h2 where
    h2: "set_PFREE h1 ?n (of_nat ?p) = Some h2" "views h2 = (Nb h1, Pb h1, Nf h1, (Pf h1)(?n := ?p), Fr h1, length h1)" by (auto simp: u)
  have l2: "a < length h2" using h2(2) v1(3) l(1) by (auto simp: views_eq)
  from set_NBLOCK_views [OF l2, of "nblock (h2 ! a) AND 0x7FFF"] obtain h3 where
    h3: "set_NBLOCK h2 a (nblock (h2 ! a) AND 0x7FFF) = Some h3"
      "views h3 = ((Nb h2)(a := Nb h2 a), Pb h2, Nf h2, Pf h2, (Fr h2)(a := False), length h2)"
    by (auto simp: Nb_def simp del: fun_upd_triv)
  have "umm_disconnect_from_free_list (of_nat a) h = Some h3"
    unfolding umm_disconnect_from_free_list_def clear_mark u rd_Pf [OF l(1)] rd_Nf [OF l(1)] Option.bind.simps h1(1)
    using rd_Pf [of a h1] rd_Nf [of a h1] v1 l(1) h2(1) rd_views(1) [OF l2] h3(1) by (simp add: u)
  moreover have "views h3 = (Nb h, Pb h, (Nf h)(?p := ?n), (Pf h)(?n := ?p), (Fr h)(a := False), length h)"
    using h3(2) h2(2) h1(2) by (auto simp: views_eq)
  ultimately show ?thesis by blast
qed

lemma make_new_block_views:
  assumes l: "c < length h" "c + d < length h" "Nb h c < length h" "length h \<le> 32768" and d: "0 < d"
  shows "\<exists>h'. umm_make_new_block (of_nat c) (of_nat d) 0x8000 h = Some h' \<and>
     views h' = ((Nb h)(c + d := Nb h c, c := c + d), (Pb h)(c + d := c, Nb h c := c + d), Nf h, Pf h, (Fr h)(c + d := False, c := True), length h)"
proof -
  let ?e = "c + d" let ?n = "Nb h c"
  have u: "unat (of_nat c :: uint16_t) = c" "unat (of_nat d :: uint16_t) = d" "unat (of_nat c + of_nat d :: uint16_t) = ?e"
    using l unat_16 [of ?e] by (simp_all add: unat_16)
  from set_NBLOCK_views [OF l(2), of "nblock (h ! c) AND 0x7FFF"] obtain h1 where
    h1: "set_NBLOCK h ?e (nblock (h ! c) AND 0x7FFF) = Some h1" "views h1 = ((Nb h)(?e := ?n), Pb h, Nf h, Pf h, (Fr h)(?e := False), length h)"
    by (auto simp: Nb_def)
  have l1: "length h1 = length h" using h1(2) by (auto simp: views_eq)
  from set_PBLOCK_views [of ?e h1 "of_nat c"] l(2) l1 obtain h2 where
    h2: "set_PBLOCK h1 ?e (of_nat c) = Some h2" "views h2 = (Nb h1, (Pb h1)(?e := c), Nf h1, Pf h1, Fr h1, length h1)" by (auto simp: u)
  have v2: "length h2 = length h" "Nb h2 c = ?n" using h1(2) h2(2) d by (auto simp: views_eq)
  from set_PBLOCK_views [of ?n h2 "of_nat c + of_nat d"] l(3) v2(1) obtain h3 where
    h3: "set_PBLOCK h2 ?n (of_nat c + of_nat d) = Some h3" "views h3 = (Nb h2, (Pb h2)(?n := ?e), Nf h2, Pf h2, Fr h2, length h2)" by (auto simp: u)
  have v3: "length h3 = length h" using h3(2) v2(1) by (auto simp: views_eq)
  have e: "unat ((of_nat c + of_nat d :: uint16_t) AND 0x7FFF) = ?e" using number_unmarked [of ?e] unat_number [of ?e] l(2,4) by simp
  from set_NBLOCK_views [of c h3 "(of_nat c + of_nat d) OR 0x8000"] l(1) v3 obtain h4 where
    h4: "set_NBLOCK h3 c ((of_nat c + of_nat d) OR 0x8000) = Some h4" "views h4 = ((Nb h3)(c := ?e), Pb h3, Nf h3, Pf h3, (Fr h3)(c := True), length h3)"
    by (auto simp: e)
  have "unat (nblock (h2 ! c) AND 0x7FFF) = ?n" using v2(2) by (simp add: Nb_def)
  then have "umm_make_new_block (of_nat c) (of_nat d) 0x8000 h = Some h4"
    using h1(1) h2(1) h3(1) h4(1) l(1) v2(1) by (simp add: umm_make_new_block_def u rd_views)
  moreover have "views h4 = ((Nb h)(?e := ?n, c := ?e), (Pb h)(?e := c, ?n := ?e), Nf h, Pf h, (Fr h)(?e := False, c := True), length h)"
    using h1(2) h2(2) h3(2) h4(2) by (auto simp: views_eq)
  ultimately show ?thesis by blast
qed

text \<open>Merging with the next block, if that one is free.\<close>

lemma assimilate_up_same:
  assumes "c < length h" "Nb h c < length h" "length h \<le> 32768" "\<not> Fr h c" "\<not> Fr h (Nb h c)"
  shows "umm_assimilate_up (of_nat c) h = Some h"
proof -
  have u: "unat (of_nat c :: uint16_t) = c" using assms(1,3) by (simp add: unat_16)
  have n: "unat (nblock (h ! c)) = Nb h c" using unmarked [of "nblock (h ! c)"] assms(4) by (simp add: Nb_def Fr_def)
  show ?thesis using assms by (simp add: umm_assimilate_up_def u n rd_views Fr_def)
qed

lemma assimilate_up_views:
  assumes l: "c < length h" "Nb h c < length h" "Nb h (Nb h c) < length h" "Pf h (Nb h c) < length h" "Nf h (Nb h c) < length h" "length h \<le> 32768"
    and m: "\<not> Fr h c" "Fr h (Nb h c)" and d: "Pf h (Nb h c) \<noteq> Nb h c" "Nf h (Nb h c) \<noteq> Nb h c" "c \<noteq> Nb h c"
  defines "n \<equiv> Nb h c"
  shows "\<exists>h'. umm_assimilate_up (of_nat c) h = Some h' \<and>
     views h' = ((Nb h)(c := Nb h n), (Pb h)(Nb h n := c), (Nf h)(Pf h n := Nf h n), (Pf h)(Nf h n := Pf h n), (Fr h)(n := False, c := False), length h)"
proof -
  have u: "unat (of_nat c :: uint16_t) = c" using l by (simp add: unat_16)
  have "nblock (h ! c) = of_nat n" using view_words(4) [OF m(1)] by (simp add: n_def)
  moreover have "unat (of_nat n :: uint16_t) = n" using Nb_less [of h c] by (simp add: n_def unat_number)
  ultimately have n: "nblock (h ! c) = of_nat n" "unat (of_nat n :: uint16_t) = n" by blast+
  from disconnect_views [OF l(2,4,5,6) d(1,2)] obtain h1 where h1: "umm_disconnect_from_free_list (of_nat n) h = Some h1"
    "views h1 = (Nb h, Pb h, (Nf h)(Pf h n := Nf h n), (Pf h)(Nf h n := Pf h n), (Fr h)(n := False), length h)" by (auto simp: n_def)
  have v1: "length h1 = length h" "Nb h1 c = n" "\<not> Fr h1 c" "Nb h1 n = Nb h n" "\<not> Fr h1 n" using h1(2) m d(3) by (auto simp: views_eq n_def)
  have n1: "nblock (h1 ! c) = of_nat n" using view_words(4) [OF v1(3)] v1(2) by simp
  have nn1: "unat (nblock (h1 ! n) AND 0x7FFF) = Nb h n" using v1(4) by (simp add: Nb_def)
  from set_PBLOCK_views [of "Nb h n" h1 "of_nat c"] l(3) v1(1) obtain h2 where
    h2: "set_PBLOCK h1 (Nb h n) (of_nat c) = Some h2" "views h2 = (Nb h1, (Pb h1)(Nb h n := c), Nf h1, Pf h1, Fr h1, length h1)" by (auto simp: u n_def)
  have v2: "length h2 = length h" "Nb h2 c = n" "\<not> Fr h2 c" "Nb h2 n = Nb h n" using h2(2) v1 by (auto simp: views_eq)
  have n2: "nblock (h2 ! c) = of_nat n" using view_words(4) [OF v2(3)] v2(2) by simp
  have nn2: "unat (nblock (h2 ! n) AND 0x7FFF) = Nb h n" using v2(4) by (simp add: Nb_def)
  from set_NBLOCK_views [of c h2 "nblock (h2 ! n) AND 0x7FFF"] l(1) v2(1) obtain h3 where
    h3: "set_NBLOCK h2 c (nblock (h2 ! n) AND 0x7FFF) = Some h3" "views h3 = ((Nb h2)(c := Nb h n), Pb h2, Nf h2, Pf h2, (Fr h2)(c := False), length h2)"
    by (auto simp: nn2)
  have nl: "n < length h" using l(2) by (simp add: n_def)
  have "nblock (h ! n) AND 0x8000 \<noteq> 0" using m(2) by (simp add: Fr_def n_def)
  then have "umm_assimilate_up (of_nat c) h = Some h3"
    unfolding umm_assimilate_up_def using l(1) nl v1(1) v2(1) h1(1) h2(1) h3(1) n n1 n2 nn1 by (simp add: u rd_views)
  moreover have "views h3 = ((Nb h)(c := Nb h n), (Pb h)(Nb h n := c), (Nf h)(Pf h n := Nf h n), (Pf h)(Nf h n := Pf h n), (Fr h)(n := False, c := False), length h)"
    using h1(2) h2(2) h3(2) by (auto simp: views_eq)
  ultimately show ?thesis by blast
qed

lemma assimilate_down_views:
  assumes l: "c < length h" "Nb h c < length h" "Pb h c < length h" "length h \<le> 32768" and m: "\<not> Fr h c" and d: "Pb h c \<noteq> c" "Nb h c \<noteq> c"
  shows "\<exists>h'. umm_assimilate_down (of_nat c) 0x8000 h = Some (of_nat (Pb h c), h') \<and>
     views h' = ((Nb h)(Pb h c := Nb h c), (Pb h)(Nb h c := Pb h c), Nf h, Pf h, (Fr h)(Pb h c := True), length h)"
proof -
  let ?p = "Pb h c" let ?n = "Nb h c"
  have u: "unat (of_nat c :: uint16_t) = c" "unat (of_nat ?p :: uint16_t) = ?p" "unat (of_nat ?n :: uint16_t) = ?n" using l by (simp_all add: unat_16)
  have n: "nblock (h ! c) = of_nat ?n" using view_words(4) [OF m] by simp
  have "unat ((of_nat ?n :: uint16_t) AND 0x7FFF) = ?n" using number_unmarked [OF Nb_less [of h c]] u(3) by simp
  with set_NBLOCK_views [OF l(3), of "of_nat ?n OR 0x8000"] obtain h1 where
    h1: "set_NBLOCK h ?p (of_nat ?n OR 0x8000) = Some h1" "views h1 = ((Nb h)(?p := ?n), Pb h, Nf h, Pf h, (Fr h)(?p := True), length h)" by auto
  have v1: "length h1 = length h" "Nb h1 c = ?n" "\<not> Fr h1 c" "Pb h1 c = ?p" using h1(2) m d by (auto simp: views_eq)
  have n1: "nblock (h1 ! c) = of_nat ?n" using view_words(4) [OF v1(3)] v1(2) by simp
  from set_PBLOCK_views [of ?n h1 "of_nat ?p"] l(2) v1(1) obtain h2 where
    h2: "set_PBLOCK h1 ?n (of_nat ?p) = Some h2" "views h2 = (Nb h1, (Pb h1)(?n := ?p), Nf h1, Pf h1, Fr h1, length h1)" by (auto simp: u)
  have v2: "length h2 = length h" "Pb h2 c = ?p" using h2(2) v1 d by (auto simp: views_eq)
  have "umm_assimilate_down (of_nat c) 0x8000 h = Some (of_nat ?p, h2)"
    using l(1) v1 v2 h1(1) h2(1) n n1 by (simp add: umm_assimilate_down_def u rd_views(1) rd_Pb)
  moreover have "views h2 = ((Nb h)(?p := ?n), (Pb h)(?n := ?p), Nf h, Pf h, (Fr h)(?p := True), length h)"
    using h1(2) h2(2) by (auto simp: views_eq)
  ultimately show ?thesis by blast
qed

lemma push_free_views:
  assumes l: "0 < length h" "c < length h" "Nf h 0 < length h" "length h \<le> 32768" and d: "c \<noteq> 0" "Nf h 0 \<noteq> c"
  shows "\<exists>h'. push_free (of_nat c) h = Some h' \<and>
     views h' = (Nb h, Pb h, (Nf h)(c := Nf h 0, 0 := c), (Pf h)(Nf h 0 := c, c := 0), (Fr h)(c := True), length h)"
proof -
  let ?f = "Nf h 0"
  have u: "unat (of_nat c :: uint16_t) = c" "unat (of_nat ?f :: uint16_t) = ?f" using l by (simp_all add: unat_16)
  from set_PFREE_views [OF l(3), of "of_nat c"] obtain h1 where
    h1: "set_PFREE h ?f (of_nat c) = Some h1" "views h1 = (Nb h, Pb h, Nf h, (Pf h)(?f := c), Fr h, length h)" by (auto simp: u)
  have v1: "length h1 = length h" "Nf h1 0 = ?f" using h1(2) by (auto simp: views_eq)
  from set_NFREE_views [of c h1 "of_nat ?f"] l(2) v1(1) obtain h2 where
    h2: "set_NFREE h1 c (of_nat ?f) = Some h2" "views h2 = (Nb h1, Pb h1, (Nf h1)(c := ?f), Pf h1, Fr h1, length h1)" by (auto simp: u)
  from set_PFREE_views [of c h2 0] l(2) v1(1) h2(2) obtain h3 where
    h3: "set_PFREE h2 c 0 = Some h3" "views h3 = (Nb h2, Pb h2, Nf h2, (Pf h2)(c := 0), Fr h2, length h2)" by (auto simp: views_eq)
  have "0 < length h3" using l(1) v1(1) h2(2) h3(2) by (simp only: views_eq)
  from set_NFREE_views [OF this, of "of_nat c"] obtain h4 where
    h4: "set_NFREE h3 0 (of_nat c) = Some h4" "views h4 = (Nb h3, Pb h3, (Nf h3)(0 := c), Pf h3, Fr h3, length h3)" by (auto simp: u)
  have l4: "c < length h4" using l(2) v1(1) h2(2) h3(2) h4(2) by (auto simp: views_eq)
  from set_NBLOCK_views [OF l4, of "nblock (h4 ! c) OR 0x8000"] obtain h5 where
    h5: "set_NBLOCK h4 c (nblock (h4 ! c) OR 0x8000) = Some h5" "views h5 = ((Nb h4)(c := Nb h4 c), Pb h4, Nf h4, Pf h4, (Fr h4)(c := True), length h4)"
    by (auto simp: Nb_def simp del: fun_upd_triv)
  have "push_free (of_nat c) h = Some h5"
    using l v1 h1(1) h2(1) h3(1) h4(1) h5(1) l4 by (simp add: push_free_def u rd_Nf rd_views(1))
  moreover have "views h5 = (Nb h, Pb h, (Nf h)(c := ?f, 0 := c), (Pf h)(?f := c, c := 0), (Fr h)(c := True), length h)"
    using h1(2) h2(2) h3(2) h4(2) h5(2) by (auto simp: views_eq)
  ultimately show ?thesis by blast
qed

lemma init_heap_views:
  assumes "0 < length h"
  shows "\<exists>h'. init_heap 0 h = Some (1, h') \<and> views h' = ((Nb h)(0 := 1), Pb h, (Nf h)(0 := 1), Pf h, (Fr h)(0 := False), length h)"
proof -
  from set_NBLOCK_views [OF assms, of 1] obtain h1 where
    h1: "set_NBLOCK h 0 1 = Some h1" "views h1 = ((Nb h)(0 := 1), Pb h, Nf h, Pf h, (Fr h)(0 := False), length h)"
    using number_unmarked [of 1] number_no_mark [of 1] by auto
  have "0 < length h1" using h1(2) assms by (simp only: views_eq)
  from set_NFREE_views [OF this, of 1] obtain h2 where
    h2: "set_NFREE h1 0 1 = Some h2" "views h2 = (Nb h1, Pb h1, (Nf h1)(0 := 1), Pf h1, Fr h1, length h1)" by auto
  show ?thesis using h1 h2 by (intro exI [of _ h2]) (auto simp: init_heap_def views_eq)
qed

lemma copy_views:
  assumes "i < length h" "j < length h"
  shows "views (h[j := h ! i]) = ((Nb h)(j := Nb h i), (Pb h)(j := Pb h i), (Nf h)(j := Nf h i), (Pf h)(j := Pf h i), (Fr h)(j := Fr h i), length h)"
  using assms by (auto simp: views_def view_defs fun_eq_iff nth_list_update)

lemma take_new_views:
  assumes i: "init_heap cf h0 = Some (of_nat c, h)"
    and l: "c < length h" "c + k < length h" "Pf h c < length h" "length h \<le> 32768" and k: "0 < k" "Pf h c \<noteq> c"
  defines "p \<equiv> Pf h c"
  shows "\<exists>h'. take_new cf (of_nat k) h0 = Some (of_nat c, h') \<and>
     views h' = ((Nb h)(c + k := Nb h c, c := c + k), (Pb h)(c + k := c), (Nf h)(p := c + k, c + k := Nf h c), (Pf h)(c + k := p), (Fr h)(c + k := Fr h c, c := False), length h)"
proof -
  let ?e = "c + k"
  have u: "unat (of_nat c :: uint16_t) = c" "unat (of_nat k :: uint16_t) = k" "unat (of_nat c + of_nat k :: uint16_t) = ?e" "unat (of_nat p :: uint16_t) = p"
    using l unat_16 [of ?e] by (simp_all add: unat_16 p_def)
  have e: "unat ((of_nat c + of_nat k :: uint16_t) AND 0x7FFF) = ?e" "(of_nat c + of_nat k :: uint16_t) AND 0x8000 = 0"
    using number_unmarked [of ?e] number_no_mark [of ?e] unat_number [of ?e] l(2,4) by simp_all
  from set_NFREE_views [OF l(3), of "of_nat c + of_nat k"] obtain h1 where
    h1: "set_NFREE h p (of_nat c + of_nat k) = Some h1" "views h1 = (Nb h, Pb h, (Nf h)(p := ?e), Pf h, Fr h, length h)" by (auto simp: u p_def)
  let ?h2 = "h1[?e := h1 ! c]"
  have l1: "c < length h1" "?e < length h1" using h1(2) l by (simp_all only: views_eq)
  note v2 = copy_views [OF l1]
  have l2: "c < length ?h2" "?e < length ?h2" using l1 by simp_all
  from set_NBLOCK_views [OF l2(1), of "of_nat c + of_nat k"] obtain h3 where
    h3: "set_NBLOCK ?h2 c (of_nat c + of_nat k) = Some h3" "views h3 = ((Nb ?h2)(c := ?e), Pb ?h2, Nf ?h2, Pf ?h2, (Fr ?h2)(c := False), length ?h2)"
    by (auto simp: e)
  have "?e < length h3" using h3(2) l1 by (simp only: views_eq length_list_update)
  from set_PBLOCK_views [OF this, of "of_nat c"] obtain h4 where
    h4: "set_PBLOCK h3 ?e (of_nat c) = Some h4" "views h4 = (Nb h3, (Pb h3)(?e := c), Nf h3, Pf h3, Fr h3, length h3)" by (auto simp: u)
  have "UMM_PFREE h c = Some (of_nat p)" unfolding p_def by (rule rd_Pf [OF l(1)])
  then have "take_new cf (of_nat k) h0 = Some (of_nat c, h4)"
    unfolding take_new_def i using h1(1) l1 h3(1) h4(1) by (simp add: u)
  moreover have "views h4 = ((Nb h)(?e := Nb h c, c := ?e), (Pb h)(?e := c), (Nf h)(p := ?e, ?e := Nf h c), (Pf h)(?e := p), (Fr h)(?e := Fr h c, c := False), length h)"
    using h1(2) v2 h3(2) h4(2) k(2) by (auto simp: views_eq p_def)
  ultimately show ?thesis by blast
qed

end
