(* ===== verification/UmmInv.thy ===== *)
theory UmmInv
  imports UmmViews
begin

text \<open>
  The invariant of the heap and that every step of the allocator keeps it. \<open>bs\<close> are the starts of the blocks in the order of
  their addresses, the last one being the unused rest of the heap, and \<open>fl\<close> are the free blocks in the order of the free list.
\<close>

section \<open>The invariant\<close>

definition heap_inv :: "umm_heap \<Rightarrow> nat list \<Rightarrow> nat list \<Rightarrow> bool" where
  "heap_inv h bs fl \<longleftrightarrow> length h \<le> 32767 \<and> bs \<noteq> [] \<and> hd bs = 1 \<and> sorted_wrt (<) (0 # bs) \<and> last bs < length h \<and>
     Nb h (last bs) = 0 \<and> \<not> Fr h 0 \<and> \<not> Fr h (last bs) \<and> Nf h (last bs) = 0 \<and>
     linked (Nb h) (Pb h) (0 # bs) \<and> linked (Nf h) (Pf h) (0 # fl @ [last bs]) \<and>
     distinct fl \<and> set fl \<subseteq> set (butlast bs) \<and> (\<forall>a \<in> set (butlast bs). Fr h a \<longleftrightarrow> a \<in> set fl)"

lemma heap_invD:
  assumes "heap_inv h bs fl"
  shows "length h \<le> 32767" "bs \<noteq> []" "hd bs = 1" "sorted_wrt (<) (0 # bs)" "last bs < length h"
    "Nb h (last bs) = 0" "\<not> Fr h 0" "\<not> Fr h (last bs)" "Nf h (last bs) = 0"
    "linked (Nb h) (Pb h) (0 # bs)" "linked (Nf h) (Pf h) (0 # fl @ [last bs])"
    "distinct fl" "set fl \<subseteq> set (butlast bs)" "\<forall>a \<in> set (butlast bs). Fr h a \<longleftrightarrow> a \<in> set fl"
  using assms by (simp_all add: heap_inv_def)

lemma sorted_starts:
  assumes "sorted_wrt (<) (0 # bs)"
  shows "distinct (0 # bs :: nat list)" "a \<in> set bs \<Longrightarrow> 0 < a \<and> a \<le> last bs" "a \<in> set (butlast bs) \<Longrightarrow> a < last bs"
proof -
  show "distinct (0 # bs)" using assms by (auto simp: strict_sorted_iff)
  have s: "sorted_wrt (<) bs" "\<forall>a \<in> set bs. 0 < a" using assms by simp_all
  show l: "a < last bs" if "a \<in> set (butlast bs)"
  proof -
    have "bs \<noteq> []" using that by auto
    then have "bs = butlast bs @ [last bs]" by simp
    with s(1) have "sorted_wrt (<) (butlast bs @ [last bs])" by metis
    with that show ?thesis by (simp add: sorted_wrt_append)
  qed
  show "0 < a \<and> a \<le> last bs" if "a \<in> set bs"
  proof (cases "a \<in> set (butlast bs)")
    case True
    with l s(2) that show ?thesis by simp
  next
    case False
    have "bs \<noteq> []" using that by auto
    then have "bs = butlast bs @ [last bs]" by simp
    with False that have "a = last bs" by (metis Un_iff empty_iff insert_iff list.set(1,2) set_append)
    with s(2) that show ?thesis by simp
  qed
qed

lemma heap_inv_bounds:
  assumes i: "heap_inv h bs fl"
  shows "a \<in> set bs \<Longrightarrow> 0 < a \<and> a < length h" "0 < length h" "a \<in> set fl \<Longrightarrow> a \<in> set bs \<and> a \<noteq> last bs" "last bs \<in> set bs" "last bs \<notin> set fl"
    "0 \<notin> set bs" "0 \<notin> set fl" "last bs \<noteq> 0"
proof -
  note d = heap_invD [OF i] note s = sorted_starts [OF d(4)]
  show "a \<in> set bs \<Longrightarrow> 0 < a \<and> a < length h" using s(2) d(5) by fastforce
  show "0 < length h" using d(5) by linarith
  show f: "a \<in> set fl \<Longrightarrow> a \<in> set bs \<and> a \<noteq> last bs" for a using d(13) s(3) in_set_butlastD by fastforce
  show l: "last bs \<in> set bs" using d(2) by simp
  show "last bs \<notin> set fl" using f by blast
  show z: "0 \<notin> set bs" using s(1) by simp
  then show "0 \<notin> set fl" "last bs \<noteq> 0" using f l by metis+
qed

text \<open>The entries around one of the free list.\<close>

lemma free_links:
  assumes i: "heap_inv h bs (xs @ a # ys)"
  defines "p \<equiv> last (0 # xs)" and "n \<equiv> hd (ys @ [last bs])"
  shows "Pf h a = p" "Nf h a = n" "p < length h" "n < length h" "p \<noteq> a" "n \<noteq> a" "p \<noteq> n"
    "linked ((Nf h)(p := n)) ((Pf h)(n := p)) (0 # (xs @ ys) @ [last bs])"
proof -
  note d = heap_invD [OF i] note b = heap_inv_bounds [OF i]
  obtain zs where zs: "ys @ [last bs] = n # zs" unfolding n_def by (cases ys) auto
  define ps where "ps = butlast (0 # xs)"
  have ps: "0 # xs = ps @ [p]" unfolding ps_def p_def by (rule append_butlast_last_id [symmetric]) simp
  have e: "0 # (xs @ a # ys) @ [last bs] = ps @ p # a # n # zs" using ps zs by (metis append.assoc append_Cons append_Nil)
  have l: "linked (Nf h) (Pf h) (ps @ p # a # n # zs)" using d(11) e by simp
  have ds: "distinct (ps @ p # a # n # zs)" unfolding e [symmetric] using d(12) b(5,7,8) by auto
  show "Pf h a = p" using linked_mid [OF l] by simp
  have "linked (Nf h) (Pf h) ((ps @ [p]) @ a # n # zs)" using l by simp
  from linked_mid [OF this] show "Nf h a = n" by simp
  show "p \<noteq> a" "n \<noteq> a" "p \<noteq> n" using ds by auto
  have "linked ((Nf h)(p := n)) ((Pf h)(n := p)) (ps @ p # n # zs)" by (rule linked_remove [OF l ds])
  moreover have "0 # (xs @ ys) @ [last bs] = ps @ p # n # zs" using ps zs by (metis append.assoc append_Cons append_Nil)
  ultimately show "linked ((Nf h)(p := n)) ((Pf h)(n := p)) (0 # (xs @ ys) @ [last bs])" by simp
  have "p \<in> insert 0 (set xs)" unfolding p_def by (metis last_in_set list.distinct(1) list.set(2))
  then show "p < length h" using b(1,2,3) by auto
  have "n \<in> set ys \<union> {last bs}" unfolding n_def by (cases ys) auto
  then show "n < length h" using b(1,3) d(5) by auto
qed

section \<open>Steps\<close>

lemma disconnect_inv:
  assumes i: "heap_inv h bs (xs @ a # ys)"
  shows "\<exists>h'. umm_disconnect_from_free_list (of_nat a) h = Some h' \<and> heap_inv h' bs (xs @ ys) \<and>
     (\<forall>j. j \<notin> set (0 # xs @ a # ys @ [last bs]) \<longrightarrow> h' ! j = h ! j) \<and> Nb h' = Nb h \<and> length h' = length h"
proof -
  note d = heap_invD [OF i] note b = heap_inv_bounds [OF i] note f = free_links [OF i]
  have a: "a < length h" using b(1,3) by simp
  from disconnect_views [of a h] a f(1-6) d(1) obtain h' where h': "umm_disconnect_from_free_list (of_nat a) h = Some h'"
    "views h' = (Nb h, Pb h, (Nf h)(Pf h a := Nf h a), (Pf h)(Nf h a := Pf h a), (Fr h)(a := False), length h)" by auto
  let ?p = "last (0 # xs)" let ?n = "hd (ys @ [last bs])"
  have v: "Nb h' = Nb h" "Pb h' = Pb h" "Nf h' = (Nf h)(?p := ?n)" "Pf h' = (Pf h)(?n := ?p)" "Fr h' = (Fr h)(a := False)" "length h' = length h"
    using h'(2) f(1,2) by (simp_all add: views_eq)
  have pn: "?p \<in> set (0 # xs)" "?n \<in> set (ys @ [last bs])" by (rule last_in_set, simp, rule hd_in_set, simp)
  have "?p \<noteq> last bs" using pn(1) b(5,8) by auto
  then have t: "Nf h' (last bs) = 0" using v(3) d(9) by simp
  have "heap_inv h' bs (xs @ ys)" unfolding heap_inv_def using d v t f(8) b(5) by auto
  moreover have "h' ! j = h ! j" if "j \<notin> set (0 # xs @ a # ys @ [last bs])" for j
    by (rule block_eqI) (use that v pn in auto)
  ultimately show ?thesis using h'(1) v by blast
qed

text \<open>The entries around one of the block list.\<close>

lemma block_links:
  assumes i: "heap_inv h (us @ a # b # vs) fl"
  shows "Nb h a = b" "Pb h b = a" "Pb h a = last (0 # us)" "a < b" "b < length h" "0 < a" "\<forall>x \<in> set us. x < a" "\<forall>x \<in> set vs. b < x"
    "Fr h a \<longleftrightarrow> a \<in> set fl" "last (0 # us) < a"
proof -
  note d = heap_invD [OF i] note bd = heap_inv_bounds [OF i]
  have l: "linked (Nb h) (Pb h) ((0 # us) @ a # b # vs)" using d(10) by simp
  from linked_mid [OF l] show "Nb h a = b" "Pb h b = a" by simp_all
  have e: "0 # us = butlast (0 # us) @ [last (0 # us)]" by (rule append_butlast_last_id [symmetric]) simp
  from l have "linked (Nb h) (Pb h) (butlast (0 # us) @ last (0 # us) # a # b # vs)" by (subst (asm) e) simp
  from linked_mid [OF this] show "Pb h a = last (0 # us)" by simp
  have s: "sorted_wrt (<) (us @ a # b # vs)" using d(4) by simp
  then show "a < b" "\<forall>x \<in> set us. x < a" "\<forall>x \<in> set vs. b < x" by (auto simp: sorted_wrt_append)
  show "b < length h" "0 < a" using bd(1) by simp_all
  have "a \<in> set (butlast (us @ a # b # vs))" by (simp add: butlast_append)
  with d(14) show "Fr h a \<longleftrightarrow> a \<in> set fl" by blast
  have "last (0 # us) \<in> set (0 # us)" by (rule last_in_set) simp
  with \<open>0 < a\<close> \<open>\<forall>x \<in> set us. x < a\<close> show "last (0 # us) < a" by auto
qed

lemma make_new_inv:
  assumes i: "heap_inv h (us @ a # b # vs) fl" and a: "a \<in> set fl" and k: "a < k" "k < b"
  shows "\<exists>h'. umm_make_new_block (of_nat a) (of_nat (k - a)) 0x8000 h = Some h' \<and> heap_inv h' (us @ a # k # b # vs) fl \<and>
     (\<forall>j. j \<notin> {a, k, b} \<longrightarrow> h' ! j = h ! j) \<and> Nf h' = Nf h \<and> Pf h' = Pf h \<and> length h' = length h"
proof -
  note d = heap_invD [OF i] note b = block_links [OF i]
  have l: "length h \<le> 32768" "a < length h" "a + (k - a) < length h" "Nb h a < length h" "0 < k - a" "a + (k - a) = k" using d(1) b k by simp_all
  from make_new_block_views [OF l(2,3,4,1,5)] obtain h' where h': "umm_make_new_block (of_nat a) (of_nat (k - a)) 0x8000 h = Some h'"
    "views h' = ((Nb h)(k := b, a := k), (Pb h)(k := a, b := k), Nf h, Pf h, (Fr h)(k := False, a := True), length h)" unfolding l(6) b(1) by blast
  have "linked ((Nb h)(a := k, k := b)) ((Pb h)(k := a, b := k)) ((0 # us) @ a # k # b # vs)"
  proof (rule linked_insert)
    show "linked (Nb h) (Pb h) ((0 # us) @ a # b # vs)" using d(10) by simp
    have "k \<noteq> 0" "k \<notin> set us" "k \<notin> set vs" using b k by auto
    with sorted_starts(1) [OF d(4)] k show "distinct ((0 # us) @ a # k # b # vs)" by auto
  qed
  moreover have "(Nb h)(k := b, a := k) = (Nb h)(a := k, k := b)" using k by (intro fun_upd_twist) simp
  ultimately have ln: "linked ((Nb h)(k := b, a := k)) ((Pb h)(k := a, b := k)) (0 # us @ a # k # b # vs)" by simp
  have v: "Nb h' = (Nb h)(k := b, a := k)" "Pb h' = (Pb h)(k := a, b := k)" "Nf h' = Nf h" "Pf h' = Pf h" "Fr h' = (Fr h)(k := False, a := True)" "length h' = length h"
    using h'(2) by (simp_all add: views_eq)
  let ?t = "last (b # vs)"
  have t: "last (us @ a # b # vs) = ?t" "last (us @ a # k # b # vs) = ?t" by simp_all
  have "?t \<in> set (b # vs)" by (rule last_in_set) simp
  then have tk: "?t \<noteq> k" "?t \<noteq> a" using b k by auto
  have so: "sorted_wrt (<) (0 # us @ a # k # b # vs)" using d(4) k by (auto simp: sorted_wrt_append)
  have "k \<notin> set us" "k \<notin> set vs" using b(7,8) k by (metis less_asym, metis less_asym)
  then have "k \<notin> set (us @ a # b # vs)" using k by simp
  then have "k \<notin> set (butlast (us @ a # b # vs))" using in_set_butlastD [of k "us @ a # b # vs"] by (rule contrapos_nn)
  then have kf: "k \<notin> set fl" by (rule contra_subsetD [OF d(13)])
  have bl: "set (butlast (us @ a # k # b # vs)) = insert k (set (butlast (us @ a # b # vs)))" by (auto simp: butlast_append)
  have hd: "hd (us @ a # k # b # vs) = 1" using d(3) by (cases us) simp_all
  have "heap_inv h' (us @ a # k # b # vs) fl"
    unfolding heap_inv_def v t(2) bl using d ln so tk kf a hd b(6) k unfolding t(1) by auto
  moreover have "h' ! j = h ! j" if "j \<notin> {a, k, b}" for j by (rule block_eqI) (use that v in auto)
  ultimately show ?thesis using h'(1) v by blast
qed

lemma assimilate_up_inv:
  assumes i: "heap_inv h (us @ c # n # m # vs) (xs @ n # ys)" and c: "c \<notin> set (xs @ n # ys)"
  shows "\<exists>h'. umm_assimilate_up (of_nat c) h = Some h' \<and> heap_inv h' (us @ c # m # vs) (xs @ ys) \<and>
     (\<forall>j. j \<notin> set (0 # c # m # xs @ n # ys @ [last (m # vs)]) \<longrightarrow> h' ! j = h ! j) \<and>
     (\<forall>j. j \<notin> set (0 # xs @ n # ys @ [last (m # vs)]) \<longrightarrow> Nf h' j = Nf h j \<and> Pf h' j = Pf h j) \<and> length h' = length h"
proof -
  note d = heap_invD [OF i] note b = block_links [OF i]
  have i': "heap_inv h ((us @ [c]) @ n # m # vs) (xs @ n # ys)" using i by simp
  note b' = block_links [OF i'] note f = free_links [OF i]
  have t: "last (us @ c # n # m # vs) = last (m # vs)" by simp
  let ?t = "last (m # vs)" let ?p = "last (0 # xs)" let ?q = "hd (ys @ [?t])"
  have fr: "\<not> Fr h c" "Fr h n" using b(9) b'(9) c by auto
  from assimilate_up_views [of c h] b b' f(1-7) fr d(1) obtain h' where h': "umm_assimilate_up (of_nat c) h = Some h'"
    "views h' = ((Nb h)(c := m), (Pb h)(m := c), (Nf h)(?p := ?q), (Pf h)(?q := ?p), (Fr h)(n := False, c := False), length h)"
    unfolding t by auto
  have v: "Nb h' = (Nb h)(c := m)" "Pb h' = (Pb h)(m := c)" "Nf h' = (Nf h)(?p := ?q)" "Pf h' = (Pf h)(?q := ?p)" "Fr h' = (Fr h)(n := False, c := False)" "length h' = length h"
    using h'(2) by (simp_all add: views_eq)
  have ln: "linked ((Nb h)(c := m)) ((Pb h)(m := c)) (0 # us @ c # m # vs)"
    using linked_remove [of "Nb h" "Pb h" "0 # us" c n m vs] d(10) sorted_starts(1) [OF d(4)] by simp
  have lf: "linked ((Nf h)(?p := ?q)) ((Pf h)(?q := ?p)) (0 # (xs @ ys) @ [?t])" using f(8) unfolding t .
  have pq: "?p \<in> set (0 # xs)" "?q \<in> set (ys @ [?t])" by (rule last_in_set, simp, rule hd_in_set, simp)
  have "?t \<in> set (m # vs)" by (rule last_in_set) simp
  then have tc: "?t \<noteq> c" "?t \<noteq> n" "?t \<noteq> 0" using b b' by auto
  have tp: "?t \<noteq> ?p" using pq(1) heap_inv_bounds(5,8) [OF i] unfolding t by auto
  have bl: "set (butlast (us @ c # m # vs)) = set (butlast (us @ c # n # m # vs)) - {n}"
    using sorted_starts(1) [OF d(4)] by (auto simp: butlast_append dest: in_set_butlastD)
  have "heap_inv h' (us @ c # m # vs) (xs @ ys)"
  proof -
    have 1: "sorted_wrt (<) (0 # us @ c # m # vs)" using d(4) by (auto simp: sorted_wrt_append)
    have 2: "hd (us @ c # m # vs) = 1" using d(3) by (cases us) simp_all
    have 3: "set (xs @ ys) \<subseteq> set (butlast (us @ c # m # vs))" unfolding bl using d(12,13) by auto
    have 4: "\<forall>a \<in> set (butlast (us @ c # m # vs)). Fr h' a \<longleftrightarrow> a \<in> set (xs @ ys)" unfolding bl v using d(14) c by auto
    show ?thesis unfolding heap_inv_def using 1 2 3 4 d ln lf tc tp v unfolding t by auto
  qed
  moreover have "h' ! j = h ! j" if "j \<notin> set (0 # c # m # xs @ n # ys @ [?t])" for j by (rule block_eqI) (use that v pq in auto)
  moreover have "Nf h' j = Nf h j \<and> Pf h' j = Pf h j" if "j \<notin> set (0 # xs @ n # ys @ [?t])" for j using that v pq by auto
  ultimately show ?thesis using h'(1) v(6) by blast
qed

lemma assimilate_up_used:
  assumes i: "heap_inv h (us @ c # n # vs) fl" and c: "c \<notin> set fl" "n \<notin> set fl"
  shows "umm_assimilate_up (of_nat c) h = Some h"
proof (rule assimilate_up_same)
  note d = heap_invD [OF i] note b = block_links [OF i]
  show "c < length h" "Nb h c < length h" "length h \<le> 32768" "\<not> Fr h c" using b d(1) c by simp_all
  have "n = last (us @ c # n # vs) \<or> n \<in> set (butlast (us @ c # n # vs))" by (cases vs) (simp_all add: butlast_append)
  with d(8,14) c(2) have "\<not> Fr h n" by auto
  with b(1) show "\<not> Fr h (Nb h c)" by simp
qed

lemma assimilate_down_inv:
  assumes i: "heap_inv h (us @ p # c # n # vs) fl" and c: "p \<in> set fl" "c \<notin> set fl"
  shows "\<exists>h'. umm_assimilate_down (of_nat c) 0x8000 h = Some (of_nat p, h') \<and> heap_inv h' (us @ p # n # vs) fl \<and>
     (\<forall>j. j \<notin> {p, n} \<longrightarrow> h' ! j = h ! j) \<and> Nf h' = Nf h \<and> Pf h' = Pf h \<and> length h' = length h"
proof -
  note d = heap_invD [OF i] note b = block_links [OF i]
  have i': "heap_inv h ((us @ [p]) @ c # n # vs) fl" using i by simp
  note b' = block_links [OF i']
  have fr: "\<not> Fr h c" using b'(9) c(2) by simp
  from assimilate_down_views [of c h] b b' fr d(1) obtain h' where h': "umm_assimilate_down (of_nat c) 0x8000 h = Some (of_nat p, h')"
    "views h' = ((Nb h)(p := n), (Pb h)(n := p), Nf h, Pf h, (Fr h)(p := True), length h)" by auto
  have v: "Nb h' = (Nb h)(p := n)" "Pb h' = (Pb h)(n := p)" "Nf h' = Nf h" "Pf h' = Pf h" "Fr h' = (Fr h)(p := True)" "length h' = length h"
    using h'(2) by (simp_all add: views_eq)
  have ln: "linked ((Nb h)(p := n)) ((Pb h)(n := p)) (0 # us @ p # n # vs)"
    using linked_remove [of "Nb h" "Pb h" "0 # us" p c n vs] d(10) sorted_starts(1) [OF d(4)] by simp
  let ?t = "last (n # vs)"
  have t: "last (us @ p # c # n # vs) = ?t" "last (us @ p # n # vs) = ?t" by simp_all
  have "?t \<in> set (n # vs)" by (rule last_in_set) simp
  then have tp: "?t \<noteq> p" using b b' by auto
  have bl: "set (butlast (us @ p # n # vs)) = set (butlast (us @ p # c # n # vs)) - {c}"
    using sorted_starts(1) [OF d(4)] by (auto simp: butlast_append dest: in_set_butlastD)
  have "heap_inv h' (us @ p # n # vs) fl"
  proof -
    have 1: "sorted_wrt (<) (0 # us @ p # n # vs)" using d(4) by (auto simp: sorted_wrt_append)
    have 2: "hd (us @ p # n # vs) = 1" using d(3) by (cases us) simp_all
    have 3: "set fl \<subseteq> set (butlast (us @ p # n # vs))" unfolding bl using d(13) c(2) by auto
    have 4: "\<forall>a \<in> set (butlast (us @ p # n # vs)). Fr h' a \<longleftrightarrow> a \<in> set fl" unfolding bl v using d(14) c by auto
    have 5: "linked (Nb h') (Pb h') (0 # us @ p # n # vs)" using ln v by simp
    have 6: "Nb h' ?t = 0" "\<not> Fr h' 0" "\<not> Fr h' ?t" "Nf h' ?t = 0" using d(6-9) tp b(6) unfolding t(1) v by simp_all
    show ?thesis unfolding heap_inv_def using 1 2 3 4 5 6 d(1,2,5,11,12) unfolding t v(3,4,6) by blast
  qed
  moreover have "h' ! j = h ! j" if "j \<notin> {p, n}" for j by (rule block_eqI) (use that v in auto)
  ultimately show ?thesis using h'(1) v by blast
qed

lemma push_free_inv:
  assumes i: "heap_inv h bs fl" and c: "c \<in> set (butlast bs)" "c \<notin> set fl"
  shows "\<exists>h'. push_free (of_nat c) h = Some h' \<and> heap_inv h' bs (c # fl) \<and>
     (\<forall>j. j \<notin> set (0 # c # fl @ [last bs]) \<longrightarrow> h' ! j = h ! j) \<and> Nb h' = Nb h \<and> length h' = length h"
proof -
  note d = heap_invD [OF i] note b = heap_inv_bounds [OF i]
  let ?t = "last bs" let ?f = "hd (fl @ [?t])"
  obtain zs where zs: "fl @ [?t] = ?f # zs" by (cases fl) auto
  have fi: "?f \<in> set (fl @ [?t])" by (rule hd_in_set) simp
  have ct: "c \<noteq> ?t" "c \<in> set bs" using sorted_starts(3) [OF d(4) c(1)] in_set_butlastD [OF c(1)] by auto
  have l: "linked (Nf h) (Pf h) ([] @ 0 # ?f # zs)" using d(11) zs by simp
  from linked_mid [OF l] have nf: "Nf h 0 = ?f" by simp
  have c0: "c < length h" "c \<noteq> 0" using b(1) [OF ct(2)] by simp_all
  have f: "?f < length h" "?f \<noteq> c" using fi b(1,3,4) c(2) ct(1) by auto
  from push_free_views [of h c] b(2) c0 f nf d(1) obtain h' where h': "push_free (of_nat c) h = Some h'"
    "views h' = (Nb h, Pb h, (Nf h)(c := ?f, 0 := c), (Pf h)(?f := c, c := 0), (Fr h)(c := True), length h)" by auto
  have v: "Nb h' = Nb h" "Pb h' = Pb h" "Nf h' = (Nf h)(c := ?f, 0 := c)" "Pf h' = (Pf h)(?f := c, c := 0)" "Fr h' = (Fr h)(c := True)" "length h' = length h"
    using h'(2) by (simp_all add: views_eq)
  have "distinct ([] @ 0 # c # ?f # zs)" unfolding zs [symmetric] using d(12) c(2) c0(2) ct(1) b(5,7,8) by auto
  from linked_insert [OF l this] have "linked ((Nf h)(0 := c, c := ?f)) ((Pf h)(c := 0, ?f := c)) (0 # c # ?f # zs)" by simp
  moreover have "(Nf h)(0 := c, c := ?f) = Nf h'" "(Pf h)(c := 0, ?f := c) = Pf h'" unfolding v using c0(2) f(2) by (auto simp: fun_eq_iff)
  ultimately have lf: "linked (Nf h') (Pf h') (0 # (c # fl) @ [?t])" using zs by simp
  have t: "Nf h' ?t = 0" "\<not> Fr h' 0" "\<not> Fr h' ?t" using v ct(1) c0(2) b(8) d(7-9) by simp_all
  have "heap_inv h' bs (c # fl)" unfolding heap_inv_def
    using d(1-6,10,12,13,14) t lf c unfolding v(1,2,5,6) by auto
  moreover have "h' ! j = h ! j" if "j \<notin> set (0 # c # fl @ [?t])" for j by (rule block_eqI) (use that v fi in auto)
  ultimately show ?thesis using h'(1) v by blast
qed

lemma take_new_inv:
  assumes i: "heap_inv h bs fl" and k: "0 < k" "last bs + k < length h" and e: "init_heap cf h0 = Some (of_nat (last bs), h)"
  shows "\<exists>h'. take_new cf (of_nat k) h0 = Some (of_nat (last bs), h') \<and> heap_inv h' (bs @ [last bs + k]) fl \<and>
     (\<forall>j. j \<notin> set (0 # fl @ [last bs, last bs + k]) \<longrightarrow> h' ! j = h ! j) \<and> (\<forall>j. j \<in> set fl \<longrightarrow> Nb h' j = Nb h j) \<and> length h' = length h"
proof -
  note d = heap_invD [OF i] note b = heap_inv_bounds [OF i]
  let ?t = "last bs" let ?e = "last bs + k" let ?p = "last (0 # fl)"
  define ps where "ps = butlast (0 # fl)"
  have ps: "0 # fl = ps @ [?p]" unfolding ps_def by (rule append_butlast_last_id [symmetric]) simp
  have l: "linked (Nf h) (Pf h) (ps @ [?p, ?t])" using d(11) ps by (metis append.assoc append_Cons append_Nil)
  have pf: "Pf h ?t = ?p" using linked_mid [of "Nf h" "Pf h" ps ?p ?t "[]"] l by simp
  have pin: "?p \<in> set (0 # fl)" by (rule last_in_set) simp
  have p: "?p < length h" "?p \<noteq> ?t" using pin b by auto
  have lh: "length h \<le> 32768" using d(1) by simp
  from take_new_views [OF e d(5) k(2) _ lh k(1)] pf p obtain h' where h': "take_new cf (of_nat k) h0 = Some (of_nat ?t, h')"
    "views h' = ((Nb h)(?e := Nb h ?t, ?t := ?e), (Pb h)(?e := ?t), (Nf h)(?p := ?e, ?e := Nf h ?t), (Pf h)(?e := ?p), (Fr h)(?e := Fr h ?t, ?t := False), length h)"
    by auto
  have v: "Nb h' = (Nb h)(?e := 0, ?t := ?e)" "Pb h' = (Pb h)(?e := ?t)" "Nf h' = (Nf h)(?p := ?e, ?e := 0)" "Pf h' = (Pf h)(?e := ?p)" "Fr h' = (Fr h)(?e := False, ?t := False)" "length h' = length h"
    using h'(2) d(6,8,9) by (simp_all add: views_eq)
  have en: "?e \<notin> set (0 # bs)" "?e \<notin> set (0 # fl)" using sorted_starts(2) [OF d(4), of ?e] b(3) [of ?e] k(1) b(8) by auto
  have bs: "bs = butlast bs @ [?t]" using d(2) by simp
  have ln: "linked (Nb h') (Pb h') (0 # bs @ [?e])"
  proof -
    have "linked ((Nb h)(?t := ?e)) ((Pb h)(?e := ?t)) ((0 # butlast bs) @ [?t, ?e])"
    proof (rule linked_extend)
      show "linked (Nb h) (Pb h) ((0 # butlast bs) @ [?t])" using d(10) bs by simp
      have "distinct ((0 # bs) @ [?e])" using sorted_starts(1) [OF d(4)] en(1) by simp
      then show "distinct ((0 # butlast bs) @ [?t, ?e])" by (subst (asm) bs) simp
    qed
    moreover have "(0 # butlast bs) @ [?t, ?e] = 0 # bs @ [?e]" using bs by (metis append.assoc append_Cons append_Nil)
    ultimately have "linked ((Nb h)(?t := ?e)) ((Pb h)(?e := ?t)) (0 # bs @ [?e])" by (simp only:)
    then show ?thesis by (rule links_cong) (use v en(1) in \<open>auto simp: butlast_append\<close>)
  qed
  have lf: "linked (Nf h') (Pf h') (0 # fl @ [?e])"
  proof -
    have "distinct (ps @ [?p, ?t])" "?e \<notin> set (ps @ [?p])" using d(12) b(5,7,8) en(2) ps
      by (metis append.assoc append_Cons append_Nil distinct.simps(2) distinct1_rotate distinct_append rotate1.simps(2) set_ConsD, metis)
    from linked_relast [OF l this] have "linked ((Nf h)(?p := ?e)) ((Pf h)(?e := ?p)) (0 # fl @ [?e])" using ps by (metis append.assoc append_Cons append_Nil)
    then show ?thesis by (rule links_cong) (use v en(2) in \<open>auto simp: butlast_append\<close>)
  qed
  have "heap_inv h' (bs @ [?e]) fl"
  proof -
    have 1: "sorted_wrt (<) (0 # bs @ [?e])" using d(4) sorted_starts(2) [OF d(4)] k(1) by (fastforce simp: sorted_wrt_append)
    have bl: "set (butlast (bs @ [?e])) = insert ?t (set (butlast bs))" using bs by (metis butlast_snoc list.simps(15) rotate1.simps(2) set_rotate1 append_Nil2 Un_commute set_append list.set(1) Un_insert_right sup_bot_right)
    have 2: "set fl \<subseteq> set (butlast (bs @ [?e]))" unfolding bl using d(13) by auto
    have 3: "\<forall>a \<in> set (butlast (bs @ [?e])). Fr h' a \<longleftrightarrow> a \<in> set fl" unfolding bl v using d(14) b(5) en sorted_starts(3) [OF d(4)] by (auto dest: in_set_butlastD)
    show ?thesis unfolding heap_inv_def using 1 2 3 d ln lf v k en by auto
  qed
  moreover have "h' ! j = h ! j" if "j \<notin> set (0 # fl @ [?t, ?e])" for j by (rule block_eqI) (use that v pin in auto)
  moreover have "Nb h' j = Nb h j" if "j \<in> set fl" for j using that v en b(5) by auto
  ultimately show ?thesis using h'(1) v(6) by blast
qed

end
