(* ===== verification/UmmSpec.thy ===== *)
theory UmmSpec
  imports UmmInv
begin

text \<open>
  What the allocator promises, in terms of the blocks in use: \<^verbatim>\<open>umm_malloc\<close> adds one that is large enough and apart from all
  others, \<^verbatim>\<open>umm_free\<close> takes one away, and the contents of all other blocks stay.
\<close>

section \<open>Blocks in use\<close>

fun spans :: "nat list \<Rightarrow> (nat \<times> nat) list" where
  "spans (x # y # zs) = (x, y) # spans (y # zs)"
| "spans _ = []"

definition used :: "nat list \<Rightarrow> nat list \<Rightarrow> (nat \<times> nat) set" where
  "used bs fl = {(a, b). (a, b) \<in> set (spans bs) \<and> a \<notin> set fl}"

lemma spans_append: "spans (xs @ y # zs) = spans (xs @ [y]) @ spans (y # zs)"
  by (induction xs rule: induct_list012) auto

lemma spans_split: "(a, b) \<in> set (spans bs) \<longleftrightarrow> (\<exists>us vs. bs = us @ a # b # vs)"
proof
  show "(a, b) \<in> set (spans bs)" if "\<exists>us vs. bs = us @ a # b # vs"
    using that spans_append [of _ a "b # _"] by fastforce
  show "\<exists>us vs. bs = us @ a # b # vs" if "(a, b) \<in> set (spans bs)"
    using that
  proof (induction bs rule: spans.induct)
    case (1 x y zs)
    then show ?case by (metis append_Cons append_Nil prod.inject set_ConsD spans.simps(1))
  qed auto
qed

lemma spans_start: "(a, b) \<in> set (spans bs) \<Longrightarrow> a \<in> set (butlast bs) \<and> b \<in> set bs"
  by (auto simp: spans_split butlast_append)

lemma butlast_span: "a \<in> set (butlast bs) \<Longrightarrow> \<exists>b. (a, b) \<in> set (spans bs)"
  by (induction bs rule: induct_list012) (auto split: if_splits)

lemma spans_order:
  assumes s: "sorted_wrt (<) bs" and a: "(a, b) \<in> set (spans bs)" "(x, y) \<in> set (spans bs)"
  shows "a < b" "a = x \<and> b = y \<or> b \<le> x \<or> y \<le> a"
proof -
  from a(1) obtain us vs where bs: "bs = us @ a # b # vs" by (auto simp: spans_split)
  have o: "\<forall>z \<in> set us. z < a" "\<forall>z \<in> set vs. b < z" using s by (auto simp: bs sorted_wrt_append)
  show ab: "a < b" using s by (simp add: bs sorted_wrt_append)
  have "spans bs = spans (us @ [a]) @ (a, b) # spans (b # vs)" using spans_append [of us a "b # vs"] by (simp add: bs)
  with a(2) consider "(x, y) \<in> set (spans (us @ [a]))" | "x = a" "y = b" | "(x, y) \<in> set (spans (b # vs))" by auto
  then show "a = x \<and> b = y \<or> b \<le> x \<or> y \<le> a"
  proof cases
    case 1
    from spans_start [OF this] o(1) show ?thesis by force
  next
    case 3
    from spans_start [OF this] in_set_butlastD [of x "b # vs"] o(2) show ?thesis by force
  qed simp
qed

text \<open>No block starts inside another one.\<close>

lemma no_start_inside:
  assumes s: "sorted_wrt (<) bs" and a: "(a, b) \<in> set (spans bs)" and j: "j \<in> set bs"
  shows "\<not> (a < j \<and> j < b)"
proof -
  from a obtain us vs where bs: "bs = us @ a # b # vs" by (auto simp: spans_split)
  with s j show ?thesis by (auto simp: sorted_wrt_append)
qed

lemma used_span:
  assumes i: "heap_inv h bs fl" and u: "(a, b) \<in> used bs fl"
  shows "\<exists>us vs. bs = us @ a # b # vs" "Nb h a = b" "0 < a" "a < b" "b < length h" "a \<notin> set fl" "b \<le> last bs" "a \<noteq> last bs"
proof -
  from u obtain us vs where bs: "bs = us @ a # b # vs" and f: "a \<notin> set fl" by (auto simp: used_def spans_split)
  then show "\<exists>us vs. bs = us @ a # b # vs" "a \<notin> set fl" by auto
  show o: "Nb h a = b" "0 < a" "a < b" "b < length h" using block_links [of h us a b vs fl] i unfolding bs by simp_all
  show "b \<le> last bs" using sorted_starts(2) [OF heap_invD(4) [OF i], of b] bs by simp
  with o(3) show "a \<noteq> last bs" by simp
qed

section \<open>Contents\<close>

text \<open>The bytes between the header of the block and the next block.\<close>

definition same_data :: "umm_heap \<Rightarrow> umm_heap \<Rightarrow> nat \<times> nat \<Rightarrow> bool" where
  "same_data h h' = (\<lambda>(a, b). \<forall>i. 8 * a + 4 \<le> i \<and> i < 8 * b \<longrightarrow> get_byte i h' = get_byte i h)"

lemma same_dataI:
  assumes n: "Nf h' a = Nf h a" "Pf h' a = Pf h a" and j: "\<And>j. a < j \<Longrightarrow> j < b \<Longrightarrow> h' ! j = h ! j" and l: "length h' = length h"
  shows "same_data h h' (a, b)"
proof -
  have "get_byte i h' = get_byte i h" if i: "8 * a + 4 \<le> i" "i < 8 * b" for i
  proof (cases "i div 8 = a")
    case True
    then have m: "\<not> i mod 8 < 4" using i(1) by (metis add_less_cancel_left mult_div_mod_eq not_less)
    then have "\<not> i mod 8 < 2" by simp
    moreover have "nfree (h' ! a) = nfree (h ! a)" "pfree (h' ! a) = pfree (h ! a)" using n by (simp_all add: view_defs word_unat_eq_iff)
    ultimately show ?thesis using m True l by (simp add: get_byte_def rd_def Let_def)
  next
    case False
    then have "a < i div 8" "i div 8 < b" using i by (simp_all add: less_mult_imp_div_less mult.commute)
    with j [of "i div 8"] l show ?thesis by (simp add: get_byte_def rd_def)
  qed
  then show ?thesis by (simp add: same_data_def)
qed

lemma same_data_refl: "same_data h h x"
  by (simp add: same_data_def split: prod.split)

lemma same_data_trans: "same_data h h1 x \<Longrightarrow> same_data h1 h2 x \<Longrightarrow> same_data h h2 x"
  by (simp add: same_data_def split: prod.splits)

text \<open>A step that changes blocks of the two lists only at their starts keeps the contents.\<close>

lemma same_data_frame:
  assumes i: "heap_inv h bs fl" and u: "(a, b) \<in> used bs fl"
    and c: "\<And>j. j \<notin> S \<Longrightarrow> h' ! j = h ! j" and S: "\<And>j. j \<in> S \<Longrightarrow> a < j \<Longrightarrow> j < b \<Longrightarrow> j \<in> set (0 # bs)"
    and n: "Nf h' a = Nf h a" "Pf h' a = Pf h a" and l: "length h' = length h"
  shows "same_data h h' (a, b)"
proof (rule same_dataI [OF n _ l])
  fix j assume j: "a < j" "j < b"
  have "sorted_wrt (<) bs" "(a, b) \<in> set (spans bs)" using heap_invD(4) [OF i] u by (auto simp: used_def)
  then have "j \<notin> set (0 # bs)" using no_start_inside j by auto
  with S j have "j \<notin> S" by blast
  then show "h' ! j = h ! j" by (rule c)
qed

section \<open>The search\<close>

lemma free_size:
  assumes i: "heap_inv h bs fl" and a: "a \<in> set fl"
  shows "a < Nb h a" "Nb h a - a < 32767" "Nb h a \<le> last bs" "\<exists>us vs. bs = us @ a # Nb h a # vs"
proof -
  note d = heap_invD [OF i]
  from a d(13) obtain b where b: "(a, b) \<in> set (spans bs)" using butlast_span by blast
  then obtain us vs where bs: "bs = us @ a # b # vs" by (auto simp: spans_split)
  from block_links [of h us a b vs fl] i have l: "Nb h a = b" "a < b" unfolding bs by simp_all
  then show "a < Nb h a" "\<exists>us vs. bs = us @ a # Nb h a # vs" using bs by auto
  have "b \<in> set bs" using bs by simp
  then show t: "Nb h a \<le> last bs" using sorted_starts(2) [OF d(4)] l(1) by blast
  with d(1,5) show "Nb h a - a < 32767" by linarith
qed

text \<open>From any block of the free list on, the search ends at the first one that is large enough, or at the end.\<close>

lemma first_fit_spec:
  assumes i: "heap_inv h bs fl" and k: "unat blocks = k"
  shows "fl = xs @ ys \<Longrightarrow>
     (\<forall>a \<in> set ys. Nb h a - a < k) \<and> (\<exists>z. first_fit h blocks (of_nat (hd (ys @ [last bs]))) z0 = Some (of_nat (last bs), z)) \<or>
     (\<exists>us a vs. ys = us @ a # vs \<and> (\<forall>x \<in> set us. Nb h x - x < k) \<and> k \<le> Nb h a - a \<and>
        first_fit h blocks (of_nat (hd (ys @ [last bs]))) z0 = Some (of_nat a, of_nat (Nb h a - a)))"
proof (induction ys arbitrary: xs z0)
  case Nil
  note d = heap_invD [OF i]
  have "unat (of_nat (last bs) :: uint16_t) = last bs" using d(1,5) by (simp add: unat_16)
  then have "first_fit h blocks (of_nat (last bs)) z0 = Some (of_nat (last bs), z0)"
    using d(5,9) rd_Nf [of "last bs" h] by (subst first_fit.simps) simp
  then show ?case by simp
next
  case (Cons a ys)
  note d = heap_invD [OF i] note b = heap_inv_bounds [OF i]
  have a: "a \<in> set fl" "a < length h" using Cons.prems b(1,3) by simp_all
  note z = free_size [OF i a(1)]
  let ?s = "Nb h a - a" let ?n = "hd (ys @ [last bs])"
  have u: "unat (of_nat a :: uint16_t) = a" "unat (of_nat ?s :: uint16_t) = ?s" using a(2) d(1) z(2) by (intro unat_16; linarith)+
  have n: "Nf h a = ?n" using free_links(2) [of h bs xs a ys] i Cons.prems by simp
  have "?n \<in> set (ys @ [last bs])" by (rule hd_in_set) simp
  then have "0 < ?n" using b(7,8) Cons.prems by (metis Un_iff gr0I list.set_intros(2) set_ConsD set_append empty_iff list.set(1))
  then have nz: "(of_nat (Nf h a) :: uint16_t) \<noteq> 0" using n view_less(2) [of h a] unat_16 [of "Nf h a"] by (metis less_irrefl unat_0)
  have sz: "(nblock (h ! a) AND 0x7FFF) - of_nat a = (of_nat ?s :: uint16_t)" using z(1) by (simp add: of_nat_diff view_words(5))
  have c: "blocks \<le> of_nat ?s \<longleftrightarrow> k \<le> ?s" using u(2) k by (simp add: word_le_nat_alt)
  have step: "first_fit h blocks (of_nat a) z0 = (if k \<le> ?s then Some (of_nat a, of_nat ?s) else first_fit h blocks (of_nat ?n) (of_nat ?s))"
    by (subst first_fit.simps) (simp add: u(1) rd_Nf [OF a(2)] rd_views(1) [OF a(2)] nz [unfolded n] sz c n Let_def)
  show ?case
  proof (cases "k \<le> ?s")
    case True
    with step show ?thesis by (intro disjI2 exI [of _ "[]"] exI [of _ a] exI [of _ ys]) simp
  next
    case False
    have "fl = (xs @ [a]) @ ys" using Cons.prems by simp
    from Cons.IH [OF this, of "of_nat ?s"] show ?thesis
    proof (elim disjE exE conjE)
      fix us x vs assume "ys = us @ x # vs" "\<forall>x \<in> set us. Nb h x - x < k" "k \<le> Nb h x - x"
        "first_fit h blocks (of_nat ?n) (of_nat ?s) = Some (of_nat x, of_nat (Nb h x - x))"
      with step False show ?thesis by (intro disjI2 exI [of _ "a # us"] exI [of _ x] exI [of _ vs]) simp
    qed (use step False in simp_all)
  qed
qed

text \<open>The whole search, from the head of the list.\<close>

lemma first_fit_all:
  assumes i: "heap_inv h bs fl"
  shows "UMM_NFREE h 0 = Some (of_nat (hd (fl @ [last bs])))" (is ?head)
    and "(\<forall>a \<in> set fl. Nb h a - a < unat blocks) \<and> (\<exists>z. first_fit h blocks (of_nat (hd (fl @ [last bs]))) 0 = Some (of_nat (last bs), z)) \<or>
     (\<exists>a \<in> set fl. unat blocks \<le> Nb h a - a \<and> first_fit h blocks (of_nat (hd (fl @ [last bs]))) 0 = Some (of_nat a, of_nat (Nb h a - a)))"
proof -
  note d = heap_invD [OF i] note b = heap_inv_bounds [OF i]
  let ?f = "hd (fl @ [last bs])"
  obtain zs where "fl @ [last bs] = ?f # zs" by (cases fl) auto
  then have "Nf h 0 = ?f" using d(11) linked_mid [of "Nf h" "Pf h" "[]" 0 ?f zs] by simp
  then show ?head using rd_Nf [OF b(2)] by simp
  show "(\<forall>a \<in> set fl. Nb h a - a < unat blocks) \<and> (\<exists>z. first_fit h blocks (of_nat ?f) 0 = Some (of_nat (last bs), z)) \<or>
     (\<exists>a \<in> set fl. unat blocks \<le> Nb h a - a \<and> first_fit h blocks (of_nat ?f) 0 = Some (of_nat a, of_nat (Nb h a - a)))"
    using first_fit_spec [OF i refl, where xs = "[]" and ys = fl and ?z0.0 = 0 and blocks = blocks] by auto
qed

section \<open>Allocation\<close>

text \<open>No two neighbours are both free.\<close>

definition coalesced :: "nat list \<Rightarrow> nat list \<Rightarrow> bool" where
  "coalesced bs fl \<longleftrightarrow> (\<forall>(a, b) \<in> set (spans bs). \<not> (a \<in> set fl \<and> b \<in> set fl))"

text \<open>The step from one heap to another in which the block \<open>x\<close> is added to those in use.\<close>

definition allocates :: "umm_heap \<Rightarrow> nat list \<Rightarrow> nat list \<Rightarrow> nat \<times> nat \<Rightarrow> umm_heap \<Rightarrow> bool" where
  "allocates h bs fl x h' \<longleftrightarrow> (\<exists>bs' fl'. heap_inv h' bs' fl' \<and> used bs' fl' = insert x (used bs fl) \<and> x \<notin> used bs fl \<and>
     (coalesced bs fl \<longrightarrow> coalesced bs' fl') \<and> (\<forall>y \<in> used bs fl. same_data h h' y) \<and> length h' = length h)"

lemma allocatesI:
  assumes "heap_inv h' bs' fl'" "used bs' fl' = insert x (used bs fl)" "x \<notin> used bs fl" "coalesced bs fl \<longrightarrow> coalesced bs' fl'"
    "\<And>a b. (a, b) \<in> used bs fl \<Longrightarrow> same_data h h' (a, b)" "length h' = length h"
  shows "allocates h bs fl x h'"
  unfolding allocates_def using assms by (intro exI [of _ bs'] exI [of _ fl'] conjI ballI) auto

lemma allocates_exact:
  assumes i: "heap_inv h bs fl" and a: "a \<in> set fl"
  shows "\<exists>h'. umm_disconnect_from_free_list (of_nat a) h = Some h' \<and> allocates h bs fl (a, Nb h a) h'"
proof -
  note d = heap_invD [OF i]
  from a obtain xs ys where fl: "fl = xs @ a # ys" by (meson split_list)
  from disconnect_inv [of h bs xs a ys] i fl obtain h' where h': "umm_disconnect_from_free_list (of_nat a) h = Some h'" "heap_inv h' bs (xs @ ys)"
    "\<forall>j. j \<notin> set (0 # fl @ [last bs]) \<longrightarrow> h' ! j = h ! j" "length h' = length h" by auto
  from free_size(4) [OF i a] obtain us vs where bs: "bs = us @ a # Nb h a # vs" by blast
  then have sp: "(a, Nb h a) \<in> set (spans bs)" by (auto simp: spans_split)
  have s: "sorted_wrt (<) bs" using d(4) by simp
  have un: "b = Nb h a" if "(a, b) \<in> set (spans bs)" for b using spans_order [OF s sp that] spans_order(1) [OF s that sp] by auto
  have m: "x \<in> set (xs @ ys) \<longleftrightarrow> x \<in> set fl \<and> x \<noteq> a" for x using d(12) fl by auto
  have "(x, y) \<in> used bs (xs @ ys) \<longleftrightarrow> (x, y) \<in> insert (a, Nb h a) (used bs fl)" for x y
    unfolding used_def using sp un [of y] m [of x] by (cases "x = a") auto
  then have "used bs (xs @ ys) = insert (a, Nb h a) (used bs fl)" by auto
  moreover have "(a, Nb h a) \<notin> used bs fl" using a by (simp add: used_def)
  moreover have "coalesced bs fl \<longrightarrow> coalesced bs (xs @ ys)" unfolding coalesced_def m by auto
  moreover have "same_data h h' (x, y)" if u: "(x, y) \<in> used bs fl" for x y
  proof (rule same_data_frame [OF i u, of "set (0 # fl @ [last bs])"])
    note b = heap_inv_bounds [OF i] note sx = used_span [OF i u]
    show "h' ! j = h ! j" if "j \<notin> set (0 # fl @ [last bs])" for j using h'(3) that by blast
    show "j \<in> set (0 # bs)" if "j \<in> set (0 # fl @ [last bs])" for j using that b(3,4) by auto
    have "h' ! x = h ! x" using h'(3) sx by simp
    then show "Nf h' x = Nf h x" "Pf h' x = Pf h x" by (simp_all add: view_defs)
  qed (use h'(4) in simp)
  ultimately have "allocates h bs fl (a, Nb h a) h'" by (intro allocatesI [OF h'(2)] h'(4)) auto
  with h'(1) show ?thesis by blast
qed

lemma allocates_split:
  assumes i: "heap_inv h bs fl" and a: "a \<in> set fl" and k: "0 < k" "k < Nb h a - a"
  shows "\<exists>h'. umm_make_new_block (of_nat a) (of_nat (Nb h a - a - k)) 0x8000 h = Some h' \<and> allocates h bs fl (Nb h a - k, Nb h a) h'"
proof -
  note d = heap_invD [OF i]
  let ?b = "Nb h a" let ?c = "Nb h a - k"
  from free_size(4) [OF i a] obtain us vs where bs: "bs = us @ a # ?b # vs" by blast
  have c: "a < ?c" "?c < ?b" "?c - a = ?b - a - k" using k by simp_all
  from make_new_inv [of h us a ?b vs fl ?c] i a c(1,2) bs obtain h' where h': "umm_make_new_block (of_nat a) (of_nat (?c - a)) 0x8000 h = Some h'"
    "heap_inv h' (us @ a # ?c # ?b # vs) fl" "\<forall>j. j \<notin> {a, ?c, ?b} \<longrightarrow> h' ! j = h ! j" "Nf h' = Nf h" "Pf h' = Pf h" "length h' = length h" by blast
  have sp: "spans bs = spans (us @ [a]) @ (a, ?b) # spans (?b # vs)" unfolding bs using spans_append [of us a "?b # vs"] by simp
  have sp': "spans (us @ a # ?c # ?b # vs) = spans (us @ [a]) @ (a, ?c) # (?c, ?b) # spans (?b # vs)" using spans_append [of us a "?c # ?b # vs"] by simp
  have s: "sorted_wrt (<) bs" using d(4) by simp
  have ab: "(a, ?b) \<in> set (spans bs)" unfolding sp by simp
  have "?c \<notin> set bs" using no_start_inside [OF s ab, of ?c] c(1,2) by blast
  then have cf: "?c \<notin> set fl" using heap_inv_bounds(3) [OF i] by blast
  have "used (us @ a # ?c # ?b # vs) fl = insert (?c, ?b) (used bs fl)" unfolding used_def sp sp' using a cf by auto
  moreover have "(?c, ?b) \<notin> used bs fl" using \<open>?c \<notin> set bs\<close> spans_start in_set_butlastD by (fastforce simp: used_def)
  moreover have "coalesced bs fl \<longrightarrow> coalesced (us @ a # ?c # ?b # vs) fl" unfolding coalesced_def sp sp' using cf by auto
  moreover have "same_data h h' (x, y)" if u: "(x, y) \<in> used bs fl" for x y
  proof (rule same_data_frame [OF i u, of "{a, ?c, ?b}"])
    have xy: "(x, y) \<in> set (spans bs)" "x \<noteq> a" using u a by (auto simp: used_def)
    show "h' ! j = h ! j" if "j \<notin> {a, ?c, ?b}" for j using h'(3) that by blast
    show "j \<in> set (0 # bs)" if "j \<in> {a, ?c, ?b}" "x < j" "j < y" for j using that bs spans_order(2) [OF s ab xy(1)] xy(2) c by auto
  qed (use h'(4-6) in simp_all)
  ultimately have "allocates h bs fl (?c, ?b) h'" by (intro allocatesI [OF h'(2)] h'(6)) auto
  with h'(1) show ?thesis unfolding c(3) by blast
qed

lemma allocates_new:
  assumes i: "heap_inv h bs fl" and k: "0 < k" "last bs + k < length h" and e: "init_heap cf h0 = Some (of_nat (last bs), h)"
  shows "\<exists>h'. take_new cf (of_nat k) h0 = Some (of_nat (last bs), h') \<and> allocates h bs fl (last bs, last bs + k) h'"
proof -
  note d = heap_invD [OF i] note b = heap_inv_bounds [OF i]
  let ?t = "last bs" let ?e = "last bs + k"
  from take_new_inv [OF i k e] obtain h' where h': "take_new cf (of_nat k) h0 = Some (of_nat ?t, h')" "heap_inv h' (bs @ [?e]) fl"
    "\<forall>j. j \<notin> set (0 # fl @ [?t, ?e]) \<longrightarrow> h' ! j = h ! j" "length h' = length h" by blast
  have bs: "bs = butlast bs @ [?t]" using d(2) by simp
  have sp: "spans (bs @ [?e]) = spans bs @ [(?t, ?e)]" using spans_append [of "butlast bs" ?t "[?e]"] bs by (metis append.assoc append_Cons append_Nil spans.simps(1,3))
  have en: "?e \<notin> set fl" using b(3) [of ?e] sorted_starts(2) [OF d(4), of ?e] k(1) by auto
  have "used (bs @ [?e]) fl = insert (?t, ?e) (used bs fl)" unfolding used_def sp using b(5) by auto
  moreover have "(?t, ?e) \<notin> used bs fl" using used_span(8) [OF i] by blast
  moreover have "coalesced bs fl \<longrightarrow> coalesced (bs @ [?e]) fl" unfolding coalesced_def sp using b(5) by auto
  moreover have "same_data h h' (x, y)" if u: "(x, y) \<in> used bs fl" for x y
  proof (rule same_data_frame [OF i u, of "set (0 # fl @ [?t, ?e])"])
    note sx = used_span [OF i u]
    show "h' ! j = h ! j" if "j \<notin> set (0 # fl @ [?t, ?e])" for j using h'(3) that by blast
    show "j \<in> set (0 # bs)" if "j \<in> set (0 # fl @ [?t, ?e])" "x < j" "j < y" for j using that b(3,4) sx(7) by auto
    have "h' ! x = h ! x" using h'(3) sx k(1) by auto
    then show "Nf h' x = Nf h x" "Pf h' x = Pf h x" by (simp_all add: view_defs)
  qed (use h'(4) in simp)
  ultimately have "allocates h bs fl (?t, ?e) h'" by (intro allocatesI [OF h'(2)] h'(4)) auto
  with h'(1) show ?thesis by blast
qed

end
