(* ===== verification/UmmFree.thy ===== *)
theory UmmFree
  imports UmmSpec
begin

text \<open>
  \<^verbatim>\<open>umm_free\<close> takes one block away from those in use and merges it with its free neighbours.
\<close>

section \<open>Merging with the next block\<close>

lemma spans_mid: "spans (us @ a # b # vs) = spans (us @ [a]) @ (a, b) # spans (b # vs)"
  using spans_append [of us a "b # vs"] by simp

lemma spans_before:
  assumes "sorted_wrt (<) (us @ c # vs)" "(x, y) \<in> set (spans (us @ [c]))"
  shows "x \<in> set us" "x < c" "y \<le> c" "x \<noteq> c"
proof -
  show "x \<in> set us" using spans_start [OF assms(2)] by simp
  then show "x < c" using assms(1) by (auto simp: sorted_wrt_append)
  then show "x \<noteq> c" by simp
  have "y \<in> set (us @ [c])" using spans_start [OF assms(2)] by simp
  then show "y \<le> c" using assms(1) by (auto simp: sorted_wrt_append)
qed

lemma spans_after:
  assumes "sorted_wrt (<) (us @ c # b # vs)" "(x, y) \<in> set (spans (b # vs))"
  shows "c < x" "b \<le> x" "x < y"
proof -
  have "x \<in> set (b # vs)" using spans_start [OF assms(2)] in_set_butlastD by fast
  then show "c < x" "b \<le> x" using assms(1) by (auto simp: sorted_wrt_append)
  have "sorted_wrt (<) (b # vs)" using assms(1) by (simp add: sorted_wrt_append)
  from spans_order(1) [OF this assms(2,2)] show "x < y" .
qed

lemma free_up:
  assumes i: "heap_inv h (us @ c # b # vs) fl" and co: "coalesced (us @ c # b # vs) fl" and c: "c \<notin> set fl"
  shows "\<exists>h1 n ws fl1. umm_assimilate_up (of_nat c) h = Some h1 \<and> heap_inv h1 (us @ c # n # ws) fl1 \<and> coalesced (us @ c # n # ws) fl1 \<and>
     c \<notin> set fl1 \<and> n \<notin> set fl1 \<and> used (us @ c # n # ws) fl1 = insert (c, n) (used (us @ c # b # vs) fl - {(c, b)}) \<and>
     (\<forall>x y. (x, y) \<in> used (us @ c # b # vs) fl - {(c, b)} \<longrightarrow> same_data h h1 (x, y)) \<and> length h1 = length h"
proof (cases "b \<in> set fl")
  case False
  have "used (us @ c # b # vs) fl = insert (c, b) (used (us @ c # b # vs) fl - {(c, b)})" using c by (auto simp: used_def spans_mid)
  with assimilate_up_used [OF i c False] i co c False same_data_refl show ?thesis by blast
next
  case True
  note d = heap_invD [OF i] note bd = heap_inv_bounds [OF i]
  let ?bs = "us @ c # b # vs"
  from True obtain xs ys where fl: "fl = xs @ b # ys" by (meson split_list)
  have "b \<noteq> last ?bs" using bd(3) [OF True] by simp
  then obtain m ws where vs: "vs = m # ws" by (cases vs) auto
  from assimilate_up_inv [of h us c b m ws xs ys] i c fl vs obtain h1 where h1: "umm_assimilate_up (of_nat c) h = Some h1"
    "heap_inv h1 (us @ c # m # ws) (xs @ ys)" "\<forall>j. j \<notin> set (0 # c # m # fl @ [last (m # ws)]) \<longrightarrow> h1 ! j = h ! j"
    "\<forall>j. j \<notin> set (0 # fl @ [last (m # ws)]) \<longrightarrow> Nf h1 j = Nf h j \<and> Pf h1 j = Pf h j" "length h1 = length h" by auto
  have s: "sorted_wrt (<) (us @ c # b # m # ws)" using d(4) vs by simp
  have sp: "spans ?bs = spans (us @ [c]) @ (c, b) # (b, m) # spans (m # ws)" unfolding vs by (simp add: spans_mid)
  have sp': "spans (us @ c # m # ws) = spans (us @ [c]) @ (c, m) # spans (m # ws)" by (simp add: spans_mid)
  have mem: "x \<in> set (xs @ ys) \<longleftrightarrow> x \<in> set fl \<and> x \<noteq> b" for x using d(12) fl by auto
  have bx: "c < b" "b < m" using s by (auto simp: sorted_wrt_append)
  have bef: "x < b" if "(x, y) \<in> set (spans (us @ [c]))" for x y using spans_before(2) [OF s that] bx by simp
  have s2: "sorted_wrt (<) ((us @ [c]) @ b # m # ws)" using s by simp
  have aft: "b < x" if "(x, y) \<in> set (spans (m # ws))" for x y using spans_after(1) [OF s2 that] .
  have mf: "m \<notin> set fl" using co True unfolding coalesced_def sp by auto
  have us: "(x, y) \<in> used (us @ c # m # ws) (xs @ ys) \<longleftrightarrow> (x, y) \<in> insert (c, m) (used ?bs fl - {(c, b)})" for x y
  proof -
    have "x \<noteq> c" if "(x, y) \<in> set (spans (us @ [c])) \<or> (x, y) \<in> set (spans (m # ws))"
      using that spans_before(4) [OF s] aft bx(1) by fastforce
    with bef aft True c show ?thesis unfolding used_def sp sp' mem by auto
  qed
  have "coalesced (us @ c # m # ws) (xs @ ys)" using co mf unfolding coalesced_def sp sp' mem by auto
  moreover have "same_data h h1 (x, y)" if u: "(x, y) \<in> used ?bs fl - {(c, b)}" for x y
  proof (rule same_data_frame [OF i, of x y "set (0 # c # m # fl @ [last (m # ws)])"])
    have t: "last ?bs = last (m # ws)" by (simp add: vs)
    from u have u': "(x, y) \<in> used ?bs fl" by simp
    then show "(x, y) \<in> used ?bs fl" .
    note sx = used_span [OF i u']
    show "h1 ! j = h ! j" if "j \<notin> set (0 # c # m # fl @ [last (m # ws)])" for j using h1(3) that by blast
    show "j \<in> set (0 # ?bs)" if "j \<in> set (0 # c # m # fl @ [last (m # ws)])" for j
      using that bd(3,4) unfolding t by (auto simp: vs)
    have "x \<notin> set (0 # fl @ [last (m # ws)])" using sx t by auto
    with h1(4) show "Nf h1 x = Nf h x" "Pf h1 x = Pf h x" by blast+
  qed (use h1(5) in simp)
  moreover have "c \<notin> set (xs @ ys)" "m \<notin> set (xs @ ys)" using c mf mem by auto
  moreover have "used (us @ c # m # ws) (xs @ ys) = insert (c, m) (used ?bs fl - {(c, b)})" using us by auto
  ultimately show ?thesis using h1(1,2,5) by blast
qed

section \<open>Merging with the block before\<close>

lemma free_down:
  assumes i: "heap_inv h (us @ p # c # n # vs) fl" and co: "coalesced (us @ p # c # n # vs) fl" and c: "p \<in> set fl" "c \<notin> set fl" "n \<notin> set fl"
  shows "\<exists>h'. umm_assimilate_down (of_nat c) 0x8000 h = Some (of_nat p, h') \<and> heap_inv h' (us @ p # n # vs) fl \<and> coalesced (us @ p # n # vs) fl \<and>
     used (us @ p # n # vs) fl = used (us @ p # c # n # vs) fl - {(c, n)} \<and>
     (\<forall>x y. (x, y) \<in> used (us @ p # c # n # vs) fl - {(c, n)} \<longrightarrow> same_data h h' (x, y)) \<and> length h' = length h"
proof -
  let ?bs = "us @ p # c # n # vs"
  from assimilate_down_inv [OF i c(1,2)] obtain h' where h': "umm_assimilate_down (of_nat c) 0x8000 h = Some (of_nat p, h')"
    "heap_inv h' (us @ p # n # vs) fl" "\<forall>j. j \<notin> {p, n} \<longrightarrow> h' ! j = h ! j" "Nf h' = Nf h" "Pf h' = Pf h" "length h' = length h" by blast
  have s: "sorted_wrt (<) ?bs" "sorted_wrt (<) ((us @ [p]) @ c # n # vs)" using heap_invD(4) [OF i] by simp_all
  have sp: "spans ?bs = spans (us @ [p]) @ (p, c) # (c, n) # spans (n # vs)" by (simp add: spans_mid)
  have sp': "spans (us @ p # n # vs) = spans (us @ [p]) @ (p, n) # spans (n # vs)" by (simp add: spans_mid)
  have "p < c" using s(1) by (simp add: sorted_wrt_append)
  then have "x \<noteq> c" if "(x, y) \<in> set (spans (us @ [p])) \<or> (x, y) \<in> set (spans (n # vs))" for x y
    using that spans_before(2) [OF s(1)] spans_after(1) [OF s(2)] by fastforce
  then have us: "used (us @ p # n # vs) fl = used ?bs fl - {(c, n)}" unfolding used_def sp sp' using c by auto
  have "coalesced (us @ p # n # vs) fl" using co c(3) unfolding coalesced_def sp sp' by auto
  moreover have "same_data h h' (x, y)" if u: "(x, y) \<in> used ?bs fl - {(c, n)}" for x y
    by (rule same_data_frame [OF i, of x y "{p, n}"]) (use u h'(3-6) in auto)
  ultimately show ?thesis using us h'(1,2,6) by blast
qed

lemma free_push:
  assumes i: "heap_inv h (us @ c # n # vs) fl" and co: "coalesced (us @ c # n # vs) fl" and c: "c \<notin> set fl" "n \<notin> set fl" "last (0 # us) \<notin> set fl"
  shows "\<exists>h'. push_free (of_nat c) h = Some h' \<and> heap_inv h' (us @ c # n # vs) (c # fl) \<and> coalesced (us @ c # n # vs) (c # fl) \<and>
     used (us @ c # n # vs) (c # fl) = used (us @ c # n # vs) fl - {(c, n)} \<and>
     (\<forall>x y. (x, y) \<in> used (us @ c # n # vs) fl - {(c, n)} \<longrightarrow> same_data h h' (x, y)) \<and> length h' = length h"
proof -
  let ?bs = "us @ c # n # vs"
  have cb: "c \<in> set (butlast ?bs)" by (simp add: butlast_append)
  from push_free_inv [OF i cb c(1)] obtain h' where h': "push_free (of_nat c) h = Some h'" "heap_inv h' ?bs (c # fl)"
    "\<forall>j. j \<notin> set (0 # c # fl @ [last ?bs]) \<longrightarrow> h' ! j = h ! j" "length h' = length h" by blast
  have s: "sorted_wrt (<) ?bs" using heap_invD(4) [OF i] by simp
  have sp: "spans ?bs = spans (us @ [c]) @ (c, n) # spans (n # vs)" by (rule spans_mid)
  have cn: "c < n" using s by (simp add: sorted_wrt_append)
  have other: "x \<noteq> c" if "(x, y) \<in> set (spans (us @ [c])) \<or> (x, y) \<in> set (spans (n # vs))" for x y
    using that spans_before(4) [OF s] spans_after(1) [OF s] by fastforce
  have us: "used ?bs (c # fl) = used ?bs fl - {(c, n)}" unfolding used_def sp using other by auto
  have prev: "x = last (0 # us)" if "(x, c) \<in> set (spans (us @ [c]))" for x
  proof -
    from that obtain ps qs where e: "us @ [c] = ps @ x # c # qs" by (auto simp: spans_split)
    have "c \<notin> set us" using s by (auto simp: sorted_wrt_append)
    then have "qs = []" using e by (cases qs rule: rev_cases) (auto simp: append_eq_append_conv2 Cons_eq_append_conv)
    with e show ?thesis by (metis append.assoc append_Cons append_Nil butlast_snoc last_ConsR last_snoc snoc_eq_iff_butlast)
  qed
  have after: "y \<noteq> c" if "(x, y) \<in> set (spans (n # vs))" for x y using spans_after [OF s that] by simp
  have "coalesced ?bs (c # fl)" using co c cn prev other after unfolding coalesced_def sp by fastforce
  moreover have "same_data h h' (x, y)" if u: "(x, y) \<in> used ?bs fl - {(c, n)}" for x y
  proof (rule same_data_frame [OF i, of x y "set (0 # c # fl @ [last ?bs])"])
    from u have u': "(x, y) \<in> used ?bs fl" by simp
    then show "(x, y) \<in> used ?bs fl" .
    note sx = used_span [OF i u'] note bd = heap_inv_bounds [OF i]
    show "h' ! j = h ! j" if "j \<notin> set (0 # c # fl @ [last ?bs])" for j using h'(3) that by blast
    show "j \<in> set (0 # ?bs)" if "j \<in> set (0 # c # fl @ [last ?bs])" for j using that bd(3,4) by auto
    have "x \<noteq> c" using u us by (auto simp: used_def)
    then have "h' ! x = h ! x" using h'(3) sx by auto
    then show "Nf h' x = Nf h x" "Pf h' x = Pf h x" by (simp_all add: view_defs)
  qed (use h'(4) in simp)
  ultimately show ?thesis using us h'(1,2,4) by blast
qed

end
