(* ===== verification/UmmAlloc.thy ===== *)
theory UmmAlloc
  imports UmmFree
begin

text \<open>
  The contract of the allocator: \<open>heap_ok h U\<close> says that \<open>U\<close> are the blocks in use, each as its first block number and the one
  behind it. Both functions keep it, and so does an application that writes into its own blocks.
\<close>

section \<open>The contract\<close>

definition heap_ok :: "umm_heap \<Rightarrow> (nat \<times> nat) set \<Rightarrow> bool" where
  "heap_ok h U \<longleftrightarrow> (\<exists>N. h = boot_heap N \<and> 0 < N \<and> N \<le> 32767 \<and> U = {}) \<or> (\<exists>bs fl. heap_inv h bs fl \<and> coalesced bs fl \<and> U = used bs fl)"

lemma heap_okD:
  assumes "heap_ok h U" "(a, b) \<in> U"
  shows "0 < a" "a < b" "b < length h" "length h \<le> 32767"
    "(x, y) \<in> U \<Longrightarrow> (a, b) = (x, y) \<or> b \<le> x \<or> y \<le> a"
proof -
  from assms obtain bs fl where i: "heap_inv h bs fl" "U = used bs fl" by (auto simp: heap_ok_def)
  with used_span(3-5) [OF i(1)] assms(2) heap_invD(1) [OF i(1)] show "0 < a" "a < b" "b < length h" "length h \<le> 32767" by blast+
  have "sorted_wrt (<) bs" using heap_invD(4) [OF i(1)] by simp
  from spans_order(2) [OF this] assms(2) i(2) show "(x, y) \<in> U \<Longrightarrow> (a, b) = (x, y) \<or> b \<le> x \<or> y \<le> a" by (auto simp: used_def)
qed

lemma unat_blocks_mod:
  assumes "4 < unat n"
  shows "unat (umm_blocks n) = (2 + (unat n - 5) div 8) mod 65536"
proof -
  have n: "\<not> n \<le> 4" "5 \<le> n" using assms by (simp_all add: word_le_nat_alt)
  have d: "unat ((n - 5) div 8) = (unat n - 5) div 8" using n(2) by (simp add: unat_div unat_sub)
  have "(unat n - 5) div 8 < 2 ^ 29" using unsigned_less [of n, where 'a = nat] by (intro less_mult_imp_div_less) simp
  then have "unat (2 + (n - 5) div 8) = 2 + (unat n - 5) div 8"
    by (subst unat_add_lem [THEN iffD1]) (use d in simp_all)
  with n(1) show ?thesis by (simp add: umm_blocks_def unsigned_ucast_eq take_bit_eq_mod)
qed

lemma unat_blocks:
  assumes "0 < n" "unat n \<le> 524276"
  shows "unat (umm_blocks n) = (if unat n \<le> 4 then 1 else 2 + (unat n - 5) div 8)"
proof (cases "unat n \<le> 4")
  case True
  then have "n \<le> 4" by (simp add: word_le_nat_alt)
  with True show ?thesis by (simp add: umm_blocks_def)
next
  case False
  have "(unat n - 5) div 8 < 65534" using assms(2) by (intro less_mult_imp_div_less) simp
  with False show ?thesis using unat_blocks_mod [of n] by simp
qed

text \<open>The number of blocks is the smallest one that has room for the bytes.\<close>

lemma blocks_enough:
  assumes "0 < n" "unat n \<le> 524276"
  shows "0 < unat (umm_blocks n)" "unat n + 4 \<le> 8 * unat (umm_blocks n)" "unat (umm_blocks n) = 1 \<or> 8 * (unat (umm_blocks n) - 1) < unat n + 4"
  using unat_blocks [OF assms] by auto

section \<open>Allocation\<close>

lemma boot_heap_views:
  "i < N \<Longrightarrow> Nb (boot_heap N) i = 0 \<and> Pb (boot_heap N) i = 0 \<and> Nf (boot_heap N) i = 0 \<and> Pf (boot_heap N) i = 0 \<and> \<not> Fr (boot_heap N) i"
  by (simp add: view_defs boot_heap_def)

lemma init_inv:
  assumes N: "1 < N" "N \<le> 32767"
  shows "\<exists>h. init_heap 0 (boot_heap N) = Some (1, h) \<and> heap_inv h [1] [] \<and> length h = N"
proof -
  have l: "0 < length (boot_heap N)" "length (boot_heap N) = N" using N by (simp_all add: boot_heap_def)
  from init_heap_views [OF l(1)] obtain h where h: "init_heap 0 (boot_heap N) = Some (1, h)"
    "views h = ((Nb (boot_heap N))(0 := 1), Pb (boot_heap N), (Nf (boot_heap N))(0 := 1), Pf (boot_heap N), (Fr (boot_heap N))(0 := False), N)"
    unfolding l(2) by blast
  have "heap_inv h [1] []" using h(2) boot_heap_views [of 1 N] boot_heap_views [of 0 N] N by (auto simp: heap_inv_def views_eq)
  with h show ?thesis by (auto simp: views_eq)
qed

lemma malloc_boot:
  assumes n: "n \<noteq> 0" "umm_blocks n \<noteq> 0" and N: "0 < N" "N \<le> 32767"
  defines "k \<equiv> unat (umm_blocks n)"
  shows "umm_malloc n (boot_heap N) = Some (None, boot_heap N) \<and> N \<le> k + 1 \<or>
     (\<exists>h1 h'. umm_malloc n (boot_heap N) = Some (Some (8 * 1 + 4), h') \<and> heap_inv h1 [1] [] \<and> allocates h1 [1] [] (1, 1 + k) h' \<and> length h' = N)"
proof -
  have r: "UMM_NFREE (boot_heap N) 0 = Some 0" "UMM_NBLOCK (boot_heap N) 0 = Some 0" "length (boot_heap N) = N"
    using N by (simp_all add: UMM_NFREE_def UMM_NBLOCK_def boot_heap_def)
  have b: "first_fit (boot_heap N) (umm_blocks n) 0 0 = Some (0, 0)" by (subst first_fit.simps) (simp add: r)
  have u: "unat (UMM_NUMBLOCKS (boot_heap N)) = N" using N by (simp add: UMM_NUMBLOCKS_def r(3) unat_16)
  have m: "umm_malloc n (boot_heap N) = (if N \<le> k + 1 then Some (None, boot_heap N)
      else do { (cf, h) \<leftarrow> take_new 0 (umm_blocks n) (boot_heap N); Some (Some (8 * unat cf + 4), h) })"
    using n(1) by (auto simp: umm_malloc_def r b u k_def Let_def)
  show ?thesis
  proof (cases "N \<le> k + 1")
    case False
    then have "1 < N" by simp
    from init_inv [OF this N(2)] obtain h1 where h1: "init_heap 0 (boot_heap N) = Some (1, h1)" "heap_inv h1 [1] []" "length h1 = N" by blast
    have "0 < k" using n(2) by (simp add: k_def unat_gt_0)
    from allocates_new [OF h1(2) this, of 0 "boot_heap N"] h1(1,3) False obtain h' where
      "take_new 0 (of_nat k) (boot_heap N) = Some (1, h')" "allocates h1 [1] [] (1, 1 + k) h'" by auto
    moreover have "of_nat k = umm_blocks n" by (simp add: k_def)
    moreover from calculation(2) h1(3) have "length h' = N" by (auto simp: allocates_def)
    ultimately show ?thesis using m False h1(2) by auto
  qed (use m in simp)
qed

lemma malloc_inv:
  assumes n: "n \<noteq> 0" "umm_blocks n \<noteq> 0" and i: "heap_inv h bs fl"
  defines "k \<equiv> unat (umm_blocks n)"
  shows "umm_malloc n h = Some (None, h) \<and> (\<forall>a \<in> set fl. Nb h a - a < k) \<and> length h \<le> last bs + k + 1 \<or>
     (\<exists>c h'. umm_malloc n h = Some (Some (8 * c + 4), h') \<and> allocates h bs fl (c, c + k) h')"
proof -
  note d = heap_invD [OF i] note b = heap_inv_bounds [OF i]
  have k: "0 < k" "of_nat k = umm_blocks n" using n(2) by (simp_all add: k_def unat_gt_0)
  have u: "unat (UMM_NUMBLOCKS h) = length h" using d(1) by (simp add: UMM_NUMBLOCKS_def unat_16)
  let ?f = "of_nat (hd (fl @ [last bs]))"
  note s = first_fit_all(1) [OF i]
  from first_fit_all(2) [OF i, of "umm_blocks n"] consider (rest) z where "first_fit h (umm_blocks n) ?f 0 = Some (of_nat (last bs), z)" "\<forall>a \<in> set fl. Nb h a - a < k"
    | (fit) a where "a \<in> set fl" "first_fit h (umm_blocks n) ?f 0 = Some (of_nat a, of_nat (Nb h a - a))" "k \<le> Nb h a - a" unfolding k_def by blast
  then show ?thesis
  proof cases
    case rest
    let ?t = "last bs"
    have t: "unat (of_nat ?t :: uint16_t) = ?t" using d(1,5) by (intro unat_16) linarith
    have nt: "nblock (h ! ?t) AND 0x7FFF = 0" using d(6) by (simp add: Nb_def unat_eq_0)
    have m: "umm_malloc n h = (if length h \<le> ?t + k + 1 then Some (None, h)
      else do { (cf, h) \<leftarrow> take_new (of_nat ?t) (umm_blocks n) h; Some (Some (8 * unat cf + 4), h) })"
      using n(1) s rest(1) d(5) nt by (simp add: umm_malloc_def t u k_def Let_def rd_views(1))
    show ?thesis
    proof (cases "length h \<le> ?t + k + 1")
      case False
      have "(of_nat ?t :: uint16_t) \<noteq> 0" using t b(8) by (metis unat_0)
      then have "init_heap (of_nat ?t) h = Some (of_nat ?t, h)" by (simp add: init_heap_def)
      from allocates_new [OF i k(1) _ this] False obtain h' where
        "take_new (of_nat ?t) (of_nat k) h = Some (of_nat ?t, h')" "allocates h bs fl (?t, ?t + k) h'" by auto
      then show ?thesis using m False t k(2) by auto
    qed (use m rest in simp)
  next
    case fit
    note z = free_size [OF i fit(1)]
    let ?s = "of_nat (Nb h a - a) :: uint16_t"
    have a: "a < length h" using fit(1) b(1,3) by blast
    have ua: "unat (of_nat a :: uint16_t) = a" using a d(1) by (intro unat_16) linarith
    have na: "nblock (h ! a) AND 0x7FFF \<noteq> 0" using z(1) by (auto simp: Nb_def)
    have m: "umm_malloc n h = do { (cf, h) \<leftarrow> take_existing (of_nat a) ?s (umm_blocks n) h; Some (Some (8 * unat cf + 4), h) }"
      using n(1) s fit(2) a na by (simp add: umm_malloc_def ua Let_def rd_views(1))
    have us: "unat ?s = Nb h a - a" using z(2) by (intro unat_16) linarith
    show ?thesis
    proof (cases "Nb h a - a = k")
      case True
      then have e: "?s = umm_blocks n" using us by (simp add: k_def word_unat_eq_iff)
      from allocates_exact [OF i fit(1)] obtain h' where h': "umm_disconnect_from_free_list (of_nat a) h = Some h'" "allocates h bs fl (a, Nb h a) h'" by blast
      have "Nb h a = a + k" using True z(1) by simp
      with h' m e show ?thesis by (auto simp: take_existing_def ua)
    next
      case False
      then have ne: "?s \<noteq> umm_blocks n" and lt: "k < Nb h a - a" using us fit(3) by (auto simp: k_def)
      from allocates_split [OF i fit(1) k(1) lt] obtain h' where h': "umm_make_new_block (of_nat a) (of_nat (Nb h a - a - k)) 0x8000 h = Some h'"
        "allocates h bs fl (Nb h a - k, Nb h a) h'" by blast
      have w: "?s - umm_blocks n = of_nat (Nb h a - a - k)" unfolding k(2) [symmetric] using lt by (simp only: of_nat_diff less_imp_le)
      have "a + (Nb h a - a - k) = Nb h a - k" using lt by linarith
      then have "of_nat a + (?s - umm_blocks n) = (of_nat (Nb h a - k) :: uint16_t)" unfolding w by (metis of_nat_add)
      moreover have "unat (of_nat (Nb h a - k) :: uint16_t) = Nb h a - k" using Nb_less [of h a] by (intro unat_16) linarith
      moreover have "Nb h a = Nb h a - k + k" using lt by simp
      ultimately show ?thesis using h' m ne w by (auto simp: take_existing_def)
    qed
  qed
qed

lemma umm_malloc_spec:
  assumes ok: "heap_ok h U" and n: "n \<noteq> 0" "umm_blocks n \<noteq> 0"
  defines "k \<equiv> unat (umm_blocks n)"
  shows "umm_malloc n h = Some (None, h) \<or>
     (\<exists>c h'. umm_malloc n h = Some (Some (8 * c + 4), h') \<and> (c, c + k) \<notin> U \<and> heap_ok h' (insert (c, c + k) U) \<and>
        (\<forall>y \<in> U. same_data h h' y) \<and> length h' = length h)"
proof -
  from ok consider N where "h = boot_heap N" "0 < N" "N \<le> 32767" "U = {}" | bs fl where "heap_inv h bs fl" "coalesced bs fl" "U = used bs fl"
    by (auto simp: heap_ok_def)
  then show ?thesis
  proof cases
    case 1
    have c: "coalesced [1] []" "used [1] [] = {}" by (simp_all add: coalesced_def used_def)
    from malloc_boot [OF n 1(2,3)] consider "umm_malloc n h = Some (None, h)"
      | h1 h' where "umm_malloc n h = Some (Some (8 * 1 + 4), h')" "heap_inv h1 [1] []" "allocates h1 [1] [] (1, 1 + k) h'" "length h' = length h"
      using 1(1) by (auto simp: k_def boot_heap_def)
    then show ?thesis
    proof cases
      case (2 h1 h')
      then obtain bs' fl' where "heap_inv h' bs' fl'" "used bs' fl' = {(1, 1 + k)}" "coalesced bs' fl'" using c unfolding allocates_def by auto
      then have "heap_ok h' (insert (1, 1 + k) U)" using 1(4) unfolding heap_ok_def by auto
      with 2 1(4) show ?thesis by (intro disjI2 exI [of _ 1] exI [of _ h']) auto
    qed simp
  next
    case (2 bs fl)
    from malloc_inv [OF n 2(1)] consider "umm_malloc n h = Some (None, h)"
      | c h' where "umm_malloc n h = Some (Some (8 * c + 4), h')" "allocates h bs fl (c, c + k) h'" unfolding k_def by blast
    then show ?thesis
    proof cases
      case (2 c h')
      then obtain bs' fl' where "heap_inv h' bs' fl'" "used bs' fl' = insert (c, c + k) U" "coalesced bs' fl'" "(c, c + k) \<notin> U"
        "\<forall>y \<in> U. same_data h h' y" "length h' = length h" using \<open>coalesced bs fl\<close> \<open>U = used bs fl\<close> unfolding allocates_def by auto
      then have "heap_ok h' (insert (c, c + k) U)" unfolding heap_ok_def by metis
      with 2 \<open>(c, c + k) \<notin> U\<close> \<open>\<forall>y \<in> U. same_data h h' y\<close> \<open>length h' = length h\<close> show ?thesis by blast
    qed simp
  qed
qed

section \<open>Release\<close>

lemma umm_free_spec:
  assumes ok: "heap_ok h U" and u: "(c, b) \<in> U"
  shows "\<exists>h'. umm_free (Some (8 * c + 4)) h = Some h' \<and> heap_ok h' (U - {(c, b)}) \<and> (\<forall>y \<in> U - {(c, b)}. same_data h h' y) \<and> length h' = length h"
proof -
  from ok u obtain bs fl where i: "heap_inv h bs fl" "coalesced bs fl" "U = used bs fl" by (auto simp: heap_ok_def)
  from u i(3) obtain us vs where bs: "bs = us @ c # b # vs" and cf: "c \<notin> set fl" by (auto simp: used_def spans_split)
  from free_up [OF i(1,2) [unfolded bs] cf] obtain h1 n ws fl1 where up: "umm_assimilate_up (of_nat c) h = Some h1"
    "heap_inv h1 (us @ c # n # ws) fl1" "coalesced (us @ c # n # ws) fl1" "c \<notin> set fl1" "n \<notin> set fl1"
    and us: "used (us @ c # n # ws) fl1 = insert (c, n) (U - {(c, b)})"
    and sd: "\<forall>x y. (x, y) \<in> U - {(c, b)} \<longrightarrow> same_data h h1 (x, y)" and l1: "length h1 = length h" unfolding i(3) bs by blast
  note d = heap_invD [OF up(2)] note bl = block_links [OF up(2)]
  define p where "p = last (0 # us)"
  have bp: "Pb h1 c = p" "p < c" using bl(3,10) by (simp_all only: p_def)
  have cl: "c < length h1" "p < length h1" using bl(4,5) bp(2) by linarith+
  have uc: "unat (of_nat c :: uint16_t) = c" "unat (of_nat p :: uint16_t) = p" using cl d(1) by (intro unat_16; linarith)+
  have fr: "nblock (h1 ! p) AND 0x8000 \<noteq> 0 \<longleftrightarrow> Fr h1 p" by (simp add: Fr_def)
  have f: "umm_free (Some (8 * c + 4)) h = (if Fr h1 p then map_option snd (umm_assimilate_down (of_nat c) 0x8000 h1) else push_free (of_nat c) h1)"
    using up(1) rd_Pb [OF cl(1)] bp(1) rd_views(1) [OF cl(2)] by (simp add: umm_free_def uc Let_def fr)
  have rest: "used (us @ c # n # ws) fl1 - {(c, n)} = U - {(c, b)}"
  proof -
    have "(c, n) \<notin> U - {(c, b)}"
    proof
      assume "(c, n) \<in> U - {(c, b)}"
      then have "(c, n) \<in> set (spans bs)" "(c, b) \<in> set (spans bs)" "n \<noteq> b" using u i(3) by (auto simp: used_def)
      moreover have "sorted_wrt (<) bs" using heap_invD(4) [OF i(1)] by simp
      ultimately show False using spans_order [of bs c n c b] spans_order(1) [of bs c b c n] by fastforce
    qed
    with us show ?thesis by blast
  qed
  show ?thesis
  proof (cases "Fr h1 p")
    case True
    then have "us \<noteq> []" using d(7) by (auto simp: p_def)
    then obtain us' where e: "us = us' @ [p]" unfolding p_def by (metis append_butlast_last_id last_ConsR)
    then have e': "us @ c # n # ws = us' @ p # c # n # ws" by simp
    have pf: "p \<in> set fl1" using block_links(9) [of h1 us' p c "n # ws" fl1] up(2) True unfolding e' by simp
    from free_down [OF up(2,3) [unfolded e'] pf up(4,5)] obtain h' where h': "umm_assimilate_down (of_nat c) 0x8000 h1 = Some (of_nat p, h')"
      "heap_inv h' (us' @ p # n # ws) fl1" "coalesced (us' @ p # n # ws) fl1" "used (us' @ p # n # ws) fl1 = U - {(c, b)}"
      "\<forall>x y. (x, y) \<in> U - {(c, b)} \<longrightarrow> same_data h1 h' (x, y)" "length h' = length h1" unfolding e' [symmetric] rest by blast
    have "heap_ok h' (U - {(c, b)})" unfolding heap_ok_def using h'(2-4) by metis
    moreover have "\<forall>y \<in> U - {(c, b)}. same_data h h' y" using sd h'(5) by (metis same_data_trans surj_pair)
    ultimately show ?thesis using f True h'(1,6) l1 by auto
  next
    case False
    have "p \<notin> set fl1"
    proof (cases us rule: rev_cases)
      case Nil
      then show ?thesis using heap_inv_bounds(7) [OF up(2)] by (simp add: p_def)
    next
      case (snoc us' q)
      then have "Fr h1 q \<longleftrightarrow> q \<in> set fl1" using block_links(9) [of h1 us' q c "n # ws" fl1] up(2) by simp
      with False snoc show ?thesis by (simp add: p_def)
    qed
    from free_push [OF up(2-5) this [unfolded p_def]] obtain h' where h': "push_free (of_nat c) h1 = Some h'"
      "heap_inv h' (us @ c # n # ws) (c # fl1)" "coalesced (us @ c # n # ws) (c # fl1)" "used (us @ c # n # ws) (c # fl1) = U - {(c, b)}"
      "\<forall>x y. (x, y) \<in> U - {(c, b)} \<longrightarrow> same_data h1 h' (x, y)" "length h' = length h1" unfolding rest by blast
    have "heap_ok h' (U - {(c, b)})" unfolding heap_ok_def using h'(2-4) by metis
    moreover have "\<forall>y \<in> U - {(c, b)}. same_data h h' y" using sd h'(5) by (metis same_data_trans surj_pair)
    ultimately show ?thesis using f False h'(1,6) l1 by auto
  qed
qed

section \<open>The application's data\<close>

lemma heap_inv_cong:
  assumes i: "heap_inv h bs fl" and l: "length h' = length h"
    and b: "\<And>x. x \<in> set (0 # bs) \<Longrightarrow> Nb h' x = Nb h x \<and> Pb h' x = Pb h x \<and> (Fr h' x \<longleftrightarrow> Fr h x)"
    and f: "\<And>x. x \<in> set (0 # fl @ [last bs]) \<Longrightarrow> Nf h' x = Nf h x \<and> Pf h' x = Pf h x"
  shows "heap_inv h' bs fl"
proof -
  note d = heap_invD [OF i] note bd = heap_inv_bounds [OF i]
  have 1: "linked (Nb h') (Pb h') (0 # bs)" using d(10) by (rule links_cong) (use b in \<open>auto dest: in_set_butlastD\<close>)
  have 2: "linked (Nf h') (Pf h') (0 # fl @ [last bs])" using d(11) by (rule links_cong) (use f in \<open>auto simp: butlast_append dest: in_set_butlastD split: if_splits\<close>)
  have 3: "Nb h' (last bs) = 0" "\<not> Fr h' 0" "\<not> Fr h' (last bs)" "Nf h' (last bs) = 0" using b [of "last bs"] b [of 0] f [of "last bs"] bd(4) d(6-9) by auto
  have 4: "\<forall>a \<in> set (butlast bs). Fr h' a \<longleftrightarrow> a \<in> set fl" using d(14) b by (auto dest: in_set_butlastD)
  show ?thesis unfolding heap_inv_def l using d(1-5,12,13) 1 2 3 4 by blast
qed

lemma set_word_byte_same: "k < 2 \<Longrightarrow> word_bytes (set_word_byte w k v) k = v"
proof (rule bit_word_eqI)
  fix n assume k: "k < 2" and n: "n < LENGTH(8)"
  have "8 * k + n < 16" using k n by auto
  moreover have b: "bit (0xFF :: uint16_t) m \<longleftrightarrow> m < 8" for m
  proof -
    have e: "(0xFF :: uint16_t) = mask 8" by (simp add: mask_eq_exp_minus_1)
    show ?thesis unfolding e bit_mask_iff by auto
  qed
  ultimately show "bit (word_bytes (set_word_byte w k v) k) n = bit v n" using n b [of n]
    by (auto simp: word_bytes_def set_word_byte_def bit_simps)
qed

lemma get_set_byte: "i div 8 < length h \<Longrightarrow> \<exists>h'. set_byte i v h = Some h' \<and> get_byte i h' = Some v"
  by (auto simp: set_byte_def get_byte_def Let_def set_word_byte_same)

text \<open>A write into a block in use keeps the heap and all other blocks.\<close>

lemma set_byte_spec:
  assumes ok: "heap_ok h U" and u: "(a, b) \<in> U" and j: "8 * a + 4 \<le> j" "j < 8 * b"
  shows "\<exists>h'. set_byte j v h = Some h' \<and> get_byte j h' = Some v \<and> heap_ok h' U \<and> (\<forall>y \<in> U - {(a, b)}. same_data h h' y) \<and> length h' = length h"
proof -
  from ok u obtain bs fl where i: "heap_inv h bs fl" "coalesced bs fl" "U = used bs fl" by (auto simp: heap_ok_def)
  note su = used_span [OF i(1) u [unfolded i(3)]] note bd = heap_inv_bounds [OF i(1)]
  define q where "q = j div 8"
  have q: "a \<le> q" "q < b" "q = a \<Longrightarrow> 4 \<le> j mod 8" using j by (auto simp: q_def less_mult_imp_div_less mult.commute) (metis add_le_cancel_left mult_div_mod_eq)
  have ql: "q < length h" using q(2) su(5) by simp
  from get_set_byte [of j h v] ql obtain h' where h': "set_byte j v h = Some h'" "get_byte j h' = Some v" by (auto simp: q_def)
  then obtain x where x: "h' = h[q := x]" "q = a \<Longrightarrow> nblock x = nblock (h ! a) \<and> pblock x = pblock (h ! a)"
    using q(3) by (auto simp: set_byte_def upd_eq_Some q_def [symmetric] Let_def split: if_splits)
  have l: "length h' = length h" by (simp add: x(1))
  have o: "h' ! y = h ! y" if "y \<noteq> q" for y using that by (simp add: x(1))
  have qs: "q \<notin> set (0 # bs)" if "q \<noteq> a"
  proof -
    have "sorted_wrt (<) bs" "(a, b) \<in> set (spans bs)" using heap_invD(4) [OF i(1)] u i(3) by (auto simp: used_def)
    from no_start_inside [OF this, of q] q that su(3) show ?thesis by auto
  qed
  have "heap_inv h' bs fl"
  proof (rule heap_inv_cong [OF i(1) l])
    show "Nb h' y = Nb h y \<and> Pb h' y = Pb h y \<and> (Fr h' y \<longleftrightarrow> Fr h y)" if "y \<in> set (0 # bs)" for y
    proof (cases "y = q")
      case True
      with qs that have "q = a" by blast
      with x ql True show ?thesis by (simp add: view_defs)
    qed (simp add: view_defs o)
    show "Nf h' y = Nf h y \<and> Pf h' y = Pf h y" if "y \<in> set (0 # fl @ [last bs])" for y
    proof -
      have "y \<noteq> q"
      proof
        assume "y = q"
        moreover have "y \<in> set (0 # bs)" using that bd(3,4) by auto
        ultimately have "y = a" using qs by blast
        with that su(3,6,8) show False by auto
      qed
      then show ?thesis by (simp add: view_defs o)
    qed
  qed
  with i(2,3) have "heap_ok h' U" unfolding heap_ok_def by blast
  moreover have "same_data h h' (c, d)" if y: "(c, d) \<in> U - {(a, b)}" for c d
  proof (rule same_dataI [OF _ _ _ l])
    have ne: "(c, d) \<in> U" "(c, d) \<noteq> (a, b)" using y by auto
    from heap_okD(5) [OF ok ne(1) u] ne(2) have "d \<le> a \<or> b \<le> c" by auto
    then have "\<not> (c \<le> q \<and> q < d)" using q by auto
    then have "h' ! c = h ! c" and w: "\<And>j. c < j \<Longrightarrow> j < d \<Longrightarrow> h' ! j = h ! j" using o heap_okD(2) [OF ok ne(1)] by (metis le_refl, metis less_imp_le)
    then show "Nf h' c = Nf h c" "Pf h' c = Pf h c" "\<And>j. c < j \<Longrightarrow> j < d \<Longrightarrow> h' ! j = h ! j" by (simp_all add: view_defs)
  qed
  ultimately show ?thesis using h' l by auto
qed

end
