(* ===== verification/UmmUse.thy ===== *)
theory UmmUse
  imports UmmAlloc Queue Tasks
begin

text \<open>
  The allocator in use: the interface \<open>allocator\<close> that the dynamic queues and tasks rely on, its implementation by
  \<^verbatim>\<open>umm_malloc\<close> and \<^verbatim>\<open>umm_free\<close>.
\<close>

section \<open>The interface of the allocator\<close>

text \<open>\<open>areas h A\<close>: in the state \<open>h\<close> the areas \<open>A\<close>, as addresses of their first byte and of the byte behind them, are allocated.\<close>

locale allocator =
  fixes alloc :: "uint16_t \<Rightarrow> 'h \<Rightarrow> uint32_t \<times> 'h" and dealloc :: "uint32_t \<Rightarrow> 'h \<Rightarrow> 'h" and areas :: "'h \<Rightarrow> (nat \<times> nat) set \<Rightarrow> bool"
  assumes alloc_law: "areas h A \<Longrightarrow> alloc n h = (p, h') \<Longrightarrow>
      p = 0 \<and> areas h' A \<or>
      p \<noteq> 0 \<and> (\<exists>e. unat p + unat n \<le> e \<and> (unat p, e) \<notin> A \<and> areas h' (insert (unat p, e) A))"
    and dealloc_law: "areas h A \<Longrightarrow> (unat p, e) \<in> A \<Longrightarrow> areas (dealloc p h) (A - {(unat p, e)})"
    and apart: "areas h A \<Longrightarrow> (a, b) \<in> A \<Longrightarrow> (x, y) \<in> A \<Longrightarrow> (a, b) = (x, y) \<or> b \<le> x \<or> y \<le> a"
begin

text \<open>A release directly after the allocation gives the areas back.\<close>

lemma alloc_dealloc: "areas h A \<Longrightarrow> alloc n h = (p, h') \<Longrightarrow> p \<noteq> 0 \<Longrightarrow> areas (dealloc p h') A"
  using alloc_law [of h A n p h'] dealloc_law [of h' _ p] by fastforce

text \<open>The dynamic queue: three areas apart from each other and from all others, or the same areas as before.\<close>

lemma dqueue_areas:
  assumes a: "areas h A" and c: "OSDQueueCreate alloc dealloc len ts ev k h ds = (r, ev', h', ds')"
  shows "r \<noteq> ALLOC_EVENT_OK \<and> areas h' A \<or>
     r = ALLOC_EVENT_OK \<and> (\<exists>e1 e2 e3. let cq = DPointer ds' ev'; q = DQueue ds' cq; X = {(unat cq, e1), (OSQStart q, e2), (unat ev', e3)} in
       areas h' (A \<union> X) \<and> A \<inter> X = {} \<and> card X = 3 \<and> unat cq + 24 \<le> e1 \<and> OSQEnd q \<le> e2 \<and> unat ev' + 12 \<le> e3 \<and>
       OSQStart q < 2 ^ 32)"
proof -
  consider (irq) "iNesting k > 0" | (bad) "\<not> iNesting k > 0" "\<not> (len > 0 \<and> ts > 0)" | (go) "\<not> iNesting k > 0" "len > 0 \<and> ts > 0" by blast
  then show ?thesis
  proof cases
    case irq
    then have "OSDQueueCreate alloc dealloc len ts ev k h ds = (IRQ_PEND_ERR, ev, h, ds)" unfolding OSDQueueCreate_def by (simp only: if_True)
    with c a show ?thesis by auto
  next
    case bad
    then have "OSDQueueCreate alloc dealloc len ts ev k h ds = (INVALID_PARAMETERS, ev, h, ds)" unfolding OSDQueueCreate_def by (simp only: if_False)
    with c a show ?thesis by auto
  next
    case go
    let ?n = "ucast (ucast len * ts) :: uint16_t"
    obtain cq h1 where 1: "alloc 24 h = (cq, h1)" by fastforce
    obtain st h2 where 2: "alloc ?n h1 = (st, h2)" by fastforce
    obtain pe h3 where 3: "alloc 12 h2 = (pe, h3)" by fastforce
    show ?thesis
    proof (cases "cq = 0")
      case True
      with 1 go c alloc_law [OF a 1] show ?thesis by (auto simp: OSDQueueCreate_def)
    next
      case cq: False
      from alloc_law [OF a 1] cq obtain e1 where e1: "unat cq + 24 \<le> e1" "(unat cq, e1) \<notin> A" "areas h1 (insert (unat cq, e1) A)" by auto
      show ?thesis
      proof (cases "st = 0")
        case True
        with 1 2 cq go c have "h' = dealloc cq h2" "r \<noteq> ALLOC_EVENT_OK" by (auto simp: OSDQueueCreate_def Let_def)
        with alloc_law [OF e1(3) 2] True dealloc_law [of h2 "insert (unat cq, e1) A" cq e1] e1(2) show ?thesis by simp
      next
        case st: False
        from alloc_law [OF e1(3) 2] st obtain e2 where e2: "unat st + unat ?n \<le> e2" "(unat st, e2) \<notin> insert (unat cq, e1) A"
          "areas h2 (insert (unat st, e2) (insert (unat cq, e1) A))" by auto
        show ?thesis
        proof (cases "pe = 0")
          case True
          with 1 2 3 cq st go c have "h' = dealloc cq (dealloc st h3)" "r \<noteq> ALLOC_EVENT_OK" by (auto simp: OSDQueueCreate_def Let_def)
          moreover have "areas (dealloc st h3) (insert (unat cq, e1) A)"
            using alloc_law [OF e2(3) 3] True dealloc_law [of h3 "insert (unat st, e2) (insert (unat cq, e1) A)" st e2] e2(2) by simp
          ultimately show ?thesis using dealloc_law [of "dealloc st h3" "insert (unat cq, e1) A" cq e1] e1(2) by simp
        next
          case pe: False
          from alloc_law [OF e2(3) 3] pe obtain e3 where e3: "unat pe + 12 \<le> e3" "(unat pe, e3) \<notin> insert (unat st, e2) (insert (unat cq, e1) A)"
            "areas h3 (insert (unat pe, e3) (insert (unat st, e2) (insert (unat cq, e1) A)))" by auto
          from 1 2 3 cq st pe go c have r: "r = ALLOC_EVENT_OK" "ev' = pe" "h' = h3" "DPointer ds' pe = cq" "OSQStart (DQueue ds' cq) = unat st"
            "OSQEnd (DQueue ds' cq) = unat st + unat ?n" by (auto simp: OSDQueueCreate_def Let_def)
          have u: "A \<union> {(unat cq, e1), (unat st, e2), (unat pe, e3)} = insert (unat pe, e3) (insert (unat st, e2) (insert (unat cq, e1) A))" by auto
          have "card {(unat cq, e1), (unat st, e2), (unat pe, e3)} = 3" using e2(2) e3(2) by (simp add: card_insert_if) auto
          moreover have "unat st < 2 ^ 32" using unsigned_less [of st] by simp
          ultimately have "let cq = DPointer ds' ev'; q = DQueue ds' cq; X = {(unat cq, e1), (OSQStart q, e2), (unat ev', e3)} in
             areas h' (A \<union> X) \<and> A \<inter> X = {} \<and> card X = 3 \<and> unat cq + 24 \<le> e1 \<and> OSQEnd q \<le> e2 \<and> unat ev' + 12 \<le> e3 \<and> OSQStart q < 2 ^ 32"
            unfolding Let_def r u using e1 e2 e3 by auto
          with r(1) show ?thesis by blast
        qed
      qed
    qed
  qed
qed

text \<open>Deleting it gives all three back.\<close>

lemma dqueue_delete_areas:
  assumes a: "areas h (A \<union> {(unat cq, e1), (OSQStart q, e2), (unat ev, e3)})" and n: "A \<inter> {(unat cq, e1), (OSQStart q, e2), (unat ev, e3)} = {}"
    and c: "card {(unat cq, e1), (OSQStart q, e2), (unat ev, e3)} = 3" and s: "OSQStart q < 2 ^ 32"
    and p: "DPointer ds ev = cq" "DQueue ds cq = q" and k: "iNesting k = 0"
  shows "areas (fst (snd (snd (OSDQueueDelete dealloc ev k h ds)))) A"
proof -
  let ?S = "unat (of_nat (OSQStart q) :: uint32_t)"
  have S: "?S = OSQStart q" using s by (simp add: unat_of_nat take_bit_nat_eq_self)
  have d: "(unat cq, e1) \<noteq> (OSQStart q, e2)" "(unat cq, e1) \<noteq> (unat ev, e3)" "(OSQStart q, e2) \<noteq> (unat ev, e3)"
    using c by (auto simp: card_insert_if split: if_splits)
  have 1: "areas (dealloc (of_nat (OSQStart q)) h) (A \<union> {(unat cq, e1), (unat ev, e3)})"
  proof -
    have "A \<union> {(unat cq, e1), (OSQStart q, e2), (unat ev, e3)} - {(OSQStart q, e2)} = A \<union> {(unat cq, e1), (unat ev, e3)}" using d n by auto
    with dealloc_law [OF a, of "of_nat (OSQStart q)" e2] show ?thesis by (simp add: S)
  qed
  have 2: "areas (dealloc cq (dealloc (of_nat (OSQStart q)) h)) (A \<union> {(unat ev, e3)})"
  proof -
    have "A \<union> {(unat cq, e1), (unat ev, e3)} - {(unat cq, e1)} = A \<union> {(unat ev, e3)}" using d n by auto
    with dealloc_law [OF 1, of cq e1] show ?thesis by simp
  qed
  have "A \<union> {(unat ev, e3)} - {(unat ev, e3)} = A" using n by auto
  with dealloc_law [OF 2, of ev e3] show ?thesis using p k by (simp add: OSDQueueDelete_def Let_def)
qed

text \<open>A task installed with a stack from the allocator owns an area for it; if the installation fails, no area is lost.\<close>

lemma task_areas:
  assumes ar: "areas h A" and k: "arrays_ok C k" and c: "OSInstallTask_dyn alloc dealloc C f n b p a h k = Some (r, hn, h1, k1)"
  shows "r \<noteq> OK \<and> areas h1 A \<or>
     r = OK \<and> (\<exists>H e. let s = StackInit (tcb k1 (unat H)) in hn = Some H \<and> unat s + unat (b - b mod 4) \<le> e \<and> (unat s, e) \<notin> A \<and> areas h1 (insert (unat s, e) A))"
proof -
  let ?b = "b - b mod 4"
  obtain st h' where al: "alloc ?b h = (st, h')" by fastforce
  from priority_error_total [OF k] obtain e where e: "priority_error C f p k = Some e" by blast
  consider (small) "unat ?b < NUMBER_MIN_OF_STACKED_BYTES C" | (prio) x where "\<not> unat ?b < NUMBER_MIN_OF_STACKED_BYTES C" "e = Some x"
    | (go) "\<not> unat ?b < NUMBER_MIN_OF_STACKED_BYTES C" "e = None" by (cases e) auto
  then show ?thesis
  proof cases
    case small
    with c ar show ?thesis by (auto simp: OSInstallTask_dyn_def Let_def)
  next
    case prio
    with c ar e priority_error_not_OK show ?thesis by (auto simp: OSInstallTask_dyn_def Let_def)
  next
    case go
    show ?thesis
    proof (cases "st = 0")
      case True
      with c go e al alloc_law [OF ar al] show ?thesis by (auto simp: OSInstallTask_dyn_def Let_def)
    next
      case st: False
      from alloc_law [OF ar al] st obtain u where u: "unat st + unat ?b \<le> u" "(unat st, u) \<notin> A" "areas h' (insert (unat st, u) A)" by auto
      show ?thesis
      proof (cases "free_tcb C k")
        case None
        with c go e al st have "r \<noteq> OK" "h1 = dealloc st h'" by (auto simp: OSInstallTask_dyn_def Let_def)
        with dealloc_law [OF u(3) insertI1] u(2) show ?thesis by simp
      next
        case (Some i)
        have pe: "priority_error C f p k = Some None" using e go by simp
        have len: "Suc i < length (ContextTask k)" "Suc i < 2 ^ 32" "unat p < length (PriorityVector k)" "unat p < 32"
          using free_tcb_Some(1) [OF Some] k priority_error_None(1) [OF pe] by (simp_all add: arrays_ok_def)
        have "r = OK \<and> hn = Some (of_nat (Suc i)) \<and> h1 = h' \<and> StackInit (tcb k1 (Suc i)) = st"
          using c go pe al st Some len
          by (auto simp: OSInstallTask_dyn_def Let_def install_tail_eq verbose_def dest!: CreateDVirtualStack_kernel split: if_splits prod.splits)
        moreover have "unat (of_nat (Suc i) :: uint32_t) = Suc i" using len(2) by (simp only: unat_of_nat take_bit_nat_eq_self len_num1 len_bit0 mult_1_right) (simp add: take_bit_nat_eq_self)
        ultimately show ?thesis using u by (auto simp: Let_def)
      qed
    qed
  qed
qed

end

section \<open>The implementation\<close>

text \<open>
  \<^verbatim>\<open>BRTOS_ALLOC\<close> and \<^verbatim>\<open>BRTOS_DEALLOC\<close> are \<^verbatim>\<open>umm_malloc\<close> and \<^verbatim>\<open>umm_free\<close>, with the heap at the address \<open>base\<close>;
  the state \<^term>\<open>None\<close> is the one after an access outside the heap.
\<close>

definition BRTOS_ALLOC :: "nat \<Rightarrow> uint16_t \<Rightarrow> umm_heap option \<Rightarrow> uint32_t \<times> umm_heap option" where
  "BRTOS_ALLOC base n ho = (case Option.bind ho (umm_malloc (ucast n)) of
     None \<Rightarrow> (0, None)
   | Some (None, h) \<Rightarrow> (0, Some h)
   | Some (Some p, h) \<Rightarrow> (of_nat (base + p), Some h))"

definition BRTOS_DEALLOC :: "nat \<Rightarrow> uint32_t \<Rightarrow> umm_heap option \<Rightarrow> umm_heap option" where
  "BRTOS_DEALLOC base p ho = Option.bind ho (umm_free (if p = 0 then None else Some (unat p - base)))"

definition area :: "nat \<Rightarrow> nat \<times> nat \<Rightarrow> nat \<times> nat" where
  "area base = (\<lambda>(a, b). (base + 8 * a + 4, base + 8 * b))"

definition heap_areas :: "nat \<Rightarrow> umm_heap option \<Rightarrow> (nat \<times> nat) set \<Rightarrow> bool" where
  "heap_areas base ho A \<longleftrightarrow> (\<exists>h U. ho = Some h \<and> heap_ok h U \<and> 0 < base \<and> base + 8 * length h \<le> 2 ^ 32 \<and> A = area base ` U)"

lemma area_eq [simp]: "area base x = area base y \<longleftrightarrow> x = y"
  by (cases x, cases y) (simp add: area_def)

lemma area_in [simp]: "area base x \<in> area base ` U \<longleftrightarrow> x \<in> U"
  by auto

lemma heap_alloc_law:
  assumes a: "heap_areas base ho A" and r: "BRTOS_ALLOC base n ho = (p, ho')"
  shows "p = 0 \<and> heap_areas base ho' A \<or>
      p \<noteq> 0 \<and> (\<exists>e. unat p + unat n \<le> e \<and> (unat p, e) \<notin> A \<and> heap_areas base ho' (insert (unat p, e) A))"
proof -
  from a obtain h U where h: "ho = Some h" "heap_ok h U" "0 < base" "base + 8 * length h \<le> 2 ^ 32" "A = area base ` U" by (auto simp: heap_areas_def)
  let ?n = "ucast n :: uint32_t" let ?k = "unat (umm_blocks ?n)"
  have "unat n < 65536" using unsigned_less [of n, where 'a = nat] by simp
  then have n: "unat ?n = unat n" "unat n \<le> 65535" by (simp_all add: unsigned_ucast_eq take_bit_nat_eq_self)
  show ?thesis
  proof (cases "?n = 0")
    case True
    with r h show ?thesis by (auto simp: BRTOS_ALLOC_def umm_malloc_def heap_areas_def)
  next
    case False
    then have "0 < ?n" "unat ?n \<le> 524276" using n by (simp_all add: word_gt_0)
    note e = blocks_enough [OF this]
    have "umm_blocks ?n \<noteq> 0" using e(1) by auto
    from umm_malloc_spec [OF h(2) False this] consider (full) "umm_malloc ?n h = Some (None, h)"
      | (got) c h' where "umm_malloc ?n h = Some (Some (8 * c + 4), h')" "(c, c + ?k) \<notin> U" "heap_ok h' (insert (c, c + ?k) U)" "length h' = length h" by blast
    then show ?thesis
    proof cases
      case full
      with r h show ?thesis by (auto simp: BRTOS_ALLOC_def heap_areas_def)
    next
      case got
      let ?a = "area base (c, c + ?k)"
      have "c + ?k < length h'" using heap_okD(3) [OF got(3) insertI1] by simp
      then have "base + (8 * c + 4) < 2 ^ 32" using h(4) e(1) got(4) by linarith
      then have p: "unat p = base + (8 * c + 4)" "ho' = Some h'" using r h(1) got(1)
        by (auto simp: BRTOS_ALLOC_def unat_of_nat take_bit_nat_eq_self simp del: of_nat_add)
      have ar: "?a = (unat p, base + 8 * (c + ?k))" by (simp add: area_def p)
      have "heap_areas base ho' (insert ?a A)" unfolding heap_areas_def p(2)
        using got(3,4) h(3-5) by (intro exI [of _ h'] exI [of _ "insert (c, c + ?k) U"]) simp
      moreover have "p \<noteq> 0" using p(1) h(3) by auto
      moreover have "unat p + unat n \<le> base + 8 * (c + ?k)" using e(2) n(1) p(1) by simp
      moreover have "?a \<notin> A" using got(2) h(5) by simp
      ultimately show ?thesis unfolding ar by blast
    qed
  qed
qed

lemma heap_dealloc_law:
  assumes a: "heap_areas base ho A" and p: "(unat p, e) \<in> A"
  shows "heap_areas base (BRTOS_DEALLOC base p ho) (A - {(unat p, e)})"
proof -
  from a obtain h U where h: "ho = Some h" "heap_ok h U" "0 < base" "base + 8 * length h \<le> 2 ^ 32" "A = area base ` U" by (auto simp: heap_areas_def)
  from p h(5) obtain c b where c: "(c, b) \<in> U" "(unat p, e) = area base (c, b)" by auto
  then have up: "unat p = base + 8 * c + 4" by (simp add: area_def)
  then have nz: "p \<noteq> 0" by auto
  from umm_free_spec [OF h(2) c(1)] obtain h' where h': "umm_free (Some (8 * c + 4)) h = Some h'" "heap_ok h' (U - {(c, b)})" "length h' = length h" by blast
  have "BRTOS_DEALLOC base p ho = Some h'" using h(1) h'(1) nz up by (simp add: BRTOS_DEALLOC_def)
  moreover have "A - {(unat p, e)} = area base ` (U - {(c, b)})" unfolding c(2) h(5) by auto
  ultimately show ?thesis using h(3,4) h'(2,3) by (auto simp: heap_areas_def)
qed

lemma heap_apart:
  assumes a: "heap_areas base ho A" and x: "(a, b) \<in> A" "(x, y) \<in> A"
  shows "(a, b) = (x, y) \<or> b \<le> x \<or> y \<le> a"
proof -
  from a obtain h U where h: "heap_ok h U" "A = area base ` U" by (auto simp: heap_areas_def)
  from x h(2) obtain c d u v where c: "(c, d) \<in> U" "(u, v) \<in> U" "(a, b) = area base (c, d)" "(x, y) = area base (u, v)" by auto
  from heap_okD(5) [OF h(1) c(1,2)] c(3,4) show ?thesis by (auto simp: area_def)
qed

interpretation umm: allocator "BRTOS_ALLOC base" "BRTOS_DEALLOC base" "heap_areas base" for base
  by unfold_locales (rule heap_alloc_law heap_dealloc_law heap_apart; assumption)+

end
