(* ===== verification/UmmAccount.thy ===== *)
theory UmmAccount
  imports UmmAlloc
begin

text \<open>
  When \<^verbatim>\<open>umm_malloc\<close> returns \<^verbatim>\<open>NULL\<close>, and the accounting of \<^verbatim>\<open>umm_info\<close>, on which \<^verbatim>\<open>OSGetUsedHeapSize\<close> and
  \<^verbatim>\<open>OSGetFreeHeapSize\<close> rest.
\<close>

section \<open>Gaps\<close>

text \<open>The spans are a partition of the heap below the rest.\<close>

lemma spans_cover: "sorted_wrt (<) bs \<Longrightarrow> bs \<noteq> [] \<Longrightarrow> hd bs \<le> x \<Longrightarrow> x < last bs \<Longrightarrow> \<exists>(p, q) \<in> set (spans bs). p \<le> x \<and> x < (q :: nat)"
proof (induction bs rule: spans.induct)
  case (1 u v zs)
  show ?case
  proof (cases "x < v")
    case False
    with 1 have "\<exists>(p, q) \<in> set (spans (v # zs)). p \<le> x \<and> x < q" by simp
    then show ?thesis by auto
  qed (use 1 in auto)
qed auto

text \<open>The blocks from \<open>x\<close> up to \<open>y\<close> are all outside the blocks in use.\<close>

definition gap :: "(nat \<times> nat) set \<Rightarrow> nat \<Rightarrow> nat \<Rightarrow> bool" where
  "gap U x y \<longleftrightarrow> 0 < x \<and> (\<forall>(a, b) \<in> U. b \<le> x \<or> y \<le> a)"

text \<open>A gap below a block in use lies in one free block, since no two of them are neighbours.\<close>

lemma gap_free:
  assumes i: "heap_inv h bs fl" "coalesced bs fl" and g: "gap (used bs fl) x y" "x < y" and u: "(a, b) \<in> used bs fl" "y \<le> a"
  shows "\<exists>p \<in> set fl. p \<le> x \<and> y \<le> Nb h p"
proof -
  note d = heap_invD [OF i(1)] note su = used_span [OF i(1) u(1)]
  have s: "sorted_wrt (<) bs" using d(4) by simp
  have x: "hd bs \<le> x" "x < last bs" using g u su d(3) by (auto simp: gap_def)
  from spans_cover [OF s d(2) x] obtain p q where pq: "(p, q) \<in> set (spans bs)" "p \<le> x" "x < q" by auto
  have p: "p \<in> set fl"
  proof (rule ccontr)
    assume "p \<notin> set fl"
    with pq(1) have "(p, q) \<in> used bs fl" by (simp add: used_def)
    with g pq(2,3) show False by (auto simp: gap_def)
  qed
  have "y \<le> q"
  proof (rule ccontr)
    assume yq: "\<not> y \<le> q"
    from spans_start [OF pq(1)] have "q \<in> set bs" by simp
    moreover have "q \<noteq> last bs" using yq u(2) su(4,7) by linarith
    moreover have "bs = butlast bs @ [last bs]" using d(2) by simp
    ultimately have "q \<in> set (butlast bs)" by (metis Un_iff empty_iff insert_iff list.set(1,2) set_append)
    then obtain r where qr: "(q, r) \<in> set (spans bs)" using butlast_span by blast
    have "q \<notin> set fl" using i(2) pq(1) p by (auto simp: coalesced_def)
    with qr have "(q, r) \<in> used bs fl" by (simp add: used_def)
    moreover have "q < r" by (rule spans_order(1) [OF s qr qr])
    ultimately show False using g(1) pq(3) yq by (auto simp: gap_def)
  qed
  moreover from pq(1) obtain us vs where "bs = us @ p # q # vs" by (auto simp: spans_split)
  then have "Nb h p = q" using block_links(1) [of h us p q vs fl] i(1) by simp
  ultimately show ?thesis using p pq(2) by auto
qed

text \<open>An allocation fails only if no gap below a block in use is large enough.\<close>

lemma umm_malloc_full:
  assumes ok: "heap_ok h U" and n: "n \<noteq> 0" "umm_blocks n \<noteq> 0" and f: "umm_malloc n h = Some (None, h')"
    and u: "(a, b) \<in> U" "x + unat (umm_blocks n) \<le> a"
  shows "\<not> gap U x (x + unat (umm_blocks n))"
proof
  let ?k = "unat (umm_blocks n)"
  assume g: "gap U x (x + ?k)"
  from ok u obtain bs fl where i: "heap_inv h bs fl" "coalesced bs fl" "U = used bs fl" by (auto simp: heap_ok_def)
  have k: "0 < ?k" using n(2) by (simp add: unat_gt_0)
  from gap_free [OF i(1,2), of x "x + ?k" a b] g k u i(3) obtain p where p: "p \<in> set fl" "p \<le> x" "x + ?k \<le> Nb h p" by auto
  from malloc_inv [OF n i(1)] f have "\<forall>p \<in> set fl. Nb h p - p < ?k" by auto
  with p have "Nb h p - p < ?k" by blast
  with p(2,3) show False by linarith
qed

section \<open>Accounting\<close>

definition tally :: "nat list \<Rightarrow> (nat \<times> nat) list \<Rightarrow> UMM_HEAP_INFO \<Rightarrow> UMM_HEAP_INFO" where
  "tally fl ss i = fold (\<lambda>(a, b). count_block (a \<in> set fl) (of_nat (b - a))) ss i"

definition lengths :: "(nat \<times> nat) list \<Rightarrow> nat" where
  "lengths ss = (\<Sum>(a, b) \<leftarrow> ss. b - a)"

lemma tally_blocks:
  "usedBlocks (tally fl ss i) = usedBlocks i + of_nat (lengths (filter (\<lambda>(a, b). a \<notin> set fl) ss))"
  "freeBlocks (tally fl ss i) = freeBlocks i + of_nat (lengths (filter (\<lambda>(a, b). a \<in> set fl) ss))"
  "totalBlocks (tally fl ss i) = totalBlocks i + of_nat (lengths ss)"
  "usedEntries (tally fl ss i) = usedEntries i + of_nat (length (filter (\<lambda>(a, b). a \<notin> set fl) ss))"
  by (induction ss arbitrary: i) (auto simp: tally_def lengths_def count_block_def Let_def algebra_simps)

lemma lengths_filter: "lengths (filter P ss) + lengths (filter (\<lambda>x. \<not> P x) ss) = lengths ss"
  by (induction ss) (auto simp: lengths_def)

lemma lengths_spans: "sorted_wrt (<) bs \<Longrightarrow> bs \<noteq> [] \<Longrightarrow> hd bs + lengths (spans bs) = last bs"
  by (induction bs rule: spans.induct) (auto simp: lengths_def)

text \<open>The loop visits every block but the rest, where it ends.\<close>

lemma info_loop_tally:
  assumes i: "heap_inv h bs fl"
  shows "bs = us @ ys \<Longrightarrow> ys \<noteq> [] \<Longrightarrow> info_loop h None (of_nat (hd ys)) x = Some (Inr (of_nat (last bs), tally fl (spans ys) x))"
proof (induction ys arbitrary: us x rule: induct_list012)
  case (3 a b zs)
  note d = heap_invD [OF i] note l = block_links [OF i [unfolded 3(3)]]
  have u: "unat (of_nat a :: uint16_t) = a" using l(4,5) d(1) by (intro unat_16) linarith
  have r: "UMM_NBLOCK h a = Some (nblock (h ! a))" using l(4,5) by (simp add: rd_views)
  have w: "nblock (h ! a) AND 0x7FFF = of_nat b" using l(1) view_words(5) [of h a] by simp
  have "unat (of_nat b :: uint16_t) = b" using l(5) d(1) by (intro unat_16) linarith
  with l(4) have nz: "(of_nat b :: uint16_t) \<noteq> 0" by auto
  have fr: "nblock (h ! a) AND 0x8000 \<noteq> 0 \<longleftrightarrow> a \<in> set fl" using l(9) by (simp add: Fr_def)
  have sz: "of_nat b - of_nat a = (of_nat (b - a) :: uint16_t)" using l(4) by (simp add: of_nat_diff)
  have "info_loop h None (of_nat a) x = info_loop h None (of_nat b) (count_block (a \<in> set fl) (of_nat (b - a)) x)"
    by (subst info_loop.simps) (simp only: u r w nz fr sz Let_def Option.bind.simps if_True simp_thms option.distinct if_False)
  also have "\<dots> = Some (Inr (of_nat (last bs), tally fl (spans (b # zs)) (count_block (a \<in> set fl) (of_nat (b - a)) x)))"
    using 3(2) [of "us @ [a]"] 3(3) by simp
  finally show ?case by (simp add: tally_def)
next
  case (2 v)
  note d = heap_invD [OF i]
  have v: "last bs = v" using 2 by simp
  have "unat (of_nat v :: uint16_t) = v" "v < length h" using d(1,5) v by (auto intro!: unat_16)
  moreover have "nblock (h ! v) AND 0x7FFF = 0" using d(6) v by (simp add: Nb_def unat_eq_0)
  ultimately show ?case using v by (subst info_loop.simps) (simp add: rd_views tally_def)
qed simp

lemma used_lengths:
  assumes "heap_inv h bs fl"
  shows "lengths (filter (\<lambda>(a, b). a \<notin> set fl) (spans bs)) = (\<Sum>(a, b) \<in> used bs fl. b - a)" "finite (used bs fl)"
    "length (filter (\<lambda>(a, b). a \<notin> set fl) (spans bs)) = card (used bs fl)"
proof -
  have "sorted_wrt (<) bs" using heap_invD(4) [OF assms] by simp
  then have "distinct (spans bs)"
  proof (induction bs rule: spans.induct)
    case (1 x y zs)
    then have "x \<notin> set (y # zs)" by auto
    then have "(x, y) \<notin> set (spans (y # zs))" using spans_start in_set_butlastD by metis
    with 1 show ?case by simp
  qed auto
  then have ds: "distinct (filter (\<lambda>(a, b). a \<notin> set fl) (spans bs))" by simp
  have st: "set (filter (\<lambda>(a, b). a \<notin> set fl) (spans bs)) = used bs fl" by (auto simp: used_def)
  show "lengths (filter (\<lambda>(a, b). a \<notin> set fl) (spans bs)) = (\<Sum>(a, b) \<in> used bs fl. b - a)"
    unfolding lengths_def sum_list_distinct_conv_sum_set [OF ds] st ..
  show "finite (used bs fl)" unfolding st [symmetric] by simp
  show "length (filter (\<lambda>(a, b). a \<notin> set fl) (spans bs)) = card (used bs fl)" using distinct_card [OF ds] unfolding st by simp
qed

lemma umm_info_inv:
  assumes i: "heap_inv h bs fl"
  shows "\<exists>x. umm_info None h = Some (None, x) \<and> unat (usedBlocks x) = (\<Sum>(a, b) \<in> used bs fl. b - a) \<and>
     unat (usedBlocks x) + unat (freeBlocks x) = length h - 1 \<and> unat (totalBlocks x) = length h - 1 \<and> unat (usedEntries x) = card (used bs fl)"
proof -
  note d = heap_invD [OF i] note b = heap_inv_bounds [OF i] note u = used_lengths [OF i]
  obtain cs where cs: "bs = 1 # cs" using d(2,3) by (cases bs) auto
  have "Nb h 0 = 1" using d(10) cs linked_mid [of "Nb h" "Pb h" "[]" 0 1 cs] by simp
  then have w: "nblock (h ! 0) AND 0x7FFF = 1" using view_words(5) [of h 0] by simp
  have lp: "info_loop h None 1 no_info = Some (Inr (of_nat (last bs), tally fl (spans bs) no_info))"
    using info_loop_tally [OF i, of "[]" bs no_info] cs by simp
  define t where "t = tally fl (spans bs) no_info"
  define x where "x = t\<lparr>freeBlocks := freeBlocks t + (UMM_NUMBLOCKS h - of_nat (last bs)), totalBlocks := totalBlocks t + (UMM_NUMBLOCKS h - of_nat (last bs))\<rparr>"
  have e: "umm_info None h = Some (None, x)" using b(2) by (simp add: umm_info_def rd_views w lp x_def t_def)
  let ?U = "lengths (filter (\<lambda>(a, b). a \<notin> set fl) (spans bs))" and ?F = "lengths (filter (\<lambda>(a, b). a \<in> set fl) (spans bs))"
  have s: "sorted_wrt (<) bs" using d(4) by simp
  have tot: "1 + lengths (spans bs) = last bs" using lengths_spans [OF s d(2)] d(3) by simp
  have "?F + ?U = lengths (spans bs)" using lengths_filter [of "\<lambda>(a, b). a \<in> set fl" "spans bs"] by (simp add: case_prod_unfold)
  with tot have UF: "1 + ?U + ?F = last bs" by linarith
  have rest: "UMM_NUMBLOCKS h - of_nat (last bs) = of_nat (length h - last bs)" using d(5) by (simp add: UMM_NUMBLOCKS_def of_nat_diff)
  have "usedBlocks x = of_nat ?U" "freeBlocks x = of_nat (?F + (length h - last bs))"
    "totalBlocks x = of_nat (lengths (spans bs) + (length h - last bs))" "usedEntries x = of_nat (card (used bs fl))"
    unfolding x_def rest t_def by (simp_all add: tally_blocks no_info_def u(3))
  moreover have "card (used bs fl) \<le> ?U"
  proof -
    have "card (used bs fl) = (\<Sum>y \<in> used bs fl. 1)" by simp
    also have "\<dots> \<le> (\<Sum>(a, b) \<in> used bs fl. b - a)" using used_span(4) [OF i] by (intro sum_mono) (fastforce simp: Suc_le_eq)
    finally show ?thesis using u(1) by simp
  qed
  then have "?U < 65536" "?F + (length h - last bs) < 65536" "lengths (spans bs) + (length h - last bs) < 65536" "card (used bs fl) < 65536"
    using UF tot d(1,5) by linarith+
  ultimately have v: "unat (usedBlocks x) = ?U" "unat (freeBlocks x) = ?F + (length h - last bs)"
    "unat (totalBlocks x) = lengths (spans bs) + (length h - last bs)" "unat (usedEntries x) = card (used bs fl)" by (simp_all only: unat_16)
  then show ?thesis unfolding e using UF tot d(5) u(1) by (intro exI [of _ x]) auto
qed

text \<open>Both sizes, in bytes. Block 0 only anchors the lists; before the first allocation it still counts as free.\<close>

lemma heap_sizes:
  assumes ok: "heap_ok h U"
  shows "\<exists>us fs. OSGetUsedHeapSize h = Some us \<and> OSGetFreeHeapSize h = Some fs \<and> unat us = 8 * (\<Sum>(a, b) \<in> U. b - a) \<and>
     unat us + unat fs = 8 * (length h - (if UMM_NBLOCK h 0 = Some 0 then 0 else 1))"
proof -
  from ok consider N where "h = boot_heap N" "0 < N" "N \<le> 32767" "U = {}" | bs fl where "heap_inv h bs fl" "U = used bs fl"
    by (auto simp: heap_ok_def)
  then show ?thesis
  proof cases
    case 1
    have r: "UMM_NBLOCK h 0 = Some 0" "length h = N" using 1(1,2) by (simp_all add: UMM_NBLOCK_def boot_heap_def)
    have "info_loop h None 0 no_info = Some (Inr (0, no_info))" by (subst info_loop.simps) (simp add: r(1))
    then have i: "umm_info None h = Some (None, no_info\<lparr>freeBlocks := UMM_NUMBLOCKS h, totalBlocks := UMM_NUMBLOCKS h\<rparr>)"
      by (simp add: umm_info_def r(1)) (simp add: no_info_def)
    have "unat (UMM_NUMBLOCKS h) = N" using 1(3) by (simp add: UMM_NUMBLOCKS_def r(2) unat_16)
    then have "unat (ucast (UMM_NUMBLOCKS h) * 8 :: uint32_t) = N * 8" using 1(3)
      by (subst unat_mult_lem [THEN iffD1]) (simp_all add: unsigned_ucast_eq take_bit_nat_eq_self)
    then show ?thesis using 1(4) r i by (simp add: OSGetUsedHeapSize_def OSGetFreeHeapSize_def no_info_def)
  next
    case 2
    from umm_info_inv [OF 2(1)] obtain x where x: "umm_info None h = Some (None, x)" "unat (usedBlocks x) = (\<Sum>(a, b) \<in> U. b - a)"
      "unat (usedBlocks x) + unat (freeBlocks x) = length h - 1" unfolding 2(2) by blast
    have m: "unat (ucast w * 8 :: uint32_t) = 8 * unat w" if "unat w < 32768" for w :: uint16_t
      using that by (subst unat_mult_lem [THEN iffD1]) (simp_all add: unsigned_ucast_eq take_bit_nat_eq_self)
    have "unat (usedBlocks x) < 32768" "unat (freeBlocks x) < 32768" using x(3) heap_invD(1) [OF 2(1)] by linarith+
    moreover have "UMM_NBLOCK h 0 \<noteq> Some 0"
    proof
      assume "UMM_NBLOCK h 0 = Some 0"
      then have "Nb h 0 = 0" using heap_inv_bounds(2) [OF 2(1)] by (simp add: rd_views Nb_def)
      moreover obtain cs where "bs = 1 # cs" using heap_invD(2,3) [OF 2(1)] by (cases bs) auto
      ultimately show False using heap_invD(10) [OF 2(1)] linked_mid [of "Nb h" "Pb h" "[]" 0 1 cs] by simp
    qed
    ultimately show ?thesis using x by (simp add: OSGetUsedHeapSize_def OSGetFreeHeapSize_def m)
  qed
qed

end
