(* ===== verification/UmmSession.thy ===== *)
theory UmmSession
  imports UmmAlloc
begin

text \<open>
  \<^verbatim>\<open>umm_calloc\<close>, and sessions of allocations, releases and writes from the start of the system: \<open>session h L D\<close> says
  that the heap \<open>h\<close> is reached with the live areas \<open>L\<close>, each by its pointer and requested size, and with the bytes \<open>D\<close> that the
  application wrote there.
\<close>

section \<open>Zeroed memory\<close>

lemma bit_255: "bit (0xFF :: uint16_t) m \<longleftrightarrow> m < 8"
proof -
  have e: "(0xFF :: uint16_t) = mask 8" by (simp add: mask_eq_exp_minus_1)
  show ?thesis unfolding e bit_mask_iff by auto
qed

lemma set_word_byte_other: "k < 2 \<Longrightarrow> k' < 2 \<Longrightarrow> k' \<noteq> k \<Longrightarrow> word_bytes (set_word_byte w k v) k' = word_bytes w k'"
proof (rule bit_word_eqI)
  fix n assume k: "k < 2" "k' < 2" "k' \<noteq> k" and n: "n < LENGTH(8)"
  have "8 * k' + n < 16" using k n by auto
  moreover have "8 * k \<le> 8 * k' + n \<Longrightarrow> \<not> 8 * k' + n - 8 * k < 8" using k n by auto
  ultimately show "bit (word_bytes (set_word_byte w k v) k') n = bit (word_bytes w k') n"
    using n bit_255 [of "8 * k' + n - 8 * k"] impossible_bit [of "8 * k' + n - 8 * k" v]
    by (auto simp: word_bytes_def set_word_byte_def bit_simps)
qed

lemma get_byte_other:
  assumes "set_byte i v h = Some h'" "j \<noteq> i"
  shows "get_byte j h' = get_byte j h"
proof (cases "j div 8 = i div 8")
  case True
  then have ne: "j mod 8 \<noteq> i mod 8" using assms(2) by (metis mult_div_mod_eq)
  have m: "j mod 2 = j mod 8 mod 2" "i mod 2 = i mod 8 mod 2" by (simp_all add: mod_mod_cancel)
  define x y where xy: "x = j mod 8" "y = i mod 8"
  have "x < 8" "y < 8" by (simp_all add: xy)
  then have "x \<in> {0, 1, 2, 3, 4, 5, 6, 7}" "y \<in> {0, 1, 2, 3, 4, 5, 6, 7}" by auto
  with ne True assms(1) show ?thesis
    unfolding set_byte_def get_byte_def upd_eq_Some m True xy [symmetric] by (auto simp: Let_def set_word_byte_other)
next
  case False
  with assms show ?thesis by (auto simp: set_byte_def get_byte_def upd_eq_Some rd_def)
qed

lemma heap_memset_spec:
  assumes "heap_ok h U" "(a, b) \<in> U" "8 * a + 4 \<le> j" "j + n \<le> 8 * b"
  shows "\<exists>h'. heap_memset j v n h = Some h' \<and> (\<forall>i. get_byte i h' = (if j \<le> i \<and> i < j + n then Some v else get_byte i h)) \<and>
     heap_ok h' U \<and> length h' = length h"
  using assms
proof (induction n arbitrary: j h)
  case (Suc n)
  from set_byte_spec [OF Suc.prems(1-3), of v] Suc.prems(4) obtain h1 where
    1: "set_byte j v h = Some h1" "get_byte j h1 = Some v" "heap_ok h1 U" "length h1 = length h" by auto
  from Suc.IH [OF 1(3) Suc.prems(2), of "Suc j"] Suc.prems(3,4) obtain h2 where
    2: "heap_memset (Suc j) v n h1 = Some h2" "\<forall>i. get_byte i h2 = (if Suc j \<le> i \<and> i < Suc j + n then Some v else get_byte i h1)"
      "heap_ok h2 U" "length h2 = length h1" by auto
  have "get_byte i h2 = (if j \<le> i \<and> i < j + Suc n then Some v else get_byte i h)" for i
    using 2(2) 1(2) get_byte_other [OF 1(1), of i] by (cases "i = j") auto
  with 1 2 show ?case by auto
qed auto

lemma umm_calloc_spec:
  fixes num item_size :: uint32_t
  assumes ok: "heap_ok h U" and n: "0 < item_size * num" "unat (item_size * num) \<le> 524276"
  shows "umm_calloc num item_size h = Some (None, h) \<or>
     (\<exists>a b h'. umm_calloc num item_size h = Some (Some (8 * a + 4), h') \<and> (a, b) \<notin> U \<and> heap_ok h' (insert (a, b) U) \<and>
        8 * a + 4 + unat (item_size * num) \<le> 8 * b \<and> (\<forall>i < unat (item_size * num). get_byte (8 * a + 4 + i) h' = Some 0) \<and>
        (\<forall>y \<in> U. same_data h h' y) \<and> length h' = length h)"
proof -
  let ?n = "item_size * num" let ?k = "unat (umm_blocks ?n)"
  note e = blocks_enough [OF n]
  have nz: "?n \<noteq> 0" "umm_blocks ?n \<noteq> 0" using n(1) e(1) by (auto simp: unat_gt_0)
  from umm_malloc_spec [OF ok nz] consider (full) "umm_malloc ?n h = Some (None, h)"
    | (got) c h1 where "umm_malloc ?n h = Some (Some (8 * c + 4), h1)" "(c, c + ?k) \<notin> U" "heap_ok h1 (insert (c, c + ?k) U)"
        "\<forall>y \<in> U. same_data h h1 y" "length h1 = length h" by blast
  then show ?thesis
  proof cases
    case full
    then show ?thesis by (simp add: umm_calloc_def)
  next
    case got
    have room: "8 * c + 4 + unat ?n \<le> 8 * (c + ?k)" using e(2) by simp
    from heap_memset_spec [OF got(3) insertI1 _ room, of 0] obtain h2 where
      2: "heap_memset (8 * c + 4) 0 (unat ?n) h1 = Some h2" "heap_ok h2 (insert (c, c + ?k) U)" "length h2 = length h1"
        "\<forall>i. get_byte i h2 = (if 8 * c + 4 \<le> i \<and> i < 8 * c + 4 + unat ?n then Some 0 else get_byte i h1)" by auto
    have "umm_calloc num item_size h = Some (Some (8 * c + 4), h2)" using got(1) 2(1) by (simp add: umm_calloc_def)
    moreover have "same_data h h2 (x, y)" if u: "(x, y) \<in> U" for x y
    proof -
      from heap_okD(5) [OF got(3), of c "c + ?k" x y] got(2) u have "c + ?k \<le> x \<or> y \<le> c" by auto
      then have "get_byte i h2 = get_byte i h1" if "8 * x + 4 \<le> i" "i < 8 * y" for i using 2(4) room that by auto
      with got(4) u show ?thesis by (auto simp: same_data_def)
    qed
    ultimately show ?thesis using got(2,5) 2(2-4) room by (intro disjI2 exI [of _ c] exI [of _ "c + ?k"] exI [of _ h2]) auto
  qed
qed

section \<open>Sessions\<close>

definition within :: "nat \<Rightarrow> nat \<Rightarrow> nat \<Rightarrow> bool" where
  "within p n j \<longleftrightarrow> p \<le> j \<and> j < p + n"

inductive session :: "umm_heap \<Rightarrow> (nat \<rightharpoonup> nat) \<Rightarrow> (nat \<rightharpoonup> uint8_t) \<Rightarrow> bool" where
  booted: "0 < N \<Longrightarrow> N \<le> 32767 \<Longrightarrow> session (boot_heap N) Map.empty Map.empty"
| mallocs: "session h L D \<Longrightarrow> unat n \<le> 524276 \<Longrightarrow> umm_malloc n h = Some (Some p, h') \<Longrightarrow> session h' (L(p \<mapsto> unat n)) D"
| malloc_fails: "session h L D \<Longrightarrow> unat n \<le> 524276 \<Longrightarrow> umm_malloc n h = Some (None, h') \<Longrightarrow> session h' L D"
| frees: "session h L D \<Longrightarrow> L p = Some n \<Longrightarrow> umm_free (Some p) h = Some h' \<Longrightarrow>
    session h' (L(p := None)) (\<lambda>j. if within p n j then None else D j)"
| writes: "session h L D \<Longrightarrow> L p = Some n \<Longrightarrow> within p n j \<Longrightarrow> set_byte j v h = Some h' \<Longrightarrow> session h' L (D(j \<mapsto> v))"

text \<open>The live areas are the blocks in use, and the heap holds what was written.\<close>

definition owns :: "(nat \<rightharpoonup> nat) \<Rightarrow> (nat \<times> nat) set \<Rightarrow> bool" where
  "owns L U \<longleftrightarrow> (\<forall>p n. L p = Some n \<longrightarrow> (\<exists>a b. p = 8 * a + 4 \<and> (a, b) \<in> U \<and> p + n \<le> 8 * b)) \<and> (\<forall>(a, b) \<in> U. L (8 * a + 4) \<noteq> None)"

definition holds :: "umm_heap \<Rightarrow> (nat \<rightharpoonup> nat) \<Rightarrow> (nat \<rightharpoonup> uint8_t) \<Rightarrow> bool" where
  "holds h L D \<longleftrightarrow> (\<forall>j v. D j = Some v \<longrightarrow> get_byte j h = Some v \<and> (\<exists>p n. L p = Some n \<and> within p n j))"

lemma ownsD: "owns L U \<Longrightarrow> L p = Some n \<Longrightarrow> \<exists>a b. p = 8 * a + 4 \<and> (a, b) \<in> U \<and> p + n \<le> 8 * b"
  by (simp add: owns_def)

lemma owns_insert:
  assumes o: "owns L U" and r: "8 * c + 4 + n \<le> 8 * d"
  shows "owns (L(8 * c + 4 \<mapsto> n)) (insert (c, d) U)"
  unfolding owns_def
proof (intro conjI allI impI)
  show "\<exists>a b. p = 8 * a + 4 \<and> (a, b) \<in> insert (c, d) U \<and> p + m \<le> 8 * b" if "(L(8 * c + 4 \<mapsto> n)) p = Some m" for p m
  proof (cases "p = 8 * c + 4")
    case True
    with that r show ?thesis by auto
  next
    case False
    with that ownsD [OF o, of p m] show ?thesis by auto
  qed
  show "\<forall>(a, b) \<in> insert (c, d) U. (L(8 * c + 4 \<mapsto> n)) (8 * a + 4) \<noteq> None" using o by (auto simp: owns_def)
qed

lemma owns_remove:
  assumes o: "owns L U" and one: "\<And>d. (a, d) \<in> U \<Longrightarrow> d = b"
  shows "owns (L(8 * a + 4 := None)) (U - {(a, b)})"
  unfolding owns_def
proof (intro conjI allI impI)
  show "\<exists>c d. p = 8 * c + 4 \<and> (c, d) \<in> U - {(a, b)} \<and> p + m \<le> 8 * d" if "(L(8 * a + 4 := None)) p = Some m" for p m
    using that ownsD [OF o, of p m] by (auto split: if_splits)
  have "(L(8 * a + 4 := None)) (8 * c + 4) \<noteq> None" if "(c, d) \<in> U - {(a, b)}" for c d
    using that o one [of d] by (cases "c = a") (auto simp: owns_def)
  then show "\<forall>(c, d) \<in> U - {(a, b)}. (L(8 * a + 4 := None)) (8 * c + 4) \<noteq> None" by blast
qed

text \<open>Live areas do not overlap.\<close>

lemma owns_apart:
  assumes "heap_ok h U" "owns L U" "L p = Some n" "L q = Some m" "p \<noteq> q"
  shows "p + n \<le> q \<or> q + m \<le> p"
proof -
  from ownsD [OF assms(2,3)] obtain a b where a: "p = 8 * a + 4" "(a, b) \<in> U" "p + n \<le> 8 * b" by blast
  from ownsD [OF assms(2,4)] obtain c d where c: "q = 8 * c + 4" "(c, d) \<in> U" "q + m \<le> 8 * d" by blast
  from heap_okD(5) [OF assms(1) a(2) c(2)] a c assms(5) show ?thesis by auto
qed

text \<open>A byte of a live area survives a step that keeps the block it lies in.\<close>

lemma holds_kept:
  assumes w: "holds h L D" "owns L U" and k: "\<And>a b. (a, b) \<in> U \<Longrightarrow> L' (8 * a + 4) = L (8 * a + 4) \<Longrightarrow> same_data h h' (a, b)"
    and d: "\<And>j v. D' j = Some v \<Longrightarrow> D j = Some v \<and> (\<forall>p n. L p = Some n \<and> within p n j \<longrightarrow> L' p = Some n)"
  shows "holds h' L' D'"
  unfolding holds_def
proof (intro allI impI)
  fix j v assume j: "D' j = Some v"
  from d [OF j] w(1) obtain p n where p: "get_byte j h = Some v" "L p = Some n" "within p n j" "L' p = Some n" unfolding holds_def by blast
  from ownsD [OF w(2) p(2)] obtain a b where a: "p = 8 * a + 4" "(a, b) \<in> U" "p + n \<le> 8 * b" by blast
  then have "same_data h h' (a, b)" using k p(2,4) by simp
  then have "get_byte j h' = get_byte j h" using a p(3) by (auto simp: same_data_def within_def)
  with p show "get_byte j h' = Some v \<and> (\<exists>p n. L' p = Some n \<and> within p n j)" by auto
qed

lemma session_inv: "session h L D \<Longrightarrow> \<exists>U. heap_ok h U \<and> owns L U \<and> holds h L D"
proof (induction rule: session.induct)
  case (booted N)
  then have "heap_ok (boot_heap N) {}" by (auto simp: heap_ok_def)
  then show ?case by (auto simp: owns_def holds_def)
next
  case (mallocs h L D n p h')
  then obtain U where U: "heap_ok h U" "owns L U" "holds h L D" by blast
  have n: "0 < n" using mallocs.hyps(3) by (auto simp: umm_malloc_def word_gt_0)
  note e = blocks_enough [OF n mallocs.hyps(2)]
  have nz: "n \<noteq> 0" "umm_blocks n \<noteq> 0" using n e(1) by (auto simp: unat_gt_0)
  from umm_malloc_spec [OF U(1) nz] mallocs.hyps(3) obtain c where c: "p = 8 * c + 4" "(c, c + unat (umm_blocks n)) \<notin> U"
    "heap_ok h' (insert (c, c + unat (umm_blocks n)) U)" "\<forall>y \<in> U. same_data h h' y" by auto
  have fresh: "L p = None"
  proof (rule ccontr)
    assume "L p \<noteq> None"
    then obtain m where "L p = Some m" by blast
    from ownsD [OF U(2) this] c(1) obtain b where b: "(c, b) \<in> U" by auto
    from heap_okD(2,5) [OF c(3)] b c(2) e(1) show False by (metis insertI1 insertI2 le_antisym linorder_not_less less_add_same_cancel1)
  qed
  have "owns (L(p \<mapsto> unat n)) (insert (c, c + unat (umm_blocks n)) U)"
    unfolding c(1) using e(2) by (intro owns_insert [OF U(2)]) simp
  moreover have "holds h' (L(p \<mapsto> unat n)) D"
  proof (rule holds_kept [OF U(3,2)])
    show "same_data h h' (a, b)" if "(a, b) \<in> U" for a b using c(4) that by blast
    show "D j = Some v \<and> (\<forall>q m. L q = Some m \<and> within q m j \<longrightarrow> (L(p \<mapsto> unat n)) q = Some m)" if "D j = Some v" for j v using that fresh by auto
  qed
  ultimately show ?case using c(3) by blast
next
  case (malloc_fails h L D n h')
  then obtain U where U: "heap_ok h U" "owns L U" "holds h L D" by blast
  have "h' = h"
  proof (cases "n = 0")
    case False
    then have n: "0 < n" by (simp add: word_gt_0)
    with blocks_enough(1) [OF n malloc_fails.hyps(2)] have "umm_blocks n \<noteq> 0" by auto
    from umm_malloc_spec [OF U(1) False this] malloc_fails.hyps(3) show ?thesis by auto
  qed (use malloc_fails.hyps(3) in \<open>simp add: umm_malloc_def\<close>)
  with U show ?case by blast
next
  case (frees h L D p n h')
  then obtain U where U: "heap_ok h U" "owns L U" "holds h L D" by blast
  from ownsD [OF U(2) frees.hyps(2)] obtain a b where a: "p = 8 * a + 4" "(a, b) \<in> U" "p + n \<le> 8 * b" by blast
  from umm_free_spec [OF U(1) a(2)] frees.hyps(3) a(1) have
    f: "heap_ok h' (U - {(a, b)})" "\<forall>y \<in> U - {(a, b)}. same_data h h' y" by auto
  have one: "c = a \<longleftrightarrow> (c, d) = (a, b)" if "(c, d) \<in> U" for c d
    using heap_okD(2) [OF U(1) a(2)] heap_okD(5) [OF U(1) a(2) that] heap_okD(2) [OF U(1) that] by auto
  have "owns (L(p := None)) (U - {(a, b)})" unfolding a(1) using one by (intro owns_remove [OF U(2)]) auto
  moreover have "holds h' (L(p := None)) (\<lambda>j. if within p n j then None else D j)"
  proof (rule holds_kept [OF U(3,2)])
    show "same_data h h' (c, d)" if "(c, d) \<in> U" "(L(p := None)) (8 * c + 4) = L (8 * c + 4)" for c d
      using that f(2) frees.hyps(2) a(1) by auto
    show "D j = Some v \<and> (\<forall>q m. L q = Some m \<and> within q m j \<longrightarrow> (L(p := None)) q = Some m)"
      if "(if within p n j then None else D j) = Some v" for j v using that frees.hyps(2) by (auto split: if_splits)
  qed
  ultimately show ?case using f(1) by blast
next
  case (writes h L D p n j v h')
  then obtain U where U: "heap_ok h U" "owns L U" "holds h L D" by blast
  from ownsD [OF U(2) writes.hyps(2)] obtain a b where a: "p = 8 * a + 4" "(a, b) \<in> U" "p + n \<le> 8 * b" by blast
  have j: "8 * a + 4 \<le> j" "j < 8 * b" using writes.hyps(3) a by (auto simp: within_def)
  from set_byte_spec [OF U(1) a(2) j, of v] writes.hyps(4) have w: "get_byte j h' = Some v" "heap_ok h' U" by auto
  have "holds h' L (D(j \<mapsto> v))"
    unfolding holds_def
  proof (intro allI impI)
    fix i u assume i: "(D(j \<mapsto> v)) i = Some u"
    show "get_byte i h' = Some u \<and> (\<exists>p n. L p = Some n \<and> within p n i)"
    proof (cases "i = j")
      case True
      with i w(1) writes.hyps(2,3) show ?thesis by auto
    next
      case False
      with i U(3) get_byte_other [OF writes.hyps(4) False] show ?thesis by (simp add: holds_def)
    qed
  qed
  with U(2) w(2) show ?case by blast
qed

end
