(* ===== verification/UmmProps.thy ===== *)
theory UmmProps
  imports UmmUse UmmAccount UmmSession Demo
begin

text \<open>
  The properties of the heap allocator and of its use by the dynamic queues and tasks.
\<close>

section \<open>Heaps to evaluate on\<close>

lemma first_fit_end: "UMM_NFREE h (unat cf) = Some 0 \<Longrightarrow> first_fit h n cf z = Some (cf, z)"
  by (subst first_fit.simps) simp

lemma first_fit_step:
  "UMM_NFREE h (unat cf) = Some nf \<Longrightarrow> nf \<noteq> 0 \<Longrightarrow> UMM_NBLOCK h (unat cf) = Some m \<Longrightarrow> first_fit h n cf z =
     (let z = (m AND 0x7FFF) - cf in if n \<le> z then Some (cf, z) else first_fit h n nf z)"
  by (subst first_fit.simps) (simp add: Let_def)

lemma info_loop_end: "UMM_NBLOCK h (unat c) = Some m \<Longrightarrow> m AND 0x7FFF = 0 \<Longrightarrow> info_loop h p c i = Some (Inr (c, i))"
  by (subst info_loop.simps) simp

lemma info_loop_step:
  "UMM_NBLOCK h (unat c) = Some m \<Longrightarrow> m AND 0x7FFF \<noteq> 0 \<Longrightarrow> info_loop h None c i =
     info_loop h None (m AND 0x7FFF) (count_block (m AND 0x8000 \<noteq> 0) ((m AND 0x7FFF) - c) i)"
  by (subst info_loop.simps) (simp add: Let_def)

lemmas heap_evals = UMM_NFREE_def UMM_NBLOCK_def UMM_PFREE_def UMM_PBLOCK_def set_NBLOCK_def set_PBLOCK_def set_NFREE_def set_PFREE_def
  UMM_NUMBLOCKS_def boot_heap_def umm_malloc_def first_fit_end first_fit_step take_existing_def take_new_def init_heap_def
  umm_make_new_block_def umm_disconnect_from_free_list_def umm_assimilate_up_def umm_assimilate_down_def push_free_def umm_free_def
  info_loop_end info_loop_step umm_info_def count_block_def no_info_def rd_def wr_def upd_def Let_def

abbreviation (input) blk :: "uint16_t \<Rightarrow> uint16_t \<Rightarrow> uint16_t \<Rightarrow> uint16_t \<Rightarrow> umm_block" where
  "blk nb pb nf pf \<equiv> \<lparr>nblock = nb, pblock = pb, nfree = nf, pfree = pf\<rparr>"

definition demo_umm :: umm_heap where
  "demo_umm = [blk 1 0 3 0, blk 3 0 0 0, blk 0 0 0 0, blk 0 1 0 0, blk 0 0 0 0, blk 0 0 0 0, blk 0 0 0 0, blk 0 0 0 0]"

lemma list_numeral:
  "replicate (numeral v) x = x # replicate (pred_numeral v) x" "(x # xs)[numeral v := y] = x # xs[pred_numeral v := y]"
  by (simp_all add: numeral_eq_Suc)

lemma demo_umm_blocks: "umm_blocks 1 = 1" "umm_blocks 10 = 2" "umm_blocks 40 = 6" "umm_blocks 64 = 9" "umm_blocks 524280 = 0" "umm_blocks 524288 = 1"
  by (simp_all add: umm_blocks_def)

lemma demo_umm_malloc: "umm_malloc 10 (boot_heap 8) = Some (Some 12, demo_umm)"
  by (simp add: heap_evals demo_umm_blocks list_numeral demo_umm_def)

lemma demo_umm_next:
  "umm_malloc 10 demo_umm = Some (Some 28, [blk 1 0 5 0, blk 3 0 0 0, blk 0 0 0 0, blk 5 1 0 0, blk 0 0 0 0, blk 0 3 0 0, blk 0 0 0 0, blk 0 0 0 0])"
  by (simp add: heap_evals demo_umm_blocks demo_umm_def)

lemma demo_umm_ok: "heap_ok (boot_heap 8) {}" "heap_ok demo_umm {(1, 3)}"
proof -
  show b: "heap_ok (boot_heap 8) {}" by (auto simp: heap_ok_def)
  have "(10 :: uint32_t) \<noteq> 0" "umm_blocks 10 \<noteq> 0" by (simp_all add: demo_umm_blocks)
  from umm_malloc_spec [OF b this] show "heap_ok demo_umm {(1, 3)}" by (auto simp: demo_umm_blocks demo_umm_malloc numeral_3_eq_3)
qed

section \<open>Allocation and release\<close>

text \<open>C19: for a request of at most 524276 bytes, whose number of blocks fits into 16 bits, \<^verbatim>\<open>umm_malloc\<close> returns an area with room for the
  requested bytes, inside the heap and apart from all areas in use, whose
  contents it keeps. It returns \<^verbatim>\<open>NULL\<close>, and then changes nothing, only for a request of no bytes or if no gap below a block
  in use has room for the request.\<close>

theorem umm_malloc_fits:
  assumes "heap_ok h U" and "unat n \<le> 524276"
  shows "umm_malloc n h = Some (None, h) \<and> (n = 0 \<or> (\<forall>(a, b) \<in> U. \<forall>x. x + unat (umm_blocks n) \<le> a \<longrightarrow> \<not> gap U x (x + unat (umm_blocks n)))) \<or>
     (\<exists>a b h'. umm_malloc n h = Some (Some (8 * a + 4), h') \<and> 0 < a \<and> 8 * a + 4 + unat n \<le> 8 * b \<and> b < length h \<and>
        (\<forall>(x, y) \<in> U. b \<le> x \<or> y \<le> a) \<and> heap_ok h' (insert (a, b) U) \<and> (\<forall>y \<in> U. same_data h h' y) \<and> length h' = length h)"
proof (cases "n = 0")
  case False
  then have "0 < n" by (simp add: word_gt_0)
  note e = blocks_enough [OF this assms(2)]
  have nz: "umm_blocks n \<noteq> 0" using e(1) by auto
  from umm_malloc_spec [OF assms(1) False nz] show ?thesis
  proof (elim disjE exE conjE)
    assume full: "umm_malloc n h = Some (None, h)"
    with umm_malloc_full [OF assms(1) False nz full] show ?thesis by blast
  next
    fix c h' assume got: "umm_malloc n h = Some (Some (8 * c + 4), h')" "(c, c + unat (umm_blocks n)) \<notin> U"
      "heap_ok h' (insert (c, c + unat (umm_blocks n)) U)" "\<forall>y \<in> U. same_data h h' y" "length h' = length h"
    note d = heap_okD [OF got(3) insertI1]
    have "\<forall>(x, y) \<in> U. c + unat (umm_blocks n) \<le> x \<or> y \<le> c" using d(5) got(2) by blast
    with got d(1,3) e(2) show ?thesis by (intro disjI2 exI [of _ c] exI [of _ "c + unat (umm_blocks n)"] exI [of _ h']) simp
  qed
qed (simp add: umm_malloc_def)

theorem umm_malloc_fits_witness:
  "\<exists>a b h'. umm_malloc 10 demo_umm = Some (Some (8 * a + 4), h') \<and> 3 \<le> a \<and> heap_ok h' {(a, b), (1, 3)} \<and> same_data demo_umm h' (1, 3)"
proof -
  note r = demo_umm_next
  have n: "unat (10 :: uint32_t) \<le> 524276" by simp
  from umm_malloc_fits [OF demo_umm_ok(2) n] obtain a b h' where
    "umm_malloc 10 demo_umm = Some (Some (8 * a + 4), h')" "0 < a" "8 * a + 4 + 10 \<le> 8 * b" "\<forall>(x, y) \<in> {(1, 3)}. b \<le> x \<or> y \<le> a"
    "heap_ok h' (insert (a, b) {(1, 3)})" "\<forall>y \<in> {(1, 3)}. same_data demo_umm h' y" unfolding r by auto
  then show ?thesis by (intro exI [of _ a] exI [of _ b] exI [of _ h']) auto
qed

text \<open>C20: \<^verbatim>\<open>umm_free\<close> of an area in use returns, takes exactly this area out of use, and keeps the contents of all others; the heap
  stays well formed and without neighbouring free blocks.\<close>

theorem umm_free_releases:
  assumes "heap_ok h U" and "(a, b) \<in> U"
  shows "\<exists>h'. umm_free (Some (8 * a + 4)) h = Some h' \<and> heap_ok h' (U - {(a, b)}) \<and> (\<forall>y \<in> U - {(a, b)}. same_data h h' y) \<and> length h' = length h"
  by (rule umm_free_spec [OF assms])

theorem umm_free_releases_witness: "\<exists>h'. umm_free (Some 12) demo_umm = Some h' \<and> heap_ok h' {}"
  using umm_free_releases [OF demo_umm_ok(2), of 1 3] by auto

text \<open>C18: in every state that allocations of at most 524276 bytes, releases of live areas and writes into live areas can reach, the live areas
  lie in the heap and do not overlap, every byte written into them is still there, every live area can be released, and every
  further request of at most 524276 bytes, the limit of the 16-bit number of blocks, is answered without an access outside the heap.\<close>

theorem umm_session_safe:
  assumes "session h L D"
  shows "(\<forall>p n. L p = Some n \<longrightarrow> p + n \<le> 8 * length h \<and> (\<exists>h'. umm_free (Some p) h = Some h')) \<and>
     (\<forall>p n q m. L p = Some n \<and> L q = Some m \<and> p \<noteq> q \<longrightarrow> p + n \<le> q \<or> q + m \<le> p) \<and>
     (\<forall>j v. D j = Some v \<longrightarrow> get_byte j h = Some v) \<and>
     (\<forall>n. unat n \<le> 524276 \<longrightarrow> (\<exists>r. umm_malloc n h = Some r))"
proof -
  from session_inv [OF assms] obtain U where U: "heap_ok h U" "owns L U" "holds h L D" by blast
  have "p + n \<le> 8 * length h \<and> (\<exists>h'. umm_free (Some p) h = Some h')" if p: "L p = Some n" for p n
  proof -
    from ownsD [OF U(2) p] obtain a b where a: "p = 8 * a + 4" "(a, b) \<in> U" "p + n \<le> 8 * b" by blast
    from umm_free_spec [OF U(1) a(2)] heap_okD(3) [OF U(1) a(2)] a show ?thesis by auto
  qed
  moreover have "\<exists>r. umm_malloc n h = Some r" if "unat n \<le> 524276" for n
  proof (cases "n = 0")
    case False
    then have "0 < n" by (simp add: word_gt_0)
    from blocks_enough(1) [OF this that] have "umm_blocks n \<noteq> 0" by auto
    from umm_malloc_spec [OF U(1) False this] show ?thesis by blast
  qed (simp add: umm_malloc_def)
  ultimately show ?thesis using owns_apart [OF U(1,2)] U(3) by (auto simp: holds_def)
qed

theorem umm_session_safe_witness:
  "\<exists>h. umm_malloc 10 (boot_heap 8) = Some (Some 12, demo_umm) \<and> set_byte 13 42 demo_umm = Some h \<and> get_byte 13 h = Some 42 \<and> (\<exists>h'. umm_free (Some 12) h = Some h')"
proof -
  have "session (boot_heap 8) Map.empty Map.empty" by (rule session.booted) simp_all
  from session.mallocs [OF this _ demo_umm_malloc] have s: "session demo_umm [12 \<mapsto> 10] Map.empty" by simp
  have b: "set_byte 13 42 demo_umm = Some (demo_umm[1 := blk 3 0 10752 0])"
    by (simp add: set_byte_def demo_umm_def rd_def upd_def Let_def set_word_byte_def list_numeral)
  have w: "within 12 10 13" by (simp add: within_def)
  from session.writes [OF s _ w b] have "session (demo_umm[1 := blk 3 0 10752 0]) [12 \<mapsto> 10] [13 \<mapsto> 42]" by simp
  from umm_session_safe [OF this] b demo_umm_malloc show ?thesis by auto
qed

text \<open>C23: The reports of \<^verbatim>\<open>OSGetUsedHeapSize\<close> and \<^verbatim>\<open>OSGetFreeHeapSize\<close>: the used size is the number of bytes of the blocks in use,
  headers included, and both together are the heap without its first block, once that is in use.\<close>

theorem umm_accounting:
  assumes "heap_ok h U"
  shows "\<exists>us fs. OSGetUsedHeapSize h = Some us \<and> OSGetFreeHeapSize h = Some fs \<and> unat us = 8 * (\<Sum>(a, b) \<in> U. b - a) \<and>
     unat us + unat fs = 8 * (length h - (if UMM_NBLOCK h 0 = Some 0 then 0 else 1))"
  by (rule heap_sizes [OF assms])

theorem umm_accounting_witness: "\<exists>us fs. OSGetUsedHeapSize demo_umm = Some us \<and> OSGetFreeHeapSize demo_umm = Some fs \<and> unat us = 16 \<and> unat fs = 40"
  using umm_accounting [OF demo_umm_ok(2)] by (simp add: demo_umm_def UMM_NBLOCK_def) auto

section \<open>Clients\<close>

text \<open>C21: The memory of a dynamic queue. \<^verbatim>\<open>OSDQueueCreate\<close> with this allocator takes three new areas, among them one with room
  for all elements, or none at all if it fails; \<^verbatim>\<open>OSDQueueDelete\<close> gives all three back.\<close>

theorem dqueue_memory:
  assumes "heap_areas base ho A" and "iNesting k = 0"
    and "OSDQueueCreate (BRTOS_ALLOC base) (BRTOS_DEALLOC base) len ts ev k ho ds = (r, ev', ho', ds')"
  shows "r \<noteq> ALLOC_EVENT_OK \<and> heap_areas base ho' A \<or>
     r = ALLOC_EVENT_OK \<and> (\<exists>B e. heap_areas base ho' (A \<union> B) \<and> A \<inter> B = {} \<and> card B = 3 \<and>
       (OSQStart (DQueue ds' (DPointer ds' ev')), e) \<in> B \<and> OSQEnd (DQueue ds' (DPointer ds' ev')) \<le> e \<and>
       heap_areas base (fst (snd (snd (OSDQueueDelete (BRTOS_DEALLOC base) ev' k ho' ds')))) A)"
proof -
  from umm.dqueue_areas [OF assms(1,3)] show ?thesis
  proof (elim disjE conjE exE)
    fix e1 e2 e3 :: nat
    define cq q X where d: "cq = DPointer ds' ev'" "q = DQueue ds' cq" "X = {(unat cq, e1), (OSQStart q, e2), (unat ev', e3)}"
    assume r: "r = ALLOC_EVENT_OK" and "let cq = DPointer ds' ev'; q = DQueue ds' cq; X = {(unat cq, e1), (OSQStart q, e2), (unat ev', e3)} in
       heap_areas base ho' (A \<union> X) \<and> A \<inter> X = {} \<and> card X = 3 \<and> unat cq + 24 \<le> e1 \<and> OSQEnd q \<le> e2 \<and> unat ev' + 12 \<le> e3 \<and> OSQStart q < 2 ^ 32"
    then have a: "heap_areas base ho' (A \<union> X)" "A \<inter> X = {}" "card X = 3" "OSQEnd q \<le> e2" "OSQStart q < 2 ^ 32" unfolding d Let_def by blast+
    from umm.dqueue_delete_areas [OF a(1-3) [unfolded d(3)] a(5) d(1) [symmetric] d(2) [symmetric] assms(2)]
    have "heap_areas base (fst (snd (snd (OSDQueueDelete (BRTOS_DEALLOC base) ev' k ho' ds')))) A" .
    moreover have "(OSQStart q, e2) \<in> X" by (simp add: d(3))
    ultimately show ?thesis using r a(1-4) unfolding d(1,2) by blast
  qed simp
qed

theorem dqueue_memory_witness:
  "\<exists>ev ho ds. OSDQueueCreate (BRTOS_ALLOC 0x20000000) (BRTOS_DEALLOC 0x20000000) 4 3 0 (demo ready_high 3) (Some (boot_heap 16)) demo_dqueues =
       (ALLOC_EVENT_OK, ev, ho, ds) \<and>
     heap_areas 0x20000000 (fst (snd (snd (OSDQueueDelete (BRTOS_DEALLOC 0x20000000) ev (demo ready_high 3) ho ds)))) {}"
proof -
  let ?c = "OSDQueueCreate (BRTOS_ALLOC 0x20000000) (BRTOS_DEALLOC 0x20000000) 4 3 0 (demo ready_high 3) (Some (boot_heap 16)) demo_dqueues"
  obtain r ev ho ds where c: "?c = (r, ev, ho, ds)" by (metis prod_cases4)
  have b: "umm_blocks 24 = 4" "umm_blocks 12 = 2" by (simp_all add: umm_blocks_def)
  have "r = ALLOC_EVENT_OK" using c by (simp add: OSDQueueCreate_def BRTOS_ALLOC_def b heap_evals list_numeral)
  moreover have a: "heap_areas 0x20000000 (Some (boot_heap 16)) {}" by (auto simp: heap_areas_def heap_ok_def boot_heap_def)
  have k: "iNesting (demo ready_high 3) = 0" by simp
  from dqueue_memory [OF a k c] calculation have "heap_areas 0x20000000 (fst (snd (snd (OSDQueueDelete (BRTOS_DEALLOC 0x20000000) ev (demo ready_high 3) ho ds)))) {}" by auto
  ultimately show ?thesis using c by metis
qed

text \<open>C22: The memory of a dynamic task. An installed task owns a new area with room for its stack, and uninstalling it gives exactly
  this area back and restores the priority vector, the ready list and the table of tasks.\<close>

theorem task_memory:
  assumes "kernel_ok C k" and "alloc_ok C k" and "delay_list k xs" and "\<forall>t \<in> set xs. installed C k t"
    and "OSInstallTask_dyn (BRTOS_ALLOC base) (BRTOS_DEALLOC base) C f n b p a ho k = Some (OK, Some H, ho1, k1)" and "p \<noteq> 0"
    and "currentTask k = 0 \<or> installed C k (unat (currentTask k))" and "heap_areas base ho A"
  shows "\<exists>e ho2 k2. let s = unat (StackInit (tcb k1 (unat H))) in
     s + unat (b - b mod 4) \<le> e \<and> (s, e) \<notin> A \<and> heap_areas base ho1 (insert (s, e) A) \<and>
     OSUninstallTask (BRTOS_DEALLOC base) C H so ho1 k1 = Some (OK, ho2, k2) \<and> heap_areas base ho2 A \<and>
     PriorityVector k2 = PriorityVector k \<and> OSReadyList k2 = OSReadyList k \<and> TaskAlloc k2 = TaskAlloc k \<and>
     NumberOfInstalledTasks k2 = NumberOfInstalledTasks k \<and> kernel_ok C k2 \<and> alloc_ok C k2 \<and> delay_list k2 xs"
proof -
  have "arrays_ok C k" using assms(1) by (rule kernel_okD)
  from umm.task_areas [OF assms(8) this assms(5)] obtain e where e: "unat (StackInit (tcb k1 (unat H))) + unat (b - b mod 4) \<le> e"
    "(unat (StackInit (tcb k1 (unat H))), e) \<notin> A" "heap_areas base ho1 (insert (unat (StackInit (tcb k1 (unat H))), e) A)" by (auto simp: Let_def)
  have "heap_areas base (BRTOS_DEALLOC base (StackInit (tcb k1 (unat H))) ho1) A" using umm.dealloc_law [OF e(3) insertI1] e(2) by simp
  with e install_uninstall [OF assms(1-7), of so] show ?thesis unfolding Let_def by blast
qed

theorem task_memory_witness:
  "\<exists>ho1 k1 ho2 k2. OSInstallTask_dyn (BRTOS_ALLOC 0x20001000) (BRTOS_DEALLOC 0x20001000) demo_config 0x08000201 ''dyn'' 512 20 0
       (Some (boot_heap 80)) demo_boot = Some (OK, Some 1, ho1, k1) \<and>
     OSUninstallTask (BRTOS_DEALLOC 0x20001000) demo_config 1 0 ho1 k1 = Some (OK, ho2, k2) \<and> heap_areas 0x20001000 ho2 {} \<and>
     PriorityVector k2 = PriorityVector demo_boot \<and> kernel_ok demo_config k2"
proof -
  let ?inst = "OSInstallTask_dyn (BRTOS_ALLOC 0x20001000) (BRTOS_DEALLOC 0x20001000) demo_config 0x08000201 ''dyn'' 512 20 0 (Some (boot_heap 80)) demo_boot"
  have ar: "arrays_ok demo_config demo_boot" using demo_boot_ok(1) by (rule kernel_okD)
  have pe: "priority_error demo_config 0x08000201 20 demo_boot = Some None" by (simp add: priority_error_def)
  have b: "umm_blocks 512 = 65" by (simp add: umm_blocks_def)
  from malloc_boot [of 512 80] obtain h1 where m: "umm_malloc 512 (boot_heap 80) = Some (Some 12, h1)" by (auto simp: b)
  then have al: "BRTOS_ALLOC 0x20001000 (512 - 512 mod 4) (Some (boot_heap 80)) = (0x2000100C, Some h1)" by (simp add: BRTOS_ALLOC_def)
  from OSInstallTask_dyn_OK [where al = "BRTOS_ALLOC 0x20001000" and b = 512 and h = "Some (boot_heap 80)", OF ar _ pe _ al,
      where de = "BRTOS_DEALLOC 0x20001000" and n = "''dyn''" and a = 0]
  obtain hn k1 where r0: "?inst = Some (OK, hn, Some h1, k1)" by auto
  from OSInstallTask_dyn_effect [OF ar r0] have "hn = Some 1" by force
  with r0 have r: "?inst = Some (OK, Some 1, Some h1, k1)" by simp
  have a: "heap_areas 0x20001000 (Some (boot_heap 80)) {}" by (auto simp: heap_areas_def heap_ok_def boot_heap_def)
  from task_memory [OF demo_boot_ok _ r _ _ a, of 0] r show ?thesis by (auto simp: Let_def)
qed

section \<open>Limits\<close>

text \<open>Only the number of blocks matters for a request.\<close>

lemma umm_malloc_same_blocks:
  assumes "n \<noteq> 0" and "m \<noteq> 0" and "umm_blocks n = umm_blocks m"
  shows "umm_malloc n h = umm_malloc m h"
  using assms by (simp add: umm_malloc_def)

lemma blocks_of_room:
  fixes k :: nat
  assumes "0 < k" and "k < 65536"
  shows "unat (umm_blocks (of_nat (8 * k - 4))) = k" and "(of_nat (8 * k - 4) :: uint32_t) \<noteq> 0"
proof -
  have u: "unat (of_nat (8 * k - 4) :: uint32_t) = 8 * k - 4" using assms by (simp only: unsigned_of_nat) (simp add: take_bit_nat_eq_self)
  then have z: "0 < unat (of_nat (8 * k - 4) :: uint32_t)" using assms by simp
  then show "(of_nat (8 * k - 4) :: uint32_t) \<noteq> 0" by auto
  have p: "0 < (of_nat (8 * k - 4) :: uint32_t)" using z by (simp only: word_less_nat_alt) simp
  have "unat (of_nat (8 * k - 4) :: uint32_t) \<le> 524276" using u assms by simp
  from unat_blocks [OF p this, unfolded u] assms show "unat (umm_blocks (of_nat (8 * k - 4))) = k" by (auto split: if_splits)
qed

text \<open>C24: The number of blocks is truncated to 16 bits. Every request of more than 524276 bytes is answered like the small request with the number of
  blocks modulo 65536: if it is granted, the area is new and well formed, but has fewer bytes than were asked for. The requests whose number
  of blocks is a multiple of 65536 are left out here; they corrupt the heap.\<close>

theorem umm_size_truncated:
  assumes "heap_ok h U" and "524276 < unat n" and "umm_blocks n \<noteq> 0"
  defines "k \<equiv> unat (umm_blocks n)"
  shows "k = (2 + (unat n - 5) div 8) mod 65536 \<and> umm_malloc n h = umm_malloc (of_nat (8 * k - 4)) h \<and>
     (\<forall>p h'. umm_malloc n h = Some (Some p, h') \<longrightarrow>
        (\<exists>a. p = 8 * a + 4 \<and> (a, a + k) \<notin> U \<and> heap_ok h' (insert (a, a + k) U) \<and> 8 * (a + k) < p + unat n))"
proof -
  have nz: "n \<noteq> 0" using assms(2) by auto
  have k: "0 < k" "k < 65536" using assms(3) unsigned_less [of "umm_blocks n", where 'a = nat] by (simp_all add: k_def unat_gt_0)
  note r = blocks_of_room [OF k]
  have b: "umm_blocks n = umm_blocks (of_nat (8 * k - 4))" using r(1) by (simp only: word_unat_eq_iff k_def)
  have "k = (2 + (unat n - 5) div 8) mod 65536" unfolding k_def by (rule unat_blocks_mod) (use assms(2) in simp)
  moreover have "umm_malloc n h = umm_malloc (of_nat (8 * k - 4)) h" by (rule umm_malloc_same_blocks [OF nz r(2) b])
  moreover from umm_malloc_spec [OF assms(1) nz assms(3)] have "\<exists>a. p = 8 * a + 4 \<and> (a, a + k) \<notin> U \<and> heap_ok h' (insert (a, a + k) U) \<and> 8 * (a + k) < p + unat n"
    if "umm_malloc n h = Some (Some p, h')" for p h' using that k(2) assms(2) by (auto simp: k_def)
  ultimately show ?thesis by blast
qed

theorem umm_size_truncated_witness: "\<exists>h. umm_malloc 524288 (boot_heap 8) = Some (Some 12, h) \<and> heap_ok h {(1, 2)}"
proof -
  obtain h where m: "umm_malloc 524288 (boot_heap 8) = Some (Some 12, h)" by (simp add: heap_evals demo_umm_blocks list_numeral)
  have n: "524276 < unat (524288 :: uint32_t)" "umm_blocks 524288 \<noteq> 0" by (simp_all add: demo_umm_blocks)
  from umm_size_truncated [OF demo_umm_ok(1) n] m obtain a where a: "12 = 8 * a + 4" "heap_ok h {(a, a + unat (umm_blocks 524288))}" by blast
  then have "a = 1" by simp
  with a(2) have "heap_ok h {(1, 2)}" by (simp only: demo_umm_blocks) (simp add: numeral_2_eq_2)
  with m show ?thesis by blast
qed

text \<open>A request of 524280 bytes is granted without any block, and the next allocation accesses memory outside the heap.\<close>

theorem umm_zero_blocks: "\<exists>h. umm_malloc 524280 (boot_heap 8) = Some (Some 12, h) \<and> umm_malloc 1 h = None"
proof -
  have m: "unat (- 1 :: uint16_t) = 65535" by (simp add: unsigned_minus_1_eq_mask mask_eq_exp_minus_1)
  show ?thesis by (simp add: heap_evals demo_umm_blocks list_numeral m)
qed

text \<open>A released last block is not joined with the unused rest of the heap. After the release of the only area in
  use, a request fails that the fresh heap could satisfy.\<close>

theorem umm_rest_not_joined:
  "(\<exists>h. umm_malloc 64 (boot_heap 12) = Some (Some 12, h)) \<and>
   (\<exists>p h1 h2. umm_malloc 40 (boot_heap 12) = Some (p, h1) \<and> umm_free p h1 = Some h2 \<and> OSGetUsedHeapSize h2 = Some 0 \<and> umm_malloc 64 h2 = Some (None, h2))"
  by (simp add: heap_evals demo_umm_blocks list_numeral OSGetUsedHeapSize_def)

text \<open>\<^verbatim>\<open>umm_calloc\<close> wraps the product of its arguments: 65537 elements of 65536 bytes are granted with an area of 65536 bytes. Without
  the wrap-around the area has room for all elements and is zero.\<close>

theorem umm_calloc_zeroed:
  fixes num item_size :: uint32_t
  assumes "heap_ok h U" and "0 < unat item_size * unat num" and "unat item_size * unat num \<le> 524276"
  shows "umm_calloc num item_size h = Some (None, h) \<or>
     (\<exists>a b h'. umm_calloc num item_size h = Some (Some (8 * a + 4), h') \<and> (a, b) \<notin> U \<and> heap_ok h' (insert (a, b) U) \<and>
        8 * a + 4 + unat item_size * unat num \<le> 8 * b \<and> (\<forall>i < unat item_size * unat num. get_byte (8 * a + 4 + i) h' = Some 0) \<and>
        (\<forall>y \<in> U. same_data h h' y) \<and> length h' = length h)"
proof -
  have m: "unat (item_size * num) = unat item_size * unat num" using assms(3) by (intro unat_mult_lem [THEN iffD1]) simp
  then have "0 < item_size * num" using assms(2) by (simp add: word_less_nat_alt)
  from umm_calloc_spec [OF assms(1) this] show ?thesis unfolding m using assms(3) by blast
qed

theorem umm_calloc_zeroed_witness:
  "\<exists>a b h'. umm_calloc 5 2 demo_umm = Some (Some (8 * a + 4), h') \<and> heap_ok h' {(a, b), (1, 3)} \<and> get_byte (8 * a + 13) h' = Some 0"
proof -
  have "umm_calloc 5 2 demo_umm \<noteq> Some (None, demo_umm)" by (auto simp: umm_calloc_def demo_umm_next split: bind_splits)
  with umm_calloc_zeroed [OF demo_umm_ok(2), of 2 5] obtain a b h' where r: "umm_calloc 5 2 demo_umm = Some (Some (8 * a + 4), h')"
    "heap_ok h' (insert (a, b) {(1, 3)})" and z: "\<forall>i < 10. get_byte (8 * a + 4 + i) h' = Some 0" by auto
  have "get_byte (8 * a + 13) h' = Some 0" using z [THEN spec, of 9] by (simp add: add.commute)
  with r show ?thesis by blast
qed

end
