(* ===== verification/Tickless.thy ===== *)
theory Tickless
  imports Tick
begin

text \<open>
  The idle task of \<^verbatim>\<open>src/brtos/BRTOS.c\<close> and the tickless mode of \<^verbatim>\<open>src/hal/GCC_CORTEX-M4/HAL.c\<close>: while the idle task waits,
  the tick timer is set to the next wake-up, and the tick counter jumps there at once.
\<close>

section \<open>The idle task\<close>

text \<open>A turn of the endless loop up to \<^verbatim>\<open>OS_Wait\<close>. \<open>hook\<close> is \<^verbatim>\<open>IdleHook\<close>, if it is enabled.\<close>

definition Idle :: "config \<Rightarrow> (kernel \<Rightarrow> kernel) option \<Rightarrow> kernel \<Rightarrow> kernel" where
  "Idle C hook k =
    (let k = (case hook of None \<Rightarrow> k | Some IdleHook \<Rightarrow> IdleHook k)
     in if COMPUTES_CPU_LOAD C then k\<lparr>OSDutyTmp := 1\<rparr> else k)"

section \<open>The tickless mode\<close>

text \<open>
  The variables of the mode beside the kernel, and the reload register of the tick timer. \<open>hz\<close> is \<^verbatim>\<open>configCPU_CLOCK_HZ\<close>, \<open>cnt\<close> the value that
  is read from the counter register of the timer.
\<close>

record tickless =
  kern :: kernel
  time_next_task :: ostick_t
  normal_run :: uint8_t
  SYSTICK_LOAD :: uint32_t

definition quotient :: "uint32_t \<Rightarrow> uint32_t \<Rightarrow> uint32_t option" where
  "quotient a b = (if b = 0 then None else Some (a div b))"

definition TickTimerSetup :: "uint32_t \<Rightarrow> config \<Rightarrow> tickless \<Rightarrow> tickless option" where
  "TickTimerSetup hz C s = do {
     module \<leftarrow> quotient hz (configTICK_RATE_HZ C);
     Some (s\<lparr>SYSTICK_LOAD := module - 1\<rparr>) }"

definition BRTOS_WakeUP :: "uint32_t \<Rightarrow> config \<Rightarrow> uint32_t \<Rightarrow> tickless \<Rightarrow> tickless option" where
  "BRTOS_WakeUP hz C cnt s =
    (if normal_run s = 0 then do {
       module \<leftarrow> quotient hz (configTICK_RATE_HZ C);
       let module = module - 1;
       left \<leftarrow> quotient cnt module;
       let time = (ucast (ucast (time_next_task s) - left) :: ostick_t);
       s \<leftarrow> (if time > 0
             then do { k \<leftarrow> OS_TICK_HANDLER C (OSIncCounter_tickless time (kern s)); Some (s\<lparr>kern := k\<rparr>) }
             else Some s);
       TickTimerSetup hz C (s\<lparr>normal_run := 1\<rparr>) }
     else Some s)"

definition OSIncTickLess :: "uint32_t \<Rightarrow> config \<Rightarrow> tickless \<Rightarrow> tickless option" where
  "OSIncTickLess hz C s =
    (if normal_run s = 0
     then TickTimerSetup hz C (s\<lparr>normal_run := 1, kern := OSIncCounter_tickless (time_next_task s) (kern s)\<rparr>)
     else Some (s\<lparr>kern := OSIncCounter_tickless 1 (kern s)\<rparr>))"

definition SwitchContext_tickless :: "uint32_t \<Rightarrow> config \<Rightarrow> uint32_t \<Rightarrow> tickless \<Rightarrow> tickless option" where
  "SwitchContext_tickless hz C cnt s = do {
     s \<leftarrow> BRTOS_WakeUP hz C cnt s;
     k \<leftarrow> OS_INT_EXIT C (kern s);
     Some (s\<lparr>kern := k\<rparr>) }"

definition TickTimer_tickless :: "uint32_t \<Rightarrow> config \<Rightarrow> uint32_t \<Rightarrow> tickless \<Rightarrow> tickless option" where
  "TickTimer_tickless hz C cnt s = do {
     s \<leftarrow> OSIncTickLess hz C s;
     k \<leftarrow> OS_TICK_HANDLER C (kern s);
     SwitchContext_tickless hz C cnt (s\<lparr>kern := k\<rparr>) }"

text \<open>
  The search for the next wake-up. The code has a branch for the tasks that wake up past the wrap-around of the counter, but under
  \<^verbatim>\<open>#if (ostick_t != uint64_t)\<close>. Both names are types, which the preprocessor replaces by 0, so that the branch is left out of every build; such a task
  does not count.
\<close>

partial_function (option) wait_walk :: "kernel \<Rightarrow> ostick_t \<Rightarrow> ptr \<Rightarrow> ostick_t \<Rightarrow> ostick_t option" where
  "wait_walk k now Task lowWait =
    (case Task of
       None \<Rightarrow> Some lowWait
     | Some t \<Rightarrow>
        Option.bind (rd (ContextTask k) t) (\<lambda>x.
          wait_walk k now (Next x)
           (if now \<le> TimeToWait x
            then let time_tmp = TimeToWait x - now in if time_tmp < lowWait then time_tmp else lowWait
            else lowWait)))"

definition WaitTickless :: "uint32_t \<Rightarrow> config \<Rightarrow> tickless \<Rightarrow> tickless option" where
  "WaitTickless hz C s = do {
     let k = kern s;
     lowWait \<leftarrow> wait_walk k (OSGetTickCount k) (Head k) MAX_TIMER;
     module \<leftarrow> quotient hz (configTICK_RATE_HZ C);
     MAX_TICKS \<leftarrow> quotient 0x00FFFFFF (module - 1);
     let t = ((if ucast lowWait > MAX_TICKS then ucast MAX_TICKS else lowWait) :: ostick_t);
     let load = (if t > 0 then (module - 1) * ucast t else module - 1);
     Some (s\<lparr>time_next_task := t, SYSTICK_LOAD := load, normal_run := 0\<rparr>) }"

section \<open>The next wake-up\<close>

text \<open>The number of ticks until the task wakes up.\<close>

definition ticks_left :: "kernel \<Rightarrow> nat \<Rightarrow> nat" where
  "ticks_left k t = (unat (TimeToWait (tcb k t)) + (65532 - unat (OSTickCounter k))) mod 65532"

text \<open>The sleepers all have a time stamp in range that is still to come.\<close>

definition ahead :: "kernel \<Rightarrow> nat list \<Rightarrow> bool" where
  "ahead k xs \<longleftrightarrow> (\<forall>t \<in> set xs. TimeToWait (tcb k t) < TICK_COUNT_OVERFLOW \<and> TimeToWait (tcb k t) \<noteq> OSTickCounter k)"

text \<open>The sleepers that the search takes into account: those that wake up before the wrap-around of the counter.\<close>

definition in_sight :: "kernel \<Rightarrow> nat set \<Rightarrow> nat set" where
  "in_sight k A = {t \<in> A. OSTickCounter k \<le> TimeToWait (tcb k t)}"

lemma in_sight_insert: "in_sight k (insert t A) = (if OSTickCounter k \<le> TimeToWait (tcb k t) then insert t (in_sight k A) else in_sight k A)"
  by (auto simp: in_sight_def)

lemma finite_in_sight [simp]: "finite A \<Longrightarrow> finite (in_sight k A)"
  by (simp add: in_sight_def)

lemma wait_walk_None [simp]: "wait_walk k now None low = Some low"
  by (simp add: wait_walk.simps)

lemma wait_walk_Some [simp]:
  "t < length (ContextTask k) \<Longrightarrow> wait_walk k now (Some t) low = wait_walk k now (Next (tcb k t))
     (if now \<le> TimeToWait (tcb k t)
      then let time_tmp = TimeToWait (tcb k t) - now in if time_tmp < low then time_tmp else low
      else low)"
  by (subst wait_walk.simps) simp

lemma left_word:
  fixes c T :: ostick_t
  assumes "c \<le> T" "T < TICK_COUNT_OVERFLOW"
  shows "unat (T - c) = (unat T + (65532 - unat c)) mod 65532"
proof -
  have d: "unat (T - c) = unat T - unat c" "unat c \<le> unat T" using assms(1) by (simp_all add: unat_sub word_le_nat_alt)
  have "unat T + (65532 - unat c) = (unat T - unat c) + 65532" "unat T - unat c < 65532"
    using assms d(2) by (auto simp: word_less_nat_alt)
  then have "(unat T + (65532 - unat c)) mod 65532 = unat T - unat c" by (simp only: mod_add_self2 mod_less)
  with d(1) show ?thesis by simp
qed

lemma left_pos:
  fixes a c :: nat
  assumes "a < 65532" "c < 65532" "a \<noteq> c"
  shows "0 < (a + (65532 - c)) mod 65532"
proof (cases "c \<le> a")
  case True
  then have "a + (65532 - c) = (a - c) + 65532" using assms(2) by simp
  then have "(a + (65532 - c)) mod 65532 = a - c" using assms(1) by (simp only: mod_add_self2) simp
  with True assms(3) show ?thesis by simp
qed (use assms in simp)

lemma wait_walk_spec:
  "delay_list k (ys @ zs) \<Longrightarrow> \<forall>t \<in> set zs. TimeToWait (tcb k t) < TICK_COUNT_OVERFLOW \<Longrightarrow>
     \<exists>r. wait_walk k (OSTickCounter k) (first_of zs None) low = Some r \<and> unat r = Min (insert (unat low) (ticks_left k ` in_sight k (set zs)))"
proof (induction zs arbitrary: ys low)
  case (Cons t zs)
  from Cons.prems(1) have b: "t < length (ContextTask k)" "Next (tcb k t) = first_of zs None" by (auto simp: delay_list_def)
  let ?T = "TimeToWait (tcb k t)" let ?c = "OSTickCounter k"
  let ?l = "if ?c \<le> ?T then if ?T - ?c < low then ?T - ?c else low else low"
  have st: "wait_walk k ?c (Some t) low = wait_walk k ?c (first_of zs None) ?l" using b by (simp add: Let_def)
  from Cons.IH [of "ys @ [t]" ?l] Cons.prems obtain r where
    r: "wait_walk k ?c (first_of zs None) ?l = Some r" "unat r = Min (insert (unat ?l) (ticks_left k ` in_sight k (set zs)))" by auto
  have "unat r = Min (insert (unat low) (ticks_left k ` in_sight k (set (t # zs))))"
  proof (cases "?c \<le> ?T")
    case True
    then have d: "unat (?T - ?c) = ticks_left k t" unfolding ticks_left_def using Cons.prems(2) by (intro left_word) simp_all
    have l: "unat ?l = min (ticks_left k t) (unat low)" using True unfolding d [symmetric] by (simp add: word_less_nat_alt)
    show ?thesis unfolding r(2) l using True
      by (cases "in_sight k (set zs) = {}") (simp_all add: in_sight_insert min.assoc min.commute min.left_commute)
  qed (use r(2) in \<open>simp add: in_sight_insert\<close>)
  with st r(1) show ?case by auto
qed (simp add: in_sight_def)

section \<open>Quiet ticks\<close>

text \<open>The idle task runs, nothing else is ready, and the last switch has selected it.\<close>

definition settled :: "config \<Rightarrow> kernel \<Rightarrow> bool" where
  "settled C k \<longleftrightarrow> iNesting k = 0 \<and> runs_highest C k \<and> SelectedTask k = currentTask k \<and> \<not> COMPUTES_CPU_LOAD C"

lemma tick_walk_quiet:
  "delay_list k (ys @ zs) \<Longrightarrow> \<forall>t \<in> set zs. TimeToWait (tcb k t) \<noteq> OSTickCounter k \<Longrightarrow> tick_walk C (first_of zs None) k = Some k"
proof (induction zs arbitrary: ys)
  case (Cons t zs)
  from Cons.prems(1) have "t < length (ContextTask k)" "Next (tcb k t) = first_of zs None" by (auto simp: delay_list_def)
  with Cons.IH [of "ys @ [t]"] Cons.prems show ?case by simp
qed simp

lemma switch_settled:
  assumes "sys_ok C k xs" "settled C k"
  shows "OS_INT_EXIT C k = Some k"
proof -
  note d = sys_okD [OF assms(1)]
  from OSSchedule_highest [OF d(1,6)] obtain sel where s: "OSSchedule C k = Some sel" "installed C k (unat sel)" "prio_of k (unat sel) = Max (runnable k)" .
  have i: "installed C k (unat (currentTask k))" "prio_of k (unat (currentTask k)) = Max (runnable k)"
    using assms(2) by (simp_all add: settled_def runs_highest_def)
  have "unat sel = unat (currentTask k)" using installed_inj [OF d(1) s(2) i(1)] s(3) i(2) by simp
  then have "sel = currentTask k" by (simp add: word_unat_eq_iff)
  then show ?thesis using s(1) assms(2) by (simp add: OS_INT_EXIT_def settled_def Let_def)
qed

lemma handler_quiet:
  assumes "sys_ok C k xs" "\<not> COMPUTES_CPU_LOAD C" "\<forall>t \<in> set xs. TimeToWait (tcb k t) \<noteq> OSTickCounter k"
  shows "OS_TICK_HANDLER C k = Some k"
  using tick_walk_quiet [of k "[]" xs C] sys_okD(2) [OF assms(1)] assms(2,3) by (simp add: OS_TICK_HANDLER_def system_load_def delay_list_def)

lemma settled_OSIncCounter: "settled C (OSIncCounter k) = settled C k"
  by (simp add: settled_def runs_highest_def OSIncCounter_def Let_def installed_def runnable_def)

lemma iterate_counter:
  "settled C ((OSIncCounter ^^ n) k) = settled C k" "sys_ok C k xs \<Longrightarrow> sys_ok C ((OSIncCounter ^^ n) k) xs" "tcb ((OSIncCounter ^^ n) k) t = tcb k t"
  by (induction n) (auto simp: settled_OSIncCounter intro: OSIncCounter_sys_ok)

text \<open>A task is due after exactly as many ticks as are left, within one period of the counter.\<close>

lemma due_after:
  assumes s: "sys_ok C k xs" and e: "TimeToWait (tcb k t) = OSTickCounter ((OSIncCounter ^^ n) k)" and n: "n < 65532"
  shows "n = ticks_left k t"
proof -
  have ok: "tick_ok k" using s by (rule sys_okD)
  then have c: "unat (OSTickCounter k) < 65532" by (simp add: word_less_nat_alt)
  have T: "unat (TimeToWait (tcb k t)) = (unat (OSTickCounter k) + n) mod 65532" using e unat_iterate_OSIncCounter [OF ok, of n] by simp
  have "ticks_left k t = ((unat (OSTickCounter k) + n) mod 65532 + (65532 - unat (OSTickCounter k))) mod 65532" by (simp add: ticks_left_def T)
  also have "\<dots> = (unat (OSTickCounter k) + n + (65532 - unat (OSTickCounter k))) mod 65532" by (simp only: mod_add_left_eq)
  also have "\<dots> = (n + 65532) mod 65532" using c by (intro arg_cong [where f = "\<lambda>x. x mod 65532"]) linarith
  also have "\<dots> = n" using n by simp
  finally show ?thesis ..
qed

lemma before_due:
  assumes "sys_ok C k xs" "n < ticks_left k t"
  shows "TimeToWait (tcb k t) \<noteq> OSTickCounter ((OSIncCounter ^^ n) k)"
  using due_after [OF assms(1)] assms(2) by (fastforce simp: ticks_left_def)

lemma passed_due:
  assumes "sys_ok C k xs" "ticks_left k t < n" "n < 65532"
  shows "TimeToWait (tcb k t) \<noteq> OSTickCounter ((OSIncCounter ^^ n) k)"
  using due_after [OF assms(1)] assms(2,3) by fastforce

lemma quiet_ticks:
  assumes s: "sys_ok C k xs" "settled C k" "ahead k xs"
  shows "\<forall>t \<in> set xs. n < ticks_left k t \<Longrightarrow> run_ticks C n k = Some ((OSIncCounter ^^ n) k)"
proof (induction n)
  case (Suc n)
  let ?k = "(OSIncCounter ^^ Suc n) k"
  have r: "run_ticks C n k = Some ((OSIncCounter ^^ n) k)" using Suc by fastforce
  have ok: "sys_ok C ?k xs" by (rule iterate_counter(2) [OF s(1)])
  have "\<forall>t \<in> set xs. TimeToWait (tcb ?k t) \<noteq> OSTickCounter ?k"
    using before_due [OF s(1), of "Suc n"] Suc.prems by (simp only: iterate_counter(3)) blast
  from handler_quiet [OF ok _ this] s(2) have "OS_TICK_HANDLER C ?k = Some ?k" by (simp add: settled_def)
  moreover have "OS_INT_EXIT C ?k = Some ?k" using switch_settled [OF ok] s(2) by (simp only: iterate_counter(1))
  ultimately show ?case using r by (simp add: TickTimer_def SwitchContext_def)
qed simp

section \<open>One jump instead of many ticks\<close>

lemma tickless_iterates:
  assumes "tick_ok k" and "inc \<le> TICK_COUNT_OVERFLOW"
  shows "OSIncCounter_tickless inc k = (OSIncCounter ^^ unat inc) k"
proof (cases "inc = 1")
  case True
  then show ?thesis by (simp add: OSIncCounter_tickless_def)
next
  case False
  have "OSIncCounter_tickless inc k = k\<lparr>OSTickCounter := wake_tick (OSTickCounter k) inc\<rparr>"
    using False by (simp add: OSIncCounter_tickless_def wake_tick_def Let_def)
  moreover have "wake_tick (OSTickCounter k) inc = OSTickCounter ((OSIncCounter ^^ unat inc) k)"
    by (simp add: word_unat_eq_iff unat_wake_tick [OF assms] unat_iterate_OSIncCounter [OF assms(1)])
  ultimately show ?thesis by (subst iterate_OSIncCounter) simp
qed

text \<open>The timer can count at least 257 cycles a tick, so that the longest wait is less than the period of the counter.\<close>

definition clock_ok :: "uint32_t \<Rightarrow> config \<Rightarrow> bool" where
  "clock_ok hz C \<longleftrightarrow> configTICK_RATE_HZ C \<noteq> 0 \<and> 258 \<le> hz div configTICK_RATE_HZ C \<and> hz div configTICK_RATE_HZ C \<le> 0x1000000"

lemma max_ticks:
  assumes "clock_ok hz C"
  defines "m \<equiv> hz div configTICK_RATE_HZ C - 1"
  shows "quotient hz (configTICK_RATE_HZ C) = Some (m + 1)" "m \<noteq> 0" "0 < unat (0x00FFFFFF div m)" "unat (0x00FFFFFF div m) \<le> 65281"
    "unat (0x00FFFFFF div m) * unat m \<le> 0x00FFFFFF"
proof -
  let ?q = "hz div configTICK_RATE_HZ C"
  have q: "258 \<le> unat ?q" "unat ?q \<le> 0x1000000" using assms(1) by (simp_all add: clock_ok_def word_le_nat_alt)
  have um: "unat m = unat ?q - 1" unfolding m_def using assms(1) by (subst unat_sub) (auto simp: clock_ok_def word_le_nat_alt)
  show "quotient hz (configTICK_RATE_HZ C) = Some (m + 1)" using assms(1) by (simp add: quotient_def clock_ok_def m_def)
  show "m \<noteq> 0" using um q by auto
  have d: "unat (0x00FFFFFF div m) = 16777215 div unat m" by (simp add: unat_div)
  have m: "257 \<le> unat m" "unat m \<le> 16777215" using um q by simp_all
  show "unat (0x00FFFFFF div m) \<le> 65281" unfolding d using div_le_mono2 [of 257 "unat m" 16777215] m by simp
  show "0 < unat (0x00FFFFFF div m)" unfolding d using m by (simp add: div_greater_zero_iff)
  show "unat (0x00FFFFFF div m) * unat m \<le> 0x00FFFFFF" unfolding d by (simp add: div_times_less_eq_dividend)
qed

lemma WaitTickless_spec:
  assumes s: "sys_ok C (kern s) xs" "ahead (kern s) xs" "clock_ok hz C"
  shows "\<exists>t. WaitTickless hz C s = Some (s\<lparr>time_next_task := t, SYSTICK_LOAD := (hz div configTICK_RATE_HZ C - 1) * ucast t, normal_run := 0\<rparr>) \<and>
     0 < t \<and> unat t \<le> 65281 \<and> unat (hz div configTICK_RATE_HZ C - 1) * unat t \<le> 0x00FFFFFF \<and>
     unat t = Min (insert (unat (0x00FFFFFF div (hz div configTICK_RATE_HZ C - 1))) (ticks_left (kern s) ` in_sight (kern s) (set xs)))"
proof -
  let ?k = "kern s" let ?m = "hz div configTICK_RATE_HZ C - 1"
  let ?L = "ticks_left (kern s) ` in_sight (kern s) (set xs)"
  note mt = max_ticks [OF s(3)]
  have c: "tick_ok ?k" and d: "delay_list ?k ([] @ xs)" using sys_okD [OF s(1)] by simp_all
  from wait_walk_spec [OF d, of MAX_TIMER] s(2) obtain r where
    r: "wait_walk ?k (OSTickCounter ?k) (Head ?k) MAX_TIMER = Some r" "unat r = Min (insert 65535 ?L)"
    using d by (auto simp: ahead_def delay_list_def)
  let ?M = "0x00FFFFFF div ?m"
  define t where "t = (if ucast r > ?M then ucast ?M else r)"
  have fin: "finite ?L" by simp
  have left: "0 < ticks_left ?k x" if "x \<in> set xs" for x
    using s(2) that c left_pos [of "unat (TimeToWait (tcb ?k x))" "unat (OSTickCounter ?k)"]
    by (auto simp: ahead_def ticks_left_def word_less_nat_alt word_unat_eq_iff)
  have r0: "0 < unat r" unfolding r(2) using left by (subst Min_gr_iff) (auto simp: in_sight_def)
  have ur: "unat (ucast r :: uint32_t) = unat r" using unsigned_less [of r, where 'a = nat] by (simp add: unsigned_ucast_eq take_bit_nat_eq_self)
  have ut: "unat t = min (unat ?M) (unat r)"
  proof (cases "ucast r > ?M")
    case True
    then have "unat ?M < unat r" by (simp add: word_less_nat_alt ur)
    moreover have "unat (ucast ?M :: ostick_t) = unat ?M" using mt(4) by (simp add: unsigned_ucast_eq take_bit_nat_eq_self)
    ultimately show ?thesis using True by (simp add: t_def)
  next
    case False
    then have "unat r \<le> unat ?M" by (simp add: word_less_nat_alt ur)
    with False show ?thesis by (simp add: t_def)
  qed
  also have "\<dots> = Min (insert (unat ?M) (insert 65535 ?L))" unfolding r(2) using fin by simp
  also have "\<dots> = Min (insert (unat ?M) ?L)" using fin mt(4) by (cases "?L = {}") (simp_all add: min.left_commute min.absorb1 min_le_iff_disj)
  finally have t: "unat t = Min (insert (unat ?M) ?L)" .
  have t0: "0 < t" using ut r0 mt(3) by (simp add: word_less_nat_alt)
  have "WaitTickless hz C s = Some (s\<lparr>time_next_task := t, SYSTICK_LOAD := ?m * ucast t, normal_run := 0\<rparr>)"
    using r(1) mt(1,2) t0 by (simp add: WaitTickless_def OSGetTickCount_def quotient_def t_def [symmetric] Let_def)
  moreover have "unat t \<le> 65281" using ut mt(4) by simp
  moreover have "unat ?m * unat t \<le> 0x00FFFFFF"
  proof -
    have "unat ?m * unat t \<le> unat ?m * unat ?M" using ut by (intro mult_le_mono2) simp
    also have "\<dots> = unat ?M * unat ?m" by (rule mult.commute)
    also note mt(5)
    finally show ?thesis .
  qed
  ultimately show ?thesis using t0 t by blast
qed

text \<open>The tick interrupt at the end of the wait does what the last of as many single ticks does after a mere advance of the counter.\<close>

lemma tickless_end:
  assumes s: "sys_ok C (kern s) xs" "clock_ok hz C" and r: "normal_run s = 0" and t: "unat (time_next_task s) = Suc n" "Suc n \<le> 65281"
  obtains k where "TickTimer C ((OSIncCounter ^^ n) (kern s)) = Some k"
    and "TickTimer_tickless hz C cnt s = Some (s\<lparr>normal_run := 1, kern := k, SYSTICK_LOAD := hz div configTICK_RATE_HZ C - 1\<rparr>)"
proof -
  let ?k = "kern s"
  have c: "tick_ok ?k" using s(1) by (rule sys_okD)
  have "time_next_task s \<le> TICK_COUNT_OVERFLOW" using t by (simp add: word_le_nat_alt)
  from tickless_iterates [OF c this] have j: "OSIncCounter_tickless (time_next_task s) ?k = (OSIncCounter ^^ Suc n) ?k" by (simp only: t(1))
  from TickTimer_spec [OF iterate_counter(2) [OF s(1), of n]] obtain k where k: "TickTimer C ((OSIncCounter ^^ n) ?k) = Some k" .
  then obtain k1 where k1: "OS_TICK_HANDLER C ((OSIncCounter ^^ Suc n) ?k) = Some k1" "OS_INT_EXIT C k1 = Some k"
    by (auto simp: TickTimer_def SwitchContext_def bind_eq_Some_conv)
  have "TickTimer_tickless hz C cnt s = Some (s\<lparr>normal_run := 1, kern := k, SYSTICK_LOAD := hz div configTICK_RATE_HZ C - 1\<rparr>)"
    using r k1 max_ticks(1) [OF s(2)] j by (simp add: TickTimer_tickless_def OSIncTickLess_def TickTimerSetup_def SwitchContext_tickless_def BRTOS_WakeUP_def)
  with k that show ?thesis by blast
qed

lemma tickless_tick:
  assumes s: "sys_ok C (kern s) xs" "settled C (kern s)" "ahead (kern s) xs" "clock_ok hz C" and r: "normal_run s = 0"
    and t: "0 < time_next_task s" "unat (time_next_task s) \<le> 65281" "\<forall>x \<in> set xs. unat (time_next_task s) \<le> ticks_left (kern s) x"
  shows "\<exists>s2. TickTimer_tickless hz C cnt s = Some s2 \<and> run_ticks C (unat (time_next_task s)) (kern s) = Some (kern s2) \<and>
     normal_run s2 = 1 \<and> SYSTICK_LOAD s2 = hz div configTICK_RATE_HZ C - 1"
proof -
  obtain n where n: "unat (time_next_task s) = Suc n" using t(1) by (cases "unat (time_next_task s)") (auto simp: unat_eq_0)
  from tickless_end [OF s(1,4) r n] t(2) n obtain k where k: "TickTimer C ((OSIncCounter ^^ n) (kern s)) = Some k"
    "TickTimer_tickless hz C cnt s = Some (s\<lparr>normal_run := 1, kern := k, SYSTICK_LOAD := hz div configTICK_RATE_HZ C - 1\<rparr>)" by auto
  have "run_ticks C n (kern s) = Some ((OSIncCounter ^^ n) (kern s))" using t(3) n by (intro quiet_ticks [OF s(1-3)]) auto
  with k show ?thesis by (simp add: n)
qed

text \<open>An early wake-up, by another interrupt, advances the counter by the ticks that have passed; as long as no task is due, nothing else changes.\<close>

lemma early_wakeup:
  assumes s: "sys_ok C (kern s) xs" "ahead (kern s) xs" "\<not> COMPUTES_CPU_LOAD C" "clock_ok hz C" and r: "normal_run s = 0"
    and t: "unat (time_next_task s) \<le> 65281" "\<forall>x \<in> set xs. unat (time_next_task s) \<le> ticks_left (kern s) x"
    and e: "left = unat cnt div unat (hz div configTICK_RATE_HZ C - 1)" "0 < left" "left \<le> unat (time_next_task s)"
  shows "BRTOS_WakeUP hz C cnt s = Some (s\<lparr>kern := (OSIncCounter ^^ (unat (time_next_task s) - left)) (kern s), normal_run := 1,
     SYSTICK_LOAD := hz div configTICK_RATE_HZ C - 1\<rparr>)"
proof -
  let ?k = "kern s" let ?m = "hz div configTICK_RATE_HZ C - 1" let ?n = "unat (time_next_task s) - left"
  note mt = max_ticks [OF s(4)]
  have q: "quotient cnt ?m = Some (cnt div ?m)" using mt(2) by (simp add: quotient_def)
  have l: "unat (cnt div ?m) = left" using e(1) by (simp add: unat_div)
  define time where "time = (ucast (ucast (time_next_task s) - cnt div ?m) :: ostick_t)"
  have ut: "unat (ucast (time_next_task s) :: uint32_t) = unat (time_next_task s)"
    using unsigned_less [of "time_next_task s", where 'a = nat] by (simp add: unsigned_ucast_eq take_bit_nat_eq_self)
  have "unat (ucast (time_next_task s) - cnt div ?m :: uint32_t) = ?n" using e(3) l by (subst unat_sub) (simp_all add: word_le_nat_alt ut)
  then have time: "unat time = ?n" using t(1) by (simp add: time_def unsigned_ucast_eq take_bit_nat_eq_self)
  have c: "tick_ok ?k" using s(1) by (rule sys_okD)
  have "time \<le> TICK_COUNT_OVERFLOW" using t(1) time by (simp add: word_le_nat_alt)
  from tickless_iterates [OF c this] have j: "OSIncCounter_tickless time ?k = (OSIncCounter ^^ ?n) ?k" by (simp only: time)
  have "?n < ticks_left ?k x" if "x \<in> set xs" for x using t(2) that e(2,3) by fastforce
  then have "\<forall>x \<in> set xs. TimeToWait (tcb ((OSIncCounter ^^ ?n) ?k) x) \<noteq> OSTickCounter ((OSIncCounter ^^ ?n) ?k)"
    using before_due [OF s(1)] by (simp only: iterate_counter(3)) blast
  from handler_quiet [OF iterate_counter(2) [OF s(1)] s(3) this] have h: "OS_TICK_HANDLER C ((OSIncCounter ^^ ?n) ?k) = Some ((OSIncCounter ^^ ?n) ?k)" .
  show ?thesis
  proof (cases "time = 0")
    case True
    then have "?n = 0" using time by simp
    with r q mt(1) True show ?thesis by (simp add: BRTOS_WakeUP_def TickTimerSetup_def Let_def time_def [symmetric])
  next
    case False
    with r q mt(1) j h show ?thesis by (simp add: BRTOS_WakeUP_def TickTimerSetup_def Let_def time_def [symmetric] word_gt_0)
  qed
qed

section \<open>Sleepers ahead\<close>

text \<open>The delays of the kernel give time stamps ahead of the counter and leave a settled kernel.\<close>

lemma switch_selects: "OS_INT_EXIT C k = Some k' \<Longrightarrow> iNesting k' = 0 \<Longrightarrow> SelectedTask k' = currentTask k'"
proof -
  assume r: "OS_INT_EXIT C k = Some k'" and n: "iNesting k' = 0"
  show "SelectedTask k' = currentTask k'"
  proof (cases "iNesting k = 0")
    case True
    with r obtain sel where "OSSchedule C k = Some sel" by (cases "OSSchedule C k") (auto simp: OS_INT_EXIT_def)
    with r True show ?thesis by (cases "currentTask k = sel") (auto simp: OS_INT_EXIT_def Let_def bind_eq_Some_conv)
  qed (use r n in \<open>simp add: OS_INT_EXIT_def\<close>)
qed

lemma wake_tick_ahead:
  assumes "tick_ok k" "0 < w" "w < TICK_COUNT_OVERFLOW"
  shows "wake_tick (OSTickCounter k) w < TICK_COUNT_OVERFLOW" "wake_tick (OSTickCounter k) w \<noteq> OSTickCounter k"
proof -
  let ?c = "unat (OSTickCounter k)" let ?w = "unat w"
  have b: "?c < 65532" "0 < ?w" "?w < 65532" using assms by (simp_all add: word_less_nat_alt)
  have u: "unat (wake_tick (OSTickCounter k) w) = (?c + ?w) mod 65532" using assms by (intro unat_wake_tick) simp_all
  then show "wake_tick (OSTickCounter k) w < TICK_COUNT_OVERFLOW" by (simp add: word_less_nat_alt)
  have "(?c + ?w) mod 65532 \<noteq> ?c"
  proof (cases "?c + ?w < 65532")
    case False
    then have "(?c + ?w) mod 65532 = ?c + ?w - 65532" using b by (simp add: mod_if)
    with False b show ?thesis by linarith
  qed (use b in simp)
  with u show "wake_tick (OSTickCounter k) w \<noteq> OSTickCounter k" by metis
qed

lemma delay_settles:
  assumes s: "sys_ok C k xs" "iNesting k = 0" "installed C k (unat (currentTask k))"
    "prio_of k (unat (currentTask k)) \<noteq> 0" "unat (currentTask k) \<notin> set xs"
    and w: "0 < w" "w < TICK_COUNT_OVERFLOW" and a: "ahead k xs" "\<not> COMPUTES_CPU_LOAD C"
  obtains k' where "OSDelayTask C w k = Some (OK, k')" and "sys_ok C k' (xs @ [unat (currentTask k)])" and "settled C k'"
    and "ahead k' (xs @ [unat (currentTask k)])" and "TimeToWait (tcb k' (unat (currentTask k))) = wake_tick (OSTickCounter k) w"
    and "OSTickCounter k' = OSTickCounter k"
proof -
  let ?t = "unat (currentTask k)"
  from OSDelayTask_spec [OF s w(1)] obtain k' where
    k': "OSDelayTask C w k = Some (OK, k')" "sys_ok C k' (xs @ [?t])" and sl: "slept k k' ?t (wake_tick (OSTickCounter k) w)"
    and rh: "runs_highest C k'" .
  note f = frameD [OF sleptD(1) [OF sl]]
  from k'(1) s(2) obtain kk where "OS_INT_EXIT C kk = Some k'"
    by (auto simp: OSDelayTask_def Let_def bind_eq_Some_conv ChangeContext_def SwitchContext_def split: if_splits)
  then have "SelectedTask k' = currentTask k'" using f(7) s(2) by (intro switch_selects) simp_all
  then have "settled C k'" using rh a(2) f(7) s(2) by (simp add: settled_def)
  moreover have "ahead k' (xs @ [?t])"
    using a(1) wake_tick_ahead [OF sys_okD(4) [OF s(1)] w] by (auto simp: ahead_def sleptD(2) [OF sl] f(5))
  ultimately show ?thesis using that k' sleptD(2) [OF sl, of ?t] f(5) by simp
qed

section \<open>The processor load\<close>

text \<open>A tick with a flag that says whether the idle task ran before it.\<close>

definition load_tick :: "config \<Rightarrow> bool \<Rightarrow> kernel \<Rightarrow> kernel" where
  "load_tick C idle k = system_load C (if idle then Idle C None k else k)"

lemma load_ticks:
  assumes "COMPUTES_CPU_LOAD C" "OSDutyTmp k = 0" "unat (DutyCnt k) + length bs \<le> 1000"
  shows "OSDuty (fold (load_tick C) bs k) = OSDuty k + of_nat (length (filter Not bs)) \<and> OSDutyTmp (fold (load_tick C) bs k) = 0 \<and>
     unat (DutyCnt (fold (load_tick C) bs k)) = unat (DutyCnt k) + length bs \<and> LastOSDuty (fold (load_tick C) bs k) = LastOSDuty k"
  using assms
proof (induction bs arbitrary: k)
  case (Cons b bs)
  have c: "DutyCnt k < 1000" using Cons.prems(3) by (simp add: word_less_nat_alt)
  have u: "unat (DutyCnt k + 1) = unat (DutyCnt k) + 1" using Cons.prems(3) by (subst unat_add_lem [THEN iffD1]) simp_all
  let ?k = "load_tick C b k"
  have k: "OSDutyTmp ?k = 0" "DutyCnt ?k = DutyCnt k + 1" "OSDuty ?k = OSDuty k + (if b then 0 else 1)" "LastOSDuty ?k = LastOSDuty k"
    using Cons.prems(1,2) c by (auto simp: load_tick_def system_load_def Idle_def Let_def)
  from Cons.IH [of ?k] Cons.prems k u show ?case by (auto simp: algebra_simps)
qed simp

end
