(* ===== verification/TicklessProps.thy ===== *)
theory TicklessProps
  imports Tickless Demo
begin

text \<open>
  The properties of the tickless mode and of the measurement of the processor load.
\<close>

section \<open>A system to evaluate on\<close>

definition quiet_config :: config where
  "quiet_config = demo_config\<lparr>COMPUTES_CPU_LOAD := False\<rparr>"

text \<open>The high task of the concrete system is about to sleep for three ticks, at the tick \<open>c\<close>.\<close>

definition demo_tick :: "ostick_t \<Rightarrow> kernel" where
  "demo_tick c = (demo ready_high 3)\<lparr>OSTickCounter := c\<rparr>"

lemma demo_tick_ok: "c < TICK_COUNT_OVERFLOW \<Longrightarrow> sys_ok quiet_config (demo_tick c) []"
proof -
  assume "c < TICK_COUNT_OVERFLOW"
  then have "sys_ok quiet_config (demo_tick c) [] = sys_ok demo_config (demo ready_high 3) []"
    unfolding sys_ok_def kernel_ok_def arrays_ok_def prio_ok_def ready_ok_def installed_def is_task_def delay_list_def runnable_def
    by (simp add: demo_tick_def quiet_config_def)
  with demo_high_ok show ?thesis by simp
qed

lemma demo_sleeps:
  assumes "c < TICK_COUNT_OVERFLOW"
  obtains k where "OSDelayTask quiet_config 3 (demo_tick c) = Some (OK, k)" and "sys_ok quiet_config k [3]" and "settled quiet_config k" and "ahead k [3]"
    and "TimeToWait (tcb k 3) = wake_tick c 3" and "OSTickCounter k = c"
proof -
  have c: "currentTask (demo_tick c) = 3" "OSTickCounter (demo_tick c) = c" by (simp_all add: demo_tick_def)
  have i: "installed quiet_config (demo_tick c) 3" "prio_of (demo_tick c) 3 \<noteq> 0" "iNesting (demo_tick c) = 0" "ahead (demo_tick c) []" "\<not> COMPUTES_CPU_LOAD quiet_config"
    by (simp_all add: installed_def is_task_def demo_tick_def quiet_config_def ahead_def)
  have w: "(0 :: ostick_t) < 3" "(3 :: ostick_t) < TICK_COUNT_OVERFLOW" by simp_all
  from delay_settles [OF demo_tick_ok [OF assms] i(3) _ _ _ w i(4,5)] i(1,2) obtain k where
    "OSDelayTask quiet_config 3 (demo_tick c) = Some (OK, k)" "sys_ok quiet_config k [3]" "settled quiet_config k" "ahead k [3]"
    "TimeToWait (tcb k 3) = wake_tick c 3" "OSTickCounter k = c" by (auto simp: c)
  then show ?thesis by (rule that)
qed


lemma late_demo:
  obtains k where "OSDelayTask quiet_config 3 (demo_tick 65530) = Some (OK, k)" and "sys_ok quiet_config k [3]" and "settled quiet_config k" and "ahead k [3]"
    and "TimeToWait (tcb k 3) = 1" and "OSTickCounter k = 65530"
proof -
  have t: "(65530 :: ostick_t) < TICK_COUNT_OVERFLOW" "wake_tick 65530 3 = 1" by (simp_all add: wake_tick_def)
  from demo_sleeps [OF t(1)] that show ?thesis unfolding t(2) by blast
qed

lemma quiet_clock: "clock_ok 168000000 quiet_config"
  by (simp add: clock_ok_def quiet_config_def)

section \<open>Waiting without ticks\<close>



text \<open>Waking up early. If another interrupt ends the wait while the timer has at least one tick left, the context switch first
  advances the counter by the whole ticks that have passed; no task is due, no tick is counted twice, and the timer is back in its normal mode.\<close>

theorem tickless_early:
  assumes "sys_ok C (kern s) xs" and "ahead (kern s) xs" and "\<not> COMPUTES_CPU_LOAD C" and "clock_ok hz C" and "normal_run s = 0"
    and "unat (time_next_task s) \<le> 65281" and "\<forall>t \<in> set xs. unat (time_next_task s) \<le> ticks_left (kern s) t"
    and "left = unat cnt div unat (hz div configTICK_RATE_HZ C - 1)" and "0 < left" and "left \<le> unat (time_next_task s)"
  shows "\<exists>k. SwitchContext_tickless hz C cnt s = Some (s\<lparr>kern := k, normal_run := 1, SYSTICK_LOAD := hz div configTICK_RATE_HZ C - 1\<rparr>) \<and>
     OS_INT_EXIT C ((OSIncCounter ^^ (unat (time_next_task s) - left)) (kern s)) = Some k \<and> sys_ok C k xs"
proof -
  let ?k = "(OSIncCounter ^^ (unat (time_next_task s) - left)) (kern s)"
  have ok: "sys_ok C ?k xs" by (rule iterate_counter(2) [OF assms(1)])
  from sys_ok_ChangeContext [OF ok] obtain k where "OS_INT_EXIT C ?k = Some k" "sys_ok C k xs" by (auto simp: ChangeContext_def SwitchContext_def)
  with early_wakeup [OF assms] show ?thesis by (simp add: SwitchContext_tickless_def)
qed

theorem tickless_early_witness:
  "\<exists>k s1 k2. OSDelayTask quiet_config 3 (demo_tick 65530) = Some (OK, k) \<and>
     s1 = \<lparr>kern = k, time_next_task = 3, normal_run = 0, SYSTICK_LOAD = 503997\<rparr> \<and>
     SwitchContext_tickless 168000000 quiet_config 200000 s1 = Some (s1\<lparr>kern := k2, normal_run := 1, SYSTICK_LOAD := 167999\<rparr>) \<and> sys_ok quiet_config k2 [3]"
proof -
  from late_demo obtain k where k: "OSDelayTask quiet_config 3 (demo_tick 65530) = Some (OK, k)" "sys_ok quiet_config k [3]" "settled quiet_config k"
    "ahead k [3]" "TimeToWait (tcb k 3) = 1" "OSTickCounter k = 65530" .
  let ?s = "\<lparr>kern = k, time_next_task = 3, normal_run = 0, SYSTICK_LOAD = 503997\<rparr>"
  have "ticks_left k 3 = 3" using k(5,6) by (simp add: ticks_left_def)
  with tickless_early [of quiet_config ?s "[3]" 168000000 1 200000] k quiet_clock show ?thesis by (auto simp: settled_def quiet_config_def)
qed

text \<open>C33: Sleeping past the wrap-around. \<^verbatim>\<open>WaitTickless\<close> overlooks a sleeper that wakes up past the wrap-around of the counter. If its wake-up is nearer than the longest
  wait of the timer and nearer than every wake-up before the wrap-around, the wait passes it, and the tick interrupt at the end of the wait leaves the task asleep with its
  time stamp, although its time has passed.\<close>

theorem tickless_oversleeps:
  assumes "sys_ok C (kern s) xs" and "ahead (kern s) xs" and "clock_ok hz C"
    and "t \<in> set xs" and "TimeToWait (tcb (kern s) t) < OSTickCounter (kern s)"
    and "ticks_left (kern s) t < unat (0x00FFFFFF div (hz div configTICK_RATE_HZ C - 1))"
    and "\<forall>x \<in> set xs. OSTickCounter (kern s) \<le> TimeToWait (tcb (kern s) x) \<longrightarrow> ticks_left (kern s) t < ticks_left (kern s) x"
  shows "\<exists>s1 s2 ys. WaitTickless hz C s = Some s1 \<and> ticks_left (kern s) t < unat (time_next_task s1) \<and>
     TickTimer_tickless hz C cnt s1 = Some s2 \<and> sys_ok C (kern s2) ys \<and> t \<in> set ys \<and> TimeToWait (tcb (kern s2) t) = TimeToWait (tcb (kern s) t) \<and>
     (prio_of (kern s) t \<in> prios (OSReadyList (kern s2)) \<longleftrightarrow> prio_of (kern s) t \<in> prios (OSReadyList (kern s)))"
proof -
  let ?k = "kern s" let ?m = "hz div configTICK_RATE_HZ C - 1"
  from WaitTickless_spec [OF assms(1-3)] obtain u where
    u: "WaitTickless hz C s = Some (s\<lparr>time_next_task := u, SYSTICK_LOAD := ?m * ucast u, normal_run := 0\<rparr>)" "0 < u" "unat u \<le> 65281"
    and m: "unat u = Min (insert (unat (0x00FFFFFF div ?m)) (ticks_left ?k ` in_sight ?k (set xs)))" by blast
  let ?s = "s\<lparr>time_next_task := u, SYSTICK_LOAD := ?m * ucast u, normal_run := 0\<rparr>"
  have lt: "ticks_left ?k t < unat u" unfolding m using assms(6,7) by (subst Min_gr_iff) (auto simp: in_sight_def)
  obtain n where n: "unat u = Suc n" using lt by (cases "unat u") auto
  from tickless_end [of C ?s xs hz n cnt] assms(1,3) u(3) n obtain k where
    k: "TickTimer C ((OSIncCounter ^^ n) ?k) = Some k" "TickTimer_tickless hz C cnt ?s = Some (?s\<lparr>normal_run := 1, kern := k, SYSTICK_LOAD := ?m\<rparr>)" by auto
  define K where "K = (OSIncCounter ^^ Suc n) ?k"
  have K: "OSIncCounter ((OSIncCounter ^^ n) ?k) = K" "\<And>x. tcb K x = tcb ?k x" "OSReadyList K = OSReadyList ?k" "TimeToWait (tcb ?k t) \<noteq> OSTickCounter K"
    unfolding K_def iterate_counter(3) using passed_due [OF assms(1), of t "Suc n"] lt n u(3) by (simp, simp, subst iterate_OSIncCounter, simp, simp)
  from TickTimer_spec [OF iterate_counter(2) [OF assms(1), of n]] k(1) have ok: "sys_ok C k (waiting K xs)" and w: "woken K k (due K xs)"
    unfolding K(1) by (metis option.inject)+
  have tw: "t \<in> set (waiting K xs)" "t \<notin> due K xs" using assms(4) K(2,4) by simp_all
  have ins: "installed C ?k x" if "x \<in> set xs" for x using sys_okD(3) [OF assms(1)] that by blast
  have "prio_of ?k t \<notin> prio_of ?k ` due K xs"
  proof
    assume "prio_of ?k t \<in> prio_of ?k ` due K xs"
    then obtain x where x: "x \<in> due K xs" "prio_of ?k t = prio_of ?k x" by blast
    with installed_inj [OF sys_okD(1) [OF assms(1)] ins [OF assms(4)] ins, of x] tw(2) show False by blast
  qed
  then have "prio_of ?k t \<in> prios (OSReadyList k) \<longleftrightarrow> prio_of ?k t \<in> prios (OSReadyList ?k)" by (simp add: wokenD [OF w] K(2,3))
  moreover have "TimeToWait (tcb k t) = TimeToWait (tcb ?k t)" using K(4) by (simp add: wokenD [OF w] K(2))
  ultimately show ?thesis using u(1) lt k(2) ok tw(1) by (intro exI [of _ ?s] exI [of _ "?s\<lparr>normal_run := 1, kern := k, SYSTICK_LOAD := ?m\<rparr>"] exI [of _ "waiting K xs"]) simp
qed

theorem tickless_oversleeps_witness:
  "\<exists>k s1 s2 ys. OSDelayTask quiet_config 3 (demo_tick 65530) = Some (OK, k) \<and>
     WaitTickless 168000000 quiet_config \<lparr>kern = k, time_next_task = 0, normal_run = 1, SYSTICK_LOAD = 167999\<rparr> = Some s1 \<and>
     TickTimer_tickless 168000000 quiet_config 0 s1 = Some s2 \<and> 3 < unat (time_next_task s1) \<and> sys_ok quiet_config (kern s2) ys \<and> 3 \<in> set ys"
proof -
  from late_demo obtain k where k: "OSDelayTask quiet_config 3 (demo_tick 65530) = Some (OK, k)" "sys_ok quiet_config k [3]" "settled quiet_config k"
    "ahead k [3]" "TimeToWait (tcb k 3) = 1" "OSTickCounter k = 65530" .
  let ?s = "\<lparr>kern = k, time_next_task = 0, normal_run = 1, SYSTICK_LOAD = 167999\<rparr>"
  have "ticks_left k 3 = 3" using k(5,6) by (simp add: ticks_left_def)
  with tickless_oversleeps [of quiet_config ?s "[3]" 168000000 3 0] k quiet_clock show ?thesis by (auto simp: quiet_config_def word_le_nat_alt)
qed

section \<open>The processor load\<close>

text \<open>The measurement of the processor load. In a period of a thousand ticks that starts with clear counters, the number of ticks
  before which the idle task did not run is collected, and the next tick makes it the reported load and starts a new period.\<close>

theorem load_counts_busy_ticks:
  assumes "COMPUTES_CPU_LOAD C" and "OSDutyTmp k = 0" and "DutyCnt k = 0" and "OSDuty k = 0" and "length ticks = 1000"
  shows "LastOSDuty (load_tick C idle (fold (load_tick C) ticks k)) = of_nat (length (filter Not ticks)) \<and>
     OSDuty (load_tick C idle (fold (load_tick C) ticks k)) = 0 \<and> DutyCnt (load_tick C idle (fold (load_tick C) ticks k)) = 0"
proof -
  from load_ticks [OF assms(1,2), of ticks] assms(3-5) have
    "OSDuty (fold (load_tick C) ticks k) = of_nat (length (filter Not ticks))" "unat (DutyCnt (fold (load_tick C) ticks k)) = 1000" by simp_all
  then show ?thesis using assms(1) by (simp add: load_tick_def system_load_def Idle_def Let_def word_le_nat_alt)
qed

theorem load_counts_busy_ticks_witness:
  "LastOSDuty (load_tick demo_config True (fold (load_tick demo_config) (replicate 250 False @ replicate 750 True) (demo ready_low 2))) = 250"
  using load_counts_busy_ticks [of demo_config "demo ready_low 2" "replicate 250 False @ replicate 750 True" True]
  by (simp add: demo_def boot_kernel_def)

end
