(* ===== verification/SysArch.thy ===== *)
theory SysArch
  imports Semaphore Queue
begin

text \<open>
  \<^verbatim>\<open>src/modules/LwIP/STM32F4_gnu_gcc_port/brtos_port/sys_arch.c\<close>: the layer between the network stack and the kernel. Mailboxes are dynamic
  queues of pointers, semaphores are semaphores of the kernel, and the waiting functions report the time that was spent. The two ports
  of the layer are the same code.
\<close>

section \<open>Waiting\<close>

abbreviation (input) SYS_ARCH_TIMEOUT :: uint32_t where "SYS_ARCH_TIMEOUT \<equiv> 0xFFFFFFFF"

text \<open>A waiting function returns a value, or gives up the processor with its local variables: the priority in the pend and the start time.\<close>

datatype 'a waited = Answer uint32_t 'a | Waits uint8_t ostick_t 'a

definition elapsed :: "ostick_t \<Rightarrow> ostick_t \<Rightarrow> ostick_t" where
  "elapsed StartTime EndTime =
    (let Elapsed = (if EndTime > StartTime then EndTime - StartTime else (TICK_COUNT_OVERFLOW - StartTime) + EndTime)
     in if Elapsed = 0 then 1 else Elapsed)"

definition spent :: "ostick_t \<Rightarrow> kernel \<Rightarrow> uint32_t" where
  "spent StartTime k = ucast (elapsed StartTime (OSGetTickCount k))"

text \<open>The loop without a time-out. The part from the resumption of the pend on is the second definition.\<close>

partial_function (option) sem_wait_loop :: "config \<Rightarrow> ptr \<Rightarrow> ostick_t \<Rightarrow> kernel \<Rightarrow> BRTOS_Sem list \<Rightarrow> (kernel \<times> BRTOS_Sem list) waited option" where
  "sem_wait_loop C sem StartTime k tbl =
     Option.bind (OSSemPend C sem 10000 k tbl) (\<lambda>r. case r of
       Return c s \<Rightarrow> if c = OK then Some (Answer (spent StartTime (fst s)) s) else sem_wait_loop C sem StartTime (fst s) (snd s)
     | Suspend p s \<Rightarrow> Some (Waits p StartTime s))"

definition sys_arch_sem_wait :: "config \<Rightarrow> ptr \<Rightarrow> uint32_t \<Rightarrow> kernel \<Rightarrow> BRTOS_Sem list \<Rightarrow> (kernel \<times> BRTOS_Sem list) waited option" where
  "sys_arch_sem_wait C sem time_out k tbl =
    (let StartTime = OSGetTickCount k in
     if time_out \<noteq> 0 then do {
       r \<leftarrow> OSSemPend C sem (ucast time_out) k tbl;
       Some (case r of
         Return c s \<Rightarrow> Answer (if c = OK then spent StartTime (fst s) else SYS_ARCH_TIMEOUT) s
       | Suspend p s \<Rightarrow> Waits p StartTime s) }
     else sem_wait_loop C sem StartTime k tbl)"

definition sys_arch_sem_wait_resume :: "config \<Rightarrow> ptr \<Rightarrow> uint32_t \<Rightarrow> nat \<Rightarrow> uint8_t \<Rightarrow> ostick_t \<Rightarrow> kernel \<Rightarrow> BRTOS_Sem list \<Rightarrow>
    (kernel \<times> BRTOS_Sem list) waited option" where
  "sys_arch_sem_wait_resume C sem time_out Task p StartTime k tbl =
    (if time_out \<noteq> 0 then do {
       (c, k, tbl) \<leftarrow> OSSemPend_resume sem (ucast time_out) Task p k tbl;
       Some (Answer (if c = OK then spent StartTime k else SYS_ARCH_TIMEOUT) (k, tbl)) }
     else do {
       (c, k, tbl) \<leftarrow> OSSemPend_resume sem 10000 Task p k tbl;
       if c = OK then Some (Answer (spent StartTime k) (k, tbl)) else sem_wait_loop C sem StartTime k tbl })"

section \<open>Semaphores\<close>

definition sys_sem_new :: "config \<Rightarrow> uint8_t \<Rightarrow> kernel \<Rightarrow> BRTOS_Sem list \<Rightarrow> (ptr \<times> (kernel \<times> BRTOS_Sem list) outcome) option" where
  "sys_sem_new C cnt k tbl =
    (let (_, Semaphore, tbl) = OSSemCreate C cnt None k tbl in
     if cnt = 0 then map_option (Pair Semaphore) (OSSemPend C Semaphore 1 k tbl)
     else Some (Semaphore, Return OK (k, tbl)))"

definition sys_sem_signal :: "config \<Rightarrow> ptr \<Rightarrow> kernel \<Rightarrow> BRTOS_Sem list \<Rightarrow> (kernel \<times> BRTOS_Sem list) option" where
  "sys_sem_signal C sem k tbl = map_option snd (OSSemPost C sem k tbl)"

definition sys_sem_free :: "ptr \<Rightarrow> kernel \<Rightarrow> BRTOS_Sem list \<Rightarrow> BRTOS_Sem list option" where
  "sys_sem_free sem k tbl = map_option (snd \<circ> snd) (OSSemDelete sem k tbl)"

section \<open>Mailboxes\<close>

text \<open>A message is the four bytes of a pointer. \<open>garbage\<close> is what the local variable holds if the queue cannot be created.\<close>

definition sys_mbox_new :: "(uint16_t \<Rightarrow> 'h \<Rightarrow> uint32_t \<times> 'h) \<Rightarrow> (uint32_t \<Rightarrow> 'h \<Rightarrow> 'h) \<Rightarrow> uint32_t \<Rightarrow> uint32_t \<Rightarrow> kernel \<Rightarrow> 'h \<Rightarrow> dqueues \<Rightarrow>
    uint32_t \<times> 'h \<times> dqueues" where
  "sys_mbox_new alloc dealloc garbage sz k h ds = snd (OSDQueueCreate alloc dealloc (ucast sz) 4 garbage k h ds)"

definition sys_mbox_free :: "(uint32_t \<Rightarrow> 'h \<Rightarrow> 'h) \<Rightarrow> uint32_t \<Rightarrow> kernel \<Rightarrow> 'h \<Rightarrow> dqueues \<Rightarrow> 'h \<times> dqueues" where
  "sys_mbox_free dealloc mbox k h ds = snd (snd (OSDQueueDelete dealloc mbox k h ds))"

definition sys_mbox_post :: "config \<Rightarrow> uint32_t \<Rightarrow> uint8_t list \<Rightarrow> kernel \<Rightarrow> dqueues \<Rightarrow> (kernel \<times> dqueues) option" where
  "sys_mbox_post C mbox data k ds = map_option snd (OSDQueuePost C mbox data k ds)"

abbreviation (input) ERR_OK :: int where "ERR_OK \<equiv> 0"
abbreviation (input) ERR_MEM :: int where "ERR_MEM \<equiv> - 1"

definition sys_mbox_trypost :: "config \<Rightarrow> uint32_t \<Rightarrow> uint8_t list \<Rightarrow> kernel \<Rightarrow> dqueues \<Rightarrow> (int \<times> kernel \<times> dqueues) option" where
  "sys_mbox_trypost C mbox data k ds = map_option (\<lambda>(r, s). (if r = 0 then ERR_OK else ERR_MEM, s)) (OSDQueuePost C mbox data k ds)"

partial_function (option) mbox_fetch_loop :: "config \<Rightarrow> uint32_t \<Rightarrow> uint8_t list \<Rightarrow> ostick_t \<Rightarrow> kernel \<Rightarrow> dqueues \<Rightarrow>
    (kernel \<times> dqueues \<times> uint8_t list) waited option" where
  "mbox_fetch_loop C mbox msg StartTime k ds =
     Option.bind (OSDQueuePend C mbox msg 10000 k ds) (\<lambda>r. case r of
       Return c s \<Rightarrow> if c = OK then Some (Answer (spent StartTime (fst s)) s)
         else mbox_fetch_loop C mbox (snd (snd s)) StartTime (fst s) (fst (snd s))
     | Suspend p s \<Rightarrow> Some (Waits p StartTime s))"

definition fetch_answer :: "ostick_t \<Rightarrow> uint8_t \<Rightarrow> kernel \<times> dqueues \<times> uint8_t list \<Rightarrow> (kernel \<times> dqueues \<times> uint8_t list) waited" where
  "fetch_answer StartTime c = (\<lambda>(k, ds, msg).
     if c = OK then Answer (spent StartTime k) (k, ds, msg) else Answer SYS_ARCH_TIMEOUT (k, ds, replicate 4 0))"

definition sys_arch_mbox_fetch :: "config \<Rightarrow> uint32_t \<Rightarrow> uint8_t list \<Rightarrow> uint32_t \<Rightarrow> kernel \<Rightarrow> dqueues \<Rightarrow>
    (kernel \<times> dqueues \<times> uint8_t list) waited option" where
  "sys_arch_mbox_fetch C mbox msg time_out k ds =
    (let StartTime = OSGetTickCount k in
     if time_out \<noteq> 0 then do {
       r \<leftarrow> OSDQueuePend C mbox msg (ucast time_out) k ds;
       Some (case r of Return c s \<Rightarrow> fetch_answer StartTime c s | Suspend p s \<Rightarrow> Waits p StartTime s) }
     else mbox_fetch_loop C mbox msg StartTime k ds)"

definition sys_arch_mbox_fetch_resume :: "config \<Rightarrow> uint32_t \<Rightarrow> uint8_t list \<Rightarrow> uint32_t \<Rightarrow> nat \<Rightarrow> uint8_t \<Rightarrow> ostick_t \<Rightarrow> kernel \<Rightarrow> dqueues \<Rightarrow>
    (kernel \<times> dqueues \<times> uint8_t list) waited option" where
  "sys_arch_mbox_fetch_resume C mbox msg time_out Task p StartTime k ds =
    (if time_out \<noteq> 0 then do {
       (c, s) \<leftarrow> OSDQueuePend_resume mbox msg (ucast time_out) Task p k ds;
       Some (fetch_answer StartTime c s) }
     else do {
       (c, k, ds, msg) \<leftarrow> OSDQueuePend_resume mbox msg 10000 Task p k ds;
       if c = OK then Some (Answer (spent StartTime k) (k, ds, msg)) else mbox_fetch_loop C mbox msg StartTime k ds })"

section \<open>The time spent\<close>

text \<open>The elapsed time is right for every wait of at least one tick and less than a period of the counter; without a wait it is a whole period.\<close>

lemma elapsed_ticks:
  assumes t: "tick_ok k" and n: "0 < n" "n < 65532"
  shows "unat (elapsed (OSTickCounter k) (OSTickCounter ((OSIncCounter ^^ n) k))) = n"
proof -
  let ?s = "OSTickCounter k" let ?e = "OSTickCounter ((OSIncCounter ^^ n) k)"
  have s: "unat ?s < 65532" using t by (simp add: word_less_nat_alt)
  have e: "unat ?e = (unat ?s + n) mod 65532" by (rule unat_iterate_OSIncCounter [OF t])
  show ?thesis
  proof (cases "unat ?s + n < 65532")
    case True
    then have "unat ?e = unat ?s + n" using e by simp
    then have l: "?s < ?e" "unat (?e - ?s) = n" using n by (simp_all add: word_less_nat_alt unat_sub word_le_nat_alt)
    then have "?e - ?s \<noteq> 0" using n by auto
    with l show ?thesis by (simp add: elapsed_def Let_def)
  next
    case False
    then have u: "unat ?e = unat ?s + n - 65532" using e s n by (simp add: mod_if)
    then have l: "\<not> ?s < ?e" using n by (simp add: word_less_nat_alt)
    have o: "unat (TICK_COUNT_OVERFLOW - ?s) = 65532 - unat ?s" using t by (subst unat_sub) (simp_all add: less_imp_le)
    have "unat ((TICK_COUNT_OVERFLOW - ?s) + ?e) = 65532 - unat ?s + unat ?e"
      using u s n False by (subst unat_add_lem [THEN iffD1]) (simp_all add: o)
    then have d: "unat ((TICK_COUNT_OVERFLOW - ?s) + ?e) = n" using u s False by simp
    then have "(TICK_COUNT_OVERFLOW - ?s) + ?e \<noteq> 0" using n by auto
    with l d show ?thesis by (simp add: elapsed_def Let_def)
  qed
qed

lemma elapsed_none: "elapsed s s = TICK_COUNT_OVERFLOW"
  by (simp add: elapsed_def Let_def)

lemma unat_spent: "unat (spent s k) = unat (elapsed s (OSTickCounter k))"
  using unsigned_less [of "elapsed s (OSTickCounter k)", where 'a = nat]
  by (simp add: spent_def OSGetTickCount_def unsigned_ucast_eq take_bit_nat_eq_self)

end
