(* ===== verification/SysArchProps.thy ===== *)
theory SysArchProps
  imports SysArch Demo
begin

text \<open>
  The properties of the layer between the network stack and the kernel.
\<close>

section \<open>Semaphores\<close>

lemma time_out_word:
  fixes time_out :: uint32_t
  assumes "0 < unat time_out" "unat time_out \<le> 65532"
  shows "unat (ucast time_out :: ostick_t) = unat time_out" "time_out \<noteq> 0" "0 < (ucast time_out :: ostick_t)" "(ucast time_out :: ostick_t) \<le> TICK_COUNT_OVERFLOW"
proof -
  show u: "unat (ucast time_out :: ostick_t) = unat time_out" using assms by (simp add: unsigned_ucast_eq take_bit_nat_eq_self)
  show "time_out \<noteq> 0" using assms by auto
  show "0 < (ucast time_out :: ostick_t)" "(ucast time_out :: ostick_t) \<le> TICK_COUNT_OVERFLOW" using assms u by (simp_all only: word_less_nat_alt word_le_nat_alt) simp_all
qed

text \<open>C38: A wait that is signalled in time reports the time spent. If the semaphore is signalled \<open>n\<close> ticks after the wait began, before
  the time-out, the wait ends and returns \<open>n\<close>, also across the wrap-around of the tick counter.\<close>

theorem sys_wait_signalled:
  assumes k: "sys_ok C k xs" "iNesting k = 0" "installed C k (unat (currentTask k))"
    "prio_of k (unat (currentTask k)) \<noteq> 0" "unat (currentTask k) \<notin> set xs"
    and e: "sem_at tbl j e" "sem_inv C k e" "prio_of k (unat (currentTask k)) \<notin> waiters e" "BRTOS_Sem.OSEventCount e = 0"
    and w: "unat time_out \<le> 65532" and n: "0 < n" "n < unat time_out" and top: "\<forall>q \<in> waiters e. q < prio_of k (unat (currentTask k))"
  shows "\<exists>p k1 tbl1 k2 k3 tbl3 k4. sys_arch_sem_wait C (Some j) time_out k tbl = Some (Waits p (OSTickCounter k) (k1, tbl1)) \<and>
     run_ticks C n k1 = Some k2 \<and> sys_sem_signal C (Some j) k2 tbl1 = Some (k3, tbl3) \<and>
     sys_arch_sem_wait_resume C (Some j) time_out (unat (currentTask k)) p (OSTickCounter k) k3 tbl3 = Some (Answer (of_nat n) (k4, tbl3))"
proof -
  have pos: "0 < unat time_out" using n by simp
  note t = time_out_word [OF pos w]
  have nw: "n < unat (ucast time_out :: ostick_t)" using n(2) t(1) by simp
  from sem_posted_after [OF k e t(3,4) nw top] obtain k1 k2 k3 k4 e1 e3 where
    r: "OSSemPend C (Some j) (ucast time_out) k tbl = Some (Suspend (Priority (tcb k (unat (currentTask k)))) (k1, tbl[j := e1]))"
      "run_ticks C n k1 = Some k2" "OSSemPost C (Some j) k2 (tbl[j := e1]) = Some (OK, k3, tbl[j := e3])"
      "OSSemPend_resume (Some j) (ucast time_out) (unat (currentTask k)) (Priority (tcb k (unat (currentTask k)))) k3 (tbl[j := e3]) = Some (OK, k4, tbl[j := e3])"
    and c: "OSTickCounter k4 = OSTickCounter ((OSIncCounter ^^ n) k)" by blast
  have u: "unat (spent (OSTickCounter k) k4) = n" unfolding unat_spent c using n w by (intro elapsed_ticks [OF sys_okD(4) [OF k(1)]]) simp_all
  have "spent (OSTickCounter k) k4 = of_nat n" unfolding u [symmetric] by simp
  with r t(2) show ?thesis by (simp add: sys_arch_sem_wait_def sys_sem_signal_def sys_arch_sem_wait_resume_def OSGetTickCount_def)
qed

theorem sys_wait_signalled_witness:
  "\<exists>p k1 tbl1 k2 k3 tbl3 k4. sys_arch_sem_wait demo_config (Some 0) 7 (demo ready_high 3) [demo_sem 0] = Some (Waits p 0 (k1, tbl1)) \<and>
     run_ticks demo_config 4 k1 = Some k2 \<and> sys_sem_signal demo_config (Some 0) k2 tbl1 = Some (k3, tbl3) \<and>
     sys_arch_sem_wait_resume demo_config (Some 0) 7 3 p 0 k3 tbl3 = Some (Answer 4 (k4, tbl3))"
  using sys_wait_signalled [OF demo_high_ok _ _ _ _ _ demo_sem_inv [of _ _ 0], of "[demo_sem 0]" 0 7 4]
  by (simp add: sem_at_def)

text \<open>A wait that nobody signals returns \<^verbatim>\<open>SYS_ARCH_TIMEOUT\<close> after the time-out.\<close>

theorem sys_wait_expires:
  assumes k: "sys_ok C k xs" "iNesting k = 0" "installed C k (unat (currentTask k))"
    "prio_of k (unat (currentTask k)) \<noteq> 0" "unat (currentTask k) \<notin> set xs"
    and e: "sem_at tbl j e" "sem_inv C k e" "prio_of k (unat (currentTask k)) \<notin> waiters e" "BRTOS_Sem.OSEventCount e = 0"
    and w: "0 < unat time_out" "unat time_out \<le> 65532"
  shows "\<exists>p k1 tbl1 k2 tbl2. sys_arch_sem_wait C (Some j) time_out k tbl = Some (Waits p (OSTickCounter k) (k1, tbl1)) \<and>
     run_ticks C (unat time_out) k1 = Some k2 \<and>
     sys_arch_sem_wait_resume C (Some j) time_out (unat (currentTask k)) p (OSTickCounter k) k2 tbl1 = Some (Answer SYS_ARCH_TIMEOUT (k2, tbl2))"
proof -
  note t = time_out_word [OF w]
  from sem_expires_after [OF k e t(3,4)] obtain k1 k2 e1 e2 where
    "OSSemPend C (Some j) (ucast time_out) k tbl = Some (Suspend (Priority (tcb k (unat (currentTask k)))) (k1, tbl[j := e1]))"
    "run_ticks C (unat time_out) k1 = Some k2"
    "OSSemPend_resume (Some j) (ucast time_out) (unat (currentTask k)) (Priority (tcb k (unat (currentTask k)))) k2 (tbl[j := e1]) = Some (TIMEOUT, k2, tbl[j := e2])"
    unfolding t(1) by blast
  with t(2) show ?thesis by (simp add: sys_arch_sem_wait_def sys_arch_sem_wait_resume_def OSGetTickCount_def)
qed

theorem sys_wait_expires_witness:
  "\<exists>p k1 tbl1 k2 tbl2. sys_arch_sem_wait demo_config (Some 0) 7 (demo ready_high 3) [demo_sem 0] = Some (Waits p 0 (k1, tbl1)) \<and>
     run_ticks demo_config 7 k1 = Some k2 \<and> sys_arch_sem_wait_resume demo_config (Some 0) 7 3 p 0 k2 tbl1 = Some (Answer SYS_ARCH_TIMEOUT (k2, tbl2))"
  using sys_wait_expires [OF demo_high_ok _ _ _ _ _ demo_sem_inv [of _ _ 0], of "[demo_sem 0]" 0 7] by (simp add: sem_at_def)

text \<open>C40: A wait that does not have to wait reports a whole period of the tick counter. If the semaphore is available, the
  function returns at once, in the same tick, but the elapsed time it returns is 65532.\<close>

theorem sys_wait_immediate:
  assumes "sem_at tbl j e" and "BRTOS_Sem.OSEventCount e > 0" and "iNesting k = 0"
  shows "\<exists>tbl'. sys_arch_sem_wait C (Some j) time_out k tbl = Some (Answer 65532 (k, tbl'))"
proof -
  from OSSemPend_take [OF assms] obtain tbl' where r: "\<And>w. OSSemPend C (Some j) w k tbl = Some (Return OK (k, tbl'))" by blast
  have s: "spent (OSTickCounter k) k = 65532" by (simp add: spent_def OSGetTickCount_def elapsed_none)
  have "sem_wait_loop C (Some j) (OSTickCounter k) k tbl = Some (Answer 65532 (k, tbl'))"
    by (subst sem_wait_loop.simps) (simp add: r s)
  with r s show ?thesis by (simp add: sys_arch_sem_wait_def OSGetTickCount_def Let_def)
qed

theorem sys_wait_immediate_witness: "\<exists>tbl. sys_arch_sem_wait demo_config (Some 0) 7 (demo ready_high 3) [demo_sem 1] = Some (Answer 65532 (demo ready_high 3, tbl))"
  using sys_wait_immediate [of "[demo_sem 1]" 0 "demo_sem 1"] by (simp add: sem_at_def)

section \<open>Mailboxes\<close>

text \<open>A message posted to a mailbox with room is accepted and is returned by the fetch that finds it first, oldest message first.\<close>

theorem sys_mbox_fifo:
  assumes "dqueue_holds ds mbox xs" and "mbox \<noteq> 0" and "OSEventAllocated (DEvent ds mbox) = TRUE8" and "OSEventWait (DEvent ds mbox) = 0"
    and "length msg = unat (OSQTSize (DQueue ds (DPointer ds mbox)))" and "length xs < unat (OSQSize (DQueue ds (DPointer ds mbox)))" and "iNesting k = 0"
  shows "\<exists>ds1 ds2. sys_mbox_trypost C mbox msg k ds = Some (ERR_OK, k, ds1) \<and>
     sys_arch_mbox_fetch C mbox old time_out k ds1 = Some (Answer 65532 (k, ds2, hd (xs @ [msg]))) \<and> dqueue_holds ds2 mbox (tl (xs @ [msg]))"
proof -
  from OSDQueuePost_room [OF assms(1-6), of C k] obtain ds1 where
    p: "OSDQueuePost C mbox msg k ds = Some (WRITE_BUFFER_OK, k, ds1)" "dqueue_holds ds1 mbox (xs @ [msg])" "DEvent ds1 mbox = DEvent ds mbox" by blast
  have h: "dqueue_holds ds1 mbox (hd (xs @ [msg]) # tl (xs @ [msg]))" using p(2) by (cases xs) auto
  have a: "OSEventAllocated (DEvent ds1 mbox) = TRUE8" using assms(3) p(3) by simp
  have s: "spent (OSTickCounter k) k = 65532" by (simp add: spent_def OSGetTickCount_def elapsed_none)
  have t: "\<exists>ds2. OSDQueuePend C mbox old w k ds1 = Some (Return READ_BUFFER_OK (k, ds2, hd (xs @ [msg]))) \<and> dqueue_holds ds2 mbox (tl (xs @ [msg]))" for w
    by (rule OSDQueuePend_take [OF h assms(2) a assms(7)])
  show ?thesis
  proof (cases "time_out = 0")
    case True
    from t [of 10000] obtain ds2 where r: "OSDQueuePend C mbox old 10000 k ds1 = Some (Return READ_BUFFER_OK (k, ds2, hd (xs @ [msg])))"
      "dqueue_holds ds2 mbox (tl (xs @ [msg]))" by blast
    have "mbox_fetch_loop C mbox old (OSTickCounter k) k ds1 = Some (Answer 65532 (k, ds2, hd (xs @ [msg])))"
      by (subst mbox_fetch_loop.simps) (simp add: r(1) s)
    with r p(1) True show ?thesis by (simp add: sys_mbox_trypost_def sys_arch_mbox_fetch_def OSGetTickCount_def)
  next
    case False
    from t [of "ucast time_out"] obtain ds2 where r: "OSDQueuePend C mbox old (ucast time_out) k ds1 = Some (Return READ_BUFFER_OK (k, ds2, hd (xs @ [msg])))"
      "dqueue_holds ds2 mbox (tl (xs @ [msg]))" by blast
    with p(1) False s show ?thesis by (simp add: sys_mbox_trypost_def sys_arch_mbox_fetch_def fetch_answer_def OSGetTickCount_def)
  qed
qed

theorem sys_mbox_fifo_witness:
  "\<exists>ds1 ds2. sys_mbox_trypost demo_config 1 [7, 8, 9] (demo ready_low 2) demo_dqueues = Some (ERR_OK, demo ready_low 2, ds1) \<and>
     sys_arch_mbox_fetch demo_config 1 [] 5 (demo ready_low 2) ds1 = Some (Answer 65532 (demo ready_low 2, ds2, [7, 8, 9]))"
  using sys_mbox_fifo [OF demo_dqueue_holds, of "[7, 8, 9]" "demo ready_low 2" demo_config "[]" 5]
  by (auto simp: demo_dqueues_def demo_queue_event_def)

end
