(* ===== verification/Spec2Isabelle.thy ===== *)
theory Spec2Isabelle
  imports KernelProps EventProps QueueProps ServiceProps InfoProps TerminalProps DeviceProps UmmProps TicklessProps SysArchProps
begin

text \<open>
  BRTOS is a small preemptive real-time kernel for microcontrollers. This development models its
  kernel and services, \<^verbatim>\<open>src/brtos\<close>, on the Cortex-M4 port \<^verbatim>\<open>src/hal/GCC_CORTEX-M4\<close>, the
  heap allocator \<^verbatim>\<open>src/hal/MemoryAllocation\<close>, the command line \<^verbatim>\<open>src/modules/terminal\<close> and the kernel services for
  the network stack, \<^verbatim>\<open>sys_arch.c\<close> in \<^verbatim>\<open>src/modules/LwIP\<close>, and proves the
  properties that make it a kernel: the highest ready task runs, sleeping and waiting end at the
  right tick, and the communication services, the timers and the clocks keep their promises.

  \<^bold>\<open>The program.\<close> A fixed table of task control blocks (\<^verbatim>\<open>ContextTask\<close>) and a vector that
  maps each of the 32 priorities to its only task (\<^verbatim>\<open>PriorityVector\<close>) are driven by three bit
  sets of priorities: \<^verbatim>\<open>OSReadyList\<close>, \<^verbatim>\<open>OSBlockedList\<close> (whose set bits are the unblocked
  priorities) and the waiting list of each event. The scheduler picks the highest bit of the ready
  and unblocked ones; \<^verbatim>\<open>ChangeContext\<close> and the end of the tick interrupt switch to that task.
  Tasks that sleep or wait with a time-out stand in one doubly linked delay list, which the tick
  interrupt walks. Semaphores, mutexes, mailboxes and queues share the same protocol: a pend
  enters the waiting list and the delay list and gives up the processor; a post takes the highest
  waiter out of the waiting list and readies it; the pend, when it runs again, finds out whether
  it was a time-out or a post. On top of the kernel, a task runs the soft timers from two binary heaps; clocks
  count seconds; a table holds the open devices; text functions print the state of the kernel into buffers; and the
  terminal edits a line, searches the command and passes the words on. The heap allocator, from which dynamic queues and tasks get their
  memory, keeps one list of all blocks and one of the free blocks, linked by 15-bit block numbers in the heap itself.
  When nothing is ready the idle task runs; in the tickless mode it sets the tick timer to the next wake-up and the counter jumps there. The network
  stack waits on semaphores and dynamic queues through a layer that measures the time spent.

  \<^bold>\<open>The theories\<close>, each named after the part of the code it models:
  \<^item> \<open>Prelude\<close>: machine types, checked array accesses, words as sets of priorities.
  \<^item> \<open>Scheduler\<close>: \<^verbatim>\<open>PriorityMask\<close>, \<^verbatim>\<open>SAScheduler\<close> in its three widths and the scheduler
    that counts leading zeros. Both implement the interface \<open>highest_bit\<close>.
  \<^item> \<open>Kernel\<close>: configuration, task control block, global variables, \<^verbatim>\<open>OSSchedule\<close>, the tick
    counter and the context switch, with the invariant \<open>kernel_ok\<close> (the priority vector, the task
    control blocks and the ready list agree).
  \<^item> \<open>DelayList\<close>: the two list macros on the pointers of the task control blocks. \<open>delay_list k xs\<close>
    is the abstraction to a list of tasks; the interface \<open>delay_queue\<close> states append and removal.
  \<^item> \<open>Tasks\<close>: \<^verbatim>\<open>PreInstallTasks\<close>, both versions of \<^verbatim>\<open>OSInstallTask\<close> with the initial stack,
    \<^verbatim>\<open>OSUninstallTask\<close>, \<^verbatim>\<open>BRTOSStart\<close> and the blocking functions; \<open>Blocking\<close> holds the
    lemmas on the latter.
  \<^item> \<open>Tick\<close>: \<^verbatim>\<open>OSDelayTask\<close>, \<^verbatim>\<open>OSDelayTaskHMSM\<close>, \<^verbatim>\<open>OS_TICK_HANDLER\<close> and the tick
    interrupt, with the system invariant \<open>sys_ok C k xs\<close> (a consistent kernel, the delay list
    \<open>xs\<close> of installed tasks, a tick counter in range and a runnable idle task).
  \<^item> \<open>Events\<close>: what all events share, with the interface \<open>wait_queue\<close> of a waiting list;
    \<open>Semaphore\<close>, \<open>Mutex\<close>, \<open>Mailbox\<close>, \<open>Ring\<close> (circular buffers, interfaces \<open>cell\<close> and \<open>fifo\<close>)
    and \<open>Queue\<close> (event queues and dynamic queues); \<open>Init\<close>: \<^verbatim>\<open>BRTOSInit\<close>.
  \<^item> \<open>System\<close>: the kernel in operation, a step relation over ticks, delays of any length, and pends, resumptions and posts of any
    number of tasks and semaphores in any order. Mutexes, mailboxes, queues and the installation of tasks are not part of these runs; their
    properties are about single calls or pairs of calls from every consistent state.
  \<^item> \<open>TimerHeap\<close> (\<^verbatim>\<open>Subir\<close> and \<^verbatim>\<open>Descer\<close>) and \<open>SoftTimer\<close> (the other functions of \<^verbatim>\<open>stimer.c\<close>, with the timer
    task split at its sleep); \<open>Calendar\<close>: \<^verbatim>\<open>OSTime.c\<close>.
  \<^item> \<open>Info\<close> and \<open>TaskList\<close>: \<^verbatim>\<open>OSInfo.c\<close>, with the interface \<open>row_printer\<close> of the two tables; the scan of a stack is
    specified by \<open>stack_bytes\<close>, the distance to the first run of zero words.
  \<^item> \<open>Terminal\<close>: the definitions for \<^verbatim>\<open>terminal.c\<close>, the search for a command and the bounds of the buffers;
    \<open>TerminalLine\<close>: the words of a line and the command that gets them; \<open>TerminalSession\<close>: whole sessions, and the line that the up key
    brings back. \<open>Device\<close>: \<^verbatim>\<open>device.c\<close>.
  \<^item> \<open>UmmHeap\<close>: the definitions for \<^verbatim>\<open>umm_malloc.c\<close> with the first-fit search that \<^verbatim>\<open>umm_malloc_cfg.h\<close> configures; \<open>UmmLinks\<close> and \<open>UmmViews\<close>: doubly linked lists and the effect of each step on the
    four links and the mark of every block; \<open>UmmInv\<close>: the invariant \<open>heap_inv h bs fl\<close> (the blocks \<open>bs\<close> by address and the free list \<open>fl\<close>);
    \<open>UmmSpec\<close>, \<open>UmmFree\<close> and \<open>UmmAlloc\<close>: the contract \<open>heap_ok h U\<close> in terms of the blocks in use; \<open>UmmAccount\<close>: failing requests and the
    reported sizes; \<open>UmmSession\<close>: sessions with the application's data; \<open>UmmUse\<close>: the interface \<open>allocator\<close> of the dynamic queues and
    tasks, which \<^verbatim>\<open>umm_malloc\<close> and \<^verbatim>\<open>umm_free\<close> implement.
  \<^item> \<open>Tickless\<close>: the idle task and, from \<^verbatim>\<open>HAL.c\<close>, the tickless mode, whose variables stand beside the kernel in the record \<open>tickless\<close>.
    \<open>SysArch\<close>: semaphores and mailboxes of the network stack. Its waiting functions are split like the pends.
  \<^item> \<open>Demo\<close>: one concrete system, on which the properties of the kernel are exercised; \<open>KernelProps\<close>,
    \<open>EventProps\<close>, \<open>QueueProps\<close>, \<open>ServiceProps\<close> (timers and clocks), \<open>InfoProps\<close>, \<open>TerminalProps\<close>, \<open>DeviceProps\<close>,
    \<open>UmmProps\<close> (the heap), \<open>TicklessProps\<close>, \<open>SysArchProps\<close> and this theory state the properties.

  \<^bold>\<open>How the code is modelled.\<close> Every function of the code is a function on an explicit state: the
  record \<open>kernel\<close> of the global variables, and the table of the event's control blocks. The
  result \<^term>\<open>None\<close> stands for undefined behaviour (an array access out of bounds, a null or
  dangling pointer), so a theorem that a call returns \<^term>\<open>Some\<close> result also shows its absence.
  Return codes are the numbers of the code. A function that gives up the processor in the middle
  is two definitions: the part up to \<^verbatim>\<open>ChangeContext\<close> returns \<open>Suspend\<close> with the local
  priority variable, the part after it is the definition with the suffix \<open>_resume\<close>, applied to
  the state the task finds when it runs again. Critical sections make each part atomic. Options of
  \<^verbatim>\<open>BRTOSConfig.h\<close> are fields of the argument \<open>C\<close>, so theorems hold for all of them; the
  allocator behind \<^verbatim>\<open>BRTOS_ALLOC\<close> and \<^verbatim>\<open>BRTOS_DEALLOC\<close> is a parameter, which \<open>UmmUse\<close> instantiates. Parameters are also the callbacks of the timers, the functions of the
  terminal's commands and the drivers of the devices, which belong to the application; what a theorem needs of them is among its
  hypotheses. The callbacks of the timers are only assumed to return and to leave the timers alone (\<open>tidy\<close>): they may
  change the kernel in any way, any number of ticks may pass while they run, and they may ask for any repetition.

  \<^bold>\<open>Loops and bounds.\<close> The walk of the delay list and the search in it follow pointers and are
  partial functions with the result \<^term>\<open>None\<close> for a walk that does not end; both are proved to
  return on every list the kernel builds. So are the way down in the timer heap, whose index is an \<^verbatim>\<open>int8_t\<close>, the
  two loops of the timer task, whatever the callbacks do to the kernel and the tick counter, the scan of a stack, the binary search of the terminal with its \<^verbatim>\<open>int8_t\<close> limits and the
  walks over the list of added commands, the search of the free list, the loop of \<^verbatim>\<open>umm_info\<close> and the search for the next
  wake-up, each with its lemma that it returns. The two loops of \<^verbatim>\<open>sys_arch.c\<close> that pend without a time-out repeat as long as the pend
  fails; they end at the first pend that succeeds or gives up the processor, and are shown to return where a token or a message is there. The other loops are bounded by a table size, a task count,
  an element size or the length of a buffer and are recursive functions. No fuel is used.

  \<^bold>\<open>What is shown.\<close> Scheduling and time: the running task is the highest runnable one after every
  switch, tick, delay, pend, post, block and unblock; a delay and a time-out of \<open>w\<close> ticks end at the
  \<open>w\<close>-th tick for every \<open>w\<close> up to 65532 across the wrap-around of the counter; a tick wakes exactly
  the tasks that are due. Events: waiters are served by priority, posts never lose or invent a
  token, the priority ceiling is entered and left exactly, uncontended acquire and release is the
  identity, and queues are first-in-first-out lists in disjoint buffers. Services: a turn of the timer task
  always ends, runs the callbacks of timers that are due, and leaves none that is, the calendar is the Gregorian one, numbers and tables are printed
  as they should within buffers of a known size, a name opens one device, and the terminal never leaves its buffers while a line is typed,
  calls the command that the line names with the words of the line, and brings the last line back. Memory: areas of at most 524276 bytes from the allocator have
  the requested room, never overlap and keep what was written into them, a released area is free again, and dynamic queues and tasks return
  all they took. A tickless wait leaves the kernel that single ticks leave as long as no task wakes up past the wrap-around, the measured load counts the busy ticks, and the network stack is told how long it waited. The same model shows
  where the code does not do this: messages that are delivered twice or taken by another task
  between the post and the resumption of the waiter, a release that does not reschedule, a
  reserved priority that is lost, delays longer than the counter's period, a binary semaphore that
  ignores its initial value, dynamic queues that error checking rejects, timers that fire before their time, arrays that
  are too short for what is printed, a seventh word that is written behind an array, device numbers taken from the wrong digit,
  requests for more than 524276 bytes of memory that are granted with too few blocks, tickless waits that pass a wake-up beyond the wrap-around, and waits of no length that are
  reported as a whole period of the counter.

  \<^bold>\<open>What is not modelled.\<close> The timer hook; the contents of the saved registers beyond
  the initial frame; the optional trace and watermark code; the tick timer beyond its reload and counter registers; the 32-bit tick
  type; the other processor ports, which differ in assembly code and stack frames;
  the best-fit build of the heap allocator; the call of \<^verbatim>\<open>COMPUTE_TASK_LOAD\<close> at a switch (no configuration enables it); the thread list of \<^verbatim>\<open>sys_arch.c\<close>, which installs tasks by an interface the kernel no longer has; the vendored network and file system and the drivers of displays and Ethernet, which are input and output of hardware; the example configuration
  and the test applications. Interrupts other than the tick enter as calls of the post functions with a non-zero
  \<^verbatim>\<open>iNesting\<close>.
\<close>

section \<open>Waiting with a time-out\<close>

text \<open>
  C1: a time-out is exact. A task that pends on an exhausted semaphore with a time-out of \<open>w\<close>
  ticks, which nobody posts, stays suspended for the first \<open>w - 1\<close> tick interrupts and is woken by the \<open>w\<close>-th; when it resumes,
  \<^verbatim>\<open>OSSemPend\<close> returns \<^verbatim>\<open>TIMEOUT\<close>, and the semaphore has the waiters and the count it
  had before.
\<close>

theorem sem_timeout_exact:
  assumes k: "sys_ok C k xs" "iNesting k = 0" "installed C k (unat (currentTask k))"
    "prio_of k (unat (currentTask k)) \<noteq> 0" "unat (currentTask k) \<notin> set xs"
    and e: "sem_at tbl j e" "sem_inv C k e" "prio_of k (unat (currentTask k)) \<notin> waiters e" "BRTOS_Sem.OSEventCount e = 0"
    and w: "0 < w" "w \<le> TICK_COUNT_OVERFLOW"
  defines "t \<equiv> unat (currentTask k)"
  shows "\<exists>k1 k2 e1 e2. OSSemPend C (Some j) w k tbl = Some (Suspend (Priority (tcb k t)) (k1, tbl[j := e1])) \<and>
     (\<forall>m < unat w. \<exists>km. run_ticks C m k1 = Some km \<and> prio_of k t \<notin> prios (OSReadyList km)) \<and>
     run_ticks C (unat w) k1 = Some k2 \<and> timed_out C k2 t \<and>
     OSSemPend_resume (Some j) w t (Priority (tcb k t)) k2 (tbl[j := e1]) = Some (TIMEOUT, k2, tbl[j := e2]) \<and>
     sem_inv C k2 e2 \<and> waiters e2 = waiters e \<and> BRTOS_Sem.OSEventCount e2 = 0"
  using sem_expires_after [OF assms(1-11)] unfolding t_def by blast

theorem sem_timeout_exact_witness:
  "\<exists>k1 k2 e1 e2. OSSemPend demo_config (Some 0) 7 (demo ready_high 3) [demo_sem 0] = Some (Suspend 10 (k1, [e1])) \<and>
     (\<exists>k6. run_ticks demo_config 6 k1 = Some k6 \<and> 10 \<notin> prios (OSReadyList k6)) \<and>
     run_ticks demo_config 7 k1 = Some k2 \<and> timed_out demo_config k2 3 \<and>
     OSSemPend_resume (Some 0) 7 3 10 k2 [e1] = Some (TIMEOUT, k2, [e2]) \<and> waiters e2 = {}"
  using sem_timeout_exact [OF demo_high_ok _ _ _ _ _ demo_sem_inv [of _ _ 0], of "[demo_sem 0]" 0 7]
  by (auto simp: sem_at_def)

text \<open>
  C2: a post before the time-out succeeds. If the semaphore is posted after \<open>n < w\<close> ticks while
  the task is the waiter of the highest priority, the post readies the task; when it resumes,
  \<^verbatim>\<open>OSSemPend\<close> returns \<^verbatim>\<open>OK\<close>, the task has left both the waiting list and the delay list,
  so no later tick can time it out, and the count is unchanged.
\<close>

theorem sem_post_in_time:
  assumes k: "sys_ok C k xs" "iNesting k = 0" "installed C k (unat (currentTask k))"
    "prio_of k (unat (currentTask k)) \<noteq> 0" "unat (currentTask k) \<notin> set xs"
    and e: "sem_at tbl j e" "sem_inv C k e" "prio_of k (unat (currentTask k)) \<notin> waiters e" "BRTOS_Sem.OSEventCount e = 0"
    and w: "0 < w" "w \<le> TICK_COUNT_OVERFLOW"
    and n: "n < unat w" and top: "\<forall>q \<in> waiters e. q < prio_of k (unat (currentTask k))"
  defines "t \<equiv> unat (currentTask k)"
  shows "\<exists>k1 k2 k3 k4 e1 e3 zs. OSSemPend C (Some j) w k tbl = Some (Suspend (Priority (tcb k t)) (k1, tbl[j := e1])) \<and>
     run_ticks C n k1 = Some k2 \<and> OSSemPost C (Some j) k2 (tbl[j := e1]) = Some (OK, k3, tbl[j := e3]) \<and>
     prio_of k t \<in> prios (OSReadyList k3) \<and>
     OSSemPend_resume (Some j) w t (Priority (tcb k t)) k3 (tbl[j := e3]) = Some (OK, k4, tbl[j := e3]) \<and>
     sys_ok C k4 zs \<and> t \<notin> set zs \<and> sem_inv C k4 e3 \<and> waiters e3 = waiters e \<and> BRTOS_Sem.OSEventCount e3 = 0"
  using sem_posted_after [OF assms(1-13)] unfolding t_def by blast

theorem sem_post_in_time_witness:
  "\<exists>k1 k2 k3 k4 e1 e3. OSSemPend demo_config (Some 0) 7 (demo ready_high 3) [demo_sem 0] = Some (Suspend 10 (k1, [e1])) \<and>
     run_ticks demo_config 4 k1 = Some k2 \<and> OSSemPost demo_config (Some 0) k2 [e1] = Some (OK, k3, [e3]) \<and>
     OSSemPend_resume (Some 0) 7 3 10 k3 [e3] = Some (OK, k4, [e3])"
  using sem_post_in_time [OF demo_high_ok _ _ _ _ _ demo_sem_inv [of _ _ 0], of "[demo_sem 0]" 0 7 4]
  by (auto simp: sem_at_def)

section \<open>The running system\<close>





text \<open>
  C5: a counting semaphore conserves its tokens. However ticks, delays, pends, time-outs and posts
  interleave, the tokens of the semaphore (its count and those handed to tasks that have not
  resumed yet) and the successful pends grow together by exactly the number of successful posts.
\<close>

theorem tokens_conserved:
  assumes "reachable C s0 s" and "system_inv C s0 xs" and "counting C s0 j"
  shows "tokens C s j + taken s j + posted s0 j = tokens C s0 j + taken s0 j + posted s j"
  using reachable_balanced [OF assms] by (simp add: balanced_def)

theorem tokens_conserved_witness:
  "\<exists>s. reachable demo_config (demo_system 1) s \<and> taken s 0 = 1 \<and> tokens demo_config s 0 = 0"
proof -
  let ?e = "(demo_sem 1)\<lparr>BRTOS_Sem.OSEventCount := 0\<rparr>"
  let ?s = "(demo_system 1)\<lparr>ker := demo ready_high 3, sems := [?e], taken := add_if (OK = OK) 0 (taken (demo_system 1))\<rparr>"
  have p: "OSSemPend demo_config (Some 0) 7 (ker (demo_system 1)) (sems (demo_system 1)) = Some (Return OK (demo ready_high 3, [?e]))"
    using OSSemPend_take [of "[demo_sem 1]" 0 "demo_sem 1" "demo ready_high 3" demo_config 7] by (simp add: demo_system_def sem_at_def)
  have r: "reachable demo_config (demo_system 1) ?s"
    by (rule next_state [OF start step.pend_return [OF _ _ _ _ p]]) (simp_all add: demo_system_def good_wait_def)
  have f: "in_flight demo_config (demo_system 1) 0 = {}" by (simp add: in_flight_def demo_system_def)
  have c: "counting demo_config (demo_system 1) 0" by (simp add: counting_def demo_system_def)
  from tokens_conserved [OF r demo_system_inv c] f show ?thesis
    by (intro exI [of _ ?s] conjI r) (simp_all add: tokens_def demo_system_def add_if_def)
qed



end
